(* ===== verification/Prelude.thy ===== *)
theory Prelude
  imports Main "HOL-Library.Word" "HOL-Library.Signed_Division" "HOL-Library.AList"
begin

text \<open>
  Shared vocabulary of the development: the Go types the sources use, the operations of the
  language the models need (slice copy, truncating division on \<open>int64\<close>, association lists for
  Go maps), and the generic lemmas the component theories rely on.

  Go's \<open>int\<close> and \<open>int64\<close> values that count bytes, pieces or nanoseconds are HOL \<open>int\<close>s; the
  division of the source truncates towards zero and is written \<open>sdiv\<close> / \<open>smod\<close>. Bytes are 8-bit
  words. A Go map that the code ranges over is an association list with distinct keys: the list
  order stands for Go's unspecified iteration order, and no theorem fixes it.
\<close>

section \<open>Types\<close>

type_synonym byte = "8 word"
type_synonym time_ns = int
type_synonym ref = nat
type_synonym infohash = string

text \<open>The errors the modelled operations return; \<open>Panic\<close> stands for a run-time panic.\<close>

datatype go_error =
    ErrPieceEvicted
  | ErrEOF
  | ErrShortWrite
  | ErrNotOnDisk
  | ErrIO
  | ErrFileClosed
  | ErrReaderClosed
  | ErrReaderClosedDuringRead
  | ErrInvalidWhence
  | ErrNegativePosition
  | ErrDeadlineExceeded
  | ErrWaitTimeout
  | ErrContext
  | Panic

named_theorems ledger_simps \<open>facts on the byte accounting of pieces and caches\<close>
named_theorems frame_simps \<open>what an operation leaves unchanged\<close>

section \<open>Slices\<close>

text \<open>Go's \<open>copy(dst[off:], src)\<close> on a slice that holds \<open>off\<close>: as many bytes as fit.\<close>

definition copy_at :: "nat \<Rightarrow> 'a list \<Rightarrow> 'a list \<Rightarrow> 'a list" where
  "copy_at off src dst =
     take off dst @ take (length dst - off) src @ drop (off + length src) dst"

lemma length_copy_at [simp]: "off \<le> length dst \<Longrightarrow> length (copy_at off src dst) = length dst"
  by (auto simp: copy_at_def)

lemma nth_copy_at:
  assumes "off \<le> length dst" "i < length dst"
  shows "copy_at off src dst ! i =
    (if off \<le> i \<and> i < off + length src then src ! (i - off) else dst ! i)"
  using assms by (auto simp: copy_at_def nth_append min_def)

lemma copy_at_slice:
  assumes "off + length src \<le> length dst"
  shows "take (length src) (drop off (copy_at off src dst)) = src"
  using assms by (auto simp: copy_at_def min_def)

lemma copy_at_whole: "length src = length dst \<Longrightarrow> copy_at 0 src dst = src"
  by (simp add: copy_at_def)

text \<open>A slice \<open>src[off:off+n]\<close>.\<close>

definition subslice :: "nat \<Rightarrow> nat \<Rightarrow> 'a list \<Rightarrow> 'a list" where
  "subslice off n xs = take n (drop off xs)"

lemma length_subslice [simp]: "off + n \<le> length xs \<Longrightarrow> length (subslice off n xs) = n"
  by (simp add: subslice_def)

lemma nth_subslice: "i < n \<Longrightarrow> off + n \<le> length xs \<Longrightarrow> subslice off n xs ! i = xs ! (off + i)"
  by (simp add: subslice_def)

lemma subslice_append: "subslice off m xs @ subslice (off + m) n xs = subslice off (m + n) xs"
  by (simp add: subslice_def take_add drop_drop add.commute)

lemma subslice_subslice:
  "i + n \<le> m \<Longrightarrow> subslice i n (subslice off m xs) = subslice (off + i) n xs"
  by (simp add: subslice_def drop_take add.commute)

lemma subslice_eqI:
  assumes "off + n \<le> length xs" "off' + n \<le> length ys"
    and "\<And>i. i < n \<Longrightarrow> xs ! (off + i) = ys ! (off' + i)"
  shows "subslice off n xs = subslice off' n ys"
  using assms by (intro nth_equalityI) (auto simp: nth_subslice)

section \<open>Truncating division\<close>

lemma sdiv_nonneg [simp]: "0 \<le> a \<Longrightarrow> 0 \<le> b \<Longrightarrow> a sdiv b = a div b" for a b :: int
  by (auto simp: signed_divide_int_def sgn_if)

lemma smod_nonneg [simp]: "0 \<le> a \<Longrightarrow> 0 \<le> b \<Longrightarrow> a smod b = a mod b" for a b :: int
  by (auto simp: signed_modulo_int_def sgn_if)

lemma sdiv_mono_div:
  "0 \<le> a \<Longrightarrow> a \<le> b \<Longrightarrow> 0 < c \<Longrightarrow> a sdiv c \<le> b sdiv c" for a b c :: int
  by (simp add: zdiv_mono1)

section \<open>Association lists for Go maps\<close>

lemma distinct_fst_delete [simp]:
  "distinct (map fst al) \<Longrightarrow> distinct (map fst (AList.delete k al))"
  by (rule AList.distinct_delete)

lemma map_of_SomeI: "distinct (map fst al) \<Longrightarrow> (k, v) \<in> set al \<Longrightarrow> map_of al k = Some v"
  by (simp)

lemma set_delete_eq: "set (AList.delete k al) = {kv \<in> set al. fst kv \<noteq> k}"
  by (auto simp: AList.delete_eq)

lemma update_fresh: "k \<notin> fst ` set al \<Longrightarrow> AList.update k v al = al @ [(k, v)]"
  by (induction al) auto

lemma set_al_update: "x \<in> set (AList.update k v al) \<Longrightarrow> x = (k, v) \<or> x \<in> set al"
  by (induction al) (auto split: if_splits)

text \<open>The total of a measure over a map, and what inserting and deleting an entry changes.\<close>

definition sum_al :: "('v \<Rightarrow> int) \<Rightarrow> ('k \<times> 'v) list \<Rightarrow> int" where
  "sum_al f al = (\<Sum>(k, v)\<leftarrow>al. f v)"

lemma sum_al_Nil [simp]: "sum_al f [] = 0"
  and sum_al_Cons [simp]: "sum_al f (kv # al) = f (snd kv) + sum_al f al"
  and sum_al_append [simp]: "sum_al f (al @ bl) = sum_al f al + sum_al f bl"
  by (auto simp: sum_al_def split: prod.splits)

lemma sum_al_cong:
  "(\<And>k v. (k, v) \<in> set al \<Longrightarrow> f v = g v) \<Longrightarrow> sum_al f al = sum_al g al"
  by (simp add: sum_al_def cong: map_cong) (auto intro!: arg_cong [where f = sum_list])

lemma sum_al_delete:
  "distinct (map fst al) \<Longrightarrow> map_of al k = Some v \<Longrightarrow>
    sum_al f (AList.delete k al) = sum_al f al - f v"
proof (induction al)
  case Nil
  then show ?case by simp
next
  case (Cons kv al)
  show ?case
  proof (cases "fst kv = k")
    case True
    with Cons.prems have "k \<notin> fst ` set al" and "snd kv = v"
      by (auto simp: image_iff)
    with True show ?thesis by (cases kv) simp
  next
    case False
    with Cons show ?thesis by (cases kv) auto
  qed
qed

lemma sum_al_nonneg: "(\<And>k v. (k, v) \<in> set al \<Longrightarrow> 0 \<le> f v) \<Longrightarrow> 0 \<le> sum_al f al"
  by (induction al) (fastforce simp: add_nonneg_nonneg)+

section \<open>Hexadecimal infohashes\<close>

text \<open>
  \<open>encoding/hex.DecodeString\<close> followed by the length test the handlers make: forty hexadecimal
  digits of either case.
\<close>

definition is_hex_digit :: "char \<Rightarrow> bool" where
  "is_hex_digit c \<longleftrightarrow>
     (let n = of_char c :: nat in
        (48 \<le> n \<and> n \<le> 57) \<or> (97 \<le> n \<and> n \<le> 102) \<or> (65 \<le> n \<and> n \<le> 70))"

definition valid_hash :: "string \<Rightarrow> bool" where
  "valid_hash h \<longleftrightarrow> length h = 40 \<and> list_all is_hex_digit h"

section \<open>A range loop with a break\<close>

text \<open>
  \<^verbatim>\<open>for _, x := range xs { if !more { break }; body(x) }\<close>: how the source walks candidate lists.
\<close>

fun range_while :: "('s \<Rightarrow> bool) \<Rightarrow> ('a \<Rightarrow> 's \<Rightarrow> 's) \<Rightarrow> 'a list \<Rightarrow> 's \<Rightarrow> 's" where
  "range_while more body [] s = s"
| "range_while more body (x # xs) s = (if more s then range_while more body xs (body x s) else s)"

text \<open>The loop runs its body on a prefix, and stops early only when there is no more to do.\<close>

lemma range_while_prefix:
  "\<exists>ys zs. xs = ys @ zs \<and> range_while more body xs s = fold body ys s \<and>
     (zs = [] \<or> \<not> more (fold body ys s)) \<and>
     (\<forall>us v vs. ys = us @ v # vs \<longrightarrow> more (fold body us s))"
proof (induction xs arbitrary: s)
  case Nil
  show ?case by simp
next
  case (Cons x xs)
  show ?case
  proof (cases "more s")
    case True
    from Cons obtain ys zs where h: "xs = ys @ zs"
      "range_while more body xs (body x s) = fold body ys (body x s)"
      "zs = [] \<or> \<not> more (fold body ys (body x s))"
      "\<forall>us v vs. ys = us @ v # vs \<longrightarrow> more (fold body us (body x s))"
      by blast
    have "more (fold body us s)" if "x # ys = us @ v # vs" for us v vs
      using that h(4) True by (cases us) auto
    with True h(1-3) show ?thesis
      by (intro exI [of _ "x # ys"] exI [of _ zs]) auto
  next
    case False
    then show ?thesis by (intro exI [of _ "[]"] exI [of _ "x # xs"]) auto
  qed
qed

lemma range_while_invariant:
  assumes "P s" "\<And>x s. x \<in> set xs \<Longrightarrow> P s \<Longrightarrow> P (body x s)"
  shows "P (range_while more body xs s)"
  using assms by (induction xs arbitrary: s) auto

lemma distinct_map_sort_key:
  assumes "distinct (map f xs)"
  shows "distinct (map f (sort_key k xs))"
proof -
  have "distinct xs" "inj_on f (set xs)" using assms by (simp_all add: distinct_map)
  then have "distinct (sort_key k xs)" "inj_on f (set (sort_key k xs))" by simp_all
  then show ?thesis by (simp only: distinct_map)
qed

lemma distinct_concat_map:
  assumes "distinct cs" "\<And>c. c \<in> set cs \<Longrightarrow> distinct (f c)"
    and "\<And>c d. c \<in> set cs \<Longrightarrow> d \<in> set cs \<Longrightarrow> c \<noteq> d \<Longrightarrow> set (f c) \<inter> set (f d) = {}"
  shows "distinct (concat (map f cs))"
  using assms
proof (induction cs)
  case Nil
  then show ?case by simp
next
  case (Cons c cs)
  have "set (f c) \<inter> set (concat (map f cs)) = {}"
    using Cons.prems(1,3) by fastforce
  with Cons show ?case by simp
qed

lemma sorted_split:
  assumes "sorted (map f (ys @ zs))" "y \<in> set ys" "z \<in> set zs"
  shows "f y \<le> f z"
  using assms by (auto simp: sorted_append)

end
