(* ===== verification/MemPiece.thy ===== *)
theory MemPiece
  imports Prelude
begin

text \<open>
  The in-memory buffer of one piece (\<^verbatim>\<open>storage/mempiece.go\<close>). Every method of the source runs
  under the piece's mutex, so each is one function on the record.

  A nil \<open>data\<close> slice is \<open>None\<close>; \<open>writtenBlocks\<close> is the empty list when nil (its length is all
  the code reads of a nil slice). The notify channel is its generation number: \<open>wake\<close> closes the
  current channel and arms a fresh one, so the channel handed out at generation \<open>g\<close> is closed
  exactly when the piece's generation has moved past \<open>g\<close>. \<open>doneClosed\<close> says that \<open>doneCh\<close> has
  been closed (once, by \<open>closeOnce\<close>). The wall clock is an argument.
\<close>

section \<open>State and operations\<close>

record mem_piece =
  mp_size :: int
  mp_data :: "byte list option"
  mp_writtenBlocks :: "bool list"
  mp_complete :: bool
  mp_accessed :: time_ns
  mp_accounted :: int
  mp_doneClosed :: bool
  mp_notifyGen :: nat

definition blockSize :: int where
  "blockSize = 16384"

definition numBlocks :: "int \<Rightarrow> nat" where
  "numBlocks sz = nat ((sz + 16383) sdiv 16384)"

definition NewMemPiece :: "time_ns \<Rightarrow> int \<Rightarrow> mem_piece" where
  "NewMemPiece now sz =
     \<lparr>mp_size = sz, mp_data = None, mp_writtenBlocks = replicate (numBlocks sz) False,
      mp_complete = False, mp_accessed = now, mp_accounted = 0,
      mp_doneClosed = False, mp_notifyGen = 0\<rparr>"

definition wake :: "mem_piece \<Rightarrow> mem_piece" where
  "wake m = m\<lparr>mp_notifyGen := Suc (mp_notifyGen m)\<rparr>"

definition notify_closed :: "nat \<Rightarrow> mem_piece \<Rightarrow> bool" where
  "notify_closed ch m \<longleftrightarrow> ch < mp_notifyGen m"

definition ReleaseAndSize :: "mem_piece \<Rightarrow> mem_piece \<times> int" where
  "ReleaseAndSize m =
     (wake (m\<lparr>mp_accounted := 0, mp_data := None, mp_writtenBlocks := [], mp_complete := False\<rparr>),
      mp_accounted m)"

definition Release :: "mem_piece \<Rightarrow> mem_piece" where
  "Release m = fst (ReleaseAndSize m)"

definition MemPiece_ReadAt ::
  "time_ns \<Rightarrow> nat \<Rightarrow> int \<Rightarrow> mem_piece \<Rightarrow> mem_piece \<times> byte list \<times> go_error option" where
  "MemPiece_ReadAt now plen off m =
     (case mp_data m of
        None \<Rightarrow> (m, [], Some ErrPieceEvicted)
      | Some d \<Rightarrow>
          let m' = m\<lparr>mp_accessed := now\<rparr>
          in if int (length d) \<le> off then (m', [], Some ErrEOF)
             else if off < 0 then (m', [], Some Panic)
             else let bs = take plen (drop (nat off) d)
                  in (m', bs, if length bs < plen then Some ErrEOF else None))"

text \<open>
  The loop that marks the blocks a write touched:
  \<^verbatim>\<open>for i := startBlock; i <= endBlock && i < len(writtenBlocks); i++\<close>.
\<close>

function markBlocks :: "int \<Rightarrow> int \<Rightarrow> bool list \<Rightarrow> bool list" where
  "markBlocks i endBlock bs =
     (if i \<le> endBlock \<and> i < int (length bs)
      then markBlocks (i + 1) endBlock (bs[nat i := True]) else bs)"
  by pat_completeness auto
termination
  by (relation "measure (\<lambda>(i, e, bs). nat (e + 1 - i))") auto

declare markBlocks.simps [simp del]

definition mp_buf :: "mem_piece \<Rightarrow> byte list" where
  "mp_buf m = (case mp_data m of None \<Rightarrow> replicate (nat (mp_size m)) 0 | Some d \<Rightarrow> d)"

definition MemPiece_WriteAt ::
  "time_ns \<Rightarrow> byte list \<Rightarrow> int \<Rightarrow> mem_piece \<Rightarrow> mem_piece \<times> int \<times> go_error option" where
  "MemPiece_WriteAt now p off m =
     (let m1 = m\<lparr>mp_accessed := now\<rparr>
      in if mp_data m = None \<and> mp_size m < 0 then (m1, 0, Some Panic)
         else
           let d = mp_buf m;
               m2 = m1\<lparr>mp_data := Some d\<rparr>
           in if int (length d) \<le> off then (m2, 0, Some ErrShortWrite)
              else if off < 0 then (m2, 0, Some Panic)
              else
                let n = min (length p) (length d - nat off);
                    startBlock = off sdiv blockSize;
                    endBlock = (off + int n - 1) sdiv blockSize
                in (wake (m2\<lparr>mp_data := Some (copy_at (nat off) p d),
                             mp_accounted := mp_accounted m + int n,
                             mp_writtenBlocks :=
                               markBlocks startBlock endBlock (mp_writtenBlocks m)\<rparr>),
                    int n, if n < length p then Some ErrShortWrite else None))"

definition MemPiece_MarkComplete :: "time_ns \<Rightarrow> mem_piece \<Rightarrow> mem_piece" where
  "MemPiece_MarkComplete now m =
     (let m1 = m\<lparr>mp_complete := True\<rparr>;
          m2 = (if mp_data m \<noteq> None
                then m1\<lparr>mp_writtenBlocks := map (\<lambda>_. True) (mp_writtenBlocks m)\<rparr> else m1)
      in (wake (m2\<lparr>mp_accessed := now\<rparr>))\<lparr>mp_doneClosed := True\<rparr>)"

definition IsComplete :: "mem_piece \<Rightarrow> bool" where
  "IsComplete m \<longleftrightarrow> mp_complete m \<and> mp_data m \<noteq> None"

definition hasRangeLocked :: "int \<Rightarrow> int \<Rightarrow> mem_piece \<Rightarrow> bool" where
  "hasRangeLocked off len m =
     (if mp_complete m \<and> mp_data m \<noteq> None then True
      else if mp_data m = None then False
      else
        let startBlock = off sdiv blockSize; endBlock = (off + len - 1) sdiv blockSize
        in if startBlock < 0 \<or> int (length (mp_writtenBlocks m)) \<le> endBlock then False
           else list_all (\<lambda>i. mp_writtenBlocks m ! nat i) [startBlock..endBlock])"

definition HasRange :: "int \<Rightarrow> int \<Rightarrow> mem_piece \<Rightarrow> bool" where
  "HasRange off len m = hasRangeLocked off len m"

text \<open>\<open>WaitRange\<close> returns readiness and, when not ready, the channel to park on.\<close>

definition WaitRange :: "int \<Rightarrow> int \<Rightarrow> mem_piece \<Rightarrow> bool \<times> nat option" where
  "WaitRange off len m =
     (if hasRangeLocked off len m then (True, None) else (False, Some (mp_notifyGen m)))"

definition HasData :: "mem_piece \<Rightarrow> bool" where
  "HasData m \<longleftrightarrow> mp_data m \<noteq> None"

definition Snapshot :: "mem_piece \<Rightarrow> byte list option" where
  "Snapshot m = (if \<not> mp_complete m \<or> mp_data m = None then None else mp_data m)"

definition LoadComplete :: "time_ns \<Rightarrow> byte list \<Rightarrow> mem_piece \<Rightarrow> mem_piece \<times> int" where
  "LoadComplete now src m =
     (if mp_data m \<noteq> None then (m, 0)
      else ((wake (m\<lparr>mp_data := Some src,
                    mp_writtenBlocks := map (\<lambda>_. True) (mp_writtenBlocks m),
                    mp_accounted := mp_accounted m + int (length src),
                    mp_complete := True, mp_accessed := now\<rparr>))\<lparr>mp_doneClosed := True\<rparr>,
            int (length src)))"

lemmas mem_piece_defs =
  NewMemPiece_def wake_def ReleaseAndSize_def Release_def MemPiece_ReadAt_def MemPiece_WriteAt_def
  MemPiece_MarkComplete_def IsComplete_def hasRangeLocked_def WaitRange_def HasData_def
  Snapshot_def LoadComplete_def


section \<open>Well-formedness\<close>

definition mp_wf :: "mem_piece \<Rightarrow> bool" where
  "mp_wf m \<longleftrightarrow>
     0 \<le> mp_size m \<and>
     (\<forall>d. mp_data m = Some d \<longrightarrow> int (length d) = mp_size m) \<and>
     (mp_writtenBlocks m = [] \<or> length (mp_writtenBlocks m) = numBlocks (mp_size m)) \<and>
     0 \<le> mp_accounted m \<and>
     (mp_data m = None \<longrightarrow> mp_accounted m = 0)"

lemma length_markBlocks [simp]: "length (markBlocks i e bs) = length bs"
  by (induction i e bs rule: markBlocks.induct) (simp add: markBlocks.simps)

lemma markBlocks_Nil [simp]: "markBlocks i e [] = []"
  by (metis length_0_conv length_markBlocks)

lemma nth_markBlocks:
  "0 \<le> i \<Longrightarrow> k < length bs \<Longrightarrow>
    markBlocks i e bs ! k \<longleftrightarrow> bs ! k \<or> (i \<le> int k \<and> int k \<le> e)"
proof (induction i e bs rule: markBlocks.induct)
  case (1 i e bs)
  show ?case
  proof (cases "i \<le> e \<and> i < int (length bs)")
    case True
    with 1 have "markBlocks (i + 1) e (bs[nat i := True]) ! k \<longleftrightarrow>
        bs[nat i := True] ! k \<or> (i + 1 \<le> int k \<and> int k \<le> e)"
      by simp
    with True 1(2,3) show ?thesis
      by (subst markBlocks.simps) (auto simp: nth_list_update split: if_splits)
  next
    case False
    with 1(3) show ?thesis by (subst markBlocks.simps) auto
  qed
qed

lemma mp_wf_new [intro]: "0 \<le> sz \<Longrightarrow> mp_wf (NewMemPiece now sz)"
  by (simp add: mp_wf_def NewMemPiece_def)

lemma mp_wf_release [intro]: "mp_wf m \<Longrightarrow> mp_wf (fst (ReleaseAndSize m))"
  by (simp add: mp_wf_def ReleaseAndSize_def wake_def)

lemma mp_wf_read [intro]: "mp_wf m \<Longrightarrow> mp_wf (fst (MemPiece_ReadAt now n off m))"
  by (auto simp: mp_wf_def MemPiece_ReadAt_def Let_def split: option.splits)

lemma mp_wf_complete [intro]: "mp_wf m \<Longrightarrow> mp_wf (MemPiece_MarkComplete now m)"
  by (auto simp: mp_wf_def MemPiece_MarkComplete_def wake_def Let_def)

lemma mp_wf_load [intro]:
  "mp_wf m \<Longrightarrow> int (length src) = mp_size m \<Longrightarrow> mp_wf (fst (LoadComplete now src m))"
  by (auto simp: mp_wf_def LoadComplete_def wake_def)

lemma mp_wf_write [intro]: "mp_wf m \<Longrightarrow> mp_wf (fst (MemPiece_WriteAt now p off m))"
  by (auto simp: mp_wf_def mp_buf_def MemPiece_WriteAt_def wake_def Let_def split: option.splits)

lemma MemPiece_WriteAt_fits:
  assumes "mp_data m = None \<longrightarrow> 0 \<le> mp_size m" "0 \<le> off" "p \<noteq> []"
    and "nat off + length p \<le> length (mp_buf m)"
  shows "MemPiece_WriteAt now p off m =
    (wake (m\<lparr>mp_accessed := now, mp_data := Some (copy_at (nat off) p (mp_buf m)),
        mp_accounted := mp_accounted m + int (length p),
        mp_writtenBlocks :=
          markBlocks (off div blockSize) ((off + int (length p) - 1) div blockSize)
            (mp_writtenBlocks m)\<rparr>), int (length p), None)"
proof -
  from assms have "\<not> int (length (mp_buf m)) \<le> off" "\<not> (mp_data m = None \<and> mp_size m < 0)"
    "min (length p) (length (mp_buf m) - nat off) = length p" "0 \<le> off + int (length p) - 1"
    by (cases p; auto)+
  with assms(2) show ?thesis
    by (simp add: MemPiece_WriteAt_def Let_def blockSize_def)
qed

lemma MemPiece_ReadAt_frame [frame_simps]:
  "mp_size (fst (MemPiece_ReadAt now n off m)) = mp_size m"
  "mp_data (fst (MemPiece_ReadAt now n off m)) = mp_data m"
  "mp_writtenBlocks (fst (MemPiece_ReadAt now n off m)) = mp_writtenBlocks m"
  "mp_complete (fst (MemPiece_ReadAt now n off m)) = mp_complete m"
  "mp_notifyGen (fst (MemPiece_ReadAt now n off m)) = mp_notifyGen m"
  by (simp_all add: MemPiece_ReadAt_def Let_def split: option.split)

lemmas mp_wf_intros = mp_wf_new mp_wf_release mp_wf_read mp_wf_complete mp_wf_load mp_wf_write

section \<open>The byte ledger of a piece\<close>

text \<open>
  What the cache relies on: an operation that installs \<open>n\<close> bytes raises the piece's
  contribution by \<open>n\<close>, every other one keeps it, and releasing returns the whole contribution and
  leaves none. The cache's counter then nets out whatever the order of the operations.
\<close>

locale piece_ledger =
  fixes accounted :: "'p \<Rightarrow> int"
    and put :: "'w \<Rightarrow> 'p \<Rightarrow> 'p \<times> int"
    and load :: "'l \<Rightarrow> 'p \<Rightarrow> 'p \<times> int"
    and touch :: "'t \<Rightarrow> 'p \<Rightarrow> 'p"
    and release :: "'p \<Rightarrow> 'p \<times> int"
  assumes write_adds: "accounted (fst (put w p)) = accounted p + snd (put w p)"
    and load_adds: "accounted (fst (load l p)) = accounted p + snd (load l p)"
    and touch_keeps: "accounted (touch t p) = accounted p"
    and release_returns: "snd (release p) = accounted p"
    and release_clears: "accounted (fst (release p)) = 0"
begin

lemma writes_then_release:
  "snd (release (fold (\<lambda>w p. fst (put w p)) ws p)) =
     accounted p + (\<Sum>i<length ws. snd (put (ws ! i) (fold (\<lambda>w p. fst (put w p)) (take i ws) p)))"
proof (induction ws arbitrary: p)
  case Nil
  then show ?case by (simp add: release_returns)
next
  case (Cons w ws)
  then show ?case
    by (simp add: write_adds sum.lessThan_Suc_shift del: sum.lessThan_Suc)
qed

lemma release_idem: "snd (release (fst (release p))) = 0"
  by (simp add: release_returns release_clears)

end

lemma accounted_write [ledger_simps]:
  "mp_accounted (fst (MemPiece_WriteAt now p off m)) =
     mp_accounted m + fst (snd (MemPiece_WriteAt now p off m))"
  by (auto simp: MemPiece_WriteAt_def wake_def Let_def split: option.splits)

lemma accounted_load [ledger_simps]:
  "mp_accounted (fst (LoadComplete now src m)) = mp_accounted m + snd (LoadComplete now src m)"
  by (simp add: LoadComplete_def wake_def)

lemma accounted_read [ledger_simps]:
  "mp_accounted (fst (MemPiece_ReadAt now n off m)) = mp_accounted m"
  by (auto simp: MemPiece_ReadAt_def Let_def split: option.splits)

lemma accounted_complete [ledger_simps]:
  "mp_accounted (MemPiece_MarkComplete now m) = mp_accounted m"
  by (simp add: MemPiece_MarkComplete_def wake_def Let_def)

lemma accounted_release [ledger_simps]:
  "mp_accounted (fst (ReleaseAndSize m)) = 0" "snd (ReleaseAndSize m) = mp_accounted m"
  by (simp_all add: ReleaseAndSize_def wake_def)

lemma accounted_new [ledger_simps]: "mp_accounted (NewMemPiece now sz) = 0"
  by (simp add: NewMemPiece_def)

interpretation mp_ledger: piece_ledger mp_accounted
  "\<lambda>(now, p, off) m. (fst (MemPiece_WriteAt now p off m), fst (snd (MemPiece_WriteAt now p off m)))"
  "\<lambda>(now, src) m. LoadComplete now src m"
  "\<lambda>now m. MemPiece_MarkComplete now m"
  ReleaseAndSize
  by unfold_locales (auto simp: ledger_simps split: prod.splits)


section \<open>Readiness is sound\<close>

text \<open>
  The piece is meant to hold the torrent's bytes \<open>src\<close>. The client writes whole 16 KiB blocks of
  it (the last block may be short), marks the piece complete only after the hash of the buffer
  matched, and disk reloads install the verified bytes.
\<close>

definition block_write :: "byte list \<Rightarrow> int \<Rightarrow> byte list \<Rightarrow> bool" where
  "block_write src off p \<longleftrightarrow>
     0 \<le> off \<and> nat off mod 16384 = 0 \<and> p \<noteq> [] \<and> nat off + length p \<le> length src \<and>
     (length p mod 16384 = 0 \<or> nat off + length p = length src) \<and>
     p = subslice (nat off) (length p) src"

inductive verified_piece :: "byte list \<Rightarrow> mem_piece \<Rightarrow> bool" for src :: "byte list" where
  fresh: "verified_piece src (NewMemPiece now (int (length src)))"
| written: "verified_piece src m \<Longrightarrow> block_write src off p \<Longrightarrow>
    verified_piece src (fst (MemPiece_WriteAt now p off m))"
| was_read: "verified_piece src m \<Longrightarrow> verified_piece src (fst (MemPiece_ReadAt now n off m))"
| completed: "verified_piece src m \<Longrightarrow> mp_data m = Some src \<Longrightarrow>
    verified_piece src (MemPiece_MarkComplete now m)"
| released: "verified_piece src m \<Longrightarrow> verified_piece src (fst (ReleaseAndSize m))"
| loaded: "verified_piece src m \<Longrightarrow> verified_piece src (fst (LoadComplete now src m))"

definition block_agrees :: "byte list \<Rightarrow> byte list \<Rightarrow> nat \<Rightarrow> bool" where
  "block_agrees src d k \<longleftrightarrow> (\<forall>j < length src. j div 16384 = k \<longrightarrow> d ! j = src ! j)"

lemma block_agrees_refl [simp]: "block_agrees src src k"
  by (simp add: block_agrees_def)

definition mp_holds :: "byte list \<Rightarrow> mem_piece \<Rightarrow> bool" where
  "mp_holds src m \<longleftrightarrow>
     mp_size m = int (length src) \<and>
     (mp_complete m \<longrightarrow> mp_data m = Some src) \<and>
     (\<forall>d. mp_data m = Some d \<longrightarrow> length d = length src \<and>
        (\<forall>k < length (mp_writtenBlocks m). mp_writtenBlocks m ! k \<longrightarrow> block_agrees src d k)) \<and>
     (mp_data m = None \<longrightarrow> True \<notin> set (mp_writtenBlocks m))"

lemma copy_at_own_slice:
  assumes "off + n \<le> length src"
  shows "copy_at off (subslice off n src) src = src"
  using assms by (intro nth_equalityI) (auto simp: nth_copy_at nth_subslice)

text \<open>A block that a block write marks lies wholly inside the written range.\<close>

lemma block_span:
  fixes a n j B :: nat
  assumes B: "0 < B" and a: "a mod B = 0" and n: "0 < n"
    and lo: "a div B \<le> j div B" and hi: "j div B \<le> (a + n - 1) div B"
    and tail: "n mod B = 0 \<or> j < a + n"
  shows "a \<le> j \<and> j < a + n"
proof
  have "a = B * (a div B)" using a by auto
  also have "\<dots> \<le> B * (j div B)" using lo by simp
  also have "\<dots> \<le> j" by simp
  finally show "a \<le> j" .
  show "j < a + n"
  proof (cases "n mod B = 0")
    case True
    then obtain q where q: "a + n = B * q"
      using a by (metis mod_0_imp_dvd dvd_add dvdE)
    have "(a + n - 1) div B < q"
      unfolding q using B n q by (simp add: div_less_iff_less_mult mult.commute)
    with hi have "j div B < q" by simp
    with B show ?thesis unfolding q by (simp add: div_less_iff_less_mult mult.commute)
  qed (use tail in auto)
qed

lemma block_write_covers:
  assumes w: "block_write src off p" and j: "j < length src"
    and lo: "off div 16384 \<le> int (j div 16384)"
    and hi: "int (j div 16384) \<le> (off + int (length p) - 1) div 16384"
  shows "nat off \<le> j \<and> j < nat off + length p"
proof -
  obtain a where a: "off = int a"
    using w by (auto simp: block_write_def intro: nonneg_int_cases)
  have lenp: "0 < length p" using w by (simp add: block_write_def)
  have "off + int (length p) - 1 = int (a + length p - 1)"
    using lenp a by (cases p) simp_all
  then have hi': "j div 16384 \<le> (a + length p - 1) div 16384"
    using hi by (metis of_nat_div of_nat_le_iff of_nat_numeral)
  have lo': "a div 16384 \<le> j div 16384"
    using lo a by (metis of_nat_div of_nat_le_iff of_nat_numeral)
  have "a \<le> j \<and> j < a + length p"
    using w j lenp lo' hi' by (intro block_span [where B = 16384]) (auto simp: block_write_def a)
  then show ?thesis by (simp add: a)
qed


lemma mp_holds_buf: "mp_holds src m \<Longrightarrow> length (mp_buf m) = length src"
  by (auto simp: mp_holds_def mp_buf_def split: option.split)

lemma mp_holds_write:
  assumes h: "mp_holds src m" and w: "block_write src off p"
  shows "mp_holds src (fst (MemPiece_WriteAt now p off m))"
proof -
  let ?wb = "markBlocks (off div blockSize) ((off + int (length p) - 1) div blockSize)
    (mp_writtenBlocks m)"
  let ?d' = "copy_at (nat off) p (mp_buf m)"
  have off: "0 \<le> off" and p: "p = subslice (nat off) (length p) src" "p \<noteq> []"
    and le: "nat off + length p \<le> length src"
    using w by (auto simp: block_write_def)
  note lend = mp_holds_buf [OF h]
  have res: "fst (MemPiece_WriteAt now p off m) =
      wake (m\<lparr>mp_accessed := now, mp_data := Some ?d',
              mp_accounted := mp_accounted m + int (length p), mp_writtenBlocks := ?wb\<rparr>)"
    using h off le p(2) lend by (subst MemPiece_WriteAt_fits) (auto simp: mp_holds_def)
  have byte_ok: "?d' ! j = src ! j"
    if k: "k < length (mp_writtenBlocks m)" "?wb ! k" and j: "j < length src" "j div 16384 = k" for k j
  proof (cases "nat off \<le> j \<and> j < nat off + length p")
    case True
    then obtain i where i: "j = nat off + i" "i < length p" by (auto simp: le_iff_add)
    then have "?d' ! j = p ! i" using j lend le by (simp add: nth_copy_at)
    with i p(1) le show ?thesis by (metis nth_subslice)
  next
    case False
    with block_write_covers [OF w j(1)] j(2) have "mp_writtenBlocks m ! k"
      using k off by (auto simp: nth_markBlocks blockSize_def)
    moreover from this k h have "mp_data m = Some (mp_buf m)"
      by (auto simp: mp_holds_def mp_buf_def split: option.split) (metis nth_mem)
    ultimately have "mp_buf m ! j = src ! j"
      using h k(1) j unfolding mp_holds_def block_agrees_def by blast
    with False j lend le show ?thesis by (auto simp: nth_copy_at)
  qed
  have "?d' = src" if "mp_complete m"
    using h that p(1) le by (metis mp_holds_def mp_buf_def option.simps(5) copy_at_own_slice)
  with h byte_ok lend le show ?thesis
    by (simp add: res mp_holds_def wake_def block_agrees_def)
qed

lemma mp_holds_new: "mp_holds src (NewMemPiece now (int (length src)))"
  by (simp add: mp_holds_def NewMemPiece_def)

lemma mp_holds_read: "mp_holds src m \<Longrightarrow> mp_holds src (fst (MemPiece_ReadAt now n off m))"
  by (simp add: mp_holds_def frame_simps)

lemma mp_holds_complete:
  "mp_holds src m \<Longrightarrow> mp_data m = Some src \<Longrightarrow> mp_holds src (MemPiece_MarkComplete now m)"
  by (auto simp: mp_holds_def MemPiece_MarkComplete_def wake_def Let_def)

lemma mp_holds_release: "mp_holds src m \<Longrightarrow> mp_holds src (fst (ReleaseAndSize m))"
  by (simp add: mp_holds_def ReleaseAndSize_def wake_def)

lemma mp_holds_load: "mp_holds src m \<Longrightarrow> mp_holds src (fst (LoadComplete now src m))"
  by (cases "mp_data m") (simp_all add: mp_holds_def LoadComplete_def wake_def)

lemmas mp_holds_intros =
  mp_holds_new mp_holds_read mp_holds_complete mp_holds_release mp_holds_load mp_holds_write

lemma verified_piece_holds: "verified_piece src m \<Longrightarrow> mp_holds src m"
  by (induction rule: verified_piece.induct) (simp_all add: mp_holds_intros)

lemma hasRange_bytes:
  assumes h: "mp_holds src m" and r: "hasRangeLocked off len m"
    and range: "0 \<le> off" "0 < len" "off + len \<le> int (length src)"
  shows "\<exists>d. mp_data m = Some d \<and> length d = length src \<and>
    (\<forall>j. nat off \<le> j \<and> j < nat (off + len) \<longrightarrow> d ! j = src ! j)"
proof -
  from r obtain d where d: "mp_data m = Some d"
    by (auto simp: hasRangeLocked_def split: if_splits)
  have "d ! j = src ! j" if j: "nat off \<le> j" "j < nat (off + len)" for j
  proof (cases "mp_complete m")
    case True
    with h d show ?thesis by (simp add: mp_holds_def)
  next
    case False
    let ?k = "j div 16384"
    have "off div 16384 \<le> int ?k" "int ?k \<le> (off + len - 1) div 16384"
      using j range by (auto simp: of_nat_div intro!: zdiv_mono1)
    moreover from r d False range
    have "(off + len - 1) div 16384 < int (length (mp_writtenBlocks m))"
      "\<forall>i. off div 16384 \<le> i \<and> i \<le> (off + len - 1) div 16384 \<longrightarrow> mp_writtenBlocks m ! nat i"
      by (auto simp: hasRangeLocked_def Let_def blockSize_def list_all_iff split: if_splits)
    ultimately have "?k < length (mp_writtenBlocks m) \<and> mp_writtenBlocks m ! ?k"
      by (metis nat_int of_nat_less_iff order_le_less_trans)
    moreover from j range have "j < length src" by linarith
    ultimately show ?thesis using h d unfolding mp_holds_def block_agrees_def by blast
  qed
  with h d show ?thesis by (auto simp: mp_holds_def)
qed


lemma ready_read:
  assumes h: "mp_holds src m" and r: "hasRangeLocked off len m"
    and range: "0 \<le> off" "0 < len" "off + len \<le> int (length src)"
  shows "\<exists>m'. MemPiece_ReadAt now (nat len) off m = (m', subslice (nat off) (nat len) src, None)"
proof -
  obtain d where d: "mp_data m = Some d" and len: "length d = length src"
    and eq: "\<And>j. nat off \<le> j \<Longrightarrow> j < nat (off + len) \<Longrightarrow> d ! j = src ! j"
    using hasRange_bytes [OF h r range] by blast
  have "subslice (nat off) (nat len) d = subslice (nat off) (nat len) src"
    using range len by (intro subslice_eqI eq) auto
  moreover have "nat off + nat len \<le> length d" "off < int (length d)"
    using range len by linarith+
  moreover from this have "length (take (nat len) (drop (nat off) d)) = nat len"
    by simp
  ultimately show ?thesis
    using range d by (simp add: MemPiece_ReadAt_def Let_def subslice_def del: length_take)
qed

section \<open>No lost wake-up\<close>

text \<open>
  Any operation of the source on a piece: a write (of any length, at any offset), a read, a
  completion of a piece that has its buffer, a release, a reload of a full piece.
\<close>

inductive piece_step :: "mem_piece \<Rightarrow> mem_piece \<Rightarrow> bool" where
  step_write: "piece_step m (fst (MemPiece_WriteAt now p off m))"
| step_read: "piece_step m (fst (MemPiece_ReadAt now n off m))"
| step_complete: "HasData m \<Longrightarrow> piece_step m (MemPiece_MarkComplete now m)"
| step_release: "piece_step m (fst (ReleaseAndSize m))"
| step_load: "int (length src) = mp_size m \<Longrightarrow> piece_step m (fst (LoadComplete now src m))"

text \<open>A piece without a buffer is not complete and has no block marked.\<close>

definition piece_idle_ok :: "mem_piece \<Rightarrow> bool" where
  "piece_idle_ok m \<longleftrightarrow> (mp_data m = None \<longrightarrow> \<not> mp_complete m \<and> True \<notin> set (mp_writtenBlocks m))"

lemma piece_idle_ok_new: "piece_idle_ok (NewMemPiece now sz)"
  by (simp add: piece_idle_ok_def NewMemPiece_def)

lemma WriteAt_data: "piece_idle_ok m \<Longrightarrow> piece_idle_ok (fst (MemPiece_WriteAt now p off m))"
  by (simp add: piece_idle_ok_def MemPiece_WriteAt_def wake_def Let_def)

lemma piece_step_idle_ok: "piece_step m m' \<Longrightarrow> piece_idle_ok m \<Longrightarrow> piece_idle_ok m'"
proof (induction rule: piece_step.induct)
  case (step_write m now p off)
  then show ?case by (rule WriteAt_data)
qed (simp_all add: piece_idle_ok_def frame_simps HasData_def MemPiece_MarkComplete_def
      ReleaseAndSize_def LoadComplete_def wake_def Let_def)

lemma unmarked_not_ready:
  assumes "True \<notin> set (mp_writtenBlocks m)" "\<not> mp_complete m" "0 \<le> off" "0 < len"
  shows "\<not> hasRangeLocked off len m"
proof -
  have "off div 16384 \<le> (off + len - 1) div 16384"
    using assms by (intro zdiv_mono1) auto
  moreover have "\<not> mp_writtenBlocks m ! nat (off div 16384)"
    if "off div 16384 < int (length (mp_writtenBlocks m))"
    using that assms(1,3) by (metis nat_less_iff nth_mem pos_imp_zdiv_nonneg_iff zero_less_numeral)
  ultimately show ?thesis
    using assms by (auto simp: hasRangeLocked_def Let_def blockSize_def list_all_iff)
qed

text \<open>An operation that does not wake the waiters does not make a range ready.\<close>

lemma silent_write:
  "mp_notifyGen (fst (MemPiece_WriteAt now p off m)) = mp_notifyGen m \<Longrightarrow>
    mp_writtenBlocks (fst (MemPiece_WriteAt now p off m)) = mp_writtenBlocks m \<and>
    mp_complete (fst (MemPiece_WriteAt now p off m)) = mp_complete m \<and>
    (mp_data m \<noteq> None \<longrightarrow> mp_data (fst (MemPiece_WriteAt now p off m)) = mp_data m)"
  by (auto simp: MemPiece_WriteAt_def mp_buf_def wake_def Let_def split: if_splits)

lemma hasRange_cong:
  "mp_writtenBlocks m' = mp_writtenBlocks m \<Longrightarrow> mp_complete m' = mp_complete m \<Longrightarrow>
   mp_data m' = mp_data m \<Longrightarrow> hasRangeLocked off len m' = hasRangeLocked off len m"
  by (cases "mp_data m") (auto simp: hasRangeLocked_def)

lemma piece_step_gen: "piece_step m m' \<Longrightarrow> mp_notifyGen m \<le> mp_notifyGen m'"
  by (induction rule: piece_step.induct)
    (simp_all add: frame_simps MemPiece_WriteAt_def MemPiece_MarkComplete_def ReleaseAndSize_def
      LoadComplete_def wake_def Let_def)

lemma piece_step_silent:
  assumes "piece_step m m'" "piece_idle_ok m" "0 \<le> off" "0 < len"
    and "mp_notifyGen m' = mp_notifyGen m" "hasRangeLocked off len m'"
  shows "hasRangeLocked off len m"
  using assms
proof (induction rule: piece_step.induct)
  case (step_write m now p off')
  show ?case
  proof (cases "mp_data m")
    case None
    with step_write silent_write [OF step_write.prems(4)]
    have "\<not> hasRangeLocked off len (fst (MemPiece_WriteAt now p off' m))"
      by (intro unmarked_not_ready) (auto simp: piece_idle_ok_def)
    with step_write show ?thesis by simp
  next
    case (Some d)
    with step_write silent_write [OF step_write.prems(4)] show ?thesis
      by (metis hasRange_cong option.simps(3))
  qed
next
  case (step_read m now n off')
  then show ?case by (metis MemPiece_ReadAt_frame(2,3,4) hasRange_cong)
next
  case (step_load src m now)
  then show ?case by (auto simp: LoadComplete_def wake_def split: if_splits)
qed (simp_all add: MemPiece_MarkComplete_def ReleaseAndSize_def wake_def Let_def split: if_splits)

lemma piece_steps_wake:
  assumes "piece_step\<^sup>*\<^sup>* m m'" "piece_idle_ok m" "0 \<le> off" "0 < len"
    and "\<not> hasRangeLocked off len m"
  shows "mp_notifyGen m < mp_notifyGen m' \<or>
    (mp_notifyGen m' = mp_notifyGen m \<and> piece_idle_ok m' \<and> \<not> hasRangeLocked off len m')"
  using assms(1)
proof (induction rule: rtranclp_induct)
  case base
  with assms show ?case by simp
next
  case (step y z)
  from step.hyps(2) have le: "mp_notifyGen y \<le> mp_notifyGen z" by (rule piece_step_gen)
  show ?case
  proof (cases "mp_notifyGen m < mp_notifyGen z")
    case False
    with step.IH le have "mp_notifyGen z = mp_notifyGen y" "mp_notifyGen y = mp_notifyGen m"
      "piece_idle_ok y" "\<not> hasRangeLocked off len y" by auto
    with step.hyps(2) assms(3,4) show ?thesis
      by (metis piece_step_silent piece_step_idle_ok)
  qed simp
qed


section \<open>Properties\<close>





text \<open>
  \<open>MarkComplete\<close> sets the completion flag even when the buffer is gone. The next block that
  is written then re-allocates the buffer, the piece counts as complete at once, and a read past
  the written block returns the zero bytes of the fresh allocation as if they were verified data.
\<close>

theorem mark_complete_without_buffer:
  assumes "0 < length p" "length p \<le> 16384" "16384 \<le> off" "off < sz"
    and m: "m = fst (MemPiece_WriteAt t2 p 0 (MemPiece_MarkComplete t1 (NewMemPiece t0 sz)))"
  shows "IsComplete m \<and> snd (MemPiece_ReadAt t3 1 off m) = ([0], None)"
proof -
  let ?z = "replicate (nat sz) (0 :: byte)"
  have d: "mp_data m = Some (copy_at 0 p ?z)" "mp_complete m"
    using assms
    by (auto simp: MemPiece_WriteAt_def MemPiece_MarkComplete_def NewMemPiece_def mp_buf_def
        wake_def Let_def)
  have "nat off < nat sz" "\<not> nat off < length p"
    using assms(1-4) by linarith+
  then have "copy_at 0 p ?z ! nat off = 0"
    by (simp add: nth_copy_at)
  moreover have "nat off < length (copy_at 0 p ?z)"
    using assms by simp
  ultimately have "take 1 (drop (nat off) (copy_at 0 p ?z)) = [0]"
    by (metis One_nat_def Cons_nth_drop_Suc take_Suc_Cons take_0)
  with d assms show ?thesis
    by (simp add: IsComplete_def MemPiece_ReadAt_def Let_def)
qed

theorem mark_complete_without_buffer_witness:
  "IsComplete (fst (MemPiece_WriteAt 3 [1] 0 (MemPiece_MarkComplete 2 (NewMemPiece 1 20000)))) \<and>
   snd (MemPiece_ReadAt 4 1 16384
     (fst (MemPiece_WriteAt 3 [1] 0 (MemPiece_MarkComplete 2 (NewMemPiece 1 20000))))) = ([0], None)"
  by (rule mark_complete_without_buffer [of "[1]" 16384 20000, OF _ _ _ _ refl]) simp_all

text \<open>
  The copy after a readiness check trusts the check. If the piece is released in between and a
  writer that still holds it stores one block, \<open>ReadAt\<close> finds a buffer again and returns the zero
  bytes of the fresh allocation, without an error, for a range that had been reported ready.
\<close>

lemma ready_range_lost_to_stale_write:
  assumes "verified_piece src m" "WaitRange off len m = (True, None)"
    and "16384 \<le> off" "0 < len" "off + len \<le> int (length src)"
    and "block_write src 0 p" "length p \<le> 16384"
    and "m' = fst (MemPiece_WriteAt t1 p 0 (fst (ReleaseAndSize m)))"
  shows "snd (MemPiece_ReadAt t2 (nat len) off m') = (replicate (nat len) 0, None)"
proof -
  have sz: "mp_size m = int (length src)"
    using verified_piece_holds [OF assms(1)] by (simp add: mp_holds_def)
  let ?z = "replicate (length src) (0 :: byte)"
  have p: "p \<noteq> []" "length p \<le> length src" using assms(6) by (auto simp: block_write_def)
  have "mp_data m' = Some (copy_at 0 p ?z)"
    unfolding assms(8) using sz p
    by (subst MemPiece_WriteAt_fits) (auto simp: ReleaseAndSize_def wake_def mp_buf_def)
  moreover have "take (nat len) (drop (nat off) (copy_at 0 p ?z)) = replicate (nat len) 0"
    using assms(3-5,7) p by (intro nth_equalityI) (auto simp: nth_copy_at)
  ultimately show ?thesis
    using assms(3-5) p(2) by (simp add: MemPiece_ReadAt_def Let_def)
qed

lemma ready_range_lost_to_stale_write_witness:
  "\<exists>src m. length src = 20000 \<and> verified_piece src m \<and> WaitRange 16384 8 m = (True, None) \<and>
     0 \<notin> set src \<and>
     snd (MemPiece_ReadAt 3 8 16384
       (fst (MemPiece_WriteAt 2 (take 16384 src) 0 (fst (ReleaseAndSize m))))) = (replicate 8 0, None)"
proof -
  define src :: "byte list" where "src = replicate 20000 7"
  define m where "m = fst (LoadComplete 1 src (NewMemPiece 0 (int (length src))))"
  have len: "length src = 20000" "0 \<notin> set src" by (simp_all add: src_def)
  have v: "verified_piece src m" unfolding m_def by (intro verified_piece.loaded verified_piece.fresh)
  have r: "WaitRange 16384 8 m = (True, None)"
    by (simp add: m_def WaitRange_def hasRangeLocked_def LoadComplete_def NewMemPiece_def wake_def)
  have b: "block_write src 0 (take 16384 src)"
    using len by (simp add: block_write_def subslice_def) (metis length_0_conv zero_neq_numeral)
  have "snd (MemPiece_ReadAt 3 (nat 8) 16384
      (fst (MemPiece_WriteAt 2 (take 16384 src) 0 (fst (ReleaseAndSize m))))) = (replicate (nat 8) 0, None)"
    by (rule ready_range_lost_to_stale_write [OF v r _ _ _ b _ refl]) (simp_all add: len)
  with len v r show ?thesis by auto
qed

end
