(* ===== verification/DiskBacking.thy ===== *)
theory DiskBacking
  imports Prelude
begin

unbundle bit_operations_syntax

text \<open>
  The disk spill of one torrent (\<^verbatim>\<open>storage/disk.go\<close>): a data file holding the pieces at their
  natural offsets and a packed bitmap sidecar. The file system is a map from paths to contents and
  is passed along; an open handle is identified with its path. Faults of the operating system are
  an argument of the operations, so every error return of the source is a branch: \<open>write_stops_at\<close>
  is the point where a data write fails, \<open>tmp_left\<close> what a failed sidecar write leaves behind at the
  temporary path.
\<close>

section \<open>Files\<close>

type_synonym filesys = "string \<Rightarrow> byte list option"

record io_faults =
  mkdir_fails :: bool
  open_fails :: bool
  truncate_fails :: bool
  read_bitmap_fails :: bool
  read_fails :: bool
  write_stops_at :: "nat option"
  write_bitmap_fails :: bool
  tmp_left :: "byte list option"
  rename_fails :: bool

definition no_faults :: io_faults where
  "no_faults =
     \<lparr>mkdir_fails = False, open_fails = False, truncate_fails = False, read_bitmap_fails = False, read_fails = False,
      write_stops_at = None, write_bitmap_fails = False, tmp_left = None, rename_fails = False\<rparr>"

definition truncate_to :: "nat \<Rightarrow> byte list \<Rightarrow> byte list" where
  "truncate_to n f = take n f @ replicate (n - length f) 0"

definition pwrite :: "nat \<Rightarrow> byte list \<Rightarrow> byte list \<Rightarrow> byte list" where
  "pwrite off bs f = copy_at off bs (f @ replicate (off + length bs - length f) 0)"

definition path_join :: "string \<Rightarrow> string \<Rightarrow> string" where
  "path_join dir name = dir @ ''/'' @ name"

section \<open>State and operations\<close>

record disk_backing =
  d_open :: bool
  d_dataPath :: string
  d_bitmapPath :: string
  d_pieceLen :: int
  d_pieceCount :: int
  d_have :: "bool list"

definition packBitmap :: "int \<Rightarrow> bool list \<Rightarrow> byte list" where
  "packBitmap pieceCount have_l =
     fold (\<lambda>i packed.
             if have_l ! i then packed[i div 8 := packed ! (i div 8) OR push_bit (i mod 8) 1] else packed)
       [0..<length have_l] (replicate (nat ((pieceCount + 7) sdiv 8)) 0)"

definition unpackBitmap :: "int \<Rightarrow> byte list \<Rightarrow> bool list \<Rightarrow> bool list" where
  "unpackBitmap pieceCount packed have_l =
     fold (\<lambda>i h. if (packed ! (i div 8)) AND push_bit (i mod 8) 1 \<noteq> 0 then h[i := True] else h)
       (takeWhile (\<lambda>i. i div 8 < length packed) [0..<nat pieceCount]) have_l"

definition saveBitmapLocked :: "io_faults \<Rightarrow> disk_backing \<Rightarrow> filesys \<Rightarrow> filesys" where
  "saveBitmapLocked io d fs =
     (let packed = packBitmap (d_pieceCount d) (d_have d);
          tmp = d_bitmapPath d @ ''.tmp''
      in if write_bitmap_fails io then fs(tmp := tmp_left io)
         else
           let fs1 = fs(tmp \<mapsto> packed)
           in if rename_fails io then fs1
              else (fs1(tmp := None))(d_bitmapPath d \<mapsto> packed))"

definition loadBitmap :: "io_faults \<Rightarrow> filesys \<Rightarrow> disk_backing \<Rightarrow> disk_backing" where
  "loadBitmap io fs d =
     (if read_bitmap_fails io then d
      else case fs (d_bitmapPath d) of
        None \<Rightarrow> d
      | Some packed \<Rightarrow> d\<lparr>d_have := unpackBitmap (d_pieceCount d) packed (d_have d)\<rparr>)"

definition newDiskBacking ::
  "io_faults \<Rightarrow> string \<Rightarrow> string \<Rightarrow> int \<Rightarrow> int \<Rightarrow> int \<Rightarrow> filesys \<Rightarrow> filesys \<times> (go_error + disk_backing)"
where
  "newDiskBacking io dir hashHex pieceLen totalSize pieceCount fs =
     (if mkdir_fails io then (fs, Inl ErrIO)
      else
        let dataPath = path_join dir (hashHex @ ''.dat'')
        in if open_fails io then (fs, Inl ErrIO)
           else
             let old = (case fs dataPath of None \<Rightarrow> [] | Some f \<Rightarrow> f)
             in if truncate_fails io \<or> totalSize < 0 then (fs(dataPath \<mapsto> old), Inl ErrIO)
                else
                  let fs1 = fs(dataPath \<mapsto> truncate_to (nat totalSize) old);
                      d = \<lparr>d_open = True, d_dataPath = dataPath,
                           d_bitmapPath = path_join dir (hashHex @ ''.bitmap''),
                           d_pieceLen = pieceLen, d_pieceCount = pieceCount,
                           d_have = replicate (nat pieceCount) False\<rparr>
                  in (fs1, Inr (loadBitmap io fs1 d)))"

definition HaveCount :: "disk_backing \<Rightarrow> int" where
  "HaveCount d = int (length (filter (\<lambda>h. h) (d_have d)))"

definition Has :: "int \<Rightarrow> disk_backing \<Rightarrow> bool" where
  "Has idx d \<longleftrightarrow> 0 \<le> idx \<and> idx < int (length (d_have d)) \<and> d_have d ! nat idx"

definition WritePiece ::
  "io_faults \<Rightarrow> int \<Rightarrow> byte list \<Rightarrow> disk_backing \<Rightarrow> filesys \<Rightarrow>
    disk_backing \<times> filesys \<times> go_error option"
where
  "WritePiece io idx data d fs =
     (let off = idx * d_pieceLen d
      in if \<not> d_open d then (d, fs, Some ErrFileClosed)
         else if off < 0 then (d, fs, Some ErrIO)
         else
           let f = (case fs (d_dataPath d) of None \<Rightarrow> [] | Some f \<Rightarrow> f)
           in case write_stops_at io of
                Some n \<Rightarrow> (d, fs(d_dataPath d \<mapsto> pwrite (nat off) (take n data) f), Some ErrIO)
              | None \<Rightarrow>
                  let fs1 = fs(d_dataPath d \<mapsto> pwrite (nat off) data f);
                      d1 = (if 0 \<le> idx \<and> idx < int (length (d_have d))
                            then d\<lparr>d_have := (d_have d)[nat idx := True]\<rparr> else d)
                  in (d1, saveBitmapLocked io d1 fs1, None))"

definition ReadPiece ::
  "io_faults \<Rightarrow> int \<Rightarrow> nat \<Rightarrow> disk_backing \<Rightarrow> filesys \<Rightarrow> byte list \<times> go_error option"
where
  "ReadPiece io idx buflen d fs =
     (if \<not> (0 \<le> idx \<and> idx < int (length (d_have d)) \<and> d_have d ! nat idx)
      then ([], Some ErrNotOnDisk)
      else if \<not> d_open d then ([], Some ErrFileClosed)
      else if idx * d_pieceLen d < 0 \<or> read_fails io then ([], Some ErrIO)
      else
        let f = (case fs (d_dataPath d) of None \<Rightarrow> [] | Some f \<Rightarrow> f);
            bs = take buflen (drop (nat (idx * d_pieceLen d)) f)
        in (bs, if length bs < buflen then Some ErrEOF else None))"

definition Clear :: "io_faults \<Rightarrow> int \<Rightarrow> disk_backing \<Rightarrow> filesys \<Rightarrow> disk_backing \<times> filesys" where
  "Clear io idx d fs =
     (if 0 \<le> idx \<and> idx < int (length (d_have d)) \<and> d_have d ! nat idx
      then let d1 = d\<lparr>d_have := (d_have d)[nat idx := False]\<rparr> in (d1, saveBitmapLocked io d1 fs)
      else (d, fs))"

definition Disk_Close :: "disk_backing \<Rightarrow> disk_backing" where
  "Disk_Close d = d\<lparr>d_open := False\<rparr>"

definition Remove :: "disk_backing \<Rightarrow> filesys \<Rightarrow> disk_backing \<times> filesys" where
  "Remove d fs = (d\<lparr>d_open := False\<rparr>, fs(d_dataPath d := None, d_bitmapPath d := None))"


section \<open>The bitmap sidecar\<close>

lemma bit_set_step:
  fixes w :: byte
  assumes "j < 8" "k < 8"
  shows "bit (w OR 2 ^ k) j \<longleftrightarrow> bit w j \<or> j = k"
  using assms by (auto simp: bit_or_iff bit_exp_iff)

lemma bit_test:
  fixes w :: byte
  assumes "k < 8"
  shows "w AND 2 ^ k = 0 \<longleftrightarrow> \<not> bit w k"
proof -
  have "bit (w AND 2 ^ k) j \<longleftrightarrow> j = k \<and> bit w k" for j
    using assms by (auto simp: bit_and_iff bit_exp_iff)
  with assms show ?thesis by (auto simp: bit_eq_iff [of "w AND 2 ^ k" 0])
qed

lemma pack_loop_length:
  "length (fold (\<lambda>i packed. if have_l ! i then packed[g i := f i packed] else packed) is packed)
    = length packed"
  by (induction "is" arbitrary: packed) auto

lemma pack_loop_bit:
  assumes "n \<le> 8 * length packed" "8 * b + j < 8 * length packed" "j < 8"
  shows "bit (fold (\<lambda>i packed :: byte list. if have_l ! i
       then packed[i div 8 := packed ! (i div 8) OR push_bit (i mod 8) 1] else packed)
       [0..<n] packed ! b) j \<longleftrightarrow>
     bit (packed ! b) j \<or> (8 * b + j < n \<and> have_l ! (8 * b + j))"
  using assms(1)
proof (induction n)
  case 0
  then show ?case by simp
next
  case (Suc n)
  let ?F = "fold (\<lambda>i packed :: byte list. if have_l ! i
       then packed[i div 8 := packed ! (i div 8) OR push_bit (i mod 8) 1] else packed)"
  let ?p = "?F [0..<n] packed"
  have len: "length ?p = length packed" by (rule pack_loop_length)
  from Suc have IH: "bit (?p ! b) j \<longleftrightarrow>
      bit (packed ! b) j \<or> (8 * b + j < n \<and> have_l ! (8 * b + j))"
    and lt: "n div 8 < length packed" by auto
  have same: "n div 8 = b \<and> j = n mod 8 \<longleftrightarrow> n = 8 * b + j"
    using assms(3) by auto
  show ?case
  proof (cases "have_l ! n")
    case True
    then have "?F [0..<Suc n] packed ! b =
        (if n div 8 = b then ?p ! b OR push_bit (n mod 8) 1 else ?p ! b)"
      using len lt by (auto simp: nth_list_update)
    then have "bit (?F [0..<Suc n] packed ! b) j \<longleftrightarrow> bit (?p ! b) j \<or> (n div 8 = b \<and> j = n mod 8)"
      using assms(3) by (simp add: bit_set_step)
    with IH True same show ?thesis by (auto simp: less_Suc_eq)
  next
    case False
    with IH show ?thesis by (auto simp: less_Suc_eq)
  qed
qed

lemma length_packBitmap [simp]:
  "length (packBitmap pieceCount have_l) = nat ((pieceCount + 7) sdiv 8)"
  by (simp add: packBitmap_def pack_loop_length)

lemma bit_packBitmap:
  assumes "int (length have_l) = pieceCount" "i < length have_l"
  shows "bit (packBitmap pieceCount have_l ! (i div 8)) (i mod 8) \<longleftrightarrow> have_l ! i"
proof -
  have n: "length have_l \<le> 8 * nat ((pieceCount + 7) sdiv 8)"
    using assms by simp
  moreover have "8 * (i div 8) + i mod 8 = i" by simp
  ultimately show ?thesis
    unfolding packBitmap_def using assms by (subst pack_loop_bit) auto
qed

lemma unpack_loop_length:
  "length (fold (\<lambda>i h. if P i then h[i := True] else h) is h) = length h"
  by (induction "is" arbitrary: h) auto

lemma unpack_loop:
  assumes "n \<le> length h" "k < length h"
  shows "fold (\<lambda>i h. if P i then h[i := True] else h) [0..<n] h ! k \<longleftrightarrow> h ! k \<or> (k < n \<and> P k)"
  using assms by (induction n) (auto simp: unpack_loop_length nth_list_update less_Suc_eq)

text \<open>Loading a saved bitmap restores exactly the pieces that were recorded.\<close>

lemma unpack_pack:
  assumes "int (length have_l) = pieceCount"
  shows "unpackBitmap pieceCount (packBitmap pieceCount have_l) (replicate (nat pieceCount) False)
    = have_l"
proof (rule nth_equalityI)
  have idx: "takeWhile (\<lambda>i. i div 8 < length (packBitmap pieceCount have_l)) [0..<nat pieceCount]
      = [0..<nat pieceCount]"
    using assms by (auto simp: takeWhile_eq_all_conv)
  show "length (unpackBitmap pieceCount (packBitmap pieceCount have_l)
      (replicate (nat pieceCount) False)) = length have_l"
    unfolding unpackBitmap_def idx using assms by (simp add: unpack_loop_length)
  fix i
  assume "i < length (unpackBitmap pieceCount (packBitmap pieceCount have_l)
      (replicate (nat pieceCount) False))"
  with assms have i: "i < length have_l"
    unfolding unpackBitmap_def idx by (simp add: unpack_loop_length)
  then show "unpackBitmap pieceCount (packBitmap pieceCount have_l)
      (replicate (nat pieceCount) False) ! i = have_l ! i"
    unfolding unpackBitmap_def idx using assms
    by (subst unpack_loop) (auto simp: bit_test bit_packBitmap)
qed


section \<open>The backing as a map from pieces to bytes\<close>

definition disk_file :: "disk_backing \<Rightarrow> filesys \<Rightarrow> byte list" where
  "disk_file d fs = (case fs (d_dataPath d) of None \<Rightarrow> [] | Some f \<Rightarrow> f)"

text \<open>The length of piece \<open>i\<close> in a torrent of \<open>tot\<close> bytes, and its bytes in the data file.\<close>

definition piece_bytes :: "nat \<Rightarrow> nat \<Rightarrow> nat \<Rightarrow> nat" where
  "piece_bytes pl tot i = min pl (tot - i * pl)"

definition piece_at :: "nat \<Rightarrow> nat \<Rightarrow> byte list \<Rightarrow> byte list" where
  "piece_at pl i f = subslice (i * pl) (piece_bytes pl (length f) i) f"

definition disk_abs :: "disk_backing \<Rightarrow> filesys \<Rightarrow> int \<Rightarrow> byte list option" where
  "disk_abs d fs idx =
     (if Has idx d then Some (piece_at (nat (d_pieceLen d)) (nat idx) (disk_file d fs)) else None)"

text \<open>
  The state of an open backing of \<open>pc\<close> pieces of \<open>pl\<close> bytes over \<open>tot\<close> bytes: paths and geometry
  as \<open>newDiskBacking\<close> set them, the data file at its full size.
\<close>

definition disk_open :: "string \<Rightarrow> string \<Rightarrow> nat \<Rightarrow> nat \<Rightarrow> nat \<Rightarrow> disk_backing \<times> filesys \<Rightarrow> bool" where
  "disk_open dir h pl tot pc s \<longleftrightarrow>
     (case s of (d, fs) \<Rightarrow>
        d_open d \<and> d_pieceLen d = int pl \<and> d_pieceCount d = int pc \<and> length (d_have d) = pc \<and>
        d_dataPath d = path_join dir (h @ ''.dat'') \<and>
        d_bitmapPath d = path_join dir (h @ ''.bitmap'') \<and>
        length (disk_file d fs) = tot)"

definition disk_inv :: "string \<Rightarrow> string \<Rightarrow> nat \<Rightarrow> nat \<Rightarrow> nat \<Rightarrow> disk_backing \<times> filesys \<Rightarrow> bool" where
  "disk_inv dir h pl tot pc s \<longleftrightarrow>
     disk_open dir h pl tot pc s \<and>
     (case s of (d, fs) \<Rightarrow>
        (case fs (d_bitmapPath d) of
           None \<Rightarrow> d_have d = replicate pc False
         | Some packed \<Rightarrow> packed = packBitmap (int pc) (d_have d)))"

text \<open>A torrent's geometry: positive piece length, the last piece starts inside the torrent.\<close>

definition geometry :: "nat \<Rightarrow> nat \<Rightarrow> nat \<Rightarrow> bool" where
  "geometry pl tot pc \<longleftrightarrow> 0 < pl \<and> 0 < pc \<and> (pc - 1) * pl < tot \<and> tot \<le> pc * pl"

definition piece_fits :: "nat \<Rightarrow> nat \<Rightarrow> nat \<Rightarrow> int \<Rightarrow> byte list \<Rightarrow> bool" where
  "piece_fits pl tot pc i bs \<longleftrightarrow> 0 \<le> i \<and> i < int pc \<and> length bs = piece_bytes pl tot (nat i)"

lemma paths_differ [simp]:
  "path_join dir (h @ ''.bitmap'') \<noteq> path_join dir (h @ ''.dat'')"
  "path_join dir (h @ ''.dat'') \<noteq> path_join dir (h @ ''.bitmap'')"
  "path_join dir (h @ ''.bitmap'') @ ''.tmp'' \<noteq> path_join dir (h @ ''.dat'')"
  "path_join dir (h @ ''.dat'') \<noteq> path_join dir (h @ ''.bitmap'') @ ''.tmp''"
  by (simp_all add: path_join_def)

lemma pwrite_within: "off + length bs \<le> length f \<Longrightarrow> pwrite off bs f = copy_at off bs f"
  by (simp add: pwrite_def)

lemma piece_at_same:
  assumes "length bs = piece_bytes pl (length f) i" "i * pl \<le> length f"
  shows "piece_at pl i (copy_at (i * pl) bs f) = bs"
  using assms copy_at_slice [of "i * pl" bs f]
  by (simp add: piece_at_def subslice_def piece_bytes_def)

lemma piece_at_other:
  assumes "length bs \<le> pl" "i * pl \<le> length f" "j \<noteq> i"
  shows "piece_at pl j (copy_at (i * pl) bs f) = piece_at pl j f"
proof (cases "length f \<le> j * pl")
  case True
  with assms show ?thesis by (simp add: piece_at_def piece_bytes_def subslice_def)
next
  case False
  have "copy_at (i * pl) bs f ! (j * pl + k) = f ! (j * pl + k)"
    if k: "k < piece_bytes pl (length f) j" for k
  proof -
    have "\<not> (i * pl \<le> j * pl + k \<and> j * pl + k < i * pl + length bs)"
    proof (cases "j < i")
      case True
      then have "Suc j * pl \<le> i * pl" by (intro mult_le_mono1) simp
      with k show ?thesis by (simp add: piece_bytes_def)
    next
      case False
      with assms(3) have "Suc i * pl \<le> j * pl" by (intro mult_le_mono1) simp
      with assms(1) show ?thesis by simp
    qed
    with k assms(2) False show ?thesis
      by (auto simp: nth_copy_at piece_bytes_def)
  qed
  moreover have len: "length (copy_at (i * pl) bs f) = length f"
    using assms(2) by simp
  moreover have "j * pl + piece_bytes pl (length f) j \<le> length f"
    using False by (simp add: piece_bytes_def)
  ultimately show ?thesis
    unfolding piece_at_def len by (intro subslice_eqI) (simp_all add: assms(2))
qed

lemma saveBitmap_effect:
  assumes "d_bitmapPath d = path_join dir (h @ ''.bitmap'')"
  shows "saveBitmapLocked io d fs (path_join dir (h @ ''.dat'')) = fs (path_join dir (h @ ''.dat''))"
    and "saveBitmapLocked io d fs (path_join dir (h @ ''.bitmap'')) =
      (if write_bitmap_fails io \<or> rename_fails io then fs (path_join dir (h @ ''.bitmap''))
       else Some (packBitmap (d_pieceCount d) (d_have d)))"
  using assms by (simp_all add: saveBitmapLocked_def Let_def)

lemma geometry_offset:
  assumes "geometry pl tot pc" "i < pc"
  shows "i * pl < tot" "i * pl + piece_bytes pl tot i \<le> tot"
proof -
  have "i * pl \<le> (pc - 1) * pl" using assms(2) by (intro mult_le_mono1) simp
  with assms(1) show "i * pl < tot" unfolding geometry_def by linarith
  then show "i * pl + piece_bytes pl tot i \<le> tot" by (simp add: piece_bytes_def)
qed

text \<open>What the operations do to the data file, the bitmap and the fixed fields, faults included.\<close>

lemma WritePiece_effect:
  assumes "disk_open dir h pl tot pc (d, fs)" "geometry pl tot pc" "piece_fits pl tot pc i bs"
    and w: "WritePiece io i bs d fs = (d', fs', err)"
  shows "disk_file d' fs' = copy_at (nat i * pl)
      (case write_stops_at io of None \<Rightarrow> bs | Some n \<Rightarrow> take n bs) (disk_file d fs)"
    and "d' = d\<lparr>d_have := if write_stops_at io = None then (d_have d)[nat i := True] else d_have d\<rparr>"
    and "err = (if write_stops_at io = None then None else Some ErrIO)"
    and "fs' (path_join dir (h @ ''.bitmap'')) =
      (if write_stops_at io \<noteq> None \<or> write_bitmap_fails io \<or> rename_fails io
       then fs (path_join dir (h @ ''.bitmap'')) else Some (packBitmap (int pc) (d_have d')))"
proof -
  obtain k where k: "i = int k" "k < pc"
    using assms(3) by (auto simp: piece_fits_def elim: nonneg_int_cases)
  have off: "nat (int k * int pl) = k * pl" by (simp flip: of_nat_mult)
  have len: "length bs = piece_bytes pl tot k" "length (disk_file d fs) = tot"
    using assms(1,3) k by (auto simp: piece_fits_def disk_open_def)
  then have fit: "k * pl + length (take n bs) \<le> length (disk_file d fs)" for n
    using geometry_offset(2) [OF assms(2) k(2)] by simp
  have pw: "pwrite (k * pl) (take n bs) (disk_file d fs) = copy_at (k * pl) (take n bs) (disk_file d fs)"
    for n by (rule pwrite_within [OF fit])
  note pw' = pw [of "length bs", simplified]
  have pos: "\<not> int k * int pl < 0" by (simp add: not_less)
  have fields: "d_open d" "d_pieceLen d = int pl" "d_pieceCount d = int pc" "length (d_have d) = pc"
    "d_dataPath d = path_join dir (h @ ''.dat'')" "d_bitmapPath d = path_join dir (h @ ''.bitmap'')"
    using assms(1) by (simp_all add: disk_open_def)
  have res: "(d', fs', err) =
      (case write_stops_at io of
         Some n \<Rightarrow> (d, fs(d_dataPath d \<mapsto> copy_at (k * pl) (take n bs) (disk_file d fs)), Some ErrIO)
       | None \<Rightarrow>
           let d1 = d\<lparr>d_have := (d_have d)[k := True]\<rparr>
           in (d1, saveBitmapLocked io d1
                (fs(d_dataPath d \<mapsto> copy_at (k * pl) bs (disk_file d fs))), None))"
    unfolding w [symmetric] WritePiece_def disk_file_def [symmetric]
    using k fields pos
    by (cases "write_stops_at io") (simp_all add: Let_def off pw pw')
  show "disk_file d' fs' = copy_at (nat i * pl)
      (case write_stops_at io of None \<Rightarrow> bs | Some n \<Rightarrow> take n bs) (disk_file d fs)"
    using res k fields by (cases "write_stops_at io")
      (simp_all add: Let_def disk_file_def saveBitmap_effect)
  show d': "d' = d\<lparr>d_have := if write_stops_at io = None then (d_have d)[nat i := True] else d_have d\<rparr>"
    and "err = (if write_stops_at io = None then None else Some ErrIO)"
    using res k by (cases "write_stops_at io"; simp add: Let_def)+
  show "fs' (path_join dir (h @ ''.bitmap'')) =
      (if write_stops_at io \<noteq> None \<or> write_bitmap_fails io \<or> rename_fails io
       then fs (path_join dir (h @ ''.bitmap'')) else Some (packBitmap (int pc) (d_have d')))"
    using res d' k fields by (cases "write_stops_at io") (simp_all add: Let_def saveBitmap_effect)
qed

lemma Clear_effect:
  assumes "disk_open dir h pl tot pc (d, fs)" and c: "Clear io i d fs = (d', fs')"
  shows "disk_file d' fs' = disk_file d fs"
    and "d' = d\<lparr>d_have := if Has i d then (d_have d)[nat i := False] else d_have d\<rparr>"
    and "fs' (path_join dir (h @ ''.bitmap'')) =
      (if \<not> Has i d \<or> write_bitmap_fails io \<or> rename_fails io
       then fs (path_join dir (h @ ''.bitmap'')) else Some (packBitmap (int pc) (d_have d')))"
proof -
  from c have r: "(d', fs') = (if Has i d
      then let d1 = d\<lparr>d_have := (d_have d)[nat i := False]\<rparr> in (d1, saveBitmapLocked io d1 fs)
      else (d, fs))"
    by (simp add: Clear_def Has_def)
  note defs = Let_def disk_open_def disk_file_def saveBitmap_effect
  from r assms(1)
  show "disk_file d' fs' = disk_file d fs"
    "d' = d\<lparr>d_have := if Has i d then (d_have d)[nat i := False] else d_have d\<rparr>"
    "fs' (path_join dir (h @ ''.bitmap'')) =
      (if \<not> Has i d \<or> write_bitmap_fails io \<or> rename_fails io
       then fs (path_join dir (h @ ''.bitmap'')) else Some (packBitmap (int pc) (d_have d')))"
    by (cases "Has i d"; simp add: defs)+
qed

lemma truncate_same: "length f = n \<Longrightarrow> truncate_to n f = f"
  by (simp add: truncate_to_def)

lemma newDiskBacking_effect:
  assumes n: "newDiskBacking io dir h (int pl) (int tot) (int pc) fs = (fs', Inr d')"
  shows "disk_open dir h pl tot pc (d', fs')"
    and "disk_file d' fs' =
      truncate_to tot (case fs (path_join dir (h @ ''.dat'')) of None \<Rightarrow> [] | Some f \<Rightarrow> f)"
    and "fs' (path_join dir (h @ ''.bitmap'')) = fs (path_join dir (h @ ''.bitmap''))"
    and "d_have d' = (if read_bitmap_fails io then replicate pc False
       else case fs (path_join dir (h @ ''.bitmap'')) of None \<Rightarrow> replicate pc False
        | Some packed \<Rightarrow> unpackBitmap (int pc) packed (replicate pc False))"
  using n
  by (auto simp: newDiskBacking_def loadBitmap_def disk_open_def disk_file_def truncate_to_def
      unpackBitmap_def unpack_loop_length Let_def split: if_splits option.splits)

section \<open>Interface: a persistent piece store\<close>

datatype store_op = Store int "byte list" | Drop int | Restart

fun store_spec :: "store_op \<Rightarrow> (int \<Rightarrow> byte list option) \<Rightarrow> int \<Rightarrow> byte list option" where
  "store_spec (Store i bs) m = m(i \<mapsto> bs)"
| "store_spec (Drop i) m = m(i := None)"
| "store_spec Restart m = m"

definition op_fits :: "(int \<Rightarrow> byte list \<Rightarrow> bool) \<Rightarrow> store_op \<Rightarrow> bool" where
  "op_fits fits op \<longleftrightarrow> (case op of Store i bs \<Rightarrow> fits i bs | _ \<Rightarrow> True)"

locale piece_store =
  fixes inv :: "'s \<Rightarrow> bool"
    and abs :: "'s \<Rightarrow> int \<Rightarrow> byte list option"
    and fits :: "int \<Rightarrow> byte list \<Rightarrow> bool"
    and exec :: "store_op \<Rightarrow> 's \<Rightarrow> 's"
    and fetch :: "int \<Rightarrow> 's \<Rightarrow> byte list option"
  assumes store_inv: "inv s \<Longrightarrow> fits i bs \<Longrightarrow> inv (exec (Store i bs) s)"
    and drop_inv: "inv s \<Longrightarrow> inv (exec (Drop i) s)"
    and restart_inv: "inv s \<Longrightarrow> inv (exec Restart s)"
    and store_abs: "inv s \<Longrightarrow> fits i bs \<Longrightarrow> abs (exec (Store i bs) s) = (abs s)(i \<mapsto> bs)"
    and drop_abs: "inv s \<Longrightarrow> abs (exec (Drop i) s) = (abs s)(i := None)"
    and restart_abs: "inv s \<Longrightarrow> abs (exec Restart s) = abs s"
    and fetch_abs: "inv s \<Longrightarrow> fetch i s = abs s i"
begin

lemma exec_refines:
  assumes "inv s" "op_fits fits op"
  shows "inv (exec op s) \<and> abs (exec op s) = store_spec op (abs s)"
  using assms
  by (cases op) (simp_all add: op_fits_def store_inv drop_inv restart_inv store_abs drop_abs restart_abs)

lemma run_refines:
  assumes "inv s" "list_all (op_fits fits) ops"
  shows "inv (fold exec ops s) \<and> abs (fold exec ops s) = fold store_spec ops (abs s)"
  using assms by (induction ops arbitrary: s) (simp_all add: exec_refines)

lemma run_fetch:
  assumes "inv s" "list_all (op_fits fits) ops"
  shows "fetch i (fold exec ops s) = fold store_spec ops (abs s) i"
  using run_refines [OF assms] by (simp add: fetch_abs)

end

text \<open>
  The disk backing as a piece store: \<open>WritePiece\<close>, \<open>Clear\<close>, and a process restart, which drops the
  handle and the bitmap in memory and opens the directory again.
\<close>

fun disk_exec ::
  "string \<Rightarrow> string \<Rightarrow> nat \<Rightarrow> nat \<Rightarrow> nat \<Rightarrow> store_op \<Rightarrow> disk_backing \<times> filesys \<Rightarrow> disk_backing \<times> filesys"
where
  "disk_exec dir h pl tot pc (Store i bs) (d, fs) =
     (case WritePiece no_faults i bs d fs of (d', fs', _) \<Rightarrow> (d', fs'))"
| "disk_exec dir h pl tot pc (Drop i) (d, fs) = Clear no_faults i d fs"
| "disk_exec dir h pl tot pc Restart (d, fs) =
     (case newDiskBacking no_faults dir h (int pl) (int tot) (int pc) fs of
        (fs', Inr d') \<Rightarrow> (d', fs') | (fs', Inl _) \<Rightarrow> (d, fs'))"

definition disk_fetch :: "nat \<Rightarrow> nat \<Rightarrow> int \<Rightarrow> disk_backing \<times> filesys \<Rightarrow> byte list option" where
  "disk_fetch pl tot i s =
     (case ReadPiece no_faults i (piece_bytes pl tot (nat i)) (fst s) (snd s) of
        (bs, None) \<Rightarrow> Some bs | (_, Some _) \<Rightarrow> None)"

lemma newDiskBacking_ok:
  "\<exists>fs' d'. newDiskBacking no_faults dir h (int pl) (int tot) (int pc) fs = (fs', Inr d')"
  by (simp add: newDiskBacking_def no_faults_def Let_def)

lemma disk_fetch_abs:
  assumes "geometry pl tot pc" "disk_open dir h pl tot pc s"
  shows "disk_fetch pl tot i s = disk_abs (fst s) (snd s) i"
proof (cases "Has i (fst s)")
  case True
  then obtain k where k: "i = int k" "k < pc"
    using assms(2) by (auto simp: Has_def disk_open_def elim: nonneg_int_cases)
  have off: "nat (int k * int pl) = k * pl" "\<not> int k * int pl < 0"
    by (simp_all flip: of_nat_mult)
  have "length (disk_file (fst s) (snd s)) = tot"
    using assms(2) by (auto simp: disk_open_def)
  with geometry_offset [OF assms(1) k(2)]
  have "length (subslice (k * pl) (piece_bytes pl tot k) (disk_file (fst s) (snd s)))
      = piece_bytes pl tot k" by simp
  with True assms(2) k off show ?thesis
    by (auto simp: disk_fetch_def ReadPiece_def Has_def disk_abs_def piece_at_def disk_open_def no_faults_def
        Let_def subslice_def simp flip: disk_file_def)
next
  case False
  then show ?thesis by (auto simp: disk_fetch_def ReadPiece_def Has_def disk_abs_def)
qed

lemma have_only:
  "disk_open dir h pl tot pc (d, fs) \<Longrightarrow> 0 \<le> i \<Longrightarrow> i < int pc \<Longrightarrow>
    Has j (d\<lparr>d_have := (d_have d)[nat i := b]\<rparr>) = (if j = i then b else Has j d)"
  by (auto simp: Has_def disk_open_def nth_list_update)

lemma disk_store_step:
  assumes "geometry pl tot pc" "disk_inv dir h pl tot pc s" "piece_fits pl tot pc i bs"
  shows "disk_inv dir h pl tot pc (disk_exec dir h pl tot pc (Store i bs) s)"
    and "disk_abs (fst (disk_exec dir h pl tot pc (Store i bs) s))
        (snd (disk_exec dir h pl tot pc (Store i bs) s)) = (disk_abs (fst s) (snd s))(i \<mapsto> bs)"
proof -
  obtain d fs where s: "s = (d, fs)" by fastforce
  obtain d' fs' err where w: "WritePiece no_faults i bs d fs = (d', fs', err)"
    by (rule prod_cases3)
  have op: "disk_open dir h pl tot pc (d, fs)" using assms(2) s by (simp add: disk_inv_def)
  note eff = WritePiece_effect [OF op assms(1,3) w, simplified no_faults_def io_faults.simps, simplified]
  obtain k where k: "i = int k" "k < pc" "length bs = piece_bytes pl tot k"
    using assms(3) by (auto simp: piece_fits_def elim: nonneg_int_cases)
  have tot: "length (disk_file d fs) = tot" "k * pl \<le> tot"
    using op geometry_offset(1) [OF assms(1) k(2)] by (simp_all add: disk_open_def)
  have op': "disk_open dir h pl tot pc (d', fs')"
    using op tot k eff(1,2) by (simp add: disk_open_def)
  then show "disk_inv dir h pl tot pc (disk_exec dir h pl tot pc (Store i bs) s)"
    using s w eff(4) by (simp add: disk_inv_def) (simp add: disk_open_def)
  have has: "Has j d' \<longleftrightarrow> j = i \<or> Has j d" for j
    using have_only [OF op, of i j True] k by (simp add: eff(2))
  have pieces: "piece_at pl (nat j) (disk_file d' fs') =
      (if j = i then bs else piece_at pl (nat j) (disk_file d fs))" if "Has j d'" for j
    using that eff(1) k tot piece_at_same [of bs pl "disk_file d fs" k]
      piece_at_other [of bs pl k "disk_file d fs" "nat j"]
    by (auto simp: Has_def piece_bytes_def)
  have "d_pieceLen d = int pl" "d_pieceLen d' = int pl" using op op' by (simp_all add: disk_open_def)
  then show "disk_abs (fst (disk_exec dir h pl tot pc (Store i bs) s))
      (snd (disk_exec dir h pl tot pc (Store i bs) s)) = (disk_abs (fst s) (snd s))(i \<mapsto> bs)"
    using s w has pieces by (auto simp: disk_abs_def fun_eq_iff)
qed

lemma disk_drop_step:
  assumes "disk_inv dir h pl tot pc s"
  shows "disk_inv dir h pl tot pc (disk_exec dir h pl tot pc (Drop i) s)"
    and "disk_abs (fst (disk_exec dir h pl tot pc (Drop i) s))
        (snd (disk_exec dir h pl tot pc (Drop i) s)) = (disk_abs (fst s) (snd s))(i := None)"
proof -
  obtain d fs where s: "s = (d, fs)" by fastforce
  obtain d' fs' where c: "Clear no_faults i d fs = (d', fs')" by fastforce
  have op: "disk_open dir h pl tot pc (d, fs)" using assms s by (simp add: disk_inv_def)
  note eff = Clear_effect [OF op c, simplified no_faults_def io_faults.simps, simplified]
  have op': "disk_open dir h pl tot pc (d', fs')"
    using op eff(1,2) by (simp add: disk_open_def)
  then show "disk_inv dir h pl tot pc (disk_exec dir h pl tot pc (Drop i) s)"
    using assms s c eff(2,3) by (cases "Has i d") (auto simp: disk_inv_def disk_open_def)
  have has: "Has j d' \<longleftrightarrow> j \<noteq> i \<and> Has j d" for j
    using have_only [OF op, of i j False] op eff(2) by (auto simp: Has_def disk_open_def)
  have "d_pieceLen d' = d_pieceLen d" using eff(2) by simp
  then show "disk_abs (fst (disk_exec dir h pl tot pc (Drop i) s))
      (snd (disk_exec dir h pl tot pc (Drop i) s)) = (disk_abs (fst s) (snd s))(i := None)"
    using s c has eff(1) by (auto simp: disk_abs_def fun_eq_iff)
qed

lemma disk_restart_step:
  assumes "disk_inv dir h pl tot pc s"
  shows "disk_inv dir h pl tot pc (disk_exec dir h pl tot pc Restart s)"
    and "disk_abs (fst (disk_exec dir h pl tot pc Restart s))
        (snd (disk_exec dir h pl tot pc Restart s)) = disk_abs (fst s) (snd s)"
proof -
  obtain d fs where s: "s = (d, fs)" by fastforce
  obtain d' fs' where n: "newDiskBacking no_faults dir h (int pl) (int tot) (int pc) fs = (fs', Inr d')"
    using newDiskBacking_ok by blast
  note eff = newDiskBacking_effect [OF n]
  have op: "disk_open dir h pl tot pc (d, fs)" using assms s by (simp add: disk_inv_def)
  then have hv: "d_have d' = d_have d" and same: "disk_file d' fs' = disk_file d fs"
    using assms s eff(2,4) unpack_pack [of "d_have d" "int pc"]
    by (auto simp: disk_inv_def disk_open_def no_faults_def truncate_same disk_file_def split: option.splits)
  show "disk_inv dir h pl tot pc (disk_exec dir h pl tot pc Restart s)"
    using assms s n eff(1,3) hv
    by (auto simp: disk_inv_def disk_open_def split: option.splits)
  have "d_pieceLen d' = d_pieceLen d" using eff(1) op by (simp add: disk_open_def)
  then show "disk_abs (fst (disk_exec dir h pl tot pc Restart s))
      (snd (disk_exec dir h pl tot pc Restart s)) = disk_abs (fst s) (snd s)"
    using s n hv same by (auto simp: disk_abs_def Has_def fun_eq_iff)
qed

lemma disk_inv_open: "disk_inv dir h pl tot pc s \<Longrightarrow> disk_open dir h pl tot pc s"
  by (simp add: disk_inv_def)

text \<open>For every directory, hash and geometry the backing is a persistent piece store.\<close>

interpretation disk_store: piece_store
  "\<lambda>s. geometry pl tot pc \<and> disk_inv dir h pl tot pc s" "\<lambda>s. disk_abs (fst s) (snd s)"
  "piece_fits pl tot pc" "disk_exec dir h pl tot pc" "disk_fetch pl tot"
  for dir h pl tot pc
  by unfold_locales
    (simp_all add: disk_store_step disk_drop_step disk_restart_step
      disk_fetch_abs [OF _ disk_inv_open, of pl tot pc dir h])

lemma fresh_disk:
  assumes "fs (path_join dir (h @ ''.bitmap'')) = None"
    and n: "newDiskBacking no_faults dir h (int pl) (int tot) (int pc) fs = (fs', Inr d)"
  shows "disk_inv dir h pl tot pc (d, fs')" "disk_abs d fs' = Map.empty"
  using newDiskBacking_effect [OF n] assms(1)
  by (auto simp: disk_inv_def disk_open_def no_faults_def disk_abs_def Has_def fun_eq_iff)

section \<open>Faults\<close>

text \<open>
  The states of a backing whose every persisted piece is the torrent's (the caller persists only
  hash-verified pieces), where any operation may fail at any point and the process may stop and
  reopen the directory at any time.
\<close>

definition src_piece :: "nat \<Rightarrow> byte list \<Rightarrow> int \<Rightarrow> byte list" where
  "src_piece pl src i = piece_at pl (nat i) src"

inductive disk_reach ::
  "string \<Rightarrow> string \<Rightarrow> nat \<Rightarrow> nat \<Rightarrow> byte list \<Rightarrow> disk_backing \<Rightarrow> filesys \<Rightarrow> bool"
  for dir h pl pc src where
  created: "fs (path_join dir (h @ ''.bitmap'')) = None \<Longrightarrow>
     newDiskBacking io dir h (int pl) (int (length src)) (int pc) fs = (fs', Inr d) \<Longrightarrow>
     disk_reach dir h pl pc src d fs'"
| persisted: "disk_reach dir h pl pc src d fs \<Longrightarrow> 0 \<le> i \<Longrightarrow> i < int pc \<Longrightarrow>
     WritePiece io i (src_piece pl src i) d fs = (d', fs', err) \<Longrightarrow>
     disk_reach dir h pl pc src d' fs'"
| cleared: "disk_reach dir h pl pc src d fs \<Longrightarrow> Clear io i d fs = (d', fs') \<Longrightarrow>
     disk_reach dir h pl pc src d' fs'"
| reopened: "disk_reach dir h pl pc src d fs \<Longrightarrow>
     newDiskBacking io dir h (int pl) (int (length src)) (int pc) fs = (fs', Inr d') \<Longrightarrow>
     disk_reach dir h pl pc src d' fs'"

text \<open>Pieces that either bitmap claims hold the torrent's bytes.\<close>

definition good_pieces :: "nat \<Rightarrow> byte list \<Rightarrow> byte list \<Rightarrow> bool list \<Rightarrow> bool" where
  "good_pieces pl src f hv \<longleftrightarrow> (\<forall>k < length hv. hv ! k \<longrightarrow> piece_at pl k f = piece_at pl k src)"

definition disk_safe ::
  "string \<Rightarrow> string \<Rightarrow> nat \<Rightarrow> nat \<Rightarrow> byte list \<Rightarrow> disk_backing \<Rightarrow> filesys \<Rightarrow> bool"
where
  "disk_safe dir h pl pc src d fs \<longleftrightarrow>
     disk_open dir h pl (length src) pc (d, fs) \<and> good_pieces pl src (disk_file d fs) (d_have d) \<and>
     (\<forall>packed. fs (path_join dir (h @ ''.bitmap'')) = Some packed \<longrightarrow>
        (\<exists>hv. length hv = pc \<and> packed = packBitmap (int pc) hv \<and>
           good_pieces pl src (disk_file d fs) hv))"

lemma own_prefix_keeps:
  assumes "k * pl + piece_bytes pl (length f) k \<le> length f" "length f = length src"
    and "piece_at pl k f = piece_at pl k src"
  shows "piece_at pl k (copy_at (k * pl) (take n (piece_at pl k src)) f) = piece_at pl k src"
proof -
  let ?p = "piece_at pl k src"
  have len: "length ?p = piece_bytes pl (length f) k" using assms by (simp add: piece_at_def)
  have "copy_at (k * pl) (take n ?p) f = f"
  proof (rule nth_equalityI)
    show "length (copy_at (k * pl) (take n ?p) f) = length f" using assms(1) by simp
    fix j assume "j < length (copy_at (k * pl) (take n ?p) f)"
    then have j: "j < length f" using assms(1) by simp
    have "?p ! (j - k * pl) = f ! j"
      if "k * pl \<le> j" "j < k * pl + min (length ?p) n"
    proof -
      have "piece_at pl k f ! (j - k * pl) = f ! j"
        using that assms(1) len unfolding piece_at_def by (subst nth_subslice) auto
      with assms(3) show ?thesis by simp
    qed
    with j assms(1) show "copy_at (k * pl) (take n ?p) f ! j = f ! j"
      by (auto simp: nth_copy_at)
  qed
  with assms(3) show ?thesis by simp
qed

lemma good_pieces_write:
  assumes "geometry pl (length src) pc" "k < pc" "length f = length src" "length hv \<le> pc"
    and "good_pieces pl src f hv"
  shows "good_pieces pl src (copy_at (k * pl) (take n (piece_at pl k src)) f) hv"
  unfolding good_pieces_def
proof (intro allI impI)
  fix j assume j: "j < length hv" "hv ! j"
  with assms(5) have eq: "piece_at pl j f = piece_at pl j src" by (simp add: good_pieces_def)
  note g = geometry_offset [OF assms(1,2)]
  have "length (piece_at pl k src) \<le> pl"
    by (simp add: piece_at_def subslice_def piece_bytes_def)
  then show "piece_at pl j (copy_at (k * pl) (take n (piece_at pl k src)) f) = piece_at pl j src"
    using own_prefix_keeps [of k pl f src n] piece_at_other [of "take n (piece_at pl k src)" pl k f j]
      eq g assms(3)
    by (cases "j = k") auto
qed

lemma good_pieces_update:
  assumes "good_pieces pl src f hv" "b \<longrightarrow> piece_at pl k f = piece_at pl k src"
  shows "good_pieces pl src f (hv[k := b])"
  using assms by (cases "k < length hv") (auto simp: good_pieces_def nth_list_update list_update_beyond)

lemma good_pieces_mark:
  assumes "geometry pl (length src) pc" "k < pc" "length f = length src" "length hv = pc"
    and "good_pieces pl src f hv"
  shows "good_pieces pl src (copy_at (k * pl) (piece_at pl k src) f) (hv[k := True])"
proof -
  have "length (piece_at pl k src) = piece_bytes pl (length f) k"
    using geometry_offset [OF assms(1,2)] assms(3) by (simp add: piece_at_def)
  then have "piece_at pl k (copy_at (k * pl) (piece_at pl k src) f) = piece_at pl k src"
    using geometry_offset(1) [OF assms(1,2)] assms(3) by (intro piece_at_same) simp_all
  with good_pieces_write [OF assms(1-3) _ assms(5), of "length (piece_at pl k src)"] assms(4)
  show ?thesis by (intro good_pieces_update) simp_all
qed

lemma good_pieces_none [simp]: "good_pieces pl src f (replicate n False)"
  by (simp add: good_pieces_def)

lemma disk_reach_safe:
  assumes geo: "geometry pl (length src) pc"
  shows "disk_reach dir h pl pc src d fs \<Longrightarrow> disk_safe dir h pl pc src d fs"
proof (induction rule: disk_reach.induct)
  case (created fs io fs' d)
  then show ?case
    using newDiskBacking_effect [OF created(2)] by (auto simp: disk_safe_def)
next
  case (persisted d fs i io d' fs' err)
  obtain k where k: "i = int k" "k < pc" using persisted(2,3) by (auto elim: nonneg_int_cases)
  have op: "disk_open dir h pl (length src) pc (d, fs)"
    and gp: "good_pieces pl src (disk_file d fs) (d_have d)"
    and sc: "\<And>packed. fs (path_join dir (h @ ''.bitmap'')) = Some packed \<Longrightarrow>
        \<exists>hv. length hv = pc \<and> packed = packBitmap (int pc) hv \<and> good_pieces pl src (disk_file d fs) hv"
    using persisted.IH by (auto simp: disk_safe_def)
  have fits: "piece_fits pl (length src) pc i (src_piece pl src i)"
    using k geometry_offset [OF geo k(2)] by (simp add: piece_fits_def src_piece_def piece_at_def)
  note eff = WritePiece_effect [OF op geo fits persisted(4)]
  have len: "length (disk_file d fs) = length src" "length (d_have d) = pc" using op by (simp_all add: disk_open_def)
  have kle: "k * pl \<le> length src" using geometry_offset(1) [OF geo k(2)] by simp
  have f: "\<exists>n. disk_file d' fs' = copy_at (k * pl) (take n (piece_at pl k src)) (disk_file d fs)"
    using eff(1) k by (cases "write_stops_at io") (auto simp: src_piece_def intro: exI [of _ "length (piece_at pl k src)"])
  then obtain n where f: "disk_file d' fs' = copy_at (k * pl) (take n (piece_at pl k src)) (disk_file d fs)" ..
  have keep: "good_pieces pl src (disk_file d' fs') hv"
    if "good_pieces pl src (disk_file d fs) hv" "length hv = pc" for hv
    unfolding f using that len by (intro good_pieces_write [OF geo k(2)]) auto
  have own: "good_pieces pl src (disk_file d' fs') (d_have d')"
  proof (cases "write_stops_at io")
    case None
    with eff(1,2) k gp len good_pieces_mark [OF geo k(2) len] show ?thesis
      by (simp add: src_piece_def)
  next
    case (Some m)
    with eff(2) keep [OF gp len(2)] show ?thesis by simp
  qed
  have op': "disk_open dir h pl (length src) pc (d', fs')"
    using op eff(2) f len kle by (simp add: disk_open_def)
  have "length (d_have d') = pc" using eff(2) len by simp
  with own op' sc keep eff(4) show ?case
    unfolding disk_safe_def by (auto split: if_splits)
next
  case (cleared d fs io i d' fs')
  then have op: "disk_open dir h pl (length src) pc (d, fs)" by (simp add: disk_safe_def)
  note eff = Clear_effect [OF op cleared(2)]
  have gp: "good_pieces pl src (disk_file d fs) (d_have d)" using cleared by (simp add: disk_safe_def)
  then have own: "good_pieces pl src (disk_file d' fs') (d_have d')"
    using eff(1,2) by (simp add: good_pieces_update)
  have "disk_open dir h pl (length src) pc (d', fs')" using op eff(1,2) by (simp add: disk_open_def)
  with own cleared.IH eff(1,3) show ?case
    by (auto simp: disk_safe_def disk_open_def split: if_splits)
next
  case (reopened d fs io fs' d')
  note eff = newDiskBacking_effect [OF reopened(2)]
  have op: "disk_open dir h pl (length src) pc (d, fs)" using reopened.IH by (simp add: disk_safe_def)
  then have same: "disk_file d' fs' = disk_file d fs"
    using eff(2) by (auto simp: disk_open_def disk_file_def truncate_same split: option.splits)
  have "good_pieces pl src (disk_file d' fs') (d_have d')"
  proof (cases "fs (path_join dir (h @ ''.bitmap''))")
    case (Some packed)
    with reopened.IH obtain hv where "length hv = pc" "packed = packBitmap (int pc) hv"
      "good_pieces pl src (disk_file d fs) hv" by (auto simp: disk_safe_def)
    with Some eff(4) same unpack_pack [of hv "int pc"] show ?thesis by simp
  qed (use eff(4) in simp)
  with eff(1,3) same reopened.IH show ?case by (simp add: disk_safe_def)
qed

section \<open>Properties\<close>

text \<open>
  C3. A disk backing is a persistent map from piece indexes to bytes: after any sequence of piece
  writes, clears and process restarts on a fresh directory, reading piece \<open>i\<close> returns what was last
  written to \<open>i\<close> and not cleared since, in full, and \<open>errNotOnDisk\<close> otherwise.
\<close>

theorem disk_backing_refines_map:
  assumes "geometry pl tot pc"
    and "fs (path_join dir (h @ ''.bitmap'')) = None"
    and "newDiskBacking no_faults dir h (int pl) (int tot) (int pc) fs = (fs', Inr d)"
    and "list_all (op_fits (piece_fits pl tot pc)) ops"
  shows "disk_fetch pl tot i (fold (disk_exec dir h pl tot pc) ops (d, fs'))
    = fold store_spec ops Map.empty i"
  using disk_store.run_fetch [of pl tot pc dir h "(d, fs')" ops i] fresh_disk [OF assms(2,3)] assms(1,4)
  by simp

theorem disk_backing_refines_map_witness:
  "\<exists>fs d. newDiskBacking no_faults ''d'' ''h'' (int 2) (int 3) (int 2) Map.empty = (fs, Inr d) \<and>
     disk_fetch 2 3 1 (fold (disk_exec ''d'' ''h'' 2 3 2)
       [Store 1 [9], Store 0 [1, 2], Restart, Drop 0] (d, fs)) = Some [9]"
proof -
  let ?ops = "[Store 1 [9], Store 0 [1, 2], Restart, Drop 0]"
  obtain fs d where n: "newDiskBacking no_faults ''d'' ''h'' (int 2) (int 3) (int 2) Map.empty = (fs, Inr d)"
    using newDiskBacking_ok by blast
  have "disk_fetch 2 3 1 (fold (disk_exec ''d'' ''h'' 2 3 2) ?ops (d, fs))
      = fold store_spec ?ops Map.empty 1"
    by (rule disk_backing_refines_map [OF _ _ n])
      (simp_all add: geometry_def op_fits_def piece_fits_def piece_bytes_def)
  then have "disk_fetch 2 3 1 (fold (disk_exec ''d'' ''h'' 2 3 2) ?ops (d, fs)) = Some [9]"
    by (simp del: disk_exec.simps)
  with n show ?thesis by blast
qed

text \<open>
  C4. A persisted piece is never wrong: even if any data write stops half way, any sidecar write or
  rename fails and the process is restarted at any point, a piece that the backing claims to have
  reads back as the torrent's bytes for that piece, in full.
\<close>

theorem disk_serves_only_verified_bytes:
  assumes "geometry pl (length src) pc" "disk_reach dir h pl pc src d fs" "Has i d"
  shows "ReadPiece no_faults i (piece_bytes pl (length src) (nat i)) d fs = (src_piece pl src i, None)"
proof -
  have safe: "disk_safe dir h pl pc src d fs" by (rule disk_reach_safe [OF assms(1,2)])
  then have op: "disk_open dir h pl (length src) pc (d, fs)" by (simp add: disk_safe_def)
  then have pl: "d_pieceLen d = int pl" by (simp add: disk_open_def)
  have "piece_at pl (nat i) (disk_file d fs) = piece_at pl (nat i) src"
    using safe assms(3) by (auto simp: disk_safe_def good_pieces_def Has_def)
  with disk_fetch_abs [OF assms(1) op, of i] assms(3) pl
  have "disk_fetch pl (length src) i (d, fs) = Some (src_piece pl src i)"
    by (simp add: disk_abs_def src_piece_def)
  then show ?thesis
    by (auto simp: disk_fetch_def split: prod.splits option.splits)
qed

theorem disk_serves_only_verified_bytes_witness:
  "\<exists>fs d d' fs' err.
     newDiskBacking no_faults ''d'' ''h'' (int 2) (int 3) (int 2) Map.empty = (fs, Inr d) \<and>
     WritePiece no_faults 1 [9] d fs = (d', fs', err) \<and> ReadPiece no_faults 1 1 d' fs' = ([9], None)"
proof -
  let ?src = "[7, 8, 9] :: byte list"
  obtain fs d where n: "newDiskBacking no_faults ''d'' ''h'' (int 2) (int 3) (int 2) Map.empty = (fs, Inr d)"
    using newDiskBacking_ok by blast
  obtain d' fs' err where w: "WritePiece no_faults 1 [9] d fs = (d', fs', err)" by (rule prod_cases3)
  have geo: "geometry 2 (length ?src) 2" by (simp add: geometry_def)
  have piece: "src_piece 2 ?src 1 = [9]"
    by (simp add: src_piece_def piece_at_def piece_bytes_def subslice_def)
  have "disk_reach ''d'' ''h'' 2 2 ?src d fs"
    using n by (intro disk_reach.created [of Map.empty _ _ no_faults]) simp_all
  then have reach: "disk_reach ''d'' ''h'' 2 2 ?src d' fs'"
    by (rule disk_reach.persisted [where i = 1]) (use w piece in simp_all)
  have op: "disk_open ''d'' ''h'' 2 3 2 (d, fs)" by (rule newDiskBacking_effect(1) [OF n])
  have "Has 1 d'"
    using WritePiece_effect(2) [OF op _ _ w] geo have_only [OF op, of 1 1 True]
    by (simp add: piece_fits_def piece_bytes_def no_faults_def geometry_def)
  then have "ReadPiece no_faults 1 1 d' fs' = ([9], None)"
    using disk_serves_only_verified_bytes [OF geo reach, of 1] piece by (simp add: piece_bytes_def)
  with n w show ?thesis by blast
qed

end
