(* ===== verification/ReadClass.thy ===== *)
theory ReadClass
  imports Prelude
begin

text \<open>
  Why a read happens decides its piece priorities, its read-ahead and its patience
  (\<^verbatim>\<open>storage/readclass.go\<close>). The priorities are those of the torrent client in the order its
  documentation and the source's comment give them.
\<close>

section \<open>Piece priorities\<close>

datatype piece_priority =
    PiecePriorityNone
  | PiecePriorityNormal
  | PiecePriorityHigh
  | PiecePriorityReadahead
  | PiecePriorityNext
  | PiecePriorityNow

primrec prio_rank :: "piece_priority \<Rightarrow> nat" where
  "prio_rank PiecePriorityNone = 0"
| "prio_rank PiecePriorityNormal = 1"
| "prio_rank PiecePriorityHigh = 2"
| "prio_rank PiecePriorityReadahead = 3"
| "prio_rank PiecePriorityNext = 4"
| "prio_rank PiecePriorityNow = 5"

instantiation piece_priority :: linorder
begin

definition less_eq_piece_priority :: "piece_priority \<Rightarrow> piece_priority \<Rightarrow> bool" where
  "less_eq_piece_priority a b \<longleftrightarrow> prio_rank a \<le> prio_rank b"

definition less_piece_priority :: "piece_priority \<Rightarrow> piece_priority \<Rightarrow> bool" where
  "less_piece_priority a b \<longleftrightarrow> prio_rank a < prio_rank b"

instance
proof
  fix a b :: piece_priority
  show "a \<le> b \<Longrightarrow> b \<le> a \<Longrightarrow> a = b"
    by (cases a; cases b) (simp_all add: less_eq_piece_priority_def)
qed (auto simp: less_eq_piece_priority_def less_piece_priority_def)

end

lemmas prio_defs = less_eq_piece_priority_def less_piece_priority_def

lemma PiecePriorityNone_least [simp]: "PiecePriorityNone \<le> p"
  by (simp add: less_eq_piece_priority_def)

section \<open>Classes and their policy\<close>

datatype ReadClass =
    ClassPlayback
  | ClassAheadDemux
  | ClassColdProbe
  | ClassPatientDemux
  | ClassMKVIndex
  | ClassOther int

definition playbackReadaheadBytes :: int where
  "playbackReadaheadBytes = 64 * 2 ^ 20"

definition headFootTailBytes :: int where
  "headFootTailBytes = 32 * 2 ^ 20"

record classPolicy =
  curPrio :: piece_priority
  aheadPrio :: piece_priority
  aheadPieces :: int
  aheadBytes :: int
  headFootBoost :: bool
  tailBoostBytes :: int
  waitBudget :: time_ns

definition aheadPiecesFor :: "classPolicy \<Rightarrow> int \<Rightarrow> int" where
  "aheadPiecesFor p pieceLen =
     (if 0 < aheadBytes p \<and> 0 < pieceLen
      then let n = aheadBytes p sdiv pieceLen in if n < 1 then 1 else n
      else aheadPieces p)"

definition seconds :: "int \<Rightarrow> time_ns" where
  "seconds n = n * 1000000000"

primrec policy :: "ReadClass \<Rightarrow> classPolicy" where
  "policy ClassPlayback =
     \<lparr>curPrio = PiecePriorityNow, aheadPrio = PiecePriorityHigh, aheadPieces = 0,
      aheadBytes = playbackReadaheadBytes, headFootBoost = True, tailBoostBytes = 0,
      waitBudget = seconds 15\<rparr>"
| "policy ClassAheadDemux =
     \<lparr>curPrio = PiecePriorityNormal, aheadPrio = PiecePriorityNormal, aheadPieces = 12,
      aheadBytes = 0, headFootBoost = True, tailBoostBytes = 0, waitBudget = seconds 30\<rparr>"
| "policy ClassColdProbe =
     \<lparr>curPrio = PiecePriorityNormal, aheadPrio = PiecePriorityNone, aheadPieces = 0,
      aheadBytes = 0, headFootBoost = True, tailBoostBytes = 0, waitBudget = seconds 20\<rparr>"
| "policy ClassMKVIndex =
     \<lparr>curPrio = PiecePriorityNormal, aheadPrio = PiecePriorityNone, aheadPieces = 0,
      aheadBytes = 0, headFootBoost = True, tailBoostBytes = headFootTailBytes,
      waitBudget = seconds 20\<rparr>"
| "policy ClassPatientDemux =
     \<lparr>curPrio = PiecePriorityNormal, aheadPrio = PiecePriorityNormal, aheadPieces = 8,
      aheadBytes = 0, headFootBoost = False, tailBoostBytes = 0, waitBudget = seconds 240\<rparr>"
| "policy (ClassOther n) =
     \<lparr>curPrio = PiecePriorityNormal, aheadPrio = PiecePriorityNone, aheadPieces = 0,
      aheadBytes = 0, headFootBoost = True, tailBoostBytes = 0, waitBudget = seconds 20\<rparr>"

definition ParseReadClass :: "string \<Rightarrow> bool \<Rightarrow> ReadClass" where
  "ParseReadClass cls legacyBg =
     (if cls = ''playback'' then ClassPlayback
      else if cls = ''ahead'' then ClassAheadDemux
      else if cls = ''cold'' then ClassColdProbe
      else if cls = ''patient'' then ClassPatientDemux
      else if legacyBg then ClassAheadDemux
      else ClassPlayback)"

section \<open>Bounds\<close>

lemma aheadPiecesFor_nonneg: "0 \<le> aheadPiecesFor (policy c) pieceLen"
  by (cases c) (auto simp: aheadPiecesFor_def Let_def playbackReadaheadBytes_def)

text \<open>The read-ahead of a byte-bounded class stays within its budget, or is a single piece.\<close>

lemma aheadPiecesFor_bytes:
  assumes "0 < aheadBytes p" "0 < pieceLen"
  shows "1 \<le> aheadPiecesFor p pieceLen \<and> aheadPiecesFor p pieceLen * pieceLen \<le> max (aheadBytes p) pieceLen"
proof -
  have "aheadBytes p div pieceLen * pieceLen \<le> aheadBytes p"
    using assms by (metis add.commute le_add_same_cancel1 mod_div_mult_eq pos_mod_sign)
  then show ?thesis
    using assms by (auto simp: aheadPiecesFor_def Let_def)
qed

lemma background_below_player:
  "c \<noteq> ClassPlayback \<Longrightarrow>
    curPrio (policy c) < aheadPrio (policy ClassPlayback) \<and>
    aheadPrio (policy c) < aheadPrio (policy ClassPlayback) \<and>
    aheadPrio (policy ClassPlayback) < curPrio (policy ClassPlayback)"
  by (cases c) (auto simp: prio_defs)

end
