(* ===== verification/World.thy ===== *)
theory World
  imports MemPiece DiskBacking ReadClass
begin

text \<open>
  The shared state of the storage package: piece buffers, per-torrent caches, readers and the
  process-wide accountant live in one \<open>world\<close>. Go pointers are references into explicit heaps, so
  that a piece dropped from a cache's map and a stale pointer to it stay different things.
  Every method of the source takes its locks for the whole critical section; a method is a function
  on the world, and calls into the torrent client are recorded in \<open>w_calls\<close> in order.
\<close>

section \<open>State\<close>

record cache =
  c_hash :: infohash
  c_pieces :: "(int \<times> ref) list"
  c_readers :: "ref list"
  c_capacity :: int
  c_filled :: int
  c_pieceLen :: int
  c_pieceCount :: int
  c_totalSize :: int
  c_torrent :: "ref option"
  c_closed :: bool
  c_store :: bool
  c_disk :: "disk_backing option"

record reader =
  r_torrent :: "ref option"
  r_cache :: ref
  r_fileOffset :: int
  r_fileSize :: int
  r_pos :: int
  r_closed :: bool
  r_lastPieceIdx :: int
  r_class :: ReadClass
  r_waitDeadline :: "time_ns option"

text \<open>Calls of the storage layer on the torrent client's piece handles.\<close>

datatype client_call =
    UpdateCompletion ref int
  | SetPriority ref int piece_priority

record world =
  w_mp :: "ref \<Rightarrow> mem_piece"
  w_nextMp :: ref
  w_cache :: "ref \<Rightarrow> cache"
  w_nextCache :: ref
  w_reader :: "ref \<Rightarrow> reader"
  w_nextReader :: ref
  s_caches :: "(infohash \<times> ref) list"
  s_downloadDir :: "string option"
  s_globalFilled :: int
  s_globalCapacity :: int
  s_diskModes :: "infohash \<Rightarrow> bool"
  w_fs :: filesys
  w_calls :: "client_call list"

section \<open>Heap access\<close>

definition upd_mp :: "ref \<Rightarrow> mem_piece \<Rightarrow> world \<Rightarrow> world" where
  "upd_mp m p w = w\<lparr>w_mp := (w_mp w)(m := p)\<rparr>"

definition upd_cache :: "ref \<Rightarrow> (cache \<Rightarrow> cache) \<Rightarrow> world \<Rightarrow> world" where
  "upd_cache c f w = w\<lparr>w_cache := (w_cache w)(c := f (w_cache w c))\<rparr>"

definition upd_reader :: "ref \<Rightarrow> (reader \<Rightarrow> reader) \<Rightarrow> world \<Rightarrow> world" where
  "upd_reader r f w = w\<lparr>w_reader := (w_reader w)(r := f (w_reader w r))\<rparr>"

definition alloc_mp :: "time_ns \<Rightarrow> int \<Rightarrow> world \<Rightarrow> world \<times> ref" where
  "alloc_mp now sz w =
     (w\<lparr>w_mp := (w_mp w)(w_nextMp w := NewMemPiece now sz), w_nextMp := Suc (w_nextMp w)\<rparr>,
      w_nextMp w)"

definition call_client :: "client_call list \<Rightarrow> world \<Rightarrow> world" where
  "call_client cs w = w\<lparr>w_calls := w_calls w @ cs\<rparr>"

lemma upd_mp_sel [simp]:
  "w_mp (upd_mp m p w) = (w_mp w)(m := p)" "w_nextMp (upd_mp m p w) = w_nextMp w"
  "w_cache (upd_mp m p w) = w_cache w" "w_nextCache (upd_mp m p w) = w_nextCache w"
  "w_reader (upd_mp m p w) = w_reader w" "w_nextReader (upd_mp m p w) = w_nextReader w"
  "s_caches (upd_mp m p w) = s_caches w" "s_downloadDir (upd_mp m p w) = s_downloadDir w"
  "s_globalFilled (upd_mp m p w) = s_globalFilled w"
  "s_globalCapacity (upd_mp m p w) = s_globalCapacity w"
  "s_diskModes (upd_mp m p w) = s_diskModes w" "w_fs (upd_mp m p w) = w_fs w"
  "w_calls (upd_mp m p w) = w_calls w"
  by (simp_all add: upd_mp_def)

lemma upd_cache_sel [simp]:
  "w_mp (upd_cache c f w) = w_mp w" "w_nextMp (upd_cache c f w) = w_nextMp w"
  "w_cache (upd_cache c f w) = (w_cache w)(c := f (w_cache w c))"
  "w_nextCache (upd_cache c f w) = w_nextCache w"
  "w_reader (upd_cache c f w) = w_reader w" "w_nextReader (upd_cache c f w) = w_nextReader w"
  "s_caches (upd_cache c f w) = s_caches w" "s_downloadDir (upd_cache c f w) = s_downloadDir w"
  "s_globalFilled (upd_cache c f w) = s_globalFilled w"
  "s_globalCapacity (upd_cache c f w) = s_globalCapacity w"
  "s_diskModes (upd_cache c f w) = s_diskModes w" "w_fs (upd_cache c f w) = w_fs w"
  "w_calls (upd_cache c f w) = w_calls w"
  by (simp_all add: upd_cache_def)

lemma upd_reader_sel [simp]:
  "w_mp (upd_reader r g w) = w_mp w" "w_nextMp (upd_reader r g w) = w_nextMp w"
  "w_cache (upd_reader r g w) = w_cache w" "w_nextCache (upd_reader r g w) = w_nextCache w"
  "w_reader (upd_reader r g w) = (w_reader w)(r := g (w_reader w r))"
  "w_nextReader (upd_reader r g w) = w_nextReader w"
  "s_caches (upd_reader r g w) = s_caches w" "s_downloadDir (upd_reader r g w) = s_downloadDir w"
  "s_globalFilled (upd_reader r g w) = s_globalFilled w"
  "s_globalCapacity (upd_reader r g w) = s_globalCapacity w"
  "s_diskModes (upd_reader r g w) = s_diskModes w" "w_fs (upd_reader r g w) = w_fs w"
  "w_calls (upd_reader r g w) = w_calls w"
  by (simp_all add: upd_reader_def)

lemma call_client_sel [simp]:
  "w_mp (call_client cs w) = w_mp w" "w_nextMp (call_client cs w) = w_nextMp w"
  "w_cache (call_client cs w) = w_cache w" "w_nextCache (call_client cs w) = w_nextCache w"
  "w_reader (call_client cs w) = w_reader w" "w_nextReader (call_client cs w) = w_nextReader w"
  "s_caches (call_client cs w) = s_caches w" "s_downloadDir (call_client cs w) = s_downloadDir w"
  "s_globalFilled (call_client cs w) = s_globalFilled w"
  "s_globalCapacity (call_client cs w) = s_globalCapacity w"
  "s_diskModes (call_client cs w) = s_diskModes w" "w_fs (call_client cs w) = w_fs w"
  "w_calls (call_client cs w) = w_calls w @ cs"
  by (simp_all add: call_client_def)

lemma alloc_mp_sel [simp]:
  "w_mp (fst (alloc_mp now sz w)) = (w_mp w)(w_nextMp w := NewMemPiece now sz)"
  "w_nextMp (fst (alloc_mp now sz w)) = Suc (w_nextMp w)"
  "w_cache (fst (alloc_mp now sz w)) = w_cache w"
  "w_nextCache (fst (alloc_mp now sz w)) = w_nextCache w"
  "w_reader (fst (alloc_mp now sz w)) = w_reader w"
  "w_nextReader (fst (alloc_mp now sz w)) = w_nextReader w"
  "s_caches (fst (alloc_mp now sz w)) = s_caches w"
  "s_downloadDir (fst (alloc_mp now sz w)) = s_downloadDir w"
  "s_globalFilled (fst (alloc_mp now sz w)) = s_globalFilled w"
  "s_globalCapacity (fst (alloc_mp now sz w)) = s_globalCapacity w"
  "s_diskModes (fst (alloc_mp now sz w)) = s_diskModes w"
  "w_fs (fst (alloc_mp now sz w)) = w_fs w"
  "w_calls (fst (alloc_mp now sz w)) = w_calls w"
  "snd (alloc_mp now sz w) = w_nextMp w"
  by (simp_all add: alloc_mp_def)

end
