(* ===== verification/Cache.thy ===== *)
theory Cache
  imports World
begin

text \<open>
  One torrent's piece cache (\<^verbatim>\<open>storage/cache.go\<close>): the piece map, the protected windows of the
  registered readers, local eviction, byte accounting and download priorities. A Go map ranged over
  is an association list in an order the theorems do not fix. Log lines are left out.
\<close>

section \<open>Construction and simple accessors\<close>

definition NewCache :: "infohash \<Rightarrow> int \<Rightarrow> int \<Rightarrow> int \<Rightarrow> cache" where
  "NewCache hash capacity pieceLen pieceCount =
     \<lparr>c_hash = hash, c_pieces = [], c_readers = [], c_capacity = capacity, c_filled = 0,
      c_pieceLen = pieceLen, c_pieceCount = pieceCount, c_totalSize = 0, c_torrent = None,
      c_closed = False, c_store = False, c_disk = None\<rparr>"

text \<open>
  The size of the handle \<open>Cache.Piece\<close> hands to the torrent client; \<open>infoLength\<close> is the
  single-file length of the piece's info, when the piece carries one.
\<close>

definition Cache_Piece_size :: "int \<Rightarrow> int option \<Rightarrow> cache \<Rightarrow> int" where
  "Cache_Piece_size index infoLength C =
     (if index = c_pieceCount C - 1 then
        if 0 < c_totalSize C then c_totalSize C - index * c_pieceLen C
        else case infoLength of
               Some totalLen \<Rightarrow> if 0 < totalLen then totalLen - index * c_pieceLen C else c_pieceLen C
             | None \<Rightarrow> c_pieceLen C
      else c_pieceLen C)"

definition getPieceSize :: "int \<Rightarrow> int \<Rightarrow> cache \<Rightarrow> int" where
  "getPieceSize idx totalLength C =
     (if idx < 0 \<or> c_pieceCount C \<le> idx then 0
      else if idx = c_pieceCount C - 1 then totalLength - idx * c_pieceLen C
      else c_pieceLen C)"

definition addGlobalFilled :: "int \<Rightarrow> world \<Rightarrow> world" where
  "addGlobalFilled n w = w\<lparr>s_globalFilled := s_globalFilled w + n\<rparr>"

definition addGlobalIfStore :: "ref \<Rightarrow> int \<Rightarrow> world \<Rightarrow> world" where
  "addGlobalIfStore c n w = (if c_store (w_cache w c) then addGlobalFilled n w else w)"

definition Filled :: "cache \<Rightarrow> int" where
  "Filled C = c_filled C"

definition DiskBytes :: "cache \<Rightarrow> int" where
  "DiskBytes C = (case c_disk C of None \<Rightarrow> 0 | Some d \<Rightarrow> HaveCount d * c_pieceLen C)"

definition RemoveDisk :: "ref \<Rightarrow> world \<Rightarrow> world" where
  "RemoveDisk c w =
     (case c_disk (w_cache w c) of
        None \<Rightarrow> w
      | Some d \<Rightarrow>
          let (d', fs') = Remove d (w_fs w)
          in upd_cache c (\<lambda>C. C\<lparr>c_disk := Some d'\<rparr>) (w\<lparr>w_fs := fs'\<rparr>))"

definition ActiveReaderCount :: "cache \<Rightarrow> int" where
  "ActiveReaderCount C = int (length (c_readers C))"

section \<open>The piece map\<close>

definition GetOrCreateMemPiece :: "time_ns \<Rightarrow> ref \<Rightarrow> int \<Rightarrow> int \<Rightarrow> world \<Rightarrow> world \<times> ref" where
  "GetOrCreateMemPiece now c idx sz w =
     (if c_closed (w_cache w c) then alloc_mp now sz w
      else case map_of (c_pieces (w_cache w c)) idx of
             Some m \<Rightarrow> (w, m)
           | None \<Rightarrow>
               let (w1, m) = alloc_mp now sz w
               in (upd_cache c (\<lambda>C. C\<lparr>c_pieces := c_pieces C @ [(idx, m)]\<rparr>) w1, m))"

text \<open>
  The critical section all three eviction paths share: release the buffer, subtract exactly what
  the piece had contributed, forget the map entry.
\<close>

definition dropPiece :: "ref \<Rightarrow> int \<Rightarrow> ref \<Rightarrow> world \<Rightarrow> world" where
  "dropPiece c idx m w =
     (let (p, sz) = ReleaseAndSize (w_mp w m)
      in upd_cache c (\<lambda>C. C\<lparr>c_filled := c_filled C - sz, c_pieces := AList.delete idx (c_pieces C)\<rparr>)
           (upd_mp m p w))"

definition MarkNotComplete :: "ref \<Rightarrow> int \<Rightarrow> world \<Rightarrow> world" where
  "MarkNotComplete c idx w =
     (if c_closed (w_cache w c) then w
      else case map_of (c_pieces (w_cache w c)) idx of
             None \<Rightarrow> w
           | Some m \<Rightarrow>
               let freed = snd (ReleaseAndSize (w_mp w m)); w1 = dropPiece c idx m w
               in if freed \<noteq> 0 then addGlobalIfStore c (- freed) w1 else w1)"

definition UpdateFilled :: "ref \<Rightarrow> int \<Rightarrow> world \<Rightarrow> world" where
  "UpdateFilled c n w =
     (if c_closed (w_cache w c) then w
      else addGlobalIfStore c n (upd_cache c (\<lambda>C. C\<lparr>c_filled := c_filled C + n\<rparr>) w))"

definition Cache_Close :: "ref \<Rightarrow> world \<Rightarrow> world" where
  "Cache_Close c w =
     (let C = w_cache w c;
          (released, mps) =
            fold (\<lambda>(i, m) (n, h). let (p, sz) = ReleaseAndSize (h m) in (n + sz, h(m := p)))
              (c_pieces C) (0, w_mp w);
          w1 = upd_cache c (\<lambda>C. C\<lparr>c_closed := True, c_pieces := [], c_filled := 0\<rparr>)
                 (w\<lparr>w_mp := mps\<rparr>);
          w2 = (if released \<noteq> 0 then addGlobalIfStore c (- released) w1 else w1)
      in upd_cache c (\<lambda>C. C\<lparr>c_disk := map_option Disk_Close (c_disk C)\<rparr>) w2)"

section \<open>Readers and their windows\<close>

definition RegisterReader :: "ref \<Rightarrow> ref \<Rightarrow> world \<Rightarrow> world" where
  "RegisterReader c r w =
     upd_cache c (\<lambda>C. C\<lparr>c_readers := (if r \<in> set (c_readers C) then c_readers C else c_readers C @ [r]),
                       c_torrent := (case c_torrent C of None \<Rightarrow> r_torrent (w_reader w r)
                                     | Some t \<Rightarrow> Some t)\<rparr>) w"

definition UnregisterReader :: "ref \<Rightarrow> ref \<Rightarrow> world \<Rightarrow> world" where
  "UnregisterReader c r w = upd_cache c (\<lambda>C. C\<lparr>c_readers := removeAll r (c_readers C)\<rparr>) w"

text \<open>\<open>Reader.GetActiveWindow\<close>; the reader's cache is an argument.\<close>

definition GetActiveWindow :: "cache \<Rightarrow> reader \<Rightarrow> int \<times> int" where
  "GetActiveWindow C R =
     (if r_closed R then (0, 0)
      else
        let absOffset = r_fileOffset R + r_pos R;
            currPiece = absOffset sdiv c_pieceLen C;
            ahead0 = aheadPiecesFor (policy (r_class R)) (c_pieceLen C);
            ahead = (if ahead0 < 2 then 2 else ahead0);
            start0 = currPiece - 2;
            start = (if start0 < 0 then 0 else start0);
            end0 = currPiece + ahead;
            end' = (if c_pieceCount C \<le> end0 then c_pieceCount C - 1 else end0)
        in (start, end'))"

definition readerWindow :: "world \<Rightarrow> cache \<Rightarrow> ref \<Rightarrow> int list" where
  "readerWindow w C r =
     (let R = w_reader w r;
          (start, end') = GetActiveWindow (w_cache w (r_cache R)) R;
          fileStartPiece = r_fileOffset R sdiv c_pieceLen C;
          fileEndPiece = (r_fileOffset R + r_fileSize R - 1) sdiv c_pieceLen C
      in [start..end']
         @ [i \<leftarrow> [fileStartPiece..fileStartPiece + 2]. i \<le> fileEndPiece]
         @ (if fileStartPiece \<le> fileEndPiece - 2 then [fileEndPiece - 2..fileEndPiece] else []))"

definition getReaderWindows :: "ref \<Rightarrow> world \<Rightarrow> int list" where
  "getReaderWindows c w = concat (map (readerWindow w (w_cache w c)) (c_readers (w_cache w c)))"

section \<open>Eviction\<close>

definition notifyEvicted :: "ref \<Rightarrow> int \<Rightarrow> world \<Rightarrow> world" where
  "notifyEvicted c idx w =
     (case c_torrent (w_cache w c) of None \<Rightarrow> w | Some t \<Rightarrow> call_client [UpdateCompletion t idx] w)"

text \<open>One round of the local eviction loop, and the loop: oldest access first, until under the cap.\<close>

definition evictLocal :: "ref \<Rightarrow> int \<times> ref \<Rightarrow> world \<Rightarrow> world" where
  "evictLocal c cand w =
     (let sz = snd (ReleaseAndSize (w_mp w (snd cand)))
      in notifyEvicted c (fst cand)
           (addGlobalIfStore c (- sz) (dropPiece c (fst cand) (snd cand) w)))"

definition evictable :: "ref \<Rightarrow> world \<Rightarrow> int \<times> ref \<Rightarrow> bool" where
  "evictable c w cand \<longleftrightarrow>
     fst cand \<notin> set (getReaderWindows c w) \<and> IsComplete (w_mp w (snd cand))"

definition cleanPieces :: "ref \<Rightarrow> world \<Rightarrow> world" where
  "cleanPieces c w =
     (let candList = filter (evictable c w) (c_pieces (w_cache w c));
          sorted_l = sort_key (\<lambda>cand. mp_accessed (w_mp w (snd cand))) candList
      in range_while (\<lambda>w. c_capacity (w_cache w c) < c_filled (w_cache w c)) (evictLocal c) sorted_l w)"

definition EvictIfNeeded :: "ref \<Rightarrow> world \<Rightarrow> world" where
  "EvictIfNeeded c w =
     (if c_filled (w_cache w c) \<le> c_capacity (w_cache w c) then w else cleanPieces c w)"

record evictCand =
  e_index :: int
  e_mp :: ref
  e_accessed :: time_ns

definition collectEvictCandidates :: "ref \<Rightarrow> world \<Rightarrow> evictCand list" where
  "collectEvictCandidates c w =
     (if c_closed (w_cache w c) then []
      else map (\<lambda>(idx, m). \<lparr>e_index = idx, e_mp = m, e_accessed = mp_accessed (w_mp w m)\<rparr>)
             (filter (evictable c w) (c_pieces (w_cache w c))))"

definition evictPiece :: "ref \<Rightarrow> int \<Rightarrow> ref \<Rightarrow> world \<Rightarrow> world" where
  "evictPiece c idx m w =
     (if c_closed (w_cache w c) then w
      else if map_of (c_pieces (w_cache w c)) idx \<noteq> Some m \<or> \<not> IsComplete (w_mp w m) then w
      else if idx \<in> set (getReaderWindows c w) then w
      else
        let sz = snd (ReleaseAndSize (w_mp w m))
        in notifyEvicted c idx (addGlobalIfStore c (- sz) (dropPiece c idx m w)))"

section \<open>Availability\<close>

definition pieceComplete :: "ref \<Rightarrow> int \<Rightarrow> world \<Rightarrow> bool" where
  "pieceComplete c idx w \<longleftrightarrow>
     (case map_of (c_pieces (w_cache w c)) idx of None \<Rightarrow> False | Some m \<Rightarrow> IsComplete (w_mp w m)) \<or>
     (case c_disk (w_cache w c) of None \<Rightarrow> False | Some d \<Rightarrow> Has idx d)"

definition HasByteRange :: "ref \<Rightarrow> int \<Rightarrow> int \<Rightarrow> int \<Rightarrow> world \<Rightarrow> bool" where
  "HasByteRange c fileOffset start len w =
     (let C = w_cache w c
      in if len \<le> 0 then True
         else if c_closed C \<or> c_pieceLen C \<le> 0 then False
         else
           let startPiece0 = (fileOffset + start) sdiv c_pieceLen C;
               endPiece = (fileOffset + start + len - 1) sdiv c_pieceLen C;
               startPiece = (if startPiece0 < 0 then 0 else startPiece0)
           in list_all (\<lambda>idx. case map_of (c_pieces C) idx of
                                None \<Rightarrow> False | Some m \<Rightarrow> IsComplete (w_mp w m))
                [idx \<leftarrow> [startPiece..endPiece]. idx < c_pieceCount C])"

section \<open>Download priorities\<close>

type_synonym priorities = "int \<Rightarrow> piece_priority"

text \<open>\<^verbatim>\<open>if desired[idx] < p { desired[idx] = p }\<close>; a missing key reads as the zero priority.\<close>

definition bump :: "piece_priority \<Rightarrow> int \<Rightarrow> priorities \<Rightarrow> priorities" where
  "bump p idx desired = (if desired idx < p then desired(idx := p) else desired)"

definition readerClaims :: "cache \<Rightarrow> int \<Rightarrow> int \<Rightarrow> reader \<Rightarrow> priorities \<Rightarrow> priorities" where
  "readerClaims C fileStartPiece fileEndPiece R desired =
     (if r_closed R then desired
      else
        let pol = policy (r_class R);
            absOffset = r_fileOffset R + r_pos R;
            currPiece = absOffset sdiv c_pieceLen C;
            d1 = (if fileStartPiece \<le> currPiece \<and> currPiece \<le> fileEndPiece
                  then bump (curPrio pol) currPiece desired else desired);
            aheadN = aheadPiecesFor pol (c_pieceLen C);
            d2 = fold (\<lambda>i d. let idx = currPiece + i
                             in if fileStartPiece \<le> idx \<and> idx \<le> fileEndPiece
                                then bump (aheadPrio pol) idx d else d) [1..aheadN] d1
        in if headFootBoost pol then
             let d3 = fold (\<lambda>idx d. if idx \<le> fileEndPiece then bump PiecePriorityHigh idx d else d)
                        [fileStartPiece..fileStartPiece + 1] d2;
                 tailPieces =
                   (if 0 < tailBoostBytes pol \<and> 0 < c_pieceLen C
                    then max 2 (tailBoostBytes pol sdiv c_pieceLen C) else 2)
             in fold (\<lambda>idx d. if fileStartPiece \<le> idx then bump PiecePriorityHigh idx d else d)
                  [fileEndPiece - tailPieces + 1..fileEndPiece] d3
           else d2)"

definition UpdatePriorities :: "ref \<Rightarrow> int \<Rightarrow> int \<Rightarrow> world \<Rightarrow> world" where
  "UpdatePriorities c fileStartPiece fileEndPiece w =
     (let C = w_cache w c
      in case c_torrent C of
           None \<Rightarrow> w
         | Some t \<Rightarrow>
             let desired =
                   fold (\<lambda>r. readerClaims C fileStartPiece fileEndPiece (w_reader w r))
                     (c_readers C) (\<lambda>_. PiecePriorityNone)
             in call_client
                  (map (\<lambda>idx. SetPriority t idx (desired idx))
                    [idx \<leftarrow> [fileStartPiece..fileEndPiece]. idx < c_pieceCount C]) w)"

end
