(* ===== verification/Storage.thy ===== *)
theory Storage
  imports Cache
begin

text \<open>
  The process-wide storage (\<^verbatim>\<open>storage/storage.go\<close>), the piece handles given to the torrent client
  (\<^verbatim>\<open>storage/piece.go\<close>), disk persistence and reload of pieces (end of \<^verbatim>\<open>storage/cache.go\<close>), and the
  two waiting loops (\<open>WaitForPieces\<close> and \<^verbatim>\<open>storage/preload.go\<close>).
\<close>

section \<open>Limits\<close>

definition perStreamWindowBytes :: int where
  "perStreamWindowBytes = playbackReadaheadBytes + 16 * 2 ^ 20"

definition minGlobalCapacity :: int where
  "minGlobalCapacity = perStreamWindowBytes"

definition clampCapacity :: "int \<Rightarrow> int" where
  "clampCapacity bytes = (if bytes < minGlobalCapacity then minGlobalCapacity else bytes)"

definition DerivedMaxStreams :: "world \<Rightarrow> int" where
  "DerivedMaxStreams w =
     (let n = s_globalCapacity w sdiv perStreamWindowBytes in if n < 1 then 1 else n)"

definition DerivedMaxAudioTranscoders :: "world \<Rightarrow> int" where
  "DerivedMaxAudioTranscoders w =
     (let n = s_globalCapacity w sdiv (128 * 2 ^ 20) in if n < 2 then 2 else n)"

section \<open>Construction\<close>

definition no_mp :: mem_piece where
  "no_mp = NewMemPiece 0 0"

definition no_reader :: reader where
  "no_reader =
     \<lparr>r_torrent = None, r_cache = 0, r_fileOffset = 0, r_fileSize = 0, r_pos = 0, r_closed = True,
      r_lastPieceIdx = -1, r_class = ClassPlayback, r_waitDeadline = None\<rparr>"

text \<open>
  The start of the process: no caches, the budget clamped to one stream's window. The heaps hold
  default cells beyond their \<open>next\<close> counters.
\<close>

definition NewStorage :: "int \<Rightarrow> string \<Rightarrow> filesys \<Rightarrow> world" where
  "NewStorage CacheSizeBytes DownloadDir fs =
     \<lparr>w_mp = (\<lambda>_. no_mp), w_nextMp = 0, w_cache = (\<lambda>_. NewCache [] 0 0 0), w_nextCache = 0,
      w_reader = (\<lambda>_. no_reader), w_nextReader = 0, s_caches = [],
      s_downloadDir = Some DownloadDir, s_globalFilled = 0,
      s_globalCapacity = clampCapacity CacheSizeBytes, s_diskModes = (\<lambda>_. False),
      w_fs = fs, w_calls = []\<rparr>"

definition get_DownloadDir :: "world \<Rightarrow> string" where
  "get_DownloadDir w = (case s_downloadDir w of None \<Rightarrow> [] | Some d \<Rightarrow> d)"

definition CacheInfos :: "world \<Rightarrow> (string \<times> int \<times> int) list" where
  "CacheInfos w =
     map (\<lambda>(h, c). (h, Filled (w_cache w c), DiskBytes (w_cache w c))) (s_caches w)"

section \<open>Global eviction\<close>

record cand =
  cd_c :: ref
  cd_idx :: int
  cd_mp :: ref
  cd_accessed :: time_ns

definition globalCandidates :: "world \<Rightarrow> cand list" where
  "globalCandidates w =
     sort_key cd_accessed
       (concat (map (\<lambda>c. map (\<lambda>e. \<lparr>cd_c = c, cd_idx = e_index e, cd_mp = e_mp e,
                                     cd_accessed = e_accessed e\<rparr>) (collectEvictCandidates c w))
          (map snd (s_caches w))))"

definition evictCandidate :: "cand \<Rightarrow> world \<Rightarrow> world" where
  "evictCandidate cd w = evictPiece (cd_c cd) (cd_idx cd) (cd_mp cd) w"

definition evictGlobalIfNeeded :: "world \<Rightarrow> world" where
  "evictGlobalIfNeeded w =
     (let capacity = s_globalCapacity w
      in if capacity \<le> 0 \<or> s_globalFilled w \<le> capacity then w
         else range_while (\<lambda>w. capacity < s_globalFilled w) evictCandidate (globalCandidates w) w)"

definition SetGlobalCapacity :: "int \<Rightarrow> world \<Rightarrow> world" where
  "SetGlobalCapacity bytes w = evictGlobalIfNeeded (w\<lparr>s_globalCapacity := clampCapacity bytes\<rparr>)"

definition evictAfterComplete :: "ref \<Rightarrow> world \<Rightarrow> world" where
  "evictAfterComplete c w =
     (if c_store (w_cache w c) then evictGlobalIfNeeded w else EvictIfNeeded c w)"

section \<open>Disk persistence of pieces\<close>

definition persistIfDisk :: "io_faults \<Rightarrow> ref \<Rightarrow> int \<Rightarrow> ref \<Rightarrow> world \<Rightarrow> world" where
  "persistIfDisk io c idx m w =
     (case c_disk (w_cache w c) of
        None \<Rightarrow> w
      | Some d \<Rightarrow>
          if Has idx d then w
          else case Snapshot (w_mp w m) of
                 None \<Rightarrow> w
               | Some data \<Rightarrow>
                   let (d', fs', err) = WritePiece io idx data d (w_fs w)
                   in upd_cache c (\<lambda>C. C\<lparr>c_disk := Some d'\<rparr>) (w\<lparr>w_fs := fs'\<rparr>))"

definition hydrateIfNeeded :: "io_faults \<Rightarrow> time_ns \<Rightarrow> ref \<Rightarrow> int \<Rightarrow> ref \<Rightarrow> int \<Rightarrow> world \<Rightarrow> world" where
  "hydrateIfNeeded io now c idx m sz w =
     (case c_disk (w_cache w c) of
        None \<Rightarrow> w
      | Some d \<Rightarrow>
          if HasData (w_mp w m) \<or> \<not> Has idx d then w
          else
            let (buf, err) = ReadPiece io idx (nat sz) d (w_fs w)
            in if err \<noteq> None \<or> int (length buf) \<noteq> sz then w
               else
                 let (p, loaded) = LoadComplete now buf (w_mp w m); w1 = upd_mp m p w
                 in if 0 < loaded then
                      let w2 = UpdateFilled c loaded w1;
                          w3 = notifyEvicted c idx w2
                      in evictAfterComplete c w3
                    else w1)"

definition clearDisk :: "io_faults \<Rightarrow> ref \<Rightarrow> int \<Rightarrow> world \<Rightarrow> world" where
  "clearDisk io c idx w =
     (case c_disk (w_cache w c) of
        None \<Rightarrow> w
      | Some d \<Rightarrow>
          let (d', fs') = Clear io idx d (w_fs w)
          in upd_cache c (\<lambda>C. C\<lparr>c_disk := Some d'\<rparr>) (w\<lparr>w_fs := fs'\<rparr>))"

section \<open>Piece handles\<close>

record piece =
  p_index :: int
  p_size :: int
  p_cache :: ref

definition NewPiece :: "int \<Rightarrow> int \<Rightarrow> ref \<Rightarrow> piece" where
  "NewPiece index sz c = \<lparr>p_index = index, p_size = sz, p_cache = c\<rparr>"

definition Cache_Piece :: "ref \<Rightarrow> int \<Rightarrow> int option \<Rightarrow> world \<Rightarrow> piece" where
  "Cache_Piece c index infoLength w =
     NewPiece index (Cache_Piece_size index infoLength (w_cache w c)) c"

definition Piece_ReadAt ::
  "io_faults \<Rightarrow> time_ns \<Rightarrow> piece \<Rightarrow> nat \<Rightarrow> int \<Rightarrow> world \<Rightarrow> world \<times> byte list \<times> go_error option"
where
  "Piece_ReadAt io now p buflen off w =
     (let (w1, m) = GetOrCreateMemPiece now (p_cache p) (p_index p) (p_size p) w;
          w2 = hydrateIfNeeded io now (p_cache p) (p_index p) m (p_size p) w1;
          (mp, bs, err) = MemPiece_ReadAt now buflen off (w_mp w2 m)
      in (upd_mp m mp w2, bs, err))"

definition Piece_WriteAt ::
  "time_ns \<Rightarrow> piece \<Rightarrow> byte list \<Rightarrow> int \<Rightarrow> world \<Rightarrow> world \<times> int \<times> go_error option"
where
  "Piece_WriteAt now p buf off w =
     (let (w1, m) = GetOrCreateMemPiece now (p_cache p) (p_index p) (p_size p) w;
          (mp, n, err) = MemPiece_WriteAt now buf off (w_mp w1 m);
          w2 = upd_mp m mp w1
      in (if err = None \<and> 0 < n then UpdateFilled (p_cache p) n w2 else w2, n, err))"

definition Piece_MarkComplete :: "io_faults \<Rightarrow> time_ns \<Rightarrow> piece \<Rightarrow> world \<Rightarrow> world" where
  "Piece_MarkComplete io now p w =
     (let (w1, m) = GetOrCreateMemPiece now (p_cache p) (p_index p) (p_size p) w;
          w2 = upd_mp m (MemPiece_MarkComplete now (w_mp w1 m)) w1;
          w3 = persistIfDisk io (p_cache p) (p_index p) m w2
      in evictAfterComplete (p_cache p) w3)"

definition Piece_MarkNotComplete :: "io_faults \<Rightarrow> piece \<Rightarrow> world \<Rightarrow> world" where
  "Piece_MarkNotComplete io p w =
     MarkNotComplete (p_cache p) (p_index p) (clearDisk io (p_cache p) (p_index p) w)"

definition Piece_Done :: "time_ns \<Rightarrow> piece \<Rightarrow> world \<Rightarrow> world \<times> ref" where
  "Piece_Done now p w = GetOrCreateMemPiece now (p_cache p) (p_index p) (p_size p) w"

definition Piece_Completion :: "piece \<Rightarrow> world \<Rightarrow> bool" where
  "Piece_Completion p w = pieceComplete (p_cache p) (p_index p) w"

section \<open>Torrents\<close>

definition attachDisk :: "io_faults \<Rightarrow> ref \<Rightarrow> infohash \<Rightarrow> world \<Rightarrow> world" where
  "attachDisk io c hash w =
     (if get_DownloadDir w = [] then w
      else
        let C = w_cache w c
        in if \<not> (c_disk C = None \<and> \<not> c_closed C \<and> 0 < c_pieceLen C) then w
           else case newDiskBacking io (get_DownloadDir w) hash (c_pieceLen C) (c_totalSize C)
                       (c_pieceCount C) (w_fs w) of
                  (fs', Inl _) \<Rightarrow> w\<lparr>w_fs := fs'\<rparr>
                | (fs', Inr db) \<Rightarrow> upd_cache c (\<lambda>C. C\<lparr>c_disk := Some db\<rparr>) (w\<lparr>w_fs := fs'\<rparr>))"

definition SetMode :: "io_faults \<Rightarrow> infohash \<Rightarrow> bool \<Rightarrow> world \<Rightarrow> world" where
  "SetMode io hash disk w =
     (let w1 = w\<lparr>s_diskModes := (s_diskModes w)(hash := disk)\<rparr>
      in case map_of (s_caches w) hash of
           None \<Rightarrow> w1
         | Some c \<Rightarrow> if disk then attachDisk io c hash w1 else w1)"

text \<open>The fields of the torrent's info dictionary that \<open>OpenTorrent\<close> reads.\<close>

record info =
  i_piecesLen :: int
  i_pieceLength :: int
  i_totalLength :: int

definition OpenTorrent :: "io_faults \<Rightarrow> info \<Rightarrow> infohash \<Rightarrow> world \<Rightarrow> world \<times> ref" where
  "OpenTorrent io nfo hash w =
     (let pieceCount = i_piecesLen nfo sdiv 20;
          C = (NewCache hash (s_globalCapacity w) (i_pieceLength nfo) pieceCount)
                \<lparr>c_store := True, c_totalSize := i_totalLength nfo\<rparr>;
          (fs', disk) =
            (if s_diskModes w hash \<and> get_DownloadDir w \<noteq> [] then
               case newDiskBacking io (get_DownloadDir w) hash (i_pieceLength nfo)
                      (i_totalLength nfo) pieceCount (w_fs w) of
                 (fs1, Inr db) \<Rightarrow> (fs1, Some db)
               | (fs1, Inl _) \<Rightarrow> (fs1, None)
             else (w_fs w, None));
          c = w_nextCache w
      in (w\<lparr>w_fs := fs', w_cache := (w_cache w)(c := C\<lparr>c_disk := disk\<rparr>), w_nextCache := Suc c,
            s_caches := AList.update hash c (s_caches w)\<rparr>, c))"

definition Storage_Close :: "world \<Rightarrow> world" where
  "Storage_Close w = (fold Cache_Close (map snd (s_caches w)) w)\<lparr>s_caches := []\<rparr>"

definition GetCache :: "infohash \<Rightarrow> world \<Rightarrow> ref option" where
  "GetCache hash w = map_of (s_caches w) hash"

definition DeleteCache :: "infohash \<Rightarrow> world \<Rightarrow> world" where
  "DeleteCache hash w =
     (case map_of (s_caches w) hash of
        None \<Rightarrow> w
      | Some c \<Rightarrow>
          let w1 = Cache_Close c w in w1\<lparr>s_caches := AList.delete hash (s_caches w1)\<rparr>)"

end
