(* ===== verification/Accounting.thy ===== *)
theory Accounting
  imports Storage
begin

text \<open>
  The byte accounting of the storage layer. The invariant says that no piece buffer is shared, that
  each cache's \<open>filled\<close> is the sum of what its resident pieces contributed, and that the process-wide
  \<open>globalFilled\<close> is the sum of the caches' counters. Every operation of the package keeps it.
\<close>

section \<open>The invariant\<close>

definition resident :: "ref \<Rightarrow> world \<Rightarrow> int" where
  "resident c w = sum_al (\<lambda>m. mp_accounted (w_mp w m)) (c_pieces (w_cache w c))"

definition store_share :: "cache \<Rightarrow> int" where
  "store_share C = (if c_store C then c_filled C else 0)"

definition heap_inv :: "world \<Rightarrow> bool" where
  "heap_inv w \<longleftrightarrow>
     (\<forall>c<w_nextCache w.
        distinct (map fst (c_pieces (w_cache w c))) \<and> distinct (map snd (c_pieces (w_cache w c))) \<and>
        (\<forall>m \<in> snd ` set (c_pieces (w_cache w c)). m < w_nextMp w) \<and>
        (c_closed (w_cache w c) \<longrightarrow> c_pieces (w_cache w c) = [])) \<and>
     (\<forall>c<w_nextCache w. \<forall>c'<w_nextCache w. c \<noteq> c' \<longrightarrow>
        snd ` set (c_pieces (w_cache w c)) \<inter> snd ` set (c_pieces (w_cache w c')) = {})"

definition registry_inv :: "world \<Rightarrow> bool" where
  "registry_inv w \<longleftrightarrow>
     distinct (map fst (s_caches w)) \<and> distinct (map snd (s_caches w)) \<and>
     (\<forall>c \<in> snd ` set (s_caches w). c < w_nextCache w \<and> c_store (w_cache w c)) \<and>
     (\<forall>c<w_nextCache w. \<not> c_closed (w_cache w c) \<longrightarrow> c \<in> snd ` set (s_caches w))"

definition ledger_inv :: "world \<Rightarrow> bool" where
  "ledger_inv w \<longleftrightarrow>
     (\<forall>c<w_nextCache w. c_filled (w_cache w c) = resident c w) \<and>
     s_globalFilled w = (\<Sum>c<w_nextCache w. store_share (w_cache w c)) \<and>
     (\<forall>m. 0 \<le> mp_accounted (w_mp w m))"

definition world_inv :: "world \<Rightarrow> bool" where
  "world_inv w \<longleftrightarrow> heap_inv w \<and> registry_inv w \<and> ledger_inv w"

text \<open>The invariant reads only these parts of the world.\<close>

lemma world_inv_cong:
  assumes "\<And>m. mp_accounted (w_mp w' m) = mp_accounted (w_mp w m)"
    and "w_nextMp w' = w_nextMp w" "w_nextCache w' = w_nextCache w" "s_caches w' = s_caches w"
    and "s_globalFilled w' = s_globalFilled w"
    and "\<And>c. c_pieces (w_cache w' c) = c_pieces (w_cache w c)"
    and "\<And>c. c_filled (w_cache w' c) = c_filled (w_cache w c)"
    and "\<And>c. c_closed (w_cache w' c) = c_closed (w_cache w c)"
    and "\<And>c. c_store (w_cache w' c) = c_store (w_cache w c)"
  shows "world_inv w' = world_inv w"
proof -
  have "store_share (w_cache w' c) = store_share (w_cache w c)" for c
    unfolding store_share_def assms ..
  then show ?thesis
    unfolding world_inv_def heap_inv_def registry_inv_def ledger_inv_def resident_def
    by (simp add: assms)
qed

lemma sum_al_fun_upd:
  "distinct (map snd al) \<Longrightarrow>
    sum_al (\<lambda>m. f ((h(a := p)) m)) al =
      sum_al (\<lambda>m. f (h m)) al + (if a \<in> snd ` set al then f p - f (h a) else 0)"
  by (induction al) (auto simp: image_iff)

lemma owner_unique:
  assumes "heap_inv w" "c < w_nextCache w" "c' < w_nextCache w"
    and "m \<in> snd ` set (c_pieces (w_cache w c))" "m \<in> snd ` set (c_pieces (w_cache w c'))"
  shows "c = c'"
  using assms unfolding heap_inv_def by blast

lemma heap_inv_fresh:
  assumes "heap_inv w" "c < w_nextCache w"
  shows "w_nextMp w \<notin> snd ` set (c_pieces (w_cache w c))"
proof
  assume "w_nextMp w \<in> snd ` set (c_pieces (w_cache w c))"
  moreover have "\<forall>m \<in> snd ` set (c_pieces (w_cache w c)). m < w_nextMp w"
    using assms unfolding heap_inv_def by simp
  ultimately show False by blast
qed

lemma resident_upd_mp:
  assumes "heap_inv w" "c < w_nextCache w"
  shows "resident c (upd_mp m p w) = resident c w +
    (if m \<in> snd ` set (c_pieces (w_cache w c)) then mp_accounted p - mp_accounted (w_mp w m) else 0)"
  using assms unfolding resident_def heap_inv_def upd_mp_sel by (subst sum_al_fun_upd) auto

text \<open>Touching a piece without changing its contribution, and a detached piece in any way.\<close>

lemma world_inv_touch:
  assumes "world_inv w" "mp_accounted p = mp_accounted (w_mp w m)"
  shows "world_inv (upd_mp m p w)"
  using assms(1) by (rule world_inv_cong [THEN iffD2, rotated -1]) (use assms(2) in auto)

lemma world_inv_detached:
  assumes "world_inv w" "0 \<le> mp_accounted p"
    and "\<And>c. c < w_nextCache w \<Longrightarrow> m \<notin> snd ` set (c_pieces (w_cache w c))"
  shows "world_inv (upd_mp m p w)"
proof -
  have "resident c (upd_mp m p w) = resident c w" if "c < w_nextCache w" for c
    using that assms resident_upd_mp [of w c m p] by (simp add: world_inv_def)
  with assms show ?thesis
    by (simp add: world_inv_def heap_inv_def registry_inv_def ledger_inv_def)
qed

text \<open>Installing \<open>n\<close> bytes in an owned piece and adding \<open>n\<close> to the counters.\<close>

lemma global_sum_upd:
  fixes g :: "nat \<Rightarrow> int"
  assumes "c < n" "\<And>x. x < n \<Longrightarrow> x \<noteq> c \<Longrightarrow> f x = g x"
  shows "(\<Sum>x<n. f x) = (\<Sum>x<n. g x) + f c - g c"
proof -
  have "(\<Sum>x<n. f x) = f c + (\<Sum>x\<in>{..<n} - {c}. f x)" "(\<Sum>x<n. g x) = g c + (\<Sum>x\<in>{..<n} - {c}. g x)"
    using assms(1) by (simp_all add: sum.remove)
  moreover have "(\<Sum>x\<in>{..<n} - {c}. f x) = (\<Sum>x\<in>{..<n} - {c}. g x)"
    using assms(2) by (intro sum.cong) auto
  ultimately show ?thesis by simp
qed

lemma world_inv_install:
  assumes inv: "world_inv w" and c: "c < w_nextCache w" "\<not> c_closed (w_cache w c)"
    and m: "map_of (c_pieces (w_cache w c)) idx = Some m"
    and p: "mp_accounted p = mp_accounted (w_mp w m) + n" "0 \<le> n"
  shows "world_inv (UpdateFilled c n (upd_mp m p w))"
proof -
  let ?w = "UpdateFilled c n (upd_mp m p w)"
  have own: "m \<in> snd ` set (c_pieces (w_cache w c))" using m by (force dest: map_of_SomeD)
  have h: "heap_inv w" using inv by (simp add: world_inv_def)
  have pieces: "c_pieces (w_cache ?w x) = c_pieces (w_cache w x)"
    "c_closed (w_cache ?w x) = c_closed (w_cache w x)" "c_store (w_cache ?w x) = c_store (w_cache w x)"
    "c_filled (w_cache ?w x) = c_filled (w_cache w x) + (if x = c then n else 0)" for x
    using c(2) by (simp_all add: UpdateFilled_def addGlobalIfStore_def addGlobalFilled_def)
  have rest: "w_mp ?w = (w_mp w)(m := p)" "w_nextMp ?w = w_nextMp w" "w_nextCache ?w = w_nextCache w"
    "s_caches ?w = s_caches w"
    "s_globalFilled ?w = s_globalFilled w + (if c_store (w_cache w c) then n else 0)"
    using c(2) by (simp_all add: UpdateFilled_def addGlobalIfStore_def addGlobalFilled_def)
  have res: "resident x ?w = resident x w + (if x = c then n else 0)" if "x < w_nextCache w" for x
  proof -
    have "resident x ?w = resident x (upd_mp m p w)" by (simp add: resident_def pieces rest)
    also have "\<dots> = resident x w + (if x = c then n else 0)"
      using resident_upd_mp [OF h that] own owner_unique [OF h that c(1)] p by auto
    finally show ?thesis .
  qed
  have "heap_inv ?w" "registry_inv ?w"
    using inv by (simp_all add: world_inv_def heap_inv_def registry_inv_def pieces rest)
  moreover have "ledger_inv ?w"
  proof -
    have "s_globalFilled ?w = (\<Sum>x<w_nextCache w. store_share (w_cache ?w x))"
      using inv c(1) rest(5) unfolding world_inv_def ledger_inv_def
      by (subst global_sum_upd [where c = c and g = "\<lambda>x. store_share (w_cache w x)"])
        (auto simp: pieces store_share_def)
    then show ?thesis
      using inv res p unfolding world_inv_def ledger_inv_def by (auto simp: pieces rest)
  qed
  ultimately show ?thesis by (simp add: world_inv_def)
qed

section \<open>Operations on the piece map\<close>

lemma addGlobalIfStore_sel [simp]:
  "w_mp (addGlobalIfStore c n w) = w_mp w" "w_nextMp (addGlobalIfStore c n w) = w_nextMp w"
  "w_cache (addGlobalIfStore c n w) = w_cache w"
  "w_nextCache (addGlobalIfStore c n w) = w_nextCache w"
  "w_reader (addGlobalIfStore c n w) = w_reader w" "s_caches (addGlobalIfStore c n w) = s_caches w"
  "s_globalCapacity (addGlobalIfStore c n w) = s_globalCapacity w"
  "w_fs (addGlobalIfStore c n w) = w_fs w"
  "s_downloadDir (addGlobalIfStore c n w) = s_downloadDir w"
  "w_calls (addGlobalIfStore c n w) = w_calls w"
  "s_globalFilled (addGlobalIfStore c n w) =
     s_globalFilled w + (if c_store (w_cache w c) then n else 0)"
  by (simp_all add: addGlobalIfStore_def addGlobalFilled_def)

lemma dropPiece_sel [simp]:
  "w_mp (dropPiece c idx m w) = (w_mp w)(m := fst (ReleaseAndSize (w_mp w m)))"
  "w_nextMp (dropPiece c idx m w) = w_nextMp w"
  "w_nextCache (dropPiece c idx m w) = w_nextCache w"
  "w_reader (dropPiece c idx m w) = w_reader w"
  "s_caches (dropPiece c idx m w) = s_caches w"
  "s_globalFilled (dropPiece c idx m w) = s_globalFilled w"
  "s_globalCapacity (dropPiece c idx m w) = s_globalCapacity w"
  "w_fs (dropPiece c idx m w) = w_fs w"
  "w_calls (dropPiece c idx m w) = w_calls w"
  "w_cache (dropPiece c idx m w) = (w_cache w)(c := (w_cache w c)
     \<lparr>c_filled := c_filled (w_cache w c) - mp_accounted (w_mp w m),
      c_pieces := AList.delete idx (c_pieces (w_cache w c))\<rparr>)"
  by (simp_all add: dropPiece_def ReleaseAndSize_def Let_def)

lemma snd_delete_distinct:
  assumes "distinct (map fst al)" "distinct (map snd al)" "map_of al k = Some v"
  shows "snd ` set (AList.delete k al) = snd ` set al - {v}" "distinct (map snd (AList.delete k al))"
proof -
  have kv: "(k, v) \<in> set al" using assms(3) by (rule map_of_SomeD)
  have inj: "inj_on fst (set al)" "inj_on snd (set al)" using assms by (simp_all add: distinct_map)
  have "fst x = k \<longleftrightarrow> snd x = v" if "x \<in> set al" for x
    using that kv inj unfolding inj_on_def by (metis fst_conv snd_conv)
  then show "snd ` set (AList.delete k al) = snd ` set al - {v}"
    by (auto simp: set_delete_eq)
  show "distinct (map snd (AList.delete k al))"
    using assms(2) by (simp add: AList.delete_eq distinct_map_filter)
qed

text \<open>Caches that only lose pieces keep the heap well-formed.\<close>

lemma heap_inv_shrink:
  assumes "heap_inv w" "w_nextMp w' = w_nextMp w" "w_nextCache w' = w_nextCache w"
    and "\<And>x. x < w_nextCache w \<Longrightarrow> distinct (map fst (c_pieces (w_cache w' x)))"
    and "\<And>x. x < w_nextCache w \<Longrightarrow> distinct (map snd (c_pieces (w_cache w' x)))"
    and sub: "\<And>x. x < w_nextCache w \<Longrightarrow>
      snd ` set (c_pieces (w_cache w' x)) \<subseteq> snd ` set (c_pieces (w_cache w x))"
    and "\<And>x. x < w_nextCache w \<Longrightarrow> c_closed (w_cache w' x) \<Longrightarrow> c_pieces (w_cache w' x) = []"
  shows "heap_inv w'"
proof -
  have old: "\<And>x m. x < w_nextCache w \<Longrightarrow> m \<in> snd ` set (c_pieces (w_cache w x)) \<Longrightarrow> m < w_nextMp w"
    "\<And>x y. x < w_nextCache w \<Longrightarrow> y < w_nextCache w \<Longrightarrow> x \<noteq> y \<Longrightarrow>
      snd ` set (c_pieces (w_cache w x)) \<inter> snd ` set (c_pieces (w_cache w y)) = {}"
    using assms(1) by (auto simp: heap_inv_def) 
  have "snd ` set (c_pieces (w_cache w' x)) \<inter> snd ` set (c_pieces (w_cache w' y)) = {}"
    if "x < w_nextCache w" "y < w_nextCache w" "x \<noteq> y" for x y
    using old(2) [OF that] Int_mono [OF sub [OF that(1)] sub [OF that(2)]] by simp
  moreover have "m < w_nextMp w" if "x < w_nextCache w" "m \<in> snd ` set (c_pieces (w_cache w' x))" for x m
    by (rule old(1) [OF that(1) subsetD [OF sub [OF that(1)] that(2)]])
  ultimately show ?thesis
    unfolding heap_inv_def assms(2,3) using assms(4,5,7) by (intro conjI allI impI ballI) simp_all
qed

text \<open>The pieces of a cache after one of them was dropped.\<close>

lemma world_inv_drop:
  assumes inv: "world_inv w" and c: "c < w_nextCache w"
    and m: "map_of (c_pieces (w_cache w c)) idx = Some m"
    and n: "n = mp_accounted (w_mp w m)"
  shows "world_inv (addGlobalIfStore c (- n) (dropPiece c idx m w))"
proof -
  let ?w = "addGlobalIfStore c (- n) (dropPiece c idx m w)"
  let ?ps = "c_pieces (w_cache w c)"
  have h: "heap_inv w" using inv by (simp add: world_inv_def)
  then have dist: "distinct (map fst ?ps)" "distinct (map snd ?ps)"
    using c by (auto simp: heap_inv_def)
  note del = snd_delete_distinct [OF dist m]
  have own: "m \<in> snd ` set ?ps" using m by (force dest: map_of_SomeD)
  have pieces: "c_pieces (w_cache ?w x) = (if x = c then AList.delete idx ?ps else c_pieces (w_cache w x))"
    "c_closed (w_cache ?w x) = c_closed (w_cache w x)" "c_store (w_cache ?w x) = c_store (w_cache w x)"
    "c_filled (w_cache ?w x) = c_filled (w_cache w x) - (if x = c then n else 0)" for x
    by (simp_all add: n)
  have sub: "snd ` set (c_pieces (w_cache ?w x)) \<subseteq> snd ` set (c_pieces (w_cache w x))" for x
    using del(1) by (auto simp: pieces)
  have res: "resident x ?w = resident x w - (if x = c then n else 0)" if x: "x < w_nextCache w" for x
  proof (cases "x = c")
    case True
    have "m \<notin> snd ` set (AList.delete idx ?ps)" using del(1) by simp
    then have "resident c ?w = sum_al (\<lambda>m. mp_accounted (w_mp w m)) (AList.delete idx ?ps)"
      unfolding resident_def pieces by (auto intro!: sum_al_cong simp: image_iff)
    with True dist(1) m n show ?thesis by (simp add: sum_al_delete resident_def)
  next
    case False
    with own owner_unique [OF h x c] have "m \<notin> snd ` set (c_pieces (w_cache w x))" by blast
    with False show ?thesis
      unfolding resident_def pieces by (auto intro!: sum_al_cong simp: image_iff)
  qed
  have "heap_inv ?w"
  proof (rule heap_inv_shrink [OF h])
    fix x assume "x < w_nextCache w"
    with h have *: "distinct (map fst (c_pieces (w_cache w x)))" "distinct (map snd (c_pieces (w_cache w x)))"
      "c_closed (w_cache w x) \<Longrightarrow> c_pieces (w_cache w x) = []" by (auto simp: heap_inv_def)
    show "distinct (map fst (c_pieces (w_cache ?w x)))" "distinct (map snd (c_pieces (w_cache ?w x)))"
      using * del(2) dist(1) by (simp_all add: pieces)
    show "c_pieces (w_cache ?w x) = []" if "c_closed (w_cache ?w x)"
      using that * unfolding pieces by (cases "x = c") simp_all
  qed (use sub in simp_all)
  moreover have "registry_inv ?w"
    using inv unfolding world_inv_def registry_inv_def pieces by simp
  moreover have "ledger_inv ?w"
  proof -
    have "s_globalFilled ?w = (\<Sum>x<w_nextCache w. store_share (w_cache ?w x))"
      using inv c(1) unfolding world_inv_def ledger_inv_def
      by (subst global_sum_upd [where c = c and g = "\<lambda>x. store_share (w_cache w x)"])
        (auto simp: store_share_def n)
    moreover have "c_filled (w_cache ?w x) = resident x ?w" if "x < w_nextCache w" for x
      using inv res [OF that] that unfolding pieces by (simp add: world_inv_def ledger_inv_def)
    moreover have "0 \<le> mp_accounted (w_mp ?w x)" for x
      using inv by (simp add: accounted_release world_inv_def ledger_inv_def)
    ultimately show ?thesis unfolding ledger_inv_def by simp
  qed
  ultimately show ?thesis by (simp add: world_inv_def)
qed

lemma world_inv_getOrCreate:
  assumes "world_inv w" "c < w_nextCache w"
  shows "world_inv (fst (GetOrCreateMemPiece now c idx sz w))"
proof -
  have inv: "heap_inv w" "registry_inv w" "ledger_inv w" using assms(1) by (simp_all add: world_inv_def)
  have fresh: "w_nextMp w \<notin> snd ` set (c_pieces (w_cache w x))" if "x < w_nextCache w" for x
    by (rule heap_inv_fresh [OF inv(1) that])
  have a: "world_inv (fst (alloc_mp now sz w))"
  proof -
    have "resident x (fst (alloc_mp now sz w)) = resident x w" if "x < w_nextCache w" for x
      unfolding resident_def using fresh [OF that] by (auto intro!: sum_al_cong simp: image_iff)
    with inv show ?thesis
      by (auto simp: world_inv_def heap_inv_def registry_inv_def ledger_inv_def accounted_new less_Suc_eq)
  qed
  show ?thesis
  proof (cases "c_closed (w_cache w c) \<or> map_of (c_pieces (w_cache w c)) idx \<noteq> None")
    case True
    with a assms(1) show ?thesis by (auto simp: GetOrCreateMemPiece_def)
  next
    case False
    let ?w = "fst (GetOrCreateMemPiece now c idx sz w)"
    have w: "?w = upd_cache c (\<lambda>C. C\<lparr>c_pieces := c_pieces C @ [(idx, w_nextMp w)]\<rparr>)
        (fst (alloc_mp now sz w))"
      using False by (simp add: GetOrCreateMemPiece_def Let_def alloc_mp_def)
    have pieces: "c_pieces (w_cache ?w x) =
        c_pieces (w_cache w x) @ (if x = c then [(idx, w_nextMp w)] else [])"
      "c_filled (w_cache ?w x) = c_filled (w_cache w x)" "c_closed (w_cache ?w x) = c_closed (w_cache w x)"
      "c_store (w_cache ?w x) = c_store (w_cache w x)" for x
      by (simp_all add: w)
    have share: "store_share (w_cache ?w x) = store_share (w_cache w x)" for x
      unfolding store_share_def pieces ..
    have key: "idx \<notin> fst ` set (c_pieces (w_cache w c))" using False by (simp add: map_of_eq_None_iff)
    have "resident x ?w = resident x w" if "x < w_nextCache w" for x
      unfolding resident_def pieces using fresh [OF that]
      by (auto intro!: sum_al_cong simp: image_iff w accounted_new)
    then have "ledger_inv ?w"
      using inv(3) unfolding ledger_inv_def share pieces by (simp add: w accounted_new)
    moreover have "registry_inv ?w" using inv(2) unfolding registry_inv_def pieces by (simp add: w)
    moreover have "heap_inv ?w"
    proof -
      have "snd ` set (c_pieces (w_cache ?w x)) \<inter> snd ` set (c_pieces (w_cache ?w y)) = {}"
        if "x < w_nextCache w" "y < w_nextCache w" "x \<noteq> y" for x y
      proof -
        have "snd ` set (c_pieces (w_cache w x)) \<inter> snd ` set (c_pieces (w_cache w y)) = {}"
          using inv(1) that by (simp add: heap_inv_def)
        with fresh [OF that(1)] fresh [OF that(2)] that(3) show ?thesis
          unfolding pieces
          by (cases "x = c"; cases "y = c") (simp_all add: image_Un Int_Un_distrib Int_Un_distrib2)
      qed
      moreover have "distinct (map fst (c_pieces (w_cache ?w x)))"
        "distinct (map snd (c_pieces (w_cache ?w x)))" "\<forall>m \<in> snd ` set (c_pieces (w_cache ?w x)). m < Suc (w_nextMp w)"
        "c_closed (w_cache ?w x) \<longrightarrow> c_pieces (w_cache ?w x) = []"
        if "x < w_nextCache w" for x
        using inv(1) that fresh [OF that] key False unfolding pieces by (auto simp: heap_inv_def less_Suc_eq)
      ultimately show ?thesis by (simp add: heap_inv_def w)
    qed
    ultimately show ?thesis by (simp add: world_inv_def)
  qed
qed

lemma getOrCreate_owned:
  assumes "\<not> c_closed (w_cache w c)" "GetOrCreateMemPiece now c idx sz w = (w1, m)"
    "idx \<in> fst ` set (c_pieces (w_cache w c)) \<longrightarrow> distinct (map fst (c_pieces (w_cache w c)))"
  shows "map_of (c_pieces (w_cache w1 c)) idx = Some m"
  using assms
  by (auto simp: GetOrCreateMemPiece_def Let_def alloc_mp_def map_add_def split: option.splits)

lemma getOrCreate_frame:
  assumes "GetOrCreateMemPiece now c idx sz w = (w1, m)"
  shows "w_nextCache w1 = w_nextCache w" "s_caches w1 = s_caches w"
    "c_closed (w_cache w1 x) = c_closed (w_cache w x)" "c_store (w_cache w1 x) = c_store (w_cache w x)"
    "c_filled (w_cache w1 x) = c_filled (w_cache w x)"
    "s_globalFilled w1 = s_globalFilled w" "s_globalCapacity w1 = s_globalCapacity w"
    "c_disk (w_cache w1 x) = c_disk (w_cache w x)" "w_fs w1 = w_fs w" "w_reader w1 = w_reader w"
  using assms
  by (auto simp: GetOrCreateMemPiece_def Let_def alloc_mp_def split: option.splits if_splits)

lemma getOrCreate_detached:
  assumes "world_inv w" "c_closed (w_cache w c)" "GetOrCreateMemPiece now c idx sz w = (w1, m)"
    "x < w_nextCache w"
  shows "m \<notin> snd ` set (c_pieces (w_cache w1 x))"
  using assms heap_inv_fresh [of w x] by (auto simp: GetOrCreateMemPiece_def alloc_mp_def world_inv_def)

section \<open>Updates the invariant does not see\<close>

lemma world_inv_frame [frame_simps]:
  "world_inv (call_client cs w) = world_inv w"
  "world_inv (w\<lparr>w_fs := fs\<rparr>) = world_inv w"
  "world_inv (w\<lparr>s_diskModes := dm\<rparr>) = world_inv w"
  "world_inv (w\<lparr>s_globalCapacity := n\<rparr>) = world_inv w"
  "world_inv (upd_reader r g w) = world_inv w"
  "world_inv (upd_cache c (\<lambda>C. C\<lparr>c_disk := f C\<rparr>) w) = world_inv w"
  "world_inv (upd_cache c (\<lambda>C. C\<lparr>c_readers := rs C, c_torrent := t C\<rparr>) w) = world_inv w"
  "world_inv (upd_cache c (\<lambda>C. C\<lparr>c_readers := rs C\<rparr>) w) = world_inv w"
  by (rule world_inv_cong; simp)+

lemma world_inv_fs_disk [frame_simps]:
  "world_inv (upd_cache c (\<lambda>C. C\<lparr>c_disk := f C\<rparr>) (w\<lparr>w_fs := fs\<rparr>)) = world_inv w"
  by (simp add: frame_simps)

lemma world_inv_notify [frame_simps]: "world_inv (notifyEvicted c idx w) = world_inv w"
  by (simp add: notifyEvicted_def frame_simps split: option.split)

section \<open>Closing and opening caches\<close>

lemma close_fold:
  "distinct (map snd ps) \<Longrightarrow>
    fold (\<lambda>(i, m) (n, h). let (p, sz) = ReleaseAndSize (h m) in (n + sz, h(m := p))) ps (n, h) =
      (n + sum_al (\<lambda>m. mp_accounted (h m)) ps,
       \<lambda>m. if m \<in> snd ` set ps then fst (ReleaseAndSize (h m)) else h m)"
proof (induction ps arbitrary: n h)
  case Nil
  then show ?case by simp
next
  case (Cons im ps)
  obtain i m where im: "im = (i, m)" by fastforce
  with Cons.prems have m: "m \<notin> snd ` set ps" and d: "distinct (map snd ps)" by auto
  have "sum_al (\<lambda>x. mp_accounted ((h(m := p)) x)) ps = sum_al (\<lambda>x. mp_accounted (h x)) ps" for p
    using m by (auto intro!: sum_al_cong simp: image_iff)
  with Cons.IH [OF d] im m show ?case
    by (auto simp: ReleaseAndSize_def Let_def fun_eq_iff)
qed

lemma Cache_Close_effect:
  assumes "distinct (map snd (c_pieces (w_cache w c)))"
  shows "w_mp (Cache_Close c w) = (\<lambda>m. if m \<in> snd ` set (c_pieces (w_cache w c))
      then fst (ReleaseAndSize (w_mp w m)) else w_mp w m)"
    and "w_cache (Cache_Close c w) = (w_cache w)(c := (w_cache w c)
      \<lparr>c_closed := True, c_pieces := [], c_filled := 0,
       c_disk := map_option Disk_Close (c_disk (w_cache w c))\<rparr>)"
    and "s_globalFilled (Cache_Close c w) =
      s_globalFilled w - (if c_store (w_cache w c) then resident c w else 0)"
    and "w_nextMp (Cache_Close c w) = w_nextMp w" "w_nextCache (Cache_Close c w) = w_nextCache w"
      "s_caches (Cache_Close c w) = s_caches w" "w_reader (Cache_Close c w) = w_reader w"
  unfolding Cache_Close_def Let_def close_fold [OF assms, unfolded Let_def]
  by (auto simp: resident_def fun_eq_iff)

lemma world_inv_close:
  assumes inv: "world_inv w" and c: "c < w_nextCache w"
  shows "world_inv (Cache_Close c w)"
proof -
  let ?w = "Cache_Close c w"
  have h: "heap_inv w" using inv by (simp add: world_inv_def)
  then have d: "distinct (map snd (c_pieces (w_cache w c)))" using c by (simp add: heap_inv_def)
  note eff = Cache_Close_effect [OF d]
  have pieces: "c_pieces (w_cache ?w x) = (if x = c then [] else c_pieces (w_cache w x))"
    "c_closed (w_cache ?w x) = (x = c \<or> c_closed (w_cache w x))"
    "c_store (w_cache ?w x) = c_store (w_cache w x)"
    "c_filled (w_cache ?w x) = (if x = c then 0 else c_filled (w_cache w x))" for x
    by (simp_all add: eff)
  have res: "resident x ?w = (if x = c then 0 else resident x w)" if x: "x < w_nextCache w" for x
  proof (cases "x = c")
    case False
    have out: "m \<notin> snd ` set (c_pieces (w_cache w c))" if "(i, m) \<in> set (c_pieces (w_cache w x))" for i m
      using owner_unique [OF h x c image_eqI [OF _ that]] False by auto
    have "sum_al (\<lambda>m. mp_accounted (w_mp ?w m)) (c_pieces (w_cache w x)) = resident x w"
      unfolding resident_def eff(1) by (rule sum_al_cong) (simp only: out if_False)
    with False show ?thesis by (simp add: resident_def pieces)
  qed (simp add: resident_def pieces)
  have "heap_inv ?w"
  proof (rule heap_inv_shrink [OF h])
    fix x assume "x < w_nextCache w"
    with h have *: "distinct (map fst (c_pieces (w_cache w x)))" "distinct (map snd (c_pieces (w_cache w x)))"
      "c_closed (w_cache w x) \<Longrightarrow> c_pieces (w_cache w x) = []" by (auto simp: heap_inv_def)
    show "distinct (map fst (c_pieces (w_cache ?w x)))" "distinct (map snd (c_pieces (w_cache ?w x)))"
      using * by (simp_all add: pieces)
    show "c_pieces (w_cache ?w x) = []" if "c_closed (w_cache ?w x)"
      using that * unfolding pieces by (cases "x = c") simp_all
  qed (simp_all add: eff pieces)
  moreover have "registry_inv ?w"
    using inv unfolding world_inv_def registry_inv_def pieces by (simp add: eff)
  moreover have "ledger_inv ?w"
  proof -
    have filled: "\<forall>x<w_nextCache w. c_filled (w_cache w x) = resident x w"
      and glob: "s_globalFilled w = (\<Sum>x<w_nextCache w. store_share (w_cache w x))"
      and nn: "\<forall>m. 0 \<le> mp_accounted (w_mp w m)"
      using inv by (simp_all add: world_inv_def ledger_inv_def)
    have "(\<Sum>x<w_nextCache w. store_share (w_cache ?w x)) = (\<Sum>x<w_nextCache w. store_share (w_cache w x))
        + store_share (w_cache ?w c) - store_share (w_cache w c)"
      by (rule global_sum_upd [OF c]) (simp add: eff)
    also have "\<dots> = s_globalFilled ?w"
      using filled c glob by (simp add: store_share_def eff)
    finally have "s_globalFilled ?w = (\<Sum>x<w_nextCache w. store_share (w_cache ?w x))" ..
    moreover have "c_filled (w_cache ?w x) = resident x ?w" if "x < w_nextCache w" for x
      using filled res [OF that] that unfolding pieces by simp
    moreover have "0 \<le> mp_accounted (w_mp ?w x)" for x
      using nn by (simp add: accounted_release eff)
    ultimately show ?thesis unfolding ledger_inv_def eff by simp
  qed
  ultimately show ?thesis by (simp add: world_inv_def)
qed

lemma OpenTorrent_result:
  "\<exists>fs' disk. OpenTorrent io nfo hash w =
     (w\<lparr>w_fs := fs', w_cache := (w_cache w)(w_nextCache w :=
          (NewCache hash (s_globalCapacity w) (i_pieceLength nfo) (i_piecesLen nfo sdiv 20))
            \<lparr>c_store := True, c_totalSize := i_totalLength nfo, c_disk := disk\<rparr>),
        w_nextCache := Suc (w_nextCache w),
        s_caches := AList.update hash (w_nextCache w) (s_caches w)\<rparr>, w_nextCache w)"
  unfolding OpenTorrent_def Let_def case_prod_beta by blast

lemma world_inv_open:
  assumes inv: "world_inv w" and new: "hash \<notin> fst ` set (s_caches w)"
  shows "world_inv (fst (OpenTorrent io nfo hash w))"
proof -
  let ?w = "fst (OpenTorrent io nfo hash w)"
  let ?n = "w_nextCache w"
  obtain C fs' where w: "?w = w\<lparr>w_fs := fs', w_cache := (w_cache w)(?n := C), w_nextCache := Suc ?n,
      s_caches := s_caches w @ [(hash, ?n)]\<rparr>"
    and C: "c_pieces C = []" "c_filled C = 0" "\<not> c_closed C" "c_store C"
    using OpenTorrent_result [of io nfo hash w] update_fresh [OF new] by (auto simp: NewCache_def)
  have res: "resident x ?w = resident x w" if "x < ?n" for x
    using that by (simp add: w resident_def)
  have "heap_inv ?w"
    using inv C by (auto simp: w world_inv_def heap_inv_def less_Suc_eq)
  moreover have "registry_inv ?w"
    using inv new C by (auto simp: w world_inv_def registry_inv_def less_Suc_eq)
  moreover have "ledger_inv ?w"
  proof -
    have "store_share C = 0" using C by (simp add: store_share_def)
    then have "(\<Sum>x<Suc ?n. store_share (((w_cache w)(?n := C)) x)) = (\<Sum>x<?n. store_share (w_cache w x))"
      by simp
    moreover have "resident ?n ?w = 0" using C by (simp add: w resident_def)
    ultimately show ?thesis
      using inv C res by (auto simp: w world_inv_def ledger_inv_def less_Suc_eq)
  qed
  ultimately show ?thesis by (simp add: world_inv_def)
qed

lemma world_inv_delete:
  assumes "world_inv w"
  shows "world_inv (DeleteCache hash w)"
proof (cases "map_of (s_caches w) hash")
  case None
  with assms show ?thesis by (simp add: DeleteCache_def)
next
  case (Some c)
  let ?w = "Cache_Close c w"
  have reg: "registry_inv w" using assms by (simp add: world_inv_def)
  then have c: "c < w_nextCache w" using Some by (force simp: registry_inv_def dest: map_of_SomeD)
  have d: "distinct (map snd (c_pieces (w_cache w c)))"
    using assms c by (simp add: world_inv_def heap_inv_def)
  note eff = Cache_Close_effect [OF d]
  have inv: "world_inv ?w" by (rule world_inv_close [OF assms c])
  note del = snd_delete_distinct [of "s_caches w" hash c]
  have sc: "distinct (map fst (s_caches w))" "distinct (map snd (s_caches w))"
    using reg by (simp_all add: registry_inv_def)
  have "registry_inv (?w\<lparr>s_caches := AList.delete hash (s_caches ?w)\<rparr>)"
    using reg del [OF sc Some] sc by (auto simp: registry_inv_def eff)
  moreover have "heap_inv (?w\<lparr>s_caches := AList.delete hash (s_caches ?w)\<rparr>)"
    "ledger_inv (?w\<lparr>s_caches := AList.delete hash (s_caches ?w)\<rparr>)"
    using inv by (simp_all add: world_inv_def heap_inv_def ledger_inv_def resident_def)
  ultimately show ?thesis using Some by (simp add: DeleteCache_def Let_def world_inv_def)
qed

section \<open>Eviction, reload and the piece handles\<close>

lemma world_inv_evictPiece:
  assumes "world_inv w" "c < w_nextCache w"
  shows "world_inv (evictPiece c idx m w)"
  using assms
  by (auto simp: evictPiece_def Let_def frame_simps accounted_release intro: world_inv_drop)

lemma evictPiece_nextCache [simp]: "w_nextCache (evictPiece c idx m w) = w_nextCache w"
  by (simp add: evictPiece_def Let_def notifyEvicted_def split: option.split)

lemma candidate_registered:
  "cd \<in> set (globalCandidates w) \<Longrightarrow> cd_c cd \<in> snd ` set (s_caches w)"
  by (force simp: globalCandidates_def)

lemma world_inv_evictGlobal:
  assumes "world_inv w"
  shows "world_inv (evictGlobalIfNeeded w)"
proof -
  have "cd_c cd < w_nextCache w" if "cd \<in> set (globalCandidates w)" for cd
    using candidate_registered [OF that] assms by (auto simp: world_inv_def registry_inv_def)
  then have "world_inv (range_while more evictCandidate (globalCandidates w) w) \<and>
      w_nextCache (range_while more evictCandidate (globalCandidates w) w) = w_nextCache w" for more
    using assms
    by (intro range_while_invariant [where P = "\<lambda>v. world_inv v \<and> w_nextCache v = w_nextCache w"])
      (auto simp: evictCandidate_def intro: world_inv_evictPiece)
  with assms show ?thesis by (simp add: evictGlobalIfNeeded_def Let_def)
qed

lemma evictLocal_cache:
  "w_cache (evictLocal c cand w) = (w_cache w)(c := (w_cache w c)
     \<lparr>c_filled := c_filled (w_cache w c) - mp_accounted (w_mp w (snd cand)),
      c_pieces := AList.delete (fst cand) (c_pieces (w_cache w c))\<rparr>)"
  "w_nextCache (evictLocal c cand w) = w_nextCache w"
  by (simp_all add: evictLocal_def Let_def notifyEvicted_def split: option.split)

lemma world_inv_evictLocal_list:
  assumes "world_inv w" "c < w_nextCache w" "distinct (map fst ys)"
    and "\<And>cand. cand \<in> set ys \<Longrightarrow> map_of (c_pieces (w_cache w c)) (fst cand) = Some (snd cand)"
  shows "world_inv (fold (evictLocal c) ys w)"
  using assms
proof (induction ys arbitrary: w)
  case Nil
  then show ?case by simp
next
  case (Cons cand ys)
  let ?w = "evictLocal c cand w"
  have "world_inv ?w"
    using Cons.prems by (simp add: evictLocal_def Let_def frame_simps accounted_release world_inv_drop)
  moreover have "map_of (c_pieces (w_cache ?w c)) (fst x) = Some (snd x)" if "x \<in> set ys" for x
  proof -
    have "fst x \<noteq> fst cand" using that Cons.prems(3) by (auto simp: image_iff)
    then show ?thesis
      using Cons.prems(4) [of x] that by (simp add: evictLocal_cache AList.delete_conv')
  qed
  ultimately show ?case using Cons.IH [of ?w] Cons.prems(2,3) by (simp add: evictLocal_cache)
qed

lemma world_inv_EvictIfNeeded:
  assumes "world_inv w" "c < w_nextCache w"
  shows "world_inv (EvictIfNeeded c w)"
proof -
  let ?xs = "sort_key (\<lambda>cand. mp_accessed (w_mp w (snd cand))) (filter (evictable c w) (c_pieces (w_cache w c)))"
  have d: "distinct (map fst (c_pieces (w_cache w c)))"
    using assms by (simp add: world_inv_def heap_inv_def)
  obtain ys zs where xs: "?xs = ys @ zs"
    and r: "range_while (\<lambda>w. c_capacity (w_cache w c) < c_filled (w_cache w c)) (evictLocal c) ?xs w
      = fold (evictLocal c) ys w"
    using range_while_prefix [of ?xs "\<lambda>w. c_capacity (w_cache w c) < c_filled (w_cache w c)" "evictLocal c" w]
    by (elim exE conjE) (rule that)
  have "distinct (map fst ?xs)"
    by (rule distinct_map_sort_key) (rule distinct_map_filter [OF d])
  then have "distinct (map fst ys)" unfolding xs by simp
  moreover have "map_of (c_pieces (w_cache w c)) (fst cand) = Some (snd cand)" if "cand \<in> set ys" for cand
  proof -
    have "cand \<in> set ?xs" using that unfolding xs by simp
    then show ?thesis using d by simp
  qed
  ultimately have "world_inv (fold (evictLocal c) ys w)"
    by (rule world_inv_evictLocal_list [OF assms])
  with assms(1) r show ?thesis by (simp add: EvictIfNeeded_def cleanPieces_def Let_def)
qed

lemma world_inv_evictAfterComplete:
  "world_inv w \<Longrightarrow> c < w_nextCache w \<Longrightarrow> world_inv (evictAfterComplete c w)"
  by (simp add: evictAfterComplete_def world_inv_evictGlobal world_inv_EvictIfNeeded)

lemma UpdateFilled_frame [simp]:
  "w_nextCache (UpdateFilled c n w) = w_nextCache w" "c_closed (w_cache (UpdateFilled c n w) x) = c_closed (w_cache w x)"
  by (simp_all add: UpdateFilled_def)

lemma notifyEvicted_frame [simp]:
  "w_nextCache (notifyEvicted c i w) = w_nextCache w" "w_cache (notifyEvicted c i w) = w_cache w"
  "w_mp (notifyEvicted c i w) = w_mp w" "s_caches (notifyEvicted c i w) = s_caches w"
  "w_reader (notifyEvicted c i w) = w_reader w" "s_globalFilled (notifyEvicted c i w) = s_globalFilled w"
  "s_globalCapacity (notifyEvicted c i w) = s_globalCapacity w" "w_fs (notifyEvicted c i w) = w_fs w"
  "w_nextMp (notifyEvicted c i w) = w_nextMp w"
  by (simp_all add: notifyEvicted_def split: option.split)

text \<open>
  A piece that an operation just fetched for cache \<open>c\<close>: either it is the cache's piece \<open>idx\<close>, or
  the cache is closed and the piece belongs to nobody.
\<close>

definition fetched :: "ref \<Rightarrow> int \<Rightarrow> ref \<Rightarrow> world \<Rightarrow> bool" where
  "fetched c idx m w \<longleftrightarrow>
     (if c_closed (w_cache w c) then \<forall>x<w_nextCache w. m \<notin> snd ` set (c_pieces (w_cache w x))
      else map_of (c_pieces (w_cache w c)) idx = Some m)"

lemma getOrCreate_fetched:
  assumes "world_inv w" "c < w_nextCache w" "GetOrCreateMemPiece now c idx sz w = (w1, m)"
  shows "fetched c idx m w1"
proof -
  have "distinct (map fst (c_pieces (w_cache w c)))" using assms by (simp add: world_inv_def heap_inv_def)
  with assms show ?thesis
    using getOrCreate_frame [OF assms(3)] getOrCreate_owned [OF _ assms(3)]
      getOrCreate_detached [OF assms(1) _ assms(3)]
    by (auto simp: fetched_def)
qed

text \<open>Bytes put into a fetched piece, followed by the matching \<open>UpdateFilled\<close>.\<close>

lemma world_inv_put:
  assumes "world_inv w" "c < w_nextCache w" "fetched c idx m w"
    and "mp_accounted p = mp_accounted (w_mp w m) + n" "0 \<le> n"
  shows "world_inv (UpdateFilled c n (upd_mp m p w))"
proof (cases "c_closed (w_cache w c)")
  case True
  then have "UpdateFilled c n (upd_mp m p w) = upd_mp m p w" by (simp add: UpdateFilled_def)
  moreover have "0 \<le> mp_accounted p" using assms by (simp add: world_inv_def ledger_inv_def)
  ultimately show ?thesis
    using world_inv_detached [OF assms(1), of p m] assms(3) True by (simp add: fetched_def)
next
  case False
  with assms show ?thesis by (intro world_inv_install) (auto simp: fetched_def)
qed

lemma world_inv_hydrate:
  assumes "world_inv w" "c < w_nextCache w" "fetched c idx m w"
  shows "world_inv (hydrateIfNeeded io now c idx m sz w)"
proof (cases "c_disk (w_cache w c)")
  case None
  with assms(1) show ?thesis by (simp add: hydrateIfNeeded_def)
next
  case (Some d)
  obtain buf err where rd: "ReadPiece io idx (nat sz) d (w_fs w) = (buf, err)" by fastforce
  obtain p n where ld: "LoadComplete now buf (w_mp w m) = (p, n)" by fastforce
  have acc: "mp_accounted p = mp_accounted (w_mp w m) + n" "0 \<le> n"
    using accounted_load [of now buf "w_mp w m"] ld by (auto simp: LoadComplete_def split: if_splits)
  have "world_inv (UpdateFilled c n (upd_mp m p w))" by (rule world_inv_put [OF assms acc])
  moreover have "world_inv (upd_mp m p w)" if "\<not> 0 < n"
    using that acc assms(1) by (intro world_inv_touch) auto
  ultimately show ?thesis
    using assms Some rd ld
    by (simp add: hydrateIfNeeded_def Let_def frame_simps world_inv_evictAfterComplete)
qed

lemma world_inv_PieceReadAt:
  assumes "world_inv w" "p_cache p < w_nextCache w"
  shows "world_inv (fst (Piece_ReadAt io now p n off w))"
proof -
  obtain w1 m where g: "GetOrCreateMemPiece now (p_cache p) (p_index p) (p_size p) w = (w1, m)" by fastforce
  have "world_inv w1" using world_inv_getOrCreate [OF assms] g by (metis fst_conv)
  moreover have "p_cache p < w_nextCache w1" using assms(2) getOrCreate_frame(1) [OF g] by simp
  ultimately have "world_inv (hydrateIfNeeded io now (p_cache p) (p_index p) m (p_size p) w1)"
    by (rule world_inv_hydrate) (rule getOrCreate_fetched [OF assms g])
  then show ?thesis
    by (auto simp: Piece_ReadAt_def g Let_def split_beta intro!: world_inv_touch accounted_read)
qed

lemma MemPiece_WriteAt_count: "0 \<le> fst (snd (MemPiece_WriteAt now b off m))"
  by (simp add: MemPiece_WriteAt_def Let_def)

lemma world_inv_PieceWriteAt:
  assumes "world_inv w" "p_cache p < w_nextCache w"
    and "Piece_WriteAt now p buf off w = (w', n, err)" "err = None \<or> n = 0"
  shows "world_inv w'"
proof -
  obtain w1 m where g: "GetOrCreateMemPiece now (p_cache p) (p_index p) (p_size p) w = (w1, m)" by fastforce
  obtain mp n' e where wr: "MemPiece_WriteAt now buf off (w_mp w1 m) = (mp, n', e)" by (rule prod_cases3)
  have res: "w' = (if e = None \<and> 0 < n' then UpdateFilled (p_cache p) n' (upd_mp m mp w1) else upd_mp m mp w1)"
    "n = n'" "err = e"
    using assms(3) by (auto simp: Piece_WriteAt_def g wr Let_def)
  have i1: "world_inv w1" using world_inv_getOrCreate [OF assms(1,2)] g by (metis fst_conv)
  have c1: "p_cache p < w_nextCache w1" using assms(2) getOrCreate_frame(1) [OF g] by simp
  have acc: "mp_accounted mp = mp_accounted (w_mp w1 m) + n'" "0 \<le> n'"
    using accounted_write [of now buf off "w_mp w1 m"] MemPiece_WriteAt_count [of now buf off "w_mp w1 m"] wr
    by simp_all
  show ?thesis
  proof (cases "e = None \<and> 0 < n'")
    case True
    with res world_inv_put [OF i1 c1 getOrCreate_fetched [OF assms(1,2) g] acc] show ?thesis by simp
  next
    case False
    with assms(4) res acc have "mp_accounted mp = mp_accounted (w_mp w1 m)" by auto
    then have "world_inv (upd_mp m mp w1)" by (rule world_inv_touch [OF i1])
    with False res show ?thesis by auto
  qed
qed

lemma persist_frame:
  "world_inv (persistIfDisk io c idx m w) = world_inv w"
  "w_nextCache (persistIfDisk io c idx m w) = w_nextCache w"
  by (auto simp: persistIfDisk_def frame_simps split: option.split prod.split)

lemma clearDisk_frame:
  "world_inv (clearDisk io c idx w) = world_inv w" "w_nextCache (clearDisk io c idx w) = w_nextCache w"
  by (auto simp: clearDisk_def frame_simps split: option.split prod.split)

lemma world_inv_PieceMarkComplete:
  assumes "world_inv w" "p_cache p < w_nextCache w"
  shows "world_inv (Piece_MarkComplete io now p w)"
proof -
  obtain w1 m where g: "GetOrCreateMemPiece now (p_cache p) (p_index p) (p_size p) w = (w1, m)" by fastforce
  have "world_inv w1" using world_inv_getOrCreate [OF assms] g by (metis fst_conv)
  then have "world_inv (upd_mp m (MemPiece_MarkComplete now (w_mp w1 m)) w1)"
    by (rule world_inv_touch) (rule accounted_complete)
  moreover have "p_cache p < w_nextCache w1" using assms(2) getOrCreate_frame(1) [OF g] by simp
  ultimately show ?thesis
    by (simp add: Piece_MarkComplete_def g Let_def world_inv_evictAfterComplete persist_frame)
qed

lemma world_inv_MarkNotComplete:
  assumes "world_inv w" "c < w_nextCache w"
  shows "world_inv (MarkNotComplete c idx w)"
proof (cases "\<not> c_closed (w_cache w c) \<and> map_of (c_pieces (w_cache w c)) idx \<noteq> None")
  case True
  then obtain m where m: "map_of (c_pieces (w_cache w c)) idx = Some m" by auto
  have d: "world_inv (addGlobalIfStore c (- mp_accounted (w_mp w m)) (dropPiece c idx m w))"
    by (rule world_inv_drop [OF assms m refl])
  moreover have "addGlobalIfStore c 0 (dropPiece c idx m w) = dropPiece c idx m w"
    by (simp add: addGlobalIfStore_def addGlobalFilled_def)
  ultimately show ?thesis
    using True m by (auto simp: MarkNotComplete_def Let_def accounted_release)
qed (use assms(1) in \<open>auto simp: MarkNotComplete_def\<close>)

lemma world_inv_attach: "world_inv w \<Longrightarrow> world_inv (attachDisk io c h w)"
  by (auto simp: attachDisk_def Let_def frame_simps split: prod.split sum.split)

lemma world_inv_SetMode: "world_inv w \<Longrightarrow> world_inv (SetMode io h b w)"
  by (auto simp: SetMode_def Let_def frame_simps world_inv_attach split: option.split)

lemma world_inv_StorageClose:
  assumes "world_inv w"
  shows "world_inv (Storage_Close w)"
proof -
  have closed: "world_inv (fold Cache_Close cs w) \<and> s_caches (fold Cache_Close cs w) = s_caches w \<and>
      w_nextCache (fold Cache_Close cs w) = w_nextCache w \<and>
      (\<forall>c. c_closed (w_cache w c) \<or> c \<in> set cs \<longrightarrow> c_closed (w_cache (fold Cache_Close cs w) c))"
    if "world_inv w" "\<And>c. c \<in> set cs \<Longrightarrow> c < w_nextCache w" for cs w
    using that
  proof (induction cs arbitrary: w)
    case (Cons c cs)
    have d: "distinct (map snd (c_pieces (w_cache w c)))"
      using Cons.prems by (simp add: world_inv_def heap_inv_def)
    note eff = Cache_Close_effect [OF d]
    have "world_inv (Cache_Close c w)" using Cons.prems by (simp add: world_inv_close)
    from Cons.IH [OF this] Cons.prems(2) show ?case by (auto simp: eff)
  qed simp
  let ?w = "fold Cache_Close (map snd (s_caches w)) w"
  have reg: "\<And>c. c \<in> set (map snd (s_caches w)) \<Longrightarrow> c < w_nextCache w"
    using assms by (auto simp: world_inv_def registry_inv_def)
  have c: "world_inv ?w" "w_nextCache ?w = w_nextCache w"
    "\<And>c. c_closed (w_cache w c) \<or> c \<in> set (map snd (s_caches w)) \<Longrightarrow> c_closed (w_cache ?w c)"
    using closed [OF assms, of "map snd (s_caches w)"] reg by blast+
  have "c_closed (w_cache ?w c)" if "c < w_nextCache w" for c
    using assms that by (intro c(3)) (auto simp: world_inv_def registry_inv_def)
  then have "registry_inv (?w\<lparr>s_caches := []\<rparr>)"
    using c(2) by (simp add: registry_inv_def)
  moreover have "heap_inv (?w\<lparr>s_caches := []\<rparr>)" "ledger_inv (?w\<lparr>s_caches := []\<rparr>)"
    using c(1) by (simp_all add: world_inv_def heap_inv_def ledger_inv_def resident_def)
  ultimately show ?thesis by (simp add: Storage_Close_def world_inv_def)
qed

section \<open>Reachable states\<close>

text \<open>
  Every sequence of operations of the package. The torrent client adds a torrent at most once before
  dropping it, calls piece handles of caches it was given, and does not write past the end of a piece
  (a write cut short stores \<open>n > 0\<close> bytes with an error, see the finding below).
\<close>

inductive storage_reach :: "world \<Rightarrow> bool" where
  start: "storage_reach (NewStorage capacity dir fs)"
| open_torrent: "storage_reach w \<Longrightarrow> hash \<notin> fst ` set (s_caches w) \<Longrightarrow>
     storage_reach (fst (OpenTorrent io nfo hash w))"
| close_torrent: "storage_reach w \<Longrightarrow> c < w_nextCache w \<Longrightarrow> storage_reach (Cache_Close c w)"
| delete_cache: "storage_reach w \<Longrightarrow> storage_reach (DeleteCache hash w)"
| close_storage: "storage_reach w \<Longrightarrow> storage_reach (Storage_Close w)"
| set_mode: "storage_reach w \<Longrightarrow> storage_reach (SetMode io hash b w)"
| set_capacity: "storage_reach w \<Longrightarrow> storage_reach (SetGlobalCapacity n w)"
| get_piece: "storage_reach w \<Longrightarrow> c < w_nextCache w \<Longrightarrow>
     storage_reach (fst (GetOrCreateMemPiece now c idx sz w))"
| piece_read: "storage_reach w \<Longrightarrow> p_cache p < w_nextCache w \<Longrightarrow>
     storage_reach (fst (Piece_ReadAt io now p n off w))"
| piece_write: "storage_reach w \<Longrightarrow> p_cache p < w_nextCache w \<Longrightarrow>
     Piece_WriteAt now p buf off w = (w', n, err) \<Longrightarrow> err = None \<or> n = 0 \<Longrightarrow> storage_reach w'"
| piece_complete: "storage_reach w \<Longrightarrow> p_cache p < w_nextCache w \<Longrightarrow>
     storage_reach (Piece_MarkComplete io now p w)"
| piece_not_complete: "storage_reach w \<Longrightarrow> p_cache p < w_nextCache w \<Longrightarrow>
     storage_reach (Piece_MarkNotComplete io p w)"
| evict_one: "storage_reach w \<Longrightarrow> c < w_nextCache w \<Longrightarrow> storage_reach (evictPiece c idx m w)"
| evict_local: "storage_reach w \<Longrightarrow> c < w_nextCache w \<Longrightarrow> storage_reach (EvictIfNeeded c w)"
| register: "storage_reach w \<Longrightarrow> storage_reach (RegisterReader c r w)"
| unregister: "storage_reach w \<Longrightarrow> storage_reach (UnregisterReader c r w)"
| reader_moves: "storage_reach w \<Longrightarrow> storage_reach (upd_reader r g w)"
| priorities: "storage_reach w \<Longrightarrow> storage_reach (UpdatePriorities c a b w)"
| remove_disk: "storage_reach w \<Longrightarrow> storage_reach (RemoveDisk c w)"

lemma world_inv_start: "world_inv (NewStorage capacity dir fs)"
  by (simp add: NewStorage_def world_inv_def heap_inv_def registry_inv_def ledger_inv_def no_mp_def
      accounted_new)

lemma storage_reach_inv: "storage_reach w \<Longrightarrow> world_inv w"
proof (induction rule: storage_reach.induct)
  case (set_capacity w n)
  then show ?case by (simp add: SetGlobalCapacity_def world_inv_evictGlobal frame_simps)
next
  case (piece_write w p now buf off w' n err)
  then show ?case by (metis world_inv_PieceWriteAt)
next
  case (piece_not_complete w p io)
  then show ?case
    by (simp add: Piece_MarkNotComplete_def world_inv_MarkNotComplete clearDisk_frame)
next
  case (priorities w c a b)
  then show ?case
    by (simp add: UpdatePriorities_def Let_def frame_simps split: option.split)
next
  case (remove_disk w c)
  then show ?case by (auto simp: RemoveDisk_def frame_simps split: option.split prod.split)
next
  case (register w c r)
  then show ?case by (simp add: RegisterReader_def frame_simps)
next
  case (unregister w c r)
  then show ?case by (simp add: UnregisterReader_def frame_simps)
qed (simp_all add: world_inv_start world_inv_open world_inv_close world_inv_delete
      world_inv_StorageClose world_inv_SetMode world_inv_getOrCreate world_inv_PieceReadAt
      world_inv_PieceMarkComplete world_inv_evictPiece world_inv_EvictIfNeeded frame_simps)

lemma global_is_resident:
  assumes "world_inv w"
  shows "s_globalFilled w = (\<Sum>c \<in> snd ` set (s_caches w). resident c w)"
proof -
  have reg: "snd ` set (s_caches w) \<subseteq> {..<w_nextCache w}"
    and live: "\<And>c. c < w_nextCache w \<Longrightarrow> c \<notin> snd ` set (s_caches w) \<Longrightarrow> c_closed (w_cache w c)"
    and st: "\<And>c. c \<in> snd ` set (s_caches w) \<Longrightarrow> c_store (w_cache w c)"
    using assms by (auto simp: world_inv_def registry_inv_def)
  have fill: "c_filled (w_cache w c) = resident c w" if "c < w_nextCache w" for c
    using assms that by (simp add: world_inv_def ledger_inv_def)
  have "store_share (w_cache w c) = 0" if "c < w_nextCache w" "c \<notin> snd ` set (s_caches w)" for c
  proof -
    have "c_pieces (w_cache w c) = []"
      using assms that live by (auto simp: world_inv_def heap_inv_def)
    then show ?thesis using fill [OF that(1)] by (simp add: store_share_def resident_def)
  qed
  then have "(\<Sum>c<w_nextCache w. store_share (w_cache w c)) =
      (\<Sum>c \<in> snd ` set (s_caches w). store_share (w_cache w c))"
    using reg by (intro sum.mono_neutral_right) auto
  also have "\<dots> = (\<Sum>c \<in> snd ` set (s_caches w). resident c w)"
    using st fill reg by (intro sum.cong) (auto simp: store_share_def)
  finally show ?thesis using assms by (simp add: world_inv_def ledger_inv_def)
qed

text \<open>What stays resident when a cache is closed right after a write into one of its pieces.\<close>

lemma resident_after_close:
  assumes h: "heap_inv w" and c: "c < w_nextCache w" and x: "x < w_nextCache w"
    and own: "m \<in> snd ` set (c_pieces (w_cache w c))"
  shows "resident x (Cache_Close c (upd_mp m p w)) = (if x = c then 0 else resident x w)"
proof -
  have "distinct (map snd (c_pieces (w_cache (upd_mp m p w) c)))"
    using h c by (simp add: heap_inv_def)
  note eff = Cache_Close_effect [OF this]
  show ?thesis
  proof (cases "x = c")
    case True
    then show ?thesis by (simp add: resident_def eff)
  next
    case False
    have out: "k \<notin> snd ` set (c_pieces (w_cache w c))" "k \<noteq> m"
      if "(i, k) \<in> set (c_pieces (w_cache w x))" for i k
      using owner_unique [OF h x c image_eqI [OF _ that]] False own by auto
    have "sum_al (\<lambda>k. mp_accounted (w_mp (Cache_Close c (upd_mp m p w)) k)) (c_pieces (w_cache w x))
        = resident x w"
      unfolding resident_def eff(1) upd_mp_sel
      by (rule sum_al_cong) (simp only: out if_False fun_upd_other not_False_eq_True)
    with False show ?thesis by (simp add: resident_def eff)
  qed
qed

section \<open>Properties\<close>


definition demo_open :: world where
  "demo_open = fst (OpenTorrent no_faults \<lparr>i_piecesLen = 40, i_pieceLength = 4, i_totalLength = 6\<rparr> ''h''
     (NewStorage 0 [] Map.empty))"

lemmas demo_simps =
  demo_open_def OpenTorrent_def NewStorage_def NewCache_def Piece_WriteAt_def GetOrCreateMemPiece_def
  alloc_mp_def NewMemPiece_def numBlocks_def MemPiece_WriteAt_def mp_buf_def blockSize_def wake_def
  markBlocks.simps UpdateFilled_def addGlobalIfStore_def addGlobalFilled_def Cache_Piece_def NewPiece_def
  Cache_Piece_size_def copy_at_def upd_mp_def upd_cache_def Let_def clampCapacity_def
  minGlobalCapacity_def perStreamWindowBytes_def playbackReadaheadBytes_def

lemma demo_reach: "storage_reach demo_open"
  unfolding demo_open_def by (rule storage_reach.open_torrent [OF storage_reach.start]) (simp add: NewStorage_def)

lemma demo_write:
  "\<exists>w. Piece_WriteAt 1 (Cache_Piece 0 1 None demo_open) [5, 6] 0 demo_open = (w, 2, None) \<and>
     s_caches w = [(''h'', 0)] \<and> c_pieces (w_cache w 0) = [(1, 0)] \<and> mp_accounted (w_mp w 0) = 2 \<and>
     c_filled (w_cache w 0) = 2 \<and> s_globalFilled w = 2"
  by (simp add: demo_simps)


text \<open>
  A write that is cut short at the end of the piece stores its first \<open>sz\<close> bytes and returns an
  error, and \<open>Piece.WriteAt\<close> then does not add them to the counters although the piece recorded them
  as accounted. Dropping the piece afterwards subtracts them all the same: both counters end up \<open>sz\<close>
  too low.
\<close>

lemma short_write_drifts:
  assumes "\<not> c_closed (w_cache w c)" "c_store (w_cache w c)"
    and "idx \<notin> fst ` set (c_pieces (w_cache w c))"
    and "0 < sz" "sz < int (length buf)"
    and "Piece_WriteAt now \<lparr>p_index = idx, p_size = sz, p_cache = c\<rparr> buf 0 w = (w1, n, err)"
  shows "n = sz \<and> err = Some ErrShortWrite \<and>
    c_filled (w_cache (MarkNotComplete c idx w1) c) = c_filled (w_cache w c) - sz \<and>
    s_globalFilled (MarkNotComplete c idx w1) = s_globalFilled w - sz"
proof -
  let ?m = "w_nextMp w"
  obtain g where g: "GetOrCreateMemPiece now c idx sz w = (g, ?m)"
    and gw: "w_mp g = (w_mp w)(?m := NewMemPiece now sz)" "w_cache g = (w_cache w)(c := (w_cache w c)
      \<lparr>c_pieces := c_pieces (w_cache w c) @ [(idx, ?m)]\<rparr>)" "s_globalFilled g = s_globalFilled w"
    using assms(1,3) by (simp add: GetOrCreateMemPiece_def alloc_mp_def upd_cache_def map_of_eq_None_iff [symmetric])
  obtain mp where wr: "MemPiece_WriteAt now buf 0 (NewMemPiece now sz) = (mp, sz, Some ErrShortWrite)"
    and acc: "mp_accounted mp = sz"
    using assms(4,5) by (simp add: MemPiece_WriteAt_def NewMemPiece_def mp_buf_def Let_def wake_def min_def)
  have w1: "w1 = upd_mp ?m mp g" "n = sz" "err = Some ErrShortWrite"
    using assms(6) by (simp_all add: Piece_WriteAt_def g gw wr Let_def)
  have "map_of (c_pieces (w_cache w1 c)) idx = Some ?m"
    using assms(3) by (simp add: w1 gw map_add_def map_of_eq_None_iff [symmetric])
  then show ?thesis
    using assms(1,2,4) w1 acc
    by (simp add: MarkNotComplete_def Let_def accounted_release gw)
qed

lemma short_write_drifts_witness:
  "\<exists>w1. Piece_WriteAt 1 \<lparr>p_index = 1, p_size = 2, p_cache = 0\<rparr> [7, 8, 9] 0 demo_open
      = (w1, 2, Some ErrShortWrite) \<and> s_globalFilled (MarkNotComplete 0 1 w1) = -2"
proof -
  obtain w1 n err where w: "Piece_WriteAt 1 \<lparr>p_index = 1, p_size = 2, p_cache = 0\<rparr> [7, 8, 9] 0 demo_open
      = (w1, n, err)" by (rule prod_cases3)
  have "n = 2 \<and> err = Some ErrShortWrite \<and>
      c_filled (w_cache (MarkNotComplete 0 1 w1) 0) = c_filled (w_cache demo_open 0) - 2 \<and>
      s_globalFilled (MarkNotComplete 0 1 w1) = s_globalFilled demo_open - 2"
    by (rule short_write_drifts [OF _ _ _ _ _ w])
      (simp_all add: demo_open_def OpenTorrent_def Let_def NewStorage_def NewCache_def)
  moreover have "s_globalFilled demo_open = 0"
    by (simp add: demo_open_def OpenTorrent_def Let_def NewStorage_def)
  ultimately show ?thesis using w by auto
qed

text \<open>
  An interleaving at lock granularity leaks accounting: if a writer already holds the piece when
  \<open>MarkNotComplete\<close> drops it, its bytes are added to the counters although the piece is no longer in
  the map and will never be released. The cache's counter stays \<open>n\<close> above what is resident.
\<close>

lemma stale_write_leaks:
  assumes "storage_reach w" "c < w_nextCache w" "\<not> c_closed (w_cache w c)"
    and "map_of (c_pieces (w_cache w c)) idx = Some m"
    and w1: "w1 = MarkNotComplete c idx w"
    and "MemPiece_WriteAt now buf off (w_mp w1 m) = (p, n, None)"
  shows "c_filled (w_cache (UpdateFilled c n (upd_mp m p w1)) c) =
    resident c (UpdateFilled c n (upd_mp m p w1)) + n"
proof -
  have inv: "world_inv w" by (rule storage_reach_inv [OF assms(1)])
  have d: "distinct (map fst (c_pieces (w_cache w c)))" "distinct (map snd (c_pieces (w_cache w c)))"
    using inv assms(2) by (simp_all add: heap_inv_def world_inv_def)
  have i1: "world_inv w1" unfolding w1 by (rule world_inv_MarkNotComplete [OF inv assms(2)])
  have c1: "w_nextCache w1 = w_nextCache w" "\<not> c_closed (w_cache w1 c)"
    "c_pieces (w_cache w1 c) = AList.delete idx (c_pieces (w_cache w c))"
    unfolding w1 using assms(3,4) by (simp_all add: MarkNotComplete_def Let_def)
  have "m \<notin> snd ` set (c_pieces (w_cache w1 c))"
    unfolding c1 by (simp add: snd_delete_distinct(1) [OF d assms(4)])
  then have "resident c (upd_mp m p w1) = resident c w1"
    using resident_upd_mp [of w1 c m p] i1 c1(1) assms(2) by (simp add: world_inv_def)
  moreover have "c_filled (w_cache w1 c) = resident c w1"
    using i1 c1(1) assms(2) by (simp add: world_inv_def ledger_inv_def)
  ultimately show ?thesis
    using c1(2) by (simp add: UpdateFilled_def resident_def)
qed

lemma demo_written:
  assumes "Piece_WriteAt 1 (Cache_Piece 0 1 None demo_open) [5, 6] 0 demo_open = (w, 2, None)"
  shows "storage_reach w" "0 < w_nextCache w" "\<not> c_closed (w_cache w 0)"
    "map_of (c_pieces (w_cache w 0)) 1 = Some 0"
proof -
  show "storage_reach w"
    by (rule storage_reach.piece_write [OF demo_reach _ assms])
      (simp_all add: Cache_Piece_def NewPiece_def demo_open_def OpenTorrent_def Let_def NewStorage_def)
  show "0 < w_nextCache w" "\<not> c_closed (w_cache w 0)" "map_of (c_pieces (w_cache w 0)) 1 = Some 0"
    using assms by (auto simp: demo_simps)
qed

lemma write_after_release:
  assumes "0 \<le> mp_size m" "length buf \<le> nat (mp_size m)" "buf \<noteq> []"
  shows "\<exists>p. MemPiece_WriteAt now buf 0 (fst (ReleaseAndSize m)) = (p, int (length buf), None)"
  using assms
  by (subst MemPiece_WriteAt_fits) (auto simp: ReleaseAndSize_def wake_def mp_buf_def)

lemma stale_write_leaks_witness:
  "\<exists>w w1 p. Piece_WriteAt 1 (Cache_Piece 0 1 None demo_open) [5, 6] 0 demo_open = (w, 2, None) \<and>
     w1 = MarkNotComplete 0 1 w \<and> MemPiece_WriteAt 2 [5] 0 (w_mp w1 0) = (p, 1, None) \<and>
     c_filled (w_cache (UpdateFilled 0 1 (upd_mp 0 p w1)) 0) =
       resident 0 (UpdateFilled 0 1 (upd_mp 0 p w1)) + 1"
proof -
  obtain w where w: "Piece_WriteAt 1 (Cache_Piece 0 1 None demo_open) [5, 6] 0 demo_open = (w, 2, None)"
    using demo_write by blast
  note r = demo_written [OF w]
  have "mp_size (w_mp w 0) = 2" using w by (auto simp: demo_simps)
  then obtain p where p: "MemPiece_WriteAt 2 [5] 0 (fst (ReleaseAndSize (w_mp w 0))) = (p, 1, None)"
    using write_after_release [of "w_mp w 0" "[5]" 2] by auto
  have "w_mp (MarkNotComplete 0 1 w) 0 = fst (ReleaseAndSize (w_mp w 0))"
    using r(3,4) by (simp add: MarkNotComplete_def Let_def)
  with p have "MemPiece_WriteAt 2 [5] 0 (w_mp (MarkNotComplete 0 1 w) 0) = (p, 1, None)" by simp
  with stale_write_leaks [OF r refl this] w show ?thesis by blast
qed

text \<open>
  If the cache is closed between a write and its \<open>UpdateFilled\<close>, the bytes are subtracted from
  the global counter but never added: it ends \<open>n\<close> below what is resident.
\<close>

lemma close_race_undercounts:
  assumes "storage_reach w" "c < w_nextCache w" "\<not> c_closed (w_cache w c)"
    and "map_of (c_pieces (w_cache w c)) idx = Some m"
    and "MemPiece_WriteAt now buf off (w_mp w m) = (p, n, None)"
    and u: "u = UpdateFilled c n (Cache_Close c (upd_mp m p w))"
  shows "s_globalFilled u = (\<Sum>x \<in> snd ` set (s_caches u). resident x u) - n"
proof -
  have inv: "world_inv w" by (rule storage_reach_inv [OF assms(1)])
  have h: "heap_inv w" and reg: "registry_inv w" using inv by (simp_all add: world_inv_def)
  have own: "m \<in> snd ` set (c_pieces (w_cache w c))" using assms(4) by (force dest: map_of_SomeD)
  have acc: "mp_accounted p = mp_accounted (w_mp w m) + n"
    using accounted_write [of now buf off "w_mp w m"] assms(5) by simp
  have "distinct (map snd (c_pieces (w_cache (upd_mp m p w) c)))"
    using h assms(2) by (simp add: heap_inv_def)
  note eff = Cache_Close_effect [OF this]
  have u': "u = Cache_Close c (upd_mp m p w)" by (simp add: u UpdateFilled_def eff)
  have st: "c_store (w_cache w c)" "c \<in> snd ` set (s_caches w)" "snd ` set (s_caches w) \<subseteq> {..<w_nextCache w}"
    using reg assms(2,3) by (auto simp: registry_inv_def)
  have rv: "resident c (upd_mp m p w) = resident c w + n"
    using resident_upd_mp [OF h assms(2), of m p] own acc by simp
  have ru: "resident x u = (if x = c then 0 else resident x w)" if "x \<in> snd ` set (s_caches w)" for x
    unfolding u' using that st(3) by (intro resident_after_close [OF h assms(2) _ own]) auto
  have "(\<Sum>x \<in> snd ` set (s_caches w). resident x u) =
      (\<Sum>x \<in> snd ` set (s_caches w) - {c}. resident x w)"
    using st(2) ru by (subst sum.remove [of _ c]) (auto intro!: sum.cong)
  then have "(\<Sum>x \<in> snd ` set (s_caches w). resident x u) = s_globalFilled w - resident c w"
    unfolding global_is_resident [OF inv] using st(2) by (simp add: sum_diff1)
  then show ?thesis
    unfolding u' using rv st(1) by (simp add: eff)
qed

lemma close_race_undercounts_witness:
  "\<exists>w p. Piece_WriteAt 1 (Cache_Piece 0 1 None demo_open) [5, 6] 0 demo_open = (w, 2, None) \<and>
     MemPiece_WriteAt 2 [5] 0 (w_mp w 0) = (p, 1, None) \<and>
     (let u = UpdateFilled 0 1 (Cache_Close 0 (upd_mp 0 p w))
      in s_globalFilled u = (\<Sum>x \<in> snd ` set (s_caches u). resident x u) - 1)"
proof -
  obtain w where w: "Piece_WriteAt 1 (Cache_Piece 0 1 None demo_open) [5, 6] 0 demo_open = (w, 2, None)"
    using demo_write by blast
  note r = demo_written [OF w]
  have "mp_size (w_mp w 0) = 2" "mp_data (w_mp w 0) = Some [5, 6]" using w by (auto simp: demo_simps)
  then have "\<exists>p. MemPiece_WriteAt 2 [5] 0 (w_mp w 0) = (p, 1, None)"
    by (subst MemPiece_WriteAt_fits) (auto simp: mp_buf_def)
  then obtain p where p: "MemPiece_WriteAt 2 [5] 0 (w_mp w 0) = (p, 1, None)" ..
  from close_race_undercounts [OF r p refl] w p show ?thesis by (auto simp: Let_def)
qed

end
