(* ===== verification/Eviction.thy ===== *)
theory Eviction
  imports Accounting
begin

text \<open>
  What the eviction passes guarantee. The contract is stated once, as a locale over any pool of
  droppable items, and holds for both passes of the source: the cross-torrent one
  (\<open>Storage.evictGlobalIfNeeded\<close>) and the per-cache one (\<open>Cache.cleanPieces\<close>).
\<close>

section \<open>Interface: a pool of droppable items\<close>

locale evictor =
  fixes inv :: "'s \<Rightarrow> bool"
    and filled :: "'s \<Rightarrow> int"
    and live :: "'c \<Rightarrow> 's \<Rightarrow> bool"
    and weight :: "'c \<Rightarrow> 's \<Rightarrow> int"
    and evict :: "'c \<Rightarrow> 's \<Rightarrow> 's"
  assumes evict_inv: "inv s \<Longrightarrow> live x s \<Longrightarrow> inv (evict x s)"
    and evict_filled: "inv s \<Longrightarrow> live x s \<Longrightarrow> filled (evict x s) = filled s - weight x s"
    and evict_self: "inv s \<Longrightarrow> live x s \<Longrightarrow> \<not> live x (evict x s)"
    and evict_other: "inv s \<Longrightarrow> live x s \<Longrightarrow> y \<noteq> x \<Longrightarrow> live y (evict x s) = live y s"
    and evict_weight: "inv s \<Longrightarrow> live x s \<Longrightarrow> live y s \<Longrightarrow> y \<noteq> x \<Longrightarrow> weight y (evict x s) = weight y s"
begin

lemma evict_list:
  assumes "inv s" "distinct xs" "\<forall>x \<in> set xs. live x s"
  shows "inv (fold evict xs s) \<and> (\<forall>y. live y (fold evict xs s) \<longleftrightarrow> live y s \<and> y \<notin> set xs) \<and>
    filled (fold evict xs s) = filled s - (\<Sum>x\<leftarrow>xs. weight x s)"
  using assms
proof (induction xs arbitrary: s)
  case Nil
  then show ?case by simp
next
  case (Cons x xs)
  have x: "live x s" and out: "x \<notin> set xs" and d: "distinct xs" using Cons.prems by auto
  have "\<forall>y \<in> set xs. live y (evict x s)" using Cons.prems out by (metis evict_other list.set_intros(2) x)
  note IH = Cons.IH [OF evict_inv [OF Cons.prems(1) x] d this]
  have "(\<Sum>y\<leftarrow>xs. weight y (evict x s)) = (\<Sum>y\<leftarrow>xs. weight y s)"
    using Cons.prems out
    by (intro arg_cong [where f = sum_list] map_cong refl evict_weight [OF Cons.prems(1) x]) auto
  then have "filled (fold evict (x # xs) s) = filled s - (\<Sum>y\<leftarrow>x # xs. weight y s)"
    using IH evict_filled [OF Cons.prems(1) x] by simp
  moreover have "live y (fold evict (x # xs) s) \<longleftrightarrow> live y s \<and> y \<notin> set (x # xs)" for y
    using IH evict_self [OF Cons.prems(1) x] evict_other [OF Cons.prems(1) x] x
    by (cases "y = x") auto
  ultimately show ?case using IH by simp
qed

text \<open>
  The pass over all live items in a given order drops a prefix of them: everything after the prefix
  survives, it stops as soon as the total is within the cap, and it drops nothing unless the total
  was over the cap at that moment.
\<close>

lemma pass_spec:
  assumes "inv s" "distinct xs" "set xs = {x. live x s}"
  shows "\<exists>ys zs. xs = ys @ zs \<and> range_while (\<lambda>s. cap < filled s) evict xs s = fold evict ys s \<and>
    inv (fold evict ys s) \<and> (\<forall>x. live x (fold evict ys s) \<longleftrightarrow> x \<in> set zs) \<and>
    (filled (fold evict ys s) \<le> cap \<or> zs = []) \<and>
    (\<forall>us v vs. ys = us @ v # vs \<longrightarrow> cap < filled s - (\<Sum>x\<leftarrow>us. weight x s))"
proof -
  obtain ys zs where h: "xs = ys @ zs"
    "range_while (\<lambda>s. cap < filled s) evict xs s = fold evict ys s"
    "zs = [] \<or> \<not> cap < filled (fold evict ys s)"
    "\<forall>us v vs. ys = us @ v # vs \<longrightarrow> cap < filled (fold evict us s)"
    using range_while_prefix [of xs "\<lambda>s. cap < filled s" evict s] by (elim exE conjE) (rule that)
  have pre: "distinct us \<and> (\<forall>x \<in> set us. live x s)" if "ys = us @ vs" for us vs
    using assms(2,3) that unfolding h(1) by auto
  have "live x (fold evict ys s) \<longleftrightarrow> x \<in> set zs" for x
    using evict_list [OF assms(1)] pre [of ys "[]"] assms(2,3) unfolding h(1) by auto
  moreover have "cap < filled s - (\<Sum>x\<leftarrow>us. weight x s)" if "ys = us @ v # vs" for us v vs
    using h(4) that evict_list [OF assms(1), of us] pre [OF that] by fastforce
  ultimately show ?thesis
    using h evict_list [OF assms(1)] pre [of ys "[]"] by (intro exI [of _ ys] exI [of _ zs]) auto
qed

end

section \<open>One eviction\<close>

lemma readerWindow_cong:
  assumes "\<And>c. c_pieceLen (w_cache w' c) = c_pieceLen (w_cache w c)"
    "\<And>c. c_pieceCount (w_cache w' c) = c_pieceCount (w_cache w c)" "w_reader w' = w_reader w"
    "c_readers (w_cache w' c) = c_readers (w_cache w c)"
  shows "getReaderWindows c w' = getReaderWindows c w"
  unfolding getReaderWindows_def readerWindow_def GetActiveWindow_def Let_def assms ..

definition drop_effect :: "ref \<Rightarrow> int \<Rightarrow> ref \<Rightarrow> world \<Rightarrow> world \<Rightarrow> bool" where
  "drop_effect c idx m w w' \<longleftrightarrow>
     w_mp w' = (w_mp w)(m := fst (ReleaseAndSize (w_mp w m))) \<and>
     w_cache w' = (w_cache w)(c := (w_cache w c)
       \<lparr>c_filled := c_filled (w_cache w c) - mp_accounted (w_mp w m),
        c_pieces := AList.delete idx (c_pieces (w_cache w c))\<rparr>) \<and>
     w_reader w' = w_reader w \<and> s_caches w' = s_caches w \<and> w_nextCache w' = w_nextCache w \<and>
     s_globalCapacity w' = s_globalCapacity w \<and> w_fs w' = w_fs w \<and>
     s_globalFilled w' = s_globalFilled w -
       (if c_store (w_cache w c) then mp_accounted (w_mp w m) else 0)"

lemma evictLocal_effect: "drop_effect c (fst cand) (snd cand) w (evictLocal c cand w)"
  by (simp add: drop_effect_def evictLocal_def Let_def accounted_release)

lemma evictPiece_effect:
  assumes "\<not> c_closed (w_cache w c)" "map_of (c_pieces (w_cache w c)) idx = Some m" "evictable c w (idx, m)"
  shows "drop_effect c idx m w (evictPiece c idx m w)"
  using assms by (simp add: drop_effect_def evictPiece_def evictable_def Let_def accounted_release)

lemma drop_effect_windows:
  "drop_effect c idx m w w' \<Longrightarrow> getReaderWindows x w' = getReaderWindows x w"
  by (rule readerWindow_cong) (simp_all add: drop_effect_def)

text \<open>Which pieces are in the maps, and evictable, after one of them was dropped.\<close>

lemma drop_effect_maps:
  assumes "drop_effect c idx m w w'"
  shows "map_of (c_pieces (w_cache w' x)) i =
    (if x = c \<and> i = idx then None else map_of (c_pieces (w_cache w x)) i)"
  using assms by (simp add: drop_effect_def AList.delete_conv')

lemma other_ref:
  assumes "heap_inv w" "c < w_nextCache w" "x < w_nextCache w"
    and "map_of (c_pieces (w_cache w c)) idx = Some m" "map_of (c_pieces (w_cache w x)) i = Some m"
  shows "x = c \<and> i = idx"
proof
  have in_c: "(idx, m) \<in> set (c_pieces (w_cache w c))" and in_x: "(i, m) \<in> set (c_pieces (w_cache w x))"
    using assms(4,5) by (auto dest: map_of_SomeD)
  show x: "x = c"
    by (rule owner_unique [OF assms(1,3,2), of m]) (use in_c in_x in force)+
  have "inj_on snd (set (c_pieces (w_cache w c)))"
    using assms(1,2) by (simp add: heap_inv_def distinct_map)
  from inj_onD [OF this, of "(i, m)" "(idx, m)"] in_c in_x x show "i = idx" by simp
qed

lemma drop_effect_mp:
  assumes "heap_inv w" "c < w_nextCache w" "x < w_nextCache w" "drop_effect c idx m w w'"
    and "map_of (c_pieces (w_cache w c)) idx = Some m" "map_of (c_pieces (w_cache w x)) i = Some k"
    and "\<not> (x = c \<and> i = idx)"
  shows "w_mp w' k = w_mp w k"
proof -
  have "k \<noteq> m" using other_ref [OF assms(1-3,5)] assms(6,7) by blast
  moreover have "w_mp w' = (w_mp w)(m := fst (ReleaseAndSize (w_mp w m)))"
    using assms(4) by (simp add: drop_effect_def)
  ultimately show ?thesis by simp
qed

definition live_piece :: "ref \<Rightarrow> int \<times> ref \<Rightarrow> world \<Rightarrow> bool" where
  "live_piece c cand w \<longleftrightarrow>
     map_of (c_pieces (w_cache w c)) (fst cand) = Some (snd cand) \<and> evictable c w cand"

lemma live_piece_drop:
  assumes "heap_inv w" "c < w_nextCache w" "x < w_nextCache w" "drop_effect c (fst y) (snd y) w w'"
    and "live_piece c y w" "(x, z) \<noteq> (c, y)"
  shows "live_piece x z w' = live_piece x z w"
proof (cases "x = c \<and> fst z = fst y")
  case True
  then have "\<not> live_piece x z w'"
    using drop_effect_maps [OF assms(4), of x "fst z"] by (simp add: live_piece_def)
  moreover have "\<not> live_piece x z w"
    using True assms(5,6) by (auto simp: live_piece_def prod_eq_iff)
  ultimately show ?thesis by simp
next
  case False
  have m: "map_of (c_pieces (w_cache w c)) (fst y) = Some (snd y)" using assms(5) by (simp add: live_piece_def)
  have "w_mp w' (snd z) = w_mp w (snd z)" if "map_of (c_pieces (w_cache w x)) (fst z) = Some (snd z)"
    by (rule drop_effect_mp [OF assms(1-4) m that False])
  moreover have "map_of (c_pieces (w_cache w' x)) (fst z) = map_of (c_pieces (w_cache w x)) (fst z)"
    unfolding drop_effect_maps [OF assms(4)] using False by auto
  ultimately show ?thesis
    unfolding live_piece_def evictable_def drop_effect_windows [OF assms(4)] by auto
qed

section \<open>The per-cache pass\<close>

interpretation local_evictor: evictor
  "\<lambda>w. world_inv w \<and> c < w_nextCache w" "\<lambda>w. c_filled (w_cache w c)" "live_piece c"
  "\<lambda>cand w. mp_accounted (w_mp w (snd cand))" "evictLocal c"
  for c
proof
  fix w :: world and x y
  assume w: "world_inv w \<and> c < w_nextCache w" and x: "live_piece c x w"
  have m: "map_of (c_pieces (w_cache w c)) (fst x) = Some (snd x)" using x by (simp add: live_piece_def)
  have h: "heap_inv w" using w by (simp add: world_inv_def)
  note e = evictLocal_effect [of c x w]
  show "world_inv (evictLocal c x w) \<and> c < w_nextCache (evictLocal c x w)"
    using world_inv_evictLocal_list [of w c "[x]"] w m by (simp add: evictLocal_cache)
  show "c_filled (w_cache (evictLocal c x w) c) = c_filled (w_cache w c) - mp_accounted (w_mp w (snd x))"
    by (simp add: evictLocal_cache)
  show "\<not> live_piece c x (evictLocal c x w)"
    using drop_effect_maps [OF e, of c "fst x"] by (simp add: live_piece_def)
  show "live_piece c y (evictLocal c x w) = live_piece c y w" if "y \<noteq> x"
    by (rule live_piece_drop [OF h _ _ e x]) (use that w in auto)
  show "mp_accounted (w_mp (evictLocal c x w) (snd y)) = mp_accounted (w_mp w (snd y))"
    if "live_piece c y w" "y \<noteq> x"
  proof -
    have y: "map_of (c_pieces (w_cache w c)) (fst y) = Some (snd y)" using that(1) by (simp add: live_piece_def)
    have "\<not> (c = c \<and> fst y = fst x)" using that(2) m y by (auto simp: prod_eq_iff)
    with drop_effect_mp [OF h _ _ e m y] w show ?thesis by simp
  qed
qed

section \<open>The cross-torrent pass\<close>

definition live_cand :: "cand \<Rightarrow> world \<Rightarrow> bool" where
  "live_cand cd w \<longleftrightarrow>
     cd_c cd \<in> snd ` set (s_caches w) \<and> live_piece (cd_c cd) (cd_idx cd, cd_mp cd) w \<and>
     cd_accessed cd = mp_accessed (w_mp w (cd_mp cd))"

lemma live_cand_open: "world_inv w \<Longrightarrow> live_cand cd w \<Longrightarrow>
    cd_c cd < w_nextCache w \<and> \<not> c_closed (w_cache w (cd_c cd)) \<and> c_store (w_cache w (cd_c cd))"
  by (auto simp: live_cand_def live_piece_def world_inv_def registry_inv_def heap_inv_def)

lemma cand_eqI:
  "cd_c a = cd_c b \<Longrightarrow> cd_idx a = cd_idx b \<Longrightarrow> cd_mp a = cd_mp b \<Longrightarrow> cd_accessed a = cd_accessed b \<Longrightarrow> a = b"
  for a b :: cand
  by (cases a; cases b) simp

text \<open>Live candidates of the same piece are the same candidate.\<close>

lemma live_cand_eq:
  assumes "live_cand a w" "live_cand b w" "cd_c a = cd_c b" "cd_idx a = cd_idx b"
  shows "a = b"
  using assms by (intro cand_eqI) (auto simp: live_cand_def live_piece_def)

lemma evictCandidate_effect:
  assumes "world_inv w" "live_cand cd w"
  shows "drop_effect (cd_c cd) (cd_idx cd) (cd_mp cd) w (evictCandidate cd w)"
  using live_cand_open [OF assms] assms(2)
  by (auto simp: evictCandidate_def live_cand_def live_piece_def intro: evictPiece_effect)

lemma drop_effect_accessed:
  assumes "drop_effect c idx m w w'"
  shows "mp_accessed (w_mp w' k) = mp_accessed (w_mp w k)"
  using assms by (auto simp: drop_effect_def ReleaseAndSize_def wake_def)

interpretation global_evictor: evictor
  world_inv s_globalFilled live_cand "\<lambda>cd w. mp_accounted (w_mp w (cd_mp cd))" evictCandidate
proof
  fix w x y
  assume w: "world_inv w" and x: "live_cand x w"
  have h: "heap_inv w" using w by (simp add: world_inv_def)
  note o = live_cand_open [OF w x] and e = evictCandidate_effect [OF w x]
  have m: "map_of (c_pieces (w_cache w (cd_c x))) (cd_idx x) = Some (cd_mp x)"
    and lx: "live_piece (cd_c x) (cd_idx x, cd_mp x) w"
    using x by (simp_all add: live_cand_def live_piece_def)
  show "world_inv (evictCandidate x w)"
    unfolding evictCandidate_def using w o by (simp add: world_inv_evictPiece)
  show "s_globalFilled (evictCandidate x w) = s_globalFilled w - mp_accounted (w_mp w (cd_mp x))"
    using e o by (simp add: drop_effect_def)
  show "\<not> live_cand x (evictCandidate x w)"
    using drop_effect_maps [OF e, of "cd_c x" "cd_idx x"] by (simp add: live_cand_def live_piece_def)
  have reg: "cd_c z < w_nextCache w" if "cd_c z \<in> snd ` set (s_caches w)" for z
    using that w by (auto simp: world_inv_def registry_inv_def)
  have caches: "s_caches (evictCandidate x w) = s_caches w" using e by (simp add: drop_effect_def)
  show "live_cand y (evictCandidate x w) = live_cand y w" if ne: "y \<noteq> x"
  proof (cases "cd_c y = cd_c x \<and> cd_idx y = cd_idx x")
    case True
    then have "\<not> live_cand y w" using live_cand_eq [OF _ x] ne by blast
    moreover have "\<not> live_cand y (evictCandidate x w)"
      using True drop_effect_maps [OF e, of "cd_c y" "cd_idx y"] by (simp add: live_cand_def live_piece_def)
    ultimately show ?thesis by simp
  next
    case False
    have "live_piece (cd_c y) (cd_idx y, cd_mp y) (evictCandidate x w)
        = live_piece (cd_c y) (cd_idx y, cd_mp y) w" if "cd_c y \<in> snd ` set (s_caches w)"
      by (rule live_piece_drop [OF h _ reg [OF that] _ lx]) (use False o e in auto)
    then show ?thesis
      unfolding live_cand_def caches drop_effect_accessed [OF e] by auto
  qed
  show "mp_accounted (w_mp (evictCandidate x w) (cd_mp y)) = mp_accounted (w_mp w (cd_mp y))"
    if y: "live_cand y w" and "y \<noteq> x"
  proof -
    have my: "map_of (c_pieces (w_cache w (cd_c y))) (cd_idx y) = Some (cd_mp y)"
      using y by (simp add: live_cand_def live_piece_def)
    have "\<not> (cd_c y = cd_c x \<and> cd_idx y = cd_idx x)" using live_cand_eq [OF y x] that(2) by blast
    with drop_effect_mp [OF h _ _ e m my] o live_cand_open [OF w y] show ?thesis by simp
  qed
qed

lemma set_collect:
  "e \<in> set (collectEvictCandidates c w) \<longleftrightarrow> \<not> c_closed (w_cache w c) \<and>
     (e_index e, e_mp e) \<in> set (c_pieces (w_cache w c)) \<and> evictable c w (e_index e, e_mp e) \<and>
     e_accessed e = mp_accessed (w_mp w (e_mp e))"
  by (cases e) (auto simp: collectEvictCandidates_def image_iff Bex_def)

lemma in_globalCandidates:
  "cd \<in> set (globalCandidates w) \<longleftrightarrow> cd_c cd \<in> snd ` set (s_caches w) \<and>
     \<lparr>e_index = cd_idx cd, e_mp = cd_mp cd, e_accessed = cd_accessed cd\<rparr>
       \<in> set (collectEvictCandidates (cd_c cd) w)"
proof -
  define A where "A = snd ` set (s_caches w)"
  have "set (globalCandidates w) = (\<Union>c \<in> A.
      (\<lambda>e. \<lparr>cd_c = c, cd_idx = e_index e, cd_mp = e_mp e, cd_accessed = e_accessed e\<rparr>)
        ` set (collectEvictCandidates c w))"
    by (simp add: globalCandidates_def A_def)
  moreover have "cd = \<lparr>cd_c = c, cd_idx = e_index e, cd_mp = e_mp e, cd_accessed = e_accessed e\<rparr> \<longleftrightarrow>
      c = cd_c cd \<and> e = \<lparr>e_index = cd_idx cd, e_mp = cd_mp cd, e_accessed = cd_accessed cd\<rparr>" for c e
    by (cases cd; cases e) auto
  ultimately show ?thesis unfolding A_def [symmetric] by (simp only: UN_iff image_iff) blast
qed

lemma set_globalCandidates:
  assumes "world_inv w"
  shows "set (globalCandidates w) = {cd. live_cand cd w}"
proof -
  have dist: "distinct (map fst (c_pieces (w_cache w c)))" if "c \<in> snd ` set (s_caches w)" for c
    using assms that by (auto simp: world_inv_def registry_inv_def heap_inv_def)
  have "cd \<in> set (globalCandidates w) \<longleftrightarrow> cd_c cd \<in> snd ` set (s_caches w) \<and>
      \<not> c_closed (w_cache w (cd_c cd)) \<and> (cd_idx cd, cd_mp cd) \<in> set (c_pieces (w_cache w (cd_c cd))) \<and>
      evictable (cd_c cd) w (cd_idx cd, cd_mp cd) \<and> cd_accessed cd = mp_accessed (w_mp w (cd_mp cd))" for cd
    by (simp add: in_globalCandidates set_collect)
  moreover have "live_cand cd w \<longleftrightarrow> cd_c cd \<in> snd ` set (s_caches w) \<and>
      \<not> c_closed (w_cache w (cd_c cd)) \<and> (cd_idx cd, cd_mp cd) \<in> set (c_pieces (w_cache w (cd_c cd))) \<and>
      evictable (cd_c cd) w (cd_idx cd, cd_mp cd) \<and> cd_accessed cd = mp_accessed (w_mp w (cd_mp cd))" for cd
  proof (cases "cd_c cd \<in> snd ` set (s_caches w)")
    case True
    note iff = map_of_eq_Some_iff [OF dist [OF True]]
    show ?thesis
      using live_cand_open [OF assms, of cd] unfolding live_cand_def live_piece_def by (simp add: iff True) blast
  qed (simp add: live_cand_def)
  ultimately show ?thesis by auto
qed

lemma distinct_globalCandidates:
  assumes "world_inv w"
  shows "distinct (globalCandidates w)"
proof -
  let ?f = "\<lambda>c. map (\<lambda>e. \<lparr>cd_c = c, cd_idx = e_index e, cd_mp = e_mp e, cd_accessed = e_accessed e\<rparr>)
    (collectEvictCandidates c w)"
  have "distinct (concat (map ?f (map snd (s_caches w))))"
  proof (rule distinct_concat_map)
    show "distinct (map snd (s_caches w))" using assms by (simp add: world_inv_def registry_inv_def)
    show "distinct (?f c)" if "c \<in> set (map snd (s_caches w))" for c
    proof -
      have "distinct (c_pieces (w_cache w c))"
        using assms that by (auto simp: world_inv_def registry_inv_def heap_inv_def distinct_map)
      then have "distinct (collectEvictCandidates c w)"
        by (auto simp: collectEvictCandidates_def distinct_map inj_on_def)
      then show ?thesis by (auto simp: distinct_map inj_on_def)
    qed
    show "set (?f c) \<inter> set (?f d) = {}" if "c \<noteq> d" for c d
      using that by auto
  qed
  then show ?thesis unfolding globalCandidates_def by (subst distinct_sort)
qed

lemma globalCandidates_sorted: "sorted (map cd_accessed (globalCandidates w))"
  unfolding globalCandidates_def by (rule sorted_sort_key)

text \<open>The outcome of the cross-torrent pass, from which the properties below are read off.\<close>

lemma evictGlobal_outcome:
  assumes "world_inv w" "0 < s_globalCapacity w"
  shows "\<exists>ys zs. globalCandidates w = ys @ zs \<and> evictGlobalIfNeeded w = fold evictCandidate ys w \<and>
    world_inv (evictGlobalIfNeeded w) \<and>
    (\<forall>cd. live_cand cd (evictGlobalIfNeeded w) \<longleftrightarrow> cd \<in> set zs) \<and>
    (s_globalFilled (evictGlobalIfNeeded w) \<le> s_globalCapacity w \<or> zs = []) \<and>
    (\<forall>us v vs. ys = us @ v # vs \<longrightarrow>
       s_globalCapacity w < s_globalFilled w - (\<Sum>cd\<leftarrow>us. mp_accounted (w_mp w (cd_mp cd))))"
proof (cases "s_globalFilled w \<le> s_globalCapacity w")
  case True
  then have "evictGlobalIfNeeded w = w" by (simp add: evictGlobalIfNeeded_def Let_def)
  with True assms set_globalCandidates [OF assms(1)] show ?thesis
    by (intro exI [of _ "[]"] exI [of _ "globalCandidates w"]) auto
next
  case False
  then have "evictGlobalIfNeeded w =
      range_while (\<lambda>v. s_globalCapacity w < s_globalFilled v) evictCandidate (globalCandidates w) w"
    using assms(2) by (simp add: evictGlobalIfNeeded_def Let_def)
  with global_evictor.pass_spec [OF assms(1) distinct_globalCandidates [OF assms(1)]
      set_globalCandidates [OF assms(1)], of "s_globalCapacity w"]
  show ?thesis by (elim exE conjE) (intro exI conjI; simp)
qed

text \<open>Dropping live candidates leaves every other piece of every cache as it was.\<close>

lemma evict_list_frame:
  assumes "world_inv w" "distinct ys" "\<forall>cd \<in> set ys. live_cand cd w" "c < w_nextCache w"
    and "map_of (c_pieces (w_cache w c)) idx = Some m"
    and "\<And>cd. cd \<in> set ys \<Longrightarrow> \<not> (cd_c cd = c \<and> cd_idx cd = idx)"
  shows "map_of (c_pieces (w_cache (fold evictCandidate ys w) c)) idx = Some m \<and>
    w_mp (fold evictCandidate ys w) m = w_mp w m"
  using assms
proof (induction ys arbitrary: w)
  case Nil
  then show ?case by simp
next
  case (Cons cd ys)
  let ?w = "evictCandidate cd w"
  have l: "live_cand cd w" using Cons.prems by simp
  note e = evictCandidate_effect [OF Cons.prems(1) l]
  have h: "heap_inv w" using Cons.prems by (simp add: world_inv_def)
  have md: "map_of (c_pieces (w_cache w (cd_c cd))) (cd_idx cd) = Some (cd_mp cd)"
    using l by (simp add: live_cand_def live_piece_def)
  have ne: "\<not> (c = cd_c cd \<and> idx = cd_idx cd)" using Cons.prems(6) [of cd] by auto
  have "w_mp ?w m = w_mp w m"
    using drop_effect_mp [OF h _ _ e md Cons.prems(5) ne] Cons.prems(4) live_cand_open [OF Cons.prems(1) l] by simp
  moreover have "map_of (c_pieces (w_cache ?w c)) idx = Some m"
    unfolding drop_effect_maps [OF e] using ne Cons.prems(5) by simp
  moreover have "\<forall>x \<in> set ys. live_cand x ?w"
    using Cons.prems(2,3) global_evictor.evict_other [OF Cons.prems(1) l] by (metis distinct.simps(2) list.set_intros(2))
  moreover have "world_inv ?w" by (rule global_evictor.evict_inv [OF Cons.prems(1) l])
  moreover have "c < w_nextCache ?w" using e Cons.prems(4) by (simp add: drop_effect_def)
  ultimately show ?case using Cons.IH [of ?w] Cons.prems(2,6) by simp
qed

lemma evicted_gone:
  assumes "world_inv w" "distinct ys" "\<forall>cd \<in> set ys. live_cand cd w" "y \<in> set ys"
  shows "map_of (c_pieces (w_cache (fold evictCandidate ys w) (cd_c y))) (cd_idx y) = None"
proof -
  have stays: "map_of (c_pieces (w_cache (fold evictCandidate ys w) c)) i = None"
    if "world_inv w" "distinct ys" "\<forall>cd \<in> set ys. live_cand cd w" "map_of (c_pieces (w_cache w c)) i = None"
    for ys w c i
    using that
  proof (induction ys arbitrary: w)
    case (Cons cd ys)
    have l: "live_cand cd w" using Cons.prems by simp
    have "\<forall>x \<in> set ys. live_cand x (evictCandidate cd w)"
      using Cons.prems(2,3) global_evictor.evict_other [OF Cons.prems(1) l]
      by (metis distinct.simps(2) list.set_intros(2))
    with Cons.IH [OF global_evictor.evict_inv [OF Cons.prems(1) l]] Cons.prems(2,4) show ?case
      by (simp add: drop_effect_maps [OF evictCandidate_effect [OF Cons.prems(1) l]])
  qed simp
  from assms show ?thesis
  proof (induction ys arbitrary: w)
    case (Cons cd ys)
    have l: "live_cand cd w" using Cons.prems by simp
    note i = global_evictor.evict_inv [OF Cons.prems(1) l]
    have rest: "\<forall>x \<in> set ys. live_cand x (evictCandidate cd w)"
      using Cons.prems(2,3) global_evictor.evict_other [OF Cons.prems(1) l]
      by (metis distinct.simps(2) list.set_intros(2))
    have "map_of (c_pieces (w_cache (evictCandidate cd w) (cd_c cd))) (cd_idx cd) = None"
      by (simp add: drop_effect_maps [OF evictCandidate_effect [OF Cons.prems(1) l]])
    with Cons.IH [OF i _ rest] stays [OF i _ rest] Cons.prems(2,4) show ?case by auto
  qed simp
qed

section \<open>Protected windows\<close>

lemma window_member:
  assumes "r \<in> set (c_readers (w_cache w c))" "\<not> r_closed (w_reader w r)" "r_cache (w_reader w r) = c"
    and "cur = (r_fileOffset (w_reader w r) + r_pos (w_reader w r)) sdiv c_pieceLen (w_cache w c)"
    and "0 \<le> idx" "cur - 2 \<le> idx" "idx < c_pieceCount (w_cache w c)"
    and "idx \<le> cur + max 2 (aheadPiecesFor (policy (r_class (w_reader w r))) (c_pieceLen (w_cache w c)))"
  shows "idx \<in> set (getReaderWindows c w)"
proof -
  have "idx \<in> set (readerWindow w (w_cache w c) r)"
    using assms(2-8) by (auto simp: readerWindow_def GetActiveWindow_def Let_def max_def)
  with assms(1) show ?thesis by (auto simp: getReaderWindows_def)
qed

lemma needed_piece_kept:
  assumes "world_inv w" "c < w_nextCache w" "map_of (c_pieces (w_cache w c)) idx = Some m"
    and "idx \<in> set (getReaderWindows c w) \<or> \<not> IsComplete (w_mp w m)"
  shows "map_of (c_pieces (w_cache (evictGlobalIfNeeded w) c)) idx = Some m \<and>
    w_mp (evictGlobalIfNeeded w) m = w_mp w m"
proof (cases "0 < s_globalCapacity w")
  case True
  obtain ys zs where c: "globalCandidates w = ys @ zs" and e: "evictGlobalIfNeeded w = fold evictCandidate ys w"
    using evictGlobal_outcome [OF assms(1) True] by blast
  have live: "live_cand cd w" if "cd \<in> set ys" for cd
    using that c set_globalCandidates [OF assms(1)] by auto
  have "\<not> (cd_c cd = c \<and> cd_idx cd = idx)" if "cd \<in> set ys" for cd
    using live [OF that] assms(3,4) by (auto simp: live_cand_def live_piece_def evictable_def)
  moreover have "distinct ys" using distinct_globalCandidates [OF assms(1)] c by simp
  ultimately show ?thesis
    unfolding e using evict_list_frame [OF assms(1) _ _ assms(2,3)] live by blast
next
  case False
  then show ?thesis using assms(3) by (simp add: evictGlobalIfNeeded_def)
qed

lemma local_loop_cap:
  "range_while (\<lambda>v. c_capacity (w_cache v c) < c_filled (w_cache v c)) (evictLocal c) xs w =
   range_while (\<lambda>v. c_capacity (w_cache w c) < c_filled (w_cache v c)) (evictLocal c) xs w"
  by (induction xs arbitrary: w) (simp_all add: evictLocal_cache)

section \<open>Properties\<close>

text \<open>A concrete state: two complete pieces of 2 and 4 bytes, last accessed at 2 and 4, budget 5.\<close>

definition demo_full :: world where
  "demo_full =
     (let p1 = Cache_Piece 0 1 None demo_open; p0 = Cache_Piece 0 0 None demo_open;
          w1 = fst (Piece_WriteAt 1 p1 [5, 6] 0 demo_open);
          w2 = Piece_MarkComplete no_faults 2 p1 w1;
          w3 = fst (Piece_WriteAt 3 p0 [1, 2, 3, 4] 0 w2);
          w4 = Piece_MarkComplete no_faults 4 p0 w3
      in w4\<lparr>s_globalCapacity := 5\<rparr>)"

lemma demo_full_eq:
  "demo_full =
     \<lparr>w_mp = (\<lambda>_. no_mp)
        (0 := \<lparr>mp_size = 2, mp_data = Some [5, 6], mp_writtenBlocks = [True], mp_complete = True,
                mp_accessed = 2, mp_accounted = 2, mp_doneClosed = True, mp_notifyGen = Suc (Suc 0)\<rparr>,
         Suc 0 := \<lparr>mp_size = 4, mp_data = Some [1, 2, 3, 4], mp_writtenBlocks = [True],
                mp_complete = True, mp_accessed = 4, mp_accounted = 4, mp_doneClosed = True,
                mp_notifyGen = Suc (Suc 0)\<rparr>),
      w_nextMp = Suc (Suc 0),
      w_cache = (\<lambda>_. NewCache [] 0 0 0)
        (0 := \<lparr>c_hash = ''h'', c_pieces = [(1, 0), (0, Suc 0)], c_readers = [], c_capacity = 83886080,
                c_filled = 6, c_pieceLen = 4, c_pieceCount = 2, c_totalSize = 6, c_torrent = None,
                c_closed = False, c_store = True, c_disk = None\<rparr>),
      w_nextCache = Suc 0, w_reader = \<lambda>_. no_reader, w_nextReader = 0, s_caches = [(''h'', 0)],
      s_downloadDir = Some [], s_globalFilled = 6, s_globalCapacity = 5, s_diskModes = \<lambda>_. False,
      w_fs = Map.empty, w_calls = []\<rparr>"
  by (simp add: demo_full_def demo_simps Piece_MarkComplete_def MemPiece_MarkComplete_def
      persistIfDisk_def evictAfterComplete_def evictGlobalIfNeeded_def)

lemma demo_full_sel:
  "s_caches demo_full = [(''h'', 0)]" "s_globalFilled demo_full = 6" "s_globalCapacity demo_full = 5"
  "c_pieces (w_cache demo_full 0) = [(1, 0), (0, 1)]" "c_closed (w_cache demo_full 0) = False"
  "c_readers (w_cache demo_full 0) = []" "IsComplete (w_mp demo_full 0)" "IsComplete (w_mp demo_full (Suc 0))"
  "mp_accessed (w_mp demo_full 0) = 2" "mp_accessed (w_mp demo_full (Suc 0)) = 4"
  "mp_accounted (w_mp demo_full 0) = 2" "mp_accounted (w_mp demo_full (Suc 0)) = 4"
  "c_store (w_cache demo_full 0)" "w_nextCache demo_full = 1"
  by (simp_all add: demo_full_eq IsComplete_def)


lemma demo_full_inv: "world_inv demo_full"
proof -
  have r: "resident 0 demo_full = 6" by (simp add: resident_def demo_full_sel)
  have f: "c_filled (w_cache demo_full 0) = 6" and m: "w_nextMp demo_full = 2"
    and acc: "mp_accounted (w_mp demo_full m) = (if m = 0 then 2 else if m = 1 then 4 else 0)" for m
    by (simp_all add: demo_full_eq no_mp_def accounted_new)
  show ?thesis
    by (simp add: world_inv_def heap_inv_def registry_inv_def ledger_inv_def store_share_def
        demo_full_sel r f m acc)
qed

lemma demo_candidates:
  "globalCandidates demo_full =
     [\<lparr>cd_c = 0, cd_idx = 1, cd_mp = 0, cd_accessed = 2\<rparr>, \<lparr>cd_c = 0, cd_idx = 0, cd_mp = 1, cd_accessed = 4\<rparr>]"
  by (simp add: globalCandidates_def collectEvictCandidates_def evictable_def getReaderWindows_def
      demo_full_sel)

text \<open>
  C6. The RAM budget is enforced as far as the windows allow: after a cross-torrent pass the resident
  bytes are within the budget, or no torrent holds a complete piece outside its readers' protected
  windows any more.
\<close>

theorem global_eviction_enforces_budget:
  assumes inv: "world_inv w" and cap: "0 < s_globalCapacity w"
    and "w' = evictGlobalIfNeeded w"
  shows "s_globalFilled w' \<le> s_globalCapacity w \<or>
    (\<forall>c idx m. c \<in> snd ` set (s_caches w') \<and> map_of (c_pieces (w_cache w' c)) idx = Some m \<longrightarrow>
       idx \<in> set (getReaderWindows c w') \<or> \<not> IsComplete (w_mp w' m))"
proof -
  obtain zs where live: "\<forall>cd. live_cand cd w' \<longleftrightarrow> cd \<in> set zs"
    and stop: "s_globalFilled w' \<le> s_globalCapacity w \<or> zs = []"
    using evictGlobal_outcome [OF inv cap] unfolding assms(3) by blast
  have "idx \<in> set (getReaderWindows c w') \<or> \<not> IsComplete (w_mp w' m)"
    if "zs = []" "c \<in> snd ` set (s_caches w')" "map_of (c_pieces (w_cache w' c)) idx = Some m" for c idx m
  proof -
    have "\<not> live_cand \<lparr>cd_c = c, cd_idx = idx, cd_mp = m, cd_accessed = mp_accessed (w_mp w' m)\<rparr> w'"
      using live that(1) by simp
    with that(2,3) show ?thesis by (simp add: live_cand_def live_piece_def evictable_def)
  qed
  with stop show ?thesis by blast
qed

theorem global_eviction_enforces_budget_witness:
  "s_globalFilled (evictGlobalIfNeeded demo_full) \<le> 5"
proof -
  have "0 < s_globalCapacity demo_full" by (simp add: demo_full_sel)
  note post = global_eviction_enforces_budget [OF demo_full_inv this refl]
  have "evictable 0 demo_full (1, 0)"
    by (simp add: evictable_def getReaderWindows_def demo_full_sel)
  then have eff: "drop_effect 0 1 0 demo_full (evictPiece 0 1 0 demo_full)"
    by (intro evictPiece_effect) (simp_all add: demo_full_sel)
  then have "s_globalFilled (evictPiece 0 1 0 demo_full) = 4"
    by (simp add: drop_effect_def demo_full_sel)
  then have e: "evictGlobalIfNeeded demo_full = evictPiece 0 1 0 demo_full"
    by (simp add: evictGlobalIfNeeded_def demo_candidates evictCandidate_def demo_full_sel)
  have "c_pieces (w_cache (evictPiece 0 1 0 demo_full) 0) = [(0, 1)]"
    "IsComplete (w_mp (evictPiece 0 1 0 demo_full) 1)" "s_caches (evictPiece 0 1 0 demo_full) = [(''h'', 0)]"
    "getReaderWindows 0 (evictPiece 0 1 0 demo_full) = []"
    using eff drop_effect_windows [OF eff, of 0]
    by (simp_all add: drop_effect_def demo_full_sel getReaderWindows_def)
  with post show ?thesis by (auto simp: e demo_full_sel)
qed

text \<open>
  The pass is least-recently-used and minimal: it drops a prefix of the candidates in order of
  last access, so no dropped piece was accessed after a surviving candidate; and each drop happened
  while the bytes still resident exceeded the budget.
\<close>

theorem global_eviction_lru_minimal:
  assumes inv: "world_inv w" and cap: "0 < s_globalCapacity w"
  shows "\<exists>ys zs. globalCandidates w = ys @ zs \<and> evictGlobalIfNeeded w = fold evictCandidate ys w \<and>
    (\<forall>y \<in> set ys. map_of (c_pieces (w_cache (evictGlobalIfNeeded w) (cd_c y))) (cd_idx y) = None) \<and>
    (\<forall>z \<in> set zs. map_of (c_pieces (w_cache (evictGlobalIfNeeded w) (cd_c z))) (cd_idx z) = Some (cd_mp z)) \<and>
    (\<forall>y \<in> set ys. \<forall>z \<in> set zs. mp_accessed (w_mp w (cd_mp y)) \<le> mp_accessed (w_mp w (cd_mp z))) \<and>
    (\<forall>us v vs. ys = us @ v # vs \<longrightarrow>
       s_globalCapacity w < s_globalFilled w - (\<Sum>cd\<leftarrow>us. mp_accounted (w_mp w (cd_mp cd))))"
proof -
  obtain ys zs where c: "globalCandidates w = ys @ zs" and e: "evictGlobalIfNeeded w = fold evictCandidate ys w"
    and l: "\<forall>cd. live_cand cd (evictGlobalIfNeeded w) \<longleftrightarrow> cd \<in> set zs"
    and need: "\<forall>us v vs. ys = us @ v # vs \<longrightarrow>
       s_globalCapacity w < s_globalFilled w - (\<Sum>cd\<leftarrow>us. mp_accounted (w_mp w (cd_mp cd)))"
    using evictGlobal_outcome [OF inv cap] by blast
  have live: "live_cand cd w" if "cd \<in> set ys \<or> cd \<in> set zs" for cd
    using that c set_globalCandidates [OF inv] by auto
  have age: "cd_accessed cd = mp_accessed (w_mp w (cd_mp cd))" if "cd \<in> set ys \<or> cd \<in> set zs" for cd
    using live [OF that] by (simp add: live_cand_def)
  have "mp_accessed (w_mp w (cd_mp y)) \<le> mp_accessed (w_mp w (cd_mp z))" if "y \<in> set ys" "z \<in> set zs" for y z
    using sorted_split [of cd_accessed ys zs y z] globalCandidates_sorted [of w] c age that by simp
  moreover have "map_of (c_pieces (w_cache (evictGlobalIfNeeded w) (cd_c y))) (cd_idx y) = None"
    if "y \<in> set ys" for y
    unfolding e using that live distinct_globalCandidates [OF inv] c
    by (intro evicted_gone [OF inv]) auto
  moreover have "map_of (c_pieces (w_cache (evictGlobalIfNeeded w) (cd_c z))) (cd_idx z) = Some (cd_mp z)"
    if "z \<in> set zs" for z
  proof -
    have "live_cand z (evictGlobalIfNeeded w)" using l that by blast
    then show ?thesis by (simp add: live_cand_def live_piece_def)
  qed
  ultimately show ?thesis using c e need by blast
qed

theorem global_eviction_lru_minimal_witness:
  "\<exists>ys zs. globalCandidates demo_full = ys @ zs \<and> length (globalCandidates demo_full) = 2 \<and>
     evictGlobalIfNeeded demo_full = fold evictCandidate ys demo_full \<and>
     (\<forall>y \<in> set ys. \<forall>z \<in> set zs. mp_accessed (w_mp demo_full (cd_mp y)) \<le> mp_accessed (w_mp demo_full (cd_mp z)))"
proof -
  have "0 < s_globalCapacity demo_full" by (simp add: demo_full_sel)
  from global_eviction_lru_minimal [OF demo_full_inv this] show ?thesis
    by (simp only: demo_candidates list.size) auto
qed

text \<open>
  C7. Eviction never takes a piece a reader needs: for an open reader registered with its cache, the
  two pieces behind its position, the piece it is in and its read-ahead window survive a cross-torrent
  pass untouched, and so does every piece that is still downloading.
\<close>

theorem eviction_spares_reader_window:
  assumes "world_inv w" "c < w_nextCache w" "map_of (c_pieces (w_cache w c)) idx = Some m"
    and "\<not> IsComplete (w_mp w m) \<or>
      (r \<in> set (c_readers (w_cache w c)) \<and> \<not> r_closed (w_reader w r) \<and> r_cache (w_reader w r) = c \<and>
       cur = (r_fileOffset (w_reader w r) + r_pos (w_reader w r)) sdiv c_pieceLen (w_cache w c) \<and>
       0 \<le> idx \<and> idx < c_pieceCount (w_cache w c) \<and> cur - 2 \<le> idx \<and>
       idx \<le> cur + max 2 (aheadPiecesFor (policy (r_class (w_reader w r))) (c_pieceLen (w_cache w c))))"
  shows "map_of (c_pieces (w_cache (evictGlobalIfNeeded w) c)) idx = Some m \<and>
    w_mp (evictGlobalIfNeeded w) m = w_mp w m"
  using assms(4) window_member [of r w c cur idx] by (intro needed_piece_kept [OF assms(1-3)]) blast

theorem eviction_spares_reader_window_witness:
  "\<exists>r w. w = RegisterReader 0 r (upd_reader r (\<lambda>R. R\<lparr>r_closed := False, r_pos := 4, r_fileSize := 6\<rparr>) demo_full) \<and>
     map_of (c_pieces (w_cache (evictGlobalIfNeeded w) 0)) 1 = Some 0"
proof -
  let ?R = "\<lambda>R. R\<lparr>r_closed := False, r_pos := 4, r_fileSize := 6\<rparr>"
  let ?w = "RegisterReader 0 0 (upd_reader 0 ?R demo_full)"
  have inv: "world_inv ?w" by (simp add: RegisterReader_def frame_simps demo_full_inv)
  have sel: "w_nextCache ?w = 1" "c_pieces (w_cache ?w 0) = [(1, 0), (0, 1)]"
    "c_readers (w_cache ?w 0) = [0]" "w_reader ?w 0 = ?R (w_reader demo_full 0)"
    "c_pieceLen (w_cache ?w 0) = c_pieceLen (w_cache demo_full 0)"
    "c_pieceCount (w_cache ?w 0) = c_pieceCount (w_cache demo_full 0)"
    by (simp_all add: RegisterReader_def demo_full_sel)
  have d: "c_pieceLen (w_cache demo_full 0) = 4" "c_pieceCount (w_cache demo_full 0) = 2"
    "w_reader demo_full 0 = no_reader"
    by (simp_all add: demo_full_eq)
  have "map_of (c_pieces (w_cache (evictGlobalIfNeeded ?w) 0)) 1 = Some 0 \<and>
      w_mp (evictGlobalIfNeeded ?w) 0 = w_mp ?w 0"
    by (rule eviction_spares_reader_window [OF inv, where r = 0 and cur = 1])
      (simp_all add: sel d no_reader_def max_def)
  then show ?thesis by blast
qed

text \<open>
  The per-cache pass keeps the same contract for one cache: afterwards the cache is within its
  capacity, or every piece it still holds is protected or incomplete.
\<close>

theorem local_eviction_enforces_capacity:
  assumes inv: "world_inv w" and c: "c < w_nextCache w" and w': "w' = EvictIfNeeded c w"
  shows "c_filled (w_cache w' c) \<le> c_capacity (w_cache w' c) \<or>
    (\<forall>idx m. map_of (c_pieces (w_cache w' c)) idx = Some m \<longrightarrow>
       idx \<in> set (getReaderWindows c w') \<or> \<not> IsComplete (w_mp w' m))"
proof (cases "c_filled (w_cache w c) \<le> c_capacity (w_cache w c)")
  case True
  then show ?thesis by (simp add: w' EvictIfNeeded_def)
next
  case False
  let ?xs = "sort_key (\<lambda>cand. mp_accessed (w_mp w (snd cand))) (filter (evictable c w) (c_pieces (w_cache w c)))"
  let ?cap = "c_capacity (w_cache w c)"
  have d: "distinct (map fst (c_pieces (w_cache w c)))" using inv c by (simp add: world_inv_def heap_inv_def)
  have "distinct ?xs" using d by (simp add: distinct_map)
  moreover have "set ?xs = {x. live_piece c x w}" using d by (auto simp: live_piece_def)
  ultimately obtain ys zs where
    r: "range_while (\<lambda>v. ?cap < c_filled (w_cache v c)) (evictLocal c) ?xs w = fold (evictLocal c) ys w"
    and live: "\<forall>x. live_piece c x (fold (evictLocal c) ys w) \<longleftrightarrow> x \<in> set zs"
    and stop: "c_filled (w_cache (fold (evictLocal c) ys w) c) \<le> ?cap \<or> zs = []"
    using local_evictor.pass_spec [of w c ?xs ?cap] inv c by blast
  have cap: "c_capacity (w_cache (fold (evictLocal c) us v) c) = c_capacity (w_cache v c)" for us v
    by (induction us arbitrary: v) (simp_all add: evictLocal_cache)
  have "w' = fold (evictLocal c) ys w"
    using False r by (simp add: w' EvictIfNeeded_def cleanPieces_def Let_def local_loop_cap)
  moreover have "idx \<in> set (getReaderWindows c w') \<or> \<not> IsComplete (w_mp w' m)"
    if "zs = []" "map_of (c_pieces (w_cache w' c)) idx = Some m" for idx m
  proof -
    have "\<not> live_piece c (idx, m) w'" using live that(1) calculation by simp
    with that(2) show ?thesis by (simp add: live_piece_def evictable_def)
  qed
  ultimately show ?thesis using stop cap by auto
qed

theorem local_eviction_enforces_capacity_witness:
  "c_filled (w_cache (EvictIfNeeded 0 demo_full) 0) \<le> c_capacity (w_cache (EvictIfNeeded 0 demo_full) 0) \<or>
    (\<forall>idx m. map_of (c_pieces (w_cache (EvictIfNeeded 0 demo_full) 0)) idx = Some m \<longrightarrow>
       idx \<in> set (getReaderWindows 0 (EvictIfNeeded 0 demo_full)) \<or>
       \<not> IsComplete (w_mp (EvictIfNeeded 0 demo_full) m))"
  by (rule local_eviction_enforces_capacity [OF demo_full_inv _ refl]) (simp add: demo_full_sel)

end
