(* ===== verification/Priorities.thy ===== *)
theory Priorities
  imports Storage
begin

text \<open>
  Download priorities (\<open>Cache.UpdatePriorities\<close>): the imperative max-merge over the registered
  readers against a declarative account of what one reader asks for.
\<close>

section \<open>What one reader asks for\<close>

definition curPieceOf :: "cache \<Rightarrow> reader \<Rightarrow> int" where
  "curPieceOf C R = (r_fileOffset R + r_pos R) sdiv c_pieceLen C"

definition tailPiecesOf :: "cache \<Rightarrow> reader \<Rightarrow> int" where
  "tailPiecesOf C R =
     (let pol = policy (r_class R)
      in if 0 < tailBoostBytes pol \<and> 0 < c_pieceLen C
         then max 2 (tailBoostBytes pol sdiv c_pieceLen C) else 2)"

definition prio_if :: "bool \<Rightarrow> piece_priority \<Rightarrow> piece_priority" where
  "prio_if b p = (if b then p else PiecePriorityNone)"

definition claim :: "cache \<Rightarrow> int \<Rightarrow> int \<Rightarrow> reader \<Rightarrow> int \<Rightarrow> piece_priority" where
  "claim C first last' R idx =
     (let pol = policy (r_class R); cur = curPieceOf C R
      in prio_if (\<not> r_closed R \<and> first \<le> idx \<and> idx \<le> last')
           (max (prio_if (idx = cur) (curPrio pol))
             (max (prio_if (cur < idx \<and> idx \<le> cur + aheadPiecesFor pol (c_pieceLen C)) (aheadPrio pol))
               (prio_if (headFootBoost pol \<and> (idx < first + 2 \<or> last' - tailPiecesOf C R < idx))
                 PiecePriorityHigh))))"

section \<open>The loops compute the maximum\<close>

lemma prio_if_simps [simp]: "prio_if True p = p" "prio_if False p = PiecePriorityNone"
  "prio_if a (prio_if b p) = prio_if (a \<and> b) p" "prio_if b PiecePriorityNone = PiecePriorityNone"
  by (simp_all add: prio_if_def)

lemma max_None [simp]: "max PiecePriorityNone p = p" "max p PiecePriorityNone = p"
  by (simp_all add: max_def antisym)

lemma bump_max: "bump p i d j = max (d j) (prio_if (j = i) p)"
proof (cases "j = i")
  case True
  then show ?thesis by (cases "d i < p") (simp_all add: bump_def max.absorb1 max.absorb2 less_imp_le)
next
  case False
  then show ?thesis by (simp add: bump_def)
qed

lemma fold_bump:
  "fold (\<lambda>x d. if P x then bump p (g x) d else d) xs d j =
     max (d j) (prio_if (\<exists>x \<in> set xs. P x \<and> g x = j) p)"
proof (induction xs arbitrary: d)
  case Nil
  then show ?case by simp
next
  case (Cons x xs)
  then show ?case by (auto simp: bump_max prio_if_def max.assoc)
qed

lemma readerClaims_max:
  "readerClaims C first last' R desired idx = max (desired idx) (claim C first last' R idx)"
proof (cases "r_closed R")
  case True
  then show ?thesis by (simp add: readerClaims_def claim_def)
next
  case False
  let ?pol = "policy (r_class R)"
  let ?cur = "curPieceOf C R"
  let ?in = "first \<le> idx \<and> idx \<le> last'"
  let ?a = "prio_if (?in \<and> idx = ?cur) (curPrio ?pol)"
  let ?b = "prio_if (?in \<and> ?cur < idx \<and> idx \<le> ?cur + aheadPiecesFor ?pol (c_pieceLen C)) (aheadPrio ?pol)"
  have ahead: "(\<exists>x \<in> set [1..aheadPiecesFor ?pol (c_pieceLen C)].
      (first \<le> ?cur + x \<and> ?cur + x \<le> last') \<and> ?cur + x = idx) \<longleftrightarrow>
      ?in \<and> ?cur < idx \<and> idx \<le> ?cur + aheadPiecesFor ?pol (c_pieceLen C)"
    by (auto intro: bexI [of _ "idx - ?cur"])
  have headfoot: "max (prio_if (\<exists>x \<in> set [first..first + 1]. x \<le> last' \<and> x = idx) PiecePriorityHigh)
      (prio_if (\<exists>x \<in> set [last' - tailPiecesOf C R + 1..last']. first \<le> x \<and> x = idx) PiecePriorityHigh)
      = prio_if (?in \<and> (idx < first + 2 \<or> last' - tailPiecesOf C R < idx)) PiecePriorityHigh"
    by (auto simp: prio_if_def tailPiecesOf_def Let_def)
  define d1 where "d1 = (if first \<le> ?cur \<and> ?cur \<le> last' then bump (curPrio ?pol) ?cur desired else desired)"
  define d2 where "d2 = fold (\<lambda>i d. if first \<le> ?cur + i \<and> ?cur + i \<le> last'
      then bump (aheadPrio ?pol) (?cur + i) d else d) [1..aheadPiecesFor ?pol (c_pieceLen C)] d1"
  define d3 where "d3 = fold (\<lambda>i d. if i \<le> last' then bump PiecePriorityHigh i d else d) [first..first + 1] d2"
  define d4 where "d4 = fold (\<lambda>i d. if first \<le> i then bump PiecePriorityHigh i d else d)
      [last' - tailPiecesOf C R + 1..last'] d3"
  have code: "readerClaims C first last' R desired = (if headFootBoost ?pol then d4 else d2)"
    unfolding readerClaims_def d4_def d3_def d2_def d1_def tailPiecesOf_def curPieceOf_def Let_def
    using False by simp
  have e1: "d1 idx = max (desired idx) ?a" by (auto simp: d1_def bump_max prio_if_def)
  have e2: "d2 idx = max (d1 idx) ?b" unfolding d2_def fold_bump ahead ..
  have "d4 idx = max (d3 idx)
      (prio_if (\<exists>x \<in> set [last' - tailPiecesOf C R + 1..last']. first \<le> x \<and> x = idx) PiecePriorityHigh)"
    unfolding d4_def by (rule fold_bump)
  moreover have "d3 idx = max (d2 idx) (prio_if (\<exists>x \<in> set [first..first + 1]. x \<le> last' \<and> x = idx) PiecePriorityHigh)"
    unfolding d3_def by (rule fold_bump)
  ultimately have e4: "d4 idx = max (d2 idx)
      (prio_if (?in \<and> (idx < first + 2 \<or> last' - tailPiecesOf C R < idx)) PiecePriorityHigh)"
    unfolding headfoot [symmetric] by (simp only: max.assoc)
  have res: "readerClaims C first last' R desired idx = max (max (max (desired idx) ?a) ?b)
      (prio_if (headFootBoost ?pol) (prio_if (?in \<and> (idx < first + 2 \<or> last' - tailPiecesOf C R < idx))
        PiecePriorityHigh))"
    unfolding code by (simp add: e1 e2 e4)
  then show ?thesis
    using False by (cases "first \<le> idx"; cases "idx \<le> last'") (simp_all add: claim_def Let_def max.assoc)
qed

lemma fold_claims:
  "fold (\<lambda>r. readerClaims C first last' (rd r)) rs desired idx =
     Max (insert (desired idx) ((\<lambda>r. claim C first last' (rd r) idx) ` set rs))"
proof (induction rs arbitrary: desired)
  case Nil
  then show ?case by simp
next
  case (Cons r rs)
  let ?S = "(\<lambda>r. claim C first last' (rd r) idx) ` set rs"
  have "Max (insert (max (desired idx) (claim C first last' (rd r) idx)) ?S) =
      Max (insert (desired idx) (insert (claim C first last' (rd r) idx) ?S))"
    by (cases "?S = {}") (simp_all add: max.assoc)
  with Cons show ?case by (simp add: readerClaims_max)
qed

section \<open>Properties\<close>

text \<open>A concrete state: one playback reader at byte 4 of a ten-byte file in pieces of four.\<close>

definition demo_play :: world where
  "demo_play = RegisterReader 0 0
     ((NewStorage 0 [] Map.empty)
        \<lparr>w_cache := (\<lambda>_. NewCache ''h'' 0 4 3),
         w_reader := (\<lambda>_. \<lparr>r_torrent = Some 7, r_cache = 0, r_fileOffset = 0, r_fileSize = 10, r_pos = 4,
            r_closed = False, r_lastPieceIdx = -1, r_class = ClassPlayback, r_waitDeadline = None\<rparr>)\<rparr>)"

lemma demo_play_sel:
  "c_torrent (w_cache demo_play 0) = Some 7" "w_calls demo_play = []"
  "c_pieceCount (w_cache demo_play 0) = 3" "c_readers (w_cache demo_play 0) = [0]"
  "c_pieceLen (w_cache demo_play 0) = 4"
  "w_reader demo_play 0 = \<lparr>r_torrent = Some 7, r_cache = 0, r_fileOffset = 0, r_fileSize = 10, r_pos = 4,
     r_closed = False, r_lastPieceIdx = -1, r_class = ClassPlayback, r_waitDeadline = None\<rparr>"
  by (simp_all add: demo_play_def RegisterReader_def NewStorage_def NewCache_def)

text \<open>
  C8. \<open>UpdatePriorities\<close> gives every piece of the file, in order, the maximum of what the
  registered readers ask for it, whatever order the reader set is visited in; pieces nobody asks for
  are set to no priority, and nothing outside the file or the torrent is touched.
\<close>

theorem update_priorities_max_merge:
  assumes "c_torrent (w_cache w c) = Some t"
  shows "w_calls (UpdatePriorities c first last' w) = w_calls w @
    map (\<lambda>idx. SetPriority t idx
          (Max (insert PiecePriorityNone
            ((\<lambda>r. claim (w_cache w c) first last' (w_reader w r) idx) ` set (c_readers (w_cache w c))))))
      [idx \<leftarrow> [first..last']. idx < c_pieceCount (w_cache w c)]"
  using assms by (simp add: UpdatePriorities_def Let_def fold_claims)

theorem update_priorities_max_merge_witness:
  "SetPriority 7 2 PiecePriorityHigh \<in> set (w_calls (UpdatePriorities 0 0 2 demo_play))"
  by (subst update_priorities_max_merge [OF demo_play_sel(1)])
    (simp add: demo_play_sel claim_def curPieceOf_def tailPiecesOf_def aheadPiecesFor_def
      playbackReadaheadBytes_def Let_def max_def prio_defs upto.simps)

text \<open>
  Urgency is reserved for players: the piece an open playback reader is positioned in (within the
  file) is set to \<open>Now\<close>, and no piece is set to \<open>Now\<close> unless an open playback reader is positioned
  in it, so background demuxing, probing and indexing never outrank a live player.
\<close>

theorem now_iff_player:
  assumes "c_torrent (w_cache w c) = Some t" "w_calls w = []"
    and "first \<le> idx" "idx \<le> last'" "idx < c_pieceCount (w_cache w c)"
  shows "SetPriority t idx PiecePriorityNow \<in> set (w_calls (UpdatePriorities c first last' w)) \<longleftrightarrow>
    (\<exists>r \<in> set (c_readers (w_cache w c)). \<not> r_closed (w_reader w r) \<and>
       r_class (w_reader w r) = ClassPlayback \<and> curPieceOf (w_cache w c) (w_reader w r) = idx)"
proof -
  let ?cl = "\<lambda>r. claim (w_cache w c) first last' (w_reader w r) idx"
  let ?S = "insert PiecePriorityNone (?cl ` set (c_readers (w_cache w c)))"
  have now: "claim C first last' R idx = PiecePriorityNow \<longleftrightarrow>
      \<not> r_closed R \<and> r_class R = ClassPlayback \<and> curPieceOf C R = idx" for C R
    using assms(3,4) by (cases "r_class R")
      (auto simp: claim_def Let_def prio_if_def max_def prio_defs split: if_splits)
  have "SetPriority t idx PiecePriorityNow \<in> set (w_calls (UpdatePriorities c first last' w)) \<longleftrightarrow>
      Max ?S = PiecePriorityNow"
    using assms by (auto simp: UpdatePriorities_def Let_def fold_claims)
  also have "\<dots> \<longleftrightarrow> PiecePriorityNow \<in> ?S"
  proof
    assume "PiecePriorityNow \<in> ?S"
    moreover have "p \<le> PiecePriorityNow" for p by (cases p) (simp_all add: prio_defs)
    ultimately show "Max ?S = PiecePriorityNow" by (intro Max_eqI) auto
  qed (metis Max_in finite.intros(2) finite_imageI finite_set insert_not_empty)
  also have "\<dots> \<longleftrightarrow> (\<exists>r \<in> set (c_readers (w_cache w c)). ?cl r = PiecePriorityNow)"
    by (simp add: image_iff eq_commute [of PiecePriorityNow])
  finally show ?thesis unfolding now .
qed

theorem now_iff_player_witness:
  "SetPriority 7 1 PiecePriorityNow \<in> set (w_calls (UpdatePriorities 0 0 2 demo_play))"
  by (subst now_iff_player [OF demo_play_sel(1,2)])
    (simp_all add: demo_play_sel curPieceOf_def)

end
