(* ===== verification/Reader.thy ===== *)
theory Reader
  imports Eviction Priorities
begin

text \<open>
  The blocking file reader (\<^verbatim>\<open>storage/reader.go\<close>). Other goroutines act at explicit points: while
  the reader is parked in its \<open>select\<close>, and between the readiness check and the copy. What they do is
  an argument: a list of wake-ups, each with the change of the world that preceded it, the clock and
  the \<open>select\<close> case that fired, and a list of changes for the second kind of point. A run that uses up
  either list has not returned yet and its value is \<open>None\<close>. The length of a torrent is a parameter, as
  it comes from the torrent client.
\<close>

section \<open>Operations\<close>

datatype wake_cause = PieceEvent | CloseEvent | CtxEvent | TimerEvent

record wake_event =
  ev_run :: "world \<Rightarrow> world"
  ev_now :: time_ns
  ev_cause :: wake_cause

definition NewReader ::
  "ref option \<Rightarrow> ref \<Rightarrow> int \<Rightarrow> int \<Rightarrow> ReadClass \<Rightarrow> time_ns option \<Rightarrow> world \<Rightarrow> world \<times> ref"
where
  "NewReader t c fileOffset fileSize cls waitDeadline w =
     (let r = w_nextReader w;
          R = \<lparr>r_torrent = t, r_cache = c, r_fileOffset = fileOffset, r_fileSize = fileSize, r_pos = 0,
               r_closed = False, r_lastPieceIdx = -1, r_class = cls, r_waitDeadline = waitDeadline\<rparr>
      in (RegisterReader c r (w\<lparr>w_reader := (w_reader w)(r := R), w_nextReader := Suc r\<rparr>), r))"

definition fileSpan :: "world \<Rightarrow> ref \<Rightarrow> int \<times> int" where
  "fileSpan w r =
     (let R = w_reader w r; pl = c_pieceLen (w_cache w (r_cache R))
      in (r_fileOffset R sdiv pl, (r_fileOffset R + r_fileSize R - 1) sdiv pl))"

text \<open>The per-block patience, capped by the caller's deadline.\<close>

definition waitFor :: "time_ns \<Rightarrow> reader \<Rightarrow> time_ns" where
  "waitFor now R =
     (let budget = waitBudget (policy (r_class R))
      in case r_waitDeadline R of
           None \<Rightarrow> budget
         | Some d \<Rightarrow> if d - now < budget then d - now else budget)"

text \<open>
  The inner loop: fetch the piece again, check the range and take its channel, or park. The result
  is the remaining wake-ups, the clock, the world, the piece and the error, if the loop returned one.
\<close>

fun waitLoop ::
  "wake_event list \<Rightarrow> time_ns \<Rightarrow> ref \<Rightarrow> int \<Rightarrow> int \<Rightarrow> int \<Rightarrow> int \<Rightarrow> world \<Rightarrow>
    (wake_event list \<times> time_ns \<times> world \<times> ref \<times> go_error option) option"
where
  "waitLoop env now r pieceIdx pieceSize pieceOffset toRead w =
     (let (w1, m) = GetOrCreateMemPiece now (r_cache (w_reader w r)) pieceIdx pieceSize w
      in if fst (WaitRange pieceOffset toRead (w_mp w1 m)) then Some (env, now, w1, m, None)
         else if waitFor now (w_reader w1 r) \<le> 0 then Some (env, now, w1, m, Some ErrDeadlineExceeded)
         else case env of
                [] \<Rightarrow> None
              | e # env' \<Rightarrow>
                  let w2 = ev_run e w1
                  in case ev_cause e of
                       CloseEvent \<Rightarrow> Some (env', ev_now e, w2, m, Some ErrReaderClosed)
                     | CtxEvent \<Rightarrow> Some (env', ev_now e, w2, m, Some ErrContext)
                     | TimerEvent \<Rightarrow> Some (env', ev_now e, w2, m, Some ErrWaitTimeout)
                     | PieceEvent \<Rightarrow>
                         if r_closed (w_reader w2 r)
                         then Some (env', ev_now e, w2, m, Some ErrReaderClosedDuringRead)
                         else waitLoop env' (ev_now e) r pieceIdx pieceSize pieceOffset toRead w2)"

declare waitLoop.simps [simp del]

text \<open>The preparation of one round: fetch, reload from disk, ask the client, move the priorities.\<close>

definition prepareRound ::
  "io_faults \<Rightarrow> time_ns \<Rightarrow> ref \<Rightarrow> int \<Rightarrow> int \<Rightarrow> int \<times> int \<Rightarrow> world \<Rightarrow> world + world"
where
  "prepareRound io now r pieceIdx pieceSize span w =
     (let c = r_cache (w_reader w r);
          (w1, m) = GetOrCreateMemPiece now c pieceIdx pieceSize w;
          w2 = hydrateIfNeeded io now c pieceIdx m pieceSize w1;
          w3 = (case r_torrent (w_reader w2 r) of
                  Some t \<Rightarrow>
                    if IsComplete (w_mp w2 m) then w2
                    else call_client [UpdateCompletion t pieceIdx,
                           SetPriority t pieceIdx (curPrio (policy (r_class (w_reader w2 r))))] w2
                | None \<Rightarrow> w2)
      in if r_closed (w_reader w3 r) then Inl w3
         else if pieceIdx \<noteq> r_lastPieceIdx (w_reader w3 r)
         then Inr (UpdatePriorities c (fst span) (snd span)
                     (upd_reader r (\<lambda>R. R\<lparr>r_lastPieceIdx := pieceIdx\<rparr>) w3))
         else Inr w3)"

text \<open>Piece index, offset in the piece, piece size and bytes left in the piece at a file position.\<close>

definition locate :: "(ref \<Rightarrow> int) \<Rightarrow> world \<Rightarrow> ref \<Rightarrow> int \<Rightarrow> (int \<times> int \<times> int \<times> int) option" where
  "locate torrentLength w r pos =
     (let R = w_reader w r; C = w_cache w (r_cache R);
          absOffset = r_fileOffset R + pos;
          pieceIdx = absOffset sdiv c_pieceLen C;
          pieceOffset = absOffset smod c_pieceLen C
      in if pieceIdx = c_pieceCount C - 1 then
           case r_torrent R of
             None \<Rightarrow> None
           | Some t \<Rightarrow>
               let pieceSize = torrentLength t - pieceIdx * c_pieceLen C
               in Some (pieceIdx, pieceOffset, pieceSize, pieceSize - pieceOffset)
         else Some (pieceIdx, pieceOffset, c_pieceLen C, c_pieceLen C - pieceOffset))"

text \<open>How the loop ends: end of file when nothing was read at or past the end.\<close>

definition readDone :: "ref \<Rightarrow> int \<Rightarrow> byte list \<Rightarrow> world \<Rightarrow> world \<times> byte list \<times> go_error option" where
  "readDone r pos acc w =
     (w, acc, if acc = [] \<and> r_fileSize (w_reader w r) \<le> pos then Some ErrEOF else None)"

text \<open>The outer loop; \<open>acc\<close> is what was read so far and \<open>n\<close> the bytes of the buffer still to fill.\<close>

fun readLoop ::
  "(ref \<Rightarrow> int) \<Rightarrow> io_faults \<Rightarrow> int \<times> int \<Rightarrow> ref \<Rightarrow> (world \<Rightarrow> world) list \<Rightarrow> wake_event list \<Rightarrow> time_ns \<Rightarrow>
    nat \<Rightarrow> int \<Rightarrow> byte list \<Rightarrow> world \<Rightarrow> (world \<times> byte list \<times> go_error option) option"
where
  "readLoop tlen io span r gaps env now n pos acc w =
     (if n = 0 then Some (readDone r pos acc w)
      else case locate tlen w r pos of
        None \<Rightarrow> Some (w, acc, Some Panic)
      | Some (pieceIdx, pieceOffset, pieceSize, pieceRemaining) \<Rightarrow>
          if pieceRemaining \<le> 0 then Some (readDone r pos acc w)
          else
            let toRead = (if pieceRemaining < int n then pieceRemaining else int n)
            in case prepareRound io now r pieceIdx pieceSize span w of
                 Inl w3 \<Rightarrow> Some (w3, acc, Some ErrReaderClosed)
               | Inr w4 \<Rightarrow>
                   (case waitLoop env now r pieceIdx pieceSize pieceOffset toRead w4 of
                      None \<Rightarrow> None
                    | Some (env', now', w5, m, Some err) \<Rightarrow> Some (w5, acc, Some err)
                    | Some (env', now', w5, m, None) \<Rightarrow>
                        (case gaps of
                           [] \<Rightarrow> None
                         | g # gaps' \<Rightarrow>
                             let w6 = g w5;
                                 (mp, bs, err) = MemPiece_ReadAt now' (nat toRead) pieceOffset (w_mp w6 m);
                                 w7 = upd_mp m mp w6
                             in if err = Some ErrPieceEvicted
                                then readLoop tlen io span r gaps' env' now' n pos acc w7
                                else
                                  let nr = length bs;
                                      w8 = (if 0 < nr
                                            then upd_reader r (\<lambda>R. R\<lparr>r_pos := pos + int nr\<rparr>) w7 else w7)
                                  in if err \<noteq> None \<and> err \<noteq> Some ErrEOF then Some (w8, acc @ bs, err)
                                     else if nr = 0 then Some (readDone r pos acc w8)
                                     else readLoop tlen io span r gaps' env' now' (n - nr) (pos + int nr)
                                            (acc @ bs) w8)))"

declare readLoop.simps [simp del]

definition Reader_Read ::
  "(ref \<Rightarrow> int) \<Rightarrow> io_faults \<Rightarrow> ref \<Rightarrow> (world \<Rightarrow> world) list \<Rightarrow> wake_event list \<Rightarrow> time_ns \<Rightarrow> nat \<Rightarrow>
    world \<Rightarrow> (world \<times> byte list \<times> go_error option) option"
where
  "Reader_Read tlen io r gaps env now plen w =
     (let R = w_reader w r; limit = r_fileSize R - r_pos R;
          n = (if limit < int plen then nat limit else plen)
      in if r_closed R then Some (w, [], Some ErrReaderClosed)
         else if r_fileSize R \<le> r_pos R then Some (w, [], Some ErrEOF)
         else if n = 0 then Some (w, [], None)
         else readLoop tlen io (fileSpan w r) r gaps env now n (r_pos R) [] w)"

definition Reader_Seek :: "ref \<Rightarrow> int \<Rightarrow> int \<Rightarrow> world \<Rightarrow> world \<times> (go_error + int)" where
  "Reader_Seek r offset whence w =
     (let R = w_reader w r
      in if r_closed R then (w, Inl ErrReaderClosed)
         else if whence \<notin> {0, 1, 2} then (w, Inl ErrInvalidWhence)
         else
           let newPos = (if whence = 0 then offset
                         else if whence = 1 then r_pos R + offset else r_fileSize R + offset)
           in if newPos < 0 then (w, Inl ErrNegativePosition)
              else
                let w1 = upd_reader r (\<lambda>R. R\<lparr>r_pos := newPos\<rparr>) w;
                    w2 = (if r_torrent R \<noteq> None
                          then UpdatePriorities (r_cache R) (fst (fileSpan w1 r)) (snd (fileSpan w1 r)) w1
                          else w1)
                in (w2, Inr newPos))"

definition Reader_Close :: "ref \<Rightarrow> world \<Rightarrow> world" where
  "Reader_Close r w =
     (let R = w_reader w r
      in if r_closed R then w
         else
           let w1 = upd_reader r (\<lambda>R. R\<lparr>r_closed := True\<rparr>) w;
               w2 = UnregisterReader (r_cache R) r w1
           in UpdatePriorities (r_cache R) (fst (fileSpan w2 r)) (snd (fileSpan w2 r)) w2)"

section \<open>What a read relies on\<close>

text \<open>
  One read: the torrent's geometry and bytes, the cache, the reader, its file and its torrent.
\<close>

record read_job =
  j_pl :: nat
  j_pc :: nat
  j_src :: "byte list"
  j_c :: ref
  j_r :: ref
  j_fo :: nat
  j_fs :: nat
  j_t :: ref

abbreviation j_piece :: "read_job \<Rightarrow> int \<Rightarrow> byte list" where
  "j_piece J i \<equiv> src_piece (j_pl J) (j_src J) i"

definition job_ok :: "(ref \<Rightarrow> int) \<Rightarrow> read_job \<Rightarrow> bool" where
  "job_ok tlen J \<longleftrightarrow> geometry (j_pl J) (length (j_src J)) (j_pc J) \<and>
     j_fo J + j_fs J \<le> length (j_src J) \<and> tlen (j_t J) = int (length (j_src J))"

text \<open>
  The state a read relies on. \<open>own\<close> remembers for every buffer ever handed out for this cache which
  piece it was for, evicted ones included: each buffer holds only verified blocks of its piece, the
  map's buffers are among them, and what the disk returns in full is the piece.
\<close>

definition buffers_ok :: "read_job \<Rightarrow> (ref \<Rightarrow> int option) \<Rightarrow> world \<Rightarrow> bool" where
  "buffers_ok J own w \<longleftrightarrow>
     (\<forall>m i. own m = Some i \<longrightarrow> m < w_nextMp w \<and> mp_holds (j_piece J i) (w_mp w m))"

definition map_ok :: "read_job \<Rightarrow> (ref \<Rightarrow> int option) \<Rightarrow> world \<Rightarrow> bool" where
  "map_ok J own w \<longleftrightarrow> (\<forall>i m. (i, m) \<in> set (c_pieces (w_cache w (j_c J))) \<longrightarrow> own m = Some i)"

definition disk_ok :: "read_job \<Rightarrow> world \<Rightarrow> bool" where
  "disk_ok J w \<longleftrightarrow>
     (\<forall>d io i bs. c_disk (w_cache w (j_c J)) = Some d \<longrightarrow>
        ReadPiece io i (length (j_piece J i)) d (w_fs w) = (bs, None) \<longrightarrow> bs = j_piece J i)"

definition fields_ok :: "read_job \<Rightarrow> world \<Rightarrow> bool" where
  "fields_ok J w \<longleftrightarrow>
     c_pieceLen (w_cache w (j_c J)) = int (j_pl J) \<and> c_pieceCount (w_cache w (j_c J)) = int (j_pc J) \<and>
     r_cache (w_reader w (j_r J)) = j_c J \<and> r_fileOffset (w_reader w (j_r J)) = int (j_fo J) \<and>
     r_fileSize (w_reader w (j_r J)) = int (j_fs J) \<and> r_torrent (w_reader w (j_r J)) = Some (j_t J)"

definition serves :: "read_job \<Rightarrow> (ref \<Rightarrow> int option) \<Rightarrow> world \<Rightarrow> bool" where
  "serves J own w \<longleftrightarrow> buffers_ok J own w \<and> map_ok J own w \<and> disk_ok J w \<and> fields_ok J w"

lemma serves_cong:
  assumes "serves J own w" "w_mp w' = w_mp w" "w_nextMp w' = w_nextMp w" "w_fs w' = w_fs w"
    and "c_pieces (w_cache w' (j_c J)) = c_pieces (w_cache w (j_c J))"
    and "c_disk (w_cache w' (j_c J)) = c_disk (w_cache w (j_c J))"
    and "fields_ok J w' = fields_ok J w"
  shows "serves J own w'"
  using assms(1) unfolding serves_def buffers_ok_def map_ok_def disk_ok_def assms(2-) .

lemma serves_upd_mp:
  assumes "serves J own w" "\<And>i. own m = Some i \<Longrightarrow> mp_holds (j_piece J i) p"
  shows "serves J own (upd_mp m p w)"
proof -
  have "buffers_ok J own (upd_mp m p w)" using assms by (simp add: serves_def buffers_ok_def)
  moreover have "disk_ok J (upd_mp m p w) = disk_ok J w" "fields_ok J (upd_mp m p w) = fields_ok J w"
    "map_ok J own (upd_mp m p w) = map_ok J own w"
    by (simp_all only: disk_ok_def fields_ok_def map_ok_def upd_mp_sel)
  ultimately show ?thesis using assms(1) by (simp add: serves_def)
qed

lemma serves_drop:
  assumes s: "serves J own w" and e: "drop_effect c idx m w w'" and n: "w_nextMp w' = w_nextMp w"
  shows "serves J own w'"
proof -
  have eff: "w_mp w' = (w_mp w)(m := fst (ReleaseAndSize (w_mp w m)))" "w_reader w' = w_reader w" "w_fs w' = w_fs w"
    "c_pieceLen (w_cache w' x) = c_pieceLen (w_cache w x)" "c_pieceCount (w_cache w' x) = c_pieceCount (w_cache w x)"
    "c_disk (w_cache w' x) = c_disk (w_cache w x)" for x
    using e by (simp_all add: drop_effect_def)
  have "set (c_pieces (w_cache w' x)) \<subseteq> set (c_pieces (w_cache w x))" for x
    using e by (auto simp: drop_effect_def set_delete_eq)
  then have "map_ok J own w'" using s unfolding serves_def map_ok_def by blast
  moreover have "buffers_ok J own w'"
    using s by (auto simp: serves_def buffers_ok_def eff n intro: mp_holds_release)
  moreover have "disk_ok J w' = disk_ok J w" "fields_ok J w' = fields_ok J w"
    by (simp_all only: disk_ok_def fields_ok_def eff)
  ultimately show ?thesis using s by (simp add: serves_def)
qed

lemma serves_getOrCreate:
  assumes s: "serves J own w" and g: "GetOrCreateMemPiece now (j_c J) idx sz w = (w1, m)"
    and sz: "sz = int (length (j_piece J idx))"
  shows "\<exists>own'. own \<subseteq>\<^sub>m own' \<and> serves J own' w1 \<and> own' m = Some idx"
proof (cases "\<not> c_closed (w_cache w (j_c J)) \<and> map_of (c_pieces (w_cache w (j_c J))) idx \<noteq> None")
  case True
  then have w1: "w1 = w" and "(idx, m) \<in> set (c_pieces (w_cache w (j_c J)))"
    using g by (auto simp: GetOrCreateMemPiece_def dest: map_of_SomeD)
  then have "own m = Some idx" using s by (simp add: serves_def map_ok_def)
  with s w1 show ?thesis by (intro exI [of _ own]) simp
next
  case False
  have m: "m = w_nextMp w" and w1: "w_mp w1 = (w_mp w)(m := NewMemPiece now sz)" "w_nextMp w1 = Suc (w_nextMp w)"
    "w_fs w1 = w_fs w" "w_reader w1 = w_reader w"
    "c_pieceLen (w_cache w1 (j_c J)) = c_pieceLen (w_cache w (j_c J))"
    "c_pieceCount (w_cache w1 (j_c J)) = c_pieceCount (w_cache w (j_c J))"
    "c_disk (w_cache w1 (j_c J)) = c_disk (w_cache w (j_c J))"
    and ps: "set (c_pieces (w_cache w1 (j_c J))) \<subseteq> insert (idx, m) (set (c_pieces (w_cache w (j_c J))))"
    using False g by (auto simp: GetOrCreateMemPiece_def Let_def alloc_mp_def split: option.splits if_splits)
  have below: "x < m" if "own x = Some i" for x i
    using s that by (auto simp: serves_def buffers_ok_def m)
  let ?own = "own(m \<mapsto> idx)"
  have "own \<subseteq>\<^sub>m ?own" using below by (auto simp: map_le_def)
  moreover have "buffers_ok J ?own w1"
    using s below by (auto simp: serves_def buffers_ok_def w1 m sz mp_holds_new less_Suc_eq)
  moreover have "map_ok J ?own w1"
    using s ps below unfolding serves_def map_ok_def by fastforce
  moreover have "disk_ok J w1 = disk_ok J w" "fields_ok J w1 = fields_ok J w"
    by (simp_all only: disk_ok_def fields_ok_def w1)
  ultimately show ?thesis using s by (intro exI [of _ ?own]) (simp add: serves_def)
qed

lemma serves_frame:
  assumes "serves J own w"
  shows "serves J own (call_client cs w)" "serves J own (UpdateFilled c n w)" "serves J own (notifyEvicted c i w)"
    "serves J own (UpdatePriorities c a b w)"
    "serves J own (upd_reader r (\<lambda>R. R\<lparr>r_lastPieceIdx := k\<rparr>) w)"
    "serves J own (upd_reader r (\<lambda>R. R\<lparr>r_pos := k\<rparr>) w)"
  by (rule serves_cong [OF assms];
      simp add: fields_ok_def UpdateFilled_def UpdatePriorities_def Let_def split: option.split)+

lemma evictPiece_serves:
  assumes "serves J own w"
  shows "serves J own (evictPiece c idx m w)"
proof (cases "\<not> c_closed (w_cache w c) \<and> map_of (c_pieces (w_cache w c)) idx = Some m \<and> evictable c w (idx, m)")
  case True
  then have "drop_effect c idx m w (evictPiece c idx m w)" by (intro evictPiece_effect) auto
  then show ?thesis
    by (rule serves_drop [OF assms]) (simp add: evictPiece_def Let_def)
next
  case False
  then have "evictPiece c idx m w = w" by (auto simp: evictPiece_def evictable_def)
  with assms show ?thesis by simp
qed

lemma evictLocal_serves: "serves J own w \<Longrightarrow> serves J own (evictLocal c cand w)"
  by (rule serves_drop [OF _ evictLocal_effect]) (simp_all add: evictLocal_def Let_def)

lemma evictAfterComplete_serves:
  assumes "serves J own w"
  shows "serves J own (evictAfterComplete c w)"
proof -
  have "serves J own (range_while more evictCandidate xs w)" for more xs
    using assms by (rule range_while_invariant) (simp add: evictCandidate_def evictPiece_serves)
  moreover have "serves J own (range_while more (evictLocal c) xs w)" for more xs
    using assms by (rule range_while_invariant) (rule evictLocal_serves)
  ultimately show ?thesis
    using assms
    by (simp add: evictAfterComplete_def evictGlobalIfNeeded_def EvictIfNeeded_def cleanPieces_def Let_def)
qed

lemma hydrate_serves:
  assumes s: "serves J own w" and m: "own m = Some idx" and sz: "sz = int (length (j_piece J idx))"
  shows "serves J own (hydrateIfNeeded io now (j_c J) idx m sz w)"
proof (cases "c_disk (w_cache w (j_c J))")
  case None
  with s show ?thesis by (simp add: hydrateIfNeeded_def)
next
  case (Some d)
  obtain buf err where rd: "ReadPiece io idx (nat sz) d (w_fs w) = (buf, err)" by fastforce
  obtain p n where ld: "LoadComplete now buf (w_mp w m) = (p, n)" by fastforce
  show ?thesis
  proof (cases "err = None")
    case True
    then have "buf = j_piece J idx" using s Some rd sz by (auto simp: serves_def disk_ok_def)
    then have "mp_holds (j_piece J idx) p"
      using mp_holds_load [of "j_piece J idx" "w_mp w m" now] s m ld by (simp add: serves_def buffers_ok_def)
    then have "serves J own (upd_mp m p w)" using m by (intro serves_upd_mp [OF s]) simp
    with s Some rd ld show ?thesis
      by (simp add: hydrateIfNeeded_def Let_def evictAfterComplete_serves serves_frame)
  next
    case False
    with s Some rd show ?thesis by (simp add: hydrateIfNeeded_def)
  qed
qed

section \<open>What other goroutines may do\<close>

text \<open>
  A change by others keeps what the read relies on; it may hand out new buffers. In the gap between
  the readiness check and the copy it may also release the buffer, but not release it and let a stale
  writer fill it again (that interleaving is the subject of
  \<^verbatim>\<open>MemPiece.ready_range_lost_to_stale_write\<close>).
\<close>

definition keeps :: "read_job \<Rightarrow> (world \<Rightarrow> world) \<Rightarrow> bool" where
  "keeps J f \<longleftrightarrow> (\<forall>own w. serves J own w \<longrightarrow> (\<exists>own'. own \<subseteq>\<^sub>m own' \<and> serves J own' (f w)))"

definition gap_ok :: "read_job \<Rightarrow> (world \<Rightarrow> world) \<Rightarrow> bool" where
  "gap_ok J f \<longleftrightarrow> keeps J f \<and>
     (\<forall>w m off len. hasRangeLocked off len (w_mp w m) \<longrightarrow>
        mp_data (w_mp (f w) m) = None \<or> hasRangeLocked off len (w_mp (f w) m))"

lemma serves_owned: "serves J own w \<Longrightarrow> own m = Some i \<Longrightarrow> mp_holds (j_piece J i) (w_mp w m)"
  by (simp add: serves_def buffers_ok_def)

lemma map_le_Some: "own \<subseteq>\<^sub>m own' \<Longrightarrow> own m = Some i \<Longrightarrow> own' m = Some i"
  by (force simp: map_le_def dom_def)

lemma waitLoop_serves:
  assumes "serves J own w" "sz = int (length (j_piece J idx))" "\<forall>e \<in> set env. keeps J (ev_run e)"
    and "waitLoop env now (j_r J) idx sz off len w = Some (env', now', w', m, err)"
  shows "set env' \<subseteq> set env \<and> (\<exists>own'. own \<subseteq>\<^sub>m own' \<and> serves J own' w' \<and> own' m = Some idx) \<and>
    (err = None \<longrightarrow> hasRangeLocked off len (w_mp w' m))"
  using assms
proof (induction env arbitrary: now w own)
  case Nil
  obtain w1 m1 where g: "GetOrCreateMemPiece now (j_c J) idx sz w = (w1, m1)" by fastforce
  have c: "r_cache (w_reader w (j_r J)) = j_c J" using Nil.prems(1) by (simp add: serves_def fields_ok_def)
  from Nil.prems(4) have "env' = []" "w' = w1" "m = m1" "err = None \<longrightarrow> hasRangeLocked off len (w_mp w' m)"
    by (auto simp: waitLoop.simps c g Let_def WaitRange_def split: if_splits)
  with serves_getOrCreate [OF Nil.prems(1) g Nil.prems(2)] show ?case by auto
next
  case (Cons e env)
  obtain w1 m1 where g: "GetOrCreateMemPiece now (j_c J) idx sz w = (w1, m1)" by fastforce
  have c: "r_cache (w_reader w (j_r J)) = j_c J" using Cons.prems(1) by (simp add: serves_def fields_ok_def)
  obtain own1 where o1: "own \<subseteq>\<^sub>m own1" "serves J own1 w1" "own1 m1 = Some idx"
    using serves_getOrCreate [OF Cons.prems(1) g Cons.prems(2)] by blast
  obtain own2 where o2: "own1 \<subseteq>\<^sub>m own2" "serves J own2 (ev_run e w1)"
    using Cons.prems(3) o1(2) unfolding keeps_def by (meson list.set_intros(1))
  have le: "own \<subseteq>\<^sub>m own2" using o1(1) o2(1) by (rule map_le_trans)
  have m1: "own2 m1 = Some idx" using o2(1) o1(3) by (rule map_le_Some)
  from Cons.prems(4) consider
      (ready) "env' = e # env" "w' = w1" "m = m1" "err = None \<longrightarrow> hasRangeLocked off len (w_mp w1 m1)"
    | (stop) "env' = env" "w' = ev_run e w1" "m = m1" "err \<noteq> None"
    | (again) "waitLoop env (ev_now e) (j_r J) idx sz off len (ev_run e w1) = Some (env', now', w', m, err)"
    by (auto simp: waitLoop.simps [of "e # env"] c g Let_def WaitRange_def
        split: if_splits wake_cause.splits)
  then show ?case
  proof cases
    case ready
    with o1 show ?thesis by auto
  next
    case stop
    with o2 le m1 show ?thesis by auto
  next
    case again
    from Cons.IH [OF o2(2) Cons.prems(2) _ again] Cons.prems(3) le show ?thesis
      by (auto intro: map_le_trans)
  qed
qed

lemma prepareRound_serves:
  assumes s: "serves J own w" and sz: "sz = int (length (j_piece J idx))"
    and p: "prepareRound io now (j_r J) idx sz span w = Inl w' \<or> prepareRound io now (j_r J) idx sz span w = Inr w'"
  shows "\<exists>own'. own \<subseteq>\<^sub>m own' \<and> serves J own' w'"
proof -
  have c: "r_cache (w_reader w (j_r J)) = j_c J" using s by (simp add: serves_def fields_ok_def)
  obtain w1 m where g: "GetOrCreateMemPiece now (j_c J) idx sz w = (w1, m)" by fastforce
  obtain own1 where o1: "own \<subseteq>\<^sub>m own1" "serves J own1 w1" "own1 m = Some idx"
    using serves_getOrCreate [OF s g sz] by blast
  have h: "serves J own1 (hydrateIfNeeded io now (j_c J) idx m sz w1)" by (rule hydrate_serves [OF o1(2,3) sz])
  define w2 where "w2 = hydrateIfNeeded io now (j_c J) idx m sz w1"
  define w3 where "w3 = (case r_torrent (w_reader w2 (j_r J)) of
      Some t \<Rightarrow> if IsComplete (w_mp w2 m) then w2
        else call_client [UpdateCompletion t idx, SetPriority t idx (curPrio (policy (r_class (w_reader w2 (j_r J)))))] w2
    | None \<Rightarrow> w2)"
  have s3: "serves J own1 w3" using h by (simp add: w3_def w2_def [symmetric] serves_frame split: option.split)
  have "w' = w3 \<or> w' = UpdatePriorities (j_c J) (fst span) (snd span)
      (upd_reader (j_r J) (\<lambda>R. R\<lparr>r_lastPieceIdx := idx\<rparr>) w3)"
    using p unfolding prepareRound_def Let_def c g prod.case w2_def [symmetric] w3_def [symmetric]
    by (auto split: if_splits)
  with s3 have "serves J own1 w'" by (auto simp: serves_frame)
  with o1(1) show ?thesis by blast
qed

section \<open>Where a file position lies\<close>

lemma length_j_piece:
  assumes "geometry pl (length src) pc" "k < pc"
  shows "length (src_piece pl src (int k)) = piece_bytes pl (length src) k"
  using geometry_offset [OF assms] by (simp add: src_piece_def piece_at_def)

lemma locate_ok:
  assumes s: "serves J own w" and job: "job_ok tlen J" and pos: "0 \<le> pos" "pos < int (j_fs J)"
  shows "\<exists>k off. locate tlen w (j_r J) pos =
      Some (int k, int off, int (length (j_piece J (int k))), int (length (j_piece J (int k)) - off)) \<and>
    k < j_pc J \<and> off < length (j_piece J (int k)) \<and> k * j_pl J + off = j_fo J + nat pos"
proof -
  let ?a = "j_fo J + nat pos"
  define k where "k = ?a div j_pl J"
  define off where "off = ?a mod j_pl J"
  have geo: "geometry (j_pl J) (length (j_src J)) (j_pc J)" and pl: "0 < j_pl J"
    and tot: "length (j_src J) \<le> j_pc J * j_pl J" and tl: "tlen (j_t J) = int (length (j_src J))"
    using job by (auto simp: job_ok_def geometry_def)
  have a: "?a < length (j_src J)" "int ?a = int (j_fo J) + pos"
    using job pos by (auto simp: job_ok_def)
  have ka: "k * j_pl J + off = ?a" by (simp add: k_def off_def)
  have off: "off < j_pl J" using pl by (simp add: off_def)
  have kpc: "k < j_pc J"
    using a tot pl by (metis k_def less_mult_imp_div_less order_less_le_trans)
  note len = length_j_piece [OF geo kpc]
  have size: "int (length (j_piece J (int k))) =
      (if int k = int (j_pc J) - 1 then int (length (j_src J)) - int k * int (j_pl J) else int (j_pl J))"
  proof (cases "k = j_pc J - 1")
    case True
    then have "length (j_src J) - k * j_pl J \<le> j_pl J"
      using tot kpc by (cases "j_pc J") (auto simp: algebra_simps)
    moreover have "k * j_pl J \<le> length (j_src J)" using geometry_offset(1) [OF geo kpc] by simp
    ultimately show ?thesis
      using True kpc unfolding len by (simp add: piece_bytes_def of_nat_diff)
  next
    case False
    then have "Suc k * j_pl J \<le> (j_pc J - 1) * j_pl J" using kpc by (intro mult_le_mono1) simp
    moreover have "(j_pc J - 1) * j_pl J < length (j_src J)" using geo by (simp add: geometry_def)
    ultimately have "j_pl J \<le> length (j_src J) - k * j_pl J" by simp
    moreover have "int k \<noteq> int (j_pc J) - 1" using False kpc by linarith
    ultimately show ?thesis unfolding len by (simp add: piece_bytes_def)
  qed
  have lt: "off < length (j_piece J (int k))"
    unfolding len using off ka a by (simp add: piece_bytes_def)
  have f: "fields_ok J w" using s by (simp add: serves_def)
  have "(int (j_fo J) + pos) sdiv int (j_pl J) = int k" "(int (j_fo J) + pos) smod int (j_pl J) = int off"
    unfolding a(2) [symmetric] by (simp_all add: k_def off_def of_nat_div of_nat_mod)
  then have "locate tlen w (j_r J) pos =
      Some (int k, int off, int (length (j_piece J (int k))), int (length (j_piece J (int k))) - int off)"
    using f size tl by (auto simp: locate_def fields_ok_def Let_def)
  with lt kpc ka show ?thesis by (auto simp: of_nat_diff)
qed

lemma subslice_piece:
  assumes "off + n \<le> length (src_piece pl src (int k))"
  shows "subslice off n (src_piece pl src (int k)) = subslice (k * pl + off) n src"
proof -
  have "length (src_piece pl src (int k)) \<le> piece_bytes pl (length src) k"
    by (simp add: src_piece_def piece_at_def subslice_def)
  with assms show ?thesis
    unfolding src_piece_def piece_at_def by (simp add: subslice_subslice)
qed

section \<open>One round of the read loop\<close>

definition wait_errors :: "go_error set" where
  "wait_errors = {ErrReaderClosed, ErrReaderClosedDuringRead, ErrContext, ErrWaitTimeout, ErrDeadlineExceeded}"

lemma waitLoop_error:
  "waitLoop env now r idx sz off len w = Some (env', now', w', m, Some err) \<Longrightarrow> err \<in> wait_errors"
proof (induction env arbitrary: now w)
  case Nil
  then show ?case
    by (auto simp: waitLoop.simps wait_errors_def split: prod.splits if_splits)
next
  case (Cons e env)
  then show ?case
    by (auto simp: waitLoop.simps [of "e # env"] wait_errors_def Let_def
        split: prod.splits if_splits wake_cause.splits)
qed

text \<open>
  What a round can do: end with an error of the wait, find the buffer evicted and go again at the same
  position, or append the next bytes of the file and go on.
\<close>

definition round_result ::
  "(ref \<Rightarrow> int) \<Rightarrow> io_faults \<Rightarrow> int \<times> int \<Rightarrow> read_job \<Rightarrow> (world \<Rightarrow> world) list \<Rightarrow> wake_event list \<Rightarrow>
    nat \<Rightarrow> int \<Rightarrow> byte list \<Rightarrow> world \<times> byte list \<times> go_error option \<Rightarrow> bool"
where
  "round_result tlen io span J gaps env n pos acc res \<longleftrightarrow>
     (\<exists>w' e. res = (w', acc, Some e) \<and> e \<in> wait_errors) \<or>
     (\<exists>g gaps' env' now' nr w' own'. gaps = g # gaps' \<and> set env' \<subseteq> set env \<and> nr \<le> n \<and>
        serves J own' w' \<and> (0 < nr \<longrightarrow> r_pos (w_reader w' (j_r J)) = pos + int nr) \<and>
        readLoop tlen io span (j_r J) gaps' env' now' (n - nr) (pos + int nr)
          (acc @ subslice (j_fo J + nat pos) nr (j_src J)) w' = Some res)"

lemma round_result_wait:
  "e \<in> wait_errors \<Longrightarrow> round_result tlen io span J gaps env n pos acc (w', acc, Some e)"
  by (auto simp: round_result_def)

lemma round_result_step:
  "gaps = g # gaps' \<Longrightarrow> set env' \<subseteq> set env \<Longrightarrow> nr \<le> n \<Longrightarrow> serves J own' w' \<Longrightarrow>
   (0 < nr \<longrightarrow> r_pos (w_reader w' (j_r J)) = pos + int nr) \<Longrightarrow>
   readLoop tlen io span (j_r J) gaps' env' now' (n - nr) (pos + int nr)
     (acc @ subslice (j_fo J + nat pos) nr (j_src J)) w' = Some res \<Longrightarrow>
   round_result tlen io span J gaps env n pos acc res"
  unfolding round_result_def by blast

text \<open>The copy after the gap: the buffer is gone, or the bytes are the file's.\<close>

lemma read_after_gap:
  assumes s: "serves J own w" and g: "gap_ok J g" and m: "own m = Some (int k)"
    and ready: "hasRangeLocked (int off) (int nr) (w_mp w m)"
    and nr: "0 < nr" "off + nr \<le> length (j_piece J (int k))"
  shows "\<exists>own' mp bs err. serves J own' (upd_mp m mp (g w)) \<and>
    MemPiece_ReadAt now nr (int off) (w_mp (g w) m) = (mp, bs, err) \<and>
    (err = Some ErrPieceEvicted \<or> err = None \<and> bs = subslice (k * j_pl J + off) nr (j_src J))"
proof -
  obtain own' where o: "own \<subseteq>\<^sub>m own'" "serves J own' (g w)"
    using g s unfolding gap_ok_def keeps_def by blast
  have m': "own' m = Some (int k)" by (rule map_le_Some [OF o(1) m])
  note h = serves_owned [OF o(2) m']
  obtain mp bs err where r: "MemPiece_ReadAt now nr (int off) (w_mp (g w) m) = (mp, bs, err)"
    by (rule prod_cases3)
  have "mp_holds (j_piece J (int k)) mp" using mp_holds_read [OF h, of now nr "int off"] r by simp
  then have "serves J own' (upd_mp m mp (g w))" by (intro serves_upd_mp [OF o(2)]) (simp add: m')
  moreover have "err = Some ErrPieceEvicted \<or> err = None \<and> bs = subslice (k * j_pl J + off) nr (j_src J)"
  proof (cases "mp_data (w_mp (g w) m)")
    case None
    with r show ?thesis by (simp add: MemPiece_ReadAt_def)
  next
    case (Some d)
    with g ready have "hasRangeLocked (int off) (int nr) (w_mp (g w) m)"
      unfolding gap_ok_def by (metis option.simps(3))
    with ready_read [OF h this, of now] nr r subslice_piece [OF nr(2)] show ?thesis by auto
  qed
  ultimately show ?thesis using r by blast
qed

lemma readLoop_round:
  assumes job: "job_ok tlen J" and s: "serves J own w"
    and env: "\<forall>e \<in> set env. keeps J (ev_run e)" and gaps: "\<forall>g \<in> set gaps. gap_ok J g"
    and n: "0 < n" and pos: "0 \<le> pos" "pos + int n \<le> int (j_fs J)"
    and r: "readLoop tlen io span (j_r J) gaps env now n pos acc w = Some res"
  shows "round_result tlen io span J gaps env n pos acc res"
proof -
  obtain k off where loc: "locate tlen w (j_r J) pos = Some (int k, int off,
      int (length (j_piece J (int k))), int (length (j_piece J (int k)) - off))"
    and k: "k < j_pc J" and off: "off < length (j_piece J (int k))"
    and a: "k * j_pl J + off = j_fo J + nat pos"
    using locate_ok [OF s job pos(1)] pos n by auto
  let ?sz = "int (length (j_piece J (int k)))"
  define nr where "nr = min n (length (j_piece J (int k)) - off)"
  have nr: "0 < nr" "nr \<le> n" "off + nr \<le> length (j_piece J (int k))" using n off by (auto simp: nr_def)
  have toRead: "(if int (length (j_piece J (int k)) - off) < int n
      then int (length (j_piece J (int k)) - off) else int n) = int nr"
    by (simp add: nr_def)
  note r' = r [unfolded readLoop.simps [of tlen io span "j_r J" gaps], unfolded loc option.case prod.case Let_def toRead]
  have rem: "\<not> int (length (j_piece J (int k)) - off) \<le> 0" using off by simp
  show ?thesis
  proof (cases "prepareRound io now (j_r J) (int k) ?sz span w")
    case (Inl w3)
    with r' n rem have "res = (w3, acc, Some ErrReaderClosed)" by simp
    then show ?thesis by (simp add: round_result_wait wait_errors_def)
  next
    case (Inr w4)
    then obtain own4 where s4: "serves J own4 w4" using prepareRound_serves [OF s refl] by blast
    obtain env' now' w5 m e where
      wl: "waitLoop env now (j_r J) (int k) ?sz (int off) (int nr) w4 = Some (env', now', w5, m, e)"
      using r' n rem Inr
      by (cases "waitLoop env now (j_r J) (int k) ?sz (int off) (int nr) w4") auto
    note wl_ok = waitLoop_serves [OF s4 refl env wl]
    show ?thesis
    proof (cases e)
      case (Some err)
      with r' n rem Inr wl have "res = (w5, acc, Some err)" by simp
      with waitLoop_error wl Some show ?thesis by (metis round_result_wait)
    next
      case None
      with wl_ok obtain own5 where s5: "serves J own5 w5" "own5 m = Some (int k)"
        and ready: "hasRangeLocked (int off) (int nr) (w_mp w5 m)" by auto
      obtain g gaps' where gs: "gaps = g # gaps'"
        using r' n rem Inr wl None by (cases gaps) auto
      obtain own6 mp bs err where s6: "serves J own6 (upd_mp m mp (g w5))"
        and rd: "MemPiece_ReadAt now' nr (int off) (w_mp (g w5) m) = (mp, bs, err)"
        and alt: "err = Some ErrPieceEvicted \<or> err = None \<and> bs = subslice (j_fo J + nat pos) nr (j_src J)"
        using read_after_gap [OF s5(1) _ s5(2) ready nr(1,3), of g now'] gaps gs unfolding a by auto
      from alt show ?thesis
      proof
        assume ev: "err = Some ErrPieceEvicted"
        with r' n rem Inr wl None gs rd
        have "readLoop tlen io span (j_r J) gaps' env' now' n pos acc (upd_mp m mp (g w5)) = Some res" by simp
        with wl_ok show ?thesis by (intro round_result_step [OF gs _ _ s6, where nr = 0]) (auto simp: subslice_def)
      next
        assume ok: "err = None \<and> bs = subslice (j_fo J + nat pos) nr (j_src J)"
        have "length bs = nr"
          using ok nr(3) subslice_piece [OF nr(3)] unfolding a by (metis length_subslice)
        with r' n rem Inr wl None gs rd ok nr(1)
        have "readLoop tlen io span (j_r J) gaps' env' now' (n - nr) (pos + int nr) (acc @ bs)
            (upd_reader (j_r J) (\<lambda>R. R\<lparr>r_pos := pos + int nr\<rparr>) (upd_mp m mp (g w5))) = Some res"
          by simp
        with ok wl_ok nr(2) show ?thesis
          by (intro round_result_step [OF gs _ nr(2) serves_frame(6) [OF s6]]) auto
      qed
    qed
  qed
qed

lemma readLoop_zero:
  "readLoop tlen io span r gaps env now 0 pos acc w = Some res \<longleftrightarrow> res = readDone r pos acc w"
  by (auto simp: readLoop.simps)

text \<open>How a round's outcome extends to the whole loop.\<close>

definition read_outcome ::
  "read_job \<Rightarrow> nat \<Rightarrow> int \<Rightarrow> byte list \<Rightarrow> world \<times> byte list \<times> go_error option \<Rightarrow> bool"
where
  "read_outcome J n pos acc res \<longleftrightarrow>
     (case res of (w', bs, err) \<Rightarrow>
        \<exists>l \<le> n. bs = acc @ subslice (j_fo J + nat pos) l (j_src J) \<and>
          (case err of None \<Rightarrow> l = n \<and> (0 < n \<longrightarrow> r_pos (w_reader w' (j_r J)) = pos + int n)
           | Some e \<Rightarrow> e \<in> wait_errors))"

lemma read_outcome_step:
  assumes "read_outcome J (n - nr) (pos + int nr) (acc @ subslice (j_fo J + nat pos) nr (j_src J)) res"
    and "0 \<le> pos" "nr \<le> n" "nr = n \<longrightarrow> 0 < n \<longrightarrow> r_pos (w_reader (fst res) (j_r J)) = pos + int n"
  shows "read_outcome J n pos acc res"
proof -
  obtain w' bs err where res: "res = (w', bs, err)" by (rule prod_cases3)
  obtain l where l: "l \<le> n - nr"
    "bs = (acc @ subslice (j_fo J + nat pos) nr (j_src J)) @ subslice (j_fo J + nat (pos + int nr)) l (j_src J)"
    "case err of None \<Rightarrow> l = n - nr \<and> (0 < n - nr \<longrightarrow> r_pos (w_reader w' (j_r J)) = pos + int nr + int (n - nr))
     | Some e \<Rightarrow> e \<in> wait_errors"
    using assms(1) by (auto simp: read_outcome_def res)
  have "j_fo J + nat (pos + int nr) = j_fo J + nat pos + nr" using assms(2) by (simp add: nat_add_distrib)
  then have "bs = acc @ subslice (j_fo J + nat pos) (nr + l) (j_src J)"
    unfolding l(2) by (simp add: add.assoc flip: subslice_append)
  moreover have "case err of None \<Rightarrow> nr + l = n \<and> (0 < n \<longrightarrow> r_pos (w_reader w' (j_r J)) = pos + int n)
      | Some e \<Rightarrow> e \<in> wait_errors"
    using l(1,3) assms(3,4) res by (cases err; cases "nr = n") (auto simp: of_nat_diff)
  ultimately show ?thesis
    using l(1) assms(3) by (auto simp: read_outcome_def res intro!: exI [of _ "nr + l"])
qed

lemma readLoop_bytes:
  assumes job: "job_ok tlen J"
  shows "serves J own w \<Longrightarrow> \<forall>e \<in> set env. keeps J (ev_run e) \<Longrightarrow> \<forall>g \<in> set gaps. gap_ok J g \<Longrightarrow>
    n = 0 \<longrightarrow> acc \<noteq> [] \<Longrightarrow> 0 \<le> pos \<Longrightarrow> pos + int n \<le> int (j_fs J) \<Longrightarrow>
    readLoop tlen io span (j_r J) gaps env now n pos acc w = Some res \<Longrightarrow> read_outcome J n pos acc res"
proof (induction gaps arbitrary: env now n pos acc w own)
  case Nil
  show ?case
  proof (cases "n = 0")
    case True
    with Nil show ?thesis by (auto simp: readLoop_zero readDone_def read_outcome_def subslice_def)
  next
    case False
    with readLoop_round [OF job Nil.prems(1-3) _ Nil.prems(5-7)] show ?thesis
      by (auto simp: round_result_def read_outcome_def subslice_def)
  qed
next
  case (Cons g gaps)
  show ?case
  proof (cases "n = 0")
    case True
    with Cons.prems show ?thesis by (auto simp: readLoop_zero readDone_def read_outcome_def subslice_def)
  next
    case False
    with readLoop_round [OF job Cons.prems(1-3) _ Cons.prems(5-7)] consider
        (stop) w' e where "res = (w', acc, Some e)" "e \<in> wait_errors"
      | (more) env' now' nr w' own' where "set env' \<subseteq> set env" "nr \<le> n" "serves J own' w'"
          "0 < nr \<longrightarrow> r_pos (w_reader w' (j_r J)) = pos + int nr"
          "readLoop tlen io span (j_r J) gaps env' now' (n - nr) (pos + int nr)
            (acc @ subslice (j_fo J + nat pos) nr (j_src J)) w' = Some res"
      unfolding round_result_def by blast
    then show ?thesis
    proof cases
      case stop
      then show ?thesis by (auto simp: read_outcome_def subslice_def)
    next
      case more
      let ?acc = "acc @ subslice (j_fo J + nat pos) nr (j_src J)"
      have "j_fo J + nat pos + nr \<le> length (j_src J)"
        using job Cons.prems(5,6) more(2) by (auto simp: job_ok_def)
      then have "length ?acc = length acc + nr" by simp
      then have ne: "n - nr = 0 \<longrightarrow> ?acc \<noteq> []" using False more(2) by (cases "?acc") auto
      have "nr = n \<longrightarrow> 0 < n \<longrightarrow> r_pos (w_reader (fst res) (j_r J)) = pos + int n"
        using more(4,5) by (auto simp: readLoop_zero readDone_def)
      moreover have "read_outcome J (n - nr) (pos + int nr) ?acc res"
        using more(1,2) Cons.prems(2,3,5,6)
        by (intro Cons.IH [OF more(3) _ _ ne _ _ more(5)]) (auto simp: of_nat_diff)
      ultimately show ?thesis by (intro read_outcome_step [OF _ Cons.prems(5) more(2)])
    qed
  qed
qed

section \<open>Reading resident data\<close>

definition all_resident :: "read_job \<Rightarrow> world \<Rightarrow> bool" where
  "all_resident J w \<longleftrightarrow>
     \<not> c_closed (w_cache w (j_c J)) \<and> \<not> r_closed (w_reader w (j_r J)) \<and>
     (\<forall>k<j_pc J. \<exists>m. map_of (c_pieces (w_cache w (j_c J))) (int k) = Some m \<and> IsComplete (w_mp w m))"

lemma UpdatePriorities_sel [simp]:
  "w_mp (UpdatePriorities c a b w) = w_mp w" "w_cache (UpdatePriorities c a b w) = w_cache w"
  "w_reader (UpdatePriorities c a b w) = w_reader w"
  by (simp_all add: UpdatePriorities_def Let_def split: option.split)

lemma prepareRound_resident:
  assumes s: "serves J own w" and res: "all_resident J w" and k: "k < j_pc J"
  shows "\<exists>w4. prepareRound io now (j_r J) (int k) sz span w = Inr w4 \<and> all_resident J w4 \<and>
    serves J own w4 \<and> w_mp w4 = w_mp w \<and> w_cache w4 = w_cache w"
proof -
  have c: "r_cache (w_reader w (j_r J)) = j_c J" and t: "r_torrent (w_reader w (j_r J)) = Some (j_t J)"
    using s by (simp_all add: serves_def fields_ok_def)
  obtain m where m: "map_of (c_pieces (w_cache w (j_c J))) (int k) = Some m" "IsComplete (w_mp w m)"
    using res k by (auto simp: all_resident_def)
  have g: "GetOrCreateMemPiece now (j_c J) (int k) sz w = (w, m)"
    using res m by (simp add: GetOrCreateMemPiece_def all_resident_def)
  have h: "hydrateIfNeeded io now (j_c J) (int k) m sz w = w"
    using m(2) by (simp add: hydrateIfNeeded_def IsComplete_def HasData_def split: option.split)
  let ?u = "UpdatePriorities (j_c J) (fst span) (snd span)
    (upd_reader (j_r J) (\<lambda>R. R\<lparr>r_lastPieceIdx := int k\<rparr>) w)"
  have "prepareRound io now (j_r J) (int k) sz span w =
      Inr (if int k \<noteq> r_lastPieceIdx (w_reader w (j_r J)) then ?u else w)"
    unfolding prepareRound_def Let_def c g prod.case h t option.case
    using res m(2) by (simp add: all_resident_def)
  moreover have "all_resident J ?u" using res by (simp add: all_resident_def)
  moreover have "serves J own ?u" using s by (intro serves_frame)
  ultimately show ?thesis using res s by auto
qed

lemma complete_ready: "IsComplete m \<Longrightarrow> hasRangeLocked off len m"
  by (simp add: IsComplete_def hasRangeLocked_def)

lemma readLoop_resident:
  assumes job: "job_ok tlen J"
  shows "serves J own w \<Longrightarrow> all_resident J w \<Longrightarrow> n \<le> N \<Longrightarrow> 0 \<le> pos \<Longrightarrow> pos + int n \<le> int (j_fs J) \<Longrightarrow>
    n = 0 \<longrightarrow> acc \<noteq> [] \<Longrightarrow>
    \<exists>w' bs. readLoop tlen io span (j_r J) (replicate N (\<lambda>w. w)) [] now n pos acc w = Some (w', bs, None)"
proof (induction N arbitrary: n pos acc w)
  case 0
  then show ?case by (auto simp: readLoop.simps readDone_def)
next
  case (Suc N)
  show ?case
  proof (cases "n = 0")
    case True
    with Suc.prems show ?thesis by (auto simp: readLoop.simps readDone_def)
  next
    case False
    obtain k off where loc: "locate tlen w (j_r J) pos = Some (int k, int off,
        int (length (j_piece J (int k))), int (length (j_piece J (int k)) - off))"
      and k: "k < j_pc J" and off: "off < length (j_piece J (int k))"
      using locate_ok [OF Suc.prems(1) job Suc.prems(4)] Suc.prems(5) False by auto
    let ?sz = "int (length (j_piece J (int k)))"
    define nr where "nr = min n (length (j_piece J (int k)) - off)"
    have nr: "0 < nr" "nr \<le> n" "off + nr \<le> length (j_piece J (int k))" using False off by (auto simp: nr_def)
    have toRead: "(if int (length (j_piece J (int k)) - off) < int n
        then int (length (j_piece J (int k)) - off) else int n) = int nr"
      by (simp add: nr_def)
    have rem: "\<not> int (length (j_piece J (int k)) - off) \<le> 0" using off by simp
    obtain w4 where p: "prepareRound io now (j_r J) (int k) ?sz span w = Inr w4"
      and r4: "all_resident J w4" and s4: "serves J own w4"
      using prepareRound_resident [OF Suc.prems(1,2) k] by blast
    obtain m where m: "map_of (c_pieces (w_cache w4 (j_c J))) (int k) = Some m" "IsComplete (w_mp w4 m)"
      using r4 k by (auto simp: all_resident_def)
    have c4: "r_cache (w_reader w4 (j_r J)) = j_c J" using s4 by (simp add: serves_def fields_ok_def)
    have own: "own m = Some (int k)" using s4 m(1) by (auto simp: serves_def map_ok_def dest: map_of_SomeD)
    have "GetOrCreateMemPiece now (j_c J) (int k) ?sz w4 = (w4, m)"
      using r4 m by (simp add: GetOrCreateMemPiece_def all_resident_def)
    then have wl: "waitLoop [] now (j_r J) (int k) ?sz (int off) (int nr) w4 = Some ([], now, w4, m, None)"
      using complete_ready [OF m(2)] by (simp add: waitLoop.simps c4 WaitRange_def)
    obtain mp where rd: "MemPiece_ReadAt now nr (int off) (w_mp w4 m) = (mp, subslice off nr (j_piece J (int k)), None)"
      using ready_read [OF serves_owned [OF s4 own] complete_ready [OF m(2)], of "int off" "int nr" now] nr by auto
    let ?w8 = "upd_reader (j_r J) (\<lambda>R. R\<lparr>r_pos := pos + int nr\<rparr>) (upd_mp m mp w4)"
    have mp: "IsComplete mp" "mp_holds (j_piece J (int k)) mp"
      using m(2) rd MemPiece_ReadAt_frame [of now nr "int off" "w_mp w4 m"]
        mp_holds_read [OF serves_owned [OF s4 own], of now nr "int off"] by (simp_all add: IsComplete_def)
    have "serves J own ?w8" using mp(2) own by (intro serves_frame serves_upd_mp [OF s4]) simp
    moreover have "all_resident J ?w8" using r4 mp(1) unfolding all_resident_def by auto
    moreover have len: "length (subslice off nr (j_piece J (int k))) = nr" using nr(3) by simp
    moreover have "subslice off nr (j_piece J (int k)) \<noteq> []" using len nr(1) by (metis less_irrefl list.size(3))
    ultimately have "\<exists>w' bs. readLoop tlen io span (j_r J) (replicate N (\<lambda>w. w)) [] now (n - nr) (pos + int nr)
        (acc @ subslice off nr (j_piece J (int k))) ?w8 = Some (w', bs, None)"
      using Suc.prems(3-5) nr by (intro Suc.IH) auto
    then show ?thesis
      unfolding replicate_Suc readLoop.simps [of tlen io span "j_r J" "(\<lambda>w. w) # replicate N (\<lambda>w. w)"]
        loc option.case prod.case Let_def toRead
      using False nr(1) len rem by (simp add: p wl rd)
  qed
qed

section \<open>Properties\<close>

lemma Reader_Read_bytes:
  assumes "job_ok tlen J" "serves J own w"
    and "\<forall>e \<in> set env. keeps J (ev_run e)" "\<forall>g \<in> set gaps. gap_ok J g"
    and "\<not> r_closed (w_reader w (j_r J))" "r_pos (w_reader w (j_r J)) = int pos" "pos < j_fs J" "0 < plen"
    and "Reader_Read tlen io (j_r J) gaps env now plen w = Some (w', bs, err)"
  shows "bs = subslice (j_fo J + pos) (length bs) (j_src J) \<and> length bs \<le> min plen (j_fs J - pos) \<and>
    (err = None \<longrightarrow> length bs = min plen (j_fs J - pos) \<and>
       r_pos (w_reader w' (j_r J)) = int (pos + length bs)) \<and>
    (\<forall>e. err = Some e \<longrightarrow> e \<in> {ErrReaderClosed, ErrReaderClosedDuringRead, ErrContext, ErrWaitTimeout,
       ErrDeadlineExceeded})"
proof -
  let ?n = "min plen (j_fs J - pos)"
  have fs: "r_fileSize (w_reader w (j_r J)) = int (j_fs J)"
    using assms(2) by (simp add: serves_def fields_ok_def)
  have "(if int (j_fs J) - int pos < int plen then nat (int (j_fs J) - int pos) else plen) = ?n"
    by (auto simp: min_def)
  with assms(5-9) fs have
    "readLoop tlen io (fileSpan w (j_r J)) (j_r J) gaps env now ?n (int pos) [] w = Some (w', bs, err)"
    by (simp add: Reader_Read_def Let_def split: if_splits)
  then have "read_outcome J ?n (int pos) [] (w', bs, err)"
    using assms(7,8) by (intro readLoop_bytes [OF assms(1-4)]) auto
  then obtain l where l: "l \<le> ?n" "bs = subslice (j_fo J + pos) l (j_src J)"
    "case err of None \<Rightarrow> l = ?n \<and> (0 < ?n \<longrightarrow> r_pos (w_reader w' (j_r J)) = int pos + int ?n)
     | Some e \<Rightarrow> e \<in> wait_errors"
    by (auto simp: read_outcome_def)
  have "length bs = l" using l(1,2) assms(1,7) by (auto simp: job_ok_def)
  with l assms(7,8) show ?thesis by (cases err) (auto simp: wait_errors_def)
qed

text \<open>
  C9. \<open>Reader.Read\<close> returns the file's bytes: whatever other goroutines do while it is parked and
  between its check and its copy (downloading, completing, evicting, reloading from disk), the bytes
  it returns are the file's bytes from its position on, in order; a return without an error fills the
  buffer (or reads up to the end of the file) and moves the position by exactly that much; and a
  return with an error is a close, a cancelled context, a deadline or a timeout, with a correct prefix.
\<close>

theorem read_returns_file_bytes:
  assumes "job_ok tlen J" "serves J own w"
    and "\<forall>e \<in> set env. keeps J (ev_run e)" "\<forall>g \<in> set gaps. gap_ok J g"
    and "\<not> r_closed (w_reader w (j_r J))" "r_pos (w_reader w (j_r J)) = int pos" "pos < j_fs J" "0 < plen"
    and "Reader_Read tlen io (j_r J) gaps env now plen w = Some (w', bs, err)"
  shows "bs = subslice (j_fo J + pos) (length bs) (j_src J) \<and> length bs \<le> min plen (j_fs J - pos) \<and>
    (err = None \<longrightarrow> length bs = min plen (j_fs J - pos) \<and>
       r_pos (w_reader w' (j_r J)) = int (pos + length bs)) \<and>
    (\<forall>e. err = Some e \<longrightarrow> e \<in> {ErrReaderClosed, ErrReaderClosedDuringRead, ErrContext, ErrWaitTimeout,
       ErrDeadlineExceeded})"
  by (rule Reader_Read_bytes [OF assms])

lemma Reader_Read_resident:
  assumes "job_ok tlen J" "serves J own w" "all_resident J w"
    and "r_pos (w_reader w (j_r J)) = int pos" "pos < j_fs J" "0 < plen" "plen \<le> N"
  shows "\<exists>w' bs. Reader_Read tlen io (j_r J) (replicate N (\<lambda>w. w)) [] now plen w = Some (w', bs, None)"
proof -
  let ?n = "min plen (j_fs J - pos)"
  have fs: "r_fileSize (w_reader w (j_r J)) = int (j_fs J)"
    using assms(2) by (simp add: serves_def fields_ok_def)
  have n: "(if int (j_fs J) - int pos < int plen then nat (int (j_fs J) - int pos) else plen) = ?n"
    by (auto simp: min_def)
  have "\<exists>w' bs. readLoop tlen io (fileSpan w (j_r J)) (j_r J) (replicate N (\<lambda>w. w)) [] now ?n (int pos) [] w
      = Some (w', bs, None)"
    using assms(5-7) by (intro readLoop_resident [OF assms(1-3)]) auto
  then show ?thesis
    unfolding Reader_Read_def Let_def fs assms(4) n using assms(3,5,6) by (simp add: all_resident_def)
qed

text \<open>The package's own operations are admissible changes: eviction, and block writes of true data.\<close>

lemma eviction_admissible: "gap_ok J evictGlobalIfNeeded"
proof -
  have "mp_data (w_mp (evictGlobalIfNeeded w) m) = None \<or> w_mp (evictGlobalIfNeeded w) m = w_mp w m" for w m
  proof -
    have "mp_data (w_mp (range_while more evictCandidate xs w) m) = None \<or>
        w_mp (range_while more evictCandidate xs w) m = w_mp w m" for more xs
      by (rule range_while_invariant [where P = "\<lambda>v. mp_data (w_mp v m) = None \<or> w_mp v m = w_mp w m"])
        (auto simp: evictCandidate_def evictPiece_def Let_def ReleaseAndSize_def wake_def)
    then show ?thesis by (simp add: evictGlobalIfNeeded_def Let_def)
  qed
  moreover have "keeps J evictGlobalIfNeeded"
  proof -
    have "serves J own (evictGlobalIfNeeded w)" if "serves J own w" for own w
      using that by (simp add: evictGlobalIfNeeded_def Let_def range_while_invariant evictCandidate_def evictPiece_serves)
    then show ?thesis unfolding keeps_def by (metis map_le_refl)
  qed
  ultimately show ?thesis unfolding gap_ok_def by metis
qed

lemma download_admissible:
  assumes "0 \<le> idx" "block_write (j_piece J idx) off buf"
  shows "keeps J (\<lambda>w. fst (Piece_WriteAt now \<lparr>p_index = idx, p_size = int (length (j_piece J idx)), p_cache = j_c J\<rparr> buf off w))"
  unfolding keeps_def
proof (intro allI impI)
  fix own w assume s: "serves J own w"
  obtain w1 m where g: "GetOrCreateMemPiece now (j_c J) idx (int (length (j_piece J idx))) w = (w1, m)" by fastforce
  obtain own' where o: "own \<subseteq>\<^sub>m own'" "serves J own' w1" "own' m = Some idx"
    using serves_getOrCreate [OF s g refl] by blast
  obtain mp n err where wr: "MemPiece_WriteAt now buf off (w_mp w1 m) = (mp, n, err)" by (rule prod_cases3)
  have "mp_holds (j_piece J idx) mp"
    using mp_holds_write [OF serves_owned [OF o(2,3)] assms(2), of now] wr by simp
  then have "serves J own' (upd_mp m mp w1)" using o(3) by (intro serves_upd_mp [OF o(2)]) simp
  then show "\<exists>own'. own \<subseteq>\<^sub>m own' \<and> serves J own'
      (fst (Piece_WriteAt now \<lparr>p_index = idx, p_size = int (length (j_piece J idx)), p_cache = j_c J\<rparr> buf off w))"
    using o(1) by (auto simp: Piece_WriteAt_def g wr Let_def intro: serves_frame(2))
qed

lemma gap_ok_id: "gap_ok J (\<lambda>w. w)"
  unfolding gap_ok_def keeps_def by (metis map_le_refl)

text \<open>A concrete read: six bytes in pieces of four and two, both resident.\<close>

definition demo_reader :: world where
  "demo_reader = fst (NewReader (Some 7) 0 0 6 ClassPlayback None demo_full)"

definition demo_job :: read_job where
  "demo_job = \<lparr>j_pl = 4, j_pc = 2, j_src = [1, 2, 3, 4, 5, 6], j_c = 0, j_r = 0, j_fo = 0, j_fs = 6, j_t = 7\<rparr>"

lemma demo_pieces: "src_piece 4 [1, 2, 3, 4, 5, 6] 0 = [1, 2, 3, 4]" "src_piece 4 [1, 2, 3, 4, 5, 6] 1 = [5, 6]"
  by (simp_all add: src_piece_def piece_at_def piece_bytes_def subslice_def)

lemma demo_reader_sel:
  "w_mp demo_reader = w_mp demo_full" "w_nextMp demo_reader = Suc (Suc 0)" "w_fs demo_reader = Map.empty"
  "c_pieces (w_cache demo_reader 0) = [(1, 0), (0, Suc 0)]" "c_disk (w_cache demo_reader 0) = None"
  "c_pieceLen (w_cache demo_reader 0) = 4" "c_pieceCount (w_cache demo_reader 0) = 2"
  "\<not> c_closed (w_cache demo_reader 0)"
  "w_reader demo_reader 0 = \<lparr>r_torrent = Some 7, r_cache = 0, r_fileOffset = 0, r_fileSize = 6, r_pos = 0,
     r_closed = False, r_lastPieceIdx = -1, r_class = ClassPlayback, r_waitDeadline = None\<rparr>"
  by (simp_all add: demo_reader_def NewReader_def RegisterReader_def demo_full_eq Let_def)

lemma demo_job_ok: "job_ok (\<lambda>_. 6) demo_job"
  by (simp add: job_ok_def demo_job_def geometry_def)

lemma demo_serves: "serves demo_job [0 \<mapsto> 1, Suc 0 \<mapsto> 0] demo_reader"
proof -
  have "block_agrees src src k" for src k by simp
  then show ?thesis
    by (simp add: serves_def buffers_ok_def map_ok_def disk_ok_def fields_ok_def demo_job_def demo_reader_sel
        demo_pieces mp_holds_def demo_full_eq)
qed

lemma demo_resident: "all_resident demo_job demo_reader"
  by (simp add: all_resident_def demo_job_def demo_reader_sel demo_full_eq IsComplete_def less_2_cases_iff
      numeral_2_eq_2 less_Suc_eq)

theorem read_returns_file_bytes_witness:
  "\<exists>w' bs. Reader_Read (\<lambda>_. 6) no_faults 0 (replicate 6 (\<lambda>w. w)) [] 9 6 demo_reader = Some (w', bs, None) \<and>
     bs = [1, 2, 3, 4, 5, 6] \<and> r_pos (w_reader w' 0) = 6"
proof -
  have j: "j_r demo_job = 0" "j_fs demo_job = 6" "j_fo demo_job = 0" "j_src demo_job = [1, 2, 3, 4, 5, 6]"
    by (simp_all add: demo_job_def)
  obtain w' bs where r: "Reader_Read (\<lambda>_. 6) no_faults (j_r demo_job) (replicate 6 (\<lambda>w. w)) [] 9 6 demo_reader
      = Some (w', bs, None)"
    using Reader_Read_resident [OF demo_job_ok demo_serves demo_resident, of 0 6 6 no_faults 9] by (auto simp: j demo_reader_sel)
  have "bs = subslice (j_fo demo_job + 0) (length bs) (j_src demo_job) \<and> length bs \<le> min 6 (j_fs demo_job - 0) \<and>
      ((None :: go_error option) = None \<longrightarrow> length bs = min 6 (j_fs demo_job - 0) \<and>
         r_pos (w_reader w' (j_r demo_job)) = int (0 + length bs)) \<and>
      (\<forall>e. (None :: go_error option) = Some e \<longrightarrow>
         e \<in> {ErrReaderClosed, ErrReaderClosedDuringRead, ErrContext, ErrWaitTimeout, ErrDeadlineExceeded})"
    by (rule read_returns_file_bytes [OF demo_job_ok demo_serves _ _ _ _ _ _ r])
      (simp_all add: j demo_reader_sel gap_ok_id)
  then have len: "length bs = 6" and bs: "bs = subslice 0 (length bs) [1, 2, 3, 4, 5, 6]"
    and pos: "r_pos (w_reader w' 0) = 6"
    unfolding j by auto
  from bs have "bs = [1, 2, 3, 4, 5, 6]" unfolding len by (simp add: subslice_def)
  with r pos show ?thesis by (simp add: j)
qed

text \<open>
  A read over resident pieces returns: if every piece is complete in memory and nobody interferes,
  \<open>Reader.Read\<close> returns without parking, without an error, and with the requested bytes.
\<close>

theorem resident_read_returns:
  assumes "job_ok tlen J" "serves J own w" "all_resident J w"
    and "r_pos (w_reader w (j_r J)) = int pos" "pos < j_fs J" "0 < plen" "plen \<le> N"
  shows "\<exists>w' bs. Reader_Read tlen io (j_r J) (replicate N (\<lambda>w. w)) [] now plen w = Some (w', bs, None)"
  by (rule Reader_Read_resident [OF assms])

theorem resident_read_returns_witness:
  "\<exists>w' bs. Reader_Read (\<lambda>_. 6) no_faults 0 (replicate 6 (\<lambda>w. w)) [] 9 6 demo_reader = Some (w', bs, None)"
  using resident_read_returns [OF demo_job_ok demo_serves demo_resident, of 0 6 6 no_faults 9]
  by (simp add: demo_job_def demo_reader_sel)

end
