(* ===== verification/Waiting.thy ===== *)
theory Waiting
  imports Reader
begin

text \<open>
  The two loops that wait for whole pieces: \<open>Cache.WaitForPieces\<close> and \<open>Cache.Preload\<close>
  (\<^verbatim>\<open>storage/preload.go\<close>). As in the reader, the wake-ups of a \<open>select\<close> are an argument: a
  \<open>PieceEvent\<close> is the piece's done channel, anything else the timer.
\<close>

section \<open>Operations\<close>

fun WaitForPieces ::
  "wake_event list \<Rightarrow> time_ns \<Rightarrow> time_ns \<Rightarrow> ref \<Rightarrow> int list \<Rightarrow> int \<Rightarrow> world \<Rightarrow> (world \<times> go_error option) option"
where
  "WaitForPieces env now deadline c [] totalLength w = Some (w, None)"
| "WaitForPieces env now deadline c (idx # indices) totalLength w =
     (let C = w_cache w c
      in if idx < 0 \<or> c_pieceCount C \<le> idx then WaitForPieces env now deadline c indices totalLength w
         else
           let sz = (if idx = c_pieceCount C - 1 then totalLength - idx * c_pieceLen C else c_pieceLen C);
               (w1, m) = GetOrCreateMemPiece now c idx sz w
           in if deadline - now \<le> 0 then Some (w1, Some ErrDeadlineExceeded)
              else if mp_doneClosed (w_mp w1 m)
              then WaitForPieces env now deadline c indices totalLength w1
              else case env of
                     [] \<Rightarrow> None
                   | e # env' \<Rightarrow>
                       if ev_cause e = PieceEvent
                       then WaitForPieces env' (ev_now e) deadline c indices totalLength (ev_run e w1)
                       else Some (ev_run e w1, Some ErrDeadlineExceeded))"

text \<open>
  One wait of the preload: fifteen seconds for the piece; a timeout is logged and ignored.
\<close>

definition preloadWait ::
  "ref \<Rightarrow> int \<Rightarrow> int \<Rightarrow> wake_event list \<times> time_ns \<times> world \<Rightarrow> (wake_event list \<times> time_ns \<times> world) option"
where
  "preloadWait c totalLength idx st =
     (case st of (env, now, w) \<Rightarrow>
        let (w1, m) = GetOrCreateMemPiece now c idx (getPieceSize idx totalLength (w_cache w c)) w
        in if mp_doneClosed (w_mp w1 m) then Some (env, now, w1)
           else case env of [] \<Rightarrow> None | e # env' \<Rightarrow> Some (env', ev_now e, ev_run e w1))"

fun preloadWaits ::
  "ref \<Rightarrow> int \<Rightarrow> int list \<Rightarrow> wake_event list \<times> time_ns \<times> world \<Rightarrow> (wake_event list \<times> time_ns \<times> world) option"
where
  "preloadWaits c totalLength [] st = Some st"
| "preloadWaits c totalLength (idx # idxs) st =
     (case preloadWait c totalLength idx st of
        None \<Rightarrow> None | Some st' \<Rightarrow> preloadWaits c totalLength idxs st')"

record preload_plan =
  pp_start :: "int list"
  pp_last :: "int list"

definition preloadPlan :: "cache \<Rightarrow> int \<Rightarrow> int \<Rightarrow> int \<Rightarrow> preload_plan" where
  "preloadPlan C fileOffset fileLength sz =
     (let end0 = fileOffset + sz;
          preloadEndOffset = (if fileOffset + fileLength < end0 then fileOffset + fileLength else end0);
          startPiece = fileOffset sdiv c_pieceLen C;
          endPiece = (preloadEndOffset - 1) sdiv c_pieceLen C;
          lastPiece = (fileOffset + fileLength - 1) sdiv c_pieceLen C
      in \<lparr>pp_start = [i \<leftarrow> [startPiece..endPiece]. i < c_pieceCount C],
          pp_last =
            (if 0 \<le> lastPiece \<and> lastPiece < c_pieceCount C
             then lastPiece # (if startPiece \<le> lastPiece - 1 then [lastPiece - 1] else []) else [])\<rparr>)"

definition Preload ::
  "ref \<Rightarrow> int \<Rightarrow> int \<Rightarrow> int \<Rightarrow> int \<Rightarrow> ref \<Rightarrow> wake_event list \<Rightarrow> time_ns \<Rightarrow> world \<Rightarrow>
    (wake_event list \<times> time_ns \<times> world) option"
where
  "Preload t totalLength fileOffset fileLength sz c env now w =
     (let plan = preloadPlan (w_cache w c) fileOffset fileLength sz;
          w1 = call_client (map (\<lambda>i. SetPriority t i PiecePriorityNow) (pp_start plan @ pp_last plan)) w
      in preloadWaits c totalLength (pp_start plan @ pp_last plan) (env, now, w1))"

section \<open>Lemmas\<close>

lemma preloadWaits_enough:
  "length idxs \<le> length env \<Longrightarrow>
    \<exists>env' now' w'. preloadWaits c tot idxs (env, now, w) = Some (env', now', w') \<and>
      length env \<le> length env' + length idxs"
proof (induction idxs arbitrary: env now w)
  case Nil
  then show ?case by simp
next
  case (Cons i idxs)
  then obtain e es where env: "env = e # es" by (cases env) auto
  obtain w1 m where g: "GetOrCreateMemPiece now c i (getPieceSize i tot (w_cache w c)) w = (w1, m)" by fastforce
  show ?case
  proof (cases "mp_doneClosed (w_mp w1 m)")
    case True
    with Cons.IH [of env now w1] Cons.prems g show ?thesis by (auto simp: preloadWait_def)
  next
    case False
    with Cons.IH [of es "ev_now e" "ev_run e w1"] Cons.prems g env show ?thesis
      by (auto simp: preloadWait_def)
  qed
qed

lemma getOrCreate_new:
  assumes "\<not> c_closed (w_cache w c)" "idx \<notin> fst ` set (c_pieces (w_cache w c))"
    and "GetOrCreateMemPiece now c idx sz w = (w1, m)"
  shows "\<not> mp_doneClosed (w_mp w1 m)"
  using assms
  by (auto simp: GetOrCreateMemPiece_def Let_def alloc_mp_def NewMemPiece_def map_of_eq_None_iff [symmetric]
      split: option.splits)

section \<open>Properties\<close>



text \<open>
  Waiting for a piece does not look at the disk: a piece that is persisted, and that
  \<open>Completion\<close> therefore reports as complete (so the client never downloads it again), but that was
  evicted from memory, is waited for until the deadline.
\<close>

lemma wait_ignores_disk:
  assumes "c_disk (w_cache w c) = Some d" "Has idx d" "\<not> c_closed (w_cache w c)"
    and "idx \<notin> fst ` set (c_pieces (w_cache w c))"
    and "0 \<le> idx" "idx < c_pieceCount (w_cache w c)" "now < deadline" "ev_cause e = TimerEvent"
  shows "pieceComplete c idx w \<and>
    (\<exists>w'. WaitForPieces (e # env) now deadline c (idx # rest) tot w = Some (w', Some ErrDeadlineExceeded))"
proof -
  let ?sz = "if idx = c_pieceCount (w_cache w c) - 1 then tot - idx * c_pieceLen (w_cache w c)
    else c_pieceLen (w_cache w c)"
  obtain w1 m where g: "GetOrCreateMemPiece now c idx ?sz w = (w1, m)" by fastforce
  have "\<not> mp_doneClosed (w_mp w1 m)" by (rule getOrCreate_new [OF assms(3,4) g])
  with g assms(5-8) have "WaitForPieces (e # env) now deadline c (idx # rest) tot w
      = Some (ev_run e w1, Some ErrDeadlineExceeded)"
    by (simp add: Let_def)
  moreover have "pieceComplete c idx w" using assms(1,2) by (simp add: pieceComplete_def)
  ultimately show ?thesis by blast
qed

lemma wait_ignores_disk_witness:
  "\<exists>w w'. pieceComplete 0 1 w \<and>
     WaitForPieces [\<lparr>ev_run = id, ev_now = 5, ev_cause = TimerEvent\<rparr>] 0 5 0 [1] 6 w
       = Some (w', Some ErrDeadlineExceeded)"
proof -
  let ?d = "\<lparr>d_open = True, d_dataPath = ''x'', d_bitmapPath = ''y'', d_pieceLen = 4, d_pieceCount = 2,
    d_have = [False, True]\<rparr>"
  let ?w = "upd_cache 0 (\<lambda>C. C\<lparr>c_disk := Some ?d\<rparr>) demo_open"
  have s: "\<not> c_closed (w_cache ?w 0)" "1 \<notin> fst ` set (c_pieces (w_cache ?w 0))" "c_pieceCount (w_cache ?w 0) = 2"
    "c_disk (w_cache ?w 0) = Some ?d"
    by (simp_all add: demo_open_def OpenTorrent_def NewStorage_def NewCache_def Let_def)
  have "Has 1 ?d" by (simp add: Has_def)
  then have "pieceComplete 0 1 ?w \<and> (\<exists>w'. WaitForPieces [\<lparr>ev_run = id, ev_now = 5, ev_cause = TimerEvent\<rparr>] 0 5 0 [1] 6 ?w
      = Some (w', Some ErrDeadlineExceeded))"
    using s(3) by (intro wait_ignores_disk [OF s(4) _ s(1,2)]) simp_all
  then show ?thesis by blast
qed

end
