(* ===== verification/MediaCaches.thy ===== *)
theory MediaCaches
  imports Prelude "HOL-Library.Sublist" "HOL-Library.Multiset"
begin

text \<open>
  The two caches of produced media: the byte-bounded LRU of HLS segments (\<^verbatim>\<open>handlers/hlscache.go\<close>)
  and the count-bounded LRU of thumbnails with a time to live (\<^verbatim>\<open>handlers/thumbnails.go\<close>). Both keep
  a map and a recency list in step. The contract they share, that a hit is never stale, is a locale
  both are interpreted in.
\<close>

section \<open>Interface: a cache is a lossy map\<close>

text \<open>
  What a cache promises its clients: every operation takes a state whose entries are entries of the
  map a client has built with the same operations to such a state again. Entries may be lost, none
  is ever stale.
\<close>

locale lossy_map =
  fixes inv :: "'s \<Rightarrow> bool"
    and look :: "'s \<Rightarrow> 'k \<rightharpoonup> 'v"
    and step :: "'op \<Rightarrow> 's \<Rightarrow> 's"
    and spec :: "'op \<Rightarrow> ('k \<rightharpoonup> 'v) \<Rightarrow> 'k \<rightharpoonup> 'v"
  assumes step_inv: "inv s \<Longrightarrow> inv (step op s)"
    and step_sim: "inv s \<Longrightarrow> look s \<subseteq>\<^sub>m m \<Longrightarrow> look (step op s) \<subseteq>\<^sub>m spec op m"
begin

lemma run_inv: "inv s \<Longrightarrow> inv (fold step ops s)"
  by (induction ops arbitrary: s) (auto intro: step_inv)

lemma run_sim: "inv s \<Longrightarrow> look s \<subseteq>\<^sub>m m \<Longrightarrow> look (fold step ops s) \<subseteq>\<^sub>m fold spec ops m"
  by (induction ops arbitrary: s m) (auto intro: step_inv step_sim)

lemma hit_is_current:
  assumes "inv s" "look s = Map.empty" "look (fold step ops s) k = Some v"
  shows "fold spec ops Map.empty k = Some v"
proof -
  have "look (fold step ops s) \<subseteq>\<^sub>m fold spec ops Map.empty"
    using assms(1,2) by (intro run_sim) simp_all
  with assms(3) show ?thesis by (force simp: map_le_def)
qed

end

section \<open>The segment cache\<close>

record seg_cache =
  sc_ready :: bool
  sc_maxBytes :: int
  sc_curBytes :: int
  sc_ll :: "string list"
  sc_items :: "(string \<times> byte list) list"

definition defaultSegCacheBytes :: int where
  "defaultSegCacheBytes = 512 * 2 ^ 20"

definition new_seg_cache :: "int \<Rightarrow> seg_cache" where
  "new_seg_cache maxBytes =
     \<lparr>sc_ready = False, sc_maxBytes = maxBytes, sc_curBytes = 0, sc_ll = [], sc_items = []\<rparr>"

definition seg_ensure :: "seg_cache \<Rightarrow> seg_cache" where
  "seg_ensure c =
     (if sc_ready c then c
      else c\<lparr>sc_ready := True, sc_ll := [], sc_items := [],
             sc_maxBytes := (if sc_maxBytes c = 0 then defaultSegCacheBytes else sc_maxBytes c)\<rparr>)"

definition seg_stats :: "seg_cache \<Rightarrow> int \<times> int \<times> int" where
  "seg_stats c = (sc_curBytes c, int (length (sc_items c)), sc_maxBytes c)"

definition move_front :: "string \<Rightarrow> string list \<Rightarrow> string list" where
  "move_front k ll = k # remove1 k ll"

definition seg_get :: "string \<Rightarrow> seg_cache \<Rightarrow> seg_cache \<times> byte list option" where
  "seg_get key c0 =
     (let c = seg_ensure c0
      in case map_of (sc_items c) key of
           Some d \<Rightarrow> (c\<lparr>sc_ll := move_front key (sc_ll c)\<rparr>, Some d)
         | None \<Rightarrow> (c, None))"

definition seg_dropBack :: "seg_cache \<Rightarrow> seg_cache" where
  "seg_dropBack c =
     (let k = last (sc_ll c); d = (case map_of (sc_items c) k of None \<Rightarrow> [] | Some d \<Rightarrow> d)
      in c\<lparr>sc_curBytes := sc_curBytes c - int (length d), sc_ll := butlast (sc_ll c),
           sc_items := AList.delete k (sc_items c)\<rparr>)"

function seg_trim :: "seg_cache \<Rightarrow> seg_cache" where
  "seg_trim c =
     (if sc_maxBytes c < sc_curBytes c \<and> 1 < length (sc_ll c) then seg_trim (seg_dropBack c) else c)"
  by pat_completeness auto
termination
  by (relation "measure (\<lambda>c. length (sc_ll c))") (auto simp: seg_dropBack_def Let_def)

declare seg_trim.simps [simp del]

definition seg_purge_one :: "string \<Rightarrow> string \<times> byte list \<Rightarrow> seg_cache \<Rightarrow> seg_cache" where
  "seg_purge_one pre e c =
     (if prefix pre (fst e)
      then c\<lparr>sc_curBytes := sc_curBytes c - int (length (snd e)), sc_ll := remove1 (fst e) (sc_ll c),
             sc_items := AList.delete (fst e) (sc_items c)\<rparr>
      else c)"

definition seg_purgePrefix :: "string \<Rightarrow> seg_cache \<Rightarrow> seg_cache" where
  "seg_purgePrefix pre c0 =
     (let c = seg_ensure c0 in fold (seg_purge_one pre) (sc_items c) c)"

definition seg_bytes :: "seg_cache \<Rightarrow> int" where
  "seg_bytes c = sum_al (\<lambda>d. int (length d)) (sc_items c)"

definition seg_inv :: "seg_cache \<Rightarrow> bool" where
  "seg_inv c \<longleftrightarrow> distinct (sc_ll c) \<and> distinct (map fst (sc_items c)) \<and>
     set (sc_ll c) = fst ` set (sc_items c) \<and> sc_curBytes c = seg_bytes c \<and>
     (\<not> sc_ready c \<longrightarrow> sc_items c = [])"

definition seg_look :: "seg_cache \<Rightarrow> string \<rightharpoonup> byte list" where
  "seg_look c = map_of (sc_items c)"

lemma seg_inv_new: "seg_inv (new_seg_cache n)"
  by (simp add: seg_inv_def new_seg_cache_def seg_bytes_def)

lemma seg_ensure_inv: "seg_inv c \<Longrightarrow> seg_inv (seg_ensure c)"
  by (auto simp: seg_inv_def seg_ensure_def seg_bytes_def)

lemma seg_ensure_look: "seg_inv c \<Longrightarrow> seg_look (seg_ensure c) = seg_look c"
  by (auto simp: seg_inv_def seg_ensure_def seg_look_def)

lemma sum_al_update:
  assumes "distinct (map fst al)"
  shows "sum_al f (AList.update k v al) =
    sum_al f al + f v - (case map_of al k of None \<Rightarrow> 0 | Some v' \<Rightarrow> f v')"
  using assms by (induction al) auto

lemma seg_dropBack_inv:
  assumes "seg_inv c" "1 < length (sc_ll c)"
  shows "seg_inv (seg_dropBack c)"
proof -
  let ?k = "last (sc_ll c)"
  have ne: "sc_ll c \<noteq> []" using assms(2) by auto
  then have "?k \<in> set (sc_ll c)" by simp
  then obtain d where d: "map_of (sc_items c) ?k = Some d"
    using assms(1) by (auto simp: seg_inv_def) (metis map_of_eq_None_iff not_Some_eq image_eqI fst_conv)
  have "sc_ll c = butlast (sc_ll c) @ [?k]" using ne by simp
  then have bl: "distinct (butlast (sc_ll c))" "set (butlast (sc_ll c)) = set (sc_ll c) - {?k}"
    using assms(1) unfolding seg_inv_def by (metis distinct_butlast, metis Diff_insert_absorb Un_insert_right distinct.simps(2) distinct_append list.set(1) list.set(2) not_distinct_conv_prefix set_append sup_bot.right_neutral disjoint_insert(1))
  show ?thesis
    using assms(1) bl d
    by (auto simp: seg_inv_def seg_dropBack_def Let_def seg_bytes_def sum_al_delete set_delete_eq)
qed

lemma seg_dropBack_look: "seg_look (seg_dropBack c) = (seg_look c)(last (sc_ll c) := None)"
  by (simp add: seg_look_def seg_dropBack_def Let_def delete_conv')

lemma seg_dropBack_max [simp]: "sc_maxBytes (seg_dropBack c) = sc_maxBytes c"
  by (simp add: seg_dropBack_def Let_def)

lemma seg_dropBack_le: "seg_look (seg_dropBack c) \<subseteq>\<^sub>m seg_look c"
  by (simp only: seg_dropBack_look upd_None_map_le)

text \<open>The eviction loop: what it keeps and where it stops.\<close>

lemma seg_trim_props:
  assumes "seg_inv c"
  shows "seg_inv (seg_trim c)"
    and "seg_look (seg_trim c) \<subseteq>\<^sub>m seg_look c"
    and "sc_curBytes (seg_trim c) \<le> sc_maxBytes (seg_trim c) \<or> length (sc_ll (seg_trim c)) \<le> 1"
    and "sc_maxBytes (seg_trim c) = sc_maxBytes c"
    and "\<exists>n. sc_ll (seg_trim c) = take n (sc_ll c) \<and> (sc_ll c \<noteq> [] \<longrightarrow> 0 < n)"
  using assms
proof (induction c rule: seg_trim.induct)
  case (1 c)
  let ?go = "sc_maxBytes c < sc_curBytes c \<and> 1 < length (sc_ll c)"
  { case 1 with "1.IH" show ?case
      by (subst seg_trim.simps) (auto simp: seg_dropBack_inv) }
  { case 2 with "1.IH"(2) show ?case
      by (subst seg_trim.simps)
        (auto simp: seg_dropBack_inv intro: map_le_trans [OF _ seg_dropBack_le]) }
  { case 3 with "1.IH"(3) show ?case
      by (subst (1 2 3) seg_trim.simps) (auto simp: seg_dropBack_inv) }
  { case 4 with "1.IH"(4) show ?case
      by (subst seg_trim.simps) (auto simp: seg_dropBack_inv) }
  { case 5
    show ?case
    proof (cases ?go)
      case True
      from "1.IH"(5) [OF True] 5 True obtain n where
        n: "sc_ll (seg_trim (seg_dropBack c)) = take n (sc_ll (seg_dropBack c))"
        "sc_ll (seg_dropBack c) \<noteq> [] \<longrightarrow> 0 < n" by (auto simp: seg_dropBack_inv)
      have bl: "sc_ll (seg_dropBack c) = take (length (sc_ll c) - 1) (sc_ll c)"
        by (simp add: seg_dropBack_def Let_def butlast_conv_take)
      moreover from bl True have "sc_ll (seg_dropBack c) \<noteq> []" by auto
      moreover from True have "seg_trim c = seg_trim (seg_dropBack c)"
        by (subst seg_trim.simps) simp
      ultimately show ?thesis using n True
        by (intro exI [of _ "min n (length (sc_ll c) - 1)"]) (auto simp: take_take)
    next
      case False
      then show ?thesis
        by (subst seg_trim.simps, intro exI [of _ "length (sc_ll c)"]) auto
    qed }
qed

definition seg_insert :: "string \<Rightarrow> byte list \<Rightarrow> seg_cache \<Rightarrow> seg_cache" where
  "seg_insert key data c =
     (case map_of (sc_items c) key of
        Some d \<Rightarrow>
          c\<lparr>sc_curBytes := sc_curBytes c + int (length data) - int (length d),
            sc_items := AList.update key data (sc_items c), sc_ll := move_front key (sc_ll c)\<rparr>
      | None \<Rightarrow>
          c\<lparr>sc_ll := key # sc_ll c, sc_items := AList.update key data (sc_items c),
            sc_curBytes := sc_curBytes c + int (length data)\<rparr>)"

definition seg_put :: "string \<Rightarrow> byte list \<Rightarrow> seg_cache \<Rightarrow> seg_cache" where
  "seg_put key data c = seg_trim (seg_insert key data (seg_ensure c))"

lemma seg_ensure_ready [simp]: "sc_ready (seg_ensure c)"
  by (simp add: seg_ensure_def)

lemma seg_insert_inv: "seg_inv c \<Longrightarrow> sc_ready c \<Longrightarrow> seg_inv (seg_insert key data c)"
  using map_of_eq_None_iff [of "sc_items c" key]
  by (cases "map_of (sc_items c) key")
    (auto simp: seg_inv_def seg_insert_def seg_bytes_def move_front_def sum_al_update distinct_update
      dom_update)

lemma seg_insert_look: "seg_look (seg_insert key data c) = (seg_look c)(key \<mapsto> data)"
  by (auto simp: seg_look_def seg_insert_def update_conv' split: option.splits)

lemma seg_insert_front: "\<exists>ks. sc_ll (seg_insert key data c) = key # ks"
  by (auto simp: seg_insert_def move_front_def split: option.splits)

lemma seg_put_inv: "seg_inv c \<Longrightarrow> seg_inv (seg_put key data c)"
  by (simp add: seg_put_def seg_trim_props seg_insert_inv seg_ensure_inv)

lemma seg_put_le:
  assumes "seg_inv c"
  shows "seg_look (seg_put key data c) \<subseteq>\<^sub>m (seg_look c)(key \<mapsto> data)"
  using seg_trim_props(2) [OF seg_insert_inv [OF seg_ensure_inv [OF assms] seg_ensure_ready]]
  by (simp add: seg_put_def seg_insert_look seg_ensure_look assms)

text \<open>The entry just stored is never the victim.\<close>

lemma seg_put_look:
  assumes "seg_inv c"
  shows "seg_look (seg_put key data c) key = Some data"
proof -
  let ?c = "seg_insert key data (seg_ensure c)"
  have inv: "seg_inv ?c" by (intro seg_insert_inv seg_ensure_inv assms seg_ensure_ready)
  obtain ks where ks: "sc_ll ?c = key # ks" using seg_insert_front by blast
  then obtain n where "0 < n" "sc_ll (seg_trim ?c) = take n (key # ks)"
    using seg_trim_props(5) [OF inv] by auto
  then have "key \<in> set (sc_ll (seg_put key data c))"
    by (cases n) (simp_all add: seg_put_def)
  then have "key \<in> dom (seg_look (seg_put key data c))"
    using seg_put_inv [OF assms, of key data]
    by (auto simp: seg_inv_def seg_look_def dom_map_of_conv_image_fst)
  then show ?thesis
    using seg_put_le [OF assms, of key data] by (auto simp: map_le_def)
qed

lemma seg_get_inv: "seg_inv c \<Longrightarrow> seg_inv (fst (seg_get key c))"
  using seg_ensure_inv [of c]
  by (auto simp: seg_get_def Let_def seg_inv_def seg_bytes_def move_front_def
      dest: map_of_SomeD intro: rev_image_eqI split: option.splits)

lemma seg_get_look:
  assumes "seg_inv c"
  shows "seg_look (fst (seg_get key c)) = seg_look c" "snd (seg_get key c) = seg_look c key"
  using seg_ensure_look [OF assms]
  by (auto simp: seg_get_def Let_def seg_look_def split: option.splits)

lemma seg_purge_fold:
  assumes "distinct (map fst al)" "seg_inv c" "sc_ready c" "\<And>k d. (k, d) \<in> set al \<Longrightarrow> map_of (sc_items c) k = Some d"
  shows "seg_inv (fold (seg_purge_one pre) al c) \<and>
    seg_look (fold (seg_purge_one pre) al c) = (\<lambda>k. if prefix pre k \<and> k \<in> fst ` set al then None else seg_look c k)"
  using assms(1-4)
proof (induction al arbitrary: c)
  case (Cons kd al)
  obtain k d where kd: "kd = (k, d)" by force
  have mk: "map_of (sc_items c) k = Some d" using Cons.prems(4) kd by simp
  have "seg_inv (seg_purge_one pre kd c)"
    using Cons.prems(2) mk
    by (auto simp: seg_purge_one_def kd seg_inv_def seg_bytes_def sum_al_delete set_delete_eq)
  moreover have "sc_ready (seg_purge_one pre kd c)" using Cons.prems(3) by (simp add: seg_purge_one_def kd)
  moreover have "map_of (sc_items (seg_purge_one pre kd c)) k' = Some d'" if "(k', d') \<in> set al" for k' d'
  proof -
    have "k' \<noteq> k" using Cons.prems(1) that kd by force
    then show ?thesis using Cons.prems(4) [of k' d'] that by (simp add: seg_purge_one_def kd delete_conv')
  qed
  ultimately have "seg_inv (fold (seg_purge_one pre) al (seg_purge_one pre kd c)) \<and> seg_look (fold (seg_purge_one pre) al (seg_purge_one pre kd c)) =
    (\<lambda>k. if prefix pre k \<and> k \<in> fst ` set al then None else seg_look (seg_purge_one pre kd c) k)"
    using Cons.prems(1) by (intro Cons.IH) auto
  moreover have "seg_look (seg_purge_one pre kd c) = (\<lambda>k'. if prefix pre k \<and> k' = k then None else seg_look c k')"
    by (auto simp: seg_purge_one_def kd seg_look_def delete_conv' fun_eq_iff)
  ultimately show ?case by (auto simp: kd)
qed (simp add: assms)

lemma seg_purgePrefix_props:
  assumes "seg_inv c"
  shows "seg_inv (seg_purgePrefix pre c)"
    and "seg_look (seg_purgePrefix pre c) = (\<lambda>k. if prefix pre k then None else seg_look c k)"
proof -
  let ?c = "seg_ensure c"
  have inv: "seg_inv ?c" and d: "distinct (map fst (sc_items ?c))"
    using seg_ensure_inv [OF assms] by (auto simp: seg_inv_def)
  have h: "map_of (sc_items ?c) k = Some v" if "(k, v) \<in> set (sc_items ?c)" for k v
    using d that by simp
  note * = seg_purge_fold [OF d inv seg_ensure_ready h, of pre, folded seg_purgePrefix_def [unfolded Let_def]]
  show "seg_inv (seg_purgePrefix pre c)" using * by simp
  show "seg_look (seg_purgePrefix pre c) = (\<lambda>k. if prefix pre k then None else seg_look c k)"
    using * map_of_eq_None_iff [of "sc_items ?c"] seg_ensure_look [OF assms, symmetric]
    by (auto simp: fun_eq_iff seg_look_def)
qed

subsection \<open>Any sequence of calls\<close>

datatype seg_op = SegPut string "byte list" | SegGet string | SegPurge string

fun seg_step :: "seg_op \<Rightarrow> seg_cache \<Rightarrow> seg_cache" where
  "seg_step (SegPut k d) c = seg_put k d c"
| "seg_step (SegGet k) c = fst (seg_get k c)"
| "seg_step (SegPurge p) c = seg_purgePrefix p c"

fun seg_spec :: "seg_op \<Rightarrow> (string \<rightharpoonup> byte list) \<Rightarrow> string \<rightharpoonup> byte list" where
  "seg_spec (SegPut k d) m = m(k \<mapsto> d)"
| "seg_spec (SegGet k) m = m"
| "seg_spec (SegPurge p) m = (\<lambda>k. if prefix p k then None else m k)"

definition seg_bounded :: "seg_cache \<Rightarrow> bool" where
  "seg_bounded c \<longleftrightarrow> sc_curBytes c \<le> sc_maxBytes c \<or> length (sc_ll c) \<le> 1"

definition seg_ok :: "seg_cache \<Rightarrow> bool" where
  "seg_ok c \<longleftrightarrow> seg_inv c \<and> seg_bounded c"

lemma seg_ensure_bounded: "seg_ok c \<Longrightarrow> seg_bounded (seg_ensure c)"
  by (auto simp: seg_ok_def seg_bounded_def seg_ensure_def)

lemma seg_put_bounded: "seg_inv c \<Longrightarrow> seg_bounded (seg_put k d c)"
  using seg_trim_props(3) [of "seg_insert k d (seg_ensure c)"]
  by (simp add: seg_bounded_def seg_put_def seg_insert_inv seg_ensure_inv)

lemma seg_get_bounded: "seg_ok c \<Longrightarrow> seg_bounded (fst (seg_get k c))"
proof -
  assume ok: "seg_ok c"
  have "length (sc_ll (fst (seg_get k c))) = length (sc_ll (seg_ensure c))"
  proof (cases "map_of (sc_items (seg_ensure c)) k")
    case (Some d)
    then have "k \<in> set (sc_ll (seg_ensure c))"
      using ok seg_ensure_inv [of c] by (auto simp: seg_ok_def seg_inv_def dest: map_of_SomeD intro: rev_image_eqI)
    with Some show ?thesis
      by (auto simp: seg_get_def Let_def move_front_def length_remove1 dest: length_pos_if_in_set)
  qed (simp add: seg_get_def Let_def)
  moreover have "sc_curBytes (fst (seg_get k c)) = sc_curBytes (seg_ensure c)"
    "sc_maxBytes (fst (seg_get k c)) = sc_maxBytes (seg_ensure c)"
    by (auto simp: seg_get_def Let_def split: option.splits)
  ultimately show ?thesis using seg_ensure_bounded [OF ok] by (simp add: seg_bounded_def)
qed

lemma seg_purge_fold_bounded: "seg_bounded c \<Longrightarrow> seg_bounded (fold (seg_purge_one p) al c)"
proof (induction al arbitrary: c)
  case (Cons e al)
  have "seg_bounded (seg_purge_one p e c)"
    using Cons.prems by (auto simp: seg_bounded_def seg_purge_one_def length_remove1)
  then show ?case using Cons.IH by simp
qed simp

lemma seg_purge_bounded: "seg_ok c \<Longrightarrow> seg_bounded (seg_purgePrefix p c)"
  by (simp add: seg_purgePrefix_def Let_def seg_purge_fold_bounded seg_ensure_bounded)

lemma seg_step_ok: "seg_ok c \<Longrightarrow> seg_ok (seg_step op c)"
  using seg_get_bounded [of c] seg_purge_bounded [of c]
  by (cases op) (auto simp: seg_ok_def seg_put_inv seg_get_inv seg_purgePrefix_props seg_put_bounded)

lemma seg_step_sim:
  assumes "seg_ok c" "seg_look c \<subseteq>\<^sub>m m"
  shows "seg_look (seg_step op c) \<subseteq>\<^sub>m seg_spec op m"
proof (cases op)
  case (SegPut k d)
  have "(seg_look c)(k \<mapsto> d) \<subseteq>\<^sub>m m(k \<mapsto> d)" using assms(2) by (rule map_le_upd)
  with SegPut seg_put_le [of c k d] assms(1) show ?thesis by (auto simp: seg_ok_def intro: map_le_trans)
next
  case (SegGet k)
  with assms show ?thesis by (simp add: seg_get_look seg_ok_def)
next
  case (SegPurge p)
  with assms show ?thesis by (auto simp: seg_purgePrefix_props seg_ok_def map_le_def dom_def split: if_splits)
qed

interpretation seg: lossy_map seg_ok seg_look seg_step seg_spec
  by unfold_locales (fact seg_step_ok, rule seg_step_sim)

lemma new_seg_cache_ok [simp]: "seg_ok (new_seg_cache n)" "seg_look (new_seg_cache n) = Map.empty"
  using seg_inv_new [of n] by (simp_all add: seg_ok_def seg_bounded_def new_seg_cache_def seg_look_def)

definition seg_run :: "seg_op list \<Rightarrow> int \<Rightarrow> seg_cache" where
  "seg_run ops n = fold seg_step ops (new_seg_cache n)"

text \<open>
  C11. However the segment cache was used, its byte counter is the sum of the sizes of its entries, the
  recency list holds exactly the cached keys, and the counter is within the budget unless a single
  entry is left, which is never evicted.
\<close>

theorem seg_cache_bounded:
  "sc_curBytes (seg_run ops n) = sum_al (\<lambda>d. int (length d)) (sc_items (seg_run ops n)) \<and>
    mset (sc_ll (seg_run ops n)) = mset (map fst (sc_items (seg_run ops n))) \<and>
    (sc_curBytes (seg_run ops n) \<le> sc_maxBytes (seg_run ops n) \<or> length (sc_items (seg_run ops n)) \<le> 1)"
proof -
  let ?c = "seg_run ops n"
  have ok: "seg_ok ?c" unfolding seg_run_def by (rule seg.run_inv) simp
  then have inv: "seg_inv ?c" by (simp add: seg_ok_def)
  then have m: "mset (sc_ll ?c) = mset (map fst (sc_items ?c))"
    by (intro set_eq_iff_mset_eq_distinct [THEN iffD1]) (auto simp: seg_inv_def)
  then have "length (sc_ll ?c) = length (sc_items ?c)" by (metis length_map mset_eq_length)
  with ok inv m show ?thesis by (auto simp: seg_ok_def seg_bounded_def seg_inv_def seg_bytes_def)
qed

text \<open>
  C12. A segment served from the cache is the last one stored under its key, and it was not purged
  since: removing a torrent leaves no segment of it to be served.
\<close>

theorem seg_hit_is_current:
  assumes "snd (seg_get key (seg_run ops n)) = Some data"
  shows "fold seg_spec ops Map.empty key = Some data"
proof -
  have "seg_ok (seg_run ops n)" unfolding seg_run_def by (rule seg.run_inv) simp
  with assms have "seg_look (seg_run ops n) key = Some data"
    by (simp add: seg_get_look seg_ok_def)
  then show ?thesis unfolding seg_run_def by (intro seg.hit_is_current [of "new_seg_cache n"]) simp_all
qed

theorem seg_hit_is_current_witness:
  "fold seg_spec [SegPut ''a_1'' [1, 2], SegPut ''b_1'' [3], SegPurge ''a_'', SegPut ''b_1'' [4, 5]]
     Map.empty ''b_1'' = Some [4, 5]"
  by (rule seg_hit_is_current [where n = 100])
    (simp add: seg_run_def seg_put_def seg_insert_def seg_ensure_def new_seg_cache_def seg_trim.simps
      seg_purgePrefix_def seg_purge_one_def seg_get_def Let_def move_front_def prefix_def)

section \<open>The thumbnail cache\<close>

text \<open>Times are nanoseconds on one clock; \<^verbatim>\<open>time.Now()\<close> is an argument.\<close>

record thumbCacheEntry =
  te_data :: "byte list"
  te_createdAt :: int
  te_key :: string

record ThumbnailCache =
  tc_items :: "(string \<times> thumbCacheEntry) list"
  tc_order :: "string list"
  tc_maxSize :: int
  tc_ttl :: int

definition NewThumbnailCache :: "int \<Rightarrow> int \<Rightarrow> ThumbnailCache" where
  "NewThumbnailCache maxSize ttl = \<lparr>tc_items = [], tc_order = [], tc_maxSize = maxSize, tc_ttl = ttl\<rparr>"

definition thumb_Stats :: "ThumbnailCache \<Rightarrow> int \<times> int \<times> int" where
  "thumb_Stats c =
     (int (length (tc_items c)), fold (\<lambda>e b. b + int (length (te_data (snd e)))) (tc_items c) 0, tc_maxSize c)"

definition thumb_remove :: "string \<Rightarrow> ThumbnailCache \<Rightarrow> ThumbnailCache" where
  "thumb_remove key c = c\<lparr>tc_items := AList.delete key (tc_items c), tc_order := remove1 key (tc_order c)\<rparr>"

definition thumb_moveToMRU :: "string \<Rightarrow> ThumbnailCache \<Rightarrow> ThumbnailCache" where
  "thumb_moveToMRU key c = c\<lparr>tc_order := remove1 key (tc_order c) @ [key]\<rparr>"

definition thumb_Get :: "int \<Rightarrow> string \<Rightarrow> ThumbnailCache \<Rightarrow> ThumbnailCache \<times> byte list option" where
  "thumb_Get now key c =
     (case map_of (tc_items c) key of
        None \<Rightarrow> (c, None)
      | Some entry \<Rightarrow>
          if tc_ttl c < now - te_createdAt entry then (thumb_remove key c, None)
          else (thumb_moveToMRU key c, Some (te_data entry)))"

definition thumb_evict :: "ThumbnailCache \<Rightarrow> ThumbnailCache" where
  "thumb_evict c =
     (if tc_maxSize c \<le> int (length (tc_items c)) \<and> tc_order c \<noteq> []
      then thumb_remove (hd (tc_order c)) c else c)"

definition thumb_Set :: "int \<Rightarrow> string \<Rightarrow> byte list \<Rightarrow> ThumbnailCache \<Rightarrow> ThumbnailCache" where
  "thumb_Set now key data c0 =
     (case map_of (tc_items c0) key of
        Some entry \<Rightarrow>
          thumb_moveToMRU key
            (c0\<lparr>tc_items := AList.update key (entry\<lparr>te_data := data, te_createdAt := now\<rparr>) (tc_items c0)\<rparr>)
      | None \<Rightarrow>
          let c = thumb_evict c0
          in c\<lparr>tc_items := AList.update key \<lparr>te_data = data, te_createdAt = now, te_key = key\<rparr> (tc_items c),
               tc_order := tc_order c @ [key]\<rparr>)"

definition thumb_wf :: "ThumbnailCache \<Rightarrow> bool" where
  "thumb_wf c \<longleftrightarrow> distinct (tc_order c) \<and> distinct (map fst (tc_items c)) \<and>
     set (tc_order c) = fst ` set (tc_items c)"

definition thumb_inv :: "ThumbnailCache \<Rightarrow> bool" where
  "thumb_inv c \<longleftrightarrow> thumb_wf c \<and> int (length (tc_items c)) \<le> max 1 (tc_maxSize c)"

definition thumb_look :: "ThumbnailCache \<Rightarrow> string \<rightharpoonup> int \<times> byte list" where
  "thumb_look c k = map_option (\<lambda>e. (te_createdAt e, te_data e)) (map_of (tc_items c) k)"

lemma thumb_wf_length: "thumb_wf c \<Longrightarrow> length (tc_items c) = length (tc_order c)"
  by (metis thumb_wf_def distinct_card length_map list.set_map)

lemma thumb_remove_wf: "thumb_wf c \<Longrightarrow> thumb_wf (thumb_remove k c)"
  by (auto simp: thumb_wf_def thumb_remove_def set_delete_eq)

lemma thumb_remove_look: "thumb_look (thumb_remove k c) = (thumb_look c)(k := None)"
  by (auto simp: thumb_look_def thumb_remove_def delete_conv' fun_eq_iff)

lemma thumb_evict_props:
  assumes "thumb_inv c"
  shows "thumb_wf (thumb_evict c)" "thumb_look (thumb_evict c) \<subseteq>\<^sub>m thumb_look c"
    "int (length (tc_items (thumb_evict c))) < max 1 (tc_maxSize c)"
    "tc_maxSize (thumb_evict c) = tc_maxSize c" "tc_ttl (thumb_evict c) = tc_ttl c"
proof -
  have wf: "thumb_wf c" using assms by (simp add: thumb_inv_def)
  show wf': "thumb_wf (thumb_evict c)" using wf by (simp add: thumb_evict_def thumb_remove_wf)
  show "thumb_look (thumb_evict c) \<subseteq>\<^sub>m thumb_look c"
    by (simp add: thumb_evict_def thumb_remove_look del: fun_upd_apply)
  show "tc_maxSize (thumb_evict c) = tc_maxSize c" "tc_ttl (thumb_evict c) = tc_ttl c"
    by (simp_all add: thumb_evict_def thumb_remove_def)
  show "int (length (tc_items (thumb_evict c))) < max 1 (tc_maxSize c)"
    using thumb_wf_length [OF wf] thumb_wf_length [OF wf'] assms
    by (cases "tc_order c") (auto simp: thumb_evict_def thumb_inv_def thumb_remove_def)
qed

lemma thumb_Set_inv:
  assumes "thumb_inv c"
  shows "thumb_inv (thumb_Set now key data c)"
proof (cases "map_of (tc_items c) key")
  case None
  have n: "key \<notin> fst ` set (tc_items (thumb_evict c))"
    using None thumb_evict_props(2) [OF assms]
    by (auto simp: thumb_look_def map_le_def map_of_eq_None_iff thumb_evict_def thumb_remove_def set_delete_eq)
  with None thumb_evict_props [OF assms] show ?thesis
    by (auto simp: thumb_Set_def Let_def thumb_inv_def thumb_wf_def update_fresh)
next
  case (Some e)
  then have "key \<in> fst ` set (tc_items c)" by (force dest: map_of_SomeD)
  then have "length (AList.update key v (tc_items c)) = length (tc_items c)" for v
    by (metis length_map update_keys fst_conv image_iff list.set_map if_P)
  with Some assms \<open>key \<in> _\<close> show ?thesis
    by (auto simp: thumb_Set_def thumb_moveToMRU_def thumb_inv_def thumb_wf_def distinct_update dom_update)
qed

lemma thumb_Set_look:
  assumes "thumb_inv c"
  shows "thumb_look (thumb_Set now key data c) \<subseteq>\<^sub>m (thumb_look c)(key \<mapsto> (now, data))"
    and "thumb_look (thumb_Set now key data c) key = Some (now, data)"
  using thumb_evict_props(2) [OF assms]
  by (auto simp: thumb_Set_def thumb_look_def Let_def update_conv' thumb_moveToMRU_def map_le_def
      dom_def split: option.splits if_splits)

lemma thumb_Get_inv: "thumb_inv c \<Longrightarrow> thumb_inv (fst (thumb_Get now key c))"
  using thumb_remove_wf [of c key] length_delete_le [of key "tc_items c"]
  by (auto simp: thumb_Get_def thumb_inv_def thumb_moveToMRU_def thumb_wf_def thumb_remove_def
      dest: map_of_SomeD intro: rev_image_eqI split: option.splits)

lemma thumb_Get_look:
  "thumb_look (fst (thumb_Get now key c)) \<subseteq>\<^sub>m thumb_look c"
  by (auto simp: thumb_Get_def thumb_remove_look thumb_moveToMRU_def split: option.splits simp del: fun_upd_apply)
    (simp_all add: thumb_look_def map_le_def)

datatype thumb_op = ThumbSet int string "byte list" | ThumbGet int string

fun thumb_step :: "thumb_op \<Rightarrow> ThumbnailCache \<Rightarrow> ThumbnailCache" where
  "thumb_step (ThumbSet now k d) c = thumb_Set now k d c"
| "thumb_step (ThumbGet now k) c = fst (thumb_Get now k c)"

fun thumb_spec :: "thumb_op \<Rightarrow> (string \<rightharpoonup> int \<times> byte list) \<Rightarrow> string \<rightharpoonup> int \<times> byte list" where
  "thumb_spec (ThumbSet now k d) m = m(k \<mapsto> (now, d))"
| "thumb_spec (ThumbGet now k) m = m"

interpretation thumb: lossy_map thumb_inv thumb_look thumb_step thumb_spec
proof unfold_locales
  show "thumb_inv (thumb_step op c)" if "thumb_inv c" for op c
    using that by (cases op) (simp_all add: thumb_Set_inv thumb_Get_inv)
  show "thumb_look (thumb_step op c) \<subseteq>\<^sub>m thumb_spec op m"
    if "thumb_inv c" "thumb_look c \<subseteq>\<^sub>m m" for op c m
    using that
    by (cases op) (auto simp del: fun_upd_apply intro: map_le_trans [OF thumb_Set_look(1)] map_le_upd
        map_le_trans [OF thumb_Get_look])
qed

lemma thumb_step_const: "tc_ttl (thumb_step op c) = tc_ttl c" "tc_maxSize (thumb_step op c) = tc_maxSize c"
  by (cases op; auto simp: thumb_Set_def thumb_Get_def Let_def thumb_moveToMRU_def thumb_evict_def
      thumb_remove_def split: option.splits)+

lemma thumb_run_const: "tc_ttl (fold thumb_step ops c) = tc_ttl c" "tc_maxSize (fold thumb_step ops c) = tc_maxSize c"
  by (induction ops arbitrary: c) (simp_all add: thumb_step_const)

lemma NewThumbnailCache_ok: "thumb_inv (NewThumbnailCache n t)" "thumb_look (NewThumbnailCache n t) = Map.empty"
  by (auto simp: thumb_inv_def thumb_wf_def NewThumbnailCache_def thumb_look_def)

text \<open>
  However the thumbnail cache was used, it holds at most its configured number of entries (one,
  when that number is not positive), its recency list holds exactly the cached keys, and a thumbnail
  it serves was the last one stored under its key, no longer ago than the time to live.
\<close>

theorem thumbnail_cache_serves_fresh:
  assumes "c = fold thumb_step ops (NewThumbnailCache maxSize ttl)"
  shows "int (length (tc_items c)) \<le> max 1 maxSize \<and> mset (tc_order c) = mset (map fst (tc_items c)) \<and>
    (\<forall>data. snd (thumb_Get now key c) = Some data \<longrightarrow>
       (\<exists>created. fold thumb_spec ops Map.empty key = Some (created, data) \<and> now - created \<le> ttl))"
proof (intro conjI allI impI)
  have inv: "thumb_inv c" unfolding assms by (rule thumb.run_inv) (rule NewThumbnailCache_ok)
  have const: "tc_maxSize c = maxSize" "tc_ttl c = ttl"
    by (simp_all add: assms thumb_run_const NewThumbnailCache_def)
  show "int (length (tc_items c)) \<le> max 1 maxSize"
    using inv const by (simp add: thumb_inv_def)
  show "mset (tc_order c) = mset (map fst (tc_items c))"
    using inv by (intro set_eq_iff_mset_eq_distinct [THEN iffD1]) (auto simp: thumb_inv_def thumb_wf_def)
  fix data assume "snd (thumb_Get now key c) = Some data"
  then obtain e where e: "map_of (tc_items c) key = Some e" "now - te_createdAt e \<le> ttl" "data = te_data e"
    by (auto simp: thumb_Get_def const split: option.splits if_splits)
  then have "thumb_look c key = Some (te_createdAt e, data)" by (simp add: thumb_look_def)
  then have "fold thumb_spec ops Map.empty key = Some (te_createdAt e, data)"
    unfolding assms by (rule thumb.hit_is_current [OF NewThumbnailCache_ok])
  with e show "\<exists>created. fold thumb_spec ops Map.empty key = Some (created, data) \<and> now - created \<le> ttl"
    by blast
qed

theorem thumbnail_cache_serves_fresh_witness:
  "snd (thumb_Get 7 ''k'' (fold thumb_step [ThumbSet 1 ''k'' [9], ThumbSet 3 ''l'' [8]] (NewThumbnailCache 2 10)))
     = Some [9] \<and>
   (\<exists>created. fold thumb_spec [ThumbSet 1 ''k'' [9], ThumbSet 3 ''l'' [8]] Map.empty ''k'' = Some (created, [9]) \<and>
      7 - created \<le> (10::int))"
proof -
  have "snd (thumb_Get 7 ''k'' (fold thumb_step [ThumbSet 1 ''k'' [9], ThumbSet 3 ''l'' [8]] (NewThumbnailCache 2 10)))
     = Some [9]"
    by (simp add: thumb_Get_def thumb_Set_def NewThumbnailCache_def Let_def thumb_evict_def thumb_moveToMRU_def)
  with thumbnail_cache_serves_fresh [OF refl, of "[ThumbSet 1 ''k'' [9], ThumbSet 3 ''l'' [8]]" 2 10 7 "''k''"]
  show ?thesis by blast
qed

end
