(* ===== verification/Gates.thy ===== *)
theory Gates
  imports GoText
begin

text \<open>
  The admission gates of the server: the extraction executor (\<^verbatim>\<open>handlers/executor.go\<close>), the admission
  gates of the rendition manager (\<^verbatim>\<open>media/rendition/admission.go\<close>) and the process-wide gate of video
  transcodes (\<^verbatim>\<open>media/transcode_gate.go\<close>). A channel used as a semaphore is its capacity and the
  number of tokens in it; sending blocks when it is full, receiving blocks when it is empty. The
  contract the three share is the locale \<open>token_gate\<close>.
\<close>

datatype ctx_error = CtxCanceled | CtxDeadlineExceeded

section \<open>Interface: a bounded gate whose tickets are given back once\<close>

datatype gate_op = TakeOp | ReleaseOp nat

text \<open>
  Clients of a gate: every successful take yields a new ticket, and the release function of a ticket
  gives its token back at the first call only (\<^verbatim>\<open>sync.Once\<close>). \<open>None\<close>: the call blocks.
\<close>

fun gate_step :: "('s \<Rightarrow> 's option) \<Rightarrow> ('s \<Rightarrow> 's option) \<Rightarrow> gate_op \<Rightarrow> 's \<times> bool list \<Rightarrow> ('s \<times> bool list) option"
where
  "gate_step acq rel TakeOp (s, ts) = map_option (\<lambda>s'. (s', ts @ [True])) (acq s)"
| "gate_step acq rel (ReleaseOp i) (s, ts) =
     (if i < length ts \<and> ts ! i then map_option (\<lambda>s'. (s', ts[i := False])) (rel s) else Some (s, ts))"

fun gate_run :: "('s \<Rightarrow> 's option) \<Rightarrow> ('s \<Rightarrow> 's option) \<Rightarrow> gate_op list \<Rightarrow> 's \<times> bool list \<Rightarrow> ('s \<times> bool list) option"
where
  "gate_run acq rel [] st = Some st"
| "gate_run acq rel (op # ops) st =
     (case gate_step acq rel op st of None \<Rightarrow> None | Some st' \<Rightarrow> gate_run acq rel ops st')"

definition outstanding :: "bool list \<Rightarrow> int" where
  "outstanding ts = int (length (filter id ts))"

lemma outstanding_simps [simp]:
  "outstanding [] = 0" "outstanding (ts @ [True]) = outstanding ts + 1"
  by (simp_all add: outstanding_def)

lemma outstanding_release:
  "i < length ts \<Longrightarrow> ts ! i \<Longrightarrow> outstanding (ts[i := False]) = outstanding ts - 1"
proof (induction ts arbitrary: i)
  case (Cons t ts)
  then show ?case by (cases i) (auto simp: outstanding_def)
qed simp

lemma outstanding_pos: "i < length ts \<Longrightarrow> ts ! i \<Longrightarrow> 0 < outstanding ts"
  using nth_mem [of i ts] by (auto simp: outstanding_def filter_empty_conv)

locale token_gate =
  fixes used :: "'s \<Rightarrow> int"
    and cap :: "'s \<Rightarrow> int"
    and acq :: "'s \<Rightarrow> 's option"
    and rel :: "'s \<Rightarrow> 's option"
  assumes take_some: "acq s = Some s' \<Longrightarrow> used s < cap s \<and> used s' = used s + 1 \<and> cap s' = cap s"
    and take_free: "0 \<le> used s \<Longrightarrow> used s < cap s \<Longrightarrow> acq s \<noteq> None"
    and give_some: "rel s = Some s' \<Longrightarrow> used s' = used s - 1 \<and> cap s' = cap s"
    and give_held: "0 < used s \<Longrightarrow> rel s \<noteq> None"
begin

lemma step_balanced:
  assumes "gate_step acq rel op (s, ts) = Some (s', ts')" "used s = outstanding ts" "0 < used s \<longrightarrow> used s \<le> cap s"
  shows "used s' = outstanding ts' \<and> (0 < used s' \<longrightarrow> used s' \<le> cap s') \<and> cap s' = cap s"
  using assms
  by (cases op) (auto dest!: take_some give_some simp: outstanding_release split: if_splits)

lemma run_balanced:
  assumes "gate_run acq rel ops (s, ts) = Some (s', ts')" "used s = outstanding ts" "0 < used s \<longrightarrow> used s \<le> cap s"
  shows "used s' = outstanding ts' \<and> (0 < used s' \<longrightarrow> used s' \<le> cap s') \<and> cap s' = cap s"
  using assms
proof (induction ops arbitrary: s ts)
  case (Cons op ops)
  then obtain s1 ts1 where 1: "gate_step acq rel op (s, ts) = Some (s1, ts1)"
    "gate_run acq rel ops (s1, ts1) = Some (s', ts')" by (auto split: option.splits)
  from step_balanced [OF 1(1) Cons.prems(2,3)]
  have 2: "used s1 = outstanding ts1" "0 < used s1 \<longrightarrow> used s1 \<le> cap s1" "cap s1 = cap s" by auto
  show ?case using Cons.IH [OF 1(2) 2(1,2)] unfolding 2(3) .
qed simp

lemma release_never_blocks:
  assumes "used s = outstanding ts"
  shows "gate_step acq rel (ReleaseOp i) (s, ts) \<noteq> None"
  using assms give_held [of s] outstanding_pos [of i ts] by auto

end

section \<open>The extraction executor\<close>

datatype extClass = extWindow | extHeavy | extAnalyze

fun extClass_String :: "extClass \<Rightarrow> string" where
  "extClass_String extWindow = ''window''"
| "extClass_String extHeavy = ''heavy''"
| "extClass_String extAnalyze = ''analyze''"

record extExecutor =
  inflight :: "extClass \<Rightarrow> int"
  limits :: "extClass \<Rightarrow> int"

definition newExtExecutor :: "int \<Rightarrow> int \<Rightarrow> int \<Rightarrow> extExecutor" where
  "newExtExecutor window heavy analyze =
     \<lparr>inflight = (\<lambda>_. 0),
      limits = (\<lambda>c. case c of extWindow \<Rightarrow> window | extHeavy \<Rightarrow> heavy | extAnalyze \<Rightarrow> analyze)\<rparr>"

text \<open>
  \<^verbatim>\<open>Acquire\<close> holds the mutex from one evaluation of its loop condition to the next \<^verbatim>\<open>cond.Wait\<close>: one poll is
  atomic. It ends without a limit, parked, refused with the context's error, or with a slot taken.
\<close>

datatype admission = AdmUnlimited | AdmPark | AdmRefused ctx_error | AdmTaken

definition Acquire_poll :: "ctx_error option \<Rightarrow> extClass \<Rightarrow> extExecutor \<Rightarrow> extExecutor \<times> admission" where
  "Acquire_poll ctx cls e =
     (if limits e cls \<le> 0 then (e, AdmUnlimited)
      else if limits e cls \<le> inflight e cls
      then (case ctx of Some err \<Rightarrow> (e, AdmRefused err) | None \<Rightarrow> (e, AdmPark))
      else (e\<lparr>inflight := (inflight e)(cls := inflight e cls + 1)\<rparr>, AdmTaken))"

definition ext_release :: "extClass \<Rightarrow> extExecutor \<Rightarrow> extExecutor" where
  "ext_release cls e = e\<lparr>inflight := (inflight e)(cls := inflight e cls - 1)\<rparr>"

definition ext_take :: "extClass \<Rightarrow> extExecutor \<Rightarrow> extExecutor option" where
  "ext_take cls e = (case Acquire_poll None cls e of (e', AdmTaken) \<Rightarrow> Some e' | _ \<Rightarrow> None)"

interpretation ext: token_gate "\<lambda>e. inflight e cls" "\<lambda>e. max 0 (limits e cls)" "ext_take cls"
  "\<lambda>e. if 0 < inflight e cls then Some (ext_release cls e) else None" for cls
  by unfold_locales
    (auto simp: ext_take_def Acquire_poll_def ext_release_def max_def split: if_splits)

subsection \<open>Concurrent callers\<close>

text \<open>
  A job is one call of \<^verbatim>\<open>Acquire\<close> and, when it got a slot, of the release function it returned.
  \<open>jb_armed\<close>: the \<^verbatim>\<open>context.AfterFunc\<close> of the call can still run and broadcast.
\<close>

datatype job_state = JRun | JParked | JHolds | JFree | JRefused ctx_error | JReleased

record job =
  jb_cls :: extClass
  jb_state :: job_state
  jb_ctx :: "ctx_error option"
  jb_armed :: bool

record ext_world =
  ew_exec :: extExecutor
  ew_jobs :: "job list"

definition wake_job :: "job \<Rightarrow> job" where
  "wake_job j = (if jb_state j = JParked then j\<lparr>jb_state := JRun\<rparr> else j)"

definition Broadcast :: "ext_world \<Rightarrow> ext_world" where
  "Broadcast w = w\<lparr>ew_jobs := map wake_job (ew_jobs w)\<rparr>"

definition set_job :: "nat \<Rightarrow> job \<Rightarrow> ext_world \<Rightarrow> ext_world" where
  "set_job i j w = w\<lparr>ew_jobs := (ew_jobs w)[i := j]\<rparr>"

text \<open>\<^verbatim>\<open>defer stop()\<close>: the callback is dropped unless the context already fired it.\<close>

definition stop_job :: "job \<Rightarrow> job" where
  "stop_job j = j\<lparr>jb_armed := (jb_armed j \<and> jb_ctx j \<noteq> None)\<rparr>"

definition job_poll :: "nat \<Rightarrow> ext_world \<Rightarrow> ext_world" where
  "job_poll i w =
     (let j = ew_jobs w ! i
      in case Acquire_poll (jb_ctx j) (jb_cls j) (ew_exec w) of
           (e, AdmUnlimited) \<Rightarrow> set_job i (j\<lparr>jb_state := JFree, jb_armed := False\<rparr>) (w\<lparr>ew_exec := e\<rparr>)
         | (e, AdmPark) \<Rightarrow> set_job i (j\<lparr>jb_state := JParked\<rparr>) (w\<lparr>ew_exec := e\<rparr>)
         | (e, AdmRefused err) \<Rightarrow> set_job i (stop_job (j\<lparr>jb_state := JRefused err\<rparr>)) (w\<lparr>ew_exec := e\<rparr>)
         | (e, AdmTaken) \<Rightarrow> set_job i (stop_job (j\<lparr>jb_state := JHolds\<rparr>)) (w\<lparr>ew_exec := e\<rparr>))"

definition job_release :: "nat \<Rightarrow> ext_world \<Rightarrow> ext_world" where
  "job_release i w =
     (let j = ew_jobs w ! i
      in if jb_state j = JHolds
         then Broadcast (set_job i (j\<lparr>jb_state := JReleased\<rparr>) (w\<lparr>ew_exec := ext_release (jb_cls j) (ew_exec w)\<rparr>))
         else w)"

inductive ext_reach :: "int \<Rightarrow> int \<Rightarrow> int \<Rightarrow> ext_world \<Rightarrow> bool" for window heavy analyze where
  start: "ext_reach window heavy analyze \<lparr>ew_exec = newExtExecutor window heavy analyze, ew_jobs = []\<rparr>"
| submit: "ext_reach window heavy analyze w \<Longrightarrow>
    ext_reach window heavy analyze
      (w\<lparr>ew_jobs := ew_jobs w @ [\<lparr>jb_cls = cls, jb_state = JRun, jb_ctx = None, jb_armed = True\<rparr>]\<rparr>)"
| poll: "ext_reach window heavy analyze w \<Longrightarrow> i < length (ew_jobs w) \<Longrightarrow> jb_state (ew_jobs w ! i) = JRun \<Longrightarrow>
    ext_reach window heavy analyze (job_poll i w)"
| cancel: "ext_reach window heavy analyze w \<Longrightarrow> i < length (ew_jobs w) \<Longrightarrow> jb_ctx (ew_jobs w ! i) = None \<Longrightarrow>
    ext_reach window heavy analyze (set_job i ((ew_jobs w ! i)\<lparr>jb_ctx := Some err\<rparr>) w)"
| fire: "ext_reach window heavy analyze w \<Longrightarrow> i < length (ew_jobs w) \<Longrightarrow> jb_ctx (ew_jobs w ! i) \<noteq> None \<Longrightarrow>
    jb_armed (ew_jobs w ! i) \<Longrightarrow>
    ext_reach window heavy analyze (Broadcast (set_job i ((ew_jobs w ! i)\<lparr>jb_armed := False\<rparr>) w))"
| release: "ext_reach window heavy analyze w \<Longrightarrow> i < length (ew_jobs w) \<Longrightarrow>
    ext_reach window heavy analyze (job_release i w)"

definition held :: "extClass \<Rightarrow> job list \<Rightarrow> int" where
  "held cls js = sum_list (map (\<lambda>j. if jb_state j = JHolds \<and> jb_cls j = cls then 1 else 0) js)"

definition ext_counts :: "extExecutor \<Rightarrow> job list \<Rightarrow> bool" where
  "ext_counts e js \<longleftrightarrow> (\<forall>cls. inflight e cls = held cls js \<and> held cls js \<le> max 0 (limits e cls))"

definition parked_ok :: "extExecutor \<Rightarrow> job \<Rightarrow> bool" where
  "parked_ok e j \<longleftrightarrow> (jb_state j = JParked \<longrightarrow>
     0 < limits e (jb_cls j) \<and> limits e (jb_cls j) \<le> inflight e (jb_cls j) \<and> (jb_ctx j = None \<or> jb_armed j))"

definition armed_ok :: "job \<Rightarrow> bool" where
  "armed_ok j \<longleftrightarrow> (jb_state j = JRun \<or> jb_state j = JParked) \<and> jb_ctx j = None \<longrightarrow> jb_armed j"

definition ext_inv :: "ext_world \<Rightarrow> bool" where
  "ext_inv w \<longleftrightarrow> ext_counts (ew_exec w) (ew_jobs w) \<and>
     (\<forall>j \<in> set (ew_jobs w). parked_ok (ew_exec w) j \<and> armed_ok j)"

lemma sum_list_update_int:
  fixes f :: "'a \<Rightarrow> int"
  shows "i < length xs \<Longrightarrow> sum_list (map f (xs[i := x])) = sum_list (map f xs) + f x - f (xs ! i)"
proof (induction xs arbitrary: i)
  case (Cons y ys)
  then show ?case by (cases i) auto
qed simp

lemma held_update:
  "i < length js \<Longrightarrow> held cls (js[i := j]) = held cls js
     + (if jb_state j = JHolds \<and> jb_cls j = cls then 1 else 0)
     - (if jb_state (js ! i) = JHolds \<and> jb_cls (js ! i) = cls then 1 else 0)"
  unfolding held_def by (rule sum_list_update_int)

lemma held_wake [simp]: "held cls (map wake_job js) = held cls js"
  unfolding held_def by (induction js) (auto simp: wake_job_def)

lemma set_update_cases: "x \<in> set (xs[i := y]) \<Longrightarrow> x = y \<or> x \<in> set xs"
  using set_update_subset_insert [of xs i y] by auto

lemma ext_inv_broadcast:
  "ext_counts (ew_exec w) (ew_jobs w) \<Longrightarrow> (\<And>j. j \<in> set (ew_jobs w) \<Longrightarrow> armed_ok j) \<Longrightarrow> ext_inv (Broadcast w)"
  by (auto simp: ext_inv_def Broadcast_def ext_counts_def parked_ok_def wake_job_def armed_ok_def)

lemma ext_inv_set_job:
  assumes "ext_inv w" "ext_counts e ((ew_jobs w)[i := j])" "parked_ok e j" "armed_ok j"
    "limits e = limits (ew_exec w)" "\<And>cls. inflight (ew_exec w) cls \<le> inflight e cls"
  shows "ext_inv (set_job i j (w\<lparr>ew_exec := e\<rparr>))"
proof -
  have "parked_ok e j'" if "j' \<in> set (ew_jobs w)" for j'
    using that assms(1,5) assms(6) [of "jb_cls j'"] by (auto simp: ext_inv_def parked_ok_def)
  with assms show ?thesis by (auto simp: ext_inv_def set_job_def dest!: set_update_cases)
qed

lemma ext_inv_poll:
  assumes "ext_inv w" "i < length (ew_jobs w)" "jb_state (ew_jobs w ! i) = JRun"
  shows "ext_inv (job_poll i w)"
proof -
  let ?j = "ew_jobs w ! i" and ?e = "ew_exec w"
  have cnt: "ext_counts ?e (ew_jobs w)" and arm: "armed_ok ?j"
    using assms(1,2) by (auto simp: ext_inv_def)
  have keep: "ext_counts ?e ((ew_jobs w)[i := j'])" if "jb_state j' \<noteq> JHolds" for j'
    using cnt assms(2,3) that by (simp add: ext_counts_def held_update)
  note upd = ext_inv_set_job [OF assms(1), where i = i]
  consider "limits ?e (jb_cls ?j) \<le> 0"
    | "0 < limits ?e (jb_cls ?j)" "limits ?e (jb_cls ?j) \<le> inflight ?e (jb_cls ?j)"
    | "0 < limits ?e (jb_cls ?j)" "inflight ?e (jb_cls ?j) < limits ?e (jb_cls ?j)" by linarith
  then show ?thesis
  proof cases
    case 1
    show ?thesis
      using 1 upd [of ?e "?j\<lparr>jb_state := JFree, jb_armed := False\<rparr>"] keep
      by (simp add: job_poll_def Let_def Acquire_poll_def parked_ok_def armed_ok_def)
  next
    case 2
    show ?thesis
    proof (cases "jb_ctx ?j")
      case None
      with 2 arm assms(3) upd [of ?e "?j\<lparr>jb_state := JParked\<rparr>"] keep show ?thesis
        by (simp add: job_poll_def Let_def Acquire_poll_def parked_ok_def armed_ok_def)
    next
      case (Some err)
      with 2 upd [of ?e "stop_job (?j\<lparr>jb_state := JRefused err\<rparr>)"] keep show ?thesis
        by (simp add: job_poll_def Let_def Acquire_poll_def parked_ok_def armed_ok_def stop_job_def)
    qed
  next
    case 3
    let ?e' = "?e\<lparr>inflight := (inflight ?e)(jb_cls ?j := inflight ?e (jb_cls ?j) + 1)\<rparr>"
    have "ext_counts ?e' ((ew_jobs w)[i := stop_job (?j\<lparr>jb_state := JHolds\<rparr>)])"
      using cnt 3 assms(2,3) by (auto simp: ext_counts_def held_update stop_job_def)
    with 3 upd [of ?e' "stop_job (?j\<lparr>jb_state := JHolds\<rparr>)"] show ?thesis
      by (simp add: job_poll_def Let_def Acquire_poll_def parked_ok_def armed_ok_def stop_job_def)
  qed
qed

lemma ext_inv_release:
  assumes "ext_inv w" "i < length (ew_jobs w)"
  shows "ext_inv (job_release i w)"
proof (cases "jb_state (ew_jobs w ! i) = JHolds")
  case True
  let ?j = "ew_jobs w ! i"
  let ?w = "set_job i (?j\<lparr>jb_state := JReleased\<rparr>) (w\<lparr>ew_exec := ext_release (jb_cls ?j) (ew_exec w)\<rparr>)"
  have "held cls (ew_jobs w) - 1 \<le> max 0 (limits (ew_exec w) cls)" for cls
    using assms(1) by (simp add: ext_inv_def ext_counts_def) (smt (verit))
  then have "ext_counts (ew_exec ?w) (ew_jobs ?w)"
    using assms True by (auto simp: ext_inv_def ext_counts_def set_job_def ext_release_def held_update)
  moreover have "armed_ok j" if "j \<in> set (ew_jobs ?w)" for j
    using that assms(1) by (auto simp: ext_inv_def armed_ok_def set_job_def dest!: set_update_cases)
  ultimately have "ext_inv (Broadcast ?w)" by (rule ext_inv_broadcast)
  with True show ?thesis by (simp add: job_release_def Let_def)
qed (simp add: job_release_def Let_def assms(1))

lemma ext_inv_fire:
  assumes "ext_inv w" "i < length (ew_jobs w)" "jb_ctx (ew_jobs w ! i) \<noteq> None"
  shows "ext_inv (Broadcast (set_job i ((ew_jobs w ! i)\<lparr>jb_armed := False\<rparr>) w))"
proof (rule ext_inv_broadcast)
  let ?w = "set_job i ((ew_jobs w ! i)\<lparr>jb_armed := False\<rparr>) w"
  show "ext_counts (ew_exec ?w) (ew_jobs ?w)"
    using assms by (simp add: ext_inv_def ext_counts_def set_job_def held_update)
  show "armed_ok j" if "j \<in> set (ew_jobs ?w)" for j
    using that assms by (auto simp: ext_inv_def armed_ok_def set_job_def dest!: set_update_cases)
qed

lemma ext_inv_cancel:
  assumes "ext_inv w" "i < length (ew_jobs w)" "jb_ctx (ew_jobs w ! i) = None"
  shows "ext_inv (set_job i ((ew_jobs w ! i)\<lparr>jb_ctx := Some err\<rparr>) w)"
proof -
  let ?j = "ew_jobs w ! i"
  have "parked_ok (ew_exec w) ?j" "armed_ok ?j" using assms(1,2) by (auto simp: ext_inv_def)
  with assms(3) have "parked_ok (ew_exec w) (?j\<lparr>jb_ctx := Some err\<rparr>)" "armed_ok (?j\<lparr>jb_ctx := Some err\<rparr>)"
    by (auto simp: parked_ok_def armed_ok_def)
  moreover have "ext_counts (ew_exec w) ((ew_jobs w)[i := ?j\<lparr>jb_ctx := Some err\<rparr>])"
    using assms(1,2) by (simp add: ext_inv_def ext_counts_def held_update)
  ultimately show ?thesis
    using ext_inv_set_job [OF assms(1), of "ew_exec w" i "?j\<lparr>jb_ctx := Some err\<rparr>"] by simp
qed

lemma ext_reach_inv: "ext_reach a b c w \<Longrightarrow> ext_inv w"
proof (induction rule: ext_reach.induct)
  case start
  show ?case by (simp add: ext_inv_def ext_counts_def newExtExecutor_def held_def)
next
  case (submit w cls)
  then show ?case by (auto simp: ext_inv_def ext_counts_def held_def parked_ok_def armed_ok_def)
next
  case (poll w i)
  then show ?case by (simp add: ext_inv_poll)
next
  case (cancel w i err)
  then show ?case by (simp add: ext_inv_cancel)
next
  case (fire w i)
  then show ?case by (simp add: ext_inv_fire)
next
  case (release w i)
  then show ?case by (simp add: ext_inv_release)
qed

lemma ext_limits: "ext_reach a b c w \<Longrightarrow> limits (ew_exec w) = limits (newExtExecutor a b c)"
  by (induction rule: ext_reach.induct)
    (auto simp: job_poll_def Let_def Acquire_poll_def set_job_def Broadcast_def job_release_def ext_release_def
      split: option.splits)

text \<open>
  C13. In every reachable state of the extraction executor, whatever jobs were submitted, cancelled and
  released in whatever order: the in-flight counter of a class is the number of jobs that hold a slot
  of it, and never above its limit; and no wakeup is lost: a job that waits faces a class that is full,
  and its context is live or the callback that will wake it has yet to run.
\<close>

theorem executor_admission:
  assumes "ext_reach window heavy analyze w"
  shows "inflight (ew_exec w) cls = held cls (ew_jobs w) \<and>
    held cls (ew_jobs w) \<le> max 0 (limits (newExtExecutor window heavy analyze) cls) \<and>
    (\<forall>j \<in> set (ew_jobs w). jb_state j = JParked \<longrightarrow>
       inflight (ew_exec w) (jb_cls j) = limits (newExtExecutor window heavy analyze) (jb_cls j) \<and>
       (jb_ctx j = None \<or> jb_armed j))"
proof -
  have inv: "ext_inv w" using assms by (rule ext_reach_inv)
  have *: "inflight (ew_exec w) c = held c (ew_jobs w)" "held c (ew_jobs w) \<le> max 0 (limits (ew_exec w) c)" for c
    using inv by (auto simp: ext_inv_def ext_counts_def)
  have "inflight (ew_exec w) (jb_cls j) = limits (ew_exec w) (jb_cls j) \<and> (jb_ctx j = None \<or> jb_armed j)"
    if "j \<in> set (ew_jobs w)" "jb_state j = JParked" for j
    using inv that * [of "jb_cls j"] by (auto simp: ext_inv_def parked_ok_def)
  with * [of cls] ext_limits [OF assms] show ?thesis by simp
qed

theorem executor_admission_witness:
  "\<exists>w. ext_reach 1 1 1 w \<and> map jb_state (ew_jobs w) = [JHolds, JParked] \<and>
     inflight (ew_exec w) extHeavy = 1 \<and>
     (\<forall>j \<in> set (ew_jobs w). jb_state j = JParked \<longrightarrow> inflight (ew_exec w) (jb_cls j) = 1)"
proof -
  let ?new = "\<lparr>jb_cls = extHeavy, jb_state = JRun, jb_ctx = None, jb_armed = True\<rparr>"
  let ?init = "\<lparr>ew_exec = newExtExecutor 1 1 1, ew_jobs = []\<rparr>"
  let ?two = "\<lparr>ew_exec = newExtExecutor 1 1 1, ew_jobs = [?new, ?new]\<rparr>"
  let ?fin = "job_poll 1 (job_poll 0 ?two)"
  have r0: "ext_reach 1 1 1 ?init" by (rule ext_reach.start)
  have r2: "ext_reach 1 1 1 ?two"
    using ext_reach.submit [OF ext_reach.submit [OF r0, of extHeavy], of extHeavy] by simp
  have r3: "ext_reach 1 1 1 (job_poll 0 ?two)" by (rule ext_reach.poll [OF r2]) simp_all
  have r: "ext_reach 1 1 1 ?fin"
    by (rule ext_reach.poll [OF r3])
      (simp_all add: job_poll_def Acquire_poll_def newExtExecutor_def set_job_def stop_job_def)
  have st: "map jb_state (ew_jobs ?fin) = [JHolds, JParked]" "inflight (ew_exec ?fin) extHeavy = 1"
    "\<forall>j \<in> set (ew_jobs ?fin). jb_cls j = extHeavy"
    by (simp_all add: job_poll_def Acquire_poll_def newExtExecutor_def set_job_def stop_job_def)
  have p: "\<forall>j \<in> set (ew_jobs ?fin). jb_state j = JParked \<longrightarrow> inflight (ew_exec ?fin) (jb_cls j) = 1"
    using executor_admission [OF r, of extHeavy] st by (auto simp: newExtExecutor_def)
  show ?thesis by (rule exI [of _ ?fin]) (intro conjI r st(1,2) p)
qed

section \<open>Channels as semaphores\<close>

text \<open>\<^verbatim>\<open>make(chan struct{}, limit)\<close>: a negative capacity panics.\<close>

record semaphore =
  sem_cap :: int
  sem_len :: int

definition make_chan :: "int \<Rightarrow> semaphore option" where
  "make_chan limit = (if limit < 0 then None else Some \<lparr>sem_cap = limit, sem_len = 0\<rparr>)"

definition chan_send :: "semaphore \<Rightarrow> semaphore option" where
  "chan_send g = (if sem_len g < sem_cap g then Some (g\<lparr>sem_len := sem_len g + 1\<rparr>) else None)"

definition chan_recv :: "semaphore \<Rightarrow> semaphore option" where
  "chan_recv g = (if 0 < sem_len g then Some (g\<lparr>sem_len := sem_len g - 1\<rparr>) else None)"

text \<open>
  A \<^verbatim>\<open>select\<close> takes any branch that is ready: which one is the argument \<open>sel\<close>. \<open>None\<close>: that branch is not
  ready, so this choice cannot happen.
\<close>

datatype sel_branch = SelToken | SelCtx ctx_error | SelTimer

datatype admission_error = AdmissionCtx ctx_error | AdmissionWaitExpired | AdmissionBusy

subsection \<open>The admission gates of the rendition manager\<close>

definition newAdmissionGate :: "int \<Rightarrow> semaphore option" where
  "newAdmissionGate limit = make_chan limit"

definition gate_acquire :: "int \<Rightarrow> sel_branch \<Rightarrow> semaphore \<Rightarrow> (semaphore \<times> admission_error option) option" where
  "gate_acquire wait sel g =
     (case sel of
        SelToken \<Rightarrow> map_option (\<lambda>g'. (g', None)) (chan_send g)
      | SelCtx err \<Rightarrow> Some (g, Some (AdmissionCtx err))
      | SelTimer \<Rightarrow> if wait \<le> 0 then None else Some (g, Some AdmissionWaitExpired))"

definition gate_tryAcquire :: "semaphore \<Rightarrow> semaphore \<times> admission_error option" where
  "gate_tryAcquire g = (case chan_send g of Some g' \<Rightarrow> (g', None) | None \<Rightarrow> (g, Some AdmissionBusy))"

definition gate_release :: "semaphore \<Rightarrow> semaphore option" where
  "gate_release g = chan_recv g"

definition gate_inUse :: "semaphore \<Rightarrow> int" where
  "gate_inUse g = sem_len g"

interpretation adm: token_gate gate_inUse sem_cap chan_send gate_release
  by unfold_locales
    (auto simp: gate_inUse_def chan_send_def gate_release_def chan_recv_def split: if_splits)

type_synonym admissionRegistry = "(string \<times> semaphore) list"

text \<open>\<^verbatim>\<open>gate\<close> returns the gate of a key, made at its first use; the limit of later calls is ignored.\<close>

definition registry_gate :: "string \<Rightarrow> int \<Rightarrow> admissionRegistry \<Rightarrow> admissionRegistry \<times> semaphore option" where
  "registry_gate key limit r =
     (case map_of r key of
        Some g \<Rightarrow> (r, Some g)
      | None \<Rightarrow> (case newAdmissionGate limit of
                   None \<Rightarrow> (r, None)
                 | Some g \<Rightarrow> (AList.update key g r, Some g)))"

subsection \<open>The gate of video transcodes\<close>

definition maxVideoTranscodeConcurrency :: int where
  "maxVideoTranscodeConcurrency = 8"

definition newVideoTranscodeGate :: "int \<Rightarrow> semaphore option" where
  "newVideoTranscodeGate limit = make_chan limit"

definition transcode_acquire :: "sel_branch \<Rightarrow> semaphore \<Rightarrow> (semaphore \<times> ctx_error option) option" where
  "transcode_acquire sel g =
     (case sel of
        SelToken \<Rightarrow> map_option (\<lambda>g'. (g', None)) (chan_send g)
      | SelCtx err \<Rightarrow> Some (g, Some err)
      | SelTimer \<Rightarrow> None)"

definition transcode_take :: "semaphore \<Rightarrow> semaphore option" where
  "transcode_take g = map_option fst (transcode_acquire SelToken g)"

definition parseVideoTranscodeLimit :: "string \<Rightarrow> int" where
  "parseVideoTranscodeLimit value =
     (case Atoi (TrimSpace value) of
        None \<Rightarrow> 1
      | Some limit \<Rightarrow>
          if limit < 1 then 1
          else if limit > maxVideoTranscodeConcurrency then maxVideoTranscodeConcurrency else limit)"

definition processVideoTranscodes :: "string \<Rightarrow> semaphore option" where
  "processVideoTranscodes env = newVideoTranscodeGate (parseVideoTranscodeLimit env)"

interpretation vtg: token_gate sem_len sem_cap transcode_take chan_recv
  by unfold_locales
    (auto simp: transcode_take_def transcode_acquire_def chan_send_def chan_recv_def split: if_splits)

lemma parse_limit_range: "1 \<le> parseVideoTranscodeLimit v" "parseVideoTranscodeLimit v \<le> 8"
  by (auto simp: parseVideoTranscodeLimit_def maxVideoTranscodeConcurrency_def split: option.splits)

text \<open>
  The gate of video transcodes, for every value of its environment variable: it can be built, at
  most eight transcodes hold a slot, the slots in use are the transcodes not yet released whatever
  release function is called how often, a release never blocks, and a free gate admits.
\<close>

theorem transcode_gate_bounded:
  "\<exists>g. processVideoTranscodes env = Some g \<and>
    (\<forall>ops g' ts i. gate_run transcode_take chan_recv ops (g, []) = Some (g', ts) \<longrightarrow>
       sem_len g' = outstanding ts \<and> sem_len g' \<le> 8 \<and>
       gate_step transcode_take chan_recv (ReleaseOp i) (g', ts) \<noteq> None \<and>
       (outstanding ts = 0 \<longrightarrow> gate_step transcode_take chan_recv TakeOp (g', ts) \<noteq> None))"
proof -
  let ?g = "\<lparr>sem_cap = parseVideoTranscodeLimit env, sem_len = 0\<rparr>"
  have g: "processVideoTranscodes env = Some ?g"
    using parse_limit_range(1) [of env]
    by (simp add: processVideoTranscodes_def newVideoTranscodeGate_def make_chan_def)
  have "sem_len g' = outstanding ts \<and> sem_len g' \<le> 8 \<and>
       gate_step transcode_take chan_recv (ReleaseOp i) (g', ts) \<noteq> None \<and>
       (outstanding ts = 0 \<longrightarrow> gate_step transcode_take chan_recv TakeOp (g', ts) \<noteq> None)"
    if r: "gate_run transcode_take chan_recv ops (?g, []) = Some (g', ts)" for ops g' ts i
  proof -
    have b: "sem_len g' = outstanding ts" "0 < sem_len g' \<longrightarrow> sem_len g' \<le> sem_cap g'"
      "sem_cap g' = parseVideoTranscodeLimit env"
      using vtg.run_balanced [OF r] by auto
    have "gate_step transcode_take chan_recv TakeOp (g', ts) \<noteq> None" if "outstanding ts = 0"
      using vtg.take_free [of g'] that b parse_limit_range(1) [of env] by simp
    with b parse_limit_range(2) [of env] vtg.release_never_blocks [OF b(1), of i] show ?thesis by auto
  qed
  with g show ?thesis by blast
qed

theorem transcode_gate_bounded_witness:
  "\<exists>g'. processVideoTranscodes '' 2 '' \<noteq> None \<and>
     gate_run transcode_take chan_recv [TakeOp, TakeOp, ReleaseOp 0, ReleaseOp 0]
       (\<lparr>sem_cap = 2, sem_len = 0\<rparr>, []) = Some (g', [False, True]) \<and>
     sem_len g' = 1 \<and> gate_step transcode_take chan_recv (ReleaseOp 1) (g', [False, True]) \<noteq> None"
proof -
  have g: "processVideoTranscodes '' 2 '' = Some \<lparr>sem_cap = 2, sem_len = 0\<rparr>"
    by (simp add: processVideoTranscodes_def newVideoTranscodeGate_def make_chan_def parseVideoTranscodeLimit_def
        TrimSpace_def is_space_def Atoi_def parse_nat_def digit_val_def in_int64_def maxVideoTranscodeConcurrency_def)
  have r: "gate_run transcode_take chan_recv [TakeOp, TakeOp, ReleaseOp 0, ReleaseOp 0]
       (\<lparr>sem_cap = 2, sem_len = 0\<rparr>, []) = Some (\<lparr>sem_cap = 2, sem_len = 1\<rparr>, [False, True])"
    by (simp add: transcode_take_def transcode_acquire_def chan_send_def chan_recv_def)
  from transcode_gate_bounded [of "'' 2 ''"] g
  have "gate_run transcode_take chan_recv ops (\<lparr>sem_cap = 2, sem_len = 0\<rparr>, []) = Some (g', ts) \<Longrightarrow>
      gate_step transcode_take chan_recv (ReleaseOp i) (g', ts) \<noteq> None" for ops g' ts i
    by (metis option.inject)
  from this [OF r, of 1] have s: "gate_step transcode_take chan_recv (ReleaseOp 1)
      (\<lparr>sem_cap = 2, sem_len = 1\<rparr>, [False, True]) \<noteq> None" .
  show ?thesis
    by (rule exI [of _ "\<lparr>sem_cap = 2, sem_len = 1\<rparr>"], intro conjI) (simp add: g, rule r, simp, rule s)
qed

end
