(* ===== verification/Rendition.thy ===== *)
theory Rendition
  imports Complex_Main Gates "HOL-Library.Product_Lexorder" "HOL-Library.Multiset"
begin

text \<open>
  The rendition manager (\<^verbatim>\<open>media/rendition\<close>): failures and their categories, the generation lifecycle,
  the choice of candidates, admission, the acquisition of a rendition step by step, and the calls on
  a managed rendition. Providers and pipelines are interfaces without an implementation in the
  repository: what \<^verbatim>\<open>Prepare\<close>, \<^verbatim>\<open>PrimedOutput\<close> and \<^verbatim>\<open>Segment\<close> return are arguments. Concurrent calls of
  \<^verbatim>\<open>Acquire\<close> interleave at their critical sections; performance scores are exact rationals.
\<close>

section \<open>Failures\<close>

datatype FailureCategory =
    FailureDeviceUnavailable
  | FailureSourceCapability
  | FailureResourceExhausted
  | FailureAdmissionTimeout
  | FailureSourceIO
  | FailureCancelled
  | FailureInvalidOutput
  | FailureMux

fun category_string :: "FailureCategory \<Rightarrow> string" where
  "category_string FailureDeviceUnavailable = ''device_unavailable''"
| "category_string FailureSourceCapability = ''source_capability_mismatch''"
| "category_string FailureResourceExhausted = ''provider_resource_exhausted''"
| "category_string FailureAdmissionTimeout = ''admission_timeout''"
| "category_string FailureSourceIO = ''source_io''"
| "category_string FailureCancelled = ''cancelled''"
| "category_string FailureInvalidOutput = ''invalid_output''"
| "category_string FailureMux = ''mux_failure''"

text \<open>
  Go error values of the package: a \<^verbatim>\<open>RenditionError\<close> with its cause, the sentinels it compares with, a
  plain error with its text, and an error wrapped by \<^verbatim>\<open>%w\<close>.
\<close>

datatype rerror =
    RenditionError (re_category: FailureCategory) (re_provider: string) (re_deviceID: string)
      (re_stage: string) (re_generation: string) (re_cause: rerror)
  | CtxErr ctx_error
  | EOFErr
  | WaitExpiredErr
  | BusyErr
  | ReleasedErr
  | MsgErr string
  | WrapErr string rerror

fun errors_As :: "rerror \<Rightarrow> rerror option" where
  "errors_As (RenditionError c p d s g e) = Some (RenditionError c p d s g e)"
| "errors_As (WrapErr m e) = errors_As e"
| "errors_As _ = None"

fun errors_Is :: "rerror \<Rightarrow> rerror \<Rightarrow> bool" where
  "errors_Is (RenditionError c p d s g e) t \<longleftrightarrow> RenditionError c p d s g e = t \<or> errors_Is e t"
| "errors_Is (WrapErr m e) t \<longleftrightarrow> WrapErr m e = t \<or> errors_Is e t"
| "errors_Is e t \<longleftrightarrow> e = t"

definition newFailure :: "FailureCategory \<Rightarrow> string \<Rightarrow> string \<Rightarrow> string \<Rightarrow> rerror option \<Rightarrow> rerror" where
  "newFailure category provider deviceID stage cause =
     RenditionError category provider deviceID stage ''''
       (case cause of Some e \<Rightarrow> e | None \<Rightarrow> MsgErr (category_string category))"

text \<open>\<^verbatim>\<open>Error()\<close>: the text of an error.\<close>

fun error_text :: "rerror \<Rightarrow> string" where
  "error_text (RenditionError c p d s g e) =
     (let t1 = (if d \<noteq> '''' then p @ ''/'' @ d else p);
          t2 = (if t1 = '''' then ''video'' else t1)
      in ''rendition: '' @ t2 @ '': '' @ category_string c @ '' at '' @ s @ '': '' @ error_text e)"
| "error_text (CtxErr CtxCanceled) = ''context canceled''"
| "error_text (CtxErr CtxDeadlineExceeded) = ''context deadline exceeded''"
| "error_text EOFErr = ''EOF''"
| "error_text WaitExpiredErr = ''admission wait expired''"
| "error_text BusyErr = ''admission capacity is busy''"
| "error_text ReleasedErr = ''rendition: released''"
| "error_text (MsgErr m) = m"
| "error_text (WrapErr m e) = m @ error_text e"

definition is_ctx_error :: "rerror \<Rightarrow> bool" where
  "is_ctx_error e \<longleftrightarrow> errors_Is e (CtxErr CtxCanceled) \<or> errors_Is e (CtxErr CtxDeadlineExceeded)"

definition FailureCategoryOf :: "rerror \<Rightarrow> FailureCategory" where
  "FailureCategoryOf err =
     (case errors_As err of
        Some failure \<Rightarrow> re_category failure
      | None \<Rightarrow> if is_ctx_error err then FailureCancelled else FailureInvalidOutput)"

definition set_generation :: "string \<Rightarrow> rerror \<Rightarrow> rerror" where
  "set_generation gid e =
     RenditionError (re_category e) (re_provider e) (re_deviceID e) (re_stage e) gid (re_cause e)"

definition withGeneration :: "rerror \<Rightarrow> string \<Rightarrow> rerror" where
  "withGeneration err generationID =
     (case errors_As err of
        Some failure \<Rightarrow> set_generation generationID failure
      | None \<Rightarrow>
          set_generation generationID
            (newFailure (if is_ctx_error err then FailureCancelled else FailureInvalidOutput)
               '''' '''' ''segment'' (Some err)))"

definition canFallbackBeforeCommit :: "rerror \<Rightarrow> bool" where
  "canFallbackBeforeCommit err \<longleftrightarrow>
     FailureCategoryOf err \<in> {FailureDeviceUnavailable, FailureSourceCapability, FailureResourceExhausted,
       FailureAdmissionTimeout, FailureInvalidOutput, FailureMux}"

lemma errors_As_shape: "errors_As e = Some f \<Longrightarrow> \<exists>c p d s g e'. f = RenditionError c p d s g e'"
  by (induction e rule: errors_As.induct) auto

lemma withGeneration_props:
  "re_generation (withGeneration e gid) = gid"
  "FailureCategoryOf (withGeneration e gid) = FailureCategoryOf e"
  "is_RenditionError (withGeneration e gid)"
  by (auto simp: withGeneration_def set_generation_def newFailure_def FailureCategoryOf_def
      split: option.splits dest!: errors_As_shape)

section \<open>The generation lifecycle\<close>

datatype generationState =
    generationDiscovered
  | generationCandidatePrepared
  | generationPrimed
  | generationCommitted
  | generationRunning
  | generationComplete
  | generationFailed

fun generationState_String :: "generationState \<Rightarrow> string" where
  "generationState_String generationDiscovered = ''discovered''"
| "generationState_String generationCandidatePrepared = ''candidate_prepared''"
| "generationState_String generationPrimed = ''primed''"
| "generationState_String generationCommitted = ''committed''"
| "generationState_String generationRunning = ''running''"
| "generationState_String generationComplete = ''complete''"
| "generationState_String generationFailed = ''failed''"

definition newGenerationLifecycle :: generationState where
  "newGenerationLifecycle = generationDiscovered"

definition transition_valid :: "generationState \<Rightarrow> generationState \<Rightarrow> bool" where
  "transition_valid cur next =
     (case cur of
        generationDiscovered \<Rightarrow> next = generationCandidatePrepared
      | generationCandidatePrepared \<Rightarrow> next = generationPrimed
      | generationPrimed \<Rightarrow> next = generationCommitted
      | generationCommitted \<Rightarrow> next = generationRunning \<or> next = generationFailed
      | generationRunning \<Rightarrow> next = generationComplete \<or> next = generationFailed
      | _ \<Rightarrow> False)"

text \<open>\<^verbatim>\<open>transition\<close>: the new state, or the error and the old state.\<close>

definition transition :: "generationState \<Rightarrow> generationState \<Rightarrow> generationState \<times> rerror option" where
  "transition cur next =
     (if transition_valid cur next then (next, None)
      else (cur, Some (MsgErr (''rendition: invalid generation transition '' @
              generationState_String cur @ '' -> '' @ generationState_String next))))"

section \<open>Requests and contracts\<close>

record Rational =
  rat_Num :: int
  rat_Den :: int

record RateControl =
  rc_TargetBitrate :: int
  rc_MaxBitrate :: int

record GOPContract =
  gop_SegmentDuration :: Rational
  gop_Closed :: bool
  gop_IDRAtBoundary :: bool

record ColorContract =
  col_Primaries :: string
  col_Transfer :: string
  col_Matrix :: string
  col_Range :: string

record OutputContract =
  oc_Codec :: string
  oc_CodecString :: string
  oc_Profile :: string
  oc_Level :: string
  oc_Width :: int
  oc_Height :: int
  oc_PixelFormat :: string
  oc_FrameRate :: Rational
  oc_TimeBase :: Rational
  oc_RateControl :: RateControl
  oc_GOP :: GOPContract
  oc_Color :: ColorContract

record InputSpec =
  is_SourceID :: string
  is_Codec :: string
  is_Profile :: string
  is_Width :: int
  is_Height :: int
  is_BitDepth :: int
  is_HDR :: bool

record RenditionRequest =
  rq_Source :: InputSpec
  rq_Output :: OutputContract

record RenditionDescriptor =
  ds_GenerationID :: string
  ds_Output :: OutputContract
  ds_Bandwidth :: int
  ds_Provider :: string
  ds_DeviceID :: string
  ds_ExtradataFingerprint :: string

definition validateOutputContract :: "OutputContract \<Rightarrow> rerror option" where
  "validateOutputContract c =
     (if oc_Codec c \<noteq> ''h264'' \<or> oc_CodecString c = '''' \<or> oc_Profile c \<noteq> ''high'' \<or> oc_Level c = ''''
      then Some (MsgErr ''H.264 High profile, level, and codec string are required'')
      else if oc_Width c \<le> 0 \<or> oc_Height c \<le> 0 \<or> oc_Width c smod 2 \<noteq> 0 \<or> oc_Height c smod 2 \<noteq> 0
      then Some (MsgErr ''4:2:0 dimensions must be positive and even'')
      else if oc_PixelFormat c \<noteq> ''yuv420p''
      then Some (MsgErr ''8-bit yuv420p output is required'')
      else if rat_Num (oc_FrameRate c) \<le> 0 \<or> rat_Den (oc_FrameRate c) \<le> 0 \<or>
              rat_Num (oc_TimeBase c) \<le> 0 \<or> rat_Den (oc_TimeBase c) \<le> 0
      then Some (MsgErr ''positive frame rate and time base are required'')
      else if rc_TargetBitrate (oc_RateControl c) \<le> 0 \<or>
              rc_MaxBitrate (oc_RateControl c) < rc_TargetBitrate (oc_RateControl c)
      then Some (MsgErr ''valid constrained-VBR bitrate envelope is required'')
      else if rat_Num (gop_SegmentDuration (oc_GOP c)) \<le> 0 \<or> rat_Den (gop_SegmentDuration (oc_GOP c)) \<le> 0 \<or>
              \<not> gop_Closed (oc_GOP c) \<or> \<not> gop_IDRAtBoundary (oc_GOP c)
      then Some (MsgErr ''closed GOP with an IDR at every segment boundary is required'')
      else if col_Primaries (oc_Color c) \<noteq> ''bt709'' \<or> col_Transfer (oc_Color c) \<noteq> ''bt709'' \<or>
              col_Matrix (oc_Color c) \<noteq> ''bt709'' \<or> col_Range (oc_Color c) = ''''
      then Some (MsgErr ''explicit SDR BT.709 color contract is required'')
      else None)"

section \<open>Providers, options and the manager\<close>

datatype DecodeMode = DecodeModeCopy | DecodeModeHardware | DecodeModeSoftware

datatype providerKind = providerCopy | providerHardware | providerCPU

record device =
  dev_ID :: string
  dev_PerformanceScore :: rat

record videoProvider =
  vp_Name :: string
  vp_Kind :: providerKind
  vp_Inventory :: "device list"

record pipelineOutput =
  po_Contract :: OutputContract
  po_Init :: "byte list"
  po_ExtradataFingerprint :: string

record pipelineCandidate =
  pc_provider :: videoProvider
  pc_device :: device
  pc_mode :: DecodeMode

record ManagerOptions =
  mo_DeviceOrder :: "string list"
  mo_PerDeviceConcurrency :: int
  mo_CPUConcurrency :: int
  mo_CPUAdmissionWait :: int

record videoRenditionManager =
  vm_providers :: "videoProvider list"
  vm_deviceRank :: "(string \<times> nat) list"
  vm_perDeviceConcurrency :: int
  vm_cpuConcurrency :: int
  vm_cpuAdmissionWait :: int

fun deviceRanks :: "nat \<Rightarrow> string list \<Rightarrow> (string \<times> nat) list \<Rightarrow> (string \<times> nat) list" where
  "deviceRanks i [] ranks = ranks"
| "deviceRanks i (identity # ids) ranks =
     deviceRanks (Suc i) ids (if map_of ranks identity = None then AList.update identity i ranks else ranks)"

definition newVideoRenditionManager :: "ManagerOptions \<Rightarrow> videoProvider list \<Rightarrow> videoRenditionManager" where
  "newVideoRenditionManager options providers =
     \<lparr>vm_providers = providers,
      vm_deviceRank = deviceRanks 0 (mo_DeviceOrder options) [],
      vm_perDeviceConcurrency = (if mo_PerDeviceConcurrency options \<le> 0 then 1 else mo_PerDeviceConcurrency options),
      vm_cpuConcurrency = (if mo_CPUConcurrency options \<le> 0 then 1 else mo_CPUConcurrency options),
      vm_cpuAdmissionWait = (if mo_CPUAdmissionWait options \<le> 0 then 2000000000 else mo_CPUAdmissionWait options)\<rparr>"

definition device_key :: "videoProvider \<Rightarrow> device \<Rightarrow> string" where
  "device_key p d = vp_Name p @ ''/'' @ dev_ID d"

definition cand_key :: "pipelineCandidate \<Rightarrow> string" where
  "cand_key c = device_key (pc_provider c) (pc_device c)"

section \<open>Candidates\<close>

definition mk_cand :: "DecodeMode \<Rightarrow> videoProvider \<times> device \<Rightarrow> pipelineCandidate" where
  "mk_cand mode pd = \<lparr>pc_provider = fst pd, pc_device = snd pd, pc_mode = mode\<rparr>"

definition inventory :: "videoRenditionManager \<Rightarrow> (videoProvider \<times> device) list" where
  "inventory m = concat (map (\<lambda>p. map (\<lambda>d. (p, d)) (vp_Inventory p)) (vm_providers m))"

definition of_kind :: "providerKind \<Rightarrow> videoRenditionManager \<Rightarrow> (videoProvider \<times> device) list" where
  "of_kind k m = filter (\<lambda>(p, d). vp_Kind p = k) (inventory m)"

definition allowed :: "videoRenditionManager \<Rightarrow> videoProvider \<times> device \<Rightarrow> bool" where
  "allowed m pd \<longleftrightarrow> vm_deviceRank m = [] \<or> map_of (vm_deviceRank m) (device_key (fst pd) (snd pd)) \<noteq> None"

definition key_inUse :: "videoRenditionManager \<Rightarrow> admissionRegistry \<Rightarrow> string \<Rightarrow> int" where
  "key_inUse m reg key =
     (case registry_gate key (vm_perDeviceConcurrency m) reg of
        (_, Some g) \<Rightarrow> gate_inUse g
      | (_, None) \<Rightarrow> 0)"

text \<open>
  The order \<^verbatim>\<open>sortCandidates\<close> sorts by: hardware by tokens in use, then by the configured rank or, without
  one, like the others by falling performance score.
\<close>

definition cand_rank :: "videoRenditionManager \<Rightarrow> admissionRegistry \<Rightarrow> pipelineCandidate \<Rightarrow> int \<times> rat" where
  "cand_rank m reg c =
     (if vp_Kind (pc_provider c) = providerHardware then key_inUse m reg (cand_key c) else 0,
      if vm_deviceRank m \<noteq> [] \<and> vp_Kind (pc_provider c) = providerHardware
      then of_nat (case map_of (vm_deviceRank m) (cand_key c) of None \<Rightarrow> 0 | Some r \<Rightarrow> r)
      else - dev_PerformanceScore (pc_device c))"

definition sortCandidates :: "videoRenditionManager \<Rightarrow> admissionRegistry \<Rightarrow> pipelineCandidate list \<Rightarrow> pipelineCandidate list"
where
  "sortCandidates m reg cs = sort_key (cand_rank m reg) cs"

text \<open>Comparing hardware candidates makes the gates of their devices.\<close>

definition touchGates :: "videoRenditionManager \<Rightarrow> pipelineCandidate list \<Rightarrow> admissionRegistry \<Rightarrow> admissionRegistry" where
  "touchGates m cs reg =
     (if length cs < 2 then reg
      else fold (\<lambda>c r. fst (registry_gate (cand_key c) (vm_perDeviceConcurrency m) r)) cs reg)"

definition candidates :: "videoRenditionManager \<Rightarrow> admissionRegistry \<Rightarrow> admissionRegistry \<times> pipelineCandidate list" where
  "candidates m reg =
     (let hw = filter (allowed m) (of_kind providerHardware m)
      in (touchGates m (map (mk_cand DecodeModeHardware) hw) reg,
          sortCandidates m reg (map (mk_cand DecodeModeCopy) (of_kind providerCopy m)) @
          sortCandidates m reg (map (mk_cand DecodeModeHardware) hw) @
          sortCandidates m reg (map (mk_cand DecodeModeSoftware) hw) @
          sortCandidates m reg (map (mk_cand DecodeModeSoftware) (of_kind providerCPU m))))"

section \<open>Admission\<close>

definition cand_failure :: "FailureCategory \<Rightarrow> pipelineCandidate \<Rightarrow> string \<Rightarrow> rerror \<Rightarrow> rerror" where
  "cand_failure category c stage err =
     newFailure category (vp_Name (pc_provider c)) (dev_ID (pc_device c)) stage (Some err)"

text \<open>
  \<^verbatim>\<open>admit\<close>: the registry and either the failure or the key of the token taken (none for a copy). The outer
  \<open>None\<close>: the chosen branch of the \<^verbatim>\<open>select\<close> is not ready.
\<close>

definition admit_cpu ::
  "videoRenditionManager \<Rightarrow> sel_branch \<Rightarrow> pipelineCandidate \<Rightarrow> admissionRegistry \<Rightarrow>
     (admissionRegistry \<times> (rerror + string option)) option"
where
  "admit_cpu m sel c reg =
     (case registry_gate ''cpu'' (vm_cpuConcurrency m) reg of
        (_, None) \<Rightarrow> None
      | (reg1, Some g) \<Rightarrow>
          (case gate_acquire (vm_cpuAdmissionWait m) sel g of
             None \<Rightarrow> None
           | Some (g', None) \<Rightarrow> Some (AList.update ''cpu'' g' reg1, Inr (Some ''cpu''))
           | Some (_, Some AdmissionWaitExpired) \<Rightarrow>
               Some (reg1, Inl (cand_failure FailureAdmissionTimeout c ''admission'' WaitExpiredErr))
           | Some (_, Some AdmissionBusy) \<Rightarrow>
               Some (reg1, Inl (cand_failure FailureCancelled c ''admission'' BusyErr))
           | Some (_, Some (AdmissionCtx err)) \<Rightarrow>
               Some (reg1, Inl (cand_failure FailureCancelled c ''admission'' (CtxErr err)))))"

definition admit_hardware ::
  "videoRenditionManager \<Rightarrow> pipelineCandidate \<Rightarrow> admissionRegistry \<Rightarrow>
     (admissionRegistry \<times> (rerror + string option)) option"
where
  "admit_hardware m c reg =
     (case registry_gate (cand_key c) (vm_perDeviceConcurrency m) reg of
        (_, None) \<Rightarrow> None
      | (reg1, Some g) \<Rightarrow>
          (case gate_tryAcquire g of
             (g', None) \<Rightarrow> Some (AList.update (cand_key c) g' reg1, Inr (Some (cand_key c)))
           | (_, Some _) \<Rightarrow>
               Some (reg1, Inl (cand_failure FailureResourceExhausted c ''admission'' BusyErr))))"

definition admit ::
  "videoRenditionManager \<Rightarrow> sel_branch \<Rightarrow> pipelineCandidate \<Rightarrow> admissionRegistry \<Rightarrow>
     (admissionRegistry \<times> (rerror + string option)) option"
where
  "admit m sel c reg =
     (case vp_Kind (pc_provider c) of
        providerCopy \<Rightarrow> Some (reg, Inr None)
      | providerCPU \<Rightarrow> admit_cpu m sel c reg
      | providerHardware \<Rightarrow> admit_hardware m c reg)"

definition releaseAdmission :: "string option \<Rightarrow> admissionRegistry \<Rightarrow> admissionRegistry option" where
  "releaseAdmission tok reg =
     (case tok of
        None \<Rightarrow> Some reg
      | Some key \<Rightarrow>
          (case map_of reg key of
             None \<Rightarrow> None
           | Some g \<Rightarrow> map_option (\<lambda>g'. AList.update key g' reg) (gate_release g)))"

section \<open>Managed renditions\<close>

record 'p managedRendition =
  mr_descriptor :: RenditionDescriptor
  mr_init :: "byte list"
  mr_pipeline :: 'p
  mr_lifecycle :: generationState
  mr_terminalErr :: "rerror option"
  mr_token :: "string option"
  mr_released :: bool

definition managed_Init :: "'p managedRendition \<Rightarrow> rerror + byte list" where
  "managed_Init r = (if mr_released r then Inl ReleasedErr else Inr (mr_init r))"

text \<open>
  \<^verbatim>\<open>Segment\<close>, given what the pipeline answers. The result after a terminal failure is the stored error,
  possibly nil (\<open>None\<close>) with no data.
\<close>

definition enter_running :: "generationState \<Rightarrow> generationState \<times> rerror option" where
  "enter_running l = (if l = generationCommitted then transition l generationRunning else (l, None))"

definition segment_failed ::
  "rerror \<Rightarrow> 'p managedRendition \<Rightarrow> 'p managedRendition \<times> (rerror option + byte list)"
where
  "segment_failed err r =
     (if FailureCategoryOf err = FailureCancelled then (r, Inl (Some err))
      else (r\<lparr>mr_terminalErr := Some err,
              mr_lifecycle := fst (transition (mr_lifecycle r)
                (if errors_Is err EOFErr then generationComplete else generationFailed))\<rparr>,
            Inl (Some err)))"

definition managed_Segment ::
  "rerror + byte list \<Rightarrow> 'p managedRendition \<Rightarrow> 'p managedRendition \<times> (rerror option + byte list)"
where
  "managed_Segment answer r =
     (if mr_released r then (r, Inl (Some ReleasedErr))
      else if mr_lifecycle r = generationFailed \<or> mr_lifecycle r = generationComplete
      then (r, Inl (mr_terminalErr r))
      else
        (case enter_running (mr_lifecycle r) of
           (l, Some e) \<Rightarrow> (r, Inl (Some (withGeneration e (ds_GenerationID (mr_descriptor r)))))
         | (l, None) \<Rightarrow>
             (case answer of
                Inr segment \<Rightarrow> (r\<lparr>mr_lifecycle := l\<rparr>, Inr segment)
              | Inl err \<Rightarrow>
                  segment_failed (withGeneration err (ds_GenerationID (mr_descriptor r))) (r\<lparr>mr_lifecycle := l\<rparr>))))"

text \<open>\<^verbatim>\<open>Release\<close>: the registry, the rendition and the pipelines closed. Only the first call does anything.\<close>

definition managed_Release ::
  "'p managedRendition \<Rightarrow> admissionRegistry \<Rightarrow> (admissionRegistry \<times> 'p managedRendition \<times> 'p list) option"
where
  "managed_Release r reg =
     (if mr_released r then Some (reg, r, [])
      else map_option (\<lambda>reg'. (reg', r\<lparr>mr_released := True\<rparr>, [mr_pipeline r])) (releaseAdmission (mr_token r) reg))"

section \<open>Acquire\<close>

text \<open>
  One call of \<^verbatim>\<open>Acquire\<close>: at the head of its loop with the candidates left, the last failure and the
  hardware contention seen; between admission and the answer of \<^verbatim>\<open>Prepare\<close>; or returned.
\<close>

datatype 'p acq_phase =
    AcqNext "pipelineCandidate list" "rerror option" "rerror option"
  | AcqPreparing pipelineCandidate "string option" "pipelineCandidate list" "rerror option"
  | AcqFailed rerror
  | AcqGot "'p managedRendition"

definition hw_contention :: "pipelineCandidate \<Rightarrow> rerror \<Rightarrow> bool" where
  "hw_contention c err \<longleftrightarrow>
     vp_Kind (pc_provider c) = providerHardware \<and> FailureCategoryOf err = FailureResourceExhausted"

definition attempt_failed :: "pipelineCandidate \<Rightarrow> rerror \<Rightarrow> pipelineCandidate list \<Rightarrow> rerror option \<Rightarrow> 'p acq_phase" where
  "attempt_failed c err rest contention =
     (if canFallbackBeforeCommit err
      then AcqNext rest (Some err) (if hw_contention c err then Some err else contention)
      else AcqFailed err)"

definition acq_begin ::
  "videoRenditionManager \<Rightarrow> RenditionRequest \<Rightarrow> admissionRegistry \<Rightarrow> admissionRegistry \<times> 'p acq_phase"
where
  "acq_begin m req reg =
     (case validateOutputContract (rq_Output req) of
        Some err \<Rightarrow> (reg, AcqFailed (newFailure FailureInvalidOutput '''' '''' ''validate'' (Some err)))
      | None \<Rightarrow> (fst (candidates m reg), AcqNext (snd (candidates m reg)) None None))"

definition acq_admit ::
  "videoRenditionManager \<Rightarrow> sel_branch \<Rightarrow> pipelineCandidate list \<Rightarrow> rerror option \<Rightarrow> rerror option \<Rightarrow>
     admissionRegistry \<Rightarrow> (admissionRegistry \<times> 'p acq_phase) option"
where
  "acq_admit m sel cs lastFailure contention reg =
     (case cs of
        [] \<Rightarrow> Some (reg, AcqFailed (case lastFailure of
                Some e \<Rightarrow> e
              | None \<Rightarrow> newFailure FailureDeviceUnavailable '''' '''' ''discover''
                          (Some (MsgErr ''no video provider available''))))
      | c # rest \<Rightarrow>
          (case (if vp_Kind (pc_provider c) = providerCPU then contention else None) of
             Some err \<Rightarrow> Some (reg, AcqFailed err)
           | None \<Rightarrow>
               (case admit m sel c reg of
                  None \<Rightarrow> None
                | Some (reg', Inl err) \<Rightarrow> Some (reg', attempt_failed c err rest contention)
                | Some (reg', Inr tok) \<Rightarrow> Some (reg', AcqPreparing c tok rest contention))))"

definition primed_ok :: "RenditionRequest \<Rightarrow> pipelineOutput \<Rightarrow> bool" where
  "primed_ok req out \<longleftrightarrow>
     po_Contract out = rq_Output req \<and> po_Init out \<noteq> [] \<and> po_ExtradataFingerprint out \<noteq> ''''"

definition commit_rendition ::
  "pipelineCandidate \<Rightarrow> string option \<Rightarrow> 'p \<Rightarrow> pipelineOutput \<Rightarrow> string \<Rightarrow> generationState \<Rightarrow> 'p managedRendition"
where
  "commit_rendition c tok p out gid l =
     \<lparr>mr_descriptor =
        \<lparr>ds_GenerationID = gid, ds_Output = po_Contract out,
         ds_Bandwidth = wrap64 (rc_MaxBitrate (oc_RateControl (po_Contract out)) * 11) sdiv 10,
         ds_Provider = vp_Name (pc_provider c), ds_DeviceID = dev_ID (pc_device c),
         ds_ExtradataFingerprint = po_ExtradataFingerprint out\<rparr>,
      mr_init = po_Init out, mr_pipeline = p, mr_lifecycle = l, mr_terminalErr = None,
      mr_token = tok, mr_released = False\<rparr>"

text \<open>
  The rest of the loop body once \<^verbatim>\<open>Prepare\<close> has answered: the registry, the pipelines closed and the next
  phase. \<open>gen\<close> is what \<^verbatim>\<open>newGenerationID\<close> returns.
\<close>

definition acq_abort ::
  "'p list \<Rightarrow> string option \<Rightarrow> admissionRegistry \<Rightarrow> 'p acq_phase \<Rightarrow> (admissionRegistry \<times> 'p list \<times> 'p acq_phase) option"
where
  "acq_abort ps tok reg ph = map_option (\<lambda>reg'. (reg', ps, ph)) (releaseAdmission tok reg)"

definition acq_prepared ::
  "('p \<Rightarrow> pipelineOutput) \<Rightarrow> RenditionRequest \<Rightarrow> rerror + 'p \<Rightarrow> rerror + string \<Rightarrow>
     pipelineCandidate \<Rightarrow> string option \<Rightarrow> pipelineCandidate list \<Rightarrow> rerror option \<Rightarrow>
     admissionRegistry \<Rightarrow> (admissionRegistry \<times> 'p list \<times> 'p acq_phase) option"
where
  "acq_prepared primed req answer gen c tok rest contention reg =
     (case answer of
        Inl err \<Rightarrow> acq_abort [] tok reg (attempt_failed c err rest contention)
      | Inr p \<Rightarrow>
          (case transition newGenerationLifecycle generationCandidatePrepared of
             (_, Some e) \<Rightarrow> acq_abort [p] tok reg (AcqFailed (cand_failure FailureInvalidOutput c ''prepare'' e))
           | (l1, None) \<Rightarrow>
               if \<not> primed_ok req (primed p)
               then acq_abort [p] tok reg
                      (AcqNext rest (Some (cand_failure FailureInvalidOutput c ''prime''
                         (MsgErr ''provider returned incomplete or mismatched primed output''))) contention)
               else case transition l1 generationPrimed of
                      (_, Some e) \<Rightarrow> acq_abort [p] tok reg (AcqFailed (cand_failure FailureInvalidOutput c ''prime'' e))
                    | (l2, None) \<Rightarrow>
                        (case gen of
                           Inl e \<Rightarrow> acq_abort [p] tok reg (AcqFailed (cand_failure FailureInvalidOutput c ''commit'' e))
                         | Inr gid \<Rightarrow>
                             (case transition l2 generationCommitted of
                                (_, Some e) \<Rightarrow>
                                  acq_abort [p] tok reg (AcqFailed (cand_failure FailureInvalidOutput c ''commit'' e))
                              | (l3, None) \<Rightarrow>
                                  Some (reg, [], AcqGot (commit_rendition c tok p (primed p) gid l3))))))"

text \<open>\<^verbatim>\<open>newGenerationID\<close>, given what reading sixteen random bytes returned.\<close>

definition newGenerationID :: "rerror + byte list \<Rightarrow> rerror + string" where
  "newGenerationID rnd = (case rnd of Inl err \<Rightarrow> Inl err | Inr bs \<Rightarrow> Inr (''g-'' @ hex_encode bs))"

section \<open>The order of candidates\<close>

lemma set_sortCandidates [simp]: "set (sortCandidates m reg cs) = set cs"
  by (simp add: sortCandidates_def)

lemma set_of_kind:
  "(p, d) \<in> set (of_kind k m) \<longleftrightarrow> p \<in> set (vm_providers m) \<and> d \<in> set (vp_Inventory p) \<and> vp_Kind p = k"
  by (auto simp: of_kind_def inventory_def)

lemma mk_cand_sel [simp]:
  "pc_provider (mk_cand mode pd) = fst pd" "pc_device (mk_cand mode pd) = snd pd" "pc_mode (mk_cand mode pd) = mode"
  by (simp_all add: mk_cand_def)

lemma set_candidates:
  "c \<in> set (snd (candidates m reg)) \<longleftrightarrow>
     pc_provider c \<in> set (vm_providers m) \<and> pc_device c \<in> set (vp_Inventory (pc_provider c)) \<and>
     (case vp_Kind (pc_provider c) of
        providerCopy \<Rightarrow> pc_mode c = DecodeModeCopy
      | providerHardware \<Rightarrow> allowed m (pc_provider c, pc_device c) \<and> pc_mode c \<in> {DecodeModeHardware, DecodeModeSoftware}
      | providerCPU \<Rightarrow> pc_mode c = DecodeModeSoftware)"
proof -
  have mk: "c \<in> mk_cand mode ` S \<longleftrightarrow> (pc_provider c, pc_device c) \<in> S \<and> pc_mode c = mode" for mode S
    by (auto simp: mk_cand_def intro!: rev_image_eqI)
  show ?thesis
    by (cases "vp_Kind (pc_provider c)")
      (auto simp: candidates_def Let_def mk set_of_kind)
qed

text \<open>The stage a candidate belongs to.\<close>

definition cand_stage :: "pipelineCandidate \<Rightarrow> nat" where
  "cand_stage c =
     (case vp_Kind (pc_provider c) of
        providerCopy \<Rightarrow> 0
      | providerHardware \<Rightarrow> if pc_mode c = DecodeModeHardware then 1 else 2
      | providerCPU \<Rightarrow> 3)"

lemma sorted_const: "(\<And>x. x \<in> set xs \<Longrightarrow> f x = k) \<Longrightarrow> sorted (map f xs)"
  by (induction xs) auto

lemma sorted_stages:
  "\<forall>c \<in> set a. f c = 0 \<Longrightarrow> \<forall>c \<in> set b. f c = 1 \<Longrightarrow> \<forall>c \<in> set c'. f c = 2 \<Longrightarrow> \<forall>c \<in> set d. f c = 3 \<Longrightarrow>
   sorted (map f (a @ b @ c' @ d))" for f :: "'a \<Rightarrow> nat"
  by (auto simp: sorted_append intro!: sorted_const)

lemma candidates_stages: "sorted (map cand_stage (snd (candidates m reg)))"
  unfolding candidates_def Let_def snd_conv
  by (rule sorted_stages) (auto simp: cand_stage_def set_of_kind)

text \<open>
  The candidates of a request are exactly: every device of a copy provider, every allowed device
  of a hardware provider, once decoding in hardware and once in software, and every device of a CPU
  provider; and they are tried in that order of stages. A configured device order excludes every
  hardware device it does not name.
\<close>

theorem candidates_order:
  "sorted (map cand_stage (snd (candidates m reg))) \<and>
   (c \<in> set (snd (candidates m reg)) \<longleftrightarrow>
     pc_provider c \<in> set (vm_providers m) \<and> pc_device c \<in> set (vp_Inventory (pc_provider c)) \<and>
     (case vp_Kind (pc_provider c) of
        providerCopy \<Rightarrow> pc_mode c = DecodeModeCopy
      | providerHardware \<Rightarrow>
          (vm_deviceRank m = [] \<or> cand_key c \<in> fst ` set (vm_deviceRank m)) \<and>
          pc_mode c \<in> {DecodeModeHardware, DecodeModeSoftware}
      | providerCPU \<Rightarrow> pc_mode c = DecodeModeSoftware))"
proof -
  have "allowed m (pc_provider c, pc_device c) \<longleftrightarrow>
      vm_deviceRank m = [] \<or> cand_key c \<in> fst ` set (vm_deviceRank m)"
    by (simp add: allowed_def cand_key_def map_of_eq_None_iff)
  then show ?thesis
    using candidates_stages set_candidates [of c m reg] by (simp split: providerKind.split)
qed

end
