(* ===== verification/RenditionRuns.thy ===== *)
theory RenditionRuns
  imports Rendition
begin

text \<open>
  Concurrent use of the rendition manager: calls of \<^verbatim>\<open>Acquire\<close> in any phase, and of \<^verbatim>\<open>Segment\<close> and \<^verbatim>\<open>Release\<close>
  on the renditions they returned, interleaved at their critical sections. Proved over all reachable
  states: tokens are balanced, pipelines do not leak, a rendition is what was asked for, and the CPU
  is no fallback for busy hardware.
\<close>

text \<open>
  A call with two ghost components: the candidates it started with, and the failed attempts it fell
  back from.
\<close>

record 'p call =
  cl_req :: RenditionRequest
  cl_cands :: "pipelineCandidate list"
  cl_tried :: "(pipelineCandidate \<times> rerror) list"
  cl_phase :: "'p acq_phase"

record 'p rworld =
  rw_reg :: admissionRegistry
  rw_calls :: "'p call list"
  rw_prepared :: "'p list"
  rw_closed :: "'p list"

definition log_try :: "pipelineCandidate \<Rightarrow> 'p acq_phase \<Rightarrow> (pipelineCandidate \<times> rerror) list" where
  "log_try c ph = (case ph of AcqNext _ (Some err) _ \<Rightarrow> [(c, err)] | _ \<Rightarrow> [])"

definition new_call :: "videoRenditionManager \<Rightarrow> RenditionRequest \<Rightarrow> 'p rworld \<Rightarrow> 'p rworld" where
  "new_call m req w =
     (let (reg, ph) = acq_begin m req (rw_reg w)
      in w\<lparr>rw_reg := reg,
           rw_calls := rw_calls w @ [\<lparr>cl_req = req, cl_cands = snd (candidates m (rw_reg w)), cl_tried = [], cl_phase = ph\<rparr>]\<rparr>)"

definition put_call :: "nat \<Rightarrow> admissionRegistry \<Rightarrow> 'p list \<Rightarrow> 'p list \<Rightarrow> 'p call \<Rightarrow> 'p rworld \<Rightarrow> 'p rworld" where
  "put_call i reg got shut cl w =
     w\<lparr>rw_reg := reg, rw_calls := (rw_calls w)[i := cl], rw_prepared := rw_prepared w @ got,
       rw_closed := rw_closed w @ shut\<rparr>"

definition answer_pipes :: "rerror + 'p \<Rightarrow> 'p list" where
  "answer_pipes answer = (case answer of Inl _ \<Rightarrow> [] | Inr p \<Rightarrow> [p])"

inductive rend_step :: "videoRenditionManager \<Rightarrow> ('p \<Rightarrow> pipelineOutput) \<Rightarrow> 'p rworld \<Rightarrow> 'p rworld \<Rightarrow> bool"
  for m primed where
  acquire: "rend_step m primed w (new_call m req w)"
| admit: "i < length (rw_calls w) \<Longrightarrow> cl = rw_calls w ! i \<Longrightarrow> cl_phase cl = AcqNext cs lastF cont \<Longrightarrow>
    acq_admit m sel cs lastF cont (rw_reg w) = Some (reg, ph) \<Longrightarrow>
    tried = (case cs of [] \<Rightarrow> [] | c # _ \<Rightarrow> log_try c ph) \<Longrightarrow>
    rend_step m primed w (put_call i reg [] [] (cl\<lparr>cl_phase := ph, cl_tried := cl_tried cl @ tried\<rparr>) w)"
| prepared: "i < length (rw_calls w) \<Longrightarrow> cl = rw_calls w ! i \<Longrightarrow> cl_phase cl = AcqPreparing c tok rest cont \<Longrightarrow>
    acq_prepared primed (cl_req cl) answer (newGenerationID rnd) c tok rest cont (rw_reg w) = Some (reg, shut, ph) \<Longrightarrow>
    rend_step m primed w
      (put_call i reg (answer_pipes answer) shut (cl\<lparr>cl_phase := ph, cl_tried := cl_tried cl @ log_try c ph\<rparr>) w)"
| segment: "i < length (rw_calls w) \<Longrightarrow> cl = rw_calls w ! i \<Longrightarrow> cl_phase cl = AcqGot r \<Longrightarrow>
    rend_step m primed w
      (put_call i (rw_reg w) [] [] (cl\<lparr>cl_phase := AcqGot (fst (managed_Segment answer r))\<rparr>) w)"
| release: "i < length (rw_calls w) \<Longrightarrow> cl = rw_calls w ! i \<Longrightarrow> cl_phase cl = AcqGot r \<Longrightarrow>
    managed_Release r (rw_reg w) = Some (reg, r', shut) \<Longrightarrow>
    rend_step m primed w (put_call i reg [] shut (cl\<lparr>cl_phase := AcqGot r'\<rparr>) w)"

definition rend_init :: "'p rworld" where
  "rend_init = \<lparr>rw_reg = [], rw_calls = [], rw_prepared = [], rw_closed = []\<rparr>"

definition rend_reach :: "videoRenditionManager \<Rightarrow> ('p \<Rightarrow> pipelineOutput) \<Rightarrow> 'p rworld \<Rightarrow> bool" where
  "rend_reach m primed w \<longleftrightarrow> (rend_step m primed)\<^sup>*\<^sup>* rend_init w"

section \<open>Tokens\<close>

definition reg_used :: "admissionRegistry \<Rightarrow> string \<Rightarrow> int" where
  "reg_used reg key = (case map_of reg key of None \<Rightarrow> 0 | Some g \<Rightarrow> gate_inUse g)"

definition key_limit :: "videoRenditionManager \<Rightarrow> string \<Rightarrow> int" where
  "key_limit m key = (if key = ''cpu'' then vm_cpuConcurrency m else vm_perDeviceConcurrency m)"

definition phase_token :: "'p acq_phase \<Rightarrow> string option" where
  "phase_token ph =
     (case ph of
        AcqPreparing c tok rest cont \<Rightarrow> tok
      | AcqGot r \<Rightarrow> if mr_released r then None else mr_token r
      | _ \<Rightarrow> None)"

definition holds :: "string \<Rightarrow> 'p acq_phase \<Rightarrow> int" where
  "holds key ph = (if phase_token ph = Some key then 1 else 0)"

definition holders :: "string \<Rightarrow> 'p call list \<Rightarrow> int" where
  "holders key calls = sum_list (map (\<lambda>cl. holds key (cl_phase cl)) calls)"

definition gate_ok :: "videoRenditionManager \<Rightarrow> string \<Rightarrow> semaphore \<Rightarrow> bool" where
  "gate_ok m key g \<longleftrightarrow> sem_cap g = key_limit m key \<and> 0 \<le> sem_len g \<and> sem_len g \<le> key_limit m key"

definition reg_caps :: "videoRenditionManager \<Rightarrow> admissionRegistry \<Rightarrow> bool" where
  "reg_caps m reg \<longleftrightarrow> (\<forall>key g. map_of reg key = Some g \<longrightarrow> gate_ok m key g)"

lemma reg_caps_update: "reg_caps m reg \<Longrightarrow> gate_ok m key g \<Longrightarrow> reg_caps m (AList.update key g reg)"
  by (auto simp: reg_caps_def update_conv')

lemma reg_used_update [simp]:
  "reg_used (AList.update key g reg) k = (if k = key then gate_inUse g else reg_used reg k)"
  by (auto simp: reg_used_def update_conv')

definition mgr_ok :: "videoRenditionManager \<Rightarrow> bool" where
  "mgr_ok m \<longleftrightarrow> 0 < vm_perDeviceConcurrency m \<and> 0 < vm_cpuConcurrency m"

lemma newManager_ok: "mgr_ok (newVideoRenditionManager opts ps)"
  by (simp add: mgr_ok_def newVideoRenditionManager_def)

lemma cand_key_not_cpu: "cand_key c \<noteq> ''cpu''"
proof
  assume "cand_key c = ''cpu''"
  then have "CHR ''/'' \<in> set ''cpu''"
    unfolding cand_key_def device_key_def by (metis in_set_conv_decomp append_Cons append_Nil)
  then show False by simp
qed

lemma registry_gate_props:
  assumes "reg_caps m reg" "0 < limit" "limit = key_limit m key"
  shows "\<exists>reg1 g. registry_gate key limit reg = (reg1, Some g) \<and> map_of reg1 key = Some g \<and>
    reg_caps m reg1 \<and> (\<forall>k. reg_used reg1 k = reg_used reg k)"
proof (cases "map_of reg key")
  case None
  let ?g = "\<lparr>sem_cap = limit, sem_len = 0\<rparr>"
  have "registry_gate key limit reg = (AList.update key ?g reg, Some ?g)"
    using None assms(2) by (simp add: registry_gate_def newAdmissionGate_def make_chan_def)
  moreover have "reg_caps m (AList.update key ?g reg)"
    using assms by (intro reg_caps_update) (simp_all add: gate_ok_def)
  moreover have "reg_used (AList.update key ?g reg) k = reg_used reg k" for k
    using None by (simp add: gate_inUse_def) (simp add: reg_used_def)
  ultimately show ?thesis by (auto simp: update_conv')
next
  case (Some g)
  then show ?thesis using assms(1) by (auto simp: registry_gate_def)
qed

text \<open>What taking a token and giving one back do to the registry.\<close>

definition reg_moved :: "videoRenditionManager \<Rightarrow> admissionRegistry \<Rightarrow> admissionRegistry \<Rightarrow> string option \<Rightarrow> int \<Rightarrow> bool" where
  "reg_moved m reg reg' tok n \<longleftrightarrow> reg_caps m reg' \<and>
     (\<forall>k. reg_used reg' k = reg_used reg k + (if tok = Some k then n else 0))"

lemma reg_moved_trans0:
  "(\<forall>k. reg_used reg1 k = reg_used reg k) \<Longrightarrow> reg_moved m reg1 reg' tok n \<Longrightarrow> reg_moved m reg reg' tok n"
  by (simp add: reg_moved_def)

lemma reg_send:
  assumes "reg_caps m reg" "map_of reg key = Some g" "chan_send g = Some g'"
  shows "reg_moved m reg (AList.update key g' reg) (Some key) 1"
proof -
  have "gate_ok m key g" using assms(1,2) by (simp add: reg_caps_def)
  then have "gate_ok m key g'" "gate_inUse g' = gate_inUse g + 1"
    using assms(3) by (auto simp: gate_ok_def chan_send_def gate_inUse_def split: if_splits)
  with assms(1,2) show ?thesis by (auto simp: reg_moved_def reg_caps_update) (simp add: reg_used_def)
qed

lemma releaseAdmission_moved:
  assumes "reg_caps m reg" "releaseAdmission tok reg = Some reg'"
  shows "reg_moved m reg reg' tok (- 1)"
proof (cases tok)
  case None
  with assms show ?thesis by (simp add: releaseAdmission_def reg_moved_def)
next
  case (Some key)
  then obtain g g' where g: "map_of reg key = Some g" "gate_release g = Some g'" "reg' = AList.update key g' reg"
    using assms(2) by (auto simp: releaseAdmission_def split: option.splits)
  have "gate_ok m key g" using assms(1) g(1) by (simp add: reg_caps_def)
  then have "gate_ok m key g'" "gate_inUse g' = gate_inUse g - 1"
    using g(2) by (auto simp: gate_ok_def gate_release_def chan_recv_def gate_inUse_def split: if_splits)
  with assms(1) g Some show ?thesis by (auto simp: reg_moved_def reg_caps_update) (simp add: reg_used_def)
qed

lemma releaseAdmission_ready:
  assumes "\<And>key. tok = Some key \<Longrightarrow> 0 < reg_used reg key"
  shows "releaseAdmission tok reg \<noteq> None"
proof (cases tok)
  case (Some key)
  then have "0 < reg_used reg key" using assms by simp
  then obtain g where "map_of reg key = Some g" "0 < gate_inUse g"
    by (auto simp: reg_used_def split: option.splits)
  then show ?thesis using Some adm.give_held [of g] by (auto simp: releaseAdmission_def)
qed (simp add: releaseAdmission_def)

lemma admit_moved:
  assumes "mgr_ok m" "reg_caps m reg" "admit m sel c reg = Some (reg', res)"
  shows "reg_moved m reg reg' (case res of Inl _ \<Rightarrow> None | Inr tok \<Rightarrow> tok) 1"
proof (cases "vp_Kind (pc_provider c)")
  case providerCopy
  with assms show ?thesis by (auto simp: admit_def reg_moved_def)
next
  case providerHardware
  obtain reg1 g where g: "registry_gate (cand_key c) (vm_perDeviceConcurrency m) reg = (reg1, Some g)"
    "map_of reg1 (cand_key c) = Some g" "reg_caps m reg1" "\<forall>k. reg_used reg1 k = reg_used reg k"
  proof -
    have "0 < vm_perDeviceConcurrency m" "vm_perDeviceConcurrency m = key_limit m (cand_key c)"
      using assms(1) cand_key_not_cpu [of c] by (simp_all add: mgr_ok_def key_limit_def)
    from registry_gate_props [OF assms(2) this] show thesis by (elim exE conjE) (rule that)
  qed
  show ?thesis
  proof (cases "chan_send g")
    case None
    with assms(3) providerHardware g show ?thesis
      by (auto simp: admit_def admit_hardware_def gate_tryAcquire_def reg_moved_def)
  next
    case (Some g')
    from reg_send [OF g(3,2) Some] g(4) Some assms(3) providerHardware g(1) show ?thesis
      by (auto simp: admit_def admit_hardware_def gate_tryAcquire_def intro: reg_moved_trans0)
  qed
next
  case providerCPU
  obtain reg1 g where g: "registry_gate ''cpu'' (vm_cpuConcurrency m) reg = (reg1, Some g)"
    "map_of reg1 ''cpu'' = Some g" "reg_caps m reg1" "\<forall>k. reg_used reg1 k = reg_used reg k"
  proof -
    have "0 < vm_cpuConcurrency m" "vm_cpuConcurrency m = key_limit m ''cpu''"
      using assms(1) by (simp_all add: mgr_ok_def key_limit_def)
    from registry_gate_props [OF assms(2) this] show thesis by (elim exE conjE) (rule that)
  qed
  note def = assms(3) [unfolded admit_def providerCPU providerKind.case admit_cpu_def g(1) prod.case option.case
      gate_acquire_def]
  show ?thesis
  proof (cases sel)
    case SelToken
    then obtain g' where "chan_send g = Some g'" using def by (cases "chan_send g") auto
    with reg_send [OF g(3,2)] g(4) def SelToken show ?thesis by (auto intro: reg_moved_trans0)
  next
    case (SelCtx err)
    with def g show ?thesis by (auto simp: reg_moved_def)
  next
    case SelTimer
    with def g show ?thesis by (auto simp: reg_moved_def split: if_splits)
  qed
qed

section \<open>One step of a call\<close>

definition reg_delta ::
  "videoRenditionManager \<Rightarrow> admissionRegistry \<Rightarrow> admissionRegistry \<Rightarrow> 'p acq_phase \<Rightarrow> 'p acq_phase \<Rightarrow> bool"
where
  "reg_delta m reg reg' old new \<longleftrightarrow> reg_caps m reg' \<and>
     (\<forall>k. reg_used reg' k = reg_used reg k + holds k new - holds k old)"

lemma phase_token_simps [simp]:
  "phase_token (AcqNext cs l ct) = None" "phase_token (AcqFailed e) = None"
  "phase_token (AcqPreparing c tok rest ct) = tok"
  "phase_token (AcqGot r) = (if mr_released r then None else mr_token r)"
  by (simp_all add: phase_token_def)

lemma phase_token_attempt_failed [simp]: "phase_token (attempt_failed c e rest ct) = None"
  by (simp add: attempt_failed_def)

lemma reg_delta_take:
  "reg_moved m reg reg' (phase_token new) 1 \<Longrightarrow> phase_token old = None \<Longrightarrow> reg_delta m reg reg' old new"
  by (auto simp: reg_moved_def reg_delta_def holds_def)

lemma reg_delta_give:
  "reg_moved m reg reg' (phase_token old) (- 1) \<Longrightarrow> phase_token new = None \<Longrightarrow> reg_delta m reg reg' old new"
  by (auto simp: reg_moved_def reg_delta_def holds_def)

lemma reg_delta_same: "reg_caps m reg \<Longrightarrow> phase_token new = phase_token old \<Longrightarrow> reg_delta m reg reg old new"
  by (auto simp: reg_delta_def holds_def)

lemma acq_admit_delta:
  assumes "mgr_ok m" "reg_caps m reg" "acq_admit m sel cs lf ct reg = Some (reg', ph)"
  shows "reg_delta m reg reg' (AcqNext cs lf ct) ph"
proof (cases cs)
  case Nil
  with assms show ?thesis by (auto simp: acq_admit_def intro!: reg_delta_same)
next
  case (Cons c rest)
  show ?thesis
  proof (cases "if vp_Kind (pc_provider c) = providerCPU then ct else None")
    case (Some err)
    with Cons assms show ?thesis by (auto simp: acq_admit_def intro!: reg_delta_same)
  next
    case None
    note def = assms(3) [unfolded acq_admit_def Cons list.case None option.case]
    obtain reg1 res where a: "admit m sel c reg = Some (reg1, res)" using def by (cases "admit m sel c reg") auto
    note mv = admit_moved [OF assms(1,2) a]
    show ?thesis
    proof (cases res)
      case (Inl err)
      with def a mv show ?thesis by (auto intro!: reg_delta_take)
    next
      case (Inr tok)
      with def a mv show ?thesis by (auto intro!: reg_delta_take)
    qed
  qed
qed

lemma transition_simps:
  "transition newGenerationLifecycle generationCandidatePrepared = (generationCandidatePrepared, None)"
  "transition generationCandidatePrepared generationPrimed = (generationPrimed, None)"
  "transition generationPrimed generationCommitted = (generationCommitted, None)"
  "transition generationCommitted generationRunning = (generationRunning, None)"
  "transition generationRunning generationComplete = (generationComplete, None)"
  "transition generationRunning generationFailed = (generationFailed, None)"
  by (simp_all add: transition_def transition_valid_def newGenerationLifecycle_def)

text \<open>Every answer of \<^verbatim>\<open>Prepare\<close> ends in an abort that gives the token back, or in a committed rendition.\<close>

lemma acq_prepared_cases [consumes 1, case_names failed mismatch norandom committed]:
  assumes "acq_prepared primed req answer gen c tok rest ct reg = Some (reg', shut, ph)"
  obtains err where "answer = Inl err" "acq_abort [] tok reg (attempt_failed c err rest ct) = Some (reg', shut, ph)"
  | p where "answer = Inr p" "acq_abort [p] tok reg (AcqNext rest (Some (cand_failure FailureInvalidOutput c ''prime''
                         (MsgErr ''provider returned incomplete or mismatched primed output''))) ct) = Some (reg', shut, ph)"
  | p e where "answer = Inr p" "acq_abort [p] tok reg (AcqFailed (cand_failure FailureInvalidOutput c ''commit'' e)) = Some (reg', shut, ph)"
  | p gid where "answer = Inr p" "primed_ok req (primed p)" "reg' = reg" "shut = []"
      "ph = AcqGot (commit_rendition c tok p (primed p) gid generationCommitted)"
proof (cases answer)
  case (Inl err)
  with assms that(1) show ?thesis by (simp add: acq_prepared_def)
next
  case (Inr p)
  note def = assms [unfolded acq_prepared_def Inr sum.case transition_simps prod.case option.case]
  show ?thesis
  proof (cases "primed_ok req (primed p)")
    case False
    with def that(2) [OF Inr] show ?thesis by simp
  next
    case True
    with def Inr that(3,4) show ?thesis by (cases gen) auto
  qed
qed

definition phase_pipes :: "'p acq_phase \<Rightarrow> 'p multiset" where
  "phase_pipes ph = (case ph of AcqGot r \<Rightarrow> if mr_released r then {#} else {#mr_pipeline r#} | _ \<Rightarrow> {#})"

lemma phase_pipes_simps [simp]:
  "phase_pipes (AcqNext cs l ct) = {#}" "phase_pipes (AcqFailed e) = {#}"
  "phase_pipes (AcqPreparing c tok rest ct) = {#}" "phase_pipes (attempt_failed c e rest ct) = {#}"
  "phase_pipes (AcqGot r) = (if mr_released r then {#} else {#mr_pipeline r#})"
  by (simp_all add: phase_pipes_def attempt_failed_def)

lemma commit_rendition_sel [simp]:
  "mr_released (commit_rendition c tok p out gid l) = False" "mr_token (commit_rendition c tok p out gid l) = tok"
  "mr_pipeline (commit_rendition c tok p out gid l) = p"
  "ds_GenerationID (mr_descriptor (commit_rendition c tok p out gid l)) = gid"
  by (simp_all add: commit_rendition_def)

lemma acq_abort_delta:
  assumes "reg_caps m reg" "acq_abort ps tok reg ph = Some (reg', shut, ph')" "phase_token ph = None"
  shows "ph' = ph \<and> shut = ps \<and> reg_delta m reg reg' (AcqPreparing c tok rest ct) ph"
  using assms releaseAdmission_moved [OF assms(1), of tok]
  by (auto simp: acq_abort_def intro!: reg_delta_give)

lemma acq_prepared_delta:
  assumes "reg_caps m reg" "acq_prepared primed req answer gen c tok rest ct reg = Some (reg', shut, ph)"
  shows "reg_delta m reg reg' (AcqPreparing c tok rest ct) ph"
    and "mset (answer_pipes answer) = mset shut + phase_pipes ph"
  using assms(2)
  by (cases rule: acq_prepared_cases,
      auto dest!: acq_abort_delta [OF assms(1), where c = c and rest = rest and ct = ct]
        intro!: reg_delta_same assms(1) simp: answer_pipes_def)+

lemma managed_Release_delta:
  assumes "reg_caps m reg" "managed_Release r reg = Some (reg', r', shut)"
  shows "reg_delta m reg reg' (AcqGot r) (AcqGot r')" and "phase_pipes (AcqGot r) = mset shut + phase_pipes (AcqGot r')"
proof -
  have "reg_delta m reg reg' (AcqGot r) (AcqGot r') \<and> phase_pipes (AcqGot r) = mset shut + phase_pipes (AcqGot r')"
  proof (cases "mr_released r")
    case True
    with assms show ?thesis by (auto simp: managed_Release_def intro!: reg_delta_same)
  next
    case False
    with assms releaseAdmission_moved [OF assms(1), of "mr_token r"] show ?thesis
      by (auto simp: managed_Release_def intro!: reg_delta_give)
  qed
  then show "reg_delta m reg reg' (AcqGot r) (AcqGot r')" "phase_pipes (AcqGot r) = mset shut + phase_pipes (AcqGot r')"
    by auto
qed

lemma managed_Segment_keeps:
  "mr_descriptor (fst (managed_Segment a r)) = mr_descriptor r" "mr_init (fst (managed_Segment a r)) = mr_init r"
  "mr_pipeline (fst (managed_Segment a r)) = mr_pipeline r" "mr_token (fst (managed_Segment a r)) = mr_token r"
  "mr_released (fst (managed_Segment a r)) = mr_released r"
  by (auto simp: managed_Segment_def segment_failed_def split: prod.splits option.splits sum.splits)

lemma touchGates_caps:
  assumes "mgr_ok m" "reg_caps m reg"
  shows "reg_caps m (touchGates m cs reg) \<and> (\<forall>k. reg_used (touchGates m cs reg) k = reg_used reg k)"
proof -
  have "reg_caps m (fold (\<lambda>c r. fst (registry_gate (cand_key c) (vm_perDeviceConcurrency m) r)) cs reg) \<and>
    (\<forall>k. reg_used (fold (\<lambda>c r. fst (registry_gate (cand_key c) (vm_perDeviceConcurrency m) r)) cs reg) k = reg_used reg k)"
    using assms(2)
  proof (induction cs arbitrary: reg)
    case (Cons c cs)
    have "0 < vm_perDeviceConcurrency m" "vm_perDeviceConcurrency m = key_limit m (cand_key c)"
      using assms(1) cand_key_not_cpu [of c] by (simp_all add: mgr_ok_def key_limit_def)
    from registry_gate_props [OF Cons.prems this] obtain reg1 g where
      g: "registry_gate (cand_key c) (vm_perDeviceConcurrency m) reg = (reg1, Some g)"
      "reg_caps m reg1" "\<forall>k. reg_used reg1 k = reg_used reg k" by (elim exE conjE) (rule that)
    from Cons.IH [OF g(2)] g show ?case by simp
  qed simp
  with assms show ?thesis by (simp add: touchGates_def)
qed

lemma acq_begin_delta:
  assumes "mgr_ok m" "reg_caps m reg" "acq_begin m req reg = (reg', ph)"
  shows "reg_caps m reg' \<and> (\<forall>k. reg_used reg' k = reg_used reg k) \<and> phase_token ph = None \<and> phase_pipes ph = {#}"
  using assms touchGates_caps [OF assms(1,2)]
  by (auto simp: acq_begin_def candidates_def Let_def split: option.splits)

section \<open>Reachable states\<close>

definition token_of :: "pipelineCandidate \<Rightarrow> string option" where
  "token_of c =
     (case vp_Kind (pc_provider c) of
        providerCopy \<Rightarrow> None | providerHardware \<Rightarrow> Some (cand_key c) | providerCPU \<Rightarrow> Some ''cpu'')"

definition no_contention :: "(pipelineCandidate \<times> rerror) list \<Rightarrow> bool" where
  "no_contention tried \<longleftrightarrow> (\<forall>(c, err) \<in> set tried. \<not> hw_contention c err)"

definition got_ok :: "'p call \<Rightarrow> 'p managedRendition \<Rightarrow> bool" where
  "got_ok cl r \<longleftrightarrow> validateOutputContract (rq_Output (cl_req cl)) = None \<and>
     ds_Output (mr_descriptor r) = rq_Output (cl_req cl) \<and> mr_init r \<noteq> [] \<and>
     ds_ExtradataFingerprint (mr_descriptor r) \<noteq> '''' \<and>
     (\<exists>c rest. cl_cands cl = map fst (cl_tried cl) @ c # rest \<and>
        ds_Provider (mr_descriptor r) = vp_Name (pc_provider c) \<and> ds_DeviceID (mr_descriptor r) = dev_ID (pc_device c) \<and>
        mr_token r = token_of c \<and>
        (vp_Kind (pc_provider c) = providerCPU \<longrightarrow> no_contention (cl_tried cl)))"

definition call_ok :: "'p call \<Rightarrow> bool" where
  "call_ok cl \<longleftrightarrow>
     (case cl_phase cl of
        AcqNext cs lf ct \<Rightarrow>
          validateOutputContract (rq_Output (cl_req cl)) = None \<and>
          cl_cands cl = map fst (cl_tried cl) @ cs \<and> (ct = None \<longrightarrow> no_contention (cl_tried cl))
      | AcqPreparing c tok rest ct \<Rightarrow>
          validateOutputContract (rq_Output (cl_req cl)) = None \<and>
          cl_cands cl = map fst (cl_tried cl) @ c # rest \<and> (ct = None \<longrightarrow> no_contention (cl_tried cl)) \<and>
          tok = token_of c \<and> (vp_Kind (pc_provider c) = providerCPU \<longrightarrow> ct = None)
      | AcqFailed err \<Rightarrow> True
      | AcqGot r \<Rightarrow> got_ok cl r)"

lemma admit_token: "admit m sel c reg = Some (reg', Inr tok) \<Longrightarrow> tok = token_of c"
  by (auto simp: admit_def admit_cpu_def admit_hardware_def token_of_def gate_acquire_def
      split: providerKind.splits prod.splits option.splits admission_error.splits)

lemma call_ok_fallback:
  assumes "validateOutputContract (rq_Output (cl_req cl)) = None"
    "cl_cands cl = map fst (cl_tried cl) @ c # rest" "ct = None \<longrightarrow> no_contention (cl_tried cl)"
  shows "call_ok (cl\<lparr>cl_phase := attempt_failed c err rest ct, cl_tried := cl_tried cl @ log_try c (attempt_failed c err rest ct)\<rparr>)"
  using assms by (auto simp: call_ok_def attempt_failed_def log_try_def no_contention_def split: if_splits)

lemma call_ok_admit:
  assumes "call_ok cl" "cl_phase cl = AcqNext cs lf ct" "acq_admit m sel cs lf ct reg = Some (reg', ph)"
    "tried = (case cs of [] \<Rightarrow> [] | c # _ \<Rightarrow> log_try c ph)"
  shows "call_ok (cl\<lparr>cl_phase := ph, cl_tried := cl_tried cl @ tried\<rparr>)"
proof (cases cs)
  case Nil
  with assms show ?thesis by (auto simp: call_ok_def acq_admit_def)
next
  case (Cons c rest)
  have ok: "validateOutputContract (rq_Output (cl_req cl)) = None"
    "cl_cands cl = map fst (cl_tried cl) @ c # rest" "ct = None \<longrightarrow> no_contention (cl_tried cl)"
    using assms(1,2) Cons by (auto simp: call_ok_def)
  show ?thesis
  proof (cases "if vp_Kind (pc_provider c) = providerCPU then ct else None")
    case (Some err)
    with Cons assms(3,4) show ?thesis by (auto simp: acq_admit_def call_ok_def)
  next
    case None
    note def = assms(3) [unfolded acq_admit_def Cons list.case None option.case]
    obtain reg1 res where a: "admit m sel c reg = Some (reg1, res)" using def by (cases "admit m sel c reg") auto
    show ?thesis
    proof (cases res)
      case (Inl err)
      then have "ph = attempt_failed c err rest ct" "tried = log_try c ph" using def a Cons assms(4) by auto
      then show ?thesis using call_ok_fallback [OF ok, of err] by (simp only:)
    next
      case (Inr tok)
      then have "ph = AcqPreparing c tok rest ct" "tok = token_of c" using def a admit_token by auto
      with ok None Cons assms(4) show ?thesis by (auto simp: call_ok_def log_try_def split: if_splits)
    qed
  qed
qed

lemma call_ok_prepared:
  assumes "call_ok cl" "cl_phase cl = AcqPreparing c tok rest ct"
    "acq_prepared primed (cl_req cl) answer gen c tok rest ct reg = Some (reg', shut, ph)"
  shows "call_ok (cl\<lparr>cl_phase := ph, cl_tried := cl_tried cl @ log_try c ph\<rparr>)"
proof -
  have ok: "validateOutputContract (rq_Output (cl_req cl)) = None"
    "cl_cands cl = map fst (cl_tried cl) @ c # rest" "ct = None \<longrightarrow> no_contention (cl_tried cl)"
    and tok: "tok = token_of c" "vp_Kind (pc_provider c) = providerCPU \<longrightarrow> ct = None"
    using assms(1,2) by (auto simp: call_ok_def)
  from assms(3) show ?thesis
  proof (cases rule: acq_prepared_cases)
    case (failed err)
    then show ?thesis using call_ok_fallback [OF ok] by (auto simp: acq_abort_def)
  next
    case (mismatch p)
    have "FailureCategoryOf (cand_failure FailureInvalidOutput c s e) = FailureInvalidOutput" for s e
      by (simp add: FailureCategoryOf_def cand_failure_def newFailure_def)
    with mismatch ok show ?thesis
      by (auto simp: acq_abort_def call_ok_def log_try_def no_contention_def hw_contention_def)
  next
    case (norandom p e)
    then show ?thesis by (auto simp: acq_abort_def call_ok_def)
  next
    case (committed p gid)
    with ok tok show ?thesis
      by (auto simp: call_ok_def got_ok_def log_try_def commit_rendition_def primed_ok_def)
  qed
qed

lemma got_ok_cong:
  "mr_descriptor r' = mr_descriptor r \<Longrightarrow> mr_init r' = mr_init r \<Longrightarrow> mr_token r' = mr_token r \<Longrightarrow>
   cl_phase cl = AcqGot r \<Longrightarrow> call_ok cl \<Longrightarrow> call_ok (cl\<lparr>cl_phase := AcqGot r'\<rparr>)"
  by (simp add: call_ok_def got_ok_def)

definition rend_inv :: "videoRenditionManager \<Rightarrow> 'p rworld \<Rightarrow> bool" where
  "rend_inv m w \<longleftrightarrow> reg_caps m (rw_reg w) \<and>
     (\<forall>key. reg_used (rw_reg w) key = holders key (rw_calls w)) \<and>
     mset (rw_prepared w) = mset (rw_closed w) + sum_list (map (\<lambda>cl. phase_pipes (cl_phase cl)) (rw_calls w)) \<and>
     (\<forall>cl \<in> set (rw_calls w). call_ok cl)"

lemma sum_list_update_add:
  fixes f :: "'a \<Rightarrow> 'b::comm_monoid_add"
  shows "i < length xs \<Longrightarrow> sum_list (map f (xs[i := x])) + f (xs ! i) = sum_list (map f xs) + f x"
proof (induction xs arbitrary: i)
  case (Cons y ys)
  then show ?case by (cases i) (auto simp: ac_simps)
qed simp

lemma rend_inv_put:
  assumes "rend_inv m w" "i < length (rw_calls w)" "call_ok cl"
    "reg_delta m (rw_reg w) reg (cl_phase (rw_calls w ! i)) (cl_phase cl)"
    "mset got + phase_pipes (cl_phase (rw_calls w ! i)) = mset shut + phase_pipes (cl_phase cl)"
  shows "rend_inv m (put_call i reg got shut cl w)"
proof -
  let ?f = "\<lambda>cl. phase_pipes (cl_phase cl)"
  have "reg_used reg key = holders key ((rw_calls w)[i := cl])" for key
    using assms(1,2,4) sum_list_update_int [of i "rw_calls w" "\<lambda>cl. holds key (cl_phase cl)" cl]
    by (simp add: rend_inv_def reg_delta_def holders_def)
  moreover have "mset (rw_prepared w @ got) = mset (rw_closed w @ shut) + sum_list (map ?f ((rw_calls w)[i := cl]))"
  proof -
    have "mset (rw_prepared w) + mset got + ?f (rw_calls w ! i) =
        mset (rw_closed w) + mset shut + (sum_list (map ?f (rw_calls w)) + ?f cl)"
      using assms(1,5) by (simp add: rend_inv_def ac_simps)
    also have "\<dots> = mset (rw_closed w) + mset shut + sum_list (map ?f ((rw_calls w)[i := cl])) + ?f (rw_calls w ! i)"
      using sum_list_update_add [OF assms(2), of ?f cl] by (simp add: ac_simps)
    finally show ?thesis by simp
  qed
  ultimately show ?thesis
    using assms(1,3,4)
    by (auto simp: rend_inv_def put_call_def reg_delta_def dest!: set_update_cases)
qed

lemma rend_inv_step:
  fixes w :: "'p rworld"
  assumes "mgr_ok m" "rend_step m primed w w'" "rend_inv m w"
  shows "rend_inv m w'"
  using assms(2,3)
proof (cases rule: rend_step.cases)
  case (acquire req)
  obtain reg and ph :: "'p acq_phase" where b: "acq_begin m req (rw_reg w) = (reg, ph)" by force
  have d: "reg_caps m reg" "\<forall>k. reg_used reg k = reg_used (rw_reg w) k" "phase_token ph = None" "phase_pipes ph = {#}"
    using acq_begin_delta [OF assms(1) _ b] assms(3) by (auto simp: rend_inv_def)
  moreover have "call_ok \<lparr>cl_req = req, cl_cands = snd (candidates m (rw_reg w)), cl_tried = [], cl_phase = ph\<rparr>"
    using b by (auto simp: acq_begin_def call_ok_def no_contention_def split: option.splits)
  moreover have "w' = w\<lparr>rw_reg := reg, rw_calls := rw_calls w @
      [\<lparr>cl_req = req, cl_cands = snd (candidates m (rw_reg w)), cl_tried = [], cl_phase = ph\<rparr>]\<rparr>"
    using acquire b by (simp add: new_call_def)
  ultimately show ?thesis
    using assms(3) by (auto simp: rend_inv_def holders_def holds_def)
next
  case (admit i cl cs lastF cont sel reg ph tried)
  have "call_ok cl" using admit assms(3) by (auto simp: rend_inv_def)
  from call_ok_admit [OF this] admit have "call_ok (cl\<lparr>cl_phase := ph, cl_tried := cl_tried cl @ tried\<rparr>)" by blast
  moreover have d: "reg_delta m (rw_reg w) reg (cl_phase cl) ph"
    using acq_admit_delta [OF assms(1)] admit assms(3) by (auto simp: rend_inv_def)
  moreover have "phase_pipes ph = {#}"
    using admit by (auto simp: acq_admit_def split: list.splits option.splits sum.splits)
  ultimately show ?thesis using admit by (auto intro!: rend_inv_put [OF assms(3)])
next
  case (prepared i cl c tok rest cont answer rnd reg shut ph)
  have "call_ok cl" using prepared assms(3) by (auto simp: rend_inv_def)
  with prepared have "call_ok (cl\<lparr>cl_phase := ph, cl_tried := cl_tried cl @ log_try c ph\<rparr>)"
    by (blast intro: call_ok_prepared)
  moreover have "reg_caps m (rw_reg w)" using assms(3) by (simp add: rend_inv_def)
  ultimately show ?thesis
    using prepared acq_prepared_delta by (auto intro!: rend_inv_put [OF assms(3)])
next
  case (segment i cl r answer)
  have "call_ok cl" "reg_caps m (rw_reg w)" using segment assms(3) by (auto simp: rend_inv_def)
  moreover have "call_ok (cl\<lparr>cl_phase := AcqGot (fst (managed_Segment answer r))\<rparr>)"
    by (rule got_ok_cong [OF managed_Segment_keeps(1,2,4)]) fact+
  ultimately show ?thesis using segment
    by (auto intro!: rend_inv_put [OF assms(3)] reg_delta_same simp: managed_Segment_keeps)
next
  case (release i cl r reg r' shut)
  have ok: "call_ok cl" "reg_caps m (rw_reg w)" using release assms(3) by (auto simp: rend_inv_def)
  have "mr_descriptor r' = mr_descriptor r" "mr_init r' = mr_init r" "mr_token r' = mr_token r"
    using release by (auto simp: managed_Release_def split: if_splits)
  then have "call_ok (cl\<lparr>cl_phase := AcqGot r'\<rparr>)" by (rule got_ok_cong) fact+
  with release managed_Release_delta [OF ok(2) release(5)] show ?thesis
    by (simp del: phase_pipes_simps) (intro rend_inv_put [OF assms(3)], simp_all del: phase_pipes_simps)
qed

lemma rend_reach_inv:
  assumes "mgr_ok m" "rend_reach m primed w"
  shows "rend_inv m w"
  using assms(2) unfolding rend_reach_def
proof (induction rule: rtranclp_induct)
  case base
  show ?case by (simp add: rend_inv_def rend_init_def reg_caps_def reg_used_def holders_def)
next
  case (step w1 w2)
  then show ?case using rend_inv_step [OF assms(1)] by blast
qed

section \<open>Properties\<close>

lemma holders_pos:
  "i < length calls \<Longrightarrow> phase_token (cl_phase (calls ! i)) = Some key \<Longrightarrow> 0 < holders key calls"
proof (induction calls arbitrary: i)
  case (Cons cl calls)
  have "0 \<le> holders key calls" by (auto simp: holders_def holds_def intro!: sum_list_nonneg)
  with Cons show ?case by (cases i) (auto simp: holders_def holds_def)
qed simp

text \<open>
  C14. However calls of Acquire, Segment and Release interleave: the tokens in use of a device, or of the
  CPU, are the acquisitions in preparation and the renditions not yet released that hold one, and at
  most the configured number; and whoever holds a token can give it back without blocking.
\<close>

theorem rendition_tokens_balanced:
  assumes "rend_reach (newVideoRenditionManager opts ps) primed w"
  shows "reg_used (rw_reg w) key = holders key (rw_calls w) \<and>
    holders key (rw_calls w) \<le> key_limit (newVideoRenditionManager opts ps) key \<and>
    (\<forall>cl \<in> set (rw_calls w). releaseAdmission (phase_token (cl_phase cl)) (rw_reg w) \<noteq> None)"
proof -
  let ?m = "newVideoRenditionManager opts ps"
  have inv: "rend_inv ?m w" using newManager_ok assms by (rule rend_reach_inv)
  then have eq: "reg_used (rw_reg w) k = holders k (rw_calls w)" for k by (simp add: rend_inv_def)
  have "reg_used (rw_reg w) key \<le> key_limit ?m key"
  proof (cases "map_of (rw_reg w) key")
    case None
    have "0 < key_limit ?m key" using newManager_ok [of opts ps] by (simp add: mgr_ok_def key_limit_def)
    with None show ?thesis by (simp add: reg_used_def)
  next
    case (Some g)
    with inv have "gate_ok ?m key g" by (simp add: rend_inv_def reg_caps_def)
    with Some show ?thesis by (simp add: reg_used_def gate_ok_def gate_inUse_def)
  qed
  moreover have "releaseAdmission (phase_token (cl_phase cl)) (rw_reg w) \<noteq> None" if cl: "cl \<in> set (rw_calls w)" for cl
  proof (rule releaseAdmission_ready)
    fix k assume t: "phase_token (cl_phase cl) = Some k"
    obtain i where "i < length (rw_calls w)" "rw_calls w ! i = cl" using cl by (auto simp: in_set_conv_nth)
    with t holders_pos show "0 < reg_used (rw_reg w) k" by (auto simp: eq)
  qed
  ultimately show ?thesis using eq by simp
qed

text \<open>
  C15. No pipeline leaks: the pipelines that Prepare ever handed out are those that were closed, each
  once, and those of the renditions that were returned and not yet released.
\<close>

theorem rendition_pipelines_closed:
  assumes "rend_reach (newVideoRenditionManager opts ps) primed w"
  shows "mset (rw_prepared w) =
    mset (rw_closed w) + sum_list (map (\<lambda>cl. phase_pipes (cl_phase cl)) (rw_calls w))"
  using rend_reach_inv [OF newManager_ok assms] by (simp add: rend_inv_def)

text \<open>
  C16. A rendition that Acquire returns is what was asked for: the request was valid, the output it
  publishes is the requested contract bit for bit, its init data and codec fingerprint are not empty.
  It runs on one of the request's candidates, every candidate before that one was tried and failed,
  and if it runs on the CPU then none of those failures was a hardware device at capacity.
\<close>

theorem rendition_is_as_requested:
  assumes "rend_reach (newVideoRenditionManager opts ps) primed w" "cl \<in> set (rw_calls w)" "cl_phase cl = AcqGot r"
  shows "validateOutputContract (rq_Output (cl_req cl)) = None \<and>
    ds_Output (mr_descriptor r) = rq_Output (cl_req cl) \<and> mr_init r \<noteq> [] \<and>
    ds_ExtradataFingerprint (mr_descriptor r) \<noteq> '''' \<and>
    (\<exists>c rest. cl_cands cl = map fst (cl_tried cl) @ c # rest \<and>
       ds_Provider (mr_descriptor r) = vp_Name (pc_provider c) \<and> ds_DeviceID (mr_descriptor r) = dev_ID (pc_device c) \<and>
       (vp_Kind (pc_provider c) = providerCPU \<longrightarrow>
          (\<forall>(c', err) \<in> set (cl_tried cl).
             \<not> (vp_Kind (pc_provider c') = providerHardware \<and> FailureCategoryOf err = FailureResourceExhausted))))"
  using rend_reach_inv [OF newManager_ok assms(1)] assms(2,3)
  by (fastforce simp: rend_inv_def call_ok_def got_ok_def no_contention_def hw_contention_def)

subsection \<open>A run\<close>

definition demo_contract :: OutputContract where
  "demo_contract =
     \<lparr>oc_Codec = ''h264'', oc_CodecString = ''avc1.640028'', oc_Profile = ''high'', oc_Level = ''4.0'',
      oc_Width = 1920, oc_Height = 1080, oc_PixelFormat = ''yuv420p'',
      oc_FrameRate = \<lparr>rat_Num = 24, rat_Den = 1\<rparr>, oc_TimeBase = \<lparr>rat_Num = 1, rat_Den = 90000\<rparr>,
      oc_RateControl = \<lparr>rc_TargetBitrate = 4000000, rc_MaxBitrate = 6000000\<rparr>,
      oc_GOP = \<lparr>gop_SegmentDuration = \<lparr>rat_Num = 6, rat_Den = 1\<rparr>, gop_Closed = True, gop_IDRAtBoundary = True\<rparr>,
      oc_Color = \<lparr>col_Primaries = ''bt709'', col_Transfer = ''bt709'', col_Matrix = ''bt709'', col_Range = ''tv''\<rparr>\<rparr>"

definition demo_request :: RenditionRequest where
  "demo_request =
     \<lparr>rq_Source = \<lparr>is_SourceID = ''s'', is_Codec = ''hevc'', is_Profile = ''main10'', is_Width = 1920,
        is_Height = 1080, is_BitDepth = 10, is_HDR = False\<rparr>,
      rq_Output = demo_contract\<rparr>"

definition demo_provider :: videoProvider where
  "demo_provider = \<lparr>vp_Name = ''x264'', vp_Kind = providerCPU,
     vp_Inventory = [\<lparr>dev_ID = ''0'', dev_PerformanceScore = 1\<rparr>]\<rparr>"

definition demo_options :: ManagerOptions where
  "demo_options = \<lparr>mo_DeviceOrder = [], mo_PerDeviceConcurrency = 0, mo_CPUConcurrency = 0, mo_CPUAdmissionWait = 0\<rparr>"

definition demo_primed :: "nat \<Rightarrow> pipelineOutput" where
  "demo_primed p = \<lparr>po_Contract = demo_contract, po_Init = [1, 2], po_ExtradataFingerprint = ''f''\<rparr>"

definition demo_cand :: pipelineCandidate where
  "demo_cand = \<lparr>pc_provider = demo_provider, pc_device = \<lparr>dev_ID = ''0'', dev_PerformanceScore = 1\<rparr>,
     pc_mode = DecodeModeSoftware\<rparr>"

definition demo_rendition :: "nat managedRendition" where
  "demo_rendition = commit_rendition demo_cand (Some ''cpu'') 7 (demo_primed 7)
     (''g-'' @ hex_encode [0]) generationCommitted"

definition demo_world :: "nat rworld" where
  "demo_world =
     \<lparr>rw_reg = [(''cpu'', \<lparr>sem_cap = 1, sem_len = 1\<rparr>)],
      rw_calls = [\<lparr>cl_req = demo_request, cl_cands = [demo_cand], cl_tried = [], cl_phase = AcqGot demo_rendition\<rparr>],
      rw_prepared = [7], rw_closed = []\<rparr>"

lemma demo_valid: "validateOutputContract (rq_Output demo_request) = None"
  by (simp add: validateOutputContract_def demo_request_def demo_contract_def smod_nonneg)

lemma demo_run_candidates:
  "candidates (newVideoRenditionManager demo_options [demo_provider]) [] = ([], [demo_cand])"
  by (simp add: candidates_def newVideoRenditionManager_def demo_options_def demo_provider_def of_kind_def
      inventory_def allowed_def touchGates_def sortCandidates_def mk_cand_def demo_cand_def)

lemma demo_reachable: "rend_reach (newVideoRenditionManager demo_options [demo_provider]) demo_primed demo_world"
proof -
  let ?m = "newVideoRenditionManager demo_options [demo_provider]"
  let ?call = "\<lambda>ph. \<lparr>cl_req = demo_request, cl_cands = [demo_cand], cl_tried = [], cl_phase = ph :: nat acq_phase\<rparr>"
  let ?a = "\<lparr>rw_reg = [], rw_calls = [?call (AcqNext [demo_cand] None None)], rw_prepared = [], rw_closed = []\<rparr>"
  let ?reg = "[(''cpu'', \<lparr>sem_cap = 1, sem_len = 1\<rparr>)] :: admissionRegistry"
  let ?b = "\<lparr>rw_reg = ?reg, rw_calls = [?call (AcqPreparing demo_cand (Some ''cpu'') [] None)],
    rw_prepared = [], rw_closed = []\<rparr>"
  have 1: "rend_step ?m demo_primed rend_init ?a"
    using rend_step.acquire [of ?m demo_primed rend_init demo_request]
    by (simp add: new_call_def rend_init_def acq_begin_def demo_valid demo_run_candidates)
  have adm: "acq_admit ?m SelToken [demo_cand] None None [] =
      Some (?reg, AcqPreparing demo_cand (Some ''cpu'') [] None :: nat acq_phase)"
    by (simp add: acq_admit_def admit_def admit_cpu_def demo_cand_def demo_provider_def registry_gate_def
        newAdmissionGate_def make_chan_def newVideoRenditionManager_def demo_options_def gate_acquire_def chan_send_def)
  have 2: "rend_step ?m demo_primed ?a ?b"
    using rend_step.admit [of 0 ?a "?call (AcqNext [demo_cand] None None)" "[demo_cand]" None None ?m SelToken ?reg
        "AcqPreparing demo_cand (Some ''cpu'') [] None" "[]" demo_primed] adm
    by (simp add: put_call_def log_try_def)
  have "acq_prepared demo_primed demo_request (Inr 7) (newGenerationID (Inr [0])) demo_cand (Some ''cpu'') [] None ?reg =
      Some (?reg, [], AcqGot demo_rendition)"
    by (simp add: acq_prepared_def transition_simps newGenerationID_def hex_char_def primed_ok_def demo_primed_def
        demo_request_def demo_rendition_def)
  then have 3: "rend_step ?m demo_primed ?b demo_world"
    using rend_step.prepared [of 0 ?b "?call (AcqPreparing demo_cand (Some ''cpu'') [] None)" demo_cand "Some ''cpu''" "[]"
        None demo_primed "Inr 7" "Inr [0]" ?reg "[]" "AcqGot demo_rendition" ?m]
    by (simp add: put_call_def log_try_def answer_pipes_def demo_world_def)
  from 1 have "(rend_step ?m demo_primed)\<^sup>*\<^sup>* rend_init ?a" by (rule r_into_rtranclp)
  from this 2 have "(rend_step ?m demo_primed)\<^sup>*\<^sup>* rend_init ?b" by (rule rtranclp.rtrancl_into_rtrancl)
  from this 3 have "(rend_step ?m demo_primed)\<^sup>*\<^sup>* rend_init demo_world" by (rule rtranclp.rtrancl_into_rtrancl)
  then show ?thesis by (simp only: rend_reach_def)
qed

theorem rendition_tokens_balanced_witness:
  "reg_used (rw_reg demo_world) ''cpu'' = 1 \<and> holders ''cpu'' (rw_calls demo_world) = 1 \<and>
   releaseAdmission (Some ''cpu'') (rw_reg demo_world) \<noteq> None"
proof -
  have "reg_used (rw_reg demo_world) ''cpu'' = 1" by (simp add: demo_world_def reg_used_def gate_inUse_def)
  moreover have "phase_token (AcqGot demo_rendition) = Some ''cpu''" by (simp add: demo_rendition_def)
  ultimately show ?thesis
    using rendition_tokens_balanced [OF demo_reachable, of "''cpu''"] by (simp add: demo_world_def)
qed

theorem rendition_pipelines_closed_witness:
  "mset (rw_prepared demo_world) = mset (rw_closed demo_world) + phase_pipes (AcqGot demo_rendition)"
  using rendition_pipelines_closed [OF demo_reachable] by (simp add: demo_world_def)

theorem rendition_is_as_requested_witness:
  "ds_Output (mr_descriptor demo_rendition) = demo_contract \<and> mr_init demo_rendition \<noteq> []"
  using rendition_is_as_requested [OF demo_reachable, of "rw_calls demo_world ! 0" demo_rendition]
  by (simp add: demo_world_def demo_request_def)

section \<open>The life of a rendition\<close>

fun segments :: "(rerror + byte list) list \<Rightarrow> 'p managedRendition \<Rightarrow> 'p managedRendition \<times> (rerror option + byte list) list" where
  "segments [] r = (r, [])"
| "segments (a # as) r =
     (let (r1, res) = managed_Segment a r; (r2, rest) = segments as r1 in (r2, res # rest))"

definition life_ok :: "'p managedRendition \<Rightarrow> bool" where
  "life_ok r \<longleftrightarrow>
     mr_lifecycle r \<in> {generationCommitted, generationRunning, generationComplete, generationFailed} \<and>
     (case mr_terminalErr r of
        None \<Rightarrow> mr_lifecycle r \<in> {generationCommitted, generationRunning}
      | Some e \<Rightarrow> mr_lifecycle r = (if errors_Is e EOFErr then generationComplete else generationFailed) \<and>
          is_RenditionError e \<and> re_generation e = ds_GenerationID (mr_descriptor r) \<and>
          FailureCategoryOf e \<noteq> FailureCancelled)"

lemma enter_running_live:
  "l \<in> {generationCommitted, generationRunning} \<Longrightarrow> enter_running l = (generationRunning, None)"
  by (auto simp: enter_running_def transition_simps)

lemma managed_Segment_live:
  assumes "life_ok r" "\<not> mr_released r" "mr_terminalErr r = None"
  shows "managed_Segment (Inr seg) r = (r\<lparr>mr_lifecycle := generationRunning\<rparr>, Inr seg)"
    and "managed_Segment (Inl err) r =
      segment_failed (withGeneration err (ds_GenerationID (mr_descriptor r))) (r\<lparr>mr_lifecycle := generationRunning\<rparr>)"
  using assms by (auto simp: life_ok_def managed_Segment_def enter_running_live)

lemma managed_Segment_dead:
  assumes "life_ok r" "\<not> mr_released r" "mr_terminalErr r = Some e"
  shows "managed_Segment a r = (r, Inl (Some e))"
  using assms by (auto simp: life_ok_def managed_Segment_def split: if_splits)

lemma life_ok_Segment:
  assumes "life_ok r" "\<not> mr_released r"
  shows "life_ok (fst (managed_Segment a r))"
proof (cases "mr_terminalErr r")
  case (Some e)
  with assms show ?thesis by (simp add: managed_Segment_dead)
next
  case None
  show ?thesis
  proof (cases a)
    case (Inl err)
    with None assms show ?thesis
      by (auto simp: managed_Segment_live segment_failed_def life_ok_def transition_simps withGeneration_props)
  next
    case (Inr seg)
    with None assms show ?thesis by (simp add: managed_Segment_live life_ok_def)
  qed
qed

lemma life_ok_commit: "life_ok (commit_rendition c tok p out gid generationCommitted)"
  by (simp add: life_ok_def commit_rendition_def)

lemma segments_life:
  "life_ok r \<Longrightarrow> \<not> mr_released r \<Longrightarrow>
   life_ok (fst (segments as r)) \<and> \<not> mr_released (fst (segments as r)) \<and> mr_descriptor (fst (segments as r)) = mr_descriptor r"
proof (induction as arbitrary: r)
  case (Cons a as)
  then show ?case
    using life_ok_Segment [of r a] managed_Segment_keeps [of a r]
    by (simp add: Let_def case_prod_beta)
qed simp

text \<open>
  The first failure of a rendition that is not a cancellation is final. Whatever answers the
  pipeline gave since the commit, a rendition is running (or not yet started) as long as no such
  failure happened; from then on it is complete, when the failure is the end of the stream, or failed,
  and every further request for a segment gets that same failure, which names the generation. A
  cancelled request leaves the rendition running.
\<close>

theorem rendition_failure_is_final:
  assumes "r = fst (segments answers (commit_rendition c tok p out gid generationCommitted))"
  shows "(mr_terminalErr r = None \<and> mr_lifecycle r \<in> {generationCommitted, generationRunning} \<and>
      (\<forall>seg. snd (managed_Segment (Inr seg) r) = Inr seg) \<and>
      (\<forall>err. FailureCategoryOf err = FailureCancelled \<longrightarrow> mr_terminalErr (fst (managed_Segment (Inl err) r)) = None) \<and>
      (\<forall>err. FailureCategoryOf err \<noteq> FailureCancelled \<longrightarrow>
         mr_terminalErr (fst (managed_Segment (Inl err) r)) = Some (withGeneration err gid))) \<or>
    (\<exists>e. mr_terminalErr r = Some e \<and> re_generation e = gid \<and> FailureCategoryOf e \<noteq> FailureCancelled \<and>
      mr_lifecycle r = (if errors_Is e EOFErr then generationComplete else generationFailed) \<and>
      (\<forall>a. managed_Segment a r = (r, Inl (Some e))))"
proof -
  have *: "life_ok r" "\<not> mr_released r" "ds_GenerationID (mr_descriptor r) = gid"
    using segments_life [OF life_ok_commit, of c tok p out gid answers] by (simp_all add: assms)
  show ?thesis
  proof (cases "mr_terminalErr r")
    case None
    with * show ?thesis
      by (auto simp: managed_Segment_live segment_failed_def withGeneration_props) (auto simp: life_ok_def)
  next
    case (Some e)
    with * show ?thesis by (auto simp: managed_Segment_dead) (auto simp: life_ok_def)
  qed
qed

theorem rendition_failure_is_final_witness:
  "\<exists>e. mr_terminalErr (fst (segments [Inr [1], Inl EOFErr, Inr [2]]
        (commit_rendition demo_cand None (7::nat) (demo_primed 7) ''g'' generationCommitted))) = Some e \<and>
     errors_Is e EOFErr"
proof -
  have "mr_terminalErr (fst (segments [Inr [1], Inl EOFErr, Inr [2]]
        (commit_rendition demo_cand None (7::nat) (demo_primed 7) ''g'' generationCommitted))) =
      Some (withGeneration EOFErr ''g'')"
    by (simp add: commit_rendition_def managed_Segment_def enter_running_def transition_simps segment_failed_def
        withGeneration_props FailureCategoryOf_def is_ctx_error_def)
      (simp add: withGeneration_def is_ctx_error_def set_generation_def newFailure_def)
  moreover have "errors_Is (withGeneration EOFErr ''g'') EOFErr"
    by (simp add: withGeneration_def is_ctx_error_def set_generation_def newFailure_def)
  ultimately show ?thesis
    using rendition_failure_is_final [OF refl, of "[Inr [1], Inl EOFErr, Inr [2]]" demo_cand None "7::nat" "demo_primed 7" "''g''"]
    by auto
qed

end
