(* ===== verification/Catalog.thy ===== *)
theory Catalog
  imports GoText
begin

text \<open>
  The catalog of torrents (\<^verbatim>\<open>catalog/catalog.go\<close>): metadata, pin state and download mode by infohash, kept
  in memory and, with a data directory, written to \<^verbatim>\<open>catalog.json\<close> after every mutation. The content of
  that file is the list of entries it encodes, or bytes that are no such list; what the operating
  system refuses is an argument. Strings are valid UTF-8, so encoding a list and decoding it gives it
  back.
\<close>

section \<open>Entries and the catalog\<close>

record Entry =
  en_Hash :: string
  en_Source :: string
  en_Title :: string
  en_OriginalTitle :: string
  en_MediaType :: string
  en_NumberOfSeasons :: int
  en_TmdbID :: int
  en_Poster :: string
  en_Pinned :: bool
  en_DownloadMode :: string
  en_AddedAt :: time_ns

definition ModeStream :: string where "ModeStream = ''stream''"
definition ModeDisk :: string where "ModeDisk = ''disk''"

record Catalog =
  ct_entries :: "(string \<times> Entry) list"
  ct_path :: string

datatype catalog_file = CatalogJson "Entry list" | OtherBytes

type_synonym catalog_fs = "string \<Rightarrow> catalog_file option"

record catalog_faults =
  cf_mkdir :: bool
  cf_read :: bool
  cf_write :: bool
  cf_rename :: bool

definition no_catalog_faults :: catalog_faults where
  "no_catalog_faults = \<lparr>cf_mkdir = False, cf_read = False, cf_write = False, cf_rename = False\<rparr>"

definition zero_Entry :: "string \<Rightarrow> time_ns \<Rightarrow> Entry" where
  "zero_Entry hash now =
     \<lparr>en_Hash = hash, en_Source = '''', en_Title = '''', en_OriginalTitle = '''', en_MediaType = '''',
      en_NumberOfSeasons = 0, en_TmdbID = 0, en_Poster = '''', en_Pinned = False, en_DownloadMode = '''',
      en_AddedAt = now\<rparr>"

definition catalog_New :: Catalog where
  "catalog_New = \<lparr>ct_entries = [], ct_path = ''''\<rparr>"

definition load_entries :: "Entry list \<Rightarrow> (string \<times> Entry) list \<Rightarrow> (string \<times> Entry) list" where
  "load_entries es m = fold (\<lambda>e m. if en_Hash e \<noteq> '''' then AList.update (en_Hash e) e m else m) es m"

definition catalog_path :: "string \<Rightarrow> string" where
  "catalog_path dir = dir @ ''/catalog.json''"

definition NewPersistent :: "catalog_faults \<Rightarrow> string \<Rightarrow> catalog_fs \<Rightarrow> Catalog" where
  "NewPersistent f dir fs =
     (if dir = '''' \<or> cf_mkdir f then catalog_New
      else \<lparr>ct_entries = (if cf_read f then []
               else case fs (catalog_path dir) of
                      Some (CatalogJson es) \<Rightarrow> load_entries es []
                    | _ \<Rightarrow> []),
            ct_path = catalog_path dir\<rparr>)"

text \<open>\<^verbatim>\<open>persist\<close>: a snapshot under the read lock, then a temporary file and a rename, with no lock held.\<close>

definition persist_snapshot :: "Catalog \<Rightarrow> Entry list" where
  "persist_snapshot c = map snd (ct_entries c)"

definition persist_write :: "catalog_faults \<Rightarrow> Catalog \<Rightarrow> Entry list \<Rightarrow> catalog_fs \<Rightarrow> catalog_fs" where
  "persist_write f c es fs =
     (let tmp = ct_path c @ ''.tmp''
      in if cf_write f then fs(tmp \<mapsto> OtherBytes)
         else if cf_rename f then fs(tmp \<mapsto> CatalogJson es)
         else fs(tmp := None, ct_path c \<mapsto> CatalogJson es))"

definition persist :: "catalog_faults \<Rightarrow> Catalog \<Rightarrow> catalog_fs \<Rightarrow> catalog_fs" where
  "persist f c fs = (if ct_path c = '''' then fs else persist_write f c (persist_snapshot c) fs)"

definition keep :: "string \<Rightarrow> string \<Rightarrow> string" where
  "keep new old = (if new \<noteq> '''' then new else old)"

definition keep_int :: "int \<Rightarrow> int \<Rightarrow> int" where
  "keep_int new old = (if new \<noteq> 0 then new else old)"

definition merge_entry :: "Entry \<Rightarrow> Entry \<Rightarrow> Entry" where
  "merge_entry inp e =
     e\<lparr>en_Source := keep (en_Source inp) (en_Source e), en_Title := keep (en_Title inp) (en_Title e),
       en_OriginalTitle := keep (en_OriginalTitle inp) (en_OriginalTitle e),
       en_MediaType := keep (en_MediaType inp) (en_MediaType e),
       en_NumberOfSeasons := keep_int (en_NumberOfSeasons inp) (en_NumberOfSeasons e),
       en_TmdbID := keep_int (en_TmdbID inp) (en_TmdbID e), en_Poster := keep (en_Poster inp) (en_Poster e),
       en_DownloadMode := keep (en_DownloadMode inp) (en_DownloadMode e)\<rparr>"

definition find_or_new :: "time_ns \<Rightarrow> string \<Rightarrow> Catalog \<Rightarrow> Entry" where
  "find_or_new now hash c = (case map_of (ct_entries c) hash of Some e \<Rightarrow> e | None \<Rightarrow> zero_Entry hash now)"

text \<open>The critical sections of the mutators; each is followed by \<open>persist\<close>.\<close>

definition Upsert_locked :: "time_ns \<Rightarrow> Entry \<Rightarrow> Catalog \<Rightarrow> Catalog" where
  "Upsert_locked now inp c =
     c\<lparr>ct_entries := AList.update (en_Hash inp) (merge_entry inp (find_or_new now (en_Hash inp) c)) (ct_entries c)\<rparr>"

definition SetPinned_locked :: "time_ns \<Rightarrow> string \<Rightarrow> bool \<Rightarrow> Catalog \<Rightarrow> Catalog" where
  "SetPinned_locked now hash pinned c =
     c\<lparr>ct_entries := AList.update hash ((find_or_new now hash c)\<lparr>en_Pinned := pinned\<rparr>) (ct_entries c)\<rparr>"

definition Remove_locked :: "string \<Rightarrow> Catalog \<Rightarrow> Catalog" where
  "Remove_locked hash c = c\<lparr>ct_entries := AList.delete hash (ct_entries c)\<rparr>"

definition catalog_Upsert :: "catalog_faults \<Rightarrow> time_ns \<Rightarrow> Entry \<Rightarrow> Catalog \<times> catalog_fs \<Rightarrow> (Catalog \<times> catalog_fs) \<times> Entry" where
  "catalog_Upsert f now inp cf =
     (let c = Upsert_locked now inp (fst cf)
      in ((c, persist f c (snd cf)), merge_entry inp (find_or_new now (en_Hash inp) (fst cf))))"

definition catalog_SetPinned ::
  "catalog_faults \<Rightarrow> time_ns \<Rightarrow> string \<Rightarrow> bool \<Rightarrow> Catalog \<times> catalog_fs \<Rightarrow> (Catalog \<times> catalog_fs) \<times> Entry" where
  "catalog_SetPinned f now hash pinned cf =
     (let c = SetPinned_locked now hash pinned (fst cf)
      in ((c, persist f c (snd cf)), (find_or_new now hash (fst cf))\<lparr>en_Pinned := pinned\<rparr>))"

definition catalog_Remove :: "catalog_faults \<Rightarrow> string \<Rightarrow> Catalog \<times> catalog_fs \<Rightarrow> Catalog \<times> catalog_fs" where
  "catalog_Remove f hash cf = (let c = Remove_locked hash (fst cf) in (c, persist f c (snd cf)))"

definition catalog_Get :: "string \<Rightarrow> Catalog \<Rightarrow> Entry option" where
  "catalog_Get hash c = map_of (ct_entries c) hash"

definition catalog_All :: "Catalog \<Rightarrow> Entry list" where
  "catalog_All c = map snd (ct_entries c)"

definition catalog_IsPinned :: "string \<Rightarrow> Catalog \<Rightarrow> bool" where
  "catalog_IsPinned hash c = (case map_of (ct_entries c) hash of None \<Rightarrow> False | Some e \<Rightarrow> en_Pinned e)"

section \<open>Invariant\<close>

definition catalog_wf :: "Catalog \<Rightarrow> bool" where
  "catalog_wf c \<longleftrightarrow> distinct (map fst (ct_entries c)) \<and>
     (\<forall>k e. map_of (ct_entries c) k = Some e \<longrightarrow> en_Hash e = k \<and> k \<noteq> '''')"

lemma merge_entry_keeps [simp]:
  "en_Hash (merge_entry inp e) = en_Hash e" "en_Pinned (merge_entry inp e) = en_Pinned e"
  "en_AddedAt (merge_entry inp e) = en_AddedAt e"
  by (simp_all add: merge_entry_def)

lemma find_or_new_hash: "catalog_wf c \<Longrightarrow> en_Hash (find_or_new now hash c) = hash"
  by (auto simp: find_or_new_def zero_Entry_def catalog_wf_def split: option.splits)

lemma catalog_wf_update:
  "catalog_wf c \<Longrightarrow> k \<noteq> '''' \<Longrightarrow> en_Hash e = k \<Longrightarrow> catalog_wf (c\<lparr>ct_entries := AList.update k e (ct_entries c)\<rparr>)"
  by (auto simp: catalog_wf_def distinct_update update_conv')

lemma catalog_wf_delete: "catalog_wf c \<Longrightarrow> catalog_wf (c\<lparr>ct_entries := AList.delete k (ct_entries c)\<rparr>)"
  by (auto simp: catalog_wf_def delete_conv' split: if_splits)

lemma load_entries_wf:
  "distinct (map fst m) \<Longrightarrow> (\<And>k e. map_of m k = Some e \<Longrightarrow> en_Hash e = k \<and> k \<noteq> '''') \<Longrightarrow>
   catalog_wf \<lparr>ct_entries = load_entries es m, ct_path = p\<rparr>"
proof (induction es arbitrary: m)
  case Nil
  then show ?case by (simp add: load_entries_def catalog_wf_def)
next
  case (Cons e es)
  have "catalog_wf \<lparr>ct_entries = load_entries es (if en_Hash e \<noteq> '''' then AList.update (en_Hash e) e m else m), ct_path = p\<rparr>"
  proof (rule Cons.IH)
    show "distinct (map fst (if en_Hash e \<noteq> '''' then AList.update (en_Hash e) e m else m))"
      using Cons.prems(1) by (simp add: distinct_update)
    show "en_Hash e' = k \<and> k \<noteq> ''''"
      if "map_of (if en_Hash e \<noteq> '''' then AList.update (en_Hash e) e m else m) k = Some e'" for k e'
      using that Cons.prems(2) [of k e'] by (auto simp: update_conv' split: if_splits)
  qed
  then show ?case by (simp add: load_entries_def)
qed

lemma load_snapshot:
  "distinct (map fst al) \<Longrightarrow> (\<And>k e. map_of al k = Some e \<Longrightarrow> en_Hash e = k \<and> k \<noteq> '''') \<Longrightarrow>
   map_of (load_entries (map snd al) m) = map_of m ++ map_of al"
proof (induction al arbitrary: m)
  case Nil
  then show ?case by (simp add: load_entries_def)
next
  case (Cons ke al)
  obtain k e where ke: "ke = (k, e)" by force
  have h: "en_Hash e = k" "k \<noteq> ''''" using Cons.prems(2) [of k e] ke by auto
  have rest: "en_Hash e' = k' \<and> k' \<noteq> ''''" if "map_of al k' = Some e'" for k' e'
  proof -
    have "k' \<noteq> k" using Cons.prems(1) that ke by (force dest: map_of_SomeD)
    then show ?thesis using Cons.prems(2) [of k' e'] that ke by simp
  qed
  have "map_of (load_entries (map snd al) (AList.update k e m)) = map_of (AList.update k e m) ++ map_of al"
    using Cons.prems(1) rest ke by (intro Cons.IH) auto
  moreover have "k \<notin> dom (map_of al)" using Cons.prems(1) ke by (simp add: dom_map_of_conv_image_fst)
  ultimately show ?case
    using ke h by (auto simp: load_entries_def update_conv' fun_eq_iff map_add_def split: option.splits)
qed

section \<open>Mutations and restarts\<close>

datatype catalog_op = CatUpsert time_ns Entry | CatPin time_ns string bool | CatRemove string

fun op_hash :: "catalog_op \<Rightarrow> string" where
  "op_hash (CatUpsert now e) = en_Hash e"
| "op_hash (CatPin now h b) = h"
| "op_hash (CatRemove h) = h"

fun catalog_step :: "catalog_faults \<times> catalog_op \<Rightarrow> Catalog \<times> catalog_fs \<Rightarrow> Catalog \<times> catalog_fs" where
  "catalog_step (f, CatUpsert now e) cf = fst (catalog_Upsert f now e cf)"
| "catalog_step (f, CatPin now h b) cf = fst (catalog_SetPinned f now h b cf)"
| "catalog_step (f, CatRemove h) cf = catalog_Remove f h cf"

lemma catalog_step_shape:
  assumes "catalog_wf (fst cf)" "op_hash op \<noteq> ''''"
  obtains c where "catalog_step (f, op) cf = (c, persist f c (snd cf))" "catalog_wf c" "ct_path c = ct_path (fst cf)"
proof (cases op)
  case (CatUpsert now e)
  have "catalog_wf (Upsert_locked now e (fst cf))"
    using assms CatUpsert unfolding Upsert_locked_def by (intro catalog_wf_update) (simp_all add: find_or_new_hash)
  then show ?thesis
    using that CatUpsert by (simp add: catalog_Upsert_def Let_def Upsert_locked_def)
next
  case (CatPin now h b)
  have "catalog_wf (SetPinned_locked now h b (fst cf))"
    using assms CatPin unfolding SetPinned_locked_def by (intro catalog_wf_update) (simp_all add: find_or_new_hash)
  then show ?thesis
    using that CatPin by (simp add: catalog_SetPinned_def Let_def SetPinned_locked_def)
next
  case (CatRemove h)
  have "catalog_wf (Remove_locked h (fst cf))"
    using assms unfolding Remove_locked_def by (intro catalog_wf_delete)
  then show ?thesis
    using that CatRemove by (simp add: catalog_Remove_def Let_def Remove_locked_def)
qed

definition stored_entries :: "string \<Rightarrow> catalog_fs \<Rightarrow> string \<rightharpoonup> Entry" where
  "stored_entries dir fs =
     (case fs (catalog_path dir) of Some (CatalogJson es) \<Rightarrow> map_of (load_entries es []) | _ \<Rightarrow> Map.empty)"

lemma persist_stored:
  assumes "catalog_wf c" "ct_path c = catalog_path dir"
  shows "stored_entries dir (persist f c fs) =
    (if cf_write f \<or> cf_rename f then stored_entries dir fs else map_of (ct_entries c))"
proof -
  have ne: "catalog_path dir @ ''.tmp'' \<noteq> catalog_path dir" "catalog_path dir \<noteq> ''''"
    by (simp_all add: catalog_path_def)
  have "map_of (load_entries (map snd (ct_entries c)) []) = map_of (ct_entries c)"
    using assms(1) load_snapshot [of "ct_entries c" "[]"] by (simp add: catalog_wf_def)
  with ne assms(2) show ?thesis
    by (auto simp: stored_entries_def persist_def persist_write_def persist_snapshot_def Let_def)
qed

lemma NewPersistent_stored:
  assumes "dir \<noteq> ''''"
  shows "map_of (ct_entries (NewPersistent no_catalog_faults dir fs)) = stored_entries dir fs"
    and "catalog_wf (NewPersistent no_catalog_faults dir fs)"
    and "ct_path (NewPersistent no_catalog_faults dir fs) = catalog_path dir"
  using assms load_entries_wf [of "[]"]
  by (auto simp: NewPersistent_def no_catalog_faults_def stored_entries_def catalog_wf_def
      split: option.splits catalog_file.splits)

lemma catalog_run:
  assumes "dir \<noteq> ''''" "\<forall>(f, op) \<in> set ops. op_hash op \<noteq> ''''"
    and start_def: "start = (NewPersistent no_catalog_faults dir fs, fs)"
  shows "catalog_wf (fst (fold catalog_step ops start)) \<and> ct_path (fst (fold catalog_step ops start)) = catalog_path dir \<and>
    (\<exists>n \<le> length ops. stored_entries dir (snd (fold catalog_step ops start)) =
       map_of (ct_entries (fst (fold catalog_step (take n ops) start))) \<and>
       (ops \<noteq> [] \<longrightarrow> fst (last ops) = no_catalog_faults \<longrightarrow> n = length ops))"
  using assms(2)
proof (induction ops rule: rev_induct)
  case Nil
  show ?case using NewPersistent_stored [OF assms(1), of fs] by (simp add: start_def)
next
  case (snoc fop ops)
  let ?s = "fold catalog_step ops start"
  obtain f op where fop: "fop = (f, op)" by force
  from snoc obtain n where wf: "catalog_wf (fst ?s)" "ct_path (fst ?s) = catalog_path dir" and
    n: "n \<le> length ops" "stored_entries dir (snd ?s) = map_of (ct_entries (fst (fold catalog_step (take n ops) start)))"
    by auto
  have "op_hash op \<noteq> ''''" using snoc.prems fop by simp
  then obtain c where c: "catalog_step (f, op) ?s = (c, persist f c (snd ?s))" "catalog_wf c" "ct_path c = ct_path (fst ?s)"
    by (rule catalog_step_shape [OF wf(1)])
  show ?case
  proof (cases "cf_write f \<or> cf_rename f")
    case True
    then have "f \<noteq> no_catalog_faults" by (auto simp: no_catalog_faults_def)
    with True n c wf fop show ?thesis
      by (auto intro!: exI [of _ n] simp: persist_stored)
  next
    case False
    with n c wf fop show ?thesis
      by (auto intro!: exI [of _ "Suc (length ops)"] simp: persist_stored)
  qed
qed

text \<open>
  C17. The catalog survives restarts. After any sequence of upserts, pin changes and removals, with any
  write or rename failing, a new process loads the entries as they were after some prefix of that
  sequence, never a mixture and never an empty catalog out of a half-written file; and when the last
  mutation met no failure it loads exactly the entries the old process had.
\<close>

theorem catalog_survives_restart:
  assumes "dir \<noteq> ''''" "\<forall>(f, op) \<in> set ops. op_hash op \<noteq> ''''"
    and "start = (NewPersistent no_catalog_faults dir fs, fs)"
    and "restarted = NewPersistent no_catalog_faults dir (snd (fold catalog_step ops start))"
  shows "\<exists>n \<le> length ops.
    (\<forall>hash. catalog_Get hash restarted = catalog_Get hash (fst (fold catalog_step (take n ops) start))) \<and>
    (ops \<noteq> [] \<and> fst (last ops) = no_catalog_faults \<longrightarrow> n = length ops)"
  using catalog_run [OF assms(1-3)] NewPersistent_stored(1) [OF assms(1)]
  unfolding assms(4) catalog_Get_def by auto

theorem catalog_survives_restart_witness:
  "\<exists>n \<le> 1. catalog_Get ''aa'' (NewPersistent no_catalog_faults ''d''
      (snd (fold catalog_step [(no_catalog_faults, CatPin 5 ''aa'' True)]
         (NewPersistent no_catalog_faults ''d'' (\<lambda>_. None), \<lambda>_. None)))) =
    catalog_Get ''aa'' (fst (fold catalog_step (take n [(no_catalog_faults, CatPin 5 ''aa'' True)])
         (NewPersistent no_catalog_faults ''d'' (\<lambda>_. None), \<lambda>_. None))) \<and> n = 1"
proof -
  let ?ops = "[(no_catalog_faults, CatPin 5 ''aa'' True)]"
  from catalog_survives_restart [OF _ _ refl refl, of "''d''" ?ops "\<lambda>_. None"]
  obtain n where "n \<le> length ?ops"
    "catalog_Get ''aa'' (NewPersistent no_catalog_faults ''d''
      (snd (fold catalog_step ?ops (NewPersistent no_catalog_faults ''d'' (\<lambda>_. None), \<lambda>_. None)))) =
     catalog_Get ''aa'' (fst (fold catalog_step (take n ?ops) (NewPersistent no_catalog_faults ''d'' (\<lambda>_. None), \<lambda>_. None)))"
    "n = length ?ops" by auto
  then show ?thesis by (intro exI [of _ n]) (simp only: list.size One_nat_def plus_nat.simps)
qed

text \<open>
  Concurrent mutations can lose one on disk: \<^verbatim>\<open>persist\<close> takes its snapshot and writes it with the lock
  released in between, so a snapshot taken before another mutation can be written after it. The pin
  is in memory and was written, and yet a restart does not find it.
\<close>

theorem catalog_persist_race:
  assumes "catalog_wf c" "ct_path c = catalog_path dir" "dir \<noteq> ''''" "hashA \<noteq> ''''" "hashB \<noteq> ''''" "hashA \<noteq> hashB"
    and "\<not> catalog_IsPinned hashB c"
    and "c1 = SetPinned_locked t1 hashA True c" "snapA = persist_snapshot c1"
    and "c2 = SetPinned_locked t2 hashB True c1" "fs1 = persist no_catalog_faults c2 fs"
    and "fs2 = persist_write no_catalog_faults c2 snapA fs1"
  shows "catalog_IsPinned hashB c2 \<and>
    catalog_IsPinned hashB (NewPersistent no_catalog_faults dir fs1) \<and>
    \<not> catalog_IsPinned hashB (NewPersistent no_catalog_faults dir fs2)"
proof -
  have wf1: "catalog_wf c1" unfolding assms(8) SetPinned_locked_def
    using assms(1,4) by (intro catalog_wf_update) (simp_all add: find_or_new_hash)
  have wf2: "catalog_wf c2" unfolding assms(10) SetPinned_locked_def
    using wf1 assms(5) by (intro catalog_wf_update) (simp_all add: find_or_new_hash)
  have paths: "ct_path c1 = catalog_path dir" "ct_path c2 = catalog_path dir"
    using assms(2,8,10) by (simp_all add: SetPinned_locked_def)
  have ok: "\<not> (cf_write no_catalog_faults \<or> cf_rename no_catalog_faults)" by (simp add: no_catalog_faults_def)
  have "fs2 = persist no_catalog_faults c1 fs1"
    using paths assms(9,12) by (simp add: persist_def persist_write_def Let_def) (simp add: catalog_path_def)
  then have s2: "stored_entries dir fs2 = map_of (ct_entries c1)"
    using persist_stored [OF wf1 paths(1)] ok by simp
  have s1: "stored_entries dir fs1 = map_of (ct_entries c2)"
    using persist_stored [OF wf2 paths(2)] ok assms(11) by simp
  have p2: "catalog_IsPinned hashB c2"
    using assms(10) by (simp add: catalog_IsPinned_def SetPinned_locked_def update_conv')
  have p1: "\<not> catalog_IsPinned hashB c1"
    using assms(6,7,8) by (simp add: catalog_IsPinned_def SetPinned_locked_def update_conv')
  show ?thesis
    using p1 p2 s1 s2 NewPersistent_stored(1) [OF assms(3)] by (simp add: catalog_IsPinned_def)
qed

theorem catalog_persist_race_witness:
  "\<exists>c2 fs2. catalog_IsPinned ''bb'' c2 \<and> \<not> catalog_IsPinned ''bb'' (NewPersistent no_catalog_faults ''d'' fs2)"
proof -
  have "catalog_wf \<lparr>ct_entries = [], ct_path = catalog_path ''d''\<rparr>" by (simp add: catalog_wf_def)
  from catalog_persist_race [OF this, of "''d''" "''aa''" "''bb''" _ 1 _ _ 2, OF _ _ _ _ _ _ refl refl refl refl refl]
  show ?thesis by (auto simp: catalog_IsPinned_def)
qed

end
