(* ===== verification/Playback.thy ===== *)
theory Playback
  imports Catalog MediaCaches Storage
begin

text \<open>
  Playback sessions and the lifetime of torrents (\<^verbatim>\<open>handlers/playback.go\<close>, and \<^verbatim>\<open>dropTorrent\<close>,
  \<^verbatim>\<open>HandleDeleteTorrent\<close> and \<^verbatim>\<open>isPersistentTorrent\<close> of \<^verbatim>\<open>handlers/torrents.go\<close>). A torrent of the client is its
  20-byte infohash, its key in every map the hex text of it. Of the per-file caches only the keys
  matter here. \<^verbatim>\<open>time.Now()\<close> is an argument; each critical section under \<^verbatim>\<open>lifecycleMu\<close> is one operation.
\<close>

section \<open>State\<close>

record playSession =
  ps_hash :: string
  ps_file :: string
  ps_lastPing :: time_ns

datatype file_cache =
    metadataCache | durationCache | headersCache | subtitleCache | subtitleExtracted | subtitleWinBad
  | hlsSegList | hlsStreamLayout

record HandlerContext =
  hc_playback :: "(string \<times> playSession) list"
  hc_torrentSeen :: "(string \<times> time_ns) list"
  hc_dropping :: "string list"
  hc_catalog :: "Catalog option"
  hc_catalogFs :: catalog_fs
  hc_fileCaches :: "file_cache \<Rightarrow> string list"
  hc_timecodeCache :: "string list"
  hc_hlsSegCache :: seg_cache
  hc_audioCont :: "string list"
  hc_audioContCount :: int
  hc_torrents :: "byte list list"

type_synonym lifetime_config = "(time_ns \<times> time_ns) option"

definition sessionTTL :: "lifetime_config \<Rightarrow> time_ns" where
  "sessionTTL cfg = (case cfg of Some (ttl, _) \<Rightarrow> if 0 < ttl then ttl else 25 * 10 ^ 9 | None \<Rightarrow> 25 * 10 ^ 9)"

definition torrentGrace :: "lifetime_config \<Rightarrow> time_ns" where
  "torrentGrace cfg = (case cfg of Some (_, idle) \<Rightarrow> if 0 < idle then idle else 60 * 10 ^ 9 | None \<Rightarrow> 60 * 10 ^ 9)"

definition maxStreams :: "world option \<Rightarrow> int" where
  "maxStreams engine = (case engine of Some w \<Rightarrow> DerivedMaxStreams w | None \<Rightarrow> 0)"

section \<open>Keepalive and stop\<close>

record PlaybackKeepalive =
  pk_SessionID :: string
  pk_Hash :: string
  pk_File :: string

datatype http_status = StatusNoContent | StatusOK | StatusBadRequest | StatusTooManyRequests

definition HandlePlaybackKeepalive ::
  "time_ns \<Rightarrow> int \<Rightarrow> PlaybackKeepalive option \<Rightarrow> HandlerContext \<Rightarrow> HandlerContext \<times> http_status"
where
  "HandlePlaybackKeepalive now maxS body h =
     (case body of
        None \<Rightarrow> (h, StatusBadRequest)
      | Some req \<Rightarrow>
          if pk_SessionID req = '''' \<or> pk_Hash req = '''' then (h, StatusBadRequest)
          else if map_of (hc_playback h) (pk_SessionID req) = None \<and> 0 < maxS \<and> maxS \<le> int (length (hc_playback h))
          then (h, StatusTooManyRequests)
          else (h\<lparr>hc_playback := AList.update (pk_SessionID req)
                   \<lparr>ps_hash = pk_Hash req, ps_file = pk_File req, ps_lastPing = now\<rparr> (hc_playback h)\<rparr>,
                StatusNoContent))"

definition HandlePlaybackStop :: "string \<Rightarrow> string \<Rightarrow> HandlerContext \<Rightarrow> HandlerContext \<times> http_status" where
  "HandlePlaybackStop query body h =
     (let sessionID = (if query = '''' then body else query)
      in if sessionID = '''' then (h, StatusNoContent)
         else (h\<lparr>hc_playback := AList.delete sessionID (hc_playback h)\<rparr>, StatusNoContent))"

section \<open>Counting watchers\<close>

definition torrentRefcountLocked :: "string \<Rightarrow> HandlerContext \<Rightarrow> int" where
  "torrentRefcountLocked hash h =
     fold (\<lambda>(id, s) n. if ps_hash s = hash then n + 1 else n) (hc_playback h) 0"

definition Watchers :: "string \<Rightarrow> HandlerContext \<Rightarrow> int" where
  "Watchers hash h = torrentRefcountLocked hash h"

definition watchersByHash :: "HandlerContext \<Rightarrow> (string \<times> int) list \<times> (string \<times> string) list" where
  "watchersByHash h =
     fold (\<lambda>(id, s) (counts, files).
        (AList.update (ps_hash s) ((case map_of counts (ps_hash s) of None \<Rightarrow> 0 | Some n \<Rightarrow> n) + 1) counts,
         if map_of files (ps_hash s) = None \<and> ps_file s \<noteq> '''' then AList.update (ps_hash s) (ps_file s) files else files))
       (hc_playback h) ([], [])"

definition sessionStats :: "HandlerContext \<Rightarrow> int \<times> int" where
  "sessionStats h =
     (int (length (hc_playback h)), int (length (remdups (map (\<lambda>(id, s). ps_hash s) (hc_playback h)))))"

section \<open>Dropping a torrent\<close>

definition isPersistentTorrent :: "string \<Rightarrow> HandlerContext \<Rightarrow> bool" where
  "isPersistentTorrent hash h =
     (case hc_catalog h of
        None \<Rightarrow> False
      | Some c \<Rightarrow> (case catalog_Get hash c of
                     None \<Rightarrow> False
                   | Some e \<Rightarrow> en_Pinned e \<or> en_DownloadMode e = ModeDisk))"

definition dropAudioCont :: "string \<Rightarrow> HandlerContext \<Rightarrow> HandlerContext" where
  "dropAudioCont pre h =
     fold (\<lambda>key h. if prefix pre key
             then h\<lparr>hc_audioCont := remove1 key (hc_audioCont h), hc_audioContCount := hc_audioContCount h - 1\<rparr>
             else h)
       (hc_audioCont h) h"

text \<open>
  \<^verbatim>\<open>dropTorrent\<close> up to the detached goroutine, with whether it went on (a drop in flight is not repeated),
  and the goroutine: it drops the torrent from the client and clears the mark. Closing the piece
  cache is the storage component's \<open>Cache_Close\<close> and \<open>DeleteCache\<close>.
\<close>

definition dropTorrent_claim :: "string \<Rightarrow> HandlerContext \<Rightarrow> HandlerContext \<times> bool" where
  "dropTorrent_claim hashHex h =
     (if hashHex \<in> set (hc_dropping h) then (h, False)
      else (h\<lparr>hc_dropping := hashHex # hc_dropping h,
              hc_playback := filter (\<lambda>(id, s). ps_hash s \<noteq> hashHex) (hc_playback h),
              hc_torrentSeen := AList.delete hashHex (hc_torrentSeen h)\<rparr>, True))"

definition dropTorrent_purge :: "string \<Rightarrow> HandlerContext \<Rightarrow> HandlerContext" where
  "dropTorrent_purge hashHex h =
     (let pre = hashHex @ ''_''
      in dropAudioCont pre
           (h\<lparr>hc_fileCaches := (\<lambda>m. filter (\<lambda>k. \<not> prefix pre k) (hc_fileCaches h m)),
              hc_timecodeCache := removeAll hashHex (hc_timecodeCache h),
              hc_hlsSegCache := seg_purgePrefix pre (hc_hlsSegCache h)\<rparr>))"

definition dropTorrent_teardown :: "byte list \<Rightarrow> string \<Rightarrow> HandlerContext \<Rightarrow> HandlerContext" where
  "dropTorrent_teardown infoHash hashHex h =
     h\<lparr>hc_torrents := removeAll infoHash (hc_torrents h), hc_dropping := removeAll hashHex (hc_dropping h)\<rparr>"

definition dropTorrent :: "byte list \<Rightarrow> string \<Rightarrow> HandlerContext \<Rightarrow> HandlerContext" where
  "dropTorrent infoHash hashHex h =
     (case dropTorrent_claim hashHex h of
        (h1, False) \<Rightarrow> h1
      | (h1, True) \<Rightarrow> dropTorrent_teardown infoHash hashHex (dropTorrent_purge hashHex h1))"

definition HandleDeleteTorrent :: "string \<Rightarrow> HandlerContext \<Rightarrow> HandlerContext \<times> http_status" where
  "HandleDeleteTorrent hashHex h =
     (case hex_decode hashHex of
        None \<Rightarrow> (h, StatusBadRequest)
      | Some infoHash \<Rightarrow>
          if length infoHash \<noteq> 20 then (h, StatusBadRequest)
          else
            let h1 = dropTorrent infoHash hashHex h
            in case hc_catalog h1 of
                 None \<Rightarrow> (h1, StatusOK)
               | Some c \<Rightarrow>
                   (case catalog_Remove no_catalog_faults hashHex (c, hc_catalogFs h1) of
                      (c', fs') \<Rightarrow> (h1\<lparr>hc_catalog := Some c', hc_catalogFs := fs'\<rparr>, StatusOK)))"

section \<open>The reaper\<close>

definition reap_expire :: "time_ns \<Rightarrow> lifetime_config \<Rightarrow> HandlerContext \<Rightarrow> HandlerContext" where
  "reap_expire now cfg h =
     h\<lparr>hc_playback := filter (\<lambda>(id, s). \<not> ps_lastPing s < now - sessionTTL cfg) (hc_playback h)\<rparr>"

text \<open>The decision about one torrent, made under the lock: the new state and whether to drop it.\<close>

definition reap_decide :: "time_ns \<Rightarrow> lifetime_config \<Rightarrow> string \<Rightarrow> HandlerContext \<Rightarrow> HandlerContext \<times> bool" where
  "reap_decide now cfg hash h =
     (if isPersistentTorrent hash h
      then (h\<lparr>hc_torrentSeen := AList.update hash now (hc_torrentSeen h)\<rparr>, False)
      else if 0 < torrentRefcountLocked hash h
      then (h\<lparr>hc_torrentSeen := AList.update hash now (hc_torrentSeen h)\<rparr>, False)
      else case map_of (hc_torrentSeen h) hash of
             None \<Rightarrow> (h\<lparr>hc_torrentSeen := AList.update hash now (hc_torrentSeen h)\<rparr>, False)
           | Some seen \<Rightarrow> (h, torrentGrace cfg < now - seen))"

definition reap_torrent :: "time_ns \<Rightarrow> lifetime_config \<Rightarrow> byte list \<Rightarrow> HandlerContext \<Rightarrow> HandlerContext" where
  "reap_torrent now cfg t h =
     (case reap_decide now cfg (hex_encode t) h of
        (h1, drp) \<Rightarrow> if drp then dropTorrent t (hex_encode t) h1 else h1)"

text \<open>One tick of \<^verbatim>\<open>ReapPlaybackSessions\<close> with nothing in between its critical sections.\<close>

definition ReapPlaybackSessions_tick :: "time_ns \<Rightarrow> lifetime_config \<Rightarrow> HandlerContext \<Rightarrow> HandlerContext" where
  "ReapPlaybackSessions_tick now cfg h =
     (let h1 = reap_expire now cfg h in fold (reap_torrent now cfg) (hc_torrents h1) h1)"

section \<open>Lemmas\<close>

lemma refcount_eq: "torrentRefcountLocked hash h = int (length (filter (\<lambda>(id, s). ps_hash s = hash) (hc_playback h)))"
proof -
  have "fold (\<lambda>(id, s) n. if ps_hash s = hash then n + 1 else n) xs k =
      k + int (length (filter (\<lambda>(id, s). ps_hash s = hash) xs))"
    for xs :: "(string \<times> playSession) list" and k :: int
    by (induction xs arbitrary: k) auto
  then show ?thesis by (simp add: torrentRefcountLocked_def)
qed

lemma refcount_pos: "0 < torrentRefcountLocked hash h \<longleftrightarrow> (\<exists>(id, s) \<in> set (hc_playback h). ps_hash s = hash)"
  by (auto simp: refcount_eq filter_empty_conv)

lemma hex_encode_inj: "hex_encode a = hex_encode b \<longleftrightarrow> a = b"
  by (metis hex_decode_encode option.inject)

lemma dropAudioCont_frame:
  "hc_playback (dropAudioCont p h) = hc_playback h \<and> hc_torrentSeen (dropAudioCont p h) = hc_torrentSeen h \<and>
   hc_catalog (dropAudioCont p h) = hc_catalog h \<and> hc_torrents (dropAudioCont p h) = hc_torrents h \<and>
   hc_catalogFs (dropAudioCont p h) = hc_catalogFs h"
proof -
  have "hc_playback (fold (\<lambda>key h. if prefix p key
             then h\<lparr>hc_audioCont := remove1 key (hc_audioCont h), hc_audioContCount := hc_audioContCount h - 1\<rparr>
             else h) ks h) = hc_playback h \<and>
    hc_torrentSeen (fold (\<lambda>key h. if prefix p key
             then h\<lparr>hc_audioCont := remove1 key (hc_audioCont h), hc_audioContCount := hc_audioContCount h - 1\<rparr>
             else h) ks h) = hc_torrentSeen h \<and>
    hc_catalog (fold (\<lambda>key h. if prefix p key
             then h\<lparr>hc_audioCont := remove1 key (hc_audioCont h), hc_audioContCount := hc_audioContCount h - 1\<rparr>
             else h) ks h) = hc_catalog h \<and>
    hc_torrents (fold (\<lambda>key h. if prefix p key
             then h\<lparr>hc_audioCont := remove1 key (hc_audioCont h), hc_audioContCount := hc_audioContCount h - 1\<rparr>
             else h) ks h) = hc_torrents h \<and>
    hc_catalogFs (fold (\<lambda>key h. if prefix p key
             then h\<lparr>hc_audioCont := remove1 key (hc_audioCont h), hc_audioContCount := hc_audioContCount h - 1\<rparr>
             else h) ks h) = hc_catalogFs h" for ks
    by (induction ks arbitrary: h) auto
  then show ?thesis by (simp add: dropAudioCont_def)
qed

lemma dropTorrent_frame:
  "hc_playback (dropTorrent t hash h) =
     (if hash \<in> set (hc_dropping h) then hc_playback h else filter (\<lambda>(id, s). ps_hash s \<noteq> hash) (hc_playback h))"
  "hc_torrentSeen (dropTorrent t hash h) =
     (if hash \<in> set (hc_dropping h) then hc_torrentSeen h else AList.delete hash (hc_torrentSeen h))"
  "hc_torrents (dropTorrent t hash h) =
     (if hash \<in> set (hc_dropping h) then hc_torrents h else removeAll t (hc_torrents h))"
  "hc_catalog (dropTorrent t hash h) = hc_catalog h"
  "hc_catalogFs (dropTorrent t hash h) = hc_catalogFs h"
  by (auto simp: dropTorrent_def dropTorrent_claim_def dropTorrent_purge_def dropTorrent_teardown_def Let_def
      dropAudioCont_frame)

section \<open>Properties\<close>

definition live_session :: "time_ns \<Rightarrow> lifetime_config \<Rightarrow> string \<Rightarrow> HandlerContext \<Rightarrow> string \<times> playSession \<Rightarrow> bool" where
  "live_session now cfg hash h ids \<longleftrightarrow>
     ids \<in> set (hc_playback h) \<and> ps_hash (snd ids) = hash \<and> now - sessionTTL cfg \<le> ps_lastPing (snd ids)"

definition spared :: "time_ns \<Rightarrow> lifetime_config \<Rightarrow> string \<Rightarrow> HandlerContext \<Rightarrow> bool" where
  "spared now cfg hash h \<longleftrightarrow>
     isPersistentTorrent hash h \<or> (\<exists>ids. live_session now cfg hash h ids) \<or>
     (case map_of (hc_torrentSeen h) hash of None \<Rightarrow> True | Some seen \<Rightarrow> now - seen \<le> torrentGrace cfg)"

lemma torrentGrace_pos: "0 < torrentGrace cfg"
  by (auto simp: torrentGrace_def split: option.splits)

lemma spared_not_dropped:
  assumes "spared now cfg hash h" "reap_decide now cfg hash h = (h', drp)"
  shows "\<not> drp \<and> spared now cfg hash h' \<and> hc_playback h' = hc_playback h \<and> hc_torrents h' = hc_torrents h \<and>
    hc_catalog h' = hc_catalog h"
proof -
  have rc: "\<not> live_session now cfg hash h ids" if "\<not> 0 < torrentRefcountLocked hash h" for ids
    using that by (cases ids) (auto simp: refcount_pos live_session_def)
  have seen: "live_session now cfg hash (h\<lparr>hc_torrentSeen := m\<rparr>) = live_session now cfg hash h"
    "isPersistentTorrent hash (h\<lparr>hc_torrentSeen := m\<rparr>) = isPersistentTorrent hash h" for m
    by (auto simp: live_session_def isPersistentTorrent_def fun_eq_iff)
  from assms torrentGrace_pos [of cfg] rc show ?thesis
    by (auto simp: reap_decide_def spared_def seen update_conv' split: if_splits option.splits)
qed

lemma spared_cong:
  "map_of (hc_torrentSeen h') hash = map_of (hc_torrentSeen h) hash \<Longrightarrow> hc_catalog h' = hc_catalog h \<Longrightarrow>
   (\<And>ids. live_session now cfg hash h' ids \<longleftrightarrow> live_session now cfg hash h ids) \<Longrightarrow>
   spared now cfg hash h' \<longleftrightarrow> spared now cfg hash h"
  by (simp add: spared_def isPersistentTorrent_def)

lemma reap_other:
  assumes "hex_encode t' \<noteq> hash" "t \<noteq> t'"
  shows "spared now cfg hash (reap_torrent now cfg t' h) \<longleftrightarrow> spared now cfg hash h"
    and "live_session now cfg hash (reap_torrent now cfg t' h) ids \<longleftrightarrow> live_session now cfg hash h ids"
    and "t \<in> set (hc_torrents (reap_torrent now cfg t' h)) \<longleftrightarrow> t \<in> set (hc_torrents h)"
proof -
  obtain h1 drp where d: "reap_decide now cfg (hex_encode t') h = (h1, drp)" by force
  have 1: "hc_playback h1 = hc_playback h" "hc_torrents h1 = hc_torrents h" "hc_catalog h1 = hc_catalog h"
    "map_of (hc_torrentSeen h1) hash = map_of (hc_torrentSeen h) hash"
    using d assms(1) by (auto simp: reap_decide_def update_conv' split: if_splits option.splits)
  show l: "live_session now cfg hash (reap_torrent now cfg t' h) ids \<longleftrightarrow> live_session now cfg hash h ids" for ids
    using d 1 assms(1) by (auto simp: reap_torrent_def live_session_def dropTorrent_frame)
  show "spared now cfg hash (reap_torrent now cfg t' h) \<longleftrightarrow> spared now cfg hash h"
    using d 1 assms(1) by (intro spared_cong l) (auto simp: reap_torrent_def dropTorrent_frame delete_conv')
  show "t \<in> set (hc_torrents (reap_torrent now cfg t' h)) \<longleftrightarrow> t \<in> set (hc_torrents h)"
    using d 1 assms(2) by (auto simp: reap_torrent_def dropTorrent_frame)
qed

lemma reap_fold:
  assumes "spared now cfg (hex_encode t) h" "t \<in> set (hc_torrents h)"
  shows "t \<in> set (hc_torrents (fold (reap_torrent now cfg) ts h)) \<and>
    (\<forall>ids. live_session now cfg (hex_encode t) h ids \<longrightarrow>
       live_session now cfg (hex_encode t) (fold (reap_torrent now cfg) ts h) ids)"
  using assms
proof (induction ts arbitrary: h)
  case (Cons t' ts)
  have step: "spared now cfg (hex_encode t) (reap_torrent now cfg t' h) \<and> t \<in> set (hc_torrents (reap_torrent now cfg t' h)) \<and>
    (\<forall>ids. live_session now cfg (hex_encode t) h ids \<longrightarrow> live_session now cfg (hex_encode t) (reap_torrent now cfg t' h) ids)"
  proof (cases "t' = t")
    case True
    obtain h1 drp where d: "reap_decide now cfg (hex_encode t) h = (h1, drp)" by force
    from spared_not_dropped [OF Cons.prems(1) d] d Cons.prems(2) True show ?thesis
      by (auto simp: reap_torrent_def live_session_def)
  next
    case False
    then have "hex_encode t' \<noteq> hex_encode t" by (simp add: hex_encode_inj)
    from reap_other [OF this, of t] False Cons.prems show ?thesis by auto
  qed
  then show ?case using Cons.IH [of "reap_torrent now cfg t' h"] by auto
qed simp

text \<open>
  C18. A tick of the reaper, if nothing interferes with it, never drops a torrent that a live session
  watches, that is pinned or in disk mode, or that had a session no longer ago than the grace period;
  and it removes no session of a torrent it keeps unless its keepalive lapsed.
\<close>

theorem reaper_spares_watched:
  assumes "t \<in> set (hc_torrents h)"
    and "isPersistentTorrent (hex_encode t) h \<or> (\<exists>ids. live_session now cfg (hex_encode t) h ids) \<or>
      (\<forall>seen. map_of (hc_torrentSeen h) (hex_encode t) = Some seen \<longrightarrow> now - seen \<le> torrentGrace cfg)"
  shows "t \<in> set (hc_torrents (ReapPlaybackSessions_tick now cfg h)) \<and>
    (\<forall>ids. live_session now cfg (hex_encode t) h ids \<longrightarrow>
       ids \<in> set (hc_playback (ReapPlaybackSessions_tick now cfg h)))"
proof -
  let ?h = "reap_expire now cfg h"
  have l: "live_session now cfg hash ?h ids \<longleftrightarrow> live_session now cfg hash h ids" for hash ids
    by (cases ids) (auto simp: live_session_def reap_expire_def)
  have "spared now cfg (hex_encode t) h" using assms(2) by (auto simp: spared_def split: option.splits)
  then have "spared now cfg (hex_encode t) ?h"
    by (subst spared_cong [of _ _ h]) (auto simp: l, auto simp: reap_expire_def)
  from reap_fold [OF this, of "hc_torrents ?h"] assms(1) l show ?thesis
    by (auto simp: ReapPlaybackSessions_tick_def Let_def reap_expire_def live_session_def)
qed

text \<open>
  But the reaper decides under the lock and drops after releasing it. A keepalive that arrives in
  between is accepted, and then its torrent is dropped and its session removed all the same, although
  the source says the reaper can never touch an actively watched torrent.
\<close>

theorem reaper_drops_watched_torrent:
  assumes "reap_decide now cfg (hex_encode t) h = (h1, True)"
    and "HandlePlaybackKeepalive now maxS (Some req) h1 = (h2, StatusNoContent)" "pk_Hash req = hex_encode t"
    and "hex_encode t \<notin> set (hc_dropping h)"
  shows "0 < torrentRefcountLocked (hex_encode t) h2 \<and>
    torrentRefcountLocked (hex_encode t) (dropTorrent t (hex_encode t) h2) = 0 \<and>
    t \<notin> set (hc_torrents (dropTorrent t (hex_encode t) h2))"
proof -
  have h1: "h1 = h" using assms(1) by (auto simp: reap_decide_def split: if_splits option.splits)
  have h2: "hc_playback h2 = AList.update (pk_SessionID req)
      \<lparr>ps_hash = pk_Hash req, ps_file = pk_File req, ps_lastPing = now\<rparr> (hc_playback h)"
    "hc_dropping h2 = hc_dropping h"
    using assms(2) h1 by (auto simp: HandlePlaybackKeepalive_def split: if_splits)
  have "(pk_SessionID req, \<lparr>ps_hash = pk_Hash req, ps_file = pk_File req, ps_lastPing = now\<rparr>) \<in> set (hc_playback h2)"
    unfolding h2 by (rule map_of_SomeD) (simp add: update_conv')
  then have "0 < torrentRefcountLocked (hex_encode t) h2" using assms(3) by (force simp: refcount_pos)
  then show ?thesis using assms(4) h2(2) by (simp add: dropTorrent_frame refcount_eq filter_empty_conv case_prod_beta)
qed

subsection \<open>A state\<close>

definition demo_hash :: "byte list" where
  "demo_hash = replicate 20 0xAB"

definition demo_context :: HandlerContext where
  "demo_context =
     \<lparr>hc_playback = [(''s1'', \<lparr>ps_hash = hex_encode demo_hash, ps_file = ''1'', ps_lastPing = 90\<rparr>)],
      hc_torrentSeen = [(hex_encode demo_hash, 0)], hc_dropping = [], hc_catalog = None, hc_catalogFs = (\<lambda>_. None),
      hc_fileCaches = (\<lambda>_. []), hc_timecodeCache = [], hc_hlsSegCache = new_seg_cache 0, hc_audioCont = [],
      hc_audioContCount = 0, hc_torrents = [demo_hash]\<rparr>"

theorem reaper_spares_watched_witness:
  "demo_hash \<in> set (hc_torrents (ReapPlaybackSessions_tick 100 (Some (50, 20)) demo_context))"
proof -
  have "live_session 100 (Some (50, 20)) (hex_encode demo_hash) demo_context
      (''s1'', \<lparr>ps_hash = hex_encode demo_hash, ps_file = ''1'', ps_lastPing = 90\<rparr>)"
    by (simp add: live_session_def demo_context_def sessionTTL_def)
  with reaper_spares_watched [of demo_hash demo_context 100 "Some (50, 20)"] show ?thesis
    by (auto simp: demo_context_def)
qed

theorem reaper_drops_watched_torrent_witness:
  "\<exists>h2. HandlePlaybackKeepalive 100 0
       (Some \<lparr>pk_SessionID = ''s2'', pk_Hash = hex_encode demo_hash, pk_File = ''1''\<rparr>)
       (demo_context\<lparr>hc_playback := []\<rparr>) = (h2, StatusNoContent) \<and>
     0 < torrentRefcountLocked (hex_encode demo_hash) h2 \<and>
     demo_hash \<notin> set (hc_torrents (dropTorrent demo_hash (hex_encode demo_hash) h2))"
proof -
  let ?h = "demo_context\<lparr>hc_playback := []\<rparr>"
  let ?req = "\<lparr>pk_SessionID = ''s2'', pk_Hash = hex_encode demo_hash, pk_File = ''1''\<rparr>"
  have d: "reap_decide 100 (Some (50, 20)) (hex_encode demo_hash) ?h = (?h, True)"
    by (simp add: reap_decide_def demo_context_def isPersistentTorrent_def refcount_eq torrentGrace_def)
  have "length (hex_encode demo_hash) = 40" by (simp add: length_hex_encode demo_hash_def)
  then have ne: "hex_encode demo_hash \<noteq> ''''" by auto
  then obtain h2 where k: "HandlePlaybackKeepalive 100 0 (Some ?req) ?h = (h2, StatusNoContent)"
    by (simp add: HandlePlaybackKeepalive_def)
  have "hex_encode demo_hash \<notin> set (hc_dropping ?h)" by (simp add: demo_context_def)
  from reaper_drops_watched_torrent [OF d k _ this] k show ?thesis by auto
qed

section \<open>Admission of sessions\<close>

datatype session_op =
    SKeepalive time_ns "PlaybackKeepalive option"
  | SStop string string
  | STick time_ns lifetime_config
  | SDelete string

fun session_step :: "int \<Rightarrow> session_op \<Rightarrow> HandlerContext \<Rightarrow> HandlerContext" where
  "session_step maxS (SKeepalive now body) h = fst (HandlePlaybackKeepalive now maxS body h)"
| "session_step maxS (SStop q b) h = fst (HandlePlaybackStop q b h)"
| "session_step maxS (STick now cfg) h = ReapPlaybackSessions_tick now cfg h"
| "session_step maxS (SDelete hash) h = fst (HandleDeleteTorrent hash h)"

lemma length_update:
  "length (AList.update k v al) = (if map_of al k = None then length al + 1 else length al)"
  by (induction al) auto

lemma dropTorrent_shrinks: "length (hc_playback (dropTorrent t hash h)) \<le> length (hc_playback h)"
  by (simp add: dropTorrent_frame)

lemma reap_fold_shrinks: "length (hc_playback (fold (reap_torrent now cfg) ts h)) \<le> length (hc_playback h)"
proof (induction ts arbitrary: h)
  case (Cons t ts)
  obtain h1 drp where d: "reap_decide now cfg (hex_encode t) h = (h1, drp)" by force
  then have "hc_playback h1 = hc_playback h" by (auto simp: reap_decide_def split: if_splits option.splits)
  then have "length (hc_playback (reap_torrent now cfg t h)) \<le> length (hc_playback h)"
    using d dropTorrent_shrinks [of t "hex_encode t" h1] by (simp add: reap_torrent_def)
  with Cons.IH [of "reap_torrent now cfg t h"] show ?case by simp
qed simp

lemma session_step_bounded:
  assumes "0 < maxS" "int (length (hc_playback h)) \<le> maxS"
  shows "int (length (hc_playback (session_step maxS op h))) \<le> maxS"
proof (cases op)
  case (SKeepalive now body)
  with assms show ?thesis
    by (auto simp: HandlePlaybackKeepalive_def length_update split: option.splits)
next
  case (SStop q b)
  have "int (length (AList.delete k (hc_playback h))) \<le> maxS" for k
    using assms(2) length_delete_le [of k "hc_playback h"] by linarith
  with SStop assms show ?thesis by (simp add: HandlePlaybackStop_def Let_def)
next
  case (STick now cfg)
  have "length (hc_playback (ReapPlaybackSessions_tick now cfg h)) \<le> length (hc_playback (reap_expire now cfg h))"
    by (simp add: ReapPlaybackSessions_tick_def Let_def reap_fold_shrinks)
  also have "\<dots> \<le> length (hc_playback h)" by (simp add: reap_expire_def)
  finally show ?thesis using STick assms by simp
next
  case (SDelete hash)
  have "length (hc_playback (fst (HandleDeleteTorrent hash h))) \<le> length (hc_playback h)"
    using dropTorrent_shrinks
    by (auto simp: HandleDeleteTorrent_def Let_def split: option.splits prod.splits)
  with SDelete assms show ?thesis by simp
qed

lemma session_run_bounded:
  "0 < maxS \<Longrightarrow> int (length (hc_playback h)) \<le> maxS \<Longrightarrow> int (length (hc_playback (fold (session_step maxS) ops h))) \<le> maxS"
  by (induction ops arbitrary: h) (auto intro: session_step_bounded)

lemma DerivedMaxStreams_fits:
  "0 < DerivedMaxStreams w"
  "DerivedMaxStreams w * perStreamWindowBytes \<le> max (s_globalCapacity w) perStreamWindowBytes"
proof -
  let ?cap = "s_globalCapacity w" and ?p = perStreamWindowBytes
  have p: "0 < ?p" by (simp add: perStreamWindowBytes_def playbackReadaheadBytes_def)
  show "0 < DerivedMaxStreams w" by (simp add: DerivedMaxStreams_def Let_def)
  show "DerivedMaxStreams w * ?p \<le> max ?cap ?p"
  proof (cases "0 \<le> ?cap")
    case True
    have "?cap div ?p * ?p \<le> ?cap" using pos_mod_sign [OF p, of ?cap] div_mult_mod_eq [of ?cap ?p] by linarith
    with True p show ?thesis by (auto simp: DerivedMaxStreams_def Let_def sdiv_nonneg)
  next
    case False
    then have "0 \<le> - ?cap div ?p" using p by (intro pos_imp_zdiv_nonneg_iff [THEN iffD2]) simp_all
    with False p have "?cap sdiv ?p \<le> 0" by (simp add: signed_divide_int_def sgn_if)
    with p show ?thesis by (simp add: DerivedMaxStreams_def Let_def)
  qed
qed

text \<open>
  Whatever players and the reaper do, the read-ahead windows of the admitted sessions together fit
  the budget of the piece cache, or there is a single session: a keepalive of a new session beyond that
  is refused, one of an existing session never is.
\<close>

theorem sessions_fit_budget:
  assumes "hc_playback h = []" and "h' = fold (session_step (maxStreams (Some w))) ops h"
  shows "int (length (hc_playback h')) * perStreamWindowBytes \<le> max (s_globalCapacity w) perStreamWindowBytes \<and>
    (pk_SessionID req \<noteq> '''' \<and> pk_Hash req \<noteq> '''' \<longrightarrow>
       (snd (HandlePlaybackKeepalive now (maxStreams (Some w)) (Some req) h') = StatusTooManyRequests \<longleftrightarrow>
          map_of (hc_playback h') (pk_SessionID req) = None \<and> int (length (hc_playback h')) = maxStreams (Some w)))"
proof -
  have b: "int (length (hc_playback h')) \<le> DerivedMaxStreams w"
    using session_run_bounded [of "DerivedMaxStreams w" h ops] DerivedMaxStreams_fits(1) [of w] assms
    by (simp add: maxStreams_def)
  have "int (length (hc_playback h')) * perStreamWindowBytes \<le> DerivedMaxStreams w * perStreamWindowBytes"
    using b by (intro mult_right_mono) (simp_all add: perStreamWindowBytes_def playbackReadaheadBytes_def)
  with DerivedMaxStreams_fits [of w] b show ?thesis
    by (auto simp: maxStreams_def HandlePlaybackKeepalive_def)
qed

theorem sessions_fit_budget_witness:
  "snd (HandlePlaybackKeepalive 5 (maxStreams (Some (NewStorage 0 [] (\<lambda>_. None))))
     (Some \<lparr>pk_SessionID = ''s2'', pk_Hash = ''aa'', pk_File = ''1''\<rparr>) (demo_context\<lparr>hc_playback := []\<rparr>)) \<noteq> StatusTooManyRequests"
  using sessions_fit_budget [of "demo_context\<lparr>hc_playback := []\<rparr>" _ "NewStorage 0 [] (\<lambda>_. None)" "[]",
      OF _ refl, of "\<lparr>pk_SessionID = ''s2'', pk_Hash = ''aa'', pk_File = ''1''\<rparr>" 5]
    DerivedMaxStreams_fits(1) [of "NewStorage 0 [] (\<lambda>_. None)"]
  by (simp add: maxStreams_def)

text \<open>
  The lifecycle maps are keyed by the hex text of the infohash, and hex text is accepted in either
  case: a delete spelled in upper case drops the torrent and leaves its catalog entry, and with it its
  pin.
\<close>

lemma delete_leaves_catalog_entry:
  assumes "hex_decode hashHex = Some t" "length t = 20" "hashHex \<noteq> hex_encode t" "hc_catalog h = Some c"
  shows "\<exists>c'. hc_catalog (fst (HandleDeleteTorrent hashHex h)) = Some c' \<and>
    catalog_Get (hex_encode t) c' = catalog_Get (hex_encode t) c"
  using assms
  by (simp add: HandleDeleteTorrent_def Let_def dropTorrent_frame catalog_Remove_def Remove_locked_def
      catalog_Get_def delete_conv')

end
