(* ===== verification/KeyframeIndex.thy ===== *)
theory KeyframeIndex
  imports Complex_Main GoText
begin

text \<open>
  The keyframe indexes of Matroska and MP4 files (\<^verbatim>\<open>handlers/mkvindex.go\<close>, \<^verbatim>\<open>handlers/mp4index.go\<close>). The parsers
  that call back into this code are third-party: the events \<^verbatim>\<open>go-mkvparse\<close> delivers and the boxes
  \<^verbatim>\<open>go-mp4\<close> visits are arguments. Both readers are proved against a reference that reads the document
  as a whole. Times are exact rationals: the rounding of \<^verbatim>\<open>float64\<close> is not modelled.
\<close>

section \<open>Matroska\<close>

datatype mkv_id =
    TrackEntryElement | CuePointElement | TimecodeScaleElement | TrackNumberElement | TrackTypeElement
  | CueTimeElement | CueTrackElement | OtherElement

datatype mkv_event = MasterBegin mkv_id | MasterEnd mkv_id | IntegerEvent mkv_id int | OtherEvent

record cuePoint =
  cp_time :: int
  cp_tracks :: "int list"

record mkvCueHandler =
  mh_timecodeScale :: int
  mh_videoTrack :: int
  mh_inTrackEntry :: bool
  mh_curTrackNum :: int
  mh_curTrackType :: int
  mh_inCuePoint :: bool
  mh_curCueTime :: int
  mh_curCueSet :: bool
  mh_curTracks :: "int list"
  mh_cues :: "cuePoint list"

definition new_mkvCueHandler :: mkvCueHandler where
  "new_mkvCueHandler =
     \<lparr>mh_timecodeScale = 1000000, mh_videoTrack = -1, mh_inTrackEntry = False, mh_curTrackNum = 0,
      mh_curTrackType = 0, mh_inCuePoint = False, mh_curCueTime = 0, mh_curCueSet = False, mh_curTracks = [],
      mh_cues = []\<rparr>"

fun HandleMasterBegin :: "mkv_id \<Rightarrow> mkvCueHandler \<Rightarrow> mkvCueHandler" where
  "HandleMasterBegin TrackEntryElement h = h\<lparr>mh_inTrackEntry := True, mh_curTrackNum := -1, mh_curTrackType := -1\<rparr>"
| "HandleMasterBegin CuePointElement h =
     h\<lparr>mh_inCuePoint := True, mh_curCueTime := 0, mh_curCueSet := False, mh_curTracks := []\<rparr>"
| "HandleMasterBegin _ h = h"

fun HandleMasterEnd :: "mkv_id \<Rightarrow> mkvCueHandler \<Rightarrow> mkvCueHandler" where
  "HandleMasterEnd TrackEntryElement h =
     (if mh_curTrackType h = 1 \<and> 0 \<le> mh_curTrackNum h then h\<lparr>mh_videoTrack := mh_curTrackNum h\<rparr> else h)
       \<lparr>mh_inTrackEntry := False\<rparr>"
| "HandleMasterEnd CuePointElement h =
     (if mh_curCueSet h
      then h\<lparr>mh_cues := mh_cues h @ [\<lparr>cp_time = mh_curCueTime h, cp_tracks = mh_curTracks h\<rparr>]\<rparr> else h)
       \<lparr>mh_inCuePoint := False\<rparr>"
| "HandleMasterEnd _ h = h"

fun HandleInteger :: "mkv_id \<Rightarrow> int \<Rightarrow> mkvCueHandler \<Rightarrow> mkvCueHandler" where
  "HandleInteger TimecodeScaleElement v h = (if 0 < v then h\<lparr>mh_timecodeScale := v\<rparr> else h)"
| "HandleInteger TrackNumberElement v h = (if mh_inTrackEntry h then h\<lparr>mh_curTrackNum := v\<rparr> else h)"
| "HandleInteger TrackTypeElement v h = (if mh_inTrackEntry h then h\<lparr>mh_curTrackType := v\<rparr> else h)"
| "HandleInteger CueTimeElement v h =
     (if mh_inCuePoint h then h\<lparr>mh_curCueTime := v, mh_curCueSet := True\<rparr> else h)"
| "HandleInteger CueTrackElement v h = (if mh_inCuePoint h then h\<lparr>mh_curTracks := mh_curTracks h @ [v]\<rparr> else h)"
| "HandleInteger _ v h = h"

fun mkv_handle :: "mkv_event \<Rightarrow> mkvCueHandler \<Rightarrow> mkvCueHandler" where
  "mkv_handle (MasterBegin i) h = HandleMasterBegin i h"
| "mkv_handle (MasterEnd i) h = HandleMasterEnd i h"
| "mkv_handle (IntegerEvent i v) h = HandleInteger i v h"
| "mkv_handle OtherEvent h = h"

definition cue_kept :: "int \<Rightarrow> cuePoint \<Rightarrow> bool" where
  "cue_kept videoTrack c \<longleftrightarrow> \<not> (0 \<le> videoTrack \<and> 0 < length (cp_tracks c)) \<or> videoTrack \<in> set (cp_tracks c)"

datatype ('a) index_result = IndexErr | IndexOk 'a bool | IndexPanic

definition mkvKeyframes :: "mkv_event list \<Rightarrow> bool \<Rightarrow> rat list index_result" where
  "mkvKeyframes events parseErr =
     (let h = fold mkv_handle events new_mkvCueHandler
      in if parseErr then IndexErr
         else if mh_cues h = [] then IndexOk [] False
         else
           let scaleSec = of_int (mh_timecodeScale h) / 10 ^ 9;
               secs = map (\<lambda>c. of_int (cp_time c) * scaleSec) (filter (cue_kept (mh_videoTrack h)) (mh_cues h))
           in if secs = [] then IndexOk [] False else IndexOk (sort secs) True)"

subsection \<open>Reference: the document\<close>

datatype mkv_section = InfoSection int | TrackSection int int | CueSection int "int list" | OtherSection

fun section_events :: "mkv_section \<Rightarrow> mkv_event list" where
  "section_events (InfoSection scale) = [MasterBegin OtherElement, IntegerEvent TimecodeScaleElement scale, MasterEnd OtherElement]"
| "section_events (TrackSection num typ) =
     [MasterBegin TrackEntryElement, OtherEvent, IntegerEvent TrackNumberElement num, IntegerEvent TrackTypeElement typ,
      MasterEnd TrackEntryElement]"
| "section_events (CueSection tm trs) =
     [MasterBegin CuePointElement, IntegerEvent CueTimeElement tm] @
     concat (map (\<lambda>t. [MasterBegin OtherElement, IntegerEvent CueTrackElement t, MasterEnd OtherElement]) trs) @
     [MasterEnd CuePointElement]"
| "section_events OtherSection = [OtherEvent]"

definition doc_scale :: "mkv_section list \<Rightarrow> int" where
  "doc_scale doc = last (1000000 # concat (map (\<lambda>s. case s of InfoSection v \<Rightarrow> if 0 < v then [v] else [] | _ \<Rightarrow> []) doc))"

definition doc_video :: "mkv_section list \<Rightarrow> int" where
  "doc_video doc = last (-1 # concat (map (\<lambda>s. case s of TrackSection n t \<Rightarrow> if t = 1 \<and> 0 \<le> n then [n] else [] | _ \<Rightarrow> []) doc))"

definition doc_cues :: "mkv_section list \<Rightarrow> cuePoint list" where
  "doc_cues doc = concat (map (\<lambda>s. case s of CueSection tm trs \<Rightarrow> [\<lparr>cp_time = tm, cp_tracks = trs\<rparr>] | _ \<Rightarrow> []) doc)"

lemma cue_tracks_events:
  "mh_inCuePoint h \<Longrightarrow>
   fold mkv_handle (concat (map (\<lambda>t. [MasterBegin OtherElement, IntegerEvent CueTrackElement t, MasterEnd OtherElement]) trs)) h =
   h\<lparr>mh_curTracks := mh_curTracks h @ trs\<rparr>"
  by (induction trs arbitrary: h) simp_all

lemma section_handled:
  "mh_timecodeScale (fold mkv_handle (section_events s) h) =
     (case s of InfoSection v \<Rightarrow> if 0 < v then v else mh_timecodeScale h | _ \<Rightarrow> mh_timecodeScale h)"
  "mh_videoTrack (fold mkv_handle (section_events s) h) =
     (case s of TrackSection n t \<Rightarrow> if t = 1 \<and> 0 \<le> n then n else mh_videoTrack h | _ \<Rightarrow> mh_videoTrack h)"
  "mh_cues (fold mkv_handle (section_events s) h) =
     mh_cues h @ (case s of CueSection tm trs \<Rightarrow> [\<lparr>cp_time = tm, cp_tracks = trs\<rparr>] | _ \<Rightarrow> [])"
  by (cases s; simp add: cue_tracks_events)+

lemma document_handled:
  fixes doc defines "h \<equiv> fold mkv_handle (concat (map section_events doc)) new_mkvCueHandler"
  shows "mh_timecodeScale h = doc_scale doc" "mh_videoTrack h = doc_video doc" "mh_cues h = doc_cues doc"
  unfolding h_def
  by (induction doc rule: rev_induct)
    (simp_all add: doc_scale_def doc_video_def doc_cues_def new_mkvCueHandler_def section_handled split: mkv_section.split)



section \<open>MP4\<close>

text \<open>
  The boxes of a file as the callback sees them. \<open>BoxBad\<close> is a box whose payload cannot be read. An
  entry of \<^verbatim>\<open>stts\<close> is a count and a delta, one of \<^verbatim>\<open>ctts\<close> a count and the offset in its two versions.
\<close>

datatype mp4_box =
    BoxMoof
  | BoxContainer "mp4_box list"
  | BoxTrak "mp4_box list"
  | BoxHdlr string
  | BoxMdhd nat
  | BoxStss "nat list"
  | BoxStts "(nat \<times> nat) list"
  | BoxCtts "(nat \<times> int \<times> int) list"
  | BoxBad
  | BoxOther

record mp4_track =
  tk_handler :: string
  tk_timescale :: nat
  tk_stss :: "nat list option"
  tk_stts :: "(nat \<times> nat) list option"
  tk_ctts :: "(nat \<times> int \<times> int) list option"

definition new_track :: mp4_track where
  "new_track = \<lparr>tk_handler = '''', tk_timescale = 0, tk_stss = None, tk_stts = None, tk_ctts = None\<rparr>"

record mp4_scan =
  ms_cur :: "mp4_track option"
  ms_video :: "mp4_track option"
  ms_sawMoof :: bool

definition on_track :: "(mp4_track \<Rightarrow> mp4_track) \<Rightarrow> mp4_scan \<Rightarrow> mp4_scan" where
  "on_track f st = st\<lparr>ms_cur := map_option f (ms_cur st)\<rparr>"

definition end_trak :: "mp4_scan \<Rightarrow> mp4_scan" where
  "end_trak st =
     (case ms_cur st of
        Some t \<Rightarrow> if tk_handler t = ''vide'' then st\<lparr>ms_video := Some t, ms_cur := None\<rparr> else st\<lparr>ms_cur := None\<rparr>
      | None \<Rightarrow> st)"

fun mp4_visit :: "mp4_box \<Rightarrow> mp4_scan \<Rightarrow> mp4_scan option"
and mp4_visits :: "mp4_box list \<Rightarrow> mp4_scan \<Rightarrow> mp4_scan option" where
  "mp4_visit BoxMoof st = Some (st\<lparr>ms_sawMoof := True\<rparr>)"
| "mp4_visit (BoxContainer bs) st = mp4_visits bs st"
| "mp4_visit (BoxTrak bs) st = map_option end_trak (mp4_visits bs (st\<lparr>ms_cur := Some new_track\<rparr>))"
| "mp4_visit (BoxHdlr ht) st = Some (on_track (\<lambda>t. t\<lparr>tk_handler := ht\<rparr>) st)"
| "mp4_visit (BoxMdhd ts) st = Some (on_track (\<lambda>t. t\<lparr>tk_timescale := ts\<rparr>) st)"
| "mp4_visit (BoxStss ns) st = Some (on_track (\<lambda>t. t\<lparr>tk_stss := Some ns\<rparr>) st)"
| "mp4_visit (BoxStts es) st = Some (on_track (\<lambda>t. t\<lparr>tk_stts := Some es\<rparr>) st)"
| "mp4_visit (BoxCtts es) st = Some (on_track (\<lambda>t. t\<lparr>tk_ctts := Some es\<rparr>) st)"
| "mp4_visit BoxBad st = (if ms_cur st = None then Some st else None)"
| "mp4_visit BoxOther st = Some st"
| "mp4_visits [] st = Some st"
| "mp4_visits (b # bs) st = (case mp4_visit b st of None \<Rightarrow> None | Some st' \<Rightarrow> mp4_visits bs st')"

text \<open>
  The two run-length tables, expanded up to \<open>maxSample\<close>. The samples written so far are the list
  \<open>acc\<close>; decode times are \<^verbatim>\<open>uint64\<close>.
\<close>

fun stts_run :: "nat \<Rightarrow> nat \<Rightarrow> nat \<Rightarrow> int list \<times> int \<Rightarrow> int list \<times> int" where
  "stts_run maxSample delta 0 st = st"
| "stts_run maxSample delta (Suc c) (acc, t) =
     (if maxSample \<le> length acc then (acc, t)
      else stts_run maxSample delta c (acc @ [t], (t + int delta) mod 2 ^ 64))"

fun stts_loop :: "nat \<Rightarrow> (nat \<times> nat) list \<Rightarrow> int list \<times> int \<Rightarrow> int list \<times> int" where
  "stts_loop maxSample [] st = st"
| "stts_loop maxSample ((c, delta) # es) st =
     (let st' = stts_run maxSample delta c st
      in if maxSample \<le> length (fst st') then st' else stts_loop maxSample es st')"

fun ctts_run :: "nat \<Rightarrow> int \<Rightarrow> nat \<Rightarrow> int list \<Rightarrow> int list" where
  "ctts_run maxSample off 0 acc = acc"
| "ctts_run maxSample off (Suc c) acc =
     (if maxSample \<le> length acc then acc else ctts_run maxSample off c (acc @ [off]))"

definition ctts_offset :: "int \<times> int \<Rightarrow> int" where
  "ctts_offset v = (if snd v \<noteq> 0 then snd v else fst v)"

fun ctts_loop :: "nat \<Rightarrow> (nat \<times> int \<times> int) list \<Rightarrow> int list \<Rightarrow> int list" where
  "ctts_loop maxSample [] acc = acc"
| "ctts_loop maxSample ((c, v) # es) acc =
     (let acc' = ctts_run maxSample (ctts_offset v) c acc
      in if maxSample \<le> length acc' then acc' else ctts_loop maxSample es acc')"

definition pad :: "nat \<Rightarrow> int list \<Rightarrow> int list" where
  "pad n xs = xs @ replicate (n - length xs) 0"

definition sample_pts :: "int list \<Rightarrow> int list \<Rightarrow> nat \<Rightarrow> int" where
  "sample_pts dts cts sn =
     (let pts = wrap64 (wrap64 (dts ! (sn - 1)) + cts ! (sn - 1)) in if pts < 0 then 0 else pts)"

definition track_keyframes :: "mp4_track \<Rightarrow> nat list \<Rightarrow> (nat \<times> nat) list \<Rightarrow> rat list" where
  "track_keyframes v stss stts =
     (let maxSample = fold max stss 0;
          dts = pad maxSample (fst (stts_loop maxSample stts ([], 0)));
          cts = pad maxSample (case tk_ctts v of None \<Rightarrow> [] | Some es \<Rightarrow> ctts_loop maxSample es [])
      in map (\<lambda>sn. of_int (sample_pts dts cts sn) / of_nat (tk_timescale v))
           (filter (\<lambda>sn. \<not> (sn = 0 \<or> maxSample < sn)) stss))"

definition mp4Keyframes :: "mp4_box list \<Rightarrow> rat list index_result" where
  "mp4Keyframes boxes =
     (case mp4_visits boxes \<lparr>ms_cur = None, ms_video = None, ms_sawMoof = False\<rparr> of
        None \<Rightarrow> IndexErr
      | Some st \<Rightarrow>
          (case ms_video st of
             None \<Rightarrow> IndexErr
           | Some v \<Rightarrow>
               if tk_timescale v = 0 then IndexErr
               else if tk_stss v = None \<or> tk_stss v = Some []
               then (if ms_sawMoof st then IndexOk [] False else IndexErr)
               else case tk_stts v of
                      None \<Rightarrow> IndexPanic
                    | Some stts \<Rightarrow> IndexOk (track_keyframes v (the (tk_stss v)) stts) True))"

subsection \<open>Reference: the expanded tables\<close>

definition expand :: "(nat \<times> 'a) list \<Rightarrow> 'a list" where
  "expand es = concat (map (\<lambda>(c, x). replicate c x) es)"

fun dts_flat :: "nat \<Rightarrow> nat list \<Rightarrow> int list \<times> int \<Rightarrow> int list \<times> int" where
  "dts_flat m [] st = st"
| "dts_flat m (d # ds) (acc, t) =
     (if m \<le> length acc then (acc, t) else dts_flat m ds (acc @ [t], (t + int d) mod 2 ^ 64))"

lemma dts_flat_full: "m \<le> length acc \<Longrightarrow> dts_flat m ds (acc, t) = (acc, t)"
  by (cases ds) auto

lemma dts_flat_append: "dts_flat m (xs @ ys) st = dts_flat m ys (dts_flat m xs st)"
proof (induction xs arbitrary: st)
  case (Cons x xs)
  then show ?case by (cases st) (auto simp: dts_flat_full)
qed simp

lemma stts_run_flat: "stts_run m d c st = dts_flat m (replicate c d) st"
proof (induction c arbitrary: st)
  case (Suc c)
  then show ?case by (cases st) auto
qed simp

lemma stts_loop_flat: "stts_loop m es st = dts_flat m (expand es) st"
proof (induction es arbitrary: st)
  case (Cons e es)
  obtain c d where e: "e = (c, d)" by force
  obtain acc t where a: "stts_run m d c st = (acc, t)" by force
  then show ?case
    using Cons.IH by (auto simp: e expand_def dts_flat_append stts_run_flat [symmetric] Let_def dts_flat_full)
qed (simp add: expand_def)

lemma dts_flat_sums:
  assumes "t + int (sum_list ds) < 2 ^ 64" "0 \<le> t"
  shows "fst (dts_flat m ds (acc, t)) =
    acc @ map (\<lambda>i. t + int (sum_list (take i ds))) [0..<min (m - length acc) (length ds)]"
  using assms
proof (induction ds arbitrary: acc t)
  case (Cons d ds)
  show ?case
  proof (cases "m \<le> length acc")
    case False
    have t: "(t + int d) mod 2 ^ 64 = t + int d" using Cons.prems by simp
    have "fst (dts_flat m ds (acc @ [t], t + int d)) =
      (acc @ [t]) @ map (\<lambda>i. (t + int d) + int (sum_list (take i ds))) [0..<min (m - length (acc @ [t])) (length ds)]"
      using Cons.prems by (intro Cons.IH) simp_all
    moreover have "min (m - length acc) (length (d # ds)) = Suc (min (m - length (acc @ [t])) (length ds))"
      using False by simp
    ultimately show ?thesis
      using False t
      by (simp add: upt_conv_Cons map_Suc_upt [symmetric] add.assoc del: upt_Suc)
  qed simp
qed simp

lemma ctts_run_take: "ctts_run m off c acc = acc @ take (m - length acc) (replicate c off)"
proof (induction c arbitrary: acc)
  case (Suc c)
  then show ?case by (cases "m - length acc") auto
qed simp

lemma ctts_loop_take: "ctts_loop m es acc = acc @ take (m - length acc) (map ctts_offset (expand es))"
proof (induction es arbitrary: acc)
  case (Cons e es)
  obtain c v where e: "e = (c, v)" by (cases e)
  let ?a = "ctts_run m (ctts_offset v) c acc"
  have a: "?a = acc @ take (m - length acc) (replicate c (ctts_offset v))" by (rule ctts_run_take)
  show ?case
    using Cons.IH [of ?a] by (auto simp: e expand_def Let_def a min_def)
qed (simp add: expand_def)

lemma fold_max_ge: "x \<in> set xs \<Longrightarrow> x \<le> fold max xs a" "a \<le> fold max xs a" for a :: nat
proof -
  have a: "a \<le> fold max xs a" for a :: nat and xs
    by (induction xs arbitrary: a) (auto intro: order_trans [OF max.cobounded2])
  show "a \<le> fold max xs a" by (rule a)
  show "x \<in> set xs \<Longrightarrow> x \<le> fold max xs a"
  proof (induction xs arbitrary: a)
    case (Cons y ys)
    then show ?case using a [of "max y a" ys] by auto
  qed simp
qed

lemma pad_nth: "i < n \<Longrightarrow> pad n xs ! i = (if i < length xs then xs ! i else 0)"
  by (auto simp: pad_def nth_append)

definition sample_time :: "mp4_track \<Rightarrow> (nat \<times> nat) list \<Rightarrow> nat \<Rightarrow> int" where
  "sample_time v stts i =
     int (sum_list (take i (expand stts))) +
     (case tk_ctts v of
        None \<Rightarrow> 0
      | Some es \<Rightarrow> if i < length (expand es) then ctts_offset (expand es ! i) else 0)"

lemma sample_pts_eq:
  assumes "1 \<le> sn" "sn \<le> m" "sn \<le> length (expand stts)" "int (sum_list (expand stts)) < 2 ^ 62"
    and "\<And>es x. tk_ctts v = Some es \<Longrightarrow> x \<in> set (expand es) \<Longrightarrow> \<bar>ctts_offset x\<bar> \<le> 2 ^ 32"
  shows "sample_pts (pad m (fst (stts_loop m stts ([], 0))))
      (pad m (case tk_ctts v of None \<Rightarrow> [] | Some es \<Rightarrow> ctts_loop m es [])) sn = max 0 (sample_time v stts (sn - 1))"
proof -
  let ?D = "expand stts" and ?i = "sn - 1"
  let ?d = "int (sum_list (take ?i ?D))"
  let ?c = "case tk_ctts v of None \<Rightarrow> 0 | Some es \<Rightarrow> if ?i < length (expand es) then ctts_offset (expand es ! ?i) else 0"
  have i: "?i < m" "?i < length ?D" using assms(1-3) by auto
  have "fst (stts_loop m stts ([], 0)) = map (\<lambda>i. int (sum_list (take i ?D))) [0..<min m (length ?D)]"
    using dts_flat_sums [of 0 ?D m "[]"] assms(4) by (simp add: stts_loop_flat)
  with i have d: "pad m (fst (stts_loop m stts ([], 0))) ! ?i = ?d" by (simp add: pad_nth)
  have c: "pad m (case tk_ctts v of None \<Rightarrow> [] | Some es \<Rightarrow> ctts_loop m es []) ! ?i = ?c"
    using i by (auto simp: pad_nth ctts_loop_take split: option.splits)
  have cb: "\<bar>?c\<bar> \<le> 2 ^ 32" using assms(5) by (auto split: option.splits)
  have "?d + int (sum_list (drop ?i ?D)) = int (sum_list ?D)"
    by (metis append_take_drop_id sum_list_append of_nat_add)
  then have db: "0 \<le> ?d" "?d < 2 ^ 62" using assms(4) by linarith+
  have "in_int64 ?d" "in_int64 (?d + ?c)" using db cb by (auto simp: in_int64_def)
  then show ?thesis
    by (simp add: sample_pts_def d c wrap64_id Let_def sample_time_def del: One_nat_def)
qed

text \<open>
  C21. The keyframes read from an MP4 index are the presentation times of its sync samples: the decode
  time that the run-length table of deltas gives the sample, plus its composition offset, not below
  zero, in units of the track's time scale. The tables cover the sync samples and their values do not
  overflow the integers the code uses.
\<close>

theorem mp4_keyframes_are_sync_times:
  assumes "mp4_visits boxes \<lparr>ms_cur = None, ms_video = None, ms_sawMoof = False\<rparr> = Some st"
    and "ms_video st = Some v" "0 < tk_timescale v" "tk_stss v = Some stss" "stss \<noteq> []" "tk_stts v = Some stts"
    and "\<forall>sn \<in> set stss. sn \<le> length (expand stts)" "int (sum_list (expand stts)) < 2 ^ 62"
    and "\<forall>es. tk_ctts v = Some es \<longrightarrow> (\<forall>x \<in> set (expand es). \<bar>ctts_offset x\<bar> \<le> 2 ^ 32)"
  shows "mp4Keyframes boxes = IndexOk
    (map (\<lambda>sn. of_int (max 0 (sample_time v stts (sn - 1))) / of_nat (tk_timescale v)) (filter (\<lambda>sn. sn \<noteq> 0) stss)) True"
proof -
  let ?m = "fold max stss 0"
  have "filter (\<lambda>sn. \<not> (sn = 0 \<or> ?m < sn)) stss = filter (\<lambda>sn. sn \<noteq> 0) stss"
    using fold_max_ge(1) [of _ stss 0] by (intro filter_cong) (auto simp: not_less)
  moreover have "sample_pts (pad ?m (fst (stts_loop ?m stts ([], 0))))
      (pad ?m (case tk_ctts v of None \<Rightarrow> [] | Some es \<Rightarrow> ctts_loop ?m es [])) sn = max 0 (sample_time v stts (sn - 1))"
    if "sn \<in> set stss" "sn \<noteq> 0" for sn
    using that assms(7-9) fold_max_ge(1) [of sn stss 0] by (intro sample_pts_eq) auto
  ultimately have "track_keyframes v stss stts =
      map (\<lambda>sn. of_int (max 0 (sample_time v stts (sn - 1))) / of_nat (tk_timescale v)) (filter (\<lambda>sn. sn \<noteq> 0) stss)"
    unfolding track_keyframes_def Let_def by (auto intro!: map_cong)
  with assms(1-6) show ?thesis by (simp add: mp4Keyframes_def)
qed

definition demo_boxes :: "(nat \<times> nat) list option \<Rightarrow> mp4_box list" where
  "demo_boxes stts =
     [BoxOther,
      BoxContainer
        [BoxTrak [BoxContainer [BoxHdlr ''vide'', BoxMdhd 10, BoxContainer [BoxContainer
           ((case stts of None \<Rightarrow> [] | Some es \<Rightarrow> [BoxStts es]) @ [BoxStss [1, 4], BoxCtts [(5, 2, 0)]])]]]]]"

theorem mp4_keyframes_are_sync_times_witness:
  "mp4Keyframes (demo_boxes (Some [(2, 5), (3, 7)])) = IndexOk [1 / 5, 19 / 10] True"
proof -
  let ?v = "\<lparr>tk_handler = ''vide'', tk_timescale = 10, tk_stss = Some [1, 4], tk_stts = Some [(2, 5), (3, 7)],
    tk_ctts = Some [(5, 2, 0)]\<rparr>"
  have v: "mp4_visits (demo_boxes (Some [(2, 5), (3, 7)])) \<lparr>ms_cur = None, ms_video = None, ms_sawMoof = False\<rparr> =
      Some \<lparr>ms_cur = None, ms_video = Some ?v, ms_sawMoof = False\<rparr>"
    by (simp add: demo_boxes_def on_track_def new_track_def end_trak_def)
  show ?thesis
    by (subst mp4_keyframes_are_sync_times [OF v, of ?v "[1, 4]" "[(2, 5), (3, 7)]"])
      (simp_all add: expand_def ctts_offset_def sample_time_def numeral_eq_Suc)
qed

text \<open>
  A video track with sync samples but without the table of decode times makes the reader
  dereference a nil pointer: the code checks for the sync table and not for this one.
\<close>

lemma mp4_missing_stts_panics:
  assumes "mp4_visits boxes \<lparr>ms_cur = None, ms_video = None, ms_sawMoof = False\<rparr> = Some st"
    and "ms_video st = Some v" "0 < tk_timescale v" "tk_stss v = Some stss" "stss \<noteq> []" "tk_stts v = None"
  shows "mp4Keyframes boxes = IndexPanic"
  using assms by (simp add: mp4Keyframes_def)

lemma mp4_missing_stts_panics_witness: "mp4Keyframes (demo_boxes None) = IndexPanic"
proof -
  let ?v = "\<lparr>tk_handler = ''vide'', tk_timescale = 10, tk_stss = Some [1, 4], tk_stts = None, tk_ctts = Some [(5, 2, 0)]\<rparr>"
  have v: "mp4_visits (demo_boxes None) \<lparr>ms_cur = None, ms_video = None, ms_sawMoof = False\<rparr> =
      Some \<lparr>ms_cur = None, ms_video = Some ?v, ms_sawMoof = False\<rparr>"
    by (simp add: demo_boxes_def on_track_def new_track_def end_trak_def)
  show ?thesis by (rule mp4_missing_stts_panics [OF v, of ?v "[1, 4]"]) simp_all
qed

end
