(* ===== verification/HlsIndex.thy ===== *)
theory HlsIndex
  imports KeyframeIndex "HOL-Library.AList"
begin

text \<open>
  The segmentation of a file (\<^verbatim>\<open>handlers/hlsindex.go\<close>): the keyframe-aligned list for a file that is copied,
  the uniform list for one that is transcoded, and the choice between them from the container's index.
  Times are exact rationals: the rounding of \<^verbatim>\<open>float64\<close> is not modelled.
\<close>

section \<open>Segment lists\<close>

record segList =
  sl_contentStarts :: "rat list"
  sl_contentEnd :: rat
  sl_base :: rat
  sl_transcode :: bool

definition hlsSegmentSeconds :: rat where
  "hlsSegmentSeconds = 6"

definition sl_count :: "segList \<Rightarrow> nat" where
  "sl_count s = length (sl_contentStarts s)"

definition extinf :: "segList \<Rightarrow> int \<Rightarrow> rat" where
  "extinf s i =
     (if i < 0 \<or> int (length (sl_contentStarts s)) \<le> i then 0
      else
        let e = (if i + 1 < int (length (sl_contentStarts s)) then sl_contentStarts s ! nat (i + 1) else sl_contentEnd s);
            d = e - sl_contentStarts s ! nat i
        in if d < 0 then 0 else d)"

definition srcStart :: "segList \<Rightarrow> int \<Rightarrow> rat" where
  "srcStart s i =
     (if i \<le> 0 then sl_base s
      else
        let j = (if int (length (sl_contentStarts s)) \<le> i then int (length (sl_contentStarts s)) - 1 else i)
        in sl_contentStarts s ! nat j + sl_base s)"

fun cutStarts :: "rat \<Rightarrow> rat \<Rightarrow> rat list \<Rightarrow> rat list" where
  "cutStarts base segStart [] = []"
| "cutStarts base segStart (kf # kfs) =
     (if hlsSegmentSeconds - 1 / 1000 \<le> kf - segStart
      then (kf - base) # cutStarts base kf kfs
      else cutStarts base segStart kfs)"

text \<open>\<^verbatim>\<open>computeSegList\<close> indexes the first keyframe: \<open>None\<close>, a panic, without one.\<close>

definition computeSegList :: "rat list \<Rightarrow> rat \<Rightarrow> segList option" where
  "computeSegList kfs dur =
     (case kfs of
        [] \<Rightarrow> None
      | base # rest \<Rightarrow>
          let starts = 0 # cutStarts base base rest;
              e = dur - base
          in Some \<lparr>sl_contentStarts = starts,
                   sl_contentEnd = (if e \<le> last starts then last starts + hlsSegmentSeconds else e),
                   sl_base = base, sl_transcode = False\<rparr>)"

function uniformStarts :: "rat \<Rightarrow> rat \<Rightarrow> rat list" where
  "uniformStarts contentEnd t =
     (if t < contentEnd - 1 / 1000 then t # uniformStarts contentEnd (t + hlsSegmentSeconds) else [])"
  by pat_completeness auto
termination
proof (relation "measure (\<lambda>(e, t). nat \<lceil>e - t\<rceil>)", goal_cases)
  case (2 e t)
  have "\<lceil>e - (t + hlsSegmentSeconds)\<rceil> = \<lceil>e - t\<rceil> - 6"
    using ceiling_diff_numeral [of "e - t" "num.Bit0 (num.Bit1 num.One)"]
    by (simp add: hlsSegmentSeconds_def algebra_simps)
  moreover have "0 < e - t" using 2 by simp
  then have "0 < \<lceil>e - t\<rceil>" by simp
  ultimately show ?case by simp
qed simp

declare uniformStarts.simps [simp del]

definition uniformSegList :: "rat \<Rightarrow> rat \<Rightarrow> segList" where
  "uniformSegList dur base =
     (let e = (if dur - base \<le> 0 then dur else dur - base);
          starts = uniformStarts e 0
      in \<lparr>sl_contentStarts = (if starts = [] then [0] else starts), sl_contentEnd = e, sl_base = base,
          sl_transcode = True\<rparr>)"

section \<open>Segment lists tile the content\<close>

definition tiling :: "segList \<Rightarrow> bool" where
  "tiling s \<longleftrightarrow> sl_contentStarts s \<noteq> [] \<and> hd (sl_contentStarts s) = 0 \<and>
     sorted_wrt (<) (sl_contentStarts s) \<and> last (sl_contentStarts s) < sl_contentEnd s"

lemma tiling_extinf:
  assumes "tiling s" "i < sl_count s"
  shows "0 < extinf s (int i)"
    and "srcStart s (int i) + extinf s (int i) =
      (if i + 1 < sl_count s then srcStart s (int i + 1) else sl_base s + sl_contentEnd s)"
proof -
  let ?st = "sl_contentStarts s"
  have e: "0 < (if i + 1 < length ?st then ?st ! (i + 1) else sl_contentEnd s) - ?st ! i"
  proof (cases "i + 1 < length ?st")
    case True
    then show ?thesis using assms by (simp add: tiling_def sl_count_def sorted_wrt_iff_nth_less)
  next
    case False
    then have "i = length ?st - 1" using assms(2) by (simp add: sl_count_def)
    then show ?thesis using assms False by (auto simp: tiling_def last_conv_nth)
  qed
  have x: "extinf s (int i) = (if i + 1 < length ?st then ?st ! (i + 1) else sl_contentEnd s) - ?st ! i"
    using e assms(2) by (auto simp: extinf_def sl_count_def Let_def nat_add_distrib)
  show "0 < extinf s (int i)" using e x by simp
  have s0: "?st ! 0 = 0" using assms(1) by (auto simp: tiling_def hd_conv_nth)
  have "srcStart s (int k) = ?st ! k + sl_base s" if "k < length ?st" for k
    using that s0 by (auto simp: srcStart_def)
  note src = this
  show "srcStart s (int i) + extinf s (int i) =
      (if i + 1 < sl_count s then srcStart s (int i + 1) else sl_base s + sl_contentEnd s)"
    using x src [of i] src [of "i + 1"] assms(2) by (auto simp: sl_count_def add.commute)
qed

lemma tiling_sum:
  assumes "tiling s"
  shows "sum_list (map (\<lambda>i. extinf s (int i)) [0..<sl_count s]) = sl_contentEnd s"
proof -
  have "sum_list (map (\<lambda>i. extinf s (int i)) [0..<n]) = (if n < sl_count s then srcStart s (int n) - sl_base s else sl_contentEnd s)"
    if "n \<le> sl_count s" for n
    using that
  proof (induction n)
    case 0
    then show ?case using assms by (auto simp: srcStart_def tiling_def sl_count_def)
  next
    case (Suc n)
    then show ?case
      using tiling_extinf(2) [OF assms, of n] by (auto simp: algebra_simps)
  qed
  from this [of "sl_count s"] show ?thesis by simp
qed

lemma cutStarts_props:
  assumes "sorted (segStart # kfs)"
  shows "sorted_wrt (\<lambda>a b. hlsSegmentSeconds - 1 / 1000 \<le> b - a) ((segStart - base) # cutStarts base segStart kfs)"
    and "set (cutStarts base segStart kfs) \<subseteq> (\<lambda>kf. kf - base) ` set kfs"
  using assms
proof (induction kfs arbitrary: segStart)
  case (Cons kf kfs)
  { case 1
    have s: "sorted (kf # kfs)" "sorted (segStart # kfs)" "segStart \<le> kf" using 1 by auto
    show ?case
    proof (cases "hlsSegmentSeconds - 1 / 1000 \<le> kf - segStart")
      case True
      have ih: "sorted_wrt (\<lambda>a b. hlsSegmentSeconds - 1 / 1000 \<le> b - a) ((kf - base) # cutStarts base kf kfs)"
        by (rule Cons.IH(1)) (rule s)
      have "\<forall>y \<in> set (cutStarts base kf kfs). kf \<le> y + base"
        using Cons.IH(2) [OF s(1)] s(1) by force
      with True ih show ?thesis by (force simp: algebra_simps)
    next
      case False
      with Cons.IH(1) [OF s(2)] show ?thesis by simp
    qed }
  { case 2
    then show ?case using Cons.IH(2) [of kf] Cons.IH(2) [of segStart] by auto }
qed simp_all

lemma gap_strict: "sorted_wrt (\<lambda>a b. hlsSegmentSeconds - 1 / 1000 \<le> b - a) xs \<Longrightarrow> sorted_wrt (<) xs"
  by (erule sorted_wrt_mono_rel [rotated]) (simp add: hlsSegmentSeconds_def)

lemma computeSegList_tiling:
  assumes "sorted (base # rest)" "computeSegList (base # rest) dur = Some s"
  shows "tiling s" "sorted_wrt (\<lambda>a b. hlsSegmentSeconds - 1 / 1000 \<le> b - a) (sl_contentStarts s)"
    "sl_base s = base" "\<forall>x \<in> set (sl_contentStarts s). x + sl_base s \<in> set (base # rest)"
proof -
  have g: "sorted_wrt (\<lambda>a b. hlsSegmentSeconds - 1 / 1000 \<le> b - a) (0 # cutStarts base base rest)"
    using cutStarts_props(1) [OF assms(1), of base] by simp
  have k: "x + base \<in> set rest" if "x \<in> set (cutStarts base base rest)" for x
    using that cutStarts_props(2) [OF assms(1), of base] by auto
  have st: "sl_contentStarts s = 0 # cutStarts base base rest" and b: "sl_base s = base"
    and e: "last (0 # cutStarts base base rest) < sl_contentEnd s"
    using assms(2) by (auto simp: computeSegList_def Let_def hlsSegmentSeconds_def)
  show "sorted_wrt (\<lambda>a b. hlsSegmentSeconds - 1 / 1000 \<le> b - a) (sl_contentStarts s)" using g by (simp only: st)
  show "tiling s" using gap_strict [OF g] e by (simp only: tiling_def st list.sel) simp
  show "sl_base s = base" by (rule b)
  show "\<forall>x \<in> set (sl_contentStarts s). x + sl_base s \<in> set (base # rest)" using k by (auto simp: st b)
qed

lemma uniformStarts_props:
  "sorted_wrt (\<lambda>a b. hlsSegmentSeconds - 1 / 1000 \<le> b - a) (uniformStarts e t)"
  "\<forall>x \<in> set (uniformStarts e t). t \<le> x \<and> x < e - 1 / 1000"
proof (induction e t rule: uniformStarts.induct)
  case (1 e t)
  { case 1
    show ?case
    proof (cases "t < e - 1 / 1000")
      case True
      then show ?thesis
        using "1.IH" by (subst uniformStarts.simps) (auto simp: hlsSegmentSeconds_def)
    qed (simp add: uniformStarts.simps) }
  { case 2
    show ?case
    proof (cases "t < e - 1 / 1000")
      case True
      then show ?thesis
        using "1.IH"(2) by (subst uniformStarts.simps) (auto simp: hlsSegmentSeconds_def)
    qed (simp add: uniformStarts.simps) }
qed

lemma uniformSegList_tiling:
  assumes "0 < dur"
  shows "tiling (uniformSegList dur base)"
    "sorted_wrt (\<lambda>a b. hlsSegmentSeconds - 1 / 1000 \<le> b - a) (sl_contentStarts (uniformSegList dur base))"
proof -
  let ?e = "if dur - base \<le> 0 then dur else dur - base"
  have e: "0 < ?e" using assms by simp
  have hd: "hd (uniformStarts ?e 0) = 0" if "uniformStarts ?e 0 \<noteq> []"
    using that by (subst uniformStarts.simps) (subst (asm) uniformStarts.simps, simp split: if_splits)
  have l: "last (uniformStarts ?e 0) < ?e" if "uniformStarts ?e 0 \<noteq> []"
    using uniformStarts_props(2) [of ?e 0] last_in_set [OF that] by fastforce
  show "sorted_wrt (\<lambda>a b. hlsSegmentSeconds - 1 / 1000 \<le> b - a) (sl_contentStarts (uniformSegList dur base))"
    using uniformStarts_props(1) [of ?e 0] by (simp add: uniformSegList_def Let_def)
  with gap_strict hd l e show "tiling (uniformSegList dur base)"
    by (auto simp: uniformSegList_def Let_def tiling_def)
qed

section \<open>Choosing the grid\<close>

text \<open>
  One round of \<^verbatim>\<open>tryIndexSegList\<close>: the reader could not be opened, or it was, and \<open>Opened\<close> carries the file's
  extension and what the container parsers deliver when they read it, as MP4 and as Matroska. With
  each round, whether the deadline has passed or the context is done when it fails. A retry that never
  comes (the list of rounds is over) is one the context cut off.
\<close>

datatype index_round = OpenFailed | Opened string "mp4_box list" "mkv_event list" bool

datatype 'a outcome = Panicked | Returned 'a

definition read_index :: "string \<Rightarrow> mp4_box list \<Rightarrow> mkv_event list \<Rightarrow> bool \<Rightarrow> rat list index_result option" where
  "read_index ext boxes events parseErr =
     (if ext \<in> {''.mp4'', ''.mov'', ''.m4v''} then Some (mp4Keyframes boxes)
      else if ext \<in> {''.mkv'', ''.webm''} then Some (mkvKeyframes events parseErr)
      else None)"

fun tryIndexSegList :: "(index_round \<times> bool) list \<Rightarrow> rat \<Rightarrow> segList option outcome" where
  "tryIndexSegList [] dur = Returned None"
| "tryIndexSegList ((OpenFailed, late) # rounds) dur = Returned None"
| "tryIndexSegList ((Opened ext boxes events parseErr, late) # rounds) dur =
     (case read_index ext boxes events parseErr of
        None \<Rightarrow> Returned None
      | Some IndexPanic \<Rightarrow> Panicked
      | Some (IndexOk kfs usable) \<Rightarrow>
          if usable \<and> 1 \<le> length kfs
          then (case computeSegList kfs dur of None \<Rightarrow> Panicked | Some s \<Rightarrow> Returned (Some s))
          else Returned None
      | Some IndexErr \<Rightarrow> if late then Returned None else tryIndexSegList rounds dur)"

record streamLayout =
  ly_video :: int
  ly_videoCodec :: string
  ly_videoStartSec :: rat
  ly_audios :: "int list"
  ly_audioCodecs :: "string list"

definition buildSegList ::
  "rat option \<Rightarrow> streamLayout option \<Rightarrow> (index_round \<times> bool) list \<Rightarrow> segList option outcome"
where
  "buildSegList dur layout rounds =
     (case dur of
        None \<Rightarrow> Returned None
      | Some d \<Rightarrow>
          if d \<le> 0 then Returned None
          else case layout of
                 None \<Rightarrow> Returned (Some (uniformSegList d 0))
               | Some l \<Rightarrow>
                   (case (if ly_videoCodec l = ''h264'' then tryIndexSegList rounds d else Returned None) of
                      Panicked \<Rightarrow> Panicked
                    | Returned (Some s) \<Rightarrow> Returned (Some s)
                    | Returned None \<Rightarrow> Returned (Some (uniformSegList d (ly_videoStartSec l)))))"

text \<open>
  \<^verbatim>\<open>getSegList\<close>: the cached list of the file, else a build, stored when it succeeds. The build runs once
  for concurrent callers.
\<close>

definition getSegList ::
  "string \<Rightarrow> string \<Rightarrow> segList option outcome \<Rightarrow> (string \<times> segList) list \<Rightarrow>
   (string \<times> segList) list \<times> segList option outcome"
where
  "getSegList hashHex fileIndexStr built cache =
     (let key = hashHex @ ''_'' @ fileIndexStr
      in case map_of cache key of
           Some s \<Rightarrow> (cache, Returned (Some s))
         | None \<Rightarrow>
             (case built of
                Returned (Some s) \<Rightarrow> (AList.update key s cache, Returned (Some s))
              | _ \<Rightarrow> (cache, built)))"

text \<open>Once a file has a segment list, every later request gets that list, whatever a new probe would give.\<close>

lemma getSegList_stable:
  "getSegList h f b c = (c', Returned (Some s)) \<Longrightarrow> getSegList h f b' c' = (c', Returned (Some s))"
  by (simp add: getSegList_def Let_def split: option.splits outcome.splits) (auto simp: update_conv')

lemma tryIndexSegList_source:
  "tryIndexSegList rounds d = Returned (Some s) \<Longrightarrow>
   \<exists>ext boxes events e late kfs. (Opened ext boxes events e, late) \<in> set rounds \<and>
     read_index ext boxes events e = Some (IndexOk kfs True) \<and> kfs \<noteq> [] \<and> computeSegList kfs d = Some s"
proof (induction rounds d rule: tryIndexSegList.induct)
  case (3 ext boxes events e late rounds d)
  show ?case
  proof (cases "read_index ext boxes events e")
    case (Some r)
    then show ?thesis
    proof (cases r)
      case IndexErr
      with Some 3(2) have l: "\<not> late" "tryIndexSegList rounds d = Returned (Some s)" by (simp_all split: if_splits)
      with 3(1) [OF Some IndexErr] show ?thesis by (meson list.set_intros(2))
    next
      case (IndexOk kfs u)
      with Some 3(2) have "u" "kfs \<noteq> []" "computeSegList kfs d = Some s"
        by (auto split: if_splits option.splits)
      with Some IndexOk show ?thesis by (metis list.set_intros(1))
    next
      case IndexPanic
      with Some 3(2) show ?thesis by simp
    qed
  next
    case None
    with 3(2) show ?thesis by simp
  qed
qed simp_all

lemma mkvKeyframes_sorted: "mkvKeyframes events e = IndexOk kfs u \<Longrightarrow> sorted kfs"
  by (auto simp: mkvKeyframes_def Let_def split: if_splits)

lemma read_index_sorted:
  assumes "read_index ext boxes events e = Some (IndexOk kfs u)"
    and "\<And>ks v. mp4Keyframes boxes = IndexOk ks v \<Longrightarrow> sorted ks"
  shows "sorted kfs"
  using assms mkvKeyframes_sorted by (auto simp: read_index_def split: if_splits)

lemma tiling_gap:
  assumes "tiling s" "sorted_wrt (\<lambda>a b. hlsSegmentSeconds - 1 / 1000 \<le> b - a) (sl_contentStarts s)" "i + 1 < sl_count s"
  shows "hlsSegmentSeconds - 1 / 1000 \<le> extinf s (int i)"
proof -
  have g: "hlsSegmentSeconds - 1 / 1000 \<le> sl_contentStarts s ! (i + 1) - sl_contentStarts s ! i"
    using assms(2,3) by (simp add: sorted_wrt_iff_nth_less sl_count_def)
  then have "0 \<le> sl_contentStarts s ! (i + 1) - sl_contentStarts s ! i" by (simp add: hlsSegmentSeconds_def)
  then have "extinf s (int i) = sl_contentStarts s ! (i + 1) - sl_contentStarts s ! i"
    using assms(3) by (auto simp: extinf_def sl_count_def Let_def nat_add_distrib)
  with g show ?thesis by simp
qed

lemma buildSegList_tiling:
  assumes "buildSegList (Some d) layout rounds = Returned (Some s)"
    and "\<forall>(r, late) \<in> set rounds. \<forall>ext boxes events e kfs u.
      r = Opened ext boxes events e \<and> mp4Keyframes boxes = IndexOk kfs u \<longrightarrow> sorted kfs"
  shows "tiling s" "sorted_wrt (\<lambda>a b. hlsSegmentSeconds - 1 / 1000 \<le> b - a) (sl_contentStarts s)"
    "\<not> sl_transcode s \<longrightarrow> (\<exists>ext boxes events e late kfs. (Opened ext boxes events e, late) \<in> set rounds \<and>
       read_index ext boxes events e = Some (IndexOk kfs True) \<and>
       (\<forall>x \<in> set (sl_contentStarts s). x + sl_base s \<in> set kfs))"
proof -
  have d: "0 < d" using assms(1) by (auto simp: buildSegList_def split: if_splits)
  consider (uniform) b where "s = uniformSegList d b" | (index) "tryIndexSegList rounds d = Returned (Some s)"
    using assms(1) by (auto simp: buildSegList_def split: if_splits option.splits outcome.splits)
  then have "tiling s \<and> sorted_wrt (\<lambda>a b. hlsSegmentSeconds - 1 / 1000 \<le> b - a) (sl_contentStarts s) \<and>
    (\<not> sl_transcode s \<longrightarrow> (\<exists>ext boxes events e late kfs. (Opened ext boxes events e, late) \<in> set rounds \<and>
       read_index ext boxes events e = Some (IndexOk kfs True) \<and>
       (\<forall>x \<in> set (sl_contentStarts s). x + sl_base s \<in> set kfs)))"
  proof cases
    case uniform
    then have "sl_transcode s" by (simp add: uniformSegList_def Let_def)
    with uniform uniformSegList_tiling [OF d] show ?thesis by simp
  next
    case index
    then obtain ext boxes events e late kfs where k: "(Opened ext boxes events e, late) \<in> set rounds"
        "read_index ext boxes events e = Some (IndexOk kfs True)" "kfs \<noteq> []" "computeSegList kfs d = Some s"
      using tryIndexSegList_source by blast
    have "sorted kfs"
      using k(1,2) assms(2) by (intro read_index_sorted [OF k(2)]) blast
    moreover obtain base rest where "kfs = base # rest" using k(3) by (cases kfs) auto
    ultimately show ?thesis using k computeSegList_tiling [of base rest d s] by blast
  qed
  then show "tiling s" "sorted_wrt (\<lambda>a b. hlsSegmentSeconds - 1 / 1000 \<le> b - a) (sl_contentStarts s)"
    "\<not> sl_transcode s \<longrightarrow> (\<exists>ext boxes events e late kfs. (Opened ext boxes events e, late) \<in> set rounds \<and>
       read_index ext boxes events e = Some (IndexOk kfs True) \<and>
       (\<forall>x \<in> set (sl_contentStarts s). x + sl_base s \<in> set kfs))" by auto
qed


definition demo_rounds :: "(index_round \<times> bool) list" where
  "demo_rounds =
     [(Opened ''.mkv'' [] [] True, False),
      (Opened ''.mkv'' []
         (concat (map section_events [CueSection 4000 [], CueSection 0 [], CueSection 15000 [], CueSection 7000 []])) False,
       False)]"

lemma demo_rounds_built:
  "buildSegList (Some 20) (Some \<lparr>ly_video = 0, ly_videoCodec = ''h264'', ly_videoStartSec = 0, ly_audios = [1], ly_audioCodecs = [''ac3'']\<rparr>) demo_rounds =
   Returned (Some \<lparr>sl_contentStarts = [0, 7, 15], sl_contentEnd = 20, sl_base = 0, sl_transcode = False\<rparr>)"
  by (simp add: buildSegList_def demo_rounds_def read_index_def mkvKeyframes_def new_mkvCueHandler_def cue_kept_def
      computeSegList_def hlsSegmentSeconds_def)


end
