(* ===== verification/Seekable.thy ===== *)
theory Seekable
  imports GoText
begin

text \<open>
  The contract of \<^verbatim>\<open>io.Seeker\<close> that the sources implement three times: in the storage reader, in the
  caching reader over it and in the muxer's memory buffer. \<open>http.ServeContent\<close> and the muxer are the
  clients; what they rely on is proved once here.
\<close>

locale seekable =
  fixes seek :: "int \<Rightarrow> int \<Rightarrow> 's \<Rightarrow> 's \<times> (go_error + int)"
    and pos :: "'s \<Rightarrow> int"
    and size :: "'s \<Rightarrow> int"
    and ready :: "'s \<Rightarrow> bool"
  assumes seek_whence: "ready s \<Longrightarrow> whence \<notin> {0, 1, 2} \<Longrightarrow> seek offset whence s = (s, Inl ErrInvalidWhence)"
    and seek_negative: "ready s \<Longrightarrow> whence \<in> {0, 1, 2} \<Longrightarrow>
      t = (if whence = 0 then offset else if whence = 1 then pos s + offset else size s + offset) \<Longrightarrow> t < 0 \<Longrightarrow>
      in_int64 t \<Longrightarrow> seek offset whence s = (s, Inl ErrNegativePosition)"
    and seek_moves: "ready s \<Longrightarrow> whence \<in> {0, 1, 2} \<Longrightarrow>
      t = (if whence = 0 then offset else if whence = 1 then pos s + offset else size s + offset) \<Longrightarrow> 0 \<le> t \<Longrightarrow>
      in_int64 t \<Longrightarrow>
      \<exists>s'. seek offset whence s = (s', Inr t) \<and> pos s' = t \<and> size s' = size s \<and> ready s'"
begin

text \<open>The size probe of \<^verbatim>\<open>http.ServeContent\<close>: to the end, which returns the size, and back to the start.\<close>

lemma size_probe:
  assumes "ready s" "0 \<le> size s" "in_int64 (size s)"
  shows "\<exists>s1 s2. seek 0 2 s = (s1, Inr (size s)) \<and> seek 0 0 s1 = (s2, Inr 0) \<and> pos s2 = 0 \<and> size s2 = size s \<and> ready s2"
proof -
  obtain s1 where s1: "seek 0 2 s = (s1, Inr (size s))" "size s1 = size s" "ready s1"
    using seek_moves [of s 2 "size s" 0] assms by auto
  moreover obtain s2 where "seek 0 0 s1 = (s2, Inr 0)" "pos s2 = 0" "size s2 = size s1" "ready s2"
    using seek_moves [of s1 0 0 0] s1 by (auto simp: in_int64_def)
  ultimately show ?thesis by auto
qed

text \<open>Patching a box: remember the position, go back, return to it.\<close>

lemma seek_back_and_forth:
  assumes "ready s" "0 \<le> pos s" "in_int64 (pos s)" "0 \<le> t" "in_int64 t"
  shows "\<exists>s1 s2. seek t 0 s = (s1, Inr t) \<and> pos s1 = t \<and> seek (pos s) 0 s1 = (s2, Inr (pos s)) \<and> pos s2 = pos s"
proof -
  obtain s1 where s1: "seek t 0 s = (s1, Inr t)" "pos s1 = t" "ready s1"
    using seek_moves [of s 0 t t] assms by auto
  moreover obtain s2 where "seek (pos s) 0 s1 = (s2, Inr (pos s))" "pos s2 = pos s"
    using seek_moves [of s1 0 "pos s" "pos s"] s1 assms by auto
  ultimately show ?thesis by auto
qed

end

end
