(* ===== verification/SegmentMux.thy ===== *)
theory SegmentMux
  imports Seekable
begin

text \<open>
  Producing one fMP4 media segment by copying packets (\<^verbatim>\<open>media/segment.go\<close>, \<^verbatim>\<open>media/output.go\<close>): the memory
  buffer the muxer writes to, the repair of decode timestamps, the writer that stamps every packet's
  duration, the packet loop of \<^verbatim>\<open>Segment\<close> and the removal of the init prefix. The demuxer, the muxer and
  the encoders are libav: the packets the demuxer delivers, the timestamp rescaling and the failures of
  the muxer are arguments; the model records the packets the muxer receives.
\<close>

section \<open>The memory buffer\<close>

record memWriter =
  mw_buf :: "byte list"
  mw_pos :: int

definition new_memWriter :: memWriter where
  "new_memWriter = \<lparr>mw_buf = [], mw_pos = 0\<rparr>"

text \<open>\<^verbatim>\<open>None\<close> is the panic of a slice expression whose bounds wrapped around.\<close>

definition memWriter_Write :: "byte list \<Rightarrow> memWriter \<Rightarrow> (memWriter \<times> int) option" where
  "memWriter_Write p m =
     (let e = wrap64 (mw_pos m + int (length p));
          buf = (if int (length (mw_buf m)) < e then mw_buf m @ replicate (nat e - length (mw_buf m)) 0 else mw_buf m)
      in if e < mw_pos m then None
         else Some (m\<lparr>mw_buf := copy_at (nat (mw_pos m)) p buf, mw_pos := e\<rparr>, int (length p)))"

definition memWriter_Seek :: "int \<Rightarrow> int \<Rightarrow> memWriter \<Rightarrow> memWriter \<times> (go_error + int)" where
  "memWriter_Seek offset whence m =
     (if whence \<notin> {0, 1, 2} then (m, Inl ErrInvalidWhence)
      else
        let np = wrap64 (if whence = 0 then offset
                         else if whence = 1 then mw_pos m + offset else int (length (mw_buf m)) + offset)
        in if np < 0 then (m, Inl ErrNegativePosition) else (m\<lparr>mw_pos := np\<rparr>, Inr np))"

definition memWriter_Bytes :: "memWriter \<Rightarrow> byte list" where
  "memWriter_Bytes m = mw_buf m"

interpretation mws: seekable memWriter_Seek mw_pos "\<lambda>m. int (length (mw_buf m))" "\<lambda>m. True"
  by unfold_locales (auto simp: memWriter_Seek_def Let_def wrap64_id)

text \<open>
  The buffer is a file: a write changes exactly the bytes it covers, and a gap it leaves behind reads
  as zero bytes.
\<close>

definition mw_at :: "memWriter \<Rightarrow> nat \<Rightarrow> byte" where
  "mw_at m i = (if i < length (mw_buf m) then mw_buf m ! i else 0)"

lemma memWriter_Write_file:
  assumes "0 \<le> mw_pos m" "mw_pos m + int (length p) < 2 ^ 63"
  shows "\<exists>m'. memWriter_Write p m = Some (m', int (length p)) \<and> mw_pos m' = mw_pos m + int (length p) \<and>
    length (mw_buf m') = max (length (mw_buf m)) (nat (mw_pos m) + length p) \<and>
    (\<forall>i. mw_at m' i = (if nat (mw_pos m) \<le> i \<and> i < nat (mw_pos m) + length p then p ! (i - nat (mw_pos m)) else mw_at m i))"
proof -
  let ?e = "mw_pos m + int (length p)"
  let ?buf = "if int (length (mw_buf m)) < ?e then mw_buf m @ replicate (nat ?e - length (mw_buf m)) 0 else mw_buf m"
  have e: "wrap64 ?e = ?e" using assms by (intro wrap64_id) (auto simp: in_int64_def)
  have len: "length ?buf = max (length (mw_buf m)) (nat (mw_pos m) + length p)" using assms(1) by auto
  let ?m = "m\<lparr>mw_buf := copy_at (nat (mw_pos m)) p ?buf, mw_pos := ?e\<rparr>"
  have w: "memWriter_Write p m = Some (?m, int (length p))" by (simp add: memWriter_Write_def Let_def e)
  have le: "nat (mw_pos m) \<le> length ?buf" using len by simp
  have "mw_at ?m i =
      (if nat (mw_pos m) \<le> i \<and> i < nat (mw_pos m) + length p then p ! (i - nat (mw_pos m)) else mw_at m i)" for i
  proof (cases "i < length ?buf")
    case True
    have "?buf ! i = mw_at m i" using True by (auto simp: mw_at_def nth_append)
    then show ?thesis using True by (auto simp: mw_at_def nth_copy_at [OF le True] length_copy_at [OF le])
  next
    case False
    then show ?thesis unfolding len by (auto simp: mw_at_def length_copy_at [OF le] len)
  qed
  then show ?thesis using w len by (intro exI [of _ ?m]) (simp add: length_copy_at [OF le])
qed

section \<open>Packets\<close>

record packet =
  pk_stream :: int
  pk_pts :: int
  pk_dts :: int
  pk_dur :: int
  pk_data :: "byte list"

definition noPTS :: int where
  "noPTS = - (2 ^ 63)"

definition sanitizeCopyDTS :: "packet \<Rightarrow> int \<Rightarrow> (int \<rightharpoonup> int) \<Rightarrow> packet \<times> (int \<rightharpoonup> int)" where
  "sanitizeCopyDTS pkt outIdx lst =
     (let d = (if pk_dts pkt = noPTS then pk_pts pkt else pk_dts pkt);
          dts = (case lst outIdx of
                   Some l \<Rightarrow> if d \<noteq> noPTS \<and> d \<le> l then wrap64 (l + 1) else d
                 | None \<Rightarrow> d)
      in if dts = noPTS then (pkt, lst)
         else (pkt\<lparr>pk_dts := dts, pk_pts := (if pk_pts pkt = noPTS \<or> pk_pts pkt < dts then dts else pk_pts pkt)\<rparr>,
               lst(outIdx \<mapsto> dts)))"

section \<open>The writer that stamps durations\<close>

datatype media_error = ErrWriteFrame | ErrCloneFailed | ErrReadFrame | ErrEncode

text \<open>
  \<open>fw_out\<close> is what \<^verbatim>\<open>WriteInterleavedFrame\<close> accepted. The two flags of a write say whether the muxer
  rejects the held packet and whether the clone of the new one fails.
\<close>

record fragWriter =
  fw_held :: "(int \<times> packet) list"
  fw_lastDur :: "int \<rightharpoonup> int"
  fw_out :: "packet list"

definition newFragWriter :: fragWriter where
  "newFragWriter = \<lparr>fw_held = [], fw_lastDur = (\<lambda>_. None), fw_out = []\<rparr>"

definition fragWriter_write :: "bool \<Rightarrow> bool \<Rightarrow> packet \<Rightarrow> fragWriter \<Rightarrow> fragWriter \<times> media_error option" where
  "fragWriter_write werr cloneFail pkt fw =
     (let si = pk_stream pkt;
          hold = (\<lambda>fw. if cloneFail then (fw, Some ErrCloneFailed)
                        else (fw\<lparr>fw_held := AList.update si pkt (fw_held fw)\<rparr>, None))
      in case map_of (fw_held fw) si of
           None \<Rightarrow> hold fw
         | Some prev \<Rightarrow>
             let d = wrap64 (pk_dts pkt - pk_dts prev);
                 fw1 = (if 0 < d then fw\<lparr>fw_lastDur := (fw_lastDur fw)(si \<mapsto> d)\<rparr> else fw);
                 prev1 = (if 0 < d then prev\<lparr>pk_dur := d\<rparr> else prev)
             in if werr then (fw1\<lparr>fw_held := AList.delete si (fw_held fw1)\<rparr>, Some ErrWriteFrame)
                else hold (fw1\<lparr>fw_out := fw_out fw1 @ [prev1]\<rparr>))"

definition final_duration :: "int option \<Rightarrow> packet \<Rightarrow> int" where
  "final_duration lastDur prev =
     (let d = (case lastDur of Some d \<Rightarrow> d | None \<Rightarrow> 0);
          d' = (if d \<le> 0 then pk_dur prev else d)
      in if d' \<le> 0 then 1 else d')"

text \<open>\<^verbatim>\<open>finish\<close> ranges over the held packets in the order the map gives; one flag per packet.\<close>

fun finish_loop :: "(int \<times> packet) list \<Rightarrow> bool list \<Rightarrow> fragWriter \<Rightarrow> fragWriter \<times> media_error option" where
  "finish_loop [] werrs fw = (fw, None)"
| "finish_loop ((si, prev) # rest) werrs fw =
     (let prev1 = prev\<lparr>pk_dur := final_duration (fw_lastDur fw si) prev\<rparr>;
          fw1 = fw\<lparr>fw_held := AList.delete si (fw_held fw)\<rparr>
      in if werrs \<noteq> [] \<and> hd werrs then (fw1, Some ErrWriteFrame)
         else finish_loop rest (tl werrs) (fw1\<lparr>fw_out := fw_out fw1 @ [prev1]\<rparr>))"

definition fragWriter_finish :: "bool list \<Rightarrow> fragWriter \<Rightarrow> fragWriter \<times> media_error option" where
  "fragWriter_finish werrs fw = finish_loop (fw_held fw) werrs fw"

definition fragWriter_free :: "fragWriter \<Rightarrow> fragWriter" where
  "fragWriter_free fw = fw\<lparr>fw_held := []\<rparr>"

section \<open>The packet loop of Segment\<close>

text \<open>
  The plan of \<^verbatim>\<open>buildOutputPlan\<close>: the copied streams with their output stream, the streams with an
  encoder, the audio streams. A frame event is a packet of the demuxer with, for a packet that goes to an
  encoder, the packets the encoder writes and whether it fails, and the failures of the writer. The end of
  the list is the end of the file.
\<close>

record segment_plan =
  sp_primary :: int
  sp_startTS :: int
  sp_endTS :: int
  sp_copyMap :: "int \<rightharpoonup> int"
  sp_encoders :: "int list"
  sp_audio :: "int \<Rightarrow> bool"

datatype demux_event = FrameRead packet "packet list" bool "bool \<times> bool" | FrameError

record segment_state =
  sg_fw :: fragWriter
  sg_lastDTS :: "int \<rightharpoonup> int"

fun write_all :: "packet list \<Rightarrow> fragWriter \<Rightarrow> fragWriter" where
  "write_all [] fw = fw"
| "write_all (p # ps) fw = write_all ps (fst (fragWriter_write False False p fw))"

text \<open>The timestamp test uses: the primary stream's missing presentation time is its decode time.\<close>

definition effective :: "segment_plan \<Rightarrow> packet \<Rightarrow> packet" where
  "effective plan pkt =
     (if pk_stream pkt = sp_primary plan \<and> pk_pts pkt = noPTS then pkt\<lparr>pk_pts := pk_dts pkt\<rparr> else pkt)"

definition ends_segment :: "segment_plan \<Rightarrow> packet \<Rightarrow> bool" where
  "ends_segment plan pkt \<longleftrightarrow>
     pk_stream pkt = sp_primary plan \<and> pk_pts pkt \<noteq> noPTS \<and> sp_endTS plan \<le> pk_pts pkt"

definition trimmed :: "segment_plan \<Rightarrow> packet \<Rightarrow> bool" where
  "trimmed plan pkt \<longleftrightarrow>
     sp_audio plan (pk_stream pkt) \<and> pk_pts pkt \<noteq> noPTS \<and> (pk_pts pkt < sp_startTS plan \<or> sp_endTS plan \<le> pk_pts pkt)"

fun Segment_loop ::
  "segment_plan \<Rightarrow> (int \<Rightarrow> int \<Rightarrow> packet \<Rightarrow> packet) \<Rightarrow> demux_event list \<Rightarrow> segment_state \<Rightarrow>
   segment_state \<times> media_error option"
where
  "Segment_loop plan rescale [] st = (st, None)"
| "Segment_loop plan rescale (FrameError # evs) st = (st, Some ErrReadFrame)"
| "Segment_loop plan rescale (FrameRead raw emitted feedErr (werr, cloneFail) # evs) st =
     (let pkt = effective plan raw; si = pk_stream pkt
      in if ends_segment plan pkt then (st, None)
         else if si \<in> set (sp_encoders plan)
         then (let st1 = st\<lparr>sg_fw := write_all emitted (sg_fw st)\<rparr>
               in if feedErr then (st1, Some ErrEncode) else Segment_loop plan rescale evs st1)
         else case sp_copyMap plan si of
                None \<Rightarrow> Segment_loop plan rescale evs st
              | Some outIdx \<Rightarrow>
                  if trimmed plan pkt then Segment_loop plan rescale evs st
                  else
                    let (p, lst) = sanitizeCopyDTS (rescale si outIdx (pkt\<lparr>pk_stream := outIdx\<rparr>)) outIdx (sg_lastDTS st)
                    in case fragWriter_write werr cloneFail p (sg_fw st) of
                         (fw, Some e) \<Rightarrow> (st\<lparr>sg_fw := fw, sg_lastDTS := lst\<rparr>, Some e)
                       | (fw, None) \<Rightarrow> Segment_loop plan rescale evs (st\<lparr>sg_fw := fw, sg_lastDTS := lst\<rparr>))"

text \<open>
  \<^verbatim>\<open>Segment\<close> from the packet loop to the trailer: the packets the muxer received. \<open>flushed\<close> are the packets
  the encoders write when they are drained, \<open>flushErr\<close> whether that fails, \<open>werrs\<close> the failures of \<^verbatim>\<open>finish\<close>.
\<close>

definition Segment_packets ::
  "segment_plan \<Rightarrow> (int \<Rightarrow> int \<Rightarrow> packet \<Rightarrow> packet) \<Rightarrow> demux_event list \<Rightarrow> packet list \<Rightarrow> bool \<Rightarrow> bool list \<Rightarrow>
   media_error + packet list"
where
  "Segment_packets plan rescale evs flushed flushErr werrs =
     (case Segment_loop plan rescale evs \<lparr>sg_fw = newFragWriter, sg_lastDTS = (\<lambda>_. None)\<rparr> of
        (st, Some e) \<Rightarrow> Inl e
      | (st, None) \<Rightarrow>
          if flushErr then Inl ErrEncode
          else
            case fragWriter_finish werrs (write_all flushed (sg_fw st)) of
              (fw, Some e) \<Rightarrow> Inl e
            | (fw, None) \<Rightarrow> Inr (fw_out fw))"

section \<open>What a stream of the segment looks like\<close>

text \<open>
  The packets written to one stream so far are \<open>ps\<close>: the last one is held, the others are out with the
  distance to their successor as duration.
\<close>

fun gap_stamped :: "packet list \<Rightarrow> packet list" where
  "gap_stamped (p # q # ps) = p\<lparr>pk_dur := pk_dts q - pk_dts p\<rparr> # gap_stamped (q # ps)"
| "gap_stamped _ = []"

definition on_stream :: "int \<Rightarrow> packet \<Rightarrow> bool" where
  "on_stream s p \<longleftrightarrow> pk_stream p = s"

definition fw_wf :: "fragWriter \<Rightarrow> bool" where
  "fw_wf fw \<longleftrightarrow> distinct (map fst (fw_held fw)) \<and> (\<forall>(k, p) \<in> set (fw_held fw). pk_stream p = k)"

definition stream_view :: "int \<Rightarrow> fragWriter \<Rightarrow> packet list \<Rightarrow> bool" where
  "stream_view s fw ps \<longleftrightarrow>
     filter (on_stream s) (fw_out fw) = gap_stamped ps \<and>
     map_of (fw_held fw) s = (if ps = [] then None else Some (last ps)) \<and>
     fw_lastDur fw s = (if gap_stamped ps = [] then None else Some (pk_dur (last (gap_stamped ps))))"

lemma length_gap_stamped [simp]: "length (gap_stamped ps) = length ps - 1"
  by (induction ps rule: gap_stamped.induct) auto

lemma gap_stamped_snoc:
  "ps \<noteq> [] \<Longrightarrow> gap_stamped (ps @ [p]) = gap_stamped ps @ [(last ps)\<lparr>pk_dur := pk_dts p - pk_dts (last ps)\<rparr>]"
  by (induction ps rule: gap_stamped.induct) auto

lemma gap_stamped_nth:
  "i + 1 < length ps \<Longrightarrow> gap_stamped ps ! i = (ps ! i)\<lparr>pk_dur := pk_dts (ps ! (i + 1)) - pk_dts (ps ! i)\<rparr>"
proof (induction ps arbitrary: i rule: gap_stamped.induct)
  case (1 p q ps)
  then show ?case by (cases i) auto
qed auto

lemma fw_wf_new: "fw_wf newFragWriter" and stream_view_new: "stream_view s newFragWriter []"
  by (simp_all add: fw_wf_def stream_view_def newFragWriter_def)

text \<open>A write touches no other stream.\<close>

lemma fw_wf_write: "fw_wf fw \<Longrightarrow> fw_wf (fst (fragWriter_write werr cl p fw))"
  by (auto simp: fragWriter_write_def fw_wf_def Let_def distinct_update set_delete_eq
      dest!: set_al_update split: option.splits)

lemma stream_view_other:
  assumes "fw_wf fw" "stream_view s fw ps" "pk_stream p \<noteq> s"
  shows "stream_view s (fst (fragWriter_write werr cl p fw)) ps"
proof -
  have "pk_stream prev \<noteq> s" if "map_of (fw_held fw) (pk_stream p) = Some prev" for prev
    using that assms(1,3) map_of_SomeD unfolding fw_wf_def by fastforce
  with assms(2,3) show ?thesis
    by (auto simp: stream_view_def fragWriter_write_def Let_def on_stream_def update_conv' delete_conv' split: option.splits)
qed

lemma stream_view_write:
  assumes "stream_view s fw ps" "pk_stream p = s" "snd (fragWriter_write werr cl p fw) = None"
    and "ps \<noteq> [] \<longrightarrow> pk_dts (last ps) < pk_dts p \<and> pk_dts p - pk_dts (last ps) < 2 ^ 63 \<and> pk_stream (last ps) = s"
  shows "stream_view s (fst (fragWriter_write werr cl p fw)) (ps @ [p])"
proof (cases "ps = []")
  case True
  with assms(1-3) show ?thesis
    by (auto simp: stream_view_def fragWriter_write_def Let_def update_conv' split: if_splits)
next
  case False
  let ?d = "pk_dts p - pk_dts (last ps)"
  have "wrap64 ?d = ?d" using assms(4) False by (intro wrap64_id) (auto simp: in_int64_def)
  with False assms show ?thesis
    by (auto simp: stream_view_def fragWriter_write_def Let_def update_conv' on_stream_def gap_stamped_snoc split: if_splits)
qed

text \<open>Finishing adds the held packets, one per stream.\<close>

definition last_stamped :: "packet list \<Rightarrow> packet" where
  "last_stamped ps = (last ps)\<lparr>pk_dur := final_duration
     (if gap_stamped ps = [] then None else Some (pk_dur (last (gap_stamped ps)))) (last ps)\<rparr>"

lemma finish_loop_out:
  "snd (finish_loop xs werrs fw) = None \<Longrightarrow>
   fw_out (fst (finish_loop xs werrs fw)) =
     fw_out fw @ map (\<lambda>(si, prev). prev\<lparr>pk_dur := final_duration (fw_lastDur fw si) prev\<rparr>) xs"
  by (induction xs werrs fw rule: finish_loop.induct) (auto simp: Let_def split: if_splits)

lemma filter_single_key:
  "distinct (map fst xs) \<Longrightarrow> \<forall>(k, p) \<in> set xs. pk_stream p = k \<Longrightarrow>
   filter (on_stream s) (map (\<lambda>(k, p). p\<lparr>pk_dur := f k p\<rparr>) xs) =
     (case map_of xs s of None \<Rightarrow> [] | Some p \<Rightarrow> [p\<lparr>pk_dur := f s p\<rparr>])"
proof (induction xs)
  case (Cons kp xs)
  obtain k p where kp: "kp = (k, p)" by fastforce
  show ?case
  proof (cases "k = s")
    case True
    with Cons.prems kp have "map_of xs s = None" by (auto simp: map_of_eq_None_iff)
    with Cons True kp show ?thesis by (auto simp: on_stream_def)
  next
    case False
    with Cons kp show ?thesis by (auto simp: on_stream_def)
  qed
qed simp

lemma fragWriter_finish_stream:
  assumes "fw_wf fw" "stream_view s fw ps" "fragWriter_finish werrs fw = (fw', None)"
  shows "filter (on_stream s) (fw_out fw') = gap_stamped ps @ (if ps = [] then [] else [last_stamped ps])"
proof -
  have "fw_out fw' = fw_out fw @ map (\<lambda>(si, prev). prev\<lparr>pk_dur := final_duration (fw_lastDur fw si) prev\<rparr>) (fw_held fw)"
    using finish_loop_out [of "fw_held fw" werrs fw] assms(3) by (simp add: fragWriter_finish_def)
  moreover have "filter (on_stream s) (map (\<lambda>(si, prev). prev\<lparr>pk_dur := final_duration (fw_lastDur fw si) prev\<rparr>) (fw_held fw)) =
      (case map_of (fw_held fw) s of None \<Rightarrow> [] | Some p \<Rightarrow> [p\<lparr>pk_dur := final_duration (fw_lastDur fw s) p\<rparr>])"
    using assms(1) by (intro filter_single_key [where f = "\<lambda>k p. final_duration (fw_lastDur fw k) p"]) (auto simp: fw_wf_def)
  ultimately show ?thesis
    using assms(2) by (auto simp: stream_view_def last_stamped_def)
qed

section \<open>Copied streams\<close>

definition frames :: "demux_event list \<Rightarrow> packet list" where
  "frames evs = concat (map (\<lambda>e. case e of FrameRead p _ _ _ \<Rightarrow> [p] | FrameError \<Rightarrow> []) evs)"

text \<open>
  The packets of the demuxer that belong to output stream \<open>out\<close>: those before the first packet of the
  primary stream past the end, on a stream copied to \<open>out\<close>, and for audio inside the window.
\<close>

definition wanted :: "segment_plan \<Rightarrow> int \<Rightarrow> demux_event list \<Rightarrow> packet list" where
  "wanted plan out evs =
     filter (\<lambda>p. pk_stream p \<notin> set (sp_encoders plan) \<and> sp_copyMap plan (pk_stream p) = Some out \<and> \<not> trimmed plan p)
       (takeWhile (\<lambda>p. \<not> ends_segment plan p) (map (effective plan) (frames evs)))"

text \<open>A packet with a usable timestamp, far from the limits of \<^verbatim>\<open>int64\<close>.\<close>

definition timed :: "packet \<Rightarrow> bool" where
  "timed p \<longleftrightarrow> (pk_dts p \<noteq> noPTS \<or> pk_pts p \<noteq> noPTS) \<and>
     (pk_dts p \<noteq> noPTS \<longrightarrow> \<bar>pk_dts p\<bar> \<le> 2 ^ 61) \<and> (pk_pts p \<noteq> noPTS \<longrightarrow> \<bar>pk_pts p\<bar> \<le> 2 ^ 61)"

definition rescale_ok :: "(int \<Rightarrow> int \<Rightarrow> packet \<Rightarrow> packet) \<Rightarrow> bool" where
  "rescale_ok rescale \<longleftrightarrow> (\<forall>si out p. pk_stream (rescale si out p) = pk_stream p \<and> pk_data (rescale si out p) = pk_data p)"

text \<open>No encoder writes to \<open>out\<close>, and the packets copied to it carry a time after rescaling.\<close>

fun event_ok :: "segment_plan \<Rightarrow> (int \<Rightarrow> int \<Rightarrow> packet \<Rightarrow> packet) \<Rightarrow> int \<Rightarrow> demux_event \<Rightarrow> bool" where
  "event_ok plan rescale out FrameError = True"
| "event_ok plan rescale out (FrameRead p emitted feedErr fl) \<longleftrightarrow>
     (\<forall>q \<in> set emitted. pk_stream q \<noteq> out) \<and>
     (sp_copyMap plan (pk_stream p) = Some out \<longrightarrow>
        timed (rescale (pk_stream p) out ((effective plan p)\<lparr>pk_stream := out\<rparr>)))"

definition copied_ok :: "int \<Rightarrow> packet list \<Rightarrow> bool" where
  "copied_ok out ps \<longleftrightarrow>
     sorted_wrt (\<lambda>p q. pk_dts p < pk_dts q) ps \<and>
     (\<forall>p \<in> set ps. pk_stream p = out \<and> pk_dts p \<le> pk_pts p \<and> - (2 ^ 61) \<le> pk_dts p \<and>
        pk_dts p \<le> 2 ^ 61 + int (length ps))"

definition loop_ok :: "int \<Rightarrow> segment_state \<Rightarrow> packet list \<Rightarrow> bool" where
  "loop_ok out st ps \<longleftrightarrow> fw_wf (sg_fw st) \<and> stream_view out (sg_fw st) ps \<and> copied_ok out ps \<and>
     sg_lastDTS st out = (if ps = [] then None else Some (pk_dts (last ps)))"

lemma copied_ok_snoc:
  assumes "copied_ok out ps" "pk_stream p = out" "pk_dts p \<le> pk_pts p" "- (2 ^ 61) \<le> pk_dts p"
    and "pk_dts p \<le> 2 ^ 61 + int (length ps) + 1" "ps \<noteq> [] \<longrightarrow> pk_dts (last ps) < pk_dts p"
  shows "copied_ok out (ps @ [p])"
proof -
  have "pk_dts q < pk_dts p" if q: "q \<in> set ps" for q
  proof -
    have "ps = butlast ps @ [last ps]" using q by (cases ps) auto
    moreover have "sorted_wrt (\<lambda>p q. pk_dts p < pk_dts q) ps" using assms(1) by (simp add: copied_ok_def)
    ultimately have "pk_dts q \<le> pk_dts (last ps)"
      using q by (metis Un_iff empty_iff less_imp_le order_refl set_ConsD set_append set_empty sorted_wrt_append list.set_intros(1))
    then show ?thesis using assms(6) q by fastforce
  qed
  then show ?thesis using assms by (fastforce simp: copied_ok_def sorted_wrt_append)
qed

lemma sanitize_step:
  assumes "timed p" "copied_ok out ps" "lst out = (if ps = [] then None else Some (pk_dts (last ps)))"
    and "pk_stream p = out" "int (length ps) < 2 ^ 61" "sanitizeCopyDTS p out lst = (p', lst')"
  shows "copied_ok out (ps @ [p'])" "lst' = lst(out \<mapsto> pk_dts p')" "pk_stream p' = out" "pk_data p' = pk_data p"
    "ps \<noteq> [] \<longrightarrow> pk_dts (last ps) < pk_dts p' \<and> pk_dts p' - pk_dts (last ps) < 2 ^ 63 \<and> pk_stream (last ps) = out"
proof -
  let ?d = "if pk_dts p = noPTS then pk_pts p else pk_dts p"
  let ?D = "if ps \<noteq> [] \<and> ?d \<le> pk_dts (last ps) then pk_dts (last ps) + 1 else ?d"
  have d: "?d \<noteq> noPTS" "\<bar>?d\<bar> \<le> 2 ^ 61" using assms(1) by (auto simp: timed_def)
  have l: "- (2 ^ 61) \<le> pk_dts (last ps)" "pk_dts (last ps) \<le> 2 ^ 61 + int (length ps)" "pk_stream (last ps) = out"
    if "ps \<noteq> []" using assms(2) that by (auto simp: copied_ok_def)
  have w: "wrap64 (pk_dts (last ps) + 1) = pk_dts (last ps) + 1" if "ps \<noteq> []"
    using l [OF that] assms(5) by (intro wrap64_id) (auto simp: in_int64_def)
  have D: "- (2 ^ 61) \<le> ?D" "?D \<le> 2 ^ 61 + int (length ps) + 1" "?D \<noteq> noPTS"
    using d l by (auto simp: noPTS_def abs_le_iff)
  have "sanitizeCopyDTS p out lst =
      (p\<lparr>pk_dts := ?D, pk_pts := (if pk_pts p = noPTS \<or> pk_pts p < ?D then ?D else pk_pts p)\<rparr>, lst(out \<mapsto> ?D))"
    using d(1) D(3) assms(3) w by (auto simp: sanitizeCopyDTS_def Let_def)
  with assms(6) have p': "p' = p\<lparr>pk_dts := ?D, pk_pts := (if pk_pts p = noPTS \<or> pk_pts p < ?D then ?D else pk_pts p)\<rparr>"
    and l': "lst' = lst(out \<mapsto> ?D)" by auto
  show "lst' = lst(out \<mapsto> pk_dts p')" "pk_stream p' = out" "pk_data p' = pk_data p" using p' l' assms(4) by simp_all
  show n: "ps \<noteq> [] \<longrightarrow> pk_dts (last ps) < pk_dts p' \<and> pk_dts p' - pk_dts (last ps) < 2 ^ 63 \<and> pk_stream (last ps) = out"
    using p' l D assms(5) by auto
  show "copied_ok out (ps @ [p'])" using assms(2,4) n D p' by (intro copied_ok_snoc) auto
qed

lemma write_all_other:
  assumes "fw_wf fw" "stream_view s fw ps" "\<forall>q \<in> set qs. pk_stream q \<noteq> s"
  shows "fw_wf (write_all qs fw) \<and> stream_view s (write_all qs fw) ps"
  using assms by (induction qs arbitrary: fw) (auto simp: fw_wf_write stream_view_other)

lemma effective_stream [simp]: "pk_stream (effective plan p) = pk_stream p" "pk_data (effective plan p) = pk_data p"
  by (simp_all add: effective_def)

lemma wanted_simps [simp]:
  "wanted plan out [] = []"
  "wanted plan out (FrameRead raw em fe fl # evs) =
     (let p = effective plan raw
      in if ends_segment plan p then []
         else if pk_stream raw \<notin> set (sp_encoders plan) \<and> sp_copyMap plan (pk_stream raw) = Some out \<and> \<not> trimmed plan p
         then p # wanted plan out evs else wanted plan out evs)"
  by (simp_all add: wanted_def frames_def Let_def)

lemma loop_ok_other_write:
  assumes "loop_ok out st ps" "pk_stream p \<noteq> out" "o' \<noteq> out" "fragWriter_write werr cl p (sg_fw st) = (fw, r)"
    and "lst out = sg_lastDTS st out"
  shows "loop_ok out (st\<lparr>sg_fw := fw, sg_lastDTS := lst\<rparr>) ps"
  using assms fw_wf_write [of "sg_fw st" werr cl p] stream_view_other [of "sg_fw st" out ps p werr cl]
  by (auto simp: loop_ok_def)

lemma loop_ok_write:
  assumes "loop_ok out st ps" "timed p" "pk_stream p = out" "int (length ps) < 2 ^ 61"
    and "sanitizeCopyDTS p out (sg_lastDTS st) = (p', lst)" "fragWriter_write werr cl p' (sg_fw st) = (fw, None)"
  shows "loop_ok out (st\<lparr>sg_fw := fw, sg_lastDTS := lst\<rparr>) (ps @ [p']) \<and> pk_data p' = pk_data p"
proof -
  have l: "fw_wf (sg_fw st)" "stream_view out (sg_fw st) ps" "copied_ok out ps"
    "sg_lastDTS st out = (if ps = [] then None else Some (pk_dts (last ps)))"
    using assms(1) by (simp_all add: loop_ok_def)
  note s = sanitize_step [OF assms(2) l(3,4) assms(3,4,5)]
  have "stream_view out fw (ps @ [p'])"
    using stream_view_write [OF l(2) s(3) _ s(5), of werr cl] assms(6) by simp
  moreover have "fw_wf fw" using fw_wf_write [OF l(1), of werr cl p'] assms(6) by simp
  ultimately show ?thesis using s by (simp add: loop_ok_def)
qed

lemma sanitize_other:
  "sanitizeCopyDTS p o' lst = (p', lst') \<Longrightarrow> o' \<noteq> out \<Longrightarrow> lst' out = lst out \<and> pk_stream p' = pk_stream p"
  by (auto simp: sanitizeCopyDTS_def Let_def split: if_splits)

text \<open>One event either ends the segment or adds at most one packet to the stream.\<close>

definition segment_step ::
  "segment_plan \<Rightarrow> (int \<Rightarrow> int \<Rightarrow> packet \<Rightarrow> packet) \<Rightarrow> int \<Rightarrow> demux_event \<Rightarrow> demux_event list \<Rightarrow> segment_state \<Rightarrow>
   packet list \<Rightarrow> bool"
where
  "segment_step plan rescale out e evs st' ps \<longleftrightarrow>
     (\<exists>st1 qs. Segment_loop plan rescale evs st1 = (st', None) \<and> loop_ok out st1 (ps @ qs) \<and> length qs \<le> 1 \<and>
        map pk_data (wanted plan out (e # evs)) = map pk_data qs @ map pk_data (wanted plan out evs))"

lemma segment_step_copy:
  assumes r: "rescale_ok rescale" and e: "e = FrameRead raw em fe (we, cl)"
    and run: "Segment_loop plan rescale (e # evs) st = (st', None)" and inv: "loop_ok out st ps"
    and ok: "event_ok plan rescale out e" and len: "int (length ps) < 2 ^ 61"
    and o': "sp_copyMap plan (pk_stream raw) = Some o'" "\<not> trimmed plan (effective plan raw)"
    and c: "\<not> ends_segment plan (effective plan raw)" "pk_stream raw \<notin> set (sp_encoders plan)"
  shows "segment_step plan rescale out e evs st' ps"
proof -
  let ?q = "rescale (pk_stream raw) o' ((effective plan raw)\<lparr>pk_stream := o'\<rparr>)"
  have q: "pk_stream ?q = o'" "pk_data ?q = pk_data raw" using r by (simp_all add: rescale_ok_def)
  obtain p' lst where s: "sanitizeCopyDTS ?q o' (sg_lastDTS st) = (p', lst)" by fastforce
  obtain fw er where f: "fragWriter_write we cl p' (sg_fw st) = (fw, er)" by fastforce
  let ?st = "st\<lparr>sg_fw := fw, sg_lastDTS := lst\<rparr>"
  have er: "er = None" and rest: "Segment_loop plan rescale evs ?st = (st', None)"
    using run c o' s f by (simp_all add: e Let_def split: option.splits)
  show ?thesis
  proof (cases "o' = out")
    case True
    have "loop_ok out ?st (ps @ [p']) \<and> pk_data p' = pk_data raw"
      using loop_ok_write [OF inv _ _ len, of ?q p' lst we cl fw] s f er ok o' q True by (simp add: e)
    with rest c o' True show ?thesis
      unfolding segment_step_def by (intro exI [of _ ?st] exI [of _ "[p']"]) (simp add: e Let_def)
  next
    case False
    have "loop_ok out ?st ps"
      using loop_ok_other_write [OF inv _ False f] sanitize_other [OF s False] q False by auto
    with rest c o' False show ?thesis
      unfolding segment_step_def by (intro exI [of _ ?st] exI [of _ "[]"]) (simp add: e Let_def)
  qed
qed

lemma segment_step_cases:
  assumes r: "rescale_ok rescale" and run: "Segment_loop plan rescale (e # evs) st = (st', None)"
    and inv: "loop_ok out st ps" and ok: "event_ok plan rescale out e" and len: "int (length ps) < 2 ^ 61"
  shows "st' = st \<and> wanted plan out (e # evs) = [] \<or> segment_step plan rescale out e evs st' ps"
proof -
  obtain raw em fe we cl where e: "e = FrameRead raw em fe (we, cl)" using run by (cases e) auto
  let ?p = "effective plan raw"
  consider (ends) "ends_segment plan ?p" | (enc) "\<not> ends_segment plan ?p" "pk_stream raw \<in> set (sp_encoders plan)"
    | (skip) "\<not> ends_segment plan ?p" "pk_stream raw \<notin> set (sp_encoders plan)"
        "sp_copyMap plan (pk_stream raw) = None \<or> trimmed plan ?p"
    | (copy) o' where "\<not> ends_segment plan ?p" "pk_stream raw \<notin> set (sp_encoders plan)"
        "sp_copyMap plan (pk_stream raw) = Some o'" "\<not> trimmed plan ?p"
    using option.exhaust [of "sp_copyMap plan (pk_stream raw)"] by blast
  then show ?thesis
  proof cases
    case ends
    with run show ?thesis by (simp add: e)
  next
    case enc
    let ?st = "st\<lparr>sg_fw := write_all em (sg_fw st)\<rparr>"
    have "Segment_loop plan rescale evs ?st = (st', None)"
      using run enc by (simp add: e Let_def split: if_splits)
    moreover have "loop_ok out ?st ps"
      using inv ok write_all_other [of "sg_fw st" out ps em] by (auto simp: loop_ok_def e)
    ultimately have "segment_step plan rescale out e evs st' ps"
      unfolding segment_step_def using enc by (intro exI [of _ ?st] exI [of _ "[]"]) (simp add: e Let_def)
    then show ?thesis ..
  next
    case skip
    then have "Segment_loop plan rescale evs st = (st', None)"
      using run by (auto simp: e Let_def split: if_splits option.splits)
    then have "segment_step plan rescale out e evs st' ps"
      unfolding segment_step_def using inv skip by (intro exI [of _ st] exI [of _ "[]"]) (auto simp: e Let_def)
    then show ?thesis ..
  next
    case copy
    with segment_step_copy [OF r e run inv ok len] show ?thesis by blast
  qed
qed

lemma Segment_loop_stream:
  assumes r: "rescale_ok rescale"
  shows "Segment_loop plan rescale evs st = (st', None) \<Longrightarrow> loop_ok out st ps \<Longrightarrow>
    \<forall>e \<in> set evs. event_ok plan rescale out e \<Longrightarrow> int (length ps + length evs) < 2 ^ 61 \<Longrightarrow>
    \<exists>qs. loop_ok out st' (ps @ qs) \<and> map pk_data qs = map pk_data (wanted plan out evs)"
proof (induction evs arbitrary: st ps)
  case Nil
  then show ?case by (intro exI [of _ "[]"]) simp
next
  case (Cons e evs)
  from segment_step_cases [OF r Cons.prems(1,2), of] Cons.prems(3,4)
  consider "st' = st" "wanted plan out (e # evs) = []" | "segment_step plan rescale out e evs st' ps" by auto
  then show ?case
  proof cases
    case 1
    with Cons.prems(2) show ?thesis by (intro exI [of _ "[]"]) simp
  next
    case 2
    then obtain st1 qs where s: "Segment_loop plan rescale evs st1 = (st', None)" "loop_ok out st1 (ps @ qs)" "length qs \<le> 1"
        "map pk_data (wanted plan out (e # evs)) = map pk_data qs @ map pk_data (wanted plan out evs)"
      unfolding segment_step_def by blast
    have "int (length (ps @ qs) + length evs) < 2 ^ 61" using s(3) Cons.prems(4) by simp
    then obtain qs' where "loop_ok out st' ((ps @ qs) @ qs')" "map pk_data qs' = map pk_data (wanted plan out evs)"
      using Cons.IH [OF s(1,2)] Cons.prems(3) by auto
    with s(4) show ?thesis by (intro exI [of _ "qs @ qs'"]) simp
  qed
qed

definition stamped :: "packet list \<Rightarrow> packet list" where
  "stamped ps = gap_stamped ps @ (if ps = [] then [] else [last_stamped ps])"

lemma length_stamped [simp]: "length (stamped ps) = length ps"
  by (cases ps) (simp_all add: stamped_def)

lemma stamped_nth:
  assumes "i < length ps"
  shows "stamped ps ! i = (ps ! i)\<lparr>pk_dur :=
    (if i + 1 < length ps then pk_dts (ps ! (i + 1)) - pk_dts (ps ! i) else pk_dur (last_stamped ps))\<rparr>"
proof (cases "i + 1 < length ps")
  case True
  then show ?thesis by (simp add: stamped_def nth_append gap_stamped_nth)
next
  case False
  then have "i = length ps - 1" "ps \<noteq> []" using assms by auto
  then show ?thesis by (simp add: stamped_def nth_append last_stamped_def last_conv_nth)
qed

lemma final_duration_pos: "0 < final_duration d p"
  by (simp add: final_duration_def Let_def)

lemma stamped_gapless:
  assumes "copied_ok out qs"
  shows "map pk_data (stamped qs) = map pk_data qs" "sorted_wrt (\<lambda>p q. pk_dts p < pk_dts q) (stamped qs)"
    "\<forall>p \<in> set (stamped qs). pk_dts p \<le> pk_pts p \<and> 0 < pk_dur p"
    "\<forall>i. i + 1 < length (stamped qs) \<longrightarrow>
       pk_dts (stamped qs ! i) + pk_dur (stamped qs ! i) = pk_dts (stamped qs ! (i + 1))"
proof -
  have s: "pk_dts (qs ! i) < pk_dts (qs ! j)" if "i < j" "j < length qs" for i j
    using assms that by (auto simp: copied_ok_def sorted_wrt_iff_nth_less)
  have p: "pk_dts (qs ! i) \<le> pk_pts (qs ! i)" if "i < length qs" for i
    using assms that by (auto simp: copied_ok_def)
  have l: "0 < pk_dur (last_stamped qs)" by (simp add: last_stamped_def final_duration_pos)
  show "map pk_data (stamped qs) = map pk_data qs" by (intro nth_equalityI) (simp_all add: stamped_nth)
  show "sorted_wrt (\<lambda>p q. pk_dts p < pk_dts q) (stamped qs)"
    using s by (simp add: sorted_wrt_iff_nth_less stamped_nth)
  show "\<forall>p \<in> set (stamped qs). pk_dts p \<le> pk_pts p \<and> 0 < pk_dur p"
    using s p l by (auto simp: in_set_conv_nth stamped_nth)
  show "\<forall>i. i + 1 < length (stamped qs) \<longrightarrow>
      pk_dts (stamped qs ! i) + pk_dur (stamped qs ! i) = pk_dts (stamped qs ! (i + 1))"
    by (simp add: stamped_nth)
qed

lemma loop_ok_start: "loop_ok out \<lparr>sg_fw = newFragWriter, sg_lastDTS = (\<lambda>_. None)\<rparr> []"
  by (simp add: loop_ok_def fw_wf_new stream_view_new copied_ok_def)

text \<open>
  A segment that was produced without an error is gapless on every copied stream: the muxer
  receives exactly the packets of the window, in order, with strictly increasing decode times, no
  presentation time before its decode time, and durations that make each packet end where the next one
  starts (the last one has a positive duration). This holds whatever the demuxer's timestamps are, as
  long as each packet has one: missing and regressing decode times are repaired.
\<close>

theorem copied_segment_is_gapless:
  assumes "Segment_packets plan rescale evs flushed flushErr werrs = Inr pkts"
    and "rescale_ok rescale" "\<forall>e \<in> set evs. event_ok plan rescale out e" "\<forall>q \<in> set flushed. pk_stream q \<noteq> out"
    and "int (length evs) < 2 ^ 61" "ps = filter (on_stream out) pkts"
  shows "map pk_data ps = map pk_data (wanted plan out evs) \<and>
    sorted_wrt (\<lambda>p q. pk_dts p < pk_dts q) ps \<and>
    (\<forall>p \<in> set ps. pk_dts p \<le> pk_pts p \<and> 0 < pk_dur p) \<and>
    (\<forall>i. i + 1 < length ps \<longrightarrow> pk_dts (ps ! i) + pk_dur (ps ! i) = pk_dts (ps ! (i + 1)))"
proof -
  let ?st0 = "\<lparr>sg_fw = newFragWriter, sg_lastDTS = (\<lambda>_. None)\<rparr>"
  obtain st fw where st: "Segment_loop plan rescale evs ?st0 = (st, None)"
      "fragWriter_finish werrs (write_all flushed (sg_fw st)) = (fw, None)" "pkts = fw_out fw"
    using assms(1) by (auto simp: Segment_packets_def split: prod.splits option.splits if_splits)
  obtain qs where qs: "loop_ok out st qs" "map pk_data qs = map pk_data (wanted plan out evs)"
    using Segment_loop_stream [OF assms(2) st(1) loop_ok_start assms(3)] assms(5) by auto
  have "fw_wf (write_all flushed (sg_fw st))" "stream_view out (write_all flushed (sg_fw st)) qs"
    using qs(1) write_all_other [OF _ _ assms(4), of "sg_fw st" qs] by (auto simp: loop_ok_def)
  then have "ps = stamped qs"
    using fragWriter_finish_stream [OF _ _ st(2)] assms(6) st(3) by (simp add: stamped_def)
  moreover have "copied_ok out qs" using qs(1) by (simp add: loop_ok_def)
  ultimately show ?thesis using stamped_gapless [of out qs] qs(2) by simp
qed

definition demo_plan :: segment_plan where
  "demo_plan = \<lparr>sp_primary = 0, sp_startTS = 100, sp_endTS = 200, sp_copyMap = [0 \<mapsto> 0], sp_encoders = [], sp_audio = (\<lambda>_. False)\<rparr>"

definition demo_events :: "demux_event list" where
  "demo_events =
     [FrameRead \<lparr>pk_stream = 0, pk_pts = 100, pk_dts = noPTS, pk_dur = 0, pk_data = [1]\<rparr> [] False (False, False),
      FrameRead \<lparr>pk_stream = 1, pk_pts = 105, pk_dts = 105, pk_dur = 0, pk_data = [9]\<rparr> [] False (False, False),
      FrameRead \<lparr>pk_stream = 0, pk_pts = 180, pk_dts = 140, pk_dur = 0, pk_data = [2]\<rparr> [] False (False, False),
      FrameRead \<lparr>pk_stream = 0, pk_pts = 140, pk_dts = 120, pk_dur = 0, pk_data = [3]\<rparr> [] False (False, False),
      FrameRead \<lparr>pk_stream = 0, pk_pts = 200, pk_dts = 190, pk_dur = 0, pk_data = [4]\<rparr> [] False (False, False)]"

lemma demo_segment:
  "Segment_packets demo_plan (\<lambda>_ _ p. p) demo_events [] False [] = Inr
     [\<lparr>pk_stream = 0, pk_pts = 100, pk_dts = 100, pk_dur = 40, pk_data = [1]\<rparr>,
      \<lparr>pk_stream = 0, pk_pts = 180, pk_dts = 140, pk_dur = 1, pk_data = [2]\<rparr>,
      \<lparr>pk_stream = 0, pk_pts = 141, pk_dts = 141, pk_dur = 1, pk_data = [3]\<rparr>]"
  by (simp add: Segment_packets_def demo_events_def demo_plan_def effective_def ends_segment_def trimmed_def
      sanitizeCopyDTS_def fragWriter_write_def fragWriter_finish_def newFragWriter_def final_duration_def noPTS_def
      wrap64_def Let_def)

theorem copied_segment_is_gapless_witness:
  "\<exists>pkts. Segment_packets demo_plan (\<lambda>_ _ p. p) demo_events [] False [] = Inr pkts \<and>
     map pk_data (filter (on_stream 0) pkts) = [[1], [2], [3]]"
proof -
  have w: "wanted demo_plan 0 demo_events =
      [\<lparr>pk_stream = 0, pk_pts = 100, pk_dts = noPTS, pk_dur = 0, pk_data = [1]\<rparr>,
       \<lparr>pk_stream = 0, pk_pts = 180, pk_dts = 140, pk_dur = 0, pk_data = [2]\<rparr>,
       \<lparr>pk_stream = 0, pk_pts = 140, pk_dts = 120, pk_dur = 0, pk_data = [3]\<rparr>]"
    by (simp add: demo_events_def demo_plan_def effective_def ends_segment_def trimmed_def noPTS_def)
  have "rescale_ok (\<lambda>_ _ p. p)" by (simp add: rescale_ok_def)
  moreover have "\<forall>e \<in> set demo_events. event_ok demo_plan (\<lambda>_ _ p. p) 0 e"
    by (simp add: demo_events_def demo_plan_def timed_def effective_def noPTS_def)
  moreover have "int (length demo_events) < 2 ^ 61" by (simp add: demo_events_def)
  ultimately have "map pk_data (filter (on_stream 0) [\<lparr>pk_stream = 0, pk_pts = 100, pk_dts = 100, pk_dur = 40, pk_data = [1]\<rparr>,
      \<lparr>pk_stream = 0, pk_pts = 180, pk_dts = 140, pk_dur = 1, pk_data = [2]\<rparr>,
      \<lparr>pk_stream = 0, pk_pts = 141, pk_dts = 141, pk_dur = 1, pk_data = [3]\<rparr>]) =
      map pk_data (wanted demo_plan 0 demo_events)"
    using copied_segment_is_gapless [OF demo_segment, of 0] by simp
  with demo_segment w show ?thesis by simp
qed

section \<open>Removing the init prefix\<close>

definition be_uint :: "byte list \<Rightarrow> int" where
  "be_uint bs = fold (\<lambda>b n. n * 256 + uint b) bs 0"

text \<open>
  \<^verbatim>\<open>firstBoxOffset\<close>. A 64-bit box size can carry the \<^verbatim>\<open>int64\<close> offset past its range: it wraps to a negative
  value, the loop goes on, and the slice expression panics; \<open>None\<close> is that panic. The result \<open>-1\<close> is that
  of the source.
\<close>

function box_scan :: "byte list \<Rightarrow> byte list \<Rightarrow> nat \<Rightarrow> int option" where
  "box_scan b want off =
     (if off + 8 \<le> length b
      then
        let sz = be_uint (subslice off 4 b)
        in if subslice (off + 4) 4 b = want then Some (int off)
           else if sz = 1 \<and> length b < off + 16 then Some (- 1)
           else if sz = 0 then Some (- 1)
           else
             let sz' = (if sz = 1 then wrap64 (be_uint (subslice (off + 8) 8 b)) else sz)
             in if sz' < 8 then Some (- 1)
                else if 2 ^ 63 \<le> int off + sz' + 8 then None
                else box_scan b want (off + nat sz')
      else Some (- 1))"
  by pat_completeness auto
termination by (relation "measure (\<lambda>(b, want, off). length b - off)") auto

declare box_scan.simps [simp del]

definition firstBoxOffset :: "byte list \<Rightarrow> byte list \<Rightarrow> int option" where
  "firstBoxOffset b want = box_scan b want 0"

definition stripInit :: "byte list \<Rightarrow> byte list option" where
  "stripInit full =
     (case firstBoxOffset full [109, 111, 111, 102] of
        None \<Rightarrow> None
      | Some off \<Rightarrow> Some (if 0 < off then drop (nat off) full else full))"

text \<open>Boxes as a muxer writes them: a 32-bit size that includes the header, the type, the payload.\<close>

definition be32 :: "nat \<Rightarrow> byte list" where
  "be32 n = [of_nat (n div 2 ^ 24), of_nat (n div 2 ^ 16), of_nat (n div 2 ^ 8), of_nat n]"

definition mp4_atom :: "byte list \<Rightarrow> byte list \<Rightarrow> byte list" where
  "mp4_atom typ payload = be32 (8 + length payload) @ typ @ payload"

lemma be_uint_be32:
  assumes "n < 2 ^ 32"
  shows "be_uint (be32 n) = int n"
proof -
  have "uint (of_nat k :: byte) = int (k mod 256)" for k by (simp add: unsigned_of_nat take_bit_eq_mod)
  moreover have "(((n div 2 ^ 24 mod 256 * 256 + n div 2 ^ 16 mod 256) * 256 + n div 2 ^ 8 mod 256) * 256 + n mod 256) = n"
  proof -
    have b: "n div 2 ^ 16 = n div 2 ^ 8 div 256" "n div 2 ^ 24 = n div 2 ^ 16 div 256" by (simp_all add: div_mult2_eq [symmetric])
    have "n div 2 ^ 24 < 256" using assms by (simp add: less_mult_imp_div_less)
    then have "n div 2 ^ 24 mod 256 * 256 + n div 2 ^ 16 mod 256 = n div 2 ^ 16" unfolding b(2) by simp
    moreover have "n div 2 ^ 16 * 256 + n div 2 ^ 8 mod 256 = n div 2 ^ 8" unfolding b(1) by simp
    moreover have "n div 2 ^ 8 * 256 + n mod 256 = n" by simp
    ultimately show ?thesis by (simp only:)
  qed
  then have "int (((n div 2 ^ 24 mod 256 * 256 + n div 2 ^ 16 mod 256) * 256 + n div 2 ^ 8 mod 256) * 256 + n mod 256) = int n"
    by (simp only:)
  moreover have "n div 16777216 mod 256 = n div 16777216" using assms by (simp add: less_mult_imp_div_less)
  ultimately show ?thesis by (simp add: be_uint_def be32_def)
qed

lemma box_scan_atom:
  assumes "length typ = 4" "typ \<noteq> want" "8 + length payload < 2 ^ 32" "length pre < 2 ^ 62"
  shows "box_scan (pre @ mp4_atom typ payload @ rest) want (length pre) =
    box_scan (pre @ mp4_atom typ payload @ rest) want (length (pre @ mp4_atom typ payload))"
proof -
  let ?b = "pre @ mp4_atom typ payload @ rest" and ?n = "8 + length payload"
  have l: "length (be32 ?n) = 4" by (simp add: be32_def)
  have s: "subslice (length pre) 4 ?b = be32 ?n" "subslice (length pre + 4) 4 ?b = typ"
    using l assms(1) by (simp_all add: subslice_def mp4_atom_def)
  have "length pre + 8 \<le> length ?b" using l assms(1) by (simp add: mp4_atom_def)
  moreover have "length (pre @ mp4_atom typ payload) = length pre + ?n" using l assms(1) by (simp add: mp4_atom_def)
  ultimately show ?thesis
    using assms by (subst box_scan.simps) (simp add: s be_uint_be32 Let_def nat_add_distrib del: append_assoc)
qed

definition mp4_atoms :: "(byte list \<times> byte list) list \<Rightarrow> byte list" where
  "mp4_atoms atoms = concat (map (\<lambda>a. mp4_atom (fst a) (snd a)) atoms)"

definition small_atom :: "byte list \<Rightarrow> byte list \<times> byte list \<Rightarrow> bool" where
  "small_atom want a \<longleftrightarrow> length (fst a) = 4 \<and> fst a \<noteq> want \<and> 8 + length (snd a) < 2 ^ 32"

lemma box_scan_atoms:
  assumes "list_all (small_atom want) atoms" "length pre + length (mp4_atoms atoms) < 2 ^ 62"
  shows "box_scan (pre @ mp4_atoms atoms @ rest) want (length pre) =
    box_scan (pre @ mp4_atoms atoms @ rest) want (length (pre @ mp4_atoms atoms))"
  using assms
proof (induction atoms arbitrary: pre)
  case Nil
  then show ?case by (simp add: mp4_atoms_def)
next
  case (Cons a atoms)
  let ?a = "mp4_atom (fst a) (snd a)"
  have m: "mp4_atoms (a # atoms) = ?a @ mp4_atoms atoms" by (simp add: mp4_atoms_def)
  have "box_scan (pre @ ?a @ (mp4_atoms atoms @ rest)) want (length pre) =
      box_scan (pre @ ?a @ (mp4_atoms atoms @ rest)) want (length (pre @ ?a))"
    using Cons.prems by (intro box_scan_atom) (auto simp: small_atom_def)
  with Cons.IH [of "pre @ ?a"] Cons.prems show ?case by (simp add: m)
qed

text \<open>The media segment is what follows the boxes before the first \<^verbatim>\<open>moof\<close>.\<close>

lemma stripInit_atoms:
  assumes "list_all (small_atom [109, 111, 111, 102]) atoms" "length (mp4_atoms atoms) < 2 ^ 62"
  shows "stripInit (mp4_atoms atoms @ mp4_atom [109, 111, 111, 102] payload @ rest) =
    Some (mp4_atom [109, 111, 111, 102] payload @ rest)"
proof -
  let ?b = "mp4_atoms atoms @ mp4_atom [109, 111, 111, 102] payload @ rest"
  have l: "length (be32 (8 + length payload)) = 4" by (simp add: be32_def)
  have "subslice (length (mp4_atoms atoms) + 4) 4 ?b = [109, 111, 111, 102]" "length (mp4_atoms atoms) + 8 \<le> length ?b"
    using l by (simp_all add: subslice_def mp4_atom_def)
  then have "box_scan ?b [109, 111, 111, 102] (length (mp4_atoms atoms)) = Some (int (length (mp4_atoms atoms)))"
    by (subst box_scan.simps) (simp only: Let_def if_True simp_thms)
  then have "firstBoxOffset ?b [109, 111, 111, 102] = Some (int (length (mp4_atoms atoms)))"
    using box_scan_atoms [OF assms(1), of "[]"] assms(2) by (simp add: firstBoxOffset_def)
  then show ?thesis by (simp add: stripInit_def)
qed

section \<open>Which streams are copied\<close>

datatype media_type = MediaVideo | MediaAudio | MediaOther

record in_stream =
  is_type :: media_type
  is_codec :: string

record output_plan =
  op_copyMap :: "int \<rightharpoonup> int"
  op_videoEncs :: "int list"
  op_audioEncs :: "int list"
  op_streams :: nat

datatype plan_error = StreamOutOfRange int | EncoderFailed | NewStreamFailed

text \<open>
  \<^verbatim>\<open>buildOutputPlan\<close>: every stream, copied or encoded, adds one output stream; \<open>fails\<close> says which input
  stream cannot be set up.
\<close>

fun buildOutputPlan ::
  "in_stream list \<Rightarrow> bool \<Rightarrow> (int \<Rightarrow> bool) \<Rightarrow> int list \<Rightarrow> output_plan \<Rightarrow> plan_error + output_plan"
where
  "buildOutputPlan inStreams transcodeVideo fails [] pl = Inr pl"
| "buildOutputPlan inStreams transcodeVideo fails (si # sis) pl =
     (if si < 0 \<or> int (length inStreams) \<le> si then Inl (StreamOutOfRange si)
      else
        let s = inStreams ! nat si; pl1 = pl\<lparr>op_streams := op_streams pl + 1\<rparr>
        in if is_type s = MediaVideo \<and> (transcodeVideo \<or> is_codec s \<noteq> ''h264'')
           then (if fails si then Inl EncoderFailed
                 else buildOutputPlan inStreams transcodeVideo fails sis (pl1\<lparr>op_videoEncs := op_videoEncs pl @ [si]\<rparr>))
           else if is_type s = MediaAudio \<and> is_codec s \<noteq> ''aac''
           then (if fails si then Inl EncoderFailed
                 else buildOutputPlan inStreams transcodeVideo fails sis (pl1\<lparr>op_audioEncs := op_audioEncs pl @ [si]\<rparr>))
           else if fails si then Inl NewStreamFailed
           else buildOutputPlan inStreams transcodeVideo fails sis
                  (pl1\<lparr>op_copyMap := (op_copyMap pl)(si \<mapsto> int (op_streams pl))\<rparr>))"

definition empty_plan :: output_plan where
  "empty_plan = \<lparr>op_copyMap = (\<lambda>_. None), op_videoEncs = [], op_audioEncs = [], op_streams = 0\<rparr>"

text \<open>
  A stream is copied only when the player can decode it and its segment boundaries are keyframes, and
  the streams of a plan are split between copying and encoding.
\<close>

definition copyable :: "in_stream list \<Rightarrow> bool \<Rightarrow> int \<Rightarrow> bool" where
  "copyable inStreams transcodeVideo si \<longleftrightarrow>
     (let s = inStreams ! nat si
      in (is_type s = MediaVideo \<longrightarrow> is_codec s = ''h264'' \<and> \<not> transcodeVideo) \<and> (is_type s = MediaAudio \<longrightarrow> is_codec s = ''aac''))"

lemma buildOutputPlan_step:
  assumes "buildOutputPlan inStreams tv fails (si # sis) pl = Inr pl'"
  shows "0 \<le> si \<and> si < int (length inStreams) \<and>
    (\<exists>pl1. buildOutputPlan inStreams tv fails sis pl1 = Inr pl' \<and>
       (if copyable inStreams tv si
        then dom (op_copyMap pl1) = insert si (dom (op_copyMap pl)) \<and>
          set (op_videoEncs pl1 @ op_audioEncs pl1) = set (op_videoEncs pl @ op_audioEncs pl)
        else dom (op_copyMap pl1) = dom (op_copyMap pl) \<and>
          set (op_videoEncs pl1 @ op_audioEncs pl1) = insert si (set (op_videoEncs pl @ op_audioEncs pl))))"
proof -
  have r: "0 \<le> si" "si < int (length inStreams)" using assms by (simp_all split: if_splits)
  let ?s = "inStreams ! nat si" and ?pl = "pl\<lparr>op_streams := op_streams pl + 1\<rparr>"
  consider (video) "is_type ?s = MediaVideo \<and> (tv \<or> is_codec ?s \<noteq> ''h264'')"
    | (audio) "is_type ?s = MediaAudio" "is_codec ?s \<noteq> ''aac''"
    | (copy) "\<not> (is_type ?s = MediaVideo \<and> (tv \<or> is_codec ?s \<noteq> ''h264''))" "\<not> (is_type ?s = MediaAudio \<and> is_codec ?s \<noteq> ''aac'')"
    by blast
  then show ?thesis
  proof cases
    case video
    with assms r have "buildOutputPlan inStreams tv fails sis (?pl\<lparr>op_videoEncs := op_videoEncs pl @ [si]\<rparr>) = Inr pl'"
      by (simp split: if_splits)
    moreover have "\<not> copyable inStreams tv si" using video by (auto simp: copyable_def)
    ultimately show ?thesis using r by (intro conjI exI) auto
  next
    case audio
    with assms r have "buildOutputPlan inStreams tv fails sis (?pl\<lparr>op_audioEncs := op_audioEncs pl @ [si]\<rparr>) = Inr pl'"
      by (simp split: if_splits)
    moreover have "\<not> copyable inStreams tv si" using audio by (auto simp: copyable_def)
    ultimately show ?thesis using r by (intro conjI exI) auto
  next
    case copy
    with assms r have "buildOutputPlan inStreams tv fails sis
        (?pl\<lparr>op_copyMap := (op_copyMap pl)(si \<mapsto> int (op_streams pl))\<rparr>) = Inr pl'"
      by (simp split: if_splits)
    moreover have "copyable inStreams tv si" using copy by (auto simp: copyable_def Let_def)
    ultimately show ?thesis using r by (intro conjI exI) auto
  qed
qed

lemma buildOutputPlan_split:
  assumes "buildOutputPlan inStreams tv fails sis pl = Inr pl'"
    and "\<forall>si \<in> dom (op_copyMap pl). copyable inStreams tv si"
    and "\<forall>si \<in> set (op_videoEncs pl @ op_audioEncs pl). \<not> copyable inStreams tv si"
  shows "(\<forall>si \<in> dom (op_copyMap pl'). copyable inStreams tv si) \<and>
    (\<forall>si \<in> set (op_videoEncs pl' @ op_audioEncs pl'). \<not> copyable inStreams tv si) \<and>
    dom (op_copyMap pl') \<union> set (op_videoEncs pl' @ op_audioEncs pl') =
      dom (op_copyMap pl) \<union> set (op_videoEncs pl @ op_audioEncs pl) \<union> set sis \<and>
    (\<forall>si \<in> set sis. 0 \<le> si \<and> si < int (length inStreams))"
  using assms
proof (induction sis arbitrary: pl)
  case (Cons si sis)
  from buildOutputPlan_step [OF Cons.prems(1)] obtain pl1 where
      r: "0 \<le> si" "si < int (length inStreams)" and b: "buildOutputPlan inStreams tv fails sis pl1 = Inr pl'"
      and d: "if copyable inStreams tv si
        then dom (op_copyMap pl1) = insert si (dom (op_copyMap pl)) \<and>
          set (op_videoEncs pl1 @ op_audioEncs pl1) = set (op_videoEncs pl @ op_audioEncs pl)
        else dom (op_copyMap pl1) = dom (op_copyMap pl) \<and>
          set (op_videoEncs pl1 @ op_audioEncs pl1) = insert si (set (op_videoEncs pl @ op_audioEncs pl))"
    by blast
  have "\<forall>si \<in> dom (op_copyMap pl1). copyable inStreams tv si"
    "\<forall>si \<in> set (op_videoEncs pl1 @ op_audioEncs pl1). \<not> copyable inStreams tv si"
    using d Cons.prems(2,3) by (simp_all only: split: if_splits) auto
  from Cons.IH [OF b this] d r show ?case
    by (cases "copyable inStreams tv si") (simp_all only: if_True if_False, auto)
qed simp

end
