(* ===== verification/AudioCont.thy ===== *)
theory AudioCont
  imports SegmentMux HlsIndex
begin

text \<open>
  The continuous AAC transcode of an audio track and the segments sliced from it
  (\<^verbatim>\<open>media/audiocont.go\<close>, \<^verbatim>\<open>handlers/hlsaudiocont.go\<close>). The decoder, the resampler and the encoder are
  libav: the frames the decoder delivers and the encoder's packets are arguments. Seconds are exact
  rationals; a conversion \<^verbatim>\<open>int64(x)\<close> truncates towards zero.
\<close>

definition trunc_rat :: "rat \<Rightarrow> int" where
  "trunc_rat q = (if q < 0 then \<lceil>q\<rceil> else \<lfloor>q\<rfloor>)"

section \<open>The cache of encoded frames\<close>

record aacFrame =
  af_pts :: int
  af_dur :: int
  af_data :: "byte list"

datatype aac_error = TranscodeErr | OpenErr | ConfigNotReady | NoFrames | MuxErr media_error | NotReadyInTime | CtxDone
  | TooManyTranscoders | LayoutErr | TrackOutOfRange

record ContinuousAAC =
  ca_startSeg :: int
  ca_startSec :: rat
  ca_frames :: "aacFrame list"
  ca_sampleRate :: int
  ca_codecPar :: bool
  ca_priming :: int
  ca_producedTo :: int
  ca_complete :: bool
  ca_err :: "aac_error option"
  ca_cancelled :: bool

definition aacEncoderDelay :: int where
  "aacEncoderDelay = 1024"

definition NewContinuousAAC :: "int \<Rightarrow> rat \<Rightarrow> ContinuousAAC" where
  "NewContinuousAAC startSeg startSec =
     \<lparr>ca_startSeg = startSeg, ca_startSec = startSec, ca_frames = [], ca_sampleRate = 0, ca_codecPar = False,
      ca_priming = 0, ca_producedTo = 0, ca_complete = False, ca_err = None, ca_cancelled = False\<rparr>"

definition aac_Cancel :: "ContinuousAAC \<Rightarrow> ContinuousAAC" where
  "aac_Cancel c = c\<lparr>ca_cancelled := True\<rparr>"

definition aac_Fail :: "aac_error \<Rightarrow> ContinuousAAC \<Rightarrow> ContinuousAAC" where
  "aac_Fail e c = (if ca_err c = None then c\<lparr>ca_err := Some e\<rparr> else c)"

definition aac_Status :: "ContinuousAAC \<Rightarrow> int \<times> bool \<times> aac_error option" where
  "aac_Status c = (ca_producedTo c, ca_complete c, ca_err c)"

definition aac_Ready :: "ContinuousAAC \<Rightarrow> bool" where
  "aac_Ready c = ca_codecPar c"

definition aac_SampleRate :: "ContinuousAAC \<Rightarrow> int" where
  "aac_SampleRate c = ca_sampleRate c"

definition aac_Free :: "ContinuousAAC \<Rightarrow> ContinuousAAC" where
  "aac_Free c = c\<lparr>ca_codecPar := False, ca_frames := []\<rparr>"

definition aac_opened :: "int \<Rightarrow> ContinuousAAC \<Rightarrow> ContinuousAAC" where
  "aac_opened rate c = c\<lparr>ca_sampleRate := rate, ca_codecPar := True\<rparr>"

definition aac_Run_done :: "aac_error option \<Rightarrow> ContinuousAAC \<Rightarrow> ContinuousAAC" where
  "aac_Run_done err c =
     (case err of
        Some e \<Rightarrow> if ca_err c = None then c\<lparr>ca_err := Some e\<rparr> else c
      | None \<Rightarrow> c\<lparr>ca_complete := True\<rparr>)"

section \<open>The transcode loop\<close>

text \<open>
  A packet of the encoder: its time, its bytes and the samples to skip its side data reports (zero for
  none).
\<close>

record enc_packet =
  ep_pts :: int
  ep_data :: "byte list"
  ep_skip :: int

record transcoder =
  tc_cont :: ContinuousAAC
  tc_fifo :: nat
  tc_nextPts :: int
  tc_started :: bool
  tc_primingRead :: bool

definition receive_packet :: "nat \<Rightarrow> enc_packet \<Rightarrow> transcoder \<Rightarrow> transcoder" where
  "receive_packet frameSize ep tc =
     (let c = tc_cont tc;
          priming = (if tc_primingRead tc then ca_priming c else if 0 < ep_skip ep then ep_skip ep else aacEncoderDelay);
          truePts = ep_pts ep - priming
      in tc\<lparr>tc_primingRead := True,
            tc_cont := c\<lparr>ca_priming := priming,
              ca_frames := ca_frames c @ [\<lparr>af_pts = truePts, af_dur = int frameSize, af_data = ep_data ep\<rparr>],
              ca_producedTo := truePts + int frameSize\<rparr>\<rparr>)"

definition drainEncoder :: "nat \<Rightarrow> enc_packet list \<Rightarrow> transcoder \<Rightarrow> transcoder" where
  "drainEncoder frameSize eps tc = fold (receive_packet frameSize) eps tc"

lemma drainEncoder_frame [simp]:
  "tc_fifo (drainEncoder fs eps tc) = tc_fifo tc" "tc_nextPts (drainEncoder fs eps tc) = tc_nextPts tc"
  "tc_started (drainEncoder fs eps tc) = tc_started tc"
  by (induction eps arbitrary: tc) (simp_all add: drainEncoder_def receive_packet_def Let_def)

text \<open>
  \<^verbatim>\<open>drainFifo\<close>. The encoder is the argument \<open>enc\<close>: it takes the time of a frame, or \<open>None\<close> to be drained, and
  gives its next state and the packets it has ready. The frame size is positive in the source.
\<close>

function drainFifo ::
  "('e \<Rightarrow> int option \<Rightarrow> 'e \<times> enc_packet list) \<Rightarrow> nat \<Rightarrow> bool \<Rightarrow> transcoder \<times> 'e \<Rightarrow> transcoder \<times> 'e"
where
  "drainFifo enc frameSize fl (tc, e) =
     (if 0 < frameSize \<and> (frameSize \<le> tc_fifo tc \<or> fl \<and> 0 < tc_fifo tc)
      then
        let n = (if tc_fifo tc < frameSize then tc_fifo tc else frameSize);
            (e', eps) = enc e (Some (tc_nextPts tc))
        in drainFifo enc frameSize fl
             (drainEncoder frameSize eps (tc\<lparr>tc_fifo := tc_fifo tc - n, tc_nextPts := tc_nextPts tc + int n\<rparr>), e')
      else (tc, e))"
  by pat_completeness auto

termination by (relation "measure (\<lambda>(enc, frameSize, fl, tc, e). tc_fifo tc)") auto

declare drainFifo.simps [simp del]

text \<open>\<^verbatim>\<open>pushFrame\<close>: a decoded frame is its time in the input's time base and its number of samples.\<close>

definition pushFrame ::
  "('e \<Rightarrow> int option \<Rightarrow> 'e \<times> enc_packet list) \<Rightarrow> nat \<Rightarrow> rat \<Rightarrow> int \<times> nat \<Rightarrow> transcoder \<times> 'e \<Rightarrow> transcoder \<times> 'e"
where
  "pushFrame enc frameSize timeBase df st =
     (let tc = fst st;
          tc1 = (if tc_started tc then tc
                 else tc\<lparr>tc_started := True,
                         tc_nextPts := (if fst df \<noteq> noPTS
                           then trunc_rat (of_int (fst df) * timeBase * of_int (ca_sampleRate (tc_cont tc))) else tc_nextPts tc)\<rparr>)
      in drainFifo enc frameSize False (tc1\<lparr>tc_fifo := tc_fifo tc1 + snd df\<rparr>, snd st))"

definition transcode ::
  "('e \<Rightarrow> int option \<Rightarrow> 'e \<times> enc_packet list) \<Rightarrow> 'e \<Rightarrow> nat \<Rightarrow> rat \<Rightarrow> int \<Rightarrow> (int \<times> nat) list \<Rightarrow> ContinuousAAC \<Rightarrow> ContinuousAAC"
where
  "transcode enc e0 frameSize timeBase rate decoded c =
     (let tc0 = \<lparr>tc_cont = aac_opened rate c, tc_fifo = 0, tc_nextPts = 0, tc_started = False, tc_primingRead = False\<rparr>;
          st1 = fold (pushFrame enc frameSize timeBase) decoded (tc0, e0);
          st2 = drainFifo enc frameSize True st1;
          (e3, eps) = enc (snd st2) None
      in aac_Run_done None (tc_cont (drainEncoder frameSize eps (fst st2))))"

section \<open>Slicing a segment\<close>

text \<open>\<^verbatim>\<open>sort.Search\<close>.\<close>

function search_loop :: "(nat \<Rightarrow> bool) \<Rightarrow> nat \<Rightarrow> nat \<Rightarrow> nat" where
  "search_loop f i j =
     (if i < j then let h = (i + j) div 2 in if f h then search_loop f i h else search_loop f (h + 1) j else i)"
  by pat_completeness auto
termination by (relation "measure (\<lambda>(f, i, j). j - i)") auto

declare search_loop.simps [simp del]

definition sort_Search :: "nat \<Rightarrow> (nat \<Rightarrow> bool) \<Rightarrow> nat" where
  "sort_Search n f = search_loop f 0 n"

definition aac_window :: "aacFrame list \<Rightarrow> int \<Rightarrow> int \<Rightarrow> aacFrame list" where
  "aac_window fs lo hi =
     takeWhile (\<lambda>f. af_pts f < hi) (drop (sort_Search (length fs) (\<lambda>k. lo \<le> af_pts (fs ! k))) fs)"

definition aac_packet :: "aacFrame \<Rightarrow> packet" where
  "aac_packet f = \<lparr>pk_stream = 0, pk_pts = af_pts f, pk_dts = af_pts f, pk_dur = af_dur f, pk_data = af_data f\<rparr>"

fun write_frames :: "aacFrame list \<Rightarrow> (bool \<times> bool) list \<Rightarrow> fragWriter \<Rightarrow> fragWriter \<times> media_error option" where
  "write_frames [] flts fw = (fw, None)"
| "write_frames (f # fs) flts fw =
     (let (werr, cloneFail) = (case flts of [] \<Rightarrow> (False, False) | x # _ \<Rightarrow> x)
      in case fragWriter_write werr cloneFail (aac_packet f) fw of
           (fw', Some e) \<Rightarrow> (fw', Some e)
         | (fw', None) \<Rightarrow> write_frames fs (tl flts) fw')"

text \<open>The packets \<^verbatim>\<open>SegmentFromAAC\<close> muxes; the failures of the muxer are arguments.\<close>

definition SegmentFromAAC ::
  "(bool \<times> bool) list \<Rightarrow> bool list \<Rightarrow> ContinuousAAC \<Rightarrow> int \<Rightarrow> int \<Rightarrow> aac_error + packet list"
where
  "SegmentFromAAC flts werrs c lo hi =
     (if \<not> ca_codecPar c then Inl ConfigNotReady
      else
        let snap = aac_window (ca_frames c) lo hi
        in if snap = [] then Inl NoFrames
           else case write_frames snap flts newFragWriter of
                  (fw, Some e) \<Rightarrow> Inl (MuxErr e)
                | (fw, None) \<Rightarrow>
                    (case fragWriter_finish werrs fw of
                       (fw', Some e) \<Rightarrow> Inl (MuxErr e)
                     | (fw', None) \<Rightarrow> Inr (fw_out fw')))"

text \<open>The window of segment \<open>n\<close> on the sample clock, and the wait for it.\<close>

definition aac_lo :: "segList \<Rightarrow> int \<Rightarrow> int \<Rightarrow> int" where
  "aac_lo sl rate n = trunc_rat (srcStart sl n * of_int rate + 1 / 2)"

definition aac_hi :: "segList \<Rightarrow> int \<Rightarrow> int \<Rightarrow> int" where
  "aac_hi sl rate n = trunc_rat ((srcStart sl n + extinf sl n) * of_int rate + 1 / 2)"

text \<open>
  \<^verbatim>\<open>produceAudioSegmentCont\<close>: each round sees the transcoder as it is then, whether the deadline has passed
  and whether the request is gone before the next round. A round that never comes is one the request
  does not live to see.
\<close>

fun produceAudioSegmentCont ::
  "segList \<Rightarrow> int \<Rightarrow> (ContinuousAAC \<times> bool \<times> bool) list \<Rightarrow> aac_error + packet list"
where
  "produceAudioSegmentCont sl n [] = Inl CtxDone"
| "produceAudioSegmentCont sl n ((c, late, gone) # rounds) =
     (case ca_err c of
        Some e \<Rightarrow> Inl e
      | None \<Rightarrow>
          if 0 < ca_sampleRate c \<and> (ca_complete c \<or> aac_hi sl (ca_sampleRate c) n \<le> ca_producedTo c)
          then SegmentFromAAC [] [] c (aac_lo sl (ca_sampleRate c) n) (aac_hi sl (ca_sampleRate c) n)
          else if late then Inl NotReadyInTime
          else if gone then Inl CtxDone
          else produceAudioSegmentCont sl n rounds)"

fun produceAudioInitCont :: "(ContinuousAAC \<times> bool \<times> bool) list \<Rightarrow> aac_error + unit" where
  "produceAudioInitCont [] = Inl CtxDone"
| "produceAudioInitCont ((c, late, gone) # rounds) =
     (case ca_err c of
        Some e \<Rightarrow> Inl e
      | None \<Rightarrow>
          if ca_codecPar c then Inr ()
          else if late then Inl NotReadyInTime
          else if gone then Inl CtxDone
          else produceAudioInitCont rounds)"

section \<open>The window is found by time\<close>

definition upward :: "nat \<Rightarrow> (nat \<Rightarrow> bool) \<Rightarrow> bool" where
  "upward n f \<longleftrightarrow> (\<forall>a b. a \<le> b \<and> b < n \<and> f a \<longrightarrow> f b)"

lemma search_loop_least:
  "upward n f \<Longrightarrow> i \<le> j \<Longrightarrow> j \<le> n \<Longrightarrow> \<forall>k < i. \<not> f k \<Longrightarrow> \<forall>k. j \<le> k \<and> k < n \<longrightarrow> f k \<Longrightarrow>
   search_loop f i j \<le> n \<and> (\<forall>k < search_loop f i j. \<not> f k) \<and> (\<forall>k. search_loop f i j \<le> k \<and> k < n \<longrightarrow> f k)"
proof (induction f i j rule: search_loop.induct)
  case (1 f i j)
  show ?case
  proof (cases "i < j")
    case True
    let ?h = "(i + j) div 2"
    have h: "i \<le> ?h" "?h < j" using True by auto
    show ?thesis
    proof (cases "f ?h")
      case up: True
      have "\<forall>k. ?h \<le> k \<and> k < n \<longrightarrow> f k" using 1(3) up by (auto simp: upward_def)
      with 1(1) [OF True refl up] 1(3-7) h up True show ?thesis by (subst (1 2 3) search_loop.simps) simp
    next
      case down: False
      have "\<forall>k < ?h + 1. \<not> f k" using 1(3,5) down h by (auto simp: upward_def less_Suc_eq_le)
      with 1(2) [OF True refl down] 1(3-7) h down True show ?thesis by (subst (1 2 3) search_loop.simps) simp
    qed
  next
    case False
    with 1(3-7) show ?thesis by (subst (1 2 3) search_loop.simps) auto
  qed
qed

lemma sort_Search_drop:
  assumes "sorted (map g xs)"
  shows "drop (sort_Search (length xs) (\<lambda>k. lo \<le> g (xs ! k))) xs = filter (\<lambda>x. lo \<le> g x) xs"
proof -
  let ?f = "\<lambda>k. lo \<le> g (xs ! k)"
  let ?r = "sort_Search (length xs) ?f"
  have mono: "g (xs ! a) \<le> g (xs ! b)" if "a \<le> b" "b < length xs" for a b
    using sorted_nth_mono [OF assms that(1)] that by simp
  have "upward (length xs) ?f" unfolding upward_def using mono order_trans by blast
  then have "?r \<le> length xs \<and> (\<forall>k < ?r. \<not> ?f k) \<and> (\<forall>k. ?r \<le> k \<and> k < length xs \<longrightarrow> ?f k)"
    unfolding sort_Search_def by (rule search_loop_least) (simp, simp, simp, fastforce)
  then have r: "?r \<le> length xs" "\<forall>k < ?r. \<not> ?f k" "\<forall>k. ?r \<le> k \<and> k < length xs \<longrightarrow> ?f k" by blast+
  have "\<not> lo \<le> g x" if x: "x \<in> set (take ?r xs)" for x
  proof -
    obtain i where "i < ?r" "x = xs ! i" using x r(1) by (auto simp: in_set_conv_nth)
    with r(2) show ?thesis by blast
  qed
  then have "filter (\<lambda>x. lo \<le> g x) (take ?r xs) = []" unfolding filter_empty_conv by blast
  moreover have "lo \<le> g x" if x: "x \<in> set (drop ?r xs)" for x
  proof -
    obtain k where "k < length (drop ?r xs)" "x = drop ?r xs ! k" using x unfolding in_set_conv_nth by blast
    then have "?r \<le> ?r + k" "?r + k < length xs" "x = xs ! (?r + k)" using r(1) by simp_all
    with r(3) show ?thesis by blast
  qed
  then have "filter (\<lambda>x. lo \<le> g x) (drop ?r xs) = drop ?r xs" unfolding filter_id_conv by blast
  ultimately show ?thesis by (metis append_take_drop_id filter_append append_Nil)
qed

lemma takeWhile_sorted:
  "sorted (map g xs) \<Longrightarrow> takeWhile (\<lambda>x. g x < hi) xs = filter (\<lambda>x. g x < hi) xs" for g :: "'a \<Rightarrow> int"
proof (induction xs)
  case (Cons x xs)
  show ?case
  proof (cases "g x < hi")
    case False
    then have "filter (\<lambda>x. g x < hi) xs = []" using Cons.prems by (force simp: filter_empty_conv)
    with False show ?thesis by simp
  qed (use Cons in simp)
qed simp

lemma aac_window_filter:
  assumes "sorted (map af_pts fs)"
  shows "aac_window fs lo hi = filter (\<lambda>f. lo \<le> af_pts f \<and> af_pts f < hi) fs"
proof -
  have "sorted (map af_pts (filter (\<lambda>f. lo \<le> af_pts f) fs))" by (rule sorted_filter [OF assms])
  then show ?thesis
    by (simp add: aac_window_def sort_Search_drop [OF assms] takeWhile_sorted conj_commute)
qed

section \<open>A sliced segment carries its window\<close>

definition in_step :: "aacFrame list \<Rightarrow> bool" where
  "in_step fs \<longleftrightarrow> sorted_wrt (<) (map af_pts fs) \<and> (\<forall>f \<in> set fs. \<bar>af_pts f\<bar> \<le> 2 ^ 61)"

lemma write_frames_view:
  "fw_wf fw \<Longrightarrow> stream_view 0 fw (map aac_packet gs) \<Longrightarrow> in_step (gs @ fs) \<Longrightarrow>
   \<exists>fw'. write_frames fs [] fw = (fw', None) \<and> fw_wf fw' \<and> stream_view 0 fw' (map aac_packet (gs @ fs))"
proof (induction fs arbitrary: fw gs)
  case (Cons f fs)
  let ?fw = "fst (fragWriter_write False False (aac_packet f) fw)"
  have ok: "snd (fragWriter_write False False (aac_packet f) fw) = None"
    by (auto simp: fragWriter_write_def Let_def split: option.splits)
  have "stream_view 0 ?fw (map aac_packet gs @ [aac_packet f])"
  proof (rule stream_view_write [OF Cons.prems(2) _ ok])
    show "pk_stream (aac_packet f) = 0" by (simp add: aac_packet_def)
    show "map aac_packet gs \<noteq> [] \<longrightarrow> pk_dts (last (map aac_packet gs)) < pk_dts (aac_packet f) \<and>
        pk_dts (aac_packet f) - pk_dts (last (map aac_packet gs)) < 2 ^ 63 \<and> pk_stream (last (map aac_packet gs)) = 0"
    proof
      assume "map aac_packet gs \<noteq> []"
      then have g: "last (map aac_packet gs) = aac_packet (last gs)" "last gs \<in> set gs" by (simp_all add: last_map)
      then have "af_pts (last gs) < af_pts f" "\<bar>af_pts (last gs)\<bar> \<le> 2 ^ 61" "\<bar>af_pts f\<bar> \<le> 2 ^ 61"
        using Cons.prems(3) by (auto simp: in_step_def sorted_wrt_append)
      then show "pk_dts (last (map aac_packet gs)) < pk_dts (aac_packet f) \<and>
        pk_dts (aac_packet f) - pk_dts (last (map aac_packet gs)) < 2 ^ 63 \<and> pk_stream (last (map aac_packet gs)) = 0"
        unfolding g by (auto simp: aac_packet_def)
    qed
  qed
  with Cons.IH [of ?fw "gs @ [f]"] Cons.prems(1,3) ok show ?case
    by (auto simp: fw_wf_write split: prod.splits)
qed auto

lemma finish_loop_ok: "snd (finish_loop xs [] fw) = None"
  by (induction xs arbitrary: fw) (auto simp: Let_def split: prod.splits)

text \<open>Nothing but the one stream is ever written.\<close>

definition only_stream :: "int \<Rightarrow> fragWriter \<Rightarrow> bool" where
  "only_stream s fw \<longleftrightarrow>
     (\<forall>p \<in> set (fw_out fw). pk_stream p = s) \<and> (\<forall>kp \<in> set (fw_held fw). pk_stream (snd kp) = s)"

lemma only_stream_new: "only_stream s newFragWriter"
  by (simp add: only_stream_def newFragWriter_def)

lemma only_stream_out: "only_stream s fw \<Longrightarrow> filter (on_stream s) (fw_out fw) = fw_out fw"
  by (simp add: only_stream_def on_stream_def)

lemma only_stream_write:
  assumes "only_stream s fw" "pk_stream p = s"
  shows "only_stream s (fst (fragWriter_write werr cl p fw))"
proof -
  have "pk_stream prev = s" if "map_of (fw_held fw) k = Some prev" for k prev
    using assms(1) map_of_SomeD [OF that] unfolding only_stream_def by (metis snd_conv)
  with assms show ?thesis
    by (cases "map_of (fw_held fw) (pk_stream p)")
      (auto simp: only_stream_def fragWriter_write_def Let_def set_delete_eq dest!: set_al_update)
qed

lemma only_stream_frames: "only_stream 0 fw \<Longrightarrow> write_frames fs flts fw = (fw', r) \<Longrightarrow> only_stream 0 fw'"
proof (induction fs arbitrary: fw flts)
  case (Cons f fs)
  obtain a b where ab: "(case flts of [] \<Rightarrow> (False, False) | x # _ \<Rightarrow> x) = (a, b)" by fastforce
  have "only_stream 0 (fst (fragWriter_write a b (aac_packet f) fw))"
    using Cons.prems(1) by (intro only_stream_write) (simp_all add: aac_packet_def)
  with Cons ab show ?case by (auto split: prod.splits option.splits)
qed simp

lemma only_stream_finish:
  assumes "only_stream s fw" "fragWriter_finish werrs fw = (fw', None)"
  shows "only_stream s fw'"
proof -
  have "only_stream s fw'" if "finish_loop xs ws fw1 = (fw', None)" "\<forall>kp \<in> set xs. pk_stream (snd kp) = s" "only_stream s fw1"
    for xs ws and fw1 :: fragWriter
    using that
  proof (induction xs arbitrary: ws fw1)
    case (Cons kp xs)
    obtain k p where kp: "kp = (k, p)" by fastforce
    let ?fw = "fw1\<lparr>fw_held := AList.delete k (fw_held fw1),
      fw_out := fw_out fw1 @ [p\<lparr>pk_dur := final_duration (fw_lastDur fw1 k) p\<rparr>]\<rparr>"
    have "finish_loop xs (tl ws) ?fw = (fw', None)" using Cons.prems(1) by (simp add: kp Let_def split: if_splits)
    moreover have "only_stream s ?fw" using Cons.prems(2,3) kp by (simp add: only_stream_def set_delete_eq)
    ultimately show ?case using Cons.IH Cons.prems(2) by simp
  qed simp
  from this [of "fw_held fw" werrs fw] assms show ?thesis by (simp add: fragWriter_finish_def only_stream_def)
qed

lemma SegmentFromAAC_window:
  assumes "ca_codecPar c" "in_step (ca_frames c)"
  shows "SegmentFromAAC [] [] c lo hi =
    (if aac_window (ca_frames c) lo hi = [] then Inl NoFrames
     else Inr (stamped (map aac_packet (aac_window (ca_frames c) lo hi))))"
proof (cases "aac_window (ca_frames c) lo hi = []")
  case True
  with assms(1) show ?thesis by (simp add: SegmentFromAAC_def)
next
  case False
  let ?ws = "aac_window (ca_frames c) lo hi"
  have "sorted (map af_pts (ca_frames c))"
    using assms(2) strict_sorted_imp_sorted by (auto simp: in_step_def)
  then have "in_step ?ws"
    using assms(2) by (auto simp: in_step_def aac_window_filter sorted_wrt_map intro: sorted_wrt_filter)
  then obtain fw where fw: "write_frames ?ws [] newFragWriter = (fw, None)" "fw_wf fw" "stream_view 0 fw (map aac_packet ?ws)"
    using write_frames_view [of newFragWriter "[]" ?ws] fw_wf_new stream_view_new [of 0] by auto
  obtain fw' where fin: "fragWriter_finish [] fw = (fw', None)"
    using finish_loop_ok [of "fw_held fw" fw] by (cases "fragWriter_finish [] fw") (simp add: fragWriter_finish_def)
  have "filter (on_stream 0) (fw_out fw') = stamped (map aac_packet ?ws)"
    using fragWriter_finish_stream [OF fw(2,3) fin] by (simp add: stamped_def)
  moreover have "only_stream 0 fw'"
    using only_stream_finish [OF _ fin] only_stream_frames [OF _ fw(1)] by (simp add: only_stream_new)
  ultimately show ?thesis
    using assms(1) False fw(1) fin by (simp add: SegmentFromAAC_def only_stream_out)
qed

section \<open>The encoded frames are in step\<close>

text \<open>
  What the encoder is assumed to do: it returns its frames in the order they were sent, each under the
  time it was sent with, possibly later. \<open>pend\<close> lists the times of the frames it still holds.
\<close>

definition encoder_law :: "('e \<Rightarrow> int option \<Rightarrow> 'e \<times> enc_packet list) \<Rightarrow> ('e \<Rightarrow> int list) \<Rightarrow> bool" where
  "encoder_law enc pend \<longleftrightarrow>
     (\<forall>e p e' out. enc e (Some p) = (e', out) \<longrightarrow> map ep_pts out @ pend e' = pend e @ [p]) \<and>
     (\<forall>e e' out. enc e None = (e', out) \<longrightarrow> map ep_pts out = pend e)"

definition clock_ok :: "int list \<Rightarrow> int list \<Rightarrow> transcoder \<Rightarrow> bool" where
  "clock_ok waiting sent tc \<longleftrightarrow>
     sorted_wrt (<) sent \<and> (\<forall>p \<in> set sent. p < tc_nextPts tc) \<and> (\<not> tc_started tc \<longrightarrow> sent = []) \<and> ca_codecPar (tc_cont tc) \<and>
     (if tc_primingRead tc
      then map af_pts (ca_frames (tc_cont tc)) @ map (\<lambda>p. p - ca_priming (tc_cont tc)) waiting =
        map (\<lambda>p. p - ca_priming (tc_cont tc)) sent
      else ca_frames (tc_cont tc) = [] \<and> waiting = sent)"

lemma clock_ok_receive:
  "clock_ok (ep_pts ep # waiting) sent tc \<Longrightarrow> clock_ok waiting sent (receive_packet fs ep tc)"
  by (auto simp: clock_ok_def receive_packet_def Let_def split: if_splits)

lemma clock_ok_drain:
  "clock_ok (map ep_pts eps @ waiting) sent tc \<Longrightarrow> clock_ok waiting sent (drainEncoder fs eps tc)"
  by (induction eps arbitrary: tc) (simp_all add: drainEncoder_def clock_ok_receive)

lemma clock_ok_send:
  assumes "clock_ok waiting sent tc" "tc_started tc" "0 < n"
  shows "clock_ok (waiting @ [tc_nextPts tc]) (sent @ [tc_nextPts tc])
    (tc\<lparr>tc_fifo := k, tc_nextPts := tc_nextPts tc + int n\<rparr>)"
  using assms by (fastforce simp: clock_ok_def sorted_wrt_append)

lemma drainFifo_started:
  "drainFifo enc fs fl st = st' \<Longrightarrow> tc_started (fst st') = tc_started (fst st)"
proof (induction enc fs fl st arbitrary: st' rule: drainFifo.induct)
  case (1 enc fs fl tc e)
  then show ?case by (subst (asm) drainFifo.simps) (auto simp: Let_def split: if_splits prod.splits)
qed

lemma clock_ok_sorted:
  assumes "clock_ok [] sent tc"
  shows "sorted_wrt (<) (map af_pts (ca_frames (tc_cont tc)))"
proof (cases "tc_primingRead tc")
  case True
  then have "map af_pts (ca_frames (tc_cont tc)) = map (\<lambda>p. p - ca_priming (tc_cont tc)) sent" "sorted_wrt (<) sent"
    using assms by (simp_all add: clock_ok_def)
  then show ?thesis by (simp only: sorted_wrt_map) simp
next
  case False
  with assms show ?thesis by (simp add: clock_ok_def)
qed

lemma clock_ok_drainFifo:
  "encoder_law enc pend \<Longrightarrow> clock_ok (pend (snd st)) sent (fst st) \<Longrightarrow> tc_started (fst st) \<or> tc_fifo (fst st) = 0 \<Longrightarrow>
    drainFifo enc fs fl st = st' \<Longrightarrow> \<exists>sent'. clock_ok (pend (snd st')) sent' (fst st')"
proof (induction enc fs fl st arbitrary: sent st' rule: drainFifo.induct)
  case (1 enc fs fl tc e)
  let ?go = "0 < fs \<and> (fs \<le> tc_fifo tc \<or> fl \<and> 0 < tc_fifo tc)"
  show ?case
  proof (cases ?go)
    case False
    with 1(3,5) show ?thesis by (subst (asm) drainFifo.simps) auto
  next
    case go: True
    obtain e' eps where en: "enc e (Some (tc_nextPts tc)) = (e', eps)" by fastforce
    let ?n = "if tc_fifo tc < fs then tc_fifo tc else fs"
    let ?tc = "tc\<lparr>tc_fifo := tc_fifo tc - ?n, tc_nextPts := tc_nextPts tc + int ?n\<rparr>"
    have st: "tc_started tc" "0 < ?n" using go 1(4) by auto
    have "clock_ok (pend e @ [tc_nextPts tc]) (sent @ [tc_nextPts tc]) ?tc"
      using clock_ok_send [OF _ st] 1(3) by simp
    moreover have "map ep_pts eps @ pend e' = pend e @ [tc_nextPts tc]" using 1(2) en by (simp add: encoder_law_def)
    ultimately have "clock_ok (map ep_pts eps @ pend e') (sent @ [tc_nextPts tc]) ?tc" by (simp only:)
    then have "clock_ok (pend e') (sent @ [tc_nextPts tc]) (drainEncoder fs eps ?tc)" by (rule clock_ok_drain)
    moreover have "drainFifo enc fs fl (drainEncoder fs eps ?tc, e') = st'"
      using 1(5) go en by (subst (asm) drainFifo.simps) (simp add: Let_def)
    ultimately show ?thesis using 1(1) [OF go refl en [symmetric] refl 1(2)] st(1) by simp
  qed
qed


lemma clock_ok_push:
  assumes law: "encoder_law enc pend" and ok: "clock_ok (pend (snd st)) sent (fst st)"
  shows "\<exists>sent'. clock_ok (pend (snd (pushFrame enc fs tb df st))) sent' (fst (pushFrame enc fs tb df st))"
    "tc_started (fst (pushFrame enc fs tb df st))"
proof -
  let ?tc = "fst st"
  let ?tc1 = "if tc_started ?tc then ?tc
    else ?tc\<lparr>tc_started := True,
      tc_nextPts := (if fst df \<noteq> noPTS then trunc_rat (of_int (fst df) * tb * of_int (ca_sampleRate (tc_cont ?tc))) else tc_nextPts ?tc)\<rparr>"
  let ?st = "(?tc1\<lparr>tc_fifo := tc_fifo ?tc1 + snd df\<rparr>, snd st)"
  have p: "pushFrame enc fs tb df st = drainFifo enc fs False ?st" by (simp add: pushFrame_def Let_def)
  have "clock_ok (pend (snd ?st)) sent (fst ?st)" using ok by (auto simp: clock_ok_def)
  moreover have "tc_started (fst ?st)" by simp
  ultimately show "\<exists>sent'. clock_ok (pend (snd (pushFrame enc fs tb df st))) sent' (fst (pushFrame enc fs tb df st))"
    unfolding p using clock_ok_drainFifo [OF law, of ?st sent fs False] by blast
  show "tc_started (fst (pushFrame enc fs tb df st))"
    unfolding p using drainFifo_started [of enc fs False ?st] by simp
qed

lemma clock_ok_pushes:
  assumes law: "encoder_law enc pend"
  shows "clock_ok (pend (snd st)) sent (fst st) \<Longrightarrow> tc_started (fst st) \<or> tc_fifo (fst st) = 0 \<Longrightarrow>
    \<exists>sent'. clock_ok (pend (snd (fold (pushFrame enc fs tb) dfs st))) sent' (fst (fold (pushFrame enc fs tb) dfs st)) \<and>
      (tc_started (fst (fold (pushFrame enc fs tb) dfs st)) \<or> tc_fifo (fst (fold (pushFrame enc fs tb) dfs st)) = 0)"
proof (induction dfs arbitrary: st sent)
  case (Cons df dfs)
  from clock_ok_push [OF law Cons.prems(1), of fs tb df] Cons.IH show ?case by fastforce
qed auto

lemma transcode_in_order:
  assumes law: "encoder_law enc pend" and e0: "pend e0 = []" and c: "ca_frames c = []"
  shows "sorted_wrt (<) (map af_pts (ca_frames (transcode enc e0 fs tb rate decoded c)))"
    "ca_codecPar (transcode enc e0 fs tb rate decoded c)"
proof -
  let ?tc0 = "\<lparr>tc_cont = aac_opened rate c, tc_fifo = 0, tc_nextPts = 0, tc_started = False, tc_primingRead = False\<rparr>"
  let ?st1 = "fold (pushFrame enc fs tb) decoded (?tc0, e0)"
  let ?st2 = "drainFifo enc fs True ?st1"
  have "clock_ok (pend e0) [] ?tc0" using e0 c by (simp add: clock_ok_def aac_opened_def)
  then obtain s1 where "clock_ok (pend (snd ?st1)) s1 (fst ?st1)" "tc_started (fst ?st1) \<or> tc_fifo (fst ?st1) = 0"
    using clock_ok_pushes [OF law, of "(?tc0, e0)" "[]" fs tb decoded] by auto
  then obtain s2 where s2: "clock_ok (pend (snd ?st2)) s2 (fst ?st2)"
    using clock_ok_drainFifo [OF law, of ?st1 s1 fs True] by blast
  obtain e3 eps where en: "enc (snd ?st2) None = (e3, eps)" by fastforce
  then have "map ep_pts eps = pend (snd ?st2)" using law by (simp add: encoder_law_def)
  with s2 have ok: "clock_ok [] s2 (drainEncoder fs eps (fst ?st2))" by (intro clock_ok_drain) simp
  have "transcode enc e0 fs tb rate decoded c = aac_Run_done None (tc_cont (drainEncoder fs eps (fst ?st2)))"
    using en by (simp add: transcode_def Let_def)
  moreover have "ca_codecPar (tc_cont (drainEncoder fs eps (fst ?st2)))" using ok by (simp add: clock_ok_def)
  ultimately show "sorted_wrt (<) (map af_pts (ca_frames (transcode enc e0 fs tb rate decoded c)))"
    "ca_codecPar (transcode enc e0 fs tb rate decoded c)"
    using clock_ok_sorted [OF ok] by (simp_all add: aac_Run_done_def)
qed

section \<open>The segments of a playlist\<close>

lemma trunc_rat_mono: "a \<le> b \<Longrightarrow> trunc_rat a \<le> trunc_rat b"
proof -
  assume ab: "a \<le> b"
  show ?thesis
  proof (cases "a < 0 \<and> 0 \<le> b")
    case True
    then have c: "\<lceil>a\<rceil> \<le> 0" "0 \<le> \<lfloor>b\<rfloor>" by (simp_all add: ceiling_le_iff)
    from order_trans [OF c] True show ?thesis by (simp add: trunc_rat_def)
  next
    case False
    with ab show ?thesis by (auto simp: trunc_rat_def intro: ceiling_mono floor_mono)
  qed
qed

text \<open>The boundaries of the windows on the sample clock.\<close>

definition sample_cut :: "segList \<Rightarrow> int \<Rightarrow> nat \<Rightarrow> int" where
  "sample_cut s rate n =
     trunc_rat ((if n < sl_count s then srcStart s (int n) else sl_base s + sl_contentEnd s) * of_int rate + 1 / 2)"

lemma sample_cut_window:
  assumes "tiling s" "n < sl_count s"
  shows "aac_lo s rate (int n) = sample_cut s rate n" "aac_hi s rate (int n) = sample_cut s rate (n + 1)"
  using assms tiling_extinf(2) [OF assms] by (simp_all add: aac_lo_def aac_hi_def sample_cut_def add.commute)

lemma sample_cut_mono:
  assumes "tiling s" "0 < rate" "n < sl_count s"
  shows "sample_cut s rate n \<le> sample_cut s rate (n + 1)"
proof -
  have "srcStart s (int n) \<le> srcStart s (int n) + extinf s (int n)" using tiling_extinf(1) [OF assms(1,3)] by simp
  then have "srcStart s (int n) * of_int rate \<le> (srcStart s (int n) + extinf s (int n)) * of_int rate"
    using assms(2) by (intro mult_right_mono) simp_all
  then have "aac_lo s rate (int n) \<le> aac_hi s rate (int n)"
    unfolding aac_lo_def aac_hi_def by (intro trunc_rat_mono) simp
  then show ?thesis by (simp add: sample_cut_window [OF assms(1,3)])
qed

lemma adjacent_windows:
  fixes g :: "'a \<Rightarrow> int" and b :: "nat \<Rightarrow> int"
  assumes "sorted (map g xs)" "\<And>n. n < m \<Longrightarrow> b n \<le> b (n + 1)" "k \<le> m"
  shows "concat (map (\<lambda>n. filter (\<lambda>x. b n \<le> g x \<and> g x < b (n + 1)) xs) [0..<k]) =
    filter (\<lambda>x. b 0 \<le> g x \<and> g x < b k) xs \<and> b 0 \<le> b k"
  using assms(3)
proof (induction k)
  case 0
  have "filter (\<lambda>x. b 0 \<le> g x \<and> g x < b 0) xs = []" by (simp add: filter_empty_conv)
  then show ?case by simp
next
  case (Suc k)
  have split: "filter (\<lambda>x. l \<le> g x \<and> g x < h) xs = filter (\<lambda>x. l \<le> g x \<and> g x < c) xs @ filter (\<lambda>x. c \<le> g x \<and> g x < h) xs"
    if "l \<le> c" "c \<le> h" for l c h
    using assms(1)
  proof (induction xs)
    case (Cons x xs)
    show ?case
    proof (cases "c \<le> g x")
      case True
      then have "filter (\<lambda>x. l \<le> g x \<and> g x < c) (x # xs) = []" using Cons.prems by (force simp: filter_empty_conv)
      moreover have "filter (\<lambda>x. l \<le> g x \<and> g x < h) (x # xs) = filter (\<lambda>x. c \<le> g x \<and> g x < h) (x # xs)"
        using Cons.prems True that by (intro filter_cong) force+
      ultimately show ?thesis by simp
    next
      case False
      with Cons that show ?thesis by auto
    qed
  qed simp
  from Suc assms(2) [of k] split [of "b 0" "b k" "b (Suc k)"] show ?case by simp
qed


text \<open>An encoder without delay that reports one sample of priming.\<close>

definition demo_encoder :: "unit \<Rightarrow> int option \<Rightarrow> unit \<times> enc_packet list" where
  "demo_encoder e p = ((), case p of None \<Rightarrow> [] | Some t \<Rightarrow> [\<lparr>ep_pts = t, ep_data = [of_int t], ep_skip = 1\<rparr>])"

lemma demo_frames:
  "ca_frames (transcode demo_encoder () 4 1 1 [(0, 24)] (NewContinuousAAC 0 0)) =
   map (\<lambda>t. \<lparr>af_pts = t - 1, af_dur = 4, af_data = [of_int t]\<rparr>) [0, 4, 8, 12, 16, 20]"
  by (simp add: transcode_def pushFrame_def drainFifo.simps drainEncoder_def receive_packet_def demo_encoder_def
      NewContinuousAAC_def aac_opened_def aac_Run_done_def trunc_rat_def noPTS_def Let_def)


section \<open>Transcoders in use\<close>

text \<open>
  The transcoders by track and their counter. \<^verbatim>\<open>getAudioCont\<close> in the three steps that other requests can
  come between: the look-up, the removal of a transcoder that is in the wrong place, and the start of a
  new one inside the single flight.
\<close>

record audio_state =
  au_conts :: "(string \<times> ContinuousAAC) list"
  au_count :: int

datatype cont_lookup = ContHit ContinuousAAC | ContSeek | ContMiss

definition audio_is_seek :: "segList \<Rightarrow> int \<Rightarrow> ContinuousAAC \<Rightarrow> bool" where
  "audio_is_seek sl n c \<longleftrightarrow>
     srcStart sl n < ca_startSec c \<or>
     0 < ca_sampleRate c \<and>
       ca_startSec c + of_int (ca_producedTo c) / of_int (ca_sampleRate c) + 3 / 2 * extinf sl n < srcStart sl n"

definition cont_check :: "string \<Rightarrow> segList option \<Rightarrow> int \<Rightarrow> audio_state \<Rightarrow> cont_lookup" where
  "cont_check key slo n st =
     (case map_of (au_conts st) key of
        None \<Rightarrow> ContMiss
      | Some c \<Rightarrow> (case slo of
                     None \<Rightarrow> ContHit c
                   | Some sl \<Rightarrow> if audio_is_seek sl n c then ContSeek else ContHit c))"

definition cont_evict :: "string \<Rightarrow> audio_state \<Rightarrow> audio_state" where
  "cont_evict key st = st\<lparr>au_conts := AList.delete key (au_conts st), au_count := au_count st - 1\<rparr>"

definition cont_start ::
  "string \<Rightarrow> int \<Rightarrow> nat option \<Rightarrow> int \<Rightarrow> segList option \<Rightarrow> int \<Rightarrow> audio_state \<Rightarrow> audio_state \<times> (aac_error + ContinuousAAC)"
where
  "cont_start key maxT audios rel slo n st =
     (case map_of (au_conts st) key of
        Some c \<Rightarrow> (st, Inr c)
      | None \<Rightarrow>
          if 0 < maxT \<and> maxT \<le> au_count st then (st, Inl TooManyTranscoders)
          else
            case audios of
              None \<Rightarrow> (st, Inl LayoutErr)
            | Some k \<Rightarrow>
                if rel < 0 \<or> int k \<le> rel then (st, Inl TrackOutOfRange)
                else
                  let startSec = (case slo of Some sl \<Rightarrow> if 0 < n then srcStart sl n else 0 | None \<Rightarrow> 0);
                      c = NewContinuousAAC n startSec
                  in (st\<lparr>au_conts := AList.update key c (au_conts st), au_count := au_count st + 1\<rparr>, Inr c))"

definition getAudioCont ::
  "string \<Rightarrow> int \<Rightarrow> nat option \<Rightarrow> int \<Rightarrow> segList option \<Rightarrow> int \<Rightarrow> audio_state \<Rightarrow> audio_state \<times> (aac_error + ContinuousAAC)"
where
  "getAudioCont key maxT audios rel slo n st =
     (case cont_check key slo n st of
        ContHit c \<Rightarrow> (st, Inr c)
      | ContSeek \<Rightarrow> cont_start key maxT audios rel slo n (cont_evict key st)
      | ContMiss \<Rightarrow> cont_start key maxT audios rel slo n st)"

definition maxAudioTranscoders :: "int option \<Rightarrow> int" where
  "maxAudioTranscoders derived = (case derived of Some d \<Rightarrow> d | None \<Rightarrow> 0)"

definition counted :: "int \<Rightarrow> audio_state \<Rightarrow> bool" where
  "counted maxT st \<longleftrightarrow> distinct (map fst (au_conts st)) \<and> au_count st = int (length (au_conts st)) \<and>
     (0 < maxT \<longrightarrow> au_count st \<le> maxT)"

lemma length_delete_mem:
  "distinct (map fst xs) \<Longrightarrow> map_of xs k = Some v \<Longrightarrow> int (length (AList.delete k xs)) = int (length xs) - 1"
  using sum_al_delete [of xs k v "\<lambda>_. 1"] by (simp add: sum_al_def sum_list_triv case_prod_unfold)

text \<open>Requests that do not overlap keep the counter exact and within the cap.\<close>

lemma counted_start:
  assumes "counted maxT st" "cont_start key maxT audios rel slo n st = (st', r)"
  shows "counted maxT st'"
  using assms update_fresh [of key "au_conts st"]
  by (auto simp: counted_def cont_start_def Let_def distinct_update map_of_eq_None_iff split: option.splits if_splits)

lemma counted_evict:
  assumes "counted maxT st" "cont_check key slo n st = ContSeek"
  shows "counted maxT (cont_evict key st)"
  using assms length_delete_mem [of "au_conts st" key]
  by (auto simp: counted_def cont_evict_def cont_check_def split: option.splits)

lemma counted_get:
  assumes "counted maxT st" "getAudioCont key maxT audios rel slo n st = (st', r)"
  shows "counted maxT st'"
proof (cases "cont_check key slo n st")
  case ContSeek
  with assms counted_evict [OF assms(1) ContSeek] counted_start show ?thesis by (simp add: getAudioCont_def)
next
  case ContMiss
  with assms counted_start show ?thesis by (simp add: getAudioCont_def)
qed (use assms in \<open>simp add: getAudioCont_def\<close>)

text \<open>
  Two requests that find the same transcoder in the wrong place both remove it: the second removal takes
  nothing out of the map but lowers the counter, and from then on more transcoders run than the cap allows.
\<close>

lemma eviction_race_miscounts:
  assumes "counted maxT st" "cont_check key slo n st = ContSeek" "cont_check key slo' m st = ContSeek"
  shows "au_count (cont_evict key (cont_evict key st)) = int (length (au_conts (cont_evict key (cont_evict key st)))) - 1"
proof -
  have "counted maxT (cont_evict key st)" by (rule counted_evict [OF assms(1,2)])
  moreover have "AList.delete key (au_conts (cont_evict key st)) = au_conts (cont_evict key st)"
    by (simp add: cont_evict_def AList.delete_eq)
  ultimately show ?thesis by (simp add: counted_def cont_evict_def)
qed

text \<open>
  The seek test adds the start of the transcode to a position that is already on the clock of the
  source. After a restart at \<open>start\<close>, a jump ahead by up to \<open>start\<close> seconds is not recognised, and the
  request waits for the transcode until its deadline.
\<close>

lemma jump_ahead_missed:
  assumes "0 < ca_sampleRate c" "ca_producedTo c = p * ca_sampleRate c" "ca_startSec c \<le> srcStart sl n"
    and "srcStart sl n \<le> ca_startSec c + of_int p + 3 / 2 * extinf sl n"
    and "\<forall>(d, late, gone) \<in> set rounds. ca_err d = None \<and> ca_sampleRate d = ca_sampleRate c \<and> \<not> ca_complete d \<and>
      ca_producedTo d < aac_hi sl (ca_sampleRate c) n \<and> \<not> gone"
    and "ca_err e = None \<and> ca_sampleRate e = ca_sampleRate c \<and> \<not> ca_complete e \<and> ca_producedTo e < aac_hi sl (ca_sampleRate c) n"
    and "\<forall>(d, late, gone) \<in> set rounds. \<not> late"
  shows "\<not> audio_is_seek sl n c \<and> produceAudioSegmentCont sl n (rounds @ [(e, True, False)]) = Inl NotReadyInTime"
proof
  show "\<not> audio_is_seek sl n c" using assms(1-4) by (auto simp: audio_is_seek_def)
  show "produceAudioSegmentCont sl n (rounds @ [(e, True, False)]) = Inl NotReadyInTime"
    using assms(5-7) by (induction rounds) auto
qed

end
