(* ===== verification/IntroMatch.thy ===== *)
theory IntroMatch
  imports Complex_Main Prelude
begin

text \<open>
  The detection of a series' intro from audio fingerprints (\<^verbatim>\<open>handlers/analyzer.go\<close>). A fingerprint is a
  list of 32-bit words, one per 124 milliseconds. Decoding the audio and the external \<^verbatim>\<open>fpcalc\<close> are
  arguments: they give a fingerprint or fail. Seconds are exact rationals.
\<close>

unbundle bit_operations_syntax

type_synonym fingerprint = "32 word list"

definition OnesCount32 :: "32 word \<Rightarrow> nat" where
  "OnesCount32 w = length (filter (bit w) [0..<32])"

text \<open>Two frames match when at most six bits differ.\<close>

definition frames_match :: "32 word \<Rightarrow> 32 word \<Rightarrow> bool" where
  "frames_match v1 v2 \<longleftrightarrow> OnesCount32 (v1 XOR v2) \<le> 6"

definition minMatchFrames :: int where
  "minMatchFrames = 180"

section \<open>Sliding one fingerprint along the other\<close>

definition ov_start :: "int \<Rightarrow> int" where
  "ov_start offset = (if 0 < offset then offset else 0)"

definition ov_start2 :: "int \<Rightarrow> int" where
  "ov_start2 offset = (if offset < 0 then - offset else 0)"

definition overlapLen :: "int \<Rightarrow> int \<Rightarrow> int \<Rightarrow> int" where
  "overlapLen n m offset =
     (if m - ov_start2 offset < n - ov_start offset then m - ov_start2 offset else n - ov_start offset)"

definition match_at :: "fingerprint \<Rightarrow> fingerprint \<Rightarrow> int \<Rightarrow> nat \<Rightarrow> bool" where
  "match_at fp1 fp2 offset i \<longleftrightarrow>
     frames_match (fp1 ! nat (ov_start offset + int i)) (fp2 ! nat (ov_start2 offset + int i))"

definition overlap_matches :: "fingerprint \<Rightarrow> fingerprint \<Rightarrow> int \<Rightarrow> bool list" where
  "overlap_matches fp1 fp2 offset =
     map (match_at fp1 fp2 offset) [0..<nat (overlapLen (int (length fp1)) (int (length fp2)) offset)]"

definition matchCount :: "fingerprint \<Rightarrow> fingerprint \<Rightarrow> int \<Rightarrow> int" where
  "matchCount fp1 fp2 offset = fold (\<lambda>b k. if b then k + 1 else k) (overlap_matches fp1 fp2 offset) 0"

definition best_offset :: "fingerprint \<Rightarrow> fingerprint \<Rightarrow> int \<times> int" where
  "best_offset fp1 fp2 =
     fold (\<lambda>offset (bestOffset, bestMatchCount).
         let k = matchCount fp1 fp2 offset
         in if bestMatchCount < k \<and> minMatchFrames \<le> k then (offset, k) else (bestOffset, bestMatchCount))
       [- int (length fp2) + minMatchFrames..int (length fp1) - minMatchFrames] (0, 0)"

section \<open>The densest block\<close>

text \<open>The inner loop from frame \<open>j\<close>: the last match before more than forty mismatches in a row.\<close>

fun block_end :: "bool list \<Rightarrow> nat \<Rightarrow> nat \<Rightarrow> nat \<Rightarrow> nat" where
  "block_end [] j misses be = be"
| "block_end (True # bs) j misses be = block_end bs (j + 1) 0 j"
| "block_end (False # bs) j misses be = (if 40 < misses + 1 then be else block_end bs (j + 1) (misses + 1) be)"

lemma block_end_ge: "be \<le> j \<Longrightarrow> be \<le> block_end bs j misses be"
  by (induction bs j misses be rule: block_end.induct) (auto intro: order_trans)

record dense_block =
  db_start :: int
  db_end :: int
  db_len :: int

function dense_loop :: "bool list \<Rightarrow> nat \<Rightarrow> dense_block \<Rightarrow> dense_block" where
  "dense_loop matches i best =
     (if i < length matches
      then
        if \<not> matches ! i then dense_loop matches (i + 1) best
        else
          let blockEnd = block_end (drop i matches) i 0 i;
              blockLen = int blockEnd - int i
          in dense_loop matches (blockEnd + 1)
               (if db_len best < blockLen \<and> minMatchFrames \<le> blockLen
                then \<lparr>db_start = int i, db_end = int blockEnd, db_len = blockLen\<rparr> else best)
      else best)"
  by pat_completeness auto
termination
proof (relation "measure (\<lambda>(matches, i, best). length matches - i)", goal_cases)
  case (3 matches i best blockEnd blockLen)
  have "i \<le> block_end (drop i matches) i 0 i" by (rule block_end_ge) simp
  with 3 show ?case by auto
qed auto

declare dense_loop.simps [simp del]

section \<open>The intro of two episodes\<close>

definition frame_secs :: rat where
  "frame_secs = 124 / 1000"

definition findIntroMatch :: "fingerprint \<Rightarrow> fingerprint \<Rightarrow> (int \<times> int) option" where
  "findIntroMatch fp1 fp2 =
     (if length fp1 = 0 \<or> length fp2 = 0 then None
      else
        let (bestOffset, bestMatchCount) = best_offset fp1 fp2
        in if bestMatchCount < minMatchFrames then None
           else
             let b = dense_loop (overlap_matches fp1 fp2 bestOffset) 0 \<lparr>db_start = - 1, db_end = - 1, db_len = 0\<rparr>
             in if minMatchFrames \<le> db_len b
                then
                  let idxStart1 = ov_start bestOffset + db_start b;
                      idxEnd1 = ov_start bestOffset + db_end b;
                      durationSecs = of_int (idxEnd1 - idxStart1) * frame_secs
                  in if 30 \<le> durationSecs \<and> durationSecs \<le> 180 then Some (idxStart1, idxEnd1) else None
                else None)"

section \<open>Finding the template in an episode\<close>

definition template_score :: "fingerprint \<Rightarrow> fingerprint \<Rightarrow> nat \<Rightarrow> int" where
  "template_score fp tmpl offset =
     fold (\<lambda>j k. if frames_match (fp ! (offset + j)) (tmpl ! j) then k + 1 else k) [0..<length tmpl] 0"

definition best_start :: "fingerprint \<Rightarrow> fingerprint \<Rightarrow> int \<times> int" where
  "best_start fp tmpl =
     fold (\<lambda>offset (bestScore, bestStartIdx).
         let k = template_score fp tmpl offset
         in if bestScore < k then (k, int offset) else (bestScore, bestStartIdx))
       [0..<Suc (length fp - length tmpl)] (0, - 1)"

definition matchIntroTemplate :: "fingerprint \<Rightarrow> fingerprint \<Rightarrow> (rat \<times> rat) option" where
  "matchIntroTemplate fp tmpl =
     (if length tmpl = 0 \<or> length fp < length tmpl then None
      else
        let (bestScore, bestStartIdx) = best_start fp tmpl
        in if bestStartIdx = - 1 then None
           else if 7 / 10 \<le> (of_int bestScore / of_nat (length tmpl) :: rat)
           then Some (of_int bestStartIdx * frame_secs, of_int (bestStartIdx + int (length tmpl)) * frame_secs)
           else None)"

section \<open>The analysis of a torrent\<close>

record TimecodeRange =
  tr_IntroStart :: rat
  tr_IntroEnd :: rat
  tr_OutroStart :: rat
  tr_OutroEnd :: rat

text \<open>
  \<^verbatim>\<open>AnalyzeTorrent\<close>: the episodes with the fingerprint each one gives, if any, and whether an episode after
  the second gets a slot of the executor. The result is the map that is stored for the torrent, or \<open>None\<close>
  when nothing is stored. The episodes are analysed concurrently and share only that map.
\<close>

definition AnalyzeTorrent ::
  "bool \<Rightarrow> bool \<Rightarrow> (string \<times> fingerprint option) list \<Rightarrow> (string \<Rightarrow> bool) \<Rightarrow> (string \<times> TimecodeRange) list option"
where
  "AnalyzeTorrent cached incomplete episodes admitted =
     (case episodes of
        (id1, r1) # (id2, r2) # rest \<Rightarrow>
          if cached \<or> incomplete then None
          else
            (case (r1, r2) of
               (Some fp1, Some fp2) \<Rightarrow>
                 (case findIntroMatch fp1 fp2 of
                    None \<Rightarrow> None
                  | Some (s, e) \<Rightarrow>
                      let tmpl = subslice (nat s) (nat (e - s + 1)) fp1
                      in Some (fold (\<lambda>(idx, fid, r) ranges.
                             case r of
                               None \<Rightarrow> ranges
                             | Some fp \<Rightarrow>
                                 if idx < 2 \<or> admitted fid
                                 then (case matchIntroTemplate fp tmpl of
                                         None \<Rightarrow> ranges
                                       | Some (a, b) \<Rightarrow> AList.update fid \<lparr>tr_IntroStart = a, tr_IntroEnd = b, tr_OutroStart = 0, tr_OutroEnd = 0\<rparr> ranges)
                                 else ranges)
                           (enumerate 0 episodes) []))
             | _ \<Rightarrow> None)
      | _ \<Rightarrow> None)"

section \<open>What a block is\<close>

text \<open>A block starts and ends with a match and has no forty-one frames without one.\<close>

definition dense :: "bool list \<Rightarrow> nat \<Rightarrow> nat \<Rightarrow> bool" where
  "dense ms a b \<longleftrightarrow> a \<le> b \<and> b < length ms \<and> ms ! a \<and> ms ! b \<and>
     (\<forall>k. a \<le> k \<and> k \<le> b \<longrightarrow> (\<exists>j. k \<le> j \<and> j \<le> b \<and> j \<le> k + 40 \<and> ms ! j))"

lemma dense_extend:
  assumes "dense ms a be" "j = be + 1 + misses" "misses \<le> 40" "j < length ms" "ms ! j"
  shows "dense ms a j"
  unfolding dense_def
proof (intro conjI allI impI)
  fix k
  assume k: "a \<le> k \<and> k \<le> j"
  show "\<exists>i. k \<le> i \<and> i \<le> j \<and> i \<le> k + 40 \<and> ms ! i"
  proof (cases "k \<le> be")
    case True
    with assms(1) k obtain i where "k \<le> i" "i \<le> be" "i \<le> k + 40" "ms ! i" by (auto simp: dense_def)
    with assms(2) show ?thesis by (intro exI [of _ i]) simp
  next
    case False
    with assms k show ?thesis by (intro exI [of _ j]) simp
  qed
qed (use assms in \<open>auto simp: dense_def\<close>)

lemma drop_Cons_nth: "x # xs = drop j ms \<Longrightarrow> j < length ms \<and> ms ! j = x \<and> xs = drop (j + 1) ms"
  by (metis drop_all list.distinct(1) not_less hd_drop_conv_nth list.sel(1,3) tl_drop drop_Suc Suc_eq_plus1)

lemma block_end_dense:
  "dense ms a be \<Longrightarrow> bs = drop j ms \<Longrightarrow> j = be + 1 + misses \<Longrightarrow> misses \<le> 40 \<Longrightarrow> dense ms a (block_end bs j misses be)"
proof (induction bs j misses be rule: block_end.induct)
  case (2 bs j misses be)
  note d = drop_Cons_nth [OF 2(3)]
  have "dense ms a (block_end bs (j + 1) 0 j)"
    using d dense_extend [OF 2(2,4,5)] by (intro 2(1)) simp_all
  then show ?case by simp
next
  case (3 bs j misses be)
  show ?case
  proof (cases "40 < misses + 1")
    case True
    with 3(2) show ?thesis by simp
  next
    case False
    then have "dense ms a (block_end bs (j + 1) (misses + 1) be)"
      using 3(2,4) drop_Cons_nth [OF 3(3)] by (intro 3(1)) simp_all
    with False show ?thesis by simp
  qed
qed simp

text \<open>The loop returns the initial block or a dense one of at least 180 frames.\<close>

definition block_ok :: "bool list \<Rightarrow> dense_block \<Rightarrow> bool" where
  "block_ok ms b \<longleftrightarrow> db_len b < minMatchFrames \<or>
     (\<exists>s e. b = \<lparr>db_start = int s, db_end = int e, db_len = int e - int s\<rparr> \<and> dense ms s e)"

lemma dense_loop_ok: "block_ok ms best \<Longrightarrow> block_ok ms (dense_loop ms i best)"
proof (induction ms i best rule: dense_loop.induct)
  case (1 ms i best)
  show ?case
  proof (cases "i < length ms")
    case False
    with 1(3) show ?thesis by (subst dense_loop.simps) simp
  next
    case i: True
    show ?thesis
    proof (cases "ms ! i")
      case False
      with 1 i show ?thesis by (subst dense_loop.simps) simp
    next
      case True
      let ?e = "block_end (drop i ms) i 0 i"
      have "drop i ms = True # drop (i + 1) ms" using i True by (simp add: Cons_nth_drop_Suc [symmetric])
      moreover have "dense ms i i" using i True by (auto simp: dense_def)
      ultimately have "dense ms i ?e" using block_end_dense [of ms i i "drop (i + 1) ms" "i + 1" 0] by simp
      then have "block_ok ms (if db_len best < int ?e - int i \<and> minMatchFrames \<le> int ?e - int i
          then \<lparr>db_start = int i, db_end = int ?e, db_len = int ?e - int i\<rparr> else best)"
        using 1(3) by (auto simp: block_ok_def)
      with 1(2) i True show ?thesis by (subst dense_loop.simps) (simp add: Let_def)
    qed
  qed
qed

section \<open>The chosen offset\<close>

definition offset_ok :: "fingerprint \<Rightarrow> fingerprint \<Rightarrow> int \<Rightarrow> bool" where
  "offset_ok fp1 fp2 off \<longleftrightarrow> - int (length fp2) + minMatchFrames \<le> off \<and> off \<le> int (length fp1) - minMatchFrames"

lemma best_offset_props:
  assumes "best_offset fp1 fp2 = (off, k)"
  shows "minMatchFrames \<le> k \<longrightarrow> offset_ok fp1 fp2 off \<and> k = matchCount fp1 fp2 off"
    "\<forall>o'. offset_ok fp1 fp2 o' \<and> minMatchFrames \<le> matchCount fp1 fp2 o' \<longrightarrow> matchCount fp1 fp2 o' \<le> k"
proof -
  let ?step = "\<lambda>offset (bestOffset, bestMatchCount).
    let k = matchCount fp1 fp2 offset
    in if bestMatchCount < k \<and> minMatchFrames \<le> k then (offset, k) else (bestOffset, bestMatchCount)"
  have "(minMatchFrames \<le> snd (fold ?step os (0, 0)) \<longrightarrow> fst (fold ?step os (0, 0)) \<in> set os \<and>
      snd (fold ?step os (0, 0)) = matchCount fp1 fp2 (fst (fold ?step os (0, 0)))) \<and>
    (\<forall>o' \<in> set os. minMatchFrames \<le> matchCount fp1 fp2 o' \<longrightarrow> matchCount fp1 fp2 o' \<le> snd (fold ?step os (0, 0)))" for os
  proof (induction os rule: rev_induct)
    case Nil
    show ?case by (simp add: minMatchFrames_def)
  next
    case (snoc x os)
    obtain a b where ab: "fold ?step os (0, 0) = (a, b)" by fastforce
    with snoc show ?case by (auto simp: Let_def)
  qed
  from this [of "[- int (length fp2) + minMatchFrames..int (length fp1) - minMatchFrames]"] assms
  show "minMatchFrames \<le> k \<longrightarrow> offset_ok fp1 fp2 off \<and> k = matchCount fp1 fp2 off"
    "\<forall>o'. offset_ok fp1 fp2 o' \<and> minMatchFrames \<le> matchCount fp1 fp2 o' \<longrightarrow> matchCount fp1 fp2 o' \<le> k"
    by (simp_all add: best_offset_def offset_ok_def)
qed

text \<open>Every frame the loops read exists.\<close>

lemma overlap_in_range:
  assumes "offset_ok fp1 fp2 off" "int i < overlapLen (int (length fp1)) (int (length fp2)) off"
  shows "0 \<le> ov_start off + int i" "ov_start off + int i < int (length fp1)"
    "0 \<le> ov_start2 off + int i" "ov_start2 off + int i < int (length fp2)"
    "ov_start2 off + int i = ov_start off + int i - off"
  using assms by (auto simp: offset_ok_def overlapLen_def ov_start_def ov_start2_def minMatchFrames_def split: if_splits)

section \<open>The intro is supported by both episodes\<close>

definition aligned :: "fingerprint \<Rightarrow> fingerprint \<Rightarrow> int \<Rightarrow> int \<Rightarrow> bool" where
  "aligned fp1 fp2 off j \<longleftrightarrow> 0 \<le> j - off \<and> j - off < int (length fp2) \<and> frames_match (fp1 ! nat j) (fp2 ! nat (j - off))"

lemma overlap_match_aligned:
  assumes "offset_ok fp1 fp2 off" "i < length (overlap_matches fp1 fp2 off)" "overlap_matches fp1 fp2 off ! i"
  shows "aligned fp1 fp2 off (ov_start off + int i)"
proof -
  have i: "int i < overlapLen (int (length fp1)) (int (length fp2)) off" using assms(2) by (simp add: overlap_matches_def)
  have "match_at fp1 fp2 off i" using assms(2,3) by (simp add: overlap_matches_def)
  with overlap_in_range [OF assms(1) i] show ?thesis by (simp only: aligned_def match_at_def simp_thms)
qed

lemma secs_frames: "30 \<le> of_int d * frame_secs \<and> of_int d * frame_secs \<le> 180 \<Longrightarrow> 242 \<le> d \<and> d \<le> 1451" for d :: int
proof -
  assume "30 \<le> of_int d * frame_secs \<and> of_int d * frame_secs \<le> 180"
  then have "(30000 :: rat) \<le> of_int (d * 124)" "of_int (d * 124) \<le> (180000 :: rat)"
    by (simp_all add: frame_secs_def)
  then have "30000 \<le> d * 124" "d * 124 \<le> 180000" by linarith+
  then show ?thesis by presburger
qed

text \<open>
  The intro that two episodes are found to share is supported by both: its frames exist in both
  fingerprints at one fixed offset, its first and its last frame match, no forty-one consecutive frames
  are without a match, it lasts between thirty seconds and three minutes, the offset has at least 180
  matching frames in all, and no other offset has more.
\<close>

theorem intro_is_supported:
  assumes "findIntroMatch fp1 fp2 = Some (s, e)"
  shows "\<exists>off. 0 \<le> s \<and> e < int (length fp1) \<and> 242 \<le> e - s \<and> e - s \<le> 1451 \<and>
    aligned fp1 fp2 off s \<and> aligned fp1 fp2 off e \<and>
    (\<forall>k. s \<le> k \<and> k \<le> e \<longrightarrow> (\<exists>j. k \<le> j \<and> j \<le> e \<and> j \<le> k + 40 \<and> aligned fp1 fp2 off j)) \<and>
    180 \<le> matchCount fp1 fp2 off \<and>
    (\<forall>o'. offset_ok fp1 fp2 o' \<longrightarrow> matchCount fp1 fp2 o' \<le> matchCount fp1 fp2 off)"
proof -
  obtain off k where b: "best_offset fp1 fp2 = (off, k)" by fastforce
  let ?ms = "overlap_matches fp1 fp2 off"
  let ?b = "dense_loop ?ms 0 \<lparr>db_start = - 1, db_end = - 1, db_len = 0\<rparr>"
  have k: "minMatchFrames \<le> k" and len: "minMatchFrames \<le> db_len ?b"
    and se: "s = ov_start off + db_start ?b" "e = ov_start off + db_end ?b"
    and sec: "30 \<le> of_int (e - s) * frame_secs \<and> of_int (e - s) * frame_secs \<le> 180"
    using assms by (auto simp: findIntroMatch_def b Let_def split: if_splits)
  have off: "offset_ok fp1 fp2 off" "k = matchCount fp1 fp2 off" using best_offset_props(1) [OF b] k by simp_all
  have "block_ok ?ms ?b" by (rule dense_loop_ok) (simp add: block_ok_def minMatchFrames_def)
  then obtain a z where az: "db_start ?b = int a" "db_end ?b = int z" and d: "dense ?ms a z"
    using len by (auto simp: block_ok_def)
  have al: "aligned fp1 fp2 off (ov_start off + int i)" if "i < length ?ms" "?ms ! i" for i
    by (rule overlap_match_aligned [OF off(1) that])
  have z: "int z < overlapLen (int (length fp1)) (int (length fp2)) off" "a \<le> z"
    using d unfolding dense_def by (auto simp: overlap_matches_def zless_nat_eq_int_zless)
  have "0 \<le> s" "e < int (length fp1)" using overlap_in_range(2) [OF off(1) z(1)] az se by (auto simp: ov_start_def)
  moreover have "aligned fp1 fp2 off s" "aligned fp1 fp2 off e" using al [of a] al [of z] d az se by (auto simp: dense_def)
  moreover have "\<exists>j. q \<le> j \<and> j \<le> e \<and> j \<le> q + 40 \<and> aligned fp1 fp2 off j" if q: "s \<le> q" "q \<le> e" for q
  proof -
    let ?q = "nat (q - ov_start off)"
    have "a \<le> ?q" "?q \<le> z" using q az se by auto
    then obtain i where "?q \<le> i" "i \<le> z" "i \<le> ?q + 40" "?ms ! i" using d unfolding dense_def by blast
    then show ?thesis
      using al [of i] d az se q by (intro exI [of _ "ov_start off + int i"]) (auto simp: dense_def)
  qed
  moreover have "matchCount fp1 fp2 o' \<le> matchCount fp1 fp2 off" if "offset_ok fp1 fp2 o'" for o'
    using best_offset_props(2) [OF b] that off(2) k by (cases "minMatchFrames \<le> matchCount fp1 fp2 o'") auto
  ultimately show ?thesis
    using secs_frames [OF sec] k off(2) by (intro exI [of _ off]) (simp add: minMatchFrames_def)
qed

text \<open>Two episodes that are the same sound throughout.\<close>

lemma frames_match_refl: "frames_match v v"
  by (simp add: frames_match_def OnesCount32_def)

lemma fold_count: "fold (\<lambda>b k. if b then k + 1 else k) (replicate n True) c = c + int n"
  by (induction n arbitrary: c) simp_all

lemma const_overlap:
  assumes "offset_ok (replicate n v) (replicate n v) off"
  shows "overlap_matches (replicate n v) (replicate n v) off = replicate (nat (int n - \<bar>off\<bar>)) True"
    "matchCount (replicate n v) (replicate n v) off = int n - \<bar>off\<bar>"
proof -
  have l: "overlapLen (int n) (int n) off = int n - \<bar>off\<bar>" by (auto simp: overlapLen_def ov_start_def ov_start2_def)
  have "match_at (replicate n v) (replicate n v) off i" if "int i < int n - \<bar>off\<bar>" for i
    using overlap_in_range [OF assms, of i] that l by (simp add: match_at_def frames_match_refl)
  then have "map (match_at (replicate n v) (replicate n v) off) [0..<nat (int n - \<bar>off\<bar>)] = map (\<lambda>_. True) [0..<nat (int n - \<bar>off\<bar>)]"
    by (intro map_cong) auto
  then show o: "overlap_matches (replicate n v) (replicate n v) off = replicate (nat (int n - \<bar>off\<bar>)) True"
    by (simp add: overlap_matches_def l map_replicate_const)
  have "\<bar>off\<bar> \<le> int n" using assms by (auto simp: offset_ok_def minMatchFrames_def)
  then show "matchCount (replicate n v) (replicate n v) off = int n - \<bar>off\<bar>"
    unfolding matchCount_def o fold_count by simp
qed

lemma const_best_offset:
  assumes "180 \<le> n"
  shows "best_offset (replicate n v) (replicate n v) = (0, int n)"
proof -
  obtain off k where b: "best_offset (replicate n v) (replicate n v) = (off, k)" by fastforce
  have z: "offset_ok (replicate n v) (replicate n v) 0" using assms by (simp add: offset_ok_def minMatchFrames_def)
  have "int n \<le> k" using best_offset_props(2) [OF b] z const_overlap(2) [OF z] assms by (auto simp: minMatchFrames_def)
  with best_offset_props(1) [OF b] assms const_overlap(2) [of n v off] have "off = 0" "k = int n"
    by (auto simp: minMatchFrames_def)
  with b show ?thesis by simp
qed

lemma block_end_true: "block_end (replicate n True) j m be = (if n = 0 then be else j + n - 1)"
  by (induction n arbitrary: j m be) auto

lemma demo_intro: "findIntroMatch (replicate 250 7) (replicate 250 7) = Some (0, 249)"
proof -
  have z: "offset_ok (replicate 250 (7 :: 32 word)) (replicate 250 7) 0" by (simp add: offset_ok_def minMatchFrames_def)
  have o: "overlap_matches (replicate 250 (7 :: 32 word)) (replicate 250 7) 0 = replicate 250 True"
    using const_overlap(1) [OF z] by simp
  have "dense_loop (replicate 250 True) 0 \<lparr>db_start = - 1, db_end = - 1, db_len = 0\<rparr> =
      \<lparr>db_start = 0, db_end = 249, db_len = 249\<rparr>"
    by (subst dense_loop.simps)
      (subst dense_loop.simps, simp only: length_replicate drop_0 block_end_true Let_def minMatchFrames_def nth_replicate if_True, simp)
  then show ?thesis
    using const_best_offset [of 250 "7 :: 32 word"]
    by (simp add: findIntroMatch_def o minMatchFrames_def ov_start_def frame_secs_def Let_def)
qed

theorem intro_is_supported_witness:
  "\<exists>off. 180 \<le> matchCount (replicate 250 (7 :: 32 word)) (replicate 250 7) off"
  using intro_is_supported [OF demo_intro] by blast

section \<open>The template finds its own episode\<close>

lemma template_score_bounds: "0 \<le> template_score fp tmpl o' \<and> template_score fp tmpl o' \<le> int (length tmpl)"
proof -
  have "c \<le> fold (\<lambda>j k. if P j then k + 1 else k) js c \<and> fold (\<lambda>j k. if P j then k + 1 else k) js c \<le> c + int (length js)"
    for P and js :: "nat list" and c :: int
  proof (induction js arbitrary: c)
    case (Cons j js)
    from Cons.IH [of c] Cons.IH [of "c + 1"] show ?case by simp
  qed simp
  from this [of 0 "\<lambda>j. frames_match (fp ! (o' + j)) (tmpl ! j)" "[0..<length tmpl]"] show ?thesis
    by (simp add: template_score_def)
qed

lemma template_score_self:
  assumes "o' + len \<le> length fp"
  shows "template_score fp (subslice o' len fp) o' = int len"
proof -
  have "frames_match (fp ! (o' + j)) (subslice o' len fp ! j)" if "j < len" for j
    using that assms by (simp add: nth_subslice frames_match_refl)
  then have "fold (\<lambda>j k. if frames_match (fp ! (o' + j)) (subslice o' len fp ! j) then k + 1 else k) [0..<len] 0 =
      fold (\<lambda>j k. k + 1) [0..<len] (0 :: int)"
    by (intro fold_cong) auto
  moreover have "fold (\<lambda>j k. k + 1) js c = c + int (length js)" for js :: "nat list" and c by (induction js arbitrary: c) auto
  ultimately show ?thesis using assms by (simp add: template_score_def)
qed

lemma best_start_props:
  assumes "best_start fp tmpl = (k, i)"
  shows "\<forall>o' \<le> length fp - length tmpl. template_score fp tmpl o' \<le> k"
    "i = - 1 \<and> k = 0 \<or> (\<exists>o' \<le> length fp - length tmpl. i = int o' \<and> k = template_score fp tmpl o' \<and>
       (\<forall>q < o'. template_score fp tmpl q < k))"
proof -
  let ?step = "\<lambda>offset (bestScore, bestStartIdx).
    let k = template_score fp tmpl offset in if bestScore < k then (k, int offset) else (bestScore, bestStartIdx)"
  have "(\<forall>o' < m. template_score fp tmpl o' \<le> fst (fold ?step [0..<m] (0, - 1))) \<and>
    (fold ?step [0..<m] (0, - 1) = (0, - 1) \<or>
     (\<exists>o' < m. fold ?step [0..<m] (0, - 1) = (template_score fp tmpl o', int o') \<and>
        (\<forall>q < o'. template_score fp tmpl q < template_score fp tmpl o')))" for m
  proof (induction m)
    case (Suc m)
    obtain a b where ab: "fold ?step [0..<m] (0, - 1) = (a, b)" by fastforce
    show ?case
    proof (cases "a < template_score fp tmpl m")
      case True
      with Suc ab show ?thesis by (auto simp: Let_def less_Suc_eq intro: le_less_trans order.strict_implies_order)
    next
      case False
      with Suc ab show ?thesis by (auto simp: Let_def less_Suc_eq)
    qed
  qed simp
  from this [of "Suc (length fp - length tmpl)"] assms
  show "\<forall>o' \<le> length fp - length tmpl. template_score fp tmpl o' \<le> k"
    "i = - 1 \<and> k = 0 \<or> (\<exists>o' \<le> length fp - length tmpl. i = int o' \<and> k = template_score fp tmpl o' \<and>
       (\<forall>q < o'. template_score fp tmpl q < k))"
    unfolding best_start_def by (auto simp: less_Suc_eq_le)
qed

text \<open>
  A template cut out of an episode is found in it: every frame of the window found matches the template, and
  no window before it does as well.
\<close>

lemma template_found_in_own_episode:
  assumes "o' + len \<le> length fp" "0 < len"
  shows "\<exists>i \<le> o'. matchIntroTemplate fp (subslice o' len fp) =
      Some (of_nat i * frame_secs, of_nat (i + len) * frame_secs) \<and> template_score fp (subslice o' len fp) i = int len"
proof -
  let ?t = "subslice o' len fp"
  have lt: "length ?t = len" using assms(1) by simp
  obtain k i where b: "best_start fp ?t = (k, i)" by fastforce
  have "o' \<le> length fp - length ?t" using assms(1) lt by simp
  then have "template_score fp ?t o' \<le> k" using best_start_props(1) [OF b] by blast
  then have "int len \<le> k" using template_score_self [OF assms(1)] by simp
  then obtain q where q: "q \<le> length fp - len" "i = int q" "k = template_score fp ?t q"
      "\<forall>r < q. template_score fp ?t r < k"
    using best_start_props(2) [OF b] assms(2) lt by auto
  have k: "k = int len" using \<open>int len \<le> k\<close> template_score_bounds [of fp ?t q] q(3) lt by simp
  have "q \<le> o'" using q(4) template_score_self [OF assms(1)] k by (metis not_less less_irrefl)
  moreover have "matchIntroTemplate fp ?t = Some (of_nat q * frame_secs, of_nat (q + len) * frame_secs)"
    using assms k b q(2) by (simp add: matchIntroTemplate_def lt)
  ultimately show ?thesis using q(3) k by (intro exI [of _ q]) simp
qed

section \<open>The WAV wrapper\<close>

definition le16 :: "int \<Rightarrow> byte list" where
  "le16 n = [of_int n, of_int (n div 2 ^ 8)]"

definition le32 :: "int \<Rightarrow> byte list" where
  "le32 n = [of_int n, of_int (n div 2 ^ 8), of_int (n div 2 ^ 16), of_int (n div 2 ^ 24)]"

definition ascii :: "string \<Rightarrow> byte list" where
  "ascii s = map of_char s"

definition wrapWAVMono16 :: "byte list \<Rightarrow> int \<Rightarrow> byte list" where
  "wrapWAVMono16 pcm sampleRate =
     ascii ''RIFF'' @ le32 (36 + int (length pcm)) @ ascii ''WAVE'' @ ascii ''fmt '' @ le32 16 @ le16 1 @ le16 1 @
     le32 sampleRate @ le32 (sampleRate * 1 * 16 sdiv 8) @ le16 (1 * 16 sdiv 8) @ le16 16 @ ascii ''data'' @
     le32 (int (length pcm)) @ pcm"

text \<open>The samples follow a header of 44 bytes, which ends with their length.\<close>

lemma wav_layout:
  "length (wrapWAVMono16 pcm rate) = 44 + length pcm" "drop 44 (wrapWAVMono16 pcm rate) = pcm"
  "subslice 40 4 (wrapWAVMono16 pcm rate) = le32 (int (length pcm))"
proof -
  let ?h = "ascii ''RIFF'' @ le32 (36 + int (length pcm)) @ ascii ''WAVE'' @ ascii ''fmt '' @ le32 16 @ le16 1 @ le16 1 @
     le32 rate @ le32 (rate * 1 * 16 sdiv 8) @ le16 (1 * 16 sdiv 8) @ le16 16 @ ascii ''data''"
  have l: "length ?h = 40" "length (le32 (int (length pcm))) = 4" by (simp_all add: ascii_def le32_def le16_def)
  have w: "wrapWAVMono16 pcm rate = ?h @ le32 (int (length pcm)) @ pcm" by (simp add: wrapWAVMono16_def)
  show "length (wrapWAVMono16 pcm rate) = 44 + length pcm" "drop 44 (wrapWAVMono16 pcm rate) = pcm"
    "subslice 40 4 (wrapWAVMono16 pcm rate) = le32 (int (length pcm))"
    unfolding w using l by (simp_all only: length_append drop_append subslice_def) simp_all
qed

end
