(* ===== verification/FileStream.thy ===== *)
theory FileStream
  imports Reader Seekable
begin

text \<open>
  Progressive delivery of a file (\<^verbatim>\<open>handlers/stream.go\<close>): the reader that serves the first and the last
  megabytes of a file from memory and the rest from the storage reader, and the task that fills that
  memory. It is a client of the storage reader: every read that misses goes through its model.
\<close>

record FileHeaders =
  fh_StartBytes :: "byte list"
  fh_EndBytes :: "byte list"
  fh_EndOffset :: int

definition no_headers :: FileHeaders where
  "no_headers = \<lparr>fh_StartBytes = [], fh_EndBytes = [], fh_EndOffset = 0\<rparr>"

record CachingReader =
  cr_reader :: ref
  cr_fileSize :: int
  cr_pos :: int

definition NewCachingReader :: "ref \<Rightarrow> int \<Rightarrow> CachingReader" where
  "NewCachingReader r fileSize = \<lparr>cr_reader = r, cr_fileSize = fileSize, cr_pos = 0\<rparr>"

definition CachingReader_Seek :: "int \<Rightarrow> int \<Rightarrow> CachingReader \<Rightarrow> CachingReader \<times> (go_error + int)" where
  "CachingReader_Seek offset whence cr =
     (if whence \<notin> {0, 1, 2} then (cr, Inl ErrInvalidWhence)
      else
        let newPos = wrap64 (if whence = 0 then offset
                             else if whence = 1 then cr_pos cr + offset else cr_fileSize cr + offset)
        in if newPos < 0 then (cr, Inl ErrNegativePosition) else (cr\<lparr>cr_pos := newPos\<rparr>, Inr newPos))"

text \<open>The two ranges a read can be served from, \<open>None\<close> when neither holds it.\<close>

definition from_headers :: "FileHeaders option \<Rightarrow> int \<Rightarrow> nat \<Rightarrow> byte list option" where
  "from_headers fh pos n =
     (case fh of
        None \<Rightarrow> None
      | Some h \<Rightarrow>
          if pos + int n \<le> int (length (fh_StartBytes h)) then Some (subslice (nat pos) n (fh_StartBytes h))
          else if fh_EndOffset h \<le> pos \<and> pos + int n \<le> fh_EndOffset h + int (length (fh_EndBytes h))
          then Some (subslice (nat (pos - fh_EndOffset h)) n (fh_EndBytes h))
          else None)"

definition CachingReader_Read ::
  "(ref \<Rightarrow> int) \<Rightarrow> io_faults \<Rightarrow> (world \<Rightarrow> world) list \<Rightarrow> wake_event list \<Rightarrow> time_ns \<Rightarrow> nat \<Rightarrow> FileHeaders option \<Rightarrow>
   CachingReader \<Rightarrow> world \<Rightarrow> (CachingReader \<times> world \<times> byte list \<times> go_error option) option"
where
  "CachingReader_Read tlen io gaps env now plen fh cr w =
     (let limit = cr_fileSize cr - cr_pos cr;
          n = (if limit < int plen then nat limit else plen)
      in if cr_fileSize cr \<le> cr_pos cr then Some (cr, w, [], Some ErrEOF)
         else if n = 0 then Some (cr, w, [], None)
         else
           case from_headers fh (cr_pos cr) n of
             Some bs \<Rightarrow> Some (cr\<lparr>cr_pos := cr_pos cr + int n\<rparr>, w, bs, None)
           | None \<Rightarrow>
               (case Reader_Seek (cr_reader cr) (cr_pos cr) 0 w of
                  (w1, Inl e) \<Rightarrow> Some (cr, w1, [], Some e)
                | (w1, Inr _) \<Rightarrow>
                    (case Reader_Read tlen io (cr_reader cr) gaps env now n w1 of
                       None \<Rightarrow> None
                     | Some (w2, bs, err) \<Rightarrow> Some (cr\<lparr>cr_pos := cr_pos cr + int (length bs)\<rparr>, w2, bs, err))))"

definition CachingReader_Close :: "CachingReader \<Rightarrow> world \<Rightarrow> world" where
  "CachingReader_Close cr w = Reader_Close (cr_reader cr) w"

interpretation crs: seekable CachingReader_Seek cr_pos cr_fileSize "\<lambda>cr. True"
  by unfold_locales (auto simp: CachingReader_Seek_def Let_def wrap64_id)

interpretation rds: seekable "Reader_Seek r" "\<lambda>w. r_pos (w_reader w r)" "\<lambda>w. r_fileSize (w_reader w r)"
    "\<lambda>w. \<not> r_closed (w_reader w r)" for r
  by unfold_locales (auto simp: Reader_Seek_def Let_def)

section \<open>Filling the headers\<close>

text \<open>\<^verbatim>\<open>io.ReadFull\<close> over the storage reader: each element of \<open>calls\<close> is what happens during one call.\<close>

fun ReadFull ::
  "(ref \<Rightarrow> int) \<Rightarrow> io_faults \<Rightarrow> ref \<Rightarrow> ((world \<Rightarrow> world) list \<times> wake_event list \<times> time_ns) list \<Rightarrow> nat \<Rightarrow> byte list \<Rightarrow>
   world \<Rightarrow> (world \<times> byte list \<times> go_error option) option"
where
  "ReadFull tlen io r calls len acc w =
     (if len \<le> length acc then Some (w, acc, None)
      else
        case calls of
          [] \<Rightarrow> None
        | (gaps, env, now) # calls' \<Rightarrow>
            (case Reader_Read tlen io r gaps env now (len - length acc) w of
               None \<Rightarrow> None
             | Some (w', bs, err) \<Rightarrow>
                 if len \<le> length (acc @ bs) then Some (w', acc @ bs, None)
                 else if err \<noteq> None then Some (w', acc @ bs, err)
                 else ReadFull tlen io r calls' len (acc @ bs) w'))"

declare ReadFull.simps [simp del]

definition headerBytes :: int where
  "headerBytes = 8 * 1024 * 1024"

definition store_start :: "byte list \<Rightarrow> FileHeaders \<Rightarrow> FileHeaders" where
  "store_start buf h =
     (if 0 < length buf \<and> length (fh_StartBytes h) < length buf then h\<lparr>fh_StartBytes := buf\<rparr> else h)"

definition store_end :: "int \<Rightarrow> byte list \<Rightarrow> FileHeaders \<Rightarrow> FileHeaders" where
  "store_end endMin buf h =
     (if 0 < length buf \<and> length (fh_EndBytes h) < length buf then h\<lparr>fh_EndOffset := endMin, fh_EndBytes := buf\<rparr> else h)"

text \<open>
  \<^verbatim>\<open>preloadHeadersToCache\<close>: \<open>start_read\<close> and \<open>end_read\<close> are the bytes the two reads returned before they were
  complete or failed; \<open>between\<close> is what other calls did to the shared headers meanwhile.
\<close>

definition preloadHeadersToCache ::
  "int \<Rightarrow> byte list \<Rightarrow> byte list \<Rightarrow> (FileHeaders \<Rightarrow> FileHeaders) \<Rightarrow> FileHeaders \<Rightarrow> FileHeaders"
where
  "preloadHeadersToCache fileSize start_read end_read between h =
     (let startMax = (if fileSize < headerBytes then fileSize else headerBytes);
          endMin = (if fileSize - headerBytes < 0 then 0 else fileSize - headerBytes);
          hasStart = (startMax \<le> int (length (fh_StartBytes h)));
          hasEnd = (fileSize \<le> endMin \<or> fileSize - endMin \<le> int (length (fh_EndBytes h)))
      in if hasStart \<and> hasEnd then h
         else
           let h1 = (if hasStart then between h else store_start start_read (between h))
           in if hasEnd then h1 else store_end endMin end_read (between h1))"

section \<open>The headers are the file's bytes\<close>

definition headers_ok :: "byte list \<Rightarrow> FileHeaders \<Rightarrow> bool" where
  "headers_ok data h \<longleftrightarrow>
     length (fh_StartBytes h) \<le> length data \<and> fh_StartBytes h = subslice 0 (length (fh_StartBytes h)) data \<and>
     (fh_EndBytes h = [] \<or>
      0 \<le> fh_EndOffset h \<and> nat (fh_EndOffset h) + length (fh_EndBytes h) \<le> length data \<and>
      fh_EndBytes h = subslice (nat (fh_EndOffset h)) (length (fh_EndBytes h)) data)"

lemma headers_ok_empty: "headers_ok data no_headers"
  by (simp add: headers_ok_def no_headers_def subslice_def)

lemma headers_ok_preload:
  assumes "headers_ok data h" "fileSize = int (length data)" "\<And>g. headers_ok data g \<Longrightarrow> headers_ok data (between g)"
    and "length a \<le> length data" "a = subslice 0 (length a) data"
    and "endMin = (if fileSize - headerBytes < 0 then 0 else fileSize - headerBytes)"
    and "nat endMin + length b \<le> length data" "b = subslice (nat endMin) (length b) data"
  shows "headers_ok data (preloadHeadersToCache fileSize a b between h)"
proof -
  have st: "headers_ok data (store_start a g)" if "headers_ok data g" for g
    using that assms(4,5) by (auto simp: headers_ok_def store_start_def)
  have en: "headers_ok data (store_end endMin b g)" if "headers_ok data g" for g
    using that assms(6-8) by (auto simp: headers_ok_def store_end_def)
  show ?thesis
    unfolding preloadHeadersToCache_def Let_def assms(6) [symmetric] using assms(1,3) st en by simp
qed

lemma from_headers_bytes:
  assumes "\<And>h. fh = Some h \<Longrightarrow> headers_ok data h" "from_headers fh (int pos) n = Some bs" "0 < n" "pos + n \<le> length data"
  shows "bs = subslice pos n data"
proof -
  obtain h where h: "fh = Some h" using assms(2) by (cases fh) (simp_all add: from_headers_def)
  have ok: "headers_ok data h" using assms(1) h by simp
  show ?thesis
  proof (cases "int pos + int n \<le> int (length (fh_StartBytes h))")
    case True
    then have "bs = subslice pos n (fh_StartBytes h)" using assms(2) h by (simp add: from_headers_def)
    moreover have "fh_StartBytes h = subslice 0 (length (fh_StartBytes h)) data" using ok by (simp add: headers_ok_def)
    ultimately have "bs = subslice pos n (subslice 0 (length (fh_StartBytes h)) data)" by simp
    then show ?thesis using subslice_subslice [of pos n "length (fh_StartBytes h)" 0 data] True by simp
  next
    case False
    let ?o = "nat (fh_EndOffset h)" and ?l = "length (fh_EndBytes h)"
    have e: "fh_EndOffset h \<le> int pos" "int pos + int n \<le> fh_EndOffset h + int ?l"
      and bs: "bs = subslice (nat (int pos - fh_EndOffset h)) n (fh_EndBytes h)"
      using assms(2) h False by (simp_all add: from_headers_def split: if_splits)
    then have "fh_EndBytes h \<noteq> []" using assms(3) by auto
    then have k: "0 \<le> fh_EndOffset h" "fh_EndBytes h = subslice ?o ?l data" using ok by (auto simp: headers_ok_def)
    have "bs = subslice (pos - ?o) n (subslice ?o ?l data)"
      using bs k(2) nat_diff_distrib [OF k(1) e(1)] by simp
    moreover have "pos - ?o + n \<le> ?l" "?o \<le> pos" using e k(1) by auto
    ultimately show ?thesis using subslice_subslice [of "pos - ?o" n ?l ?o data] by simp
  qed
qed

text \<open>What \<^verbatim>\<open>ReadFull\<close> returns is a prefix of the file from the reader's position.\<close>

lemma ReadFull_bytes:
  assumes "job_ok tlen J" "serves J own w" "\<not> r_closed (w_reader w (j_r J))"
    and "r_pos (w_reader w (j_r J)) = int pos" "pos < j_fs J" "0 < len" "len \<le> j_fs J - pos"
    and "\<forall>(gaps, env, now) \<in> set calls. (\<forall>e \<in> set env. keeps J (ev_run e)) \<and> (\<forall>g \<in> set gaps. gap_ok J g)"
    and "ReadFull tlen io (j_r J) calls len [] w = Some (w', bs, err)"
  shows "bs = subslice (j_fo J + pos) (length bs) (j_src J) \<and> length bs \<le> len"
proof -
  obtain gaps env now rest where calls: "calls = (gaps, env, now) # rest"
    using assms(6,9) by (subst (asm) ReadFull.simps) (auto split: list.splits if_splits)
  obtain w1 cs er where rd: "Reader_Read tlen io (j_r J) gaps env now len w = Some (w1, cs, er)"
    using assms(6,9) calls by (subst (asm) ReadFull.simps) (auto split: option.splits)
  have b: "cs = subslice (j_fo J + pos) (length cs) (j_src J) \<and> length cs \<le> min len (j_fs J - pos) \<and>
      (er = None \<longrightarrow> length cs = min len (j_fs J - pos) \<and> r_pos (w_reader w1 (j_r J)) = int (pos + length cs)) \<and>
      (\<forall>e. er = Some e \<longrightarrow> e \<in> {ErrReaderClosed, ErrReaderClosedDuringRead, ErrContext, ErrWaitTimeout, ErrDeadlineExceeded})"
    using assms(8) calls by (intro Reader_Read_bytes [OF assms(1,2) _ _ assms(3,4,5,6) rd]) auto
  have "len \<le> length cs \<or> er \<noteq> None" using b assms(7) by auto
  then have "bs = cs" using assms(6,9) calls rd by (subst (asm) ReadFull.simps) (auto split: if_splits)
  with b show ?thesis by auto
qed

section \<open>Reads through the cache\<close>

lemma Reader_Seek_serves:
  assumes "serves J own w" "\<not> r_closed (w_reader w (j_r J))" "0 \<le> p"
  shows "\<exists>w'. Reader_Seek (j_r J) p 0 w = (w', Inr p) \<and> serves J own w' \<and> \<not> r_closed (w_reader w' (j_r J)) \<and>
    r_pos (w_reader w' (j_r J)) = p"
  using assms by (auto simp: Reader_Seek_def Let_def intro: serves_frame)

text \<open>
  C22. A read through the header cache returns the file's bytes from its position, however often the
  headers were preloaded before, concurrently or not, and whatever happens while the storage reader
  waits: without an error it fills the buffer or reads to the end of the file, and the position moves by
  what was returned, also when the read stops with an error.
\<close>

theorem caching_reader_serves_file_bytes:
  assumes "job_ok tlen J" "serves J own w" "data = subslice (j_fo J) (j_fs J) (j_src J)"
    and "\<forall>h. fh = Some h \<longrightarrow> headers_ok data h"
    and "\<forall>e \<in> set env. keeps J (ev_run e)" "\<forall>g \<in> set gaps. gap_ok J g" "\<not> r_closed (w_reader w (j_r J))"
    and "cr = \<lparr>cr_reader = j_r J, cr_fileSize = int (j_fs J), cr_pos = int pos\<rparr>" "pos < j_fs J" "0 < plen"
    and "CachingReader_Read tlen io gaps env now plen fh cr w = Some (cr', w', bs, err)"
  shows "bs = subslice pos (length bs) data \<and> length bs \<le> min plen (j_fs J - pos) \<and>
    cr_pos cr' = int (pos + length bs) \<and> (err = None \<longrightarrow> length bs = min plen (j_fs J - pos))"
proof -
  let ?n = "min plen (j_fs J - pos)"
  have n: "(if int (j_fs J) - int pos < int plen then nat (int (j_fs J) - int pos) else plen) = ?n" "0 < ?n" "pos + ?n \<le> j_fs J"
    using assms(9,10) by (auto simp: min_def)
  have len: "length data = j_fs J" using assms(1,3) by (simp add: job_ok_def)
  show ?thesis
  proof (cases "from_headers fh (int pos) ?n")
    case (Some hs)
    then have r: "bs = hs" "err = None" "cr_pos cr' = int pos + int ?n"
      using assms(8-11) n by (auto simp: CachingReader_Read_def Let_def split: if_splits)
    have "hs = subslice pos ?n data" using assms(4) Some n len by (intro from_headers_bytes) auto
    with r n len show ?thesis by simp
  next
    case None
    obtain w1 where s: "Reader_Seek (j_r J) (int pos) 0 w = (w1, Inr (int pos))" "serves J own w1"
        "\<not> r_closed (w_reader w1 (j_r J))" "r_pos (w_reader w1 (j_r J)) = int pos"
      using Reader_Seek_serves [OF assms(2,7), of "int pos"] by auto
    obtain w2 where rd: "Reader_Read tlen io (j_r J) gaps env now ?n w1 = Some (w2, bs, err)"
        and c: "cr_pos cr' = int pos + int (length bs)"
      using assms(8-11) n None s(1) by (auto simp: CachingReader_Read_def Let_def split: if_splits option.splits)
    from Reader_Read_bytes [OF assms(1) s(2) assms(5,6) s(3,4) assms(9) n(2) rd]
    have b: "bs = subslice (j_fo J + pos) (length bs) (j_src J)" "length bs \<le> ?n" "err = None \<longrightarrow> length bs = ?n" by auto
    have "subslice pos (length bs) data = subslice (j_fo J + pos) (length bs) (j_src J)"
      unfolding assms(3) using b(2) assms(9) by (intro subslice_subslice) linarith
    with b c show ?thesis by simp
  qed
qed

theorem caching_reader_serves_file_bytes_witness:
  "\<exists>cr' w' bs. CachingReader_Read (\<lambda>_. 6) no_faults [] [] 9 2
       (Some (preloadHeadersToCache 6 [1, 2, 3] [1, 2, 3, 4, 5, 6] (\<lambda>h. h) no_headers))
       \<lparr>cr_reader = 0, cr_fileSize = 6, cr_pos = 3\<rparr> demo_reader = Some (cr', w', bs, None) \<and>
     bs = [4, 5] \<and> cr_pos cr' = 5"
proof -
  let ?h = "\<lparr>fh_StartBytes = [1, 2, 3], fh_EndBytes = [1, 2, 3, 4, 5, 6], fh_EndOffset = 0\<rparr>"
  let ?cr = "\<lparr>cr_reader = 0, cr_fileSize = 6, cr_pos = 3\<rparr>"
  have j: "j_r demo_job = 0" "j_fs demo_job = 6" "j_fo demo_job = 0" "j_src demo_job = [1, 2, 3, 4, 5, 6]"
    by (simp_all add: demo_job_def)
  have h: "preloadHeadersToCache 6 [1, 2, 3] [1, 2, 3, 4, 5, 6] (\<lambda>h. h) no_headers = ?h"
    by (simp add: preloadHeadersToCache_def headerBytes_def no_headers_def store_start_def store_end_def Let_def)
  have d: "subslice 0 6 [1, 2, 3, 4, 5, 6] = [1, 2, 3, 4, 5, 6 :: byte]" by (simp add: subslice_def)
  have ok: "headers_ok [1, 2, 3, 4, 5, 6] ?h" by (simp add: headers_ok_def subslice_def)
  have r: "CachingReader_Read (\<lambda>_. 6) no_faults [] [] 9 2 (Some ?h) ?cr demo_reader =
      Some (?cr\<lparr>cr_pos := 5\<rparr>, demo_reader, [4, 5], None)"
    by (simp add: CachingReader_Read_def from_headers_def subslice_def Let_def)
  have "[4, 5] = subslice 3 (length [4, 5 :: byte]) [1, 2, 3, 4, 5, 6 :: byte] \<and> length [4, 5 :: byte] \<le> min 2 (j_fs demo_job - 3) \<and>
      cr_pos (?cr\<lparr>cr_pos := 5\<rparr>) = int (3 + length [4, 5 :: byte]) \<and> ((None :: go_error option) = None \<longrightarrow> length [4, 5 :: byte] = min 2 (j_fs demo_job - 3))"
    by (rule caching_reader_serves_file_bytes [OF demo_job_ok demo_serves _ _ _ _ _ _ _ _ r])
      (simp_all add: j d ok demo_reader_sel)
  with r h show ?thesis by simp
qed

end
