(* ===== verification/HlsRoutes.thy ===== *)
theory HlsRoutes
  imports HlsIndex MediaCaches "HOL-Library.Sublist"
begin

text \<open>
  The HLS surface (\<^verbatim>\<open>handlers/hls.go\<close>) and the external tracks of a release (\<^verbatim>\<open>handlers/external.go\<close>): which
  artifact a path names, the playlists, the names of the audio tracks, and the segment cache in front of
  the producers. A playlist is modelled by its entries; the decimal rendering of the durations is left
  out. What a producer returns is an argument.
\<close>

section \<open>Paths\<close>

fun split_on :: "char \<Rightarrow> string \<Rightarrow> string list" where
  "split_on c [] = [[]]"
| "split_on c (x # xs) =
     (if x = c then [] # split_on c xs
      else case split_on c xs of [] \<Rightarrow> [[x]] | p # ps \<Rightarrow> (x # p) # ps)"

definition TrimPrefix :: "string \<Rightarrow> string \<Rightarrow> string" where
  "TrimPrefix s p = (if prefix p s then drop (length p) s else s)"

definition TrimSuffix :: "string \<Rightarrow> string \<Rightarrow> string" where
  "TrimSuffix s p = (if suffix p s then take (length s - length p) s else s)"

definition parseSeg :: "string \<Rightarrow> string \<Rightarrow> int option" where
  "parseSeg leaf ext =
     (if \<not> prefix ''seg'' leaf \<or> \<not> suffix (CHR ''.'' # ext) leaf then None
      else Atoi (TrimSuffix (TrimPrefix leaf ''seg'') (CHR ''.'' # ext)))"

datatype hls_route =
    RouteMaster
  | RouteVideo string
  | RouteAudio int string
  | RouteSub int string
  | RouteExternal int int string
  | RouteNotFound

definition HandleHls :: "string \<Rightarrow> hls_route" where
  "HandleHls rest =
     (let parts = split_on (CHR ''/'') rest
      in if rest = ''master.m3u8'' then RouteMaster
         else if length parts = 2 \<and> parts ! 0 = ''v'' then RouteVideo (parts ! 1)
         else if length parts = 3 \<and> parts ! 0 = ''a''
         then (case Atoi (parts ! 1) of Some rel \<Rightarrow> RouteAudio rel (parts ! 2) | None \<Rightarrow> RouteNotFound)
         else if length parts = 3 \<and> parts ! 0 = ''s''
         then (case Atoi (parts ! 1) of Some rel \<Rightarrow> RouteSub rel (parts ! 2) | None \<Rightarrow> RouteNotFound)
         else if length parts = 4 \<and> parts ! 0 = ''xa''
         then (case Atoi (parts ! 1) of
                 Some extIdx \<Rightarrow>
                   if 1 \<le> extIdx
                   then (case Atoi (parts ! 2) of Some rel \<Rightarrow> RouteExternal extIdx rel (parts ! 3) | None \<Rightarrow> RouteNotFound)
                   else RouteNotFound
               | None \<Rightarrow> RouteNotFound)
         else RouteNotFound)"

text \<open>The artifact a leaf names on a grid of \<open>n\<close> segments, with or without an init segment.\<close>

datatype artifact = Playlist | InitSeg | MediaSeg nat | NoArtifact

definition av_leaf :: "nat \<Rightarrow> string \<Rightarrow> artifact" where
  "av_leaf n leaf =
     (if leaf = ''index.m3u8'' then Playlist
      else if leaf = ''init.mp4'' then InitSeg
      else case parseSeg leaf ''m4s'' of
             Some k \<Rightarrow> if 0 \<le> k \<and> k < int n then MediaSeg (nat k) else NoArtifact
           | None \<Rightarrow> NoArtifact)"

definition sub_leaf :: "nat \<Rightarrow> string \<Rightarrow> artifact" where
  "sub_leaf n leaf =
     (if leaf = ''index.m3u8'' then Playlist
      else case parseSeg leaf ''vtt'' of
             Some k \<Rightarrow> if 0 \<le> k \<and> k < int n then MediaSeg (nat k) else NoArtifact
           | None \<Rightarrow> NoArtifact)"

section \<open>Media playlists\<close>

record media_playlist =
  mpl_target :: int
  mpl_map :: "string option"
  mpl_segs :: "(rat \<times> string) list"

definition seg_name :: "nat \<Rightarrow> string \<Rightarrow> string" where
  "seg_name i ext = ''seg'' @ Itoa (int i) @ CHR ''.'' # ext"

definition renderMediaPlaylist :: "segList \<Rightarrow> string \<Rightarrow> string \<Rightarrow> media_playlist" where
  "renderMediaPlaylist sl mapURI segExt =
     (let maxDur = fold (\<lambda>i m. let d = extinf sl (int i) in if m < d then d else m) [0..<sl_count sl] 0
      in \<lparr>mpl_target = \<lceil>maxDur\<rceil>, mpl_map = (if mapURI = '''' then None else Some mapURI),
          mpl_segs = map (\<lambda>i. (extinf sl (int i), seg_name i segExt)) [0..<sl_count sl]\<rparr>)"

section \<open>Serving through the cache\<close>

datatype hls_response = Served "byte list" | SegmentFailed | ClientGone

text \<open>\<^verbatim>\<open>serveProduced\<close>: what the producer returns, \<open>None\<close> for an error, and whether the client left.\<close>

definition serveProduced :: "string \<Rightarrow> byte list option \<Rightarrow> bool \<Rightarrow> seg_cache \<Rightarrow> seg_cache \<times> hls_response" where
  "serveProduced key produced gone c =
     (case seg_get key c of
        (c1, Some d) \<Rightarrow> (c1, Served d)
      | (c1, None) \<Rightarrow>
          (case produced of
             None \<Rightarrow> (c1, if gone then ClientGone else SegmentFailed)
           | Some d \<Rightarrow> (seg_put key d c1, Served d)))"

definition video_seg_key :: "string \<Rightarrow> string \<Rightarrow> nat \<Rightarrow> string" where
  "video_seg_key hash fidx n = hash @ ''_'' @ fidx @ ''_v_'' @ Itoa (int n)"

definition audio_seg_key :: "string \<Rightarrow> string \<Rightarrow> int \<Rightarrow> nat \<Rightarrow> string" where
  "audio_seg_key hash fidx rel n = hash @ ''_'' @ fidx @ ''_a'' @ Itoa rel @ ''_'' @ Itoa (int n)"

definition sub_seg_key :: "string \<Rightarrow> string \<Rightarrow> int \<Rightarrow> nat \<Rightarrow> string" where
  "sub_seg_key hash fidx rel n = hash @ ''_'' @ fidx @ ''_s'' @ Itoa rel @ ''_'' @ Itoa (int n)"

definition external_seg_key :: "string \<Rightarrow> int \<Rightarrow> int \<Rightarrow> nat \<Rightarrow> string" where
  "external_seg_key hash extIdx rel n = hash @ ''_xa'' @ Itoa extIdx @ ''_a'' @ Itoa rel @ ''_'' @ Itoa (int n)"

text \<open>
  The handlers of the renditions: the segment list of the video file, the artifact, and for a segment
  or an init the cache. \<open>produce\<close> gives the bytes of the init or of a segment of that list.
\<close>

datatype rendition_answer = Unavailable | NotFound404 | PlaylistAnswer media_playlist | Artifact hls_response

definition serveVideoRendition ::
  "string \<Rightarrow> string \<Rightarrow> string \<Rightarrow> segList option \<Rightarrow> (segList \<Rightarrow> nat option \<Rightarrow> byte list option) \<Rightarrow> bool \<Rightarrow> seg_cache \<Rightarrow>
   seg_cache \<times> rendition_answer"
where
  "serveVideoRendition hash fidx leaf slo produce gone c =
     (case slo of
        None \<Rightarrow> (c, Unavailable)
      | Some sl \<Rightarrow>
          (case av_leaf (sl_count sl) leaf of
             Playlist \<Rightarrow> (c, PlaylistAnswer (renderMediaPlaylist sl ''init.mp4'' ''m4s''))
           | InitSeg \<Rightarrow> apsnd Artifact (serveProduced (hash @ ''_'' @ fidx @ ''_v_init'') (produce sl None) gone c)
           | MediaSeg n \<Rightarrow> apsnd Artifact (serveProduced (video_seg_key hash fidx n) (produce sl (Some n)) gone c)
           | NoArtifact \<Rightarrow> (c, NotFound404)))"

definition serveAudioRendition ::
  "string \<Rightarrow> string \<Rightarrow> int \<Rightarrow> string \<Rightarrow> segList option \<Rightarrow> (segList \<Rightarrow> nat option \<Rightarrow> byte list option) \<Rightarrow> bool \<Rightarrow> seg_cache \<Rightarrow>
   seg_cache \<times> rendition_answer"
where
  "serveAudioRendition hash fidx rel leaf slo produce gone c =
     (case slo of
        None \<Rightarrow> (c, Unavailable)
      | Some sl \<Rightarrow>
          (case av_leaf (sl_count sl) leaf of
             Playlist \<Rightarrow> (c, PlaylistAnswer (renderMediaPlaylist sl ''init.mp4'' ''m4s''))
           | InitSeg \<Rightarrow>
               apsnd Artifact (serveProduced (hash @ ''_'' @ fidx @ ''_a'' @ Itoa rel @ ''_init'') (produce sl None) gone c)
           | MediaSeg n \<Rightarrow> apsnd Artifact (serveProduced (audio_seg_key hash fidx rel n) (produce sl (Some n)) gone c)
           | NoArtifact \<Rightarrow> (c, NotFound404)))"

definition serveSubRendition ::
  "string \<Rightarrow> string \<Rightarrow> int \<Rightarrow> string \<Rightarrow> segList option \<Rightarrow> (segList \<Rightarrow> nat option \<Rightarrow> byte list option) \<Rightarrow> bool \<Rightarrow> seg_cache \<Rightarrow>
   seg_cache \<times> rendition_answer"
where
  "serveSubRendition hash fidx rel leaf slo produce gone c =
     (case slo of
        None \<Rightarrow> (c, Unavailable)
      | Some sl \<Rightarrow>
          (case sub_leaf (sl_count sl) leaf of
             Playlist \<Rightarrow> (c, PlaylistAnswer (renderMediaPlaylist sl '''' ''vtt''))
           | MediaSeg n \<Rightarrow> apsnd Artifact (serveProduced (sub_seg_key hash fidx rel n) (produce sl (Some n)) gone c)
           | _ \<Rightarrow> (c, NotFound404)))"

definition serveExternalAudioRendition ::
  "string \<Rightarrow> int \<Rightarrow> int \<Rightarrow> string \<Rightarrow> segList option \<Rightarrow> (segList \<Rightarrow> nat option \<Rightarrow> byte list option) \<Rightarrow> bool \<Rightarrow> seg_cache \<Rightarrow>
   seg_cache \<times> rendition_answer"
where
  "serveExternalAudioRendition hash extIdx rel leaf slo produce gone c =
     (case slo of
        None \<Rightarrow> (c, Unavailable)
      | Some sl \<Rightarrow>
          (case av_leaf (sl_count sl) leaf of
             Playlist \<Rightarrow> (c, PlaylistAnswer (renderMediaPlaylist sl ''init.mp4'' ''m4s''))
           | InitSeg \<Rightarrow>
               apsnd Artifact (serveProduced (hash @ ''_xa'' @ Itoa extIdx @ ''_a'' @ Itoa rel @ ''_init'') (produce sl None) gone c)
           | MediaSeg n \<Rightarrow> apsnd Artifact (serveProduced (external_seg_key hash extIdx rel n) (produce sl (Some n)) gone c)
           | NoArtifact \<Rightarrow> (c, NotFound404)))"

section \<open>Playlist entries resolve\<close>

lemma dec_nat_digits: "c \<in> set (dec_nat n) \<Longrightarrow> digit_val c \<noteq> None"
proof (induction n rule: dec_nat.induct)
  case (1 n)
  then show ?case by (cases "n < 10"; subst (asm) (2) dec_nat.simps) (auto simp: digit_val_char)
qed

lemma Itoa_no_slash: "CHR ''/'' \<notin> set (Itoa n)"
proof -
  have "digit_val (CHR ''/'') = None" by (simp add: digit_val_def)
  then show ?thesis using dec_nat_digits [of "CHR ''/''"] by (auto simp: Itoa_def)
qed

lemma split_on_none: "c \<notin> set xs \<Longrightarrow> split_on c xs = [xs]"
  by (induction xs) auto

lemma split_on_append: "c \<notin> set xs \<Longrightarrow> split_on c (xs @ c # ys) = xs # split_on c ys"
  by (induction xs) auto

lemma parseSeg_name:
  assumes "in_int64 (int i)"
  shows "parseSeg (seg_name i ext) ext = Some (int i)"
proof -
  have "suffix (CHR ''.'' # ext) (seg_name i ext)" by (simp add: seg_name_def suffix_def)
  moreover have "TrimPrefix (seg_name i ext) ''seg'' = Itoa (int i) @ CHR ''.'' # ext" by (simp add: TrimPrefix_def seg_name_def)
  moreover have "TrimSuffix (Itoa (int i) @ CHR ''.'' # ext) (CHR ''.'' # ext) = Itoa (int i)"
    by (simp add: TrimSuffix_def suffix_def)
  ultimately show ?thesis using assms by (simp add: parseSeg_def Atoi_Itoa) (simp add: seg_name_def)
qed

lemma seg_leaf:
  assumes "i < n" "int n < 2 ^ 63"
  shows "av_leaf n (seg_name i ''m4s'') = MediaSeg i" "sub_leaf n (seg_name i ''vtt'') = MediaSeg i"
proof -
  have "in_int64 (int i)" using assms by (simp add: in_int64_def)
  then have "parseSeg (seg_name i ext) ext = Some (int i)" for ext by (rule parseSeg_name)
  moreover have "seg_name i ext \<noteq> ''index.m3u8''" "seg_name i ext \<noteq> ''init.mp4''" for ext by (simp_all add: seg_name_def)
  ultimately show "av_leaf n (seg_name i ''m4s'') = MediaSeg i" "sub_leaf n (seg_name i ''vtt'') = MediaSeg i"
    using assms(1) by (simp_all add: av_leaf_def sub_leaf_def)
qed

lemma seg_routes:
  assumes "in_int64 rel" "CHR ''/'' \<notin> set ext"
  shows "HandleHls (''v/'' @ seg_name i ext) = RouteVideo (seg_name i ext)"
    "HandleHls (''a/'' @ Itoa rel @ CHR ''/'' # seg_name i ext) = RouteAudio rel (seg_name i ext)"
    "HandleHls (''s/'' @ Itoa rel @ CHR ''/'' # seg_name i ext) = RouteSub rel (seg_name i ext)"
proof -
  have n: "split_on (CHR ''/'') (seg_name i ext) = [seg_name i ext]"
    using Itoa_no_slash [of "int i"] assms(2) by (intro split_on_none) (auto simp: seg_name_def)
  have r: "split_on (CHR ''/'') (Itoa rel @ CHR ''/'' # seg_name i ext) = [Itoa rel, seg_name i ext]"
    using n by (simp add: split_on_append Itoa_no_slash)
  show "HandleHls (''v/'' @ seg_name i ext) = RouteVideo (seg_name i ext)"
    "HandleHls (''a/'' @ Itoa rel @ CHR ''/'' # seg_name i ext) = RouteAudio rel (seg_name i ext)"
    "HandleHls (''s/'' @ Itoa rel @ CHR ''/'' # seg_name i ext) = RouteSub rel (seg_name i ext)"
    by (simp_all add: HandleHls_def n r Atoi_Itoa [OF assms(1)])
qed

lemma fold_max_bound:
  "m \<le> fold (\<lambda>i m. let d = f i in if m < d then d else m) xs m \<and>
   (\<forall>i \<in> set xs. f i \<le> fold (\<lambda>i m. let d = f i in if m < d then d else m) xs m)" for f :: "'a \<Rightarrow> rat"
proof (induction xs arbitrary: m)
  case (Cons x xs)
  from Cons.IH [of "let d = f x in if m < d then d else m"] show ?case by (auto simp: Let_def split: if_splits)
qed simp

lemma target_bounds:
  "i < sl_count sl \<Longrightarrow> extinf sl (int i) \<le> of_int (mpl_target (renderMediaPlaylist sl mapURI ext))"
proof -
  assume i: "i < sl_count sl"
  let ?m = "fold (\<lambda>i m. let d = extinf sl (int i) in if m < d then d else m) [0..<sl_count sl] 0"
  have "extinf sl (int i) \<le> ?m" using fold_max_bound [of 0 "\<lambda>i. extinf sl (int i)" "[0..<sl_count sl]"] i by simp
  also have "?m \<le> of_int \<lceil>?m\<rceil>" by (rule le_of_int_ceiling)
  finally show ?thesis by (simp add: renderMediaPlaylist_def Let_def)
qed



section \<open>External audio\<close>

lemma serveProduced_repeat:
  assumes "seg_inv c" "seg_look c key = None" "serveProduced key (Some d) g c = (c1, r)"
  shows "r = Served d" "snd (serveProduced key p g' c1) = Served d"
proof -
  obtain c0 where g0: "seg_get key c = (c0, None)" "seg_inv c0"
    using seg_get_look(2) [OF assms(1), of key] seg_get_inv [OF assms(1), of key] assms(2) by (cases "seg_get key c") simp
  with assms(3) have c1: "c1 = seg_put key d c0" "r = Served d" by (simp_all add: serveProduced_def)
  have "snd (seg_get key c1) = Some d"
    using seg_get_look(2) [OF seg_put_inv [OF g0(2)]] seg_put_look [OF g0(2)] c1(1) by simp
  then show "r = Served d" "snd (serveProduced key p g' c1) = Served d"
    using c1(2) by (cases "seg_get key c1"; simp add: serveProduced_def)+
qed

text \<open>
  The cached segments of an external audio file do not say for which video they were cut: the key
  has no video file in it, while the window of a segment comes from the grid of the video. After one
  video has been served segment \<open>n\<close>, another video with a different grid is served those same bytes
  for its own segment \<open>n\<close>, whatever the producer would give for it.
\<close>

theorem external_audio_ignores_video:
  assumes "seg_inv c" "seg_look c (external_seg_key hash extIdx rel n) = None"
    and "av_leaf (sl_count sl1) leaf = MediaSeg n" "av_leaf (sl_count sl2) leaf = MediaSeg n"
    and "produce sl1 (Some n) = Some d"
    and "serveExternalAudioRendition hash extIdx rel leaf (Some sl1) produce False c = (c1, a1)"
  shows "a1 = Artifact (Served d) \<and>
    snd (serveExternalAudioRendition hash extIdx rel leaf (Some sl2) produce False c1) = Artifact (Served d)"
proof -
  let ?k = "external_seg_key hash extIdx rel n"
  obtain r where r: "serveProduced ?k (Some d) False c = (c1, r)" "a1 = Artifact r"
    using assms(3,5,6) by (auto simp: serveExternalAudioRendition_def apsnd_def map_prod_def split: prod.splits)
  show ?thesis
    using serveProduced_repeat [OF assms(1,2) r(1)] r(2) assms(4)
    by (simp add: serveExternalAudioRendition_def)
qed

theorem external_audio_ignores_video_witness:
  "let sl1 = \<lparr>sl_contentStarts = [0, 6], sl_contentEnd = 12, sl_base = 0, sl_transcode = True\<rparr>;
       sl2 = \<lparr>sl_contentStarts = [0, 9], sl_contentEnd = 12, sl_base = 0, sl_transcode = False\<rparr>;
       produce = (\<lambda>sl n. Some [of_int \<lfloor>srcStart sl 1\<rfloor>])
   in \<exists>c1 a1. serveExternalAudioRendition ''h'' 7 0 ''seg1.m4s'' (Some sl1) produce False (new_seg_cache 100) = (c1, a1) \<and>
     snd (serveExternalAudioRendition ''h'' 7 0 ''seg1.m4s'' (Some sl2) produce False c1) = Artifact (Served [6])"
proof -
  let ?sl1 = "\<lparr>sl_contentStarts = [0, 6], sl_contentEnd = 12, sl_base = 0, sl_transcode = True\<rparr>"
  let ?sl2 = "\<lparr>sl_contentStarts = [0, 9], sl_contentEnd = 12, sl_base = 0, sl_transcode = False\<rparr>"
  let ?p = "\<lambda>sl (n :: nat option). Some [of_int \<lfloor>srcStart sl 1\<rfloor> :: byte]"
  obtain c1 a1 where r: "serveExternalAudioRendition ''h'' 7 0 ''seg1.m4s'' (Some ?sl1) ?p False (new_seg_cache 100) = (c1, a1)"
    by fastforce
  have "Itoa 1 = ''1''" by code_simp
  then have "seg_name 1 ''m4s'' = ''seg1.m4s''" by (simp add: seg_name_def)
  then have l: "av_leaf (sl_count ?sl1) ''seg1.m4s'' = MediaSeg 1" "av_leaf (sl_count ?sl2) ''seg1.m4s'' = MediaSeg 1"
    using seg_leaf(1) [of 1 2] by (simp_all add: sl_count_def numeral_2_eq_2)
  have "seg_look (new_seg_cache 100) k = None" for k by (simp add: seg_look_def new_seg_cache_def)
  then have "a1 = Artifact (Served [6]) \<and>
      snd (serveExternalAudioRendition ''h'' 7 0 ''seg1.m4s'' (Some ?sl2) ?p False c1) = Artifact (Served [6])"
    by (intro external_audio_ignores_video [OF seg_inv_new _ l _ r]) (simp_all add: srcStart_def)
  with r show ?thesis unfolding Let_def by (intro exI [of _ c1] exI [of _ a1]) simp
qed

end
