(* ===== verification/MasterPlaylist.thy ===== *)
theory MasterPlaylist
  imports HlsRoutes
begin

text \<open>
  The multivariant playlist (\<^verbatim>\<open>serveMasterPlaylist\<close> of \<^verbatim>\<open>handlers/hls.go\<close>) and the external tracks it lists
  (\<^verbatim>\<open>handlers/external.go\<close>). The metadata of the file and the paths of the torrent are arguments; the
  conversion of SubRip text is third-party. Entries are modelled by their attributes.
\<close>

section \<open>Text helpers\<close>

definition trim_set :: "char set \<Rightarrow> string \<Rightarrow> string" where
  "trim_set cs s = rev (dropWhile (\<lambda>c. c \<in> cs) (rev (dropWhile (\<lambda>c. c \<in> cs) s)))"

fun fields_loop :: "string \<Rightarrow> string \<Rightarrow> string list" where
  "fields_loop cur [] = (if cur = [] then [] else [rev cur])"
| "fields_loop cur (c # cs) =
     (if is_space c then (if cur = [] then fields_loop [] cs else rev cur # fields_loop [] cs)
      else fields_loop (c # cur) cs)"

fun join :: "string \<Rightarrow> string list \<Rightarrow> string" where
  "join sep [] = []"
| "join sep [x] = x"
| "join sep (x # y # xs) = x @ sep @ join sep (y # xs)"

text \<open>\<^verbatim>\<open>path.Ext\<close> of a name without slashes: from the last dot on.\<close>

definition path_Ext :: "string \<Rightarrow> string" where
  "path_Ext s =
     (if CHR ''.'' \<in> set s then CHR ''.'' # rev (takeWhile (\<lambda>c. c \<noteq> CHR ''.'') (rev s)) else [])"

section \<open>External tracks\<close>

fun index_loop :: "string list \<Rightarrow> int list \<Rightarrow> int list" where
  "index_loop [] out = out"
| "index_loop (part # parts) out =
     (case Atoi (TrimSpace part) of
        None \<Rightarrow> index_loop parts out
      | Some n \<Rightarrow> if n < 1 \<or> n \<in> set out then index_loop parts out else index_loop parts (out @ [n]))"

definition parseIndexList :: "string \<Rightarrow> int list" where
  "parseIndexList s = (if s = '''' then [] else index_loop (split_on (CHR '','') s) [])"

definition cleanExternalLabel :: "string \<Rightarrow> string" where
  "cleanExternalLabel s =
     (let r = join '' '' (fields_loop [] (trim_set (set ''[](){}._-'') (TrimSpace s)))
      in if r = '''' then ''Audio'' else r)"

definition externalTrackLabel :: "string list \<Rightarrow> int \<Rightarrow> string" where
  "externalTrackLabel paths idx =
     (if idx < 1 \<or> int (length paths) < idx then ''Track '' @ Itoa idx
      else
        let parts = split_on (CHR ''/'') (paths ! nat (idx - 1));
            base = last parts;
            stem = TrimSuffix base (path_Ext base);
            parent = TrimSpace (parts ! (length parts - 2))
        in if 2 \<le> length parts \<and> parent \<noteq> '''' \<and> parent \<noteq> TrimSpace (parts ! 0) then cleanExternalLabel parent
           else cleanExternalLabel stem)"

datatype content_type = TextSsa | TextVtt | TextPlain

text \<open>\<open>srt\<close> is the SubRip converter: \<open>None\<close> when it fails.\<close>

definition convertExternalSubtitle :: "(byte list \<Rightarrow> byte list option) \<Rightarrow> byte list \<Rightarrow> string \<Rightarrow> byte list \<times> content_type" where
  "convertExternalSubtitle srt raw ext =
     (if ToLower ext \<in> {''.ass'', ''.ssa''} then (raw, TextSsa)
      else if ToLower ext = ''.vtt'' then (raw, TextVtt)
      else if ToLower ext = ''.srt''
      then (case srt raw of Some b \<Rightarrow> if 0 < length b then (b, TextVtt) else (raw, TextPlain) | None \<Rightarrow> (raw, TextPlain))
      else (raw, TextPlain))"

definition externalSubtitleFormat :: "string \<Rightarrow> string" where
  "externalSubtitleFormat ext = (if ToLower ext \<in> {''.ass'', ''.ssa''} then ''ass'' else ''webvtt'')"

record ClientTrack =
  ct_Index :: int
  ct_Type :: string
  ct_Codec :: string
  ct_Language :: string
  ct_Title :: string
  ct_RelIndex :: int
  ct_SourceFile :: int

fun external_loop :: "string list \<Rightarrow> int list \<Rightarrow> int \<Rightarrow> ClientTrack list" where
  "external_loop paths [] rel = []"
| "external_loop paths (idx # idxs) rel =
     (if idx < 1 \<or> int (length paths) < idx then external_loop paths idxs rel
      else
        let ext = ToLower (path_Ext (last (split_on (CHR ''/'') (paths ! nat (idx - 1)))))
        in \<lparr>ct_Index = idx, ct_Type = ''subtitle'',
            ct_Codec = (if externalSubtitleFormat ext = ''ass'' then ''ass'' else ''''),
            ct_Language = '''', ct_Title = externalTrackLabel paths idx, ct_RelIndex = rel, ct_SourceFile = idx\<rparr>
           # external_loop paths idxs (rel + 1))"

definition appendExternalSubtitleTracks :: "string list option \<Rightarrow> string \<Rightarrow> int \<Rightarrow> ClientTrack list" where
  "appendExternalSubtitleTracks paths xs relStart =
     (let idxs = parseIndexList xs
      in if idxs = [] then []
         else case paths of None \<Rightarrow> [] | Some ps \<Rightarrow> external_loop ps idxs relStart)"

section \<open>Track names\<close>

definition trackName :: "ClientTrack \<Rightarrow> string \<Rightarrow> string" where
  "trackName t kind =
     (if TrimSpace (ct_Title t) \<noteq> '''' then TrimSpace (ct_Title t)
      else if TrimSpace (ct_Language t) \<noteq> '''' then TrimSpace (ct_Language t)
      else kind @ '' '' @ Itoa (ct_RelIndex t + 1))"

definition m3uEscape :: "string \<Rightarrow> string" where
  "m3uEscape s = map (\<lambda>c. if c = CHR 0x22 then CHR 0x27 else c) s"

definition numbered :: "string \<Rightarrow> nat \<Rightarrow> string" where
  "numbered name i = name @ '' ('' @ Itoa (int i) @ '')''"

lemma Itoa_inj: "Itoa (int i) = Itoa (int j) \<Longrightarrow> i = j"
proof -
  assume "Itoa (int i) = Itoa (int j)"
  then have "dec_nat i = dec_nat j" by (simp add: Itoa_def)
  then have "parse_nat (dec_nat i) = parse_nat (dec_nat j)" by (rule arg_cong)
  then show "i = j" by (simp add: parse_nat_dec_nat)
qed

lemma numbered_inj: "inj (numbered name)"
proof (rule injI)
  fix i j
  assume "numbered name i = numbered name j"
  then have "Itoa (int i) = Itoa (int j)" by (simp add: numbered_def)
  then show "i = j" by (rule Itoa_inj)
qed

lemma finite_taken: "finite {j. i \<le> j \<and> numbered name j \<in> set used}"
proof -
  have "{j. i \<le> j \<and> numbered name j \<in> set used} \<subseteq> numbered name -` set used" by auto
  moreover have "finite (numbered name -` set used)" by (rule finite_vimageI [OF _ numbered_inj]) simp
  ultimately show ?thesis by (rule finite_subset)
qed

text \<open>The search for a free number ends: every number tried is one of the finitely many names in use.\<close>

function first_free :: "string \<Rightarrow> string list \<Rightarrow> nat \<Rightarrow> string" where
  "first_free name used i = (if numbered name i \<notin> set used then numbered name i else first_free name used (i + 1))"
  by pat_completeness auto
termination
proof (relation "measure (\<lambda>(name, used, i). card {j. i \<le> j \<and> numbered name j \<in> set used})", goal_cases)
  case (2 name used i)
  have "i \<in> {j. i \<le> j \<and> numbered name j \<in> set used}" "i \<notin> {j. i + 1 \<le> j \<and> numbered name j \<in> set used}" using 2 by simp_all
  moreover have "{j. i + 1 \<le> j \<and> numbered name j \<in> set used} \<subseteq> {j. i \<le> j \<and> numbered name j \<in> set used}" by auto
  ultimately have "{j. i + 1 \<le> j \<and> numbered name j \<in> set used} \<subset> {j. i \<le> j \<and> numbered name j \<in> set used}" by blast
  then show ?case using psubset_card_mono [OF finite_taken] by simp
qed simp

declare first_free.simps [simp del]

definition uniqueTrackName :: "string \<Rightarrow> string list \<Rightarrow> string \<times> string list" where
  "uniqueTrackName name used =
     (if name \<notin> set used then (name, used @ [name])
      else let candidate = first_free name used 2 in (candidate, used @ [candidate]))"

lemma first_free_fresh: "first_free name used i \<notin> set used"
proof (induction name used i rule: first_free.induct)
  case (1 name used i)
  then show ?case by (cases "numbered name i \<in> set used") (subst first_free.simps, simp)+
qed

lemma uniqueTrackName_fresh: "uniqueTrackName name used = (n, used') \<Longrightarrow> n \<notin> set used \<and> used' = used @ [n]"
  by (auto simp: uniqueTrackName_def Let_def first_free_fresh split: if_splits)

section \<open>The multivariant playlist\<close>

definition isTextSubtitleCodec :: "string \<Rightarrow> bool" where
  "isTextSubtitleCodec codec \<longleftrightarrow>
     ToLower codec \<in> {''ass'', ''ssa'', ''subrip'', ''srt'', ''webvtt'', ''vtt'', ''mov_text'', ''text'', ''microdvd'', ''stl'',
       ''subviewer'', ''subviewer1'', ''jacosub'', ''sami'', ''realtext'', ''mpl2'', ''pjs'', ''vplayer''}"

datatype media_entry =
    AudioEntry (en_name: string) (en_lang: string) (en_default: bool) (en_uri: string)
  | ExtAudioEntry (en_name: string) (en_default: bool) (en_uri: string)
  | SubEntry (en_name: string) (en_lang: string) (en_uri: string)

fun audio_entries :: "ClientTrack list \<Rightarrow> nat \<Rightarrow> string list \<Rightarrow> media_entry list \<times> nat \<times> string list" where
  "audio_entries [] k used = ([], k, used)"
| "audio_entries (t # ts) k used =
     (if ct_Type t \<noteq> ''audio'' then audio_entries ts k used
      else
        let (name, used1) = uniqueTrackName (trackName t ''Audio'') used;
            (es, k', used') = audio_entries ts (k + 1) used1
        in (AudioEntry name (ct_Language t) (k = 0) (''a/'' @ Itoa (ct_RelIndex t) @ ''/index.m3u8'') # es, k', used'))"

fun ext_entries :: "string list \<Rightarrow> int list \<Rightarrow> nat \<Rightarrow> string list \<Rightarrow> media_entry list \<times> nat \<times> string list" where
  "ext_entries paths [] k used = ([], k, used)"
| "ext_entries paths (idx # idxs) k used =
     (let (name, used1) = uniqueTrackName (externalTrackLabel paths idx) used;
          (es, k', used') = ext_entries paths idxs (k + 1) used1
      in (ExtAudioEntry name (k = 0) (''xa/'' @ Itoa idx @ ''/0/index.m3u8'') # es, k', used'))"

definition sub_entries :: "ClientTrack list \<Rightarrow> media_entry list" where
  "sub_entries ts =
     map (\<lambda>t. SubEntry (trackName t ''Subtitle'') (ct_Language t) (''s/'' @ Itoa (ct_RelIndex t) @ ''/index.m3u8''))
       (filter (\<lambda>t. ct_Type t = ''subtitle'' \<and> isTextSubtitleCodec (ct_Codec t)) ts)"

record master_playlist =
  ms_audio :: "media_entry list"
  ms_subs :: "media_entry list"
  ms_hasAudio :: bool
  ms_hasSubs :: bool

definition serveMasterPlaylist :: "ClientTrack list \<Rightarrow> string list \<Rightarrow> string \<Rightarrow> master_playlist" where
  "serveMasterPlaylist ts paths xa =
     (let (as, k, used) = audio_entries ts 0 [];
          (xs, k', used') = ext_entries paths (parseIndexList xa) k used;
          subs = sub_entries ts
      in \<lparr>ms_audio = as @ xs, ms_subs = subs, ms_hasAudio = (0 < k'), ms_hasSubs = (subs \<noteq> [])\<rparr>)"

section \<open>What a player can tell apart\<close>

lemma index_loop_props:
  "distinct out \<Longrightarrow> \<forall>n \<in> set out. 1 \<le> n \<Longrightarrow> distinct (index_loop parts out) \<and> (\<forall>n \<in> set (index_loop parts out). 1 \<le> n)"
  by (induction parts out rule: index_loop.induct) (auto split: option.splits)

lemma parseIndexList_props: "distinct (parseIndexList s) \<and> (\<forall>n \<in> set (parseIndexList s). 1 \<le> n)"
  using index_loop_props [of "[]" "split_on (CHR '','') s"] by (auto simp: parseIndexList_def)

text \<open>The names given out so far, and the names and defaults of the entries that follow.\<close>

definition fresh_entries :: "nat \<Rightarrow> string list \<Rightarrow> media_entry list \<times> nat \<times> string list \<Rightarrow> bool" where
  "fresh_entries k used r \<longleftrightarrow>
     (case r of (es, k', used') \<Rightarrow>
        used' = used @ map en_name es \<and> (distinct used \<longrightarrow> distinct used') \<and> k' = k + length es \<and>
        (\<forall>i < length es. en_default (es ! i) \<longleftrightarrow> k + i = 0) \<and> (\<forall>e \<in> set es. \<not> is_SubEntry e))"

lemma fresh_entries_Cons:
  assumes "fresh_entries (k + 1) (used @ [en_name e]) (es, k', used')" "en_name e \<notin> set used" "en_default e \<longleftrightarrow> k = 0"
    and "\<not> is_SubEntry e"
  shows "fresh_entries k used (e # es, k', used')"
  using assms unfolding fresh_entries_def prod.case
  by (intro conjI allI impI) (auto simp: nth_Cons split: nat.splits, blast+)

lemma audio_entries_fresh: "fresh_entries k used (audio_entries ts k used)"
proof (induction ts k used rule: audio_entries.induct)
  case (2 t ts k used)
  show ?case
  proof (cases "ct_Type t = ''audio''")
    case True
    obtain name used1 where u: "uniqueTrackName (trackName t ''Audio'') used = (name, used1)" by fastforce
    obtain es k' used' where r: "audio_entries ts (k + 1) used1 = (es, k', used')" by (metis prod.exhaust)
    have "fresh_entries (k + 1) used1 (es, k', used')" using 2(2) True u r by simp
    with uniqueTrackName_fresh [OF u] True u r show ?thesis by (auto intro!: fresh_entries_Cons)
  qed (use 2(1) in simp)
qed (simp add: fresh_entries_def)

lemma ext_entries_fresh: "fresh_entries k used (ext_entries paths idxs k used)"
proof (induction paths idxs k used rule: ext_entries.induct)
  case (2 paths idx idxs k used)
  obtain name used1 where u: "uniqueTrackName (externalTrackLabel paths idx) used = (name, used1)" by fastforce
  obtain es k' used' where r: "ext_entries paths idxs (k + 1) used1 = (es, k', used')" by (metis prod.exhaust)
  have "fresh_entries (k + 1) used1 (es, k', used')" using 2 u r by simp
  with uniqueTrackName_fresh [OF u] u r show ?case by (auto intro!: fresh_entries_Cons)
qed (simp add: fresh_entries_def)

text \<open>
  The audio menu of the multivariant playlist is unambiguous: the names of the audio entries, embedded
  and external, are pairwise distinct before they are escaped, exactly the first entry is the default, and the
  variant refers to the audio group exactly when there is an entry in it.
\<close>

theorem master_audio_menu:
  "distinct (map en_name (ms_audio (serveMasterPlaylist ts paths xa))) \<and>
   map en_default (ms_audio (serveMasterPlaylist ts paths xa)) =
     map (\<lambda>i. i = 0) [0..<length (ms_audio (serveMasterPlaylist ts paths xa))] \<and>
   (ms_hasAudio (serveMasterPlaylist ts paths xa) \<longleftrightarrow> ms_audio (serveMasterPlaylist ts paths xa) \<noteq> [])"
proof -
  obtain es k used where a: "audio_entries ts 0 [] = (es, k, used)" by (metis prod.exhaust)
  obtain xs k' used' where x: "ext_entries paths (parseIndexList xa) k used = (xs, k', used')" by (metis prod.exhaust)
  have "fresh_entries 0 [] (es, k, used)" "fresh_entries k used (xs, k', used')"
    using audio_entries_fresh [of 0 "[]" ts] ext_entries_fresh [of k used paths "parseIndexList xa"] a x by simp_all
  then have f: "distinct (map en_name (es @ xs))" "k' = length (es @ xs)"
    "\<forall>i < length es. en_default (es ! i) \<longleftrightarrow> i = 0" "\<forall>i < length xs. en_default (xs ! i) \<longleftrightarrow> length es + i = 0"
    unfolding fresh_entries_def prod.case by (auto simp only: map_append append_Nil length_append add_0 distinct.simps simp_thms)
  have d: "en_default ((es @ xs) ! i) \<longleftrightarrow> i = 0" if "i < length (es @ xs)" for i
    using that f(3,4) by (cases "i < length es") (auto simp: nth_append)
  have "map en_default (es @ xs) = map (\<lambda>i. i = 0) [0..<length (es @ xs)]"
    by (rule nth_equalityI) (use d in \<open>simp_all del: map_append length_append\<close>)
  moreover have "ms_audio (serveMasterPlaylist ts paths xa) = es @ xs" "ms_hasAudio (serveMasterPlaylist ts paths xa) = (0 < k')"
    by (simp_all add: serveMasterPlaylist_def a x Let_def)
  ultimately show ?thesis using f(1,2) by (simp only:) simp
qed

text \<open>
  Escaping comes after the names are made distinct and can undo it: two titles that differ only in the
  kind of quote are listed under one name.
\<close>

lemma escaped_names_collide:
  "\<exists>t1 t2. map (\<lambda>e. m3uEscape (en_name e)) (ms_audio (serveMasterPlaylist [t1, t2] [] '''')) = [[CHR ''a'', CHR 0x27], [CHR ''a'', CHR 0x27]]"
proof -
  let ?t = "\<lambda>q. \<lparr>ct_Index = 0, ct_Type = ''audio'', ct_Codec = '''', ct_Language = '''', ct_Title = [CHR ''a'', q], ct_RelIndex = 0,
    ct_SourceFile = 0\<rparr>"
  have "map (\<lambda>e. m3uEscape (en_name e)) (ms_audio (serveMasterPlaylist [?t (CHR 0x22), ?t (CHR 0x27)] [] '''')) =
      [[CHR ''a'', CHR 0x27], [CHR ''a'', CHR 0x27]]"
    by code_simp
  then show ?thesis by (intro exI)
qed

end
