(* ===== verification/TorrentFiles.thy ===== *)
theory TorrentFiles
  imports FileStream MasterPlaylist
begin

text \<open>
  From the text of a URL to a reader over a file of a torrent: \<^verbatim>\<open>openTorrentFileReader\<close> of
  \<^verbatim>\<open>handlers/hlsindex.go\<close>, \<^verbatim>\<open>fileByteInfo\<close>, \<^verbatim>\<open>readClassFromRequest\<close> and \<^verbatim>\<open>HandleStream\<close> of
  \<^verbatim>\<open>handlers/stream.go\<close>, \<^verbatim>\<open>torrentFilePaths\<close> of \<^verbatim>\<open>handlers/external.go\<close>. The torrent client is what it
  shows: the torrents it knows and their files. How a wait for the metadata ends is an argument.
\<close>

section \<open>What the torrent client shows\<close>

record torrent_file =
  tf_path :: string
  tf_offset :: int
  tf_length :: int
  tf_completed :: int

record torrent_view =
  tv_ref :: ref
  tv_files :: "torrent_file list option"

type_synonym client = "(byte list \<times> torrent_view) list"

datatype info_wait = GotInfo "torrent_file list" | InfoCtxDone | InfoTimeout

definition await_info :: "torrent_view \<Rightarrow> info_wait \<Rightarrow> info_wait" where
  "await_info t wait = (case tv_files t of Some fs \<Rightarrow> GotInfo fs | None \<Rightarrow> wait)"

text \<open>\<^verbatim>\<open>hex.DecodeString\<close> and the length test every handler makes.\<close>

definition decode_hash :: "string \<Rightarrow> byte list option" where
  "decode_hash hashHex =
     (case hex_decode hashHex of Some bs \<Rightarrow> if length bs = 20 then Some bs else None | None \<Rightarrow> None)"

lemma decode_hash_length: "decode_hash s = Some bs \<Longrightarrow> length bs = 20"
  by (auto simp: decode_hash_def split: option.splits if_splits)

lemma decode_hash_encode: "length bs = 20 \<Longrightarrow> decode_hash (hex_encode bs) = Some bs"
  by (simp add: decode_hash_def hex_decode_encode)

text \<open>
  \<^verbatim>\<open>fmt.Sscanf(s, "%d", &n)\<close>: blanks are skipped, then an optional sign and as many digits as there are;
  what follows them is ignored.
\<close>

definition Sscanf_d :: "string \<Rightarrow> int option" where
  "Sscanf_d s =
     (let s1 = dropWhile (\<lambda>c. is_space c \<and> of_char c \<noteq> (10 :: nat)) s;
          sgn = (case s1 of c # _ \<Rightarrow> if c = CHR ''+'' \<or> c = CHR ''-'' then [c] else [] | [] \<Rightarrow> []);
          ds = takeWhile (\<lambda>c. digit_val c \<noteq> None) (drop (length sgn) s1)
      in if ds = [] then None else Atoi (sgn @ ds))"

definition filepath_Ext :: "string \<Rightarrow> string" where
  "filepath_Ext p = path_Ext (last (split_on (CHR ''/'') p))"

section \<open>Opening a reader over a file\<close>

datatype open_error = BadHash | NotActive | InfoCtxErr | BadFileIndex | IndexOutOfRange | NoStorageCache

definition openTorrentFileReader ::
  "client \<Rightarrow> info_wait \<Rightarrow> string \<Rightarrow> string \<Rightarrow> ReadClass \<Rightarrow> world \<Rightarrow> open_error + world \<times> ref \<times> string"
where
  "openTorrentFileReader cl wait hashHex fileIndexStr cls w =
     (case decode_hash hashHex of
        None \<Rightarrow> Inl BadHash
      | Some infoHash \<Rightarrow>
          (case map_of cl infoHash of
             None \<Rightarrow> Inl NotActive
           | Some t \<Rightarrow>
               (case await_info t wait of
                  GotInfo files \<Rightarrow>
                    (case Sscanf_d fileIndexStr of
                       None \<Rightarrow> Inl BadFileIndex
                     | Some idx \<Rightarrow>
                         if idx < 1 then Inl BadFileIndex
                         else if idx - 1 < 0 \<or> int (length files) \<le> idx - 1 then Inl IndexOutOfRange
                         else
                           (case GetCache (hex_encode infoHash) w of
                              None \<Rightarrow> Inl NoStorageCache
                            | Some c \<Rightarrow>
                                let file = files ! nat (idx - 1);
                                    (w1, rs) = NewReader (Some (tv_ref t)) c (tf_offset file) (tf_length file) cls None w
                                in Inr (w1, rs, ToLower (filepath_Ext (tf_path file)))))
                | _ \<Rightarrow> Inl InfoCtxErr)))"

text \<open>\<^verbatim>\<open>fileByteInfo\<close>: cache, offset and length of a file whose torrent is ready.\<close>

definition fileByteInfo :: "client \<Rightarrow> world \<Rightarrow> string \<Rightarrow> string \<Rightarrow> (ref \<times> int \<times> int) option" where
  "fileByteInfo cl w hashHex fileIndexStr =
     (case decode_hash hashHex of
        None \<Rightarrow> None
      | Some infoHash \<Rightarrow>
          (case map_of cl infoHash of
             None \<Rightarrow> None
           | Some t \<Rightarrow>
               (case tv_files t of
                  None \<Rightarrow> None
                | Some files \<Rightarrow>
                    (case Atoi fileIndexStr of
                       None \<Rightarrow> None
                     | Some idx \<Rightarrow>
                         if idx < 1 \<or> int (length files) < idx then None
                         else (case GetCache (hex_encode infoHash) w of
                                 None \<Rightarrow> None
                               | Some c \<Rightarrow> let f = files ! nat (idx - 1) in Some (c, tf_offset f, tf_length f))))))"

definition torrentFilePaths :: "client \<Rightarrow> string \<Rightarrow> string list option" where
  "torrentFilePaths cl hashHex =
     (case decode_hash hashHex of
        None \<Rightarrow> None
      | Some infoHash \<Rightarrow>
          (case map_of cl infoHash of
             None \<Rightarrow> None
           | Some t \<Rightarrow> map_option (map tf_path) (tv_files t)))"

section \<open>Progressive requests\<close>

record stream_query =
  sq_raw :: string
  sq_class :: string
  sq_bg :: string
  sq_deadline :: string
  sq_range :: string

text \<open>The deadline is in milliseconds since the epoch; the clock of the model counts nanoseconds.\<close>

definition readClassFromRequest :: "stream_query \<Rightarrow> ReadClass \<times> time_ns option" where
  "readClassFromRequest q =
     (ParseReadClass (sq_class q) (sq_bg q = ''1''),
      if sq_deadline q = '''' then None
      else case Atoi (sq_deadline q) of
             None \<Rightarrow> None
           | Some n \<Rightarrow> if 0 < n then Some (n * 10 ^ 6) else None)"

text \<open>\<open>byExt\<close> is the system's MIME table, empty for an unknown extension.\<close>

definition getMimeType :: "(string \<Rightarrow> string) \<Rightarrow> string \<Rightarrow> string" where
  "getMimeType byExt path =
     (let ext = ToLower (filepath_Ext path)
      in if ext = ''.mkv'' then ''video/x-matroska''
         else if ext = ''.mp4'' then ''video/mp4''
         else if ext = ''.avi'' then ''video/x-msvideo''
         else if ext = ''.ts'' then ''video/MP2T''
         else if ext = ''.mov'' then ''video/quicktime''
         else if byExt ext \<noteq> '''' then byExt ext else ''application/octet-stream'')"

text \<open>
  The answer of \<^verbatim>\<open>HandleStream\<close>: an error status, nothing because the client left, or the reader handed to
  \<^verbatim>\<open>http.ServeContent\<close> with its MIME type and whether the two preload tasks were started. \<^verbatim>\<open>ServeContent\<close>
  drives the reader (\<open>CachingReader_Seek\<close>, \<open>CachingReader_Read\<close>) and the handler closes it when it returns.
\<close>

datatype stream_answer = HttpError int | ClientLeft | ServeContent CachingReader string bool

definition HandleStream ::
  "client \<Rightarrow> info_wait \<Rightarrow> (string \<Rightarrow> string) \<Rightarrow> string \<Rightarrow> string \<Rightarrow> stream_query \<Rightarrow>
   world \<times> (string \<times> FileHeaders) list \<Rightarrow> (world \<times> (string \<times> FileHeaders) list) \<times> stream_answer"
where
  "HandleStream cl wait byExt hashHex fileIndexStr q st =
     (let (w, headers) = st
      in case decode_hash hashHex of
           None \<Rightarrow> (st, HttpError 400)
         | Some infoHash \<Rightarrow>
             (case map_of cl infoHash of
                None \<Rightarrow> (st, HttpError 404)
              | Some t \<Rightarrow>
                  (case Atoi fileIndexStr of
                     None \<Rightarrow> (st, HttpError 400)
                   | Some fileIndex \<Rightarrow>
                       if fileIndex < 1 then (st, HttpError 400)
                       else
                         (case await_info t wait of
                            InfoCtxDone \<Rightarrow> (st, ClientLeft)
                          | InfoTimeout \<Rightarrow> (st, HttpError 504)
                          | GotInfo files \<Rightarrow>
                              if int (length files) \<le> fileIndex - 1 then (st, HttpError 400)
                              else
                                (case GetCache (hex_encode infoHash) w of
                                   None \<Rightarrow> (st, HttpError 500)
                                 | Some c \<Rightarrow>
                                     let file = files ! nat (fileIndex - 1);
                                         (cls, deadline) = readClassFromRequest q;
                                         key = hashHex @ ''_'' @ fileIndexStr;
                                         headers1 = (if map_of headers key = None then AList.update key no_headers headers else headers);
                                         preload = (sq_raw q \<noteq> ''true'' \<and> (sq_range q = '''' \<or> prefix ''bytes=0-'' (sq_range q)));
                                         (w1, rs) = NewReader (Some (tv_ref t)) c (tf_offset file) (tf_length file) cls deadline w
                                     in ((w1, headers1),
                                         ServeContent (NewCachingReader rs (tf_length file)) (getMimeType byExt (tf_path file)) preload))))))"

section \<open>What a reader that was handed out covers\<close>

definition covers_file :: "client \<Rightarrow> info_wait \<Rightarrow> string \<Rightarrow> int \<Rightarrow> world \<Rightarrow> ref \<Rightarrow> bool" where
  "covers_file cl wait hashHex idx w r \<longleftrightarrow>
     (\<exists>infoHash t files c.
        decode_hash hashHex = Some infoHash \<and> map_of cl infoHash = Some t \<and> await_info t wait = GotInfo files \<and>
        1 \<le> idx \<and> nat (idx - 1) < length files \<and> map_of (s_caches w) (hex_encode infoHash) = Some c \<and>
        r_torrent (w_reader w r) = Some (tv_ref t) \<and> r_cache (w_reader w r) = c \<and> r_pos (w_reader w r) = 0 \<and>
        r_fileOffset (w_reader w r) = tf_offset (files ! nat (idx - 1)) \<and>
        r_fileSize (w_reader w r) = tf_length (files ! nat (idx - 1)))"

lemma NewReader_covers:
  "NewReader t c off len cls dl w = (w', r) \<Longrightarrow>
   s_caches w' = s_caches w \<and> r = w_nextReader w \<and>
   w_reader w' r = \<lparr>r_torrent = t, r_cache = c, r_fileOffset = off, r_fileSize = len, r_pos = 0, r_closed = False,
     r_lastPieceIdx = -1, r_class = cls, r_waitDeadline = dl\<rparr>"
  by (auto simp: NewReader_def Let_def RegisterReader_def upd_cache_def)

lemma openTorrentFileReader_covers:
  "openTorrentFileReader cl wait h f cls w = Inr (w', r, ext) \<Longrightarrow>
   \<exists>idx. Sscanf_d f = Some idx \<and> covers_file cl wait h idx w' r \<and> r_class (w_reader w' r) = cls"
  by (auto simp: openTorrentFileReader_def covers_file_def GetCache_def Let_def dest!: NewReader_covers
      split: option.splits info_wait.splits if_splits prod.splits)

lemma HandleStream_covers:
  "HandleStream cl wait byExt h f q st = ((w', hs), ServeContent cr mime pre) \<Longrightarrow>
   \<exists>idx. Atoi f = Some idx \<and> covers_file cl wait h idx w' (cr_reader cr) \<and> cr_pos cr = 0 \<and>
     cr_fileSize cr = r_fileSize (w_reader w' (cr_reader cr))"
  by (auto simp: HandleStream_def covers_file_def GetCache_def NewCachingReader_def Let_def dest!: NewReader_covers
      split: option.splits info_wait.splits if_splits prod.splits)

text \<open>
  Two readings of one index: the streaming endpoint rejects text after the number, the reader of the media
  endpoints ignores it, and those endpoints key their caches by the whole text.
\<close>

lemma index_text_tail_ignored: "Sscanf_d ''1x'' = Some 1" "Atoi ''1x'' = None"
  by code_simp+

lemma Sscanf_Itoa: "0 \<le> n \<Longrightarrow> in_int64 n \<Longrightarrow> Sscanf_d (Itoa n) = Some n"
proof -
  assume n: "0 \<le> n" "in_int64 n"
  obtain c cs where c: "dec_nat (nat n) = c # cs" "digit_val c \<noteq> None" using dec_nat_hd by blast
  then have s: "\<not> is_space c" "c \<noteq> CHR ''+''" "c \<noteq> CHR ''-''"
    by (auto simp: digit_val_def is_space_def Let_def split: if_splits)
  have i: "Itoa n = c # cs" using n(1) c(1) by (simp add: Itoa_def)
  have "\<forall>x \<in> set cs. digit_val x \<noteq> None" using dec_nat_digits [of _ "nat n"] c(1) by auto
  then have tw: "takeWhile (\<lambda>c. \<exists>d. digit_val c = Some d) cs = cs" by (simp add: takeWhile_eq_all_conv)
  show ?thesis using s c(2) i Atoi_Itoa [OF n(2)] by (simp add: Sscanf_d_def tw)
qed

end
