(* ===== verification/MediaProbe.thy ===== *)
theory MediaProbe
  imports SegmentMux IntroMatch TorrentFiles
begin

text \<open>
  What a file contains and who is told: the probe (\<^verbatim>\<open>media/probe.go\<close>), the stream layout that maps a
  rendition to a stream and the retries around a cold torrent (\<^verbatim>\<open>handlers/hlsmedia.go\<close>), and the metadata
  sent to the player (\<^verbatim>\<open>handlers/metadata.go\<close>). The demuxer's stream table is an argument. Metadata that the
  code keeps as JSON is kept as the record it encodes.
\<close>

section \<open>The probe\<close>

datatype stream_kind = KVideo | KAudio | KSubtitle | KAttachment | KData | KUnknown

record demux_stream =
  ds_Index :: int
  ds_Kind :: stream_kind
  ds_Codec :: string
  ds_Language :: string
  ds_Title :: string
  ds_StartTime :: int
  ds_tbNum :: int
  ds_tbDen :: int
  ds_AttachedPic :: bool
  ds_ExtraData :: string

record Track =
  tk_Index :: int
  tk_Kind :: string
  tk_Codec :: string
  tk_Language :: string
  tk_Title :: string
  tk_StartSec :: rat
  tk_AttachedPic :: bool

record ProbeResult =
  pr_DurationSec :: rat
  pr_Tracks :: "Track list"

fun mediaKind :: "stream_kind \<Rightarrow> string" where
  "mediaKind KVideo = ''video''"
| "mediaKind KAudio = ''audio''"
| "mediaKind KSubtitle = ''subtitle''"
| "mediaKind KAttachment = ''attachment''"
| "mediaKind KData = ''data''"
| "mediaKind KUnknown = ''unknown''"

definition probe_track :: "demux_stream \<Rightarrow> Track" where
  "probe_track s =
     \<lparr>tk_Index = ds_Index s, tk_Kind = mediaKind (ds_Kind s), tk_Codec = ds_Codec s, tk_Language = ds_Language s,
      tk_Title = ds_Title s,
      tk_StartSec = (if ds_StartTime s \<noteq> noPTS \<and> ds_tbDen s \<noteq> 0
                     then of_int (ds_StartTime s) * of_int (ds_tbNum s) / of_int (ds_tbDen s) else 0),
      tk_AttachedPic = ds_AttachedPic s\<rparr>"

definition ProbeTracks :: "int \<Rightarrow> demux_stream list \<Rightarrow> ProbeResult" where
  "ProbeTracks duration streams =
     \<lparr>pr_DurationSec = of_int duration / 1000000, pr_Tracks = map probe_track streams\<rparr>"

lemma mediaKind_eq [simp]:
  "mediaKind k = ''video'' \<longleftrightarrow> k = KVideo" "mediaKind k = ''audio'' \<longleftrightarrow> k = KAudio"
  "mediaKind k = ''subtitle'' \<longleftrightarrow> k = KSubtitle"
  by (cases k; simp)+

section \<open>The stream layout\<close>

definition no_layout :: streamLayout where
  "no_layout = \<lparr>ly_video = -1, ly_videoCodec = '''', ly_videoStartSec = 0, ly_audios = [], ly_audioCodecs = []\<rparr>"

definition layout_track :: "Track \<Rightarrow> streamLayout \<Rightarrow> streamLayout" where
  "layout_track t l =
     (if tk_Kind t = ''video'' then
        if tk_AttachedPic t then l
        else if ly_video l < 0
        then l\<lparr>ly_video := tk_Index t, ly_videoCodec := tk_Codec t, ly_videoStartSec := tk_StartSec t\<rparr>
        else l
      else if tk_Kind t = ''audio''
      then l\<lparr>ly_audios := ly_audios l @ [tk_Index t], ly_audioCodecs := ly_audioCodecs l @ [tk_Codec t]\<rparr>
      else l)"

definition probe_layout :: "ProbeResult \<Rightarrow> streamLayout" where
  "probe_layout p = fold layout_track (pr_Tracks p) no_layout"

text \<open>
  One round of \<^verbatim>\<open>probeStreamLayout\<close>: what opening and probing gave, the time at which a failure was looked
  at, whether the context was done by then and whether it ended during the pause. The result is \<open>None\<close> when
  the rounds are used up: the loop is still running.
\<close>

record probe_round =
  rd_probe :: "ProbeResult option"
  rd_now :: time_ns
  rd_ctxErr :: bool
  rd_ctxInPause :: bool

datatype layout_error = LayoutCtx | LayoutProbeFailed

definition layoutProbeDeadline :: time_ns where "layoutProbeDeadline = 40 * 10 ^ 9"
definition layoutProbeRetryEvery :: time_ns where "layoutProbeRetryEvery = 1500 * 10 ^ 6"

fun probe_loop :: "time_ns \<Rightarrow> probe_round list \<Rightarrow> (layout_error + streamLayout) option" where
  "probe_loop deadline [] = None"
| "probe_loop deadline (r # rs) =
     (case rd_probe r of
        Some p \<Rightarrow> Some (Inr (probe_layout p))
      | None \<Rightarrow>
          if rd_ctxErr r then Some (Inl LayoutCtx)
          else if deadline < rd_now r then Some (Inl LayoutProbeFailed)
          else if rd_ctxInPause r then Some (Inl LayoutCtx)
          else probe_loop deadline rs)"

definition probeStreamLayout ::
  "time_ns \<Rightarrow> string \<Rightarrow> probe_round list \<Rightarrow> (string \<times> streamLayout) list \<Rightarrow>
   ((string \<times> streamLayout) list \<times> (layout_error + streamLayout)) option"
where
  "probeStreamLayout start key rounds cache =
     (case probe_loop (start + layoutProbeDeadline) rounds of
        None \<Rightarrow> None
      | Some (Inl e) \<Rightarrow> Some (cache, Inl e)
      | Some (Inr l) \<Rightarrow> Some (AList.update key l cache, Inr l))"

definition getStreamLayout ::
  "time_ns \<Rightarrow> string \<Rightarrow> string \<Rightarrow> probe_round list \<Rightarrow> (string \<times> streamLayout) list \<Rightarrow>
   ((string \<times> streamLayout) list \<times> (layout_error + streamLayout)) option"
where
  "getStreamLayout start hashHex fileIndexStr rounds cache =
     (let key = hashHex @ ''_'' @ fileIndexStr
      in case map_of cache key of
           Some l \<Rightarrow> Some (cache, Inr l)
         | None \<Rightarrow> probeStreamLayout start key rounds cache)"

text \<open>The pause between two rounds.\<close>

fun paced :: "time_ns \<Rightarrow> probe_round list \<Rightarrow> bool" where
  "paced now [] \<longleftrightarrow> True"
| "paced now (r # rs) \<longleftrightarrow> now \<le> rd_now r \<and> paced (rd_now r + layoutProbeRetryEvery) rs"

lemma probe_loop_returns:
  "paced now rounds \<Longrightarrow> deadline < now + int n * layoutProbeRetryEvery \<Longrightarrow> n < length rounds \<Longrightarrow>
   probe_loop deadline rounds \<noteq> None"
proof (induction deadline rounds arbitrary: now n rule: probe_loop.induct)
  case (2 deadline r rs)
  show ?case
  proof (cases n)
    case 0
    with 2(2,3) show ?thesis by (auto split: option.splits)
  next
    case (Suc k)
    have "deadline < (rd_now r + layoutProbeRetryEvery) + int k * layoutProbeRetryEvery"
      using 2(2,3) Suc by (simp add: layoutProbeRetryEvery_def)
    with 2 Suc show ?thesis by (auto split: option.splits)
  qed
qed simp

section \<open>Media segments with retries\<close>

datatype produce_error = ProduceCtx | ProduceOpen open_error | ProduceSegment media_error | NoVideoStream | TrackOutOfRange int

text \<open>
  \<^verbatim>\<open>produceSegmentRetry\<close>. For each attempt: whether the context ends during the pause before it, what opening
  a reader gives, and what \<^verbatim>\<open>media.Segment\<close> gives for a window of the source and a list of streams.
\<close>

fun segment_attempts ::
  "(nat \<Rightarrow> bool) \<Rightarrow> (nat \<Rightarrow> open_error option) \<Rightarrow> (nat \<Rightarrow> media_error + byte list) \<Rightarrow> nat list \<Rightarrow> media_error option \<Rightarrow>
   produce_error + byte list option"
where
  "segment_attempts gone opens seg [] lastErr =
     (case lastErr of None \<Rightarrow> Inr None | Some e \<Rightarrow> Inl (ProduceSegment e))"
| "segment_attempts gone opens seg (k # ks) lastErr =
     (if 0 < k \<and> gone k then Inl ProduceCtx
      else case opens k of
             Some e \<Rightarrow> Inl (ProduceOpen e)
           | None \<Rightarrow> (case seg k of
                       Inr data \<Rightarrow> Inr (Some data)
                     | Inl e \<Rightarrow> segment_attempts gone opens seg ks (Some e)))"

definition produceSegmentRetry ::
  "(nat \<Rightarrow> bool) \<Rightarrow> (nat \<Rightarrow> open_error option) \<Rightarrow> (rat \<Rightarrow> rat \<Rightarrow> int list \<Rightarrow> bool \<Rightarrow> nat \<Rightarrow> media_error + byte list) \<Rightarrow>
   int list \<Rightarrow> segList \<Rightarrow> int \<Rightarrow> bool \<Rightarrow> produce_error + byte list option"
where
  "produceSegmentRetry gone opens Segment streams sl n transcode =
     segment_attempts gone opens (Segment (srcStart sl n) (extinf sl n) streams transcode) [0..<3] None"

definition produceVideoSegment ::
  "(nat \<Rightarrow> bool) \<Rightarrow> (nat \<Rightarrow> open_error option) \<Rightarrow> (rat \<Rightarrow> rat \<Rightarrow> int list \<Rightarrow> bool \<Rightarrow> nat \<Rightarrow> media_error + byte list) \<Rightarrow>
   streamLayout \<Rightarrow> segList \<Rightarrow> int \<Rightarrow> produce_error + byte list option"
where
  "produceVideoSegment gone opens Segment layout sl n =
     (if ly_video layout < 0 then Inl NoVideoStream
      else produceSegmentRetry gone opens Segment [ly_video layout] sl n (sl_transcode sl))"

text \<open>
  The audio producers: a track that is not AAC goes through the continuous transcoder, whose answer is
  \<open>cont\<close>; an AAC track is copied.
\<close>

definition produceAudioSegment ::
  "(nat \<Rightarrow> bool) \<Rightarrow> (nat \<Rightarrow> open_error option) \<Rightarrow> (rat \<Rightarrow> rat \<Rightarrow> int list \<Rightarrow> bool \<Rightarrow> nat \<Rightarrow> media_error + byte list) \<Rightarrow>
   produce_error + byte list option \<Rightarrow> streamLayout \<Rightarrow> int \<Rightarrow> segList \<Rightarrow> int \<Rightarrow> produce_error + byte list option"
where
  "produceAudioSegment gone opens Segment cont layout rel sl n =
     (if rel < 0 \<or> int (length (ly_audios layout)) \<le> rel then Inl (TrackOutOfRange rel)
      else if ly_audioCodecs layout ! nat rel \<noteq> ''aac'' then cont
      else produceSegmentRetry gone opens Segment [ly_audios layout ! nat rel] sl n False)"

text \<open>The init segments open a reader once; \<open>InitSegment\<close> is \<^verbatim>\<open>media.InitSegment\<close>.\<close>

definition produceVideoInit ::
  "open_error option \<Rightarrow> (int list \<Rightarrow> bool \<Rightarrow> media_error + byte list) \<Rightarrow> streamLayout \<Rightarrow> segList \<Rightarrow> produce_error + byte list"
where
  "produceVideoInit openErr InitSegment layout sl =
     (if ly_video layout < 0 then Inl NoVideoStream
      else case openErr of
             Some e \<Rightarrow> Inl (ProduceOpen e)
           | None \<Rightarrow> (case InitSegment [ly_video layout] (sl_transcode sl) of
                       Inl e \<Rightarrow> Inl (ProduceSegment e) | Inr d \<Rightarrow> Inr d))"

definition produceAudioInit ::
  "open_error option \<Rightarrow> (int list \<Rightarrow> bool \<Rightarrow> media_error + byte list) \<Rightarrow> produce_error + byte list \<Rightarrow> streamLayout \<Rightarrow> int \<Rightarrow>
   produce_error + byte list"
where
  "produceAudioInit openErr InitSegment cont layout rel =
     (if rel < 0 \<or> int (length (ly_audios layout)) \<le> rel then Inl (TrackOutOfRange rel)
      else if ly_audioCodecs layout ! nat rel \<noteq> ''aac'' then cont
      else case openErr of
             Some e \<Rightarrow> Inl (ProduceOpen e)
           | None \<Rightarrow> (case InitSegment [ly_audios layout ! nat rel] False of
                       Inl e \<Rightarrow> Inl (ProduceSegment e) | Inr d \<Rightarrow> Inr d))"

text \<open>Three attempts leave either data or an error.\<close>

lemma segment_attempts_decides: "ks \<noteq> [] \<or> e \<noteq> None \<Longrightarrow> segment_attempts gone opens seg ks e \<noteq> Inr None"
  by (induction gone opens seg ks e rule: segment_attempts.induct) (auto split: option.splits sum.splits)

lemma produceSegmentRetry_decides: "produceSegmentRetry gone opens Segment streams sl n t \<noteq> Inr None"
  by (simp add: produceSegmentRetry_def segment_attempts_decides)

lemma segment_attempts_data:
  "segment_attempts gone opens seg [a..<b] e = Inr (Some d) \<Longrightarrow>
   \<exists>k. a \<le> k \<and> k < b \<and> seg k = Inr d \<and> (\<forall>j. a \<le> j \<and> j < k \<longrightarrow> (\<exists>e. seg j = Inl e))"
proof (induction "b - a" arbitrary: a e)
  case (Suc m)
  then have ab: "a < b" by simp
  show ?case
  proof (cases "seg a")
    case (Inl e')
    have "segment_attempts gone opens seg [Suc a..<b] (Some e') = Inr (Some d)"
      using Suc(3) ab Inl by (simp add: upt_conv_Cons split: if_splits option.splits)
    moreover have "m = b - Suc a" using Suc(2) by simp
    ultimately obtain k where k: "Suc a \<le> k" "k < b" "seg k = Inr d" "\<forall>j. Suc a \<le> j \<and> j < k \<longrightarrow> (\<exists>e. seg j = Inl e)"
      using Suc(1) by blast
    have "\<exists>e. seg j = Inl e" if "a \<le> j" "j < k" for j using k(4) that Inl by (cases "j = a") auto
    with k show ?thesis by (intro exI [of _ k]) auto
  next
    case (Inr d')
    then show ?thesis using Suc(3) ab by (intro exI [of _ a]) (auto simp: upt_conv_Cons split: if_splits option.splits)
  qed
qed (simp split: option.splits)

lemma produceSegmentRetry_data:
  "produceSegmentRetry gone opens Segment streams sl n t = Inr (Some d) \<Longrightarrow>
   \<exists>k < 3. Segment (srcStart sl n) (extinf sl n) streams t k = Inr d \<and>
     (\<forall>j < k. \<exists>e. Segment (srcStart sl n) (extinf sl n) streams t j = Inl e)"
  unfolding produceSegmentRetry_def by (drule segment_attempts_data) auto

section \<open>Metadata for the player\<close>

definition char_upper :: "char \<Rightarrow> char" where
  "char_upper c = (let n = of_char c :: nat in if 97 \<le> n \<and> n \<le> 122 then char_of (n - 32) else c)"

definition ToUpper :: "string \<Rightarrow> string" where
  "ToUpper s = map char_upper s"

text \<open>The Russian titles, as UTF-8 bytes.\<close>

definition audio_word :: string where
  "audio_word = [CHR 0xD0, CHR 0x90, CHR 0xD1, CHR 0x83, CHR 0xD0, CHR 0xB4, CHR 0xD0, CHR 0xB8, CHR 0xD0, CHR 0xBE]"

definition track_word :: string where
  "track_word = [CHR 0xD0, CHR 0xB4, CHR 0xD0, CHR 0xBE, CHR 0xD1, CHR 0x80, CHR 0xD0, CHR 0xBE, CHR 0xD0, CHR 0xB6,
     CHR 0xD0, CHR 0xBA, CHR 0xD0, CHR 0xB0]"

definition subtitles_word :: string where
  "subtitles_word = [CHR 0xD0, CHR 0xA1, CHR 0xD1, CHR 0x83, CHR 0xD0, CHR 0xB1, CHR 0xD1, CHR 0x82, CHR 0xD0, CHR 0xB8,
     CHR 0xD1, CHR 0x82, CHR 0xD1, CHR 0x80, CHR 0xD1, CHR 0x8B]"

definition track_title :: "string \<Rightarrow> string \<Rightarrow> Track \<Rightarrow> nat \<Rightarrow> string" where
  "track_title named anonymous t counter =
     (if tk_Title t = '''' then
        if tk_Language t \<noteq> '''' then named @ '' ('' @ ToUpper (tk_Language t) @ '')''
        else anonymous @ '' #'' @ Itoa (int counter + 1)
      else tk_Title t)"

definition client_track :: "Track \<Rightarrow> string \<Rightarrow> nat \<Rightarrow> ClientTrack" where
  "client_track t title rel =
     \<lparr>ct_Index = tk_Index t, ct_Type = tk_Kind t, ct_Codec = tk_Codec t, ct_Language = tk_Language t, ct_Title = title,
      ct_RelIndex = int rel, ct_SourceFile = 0\<rparr>"

fun client_tracks :: "Track list \<Rightarrow> nat \<Rightarrow> nat \<Rightarrow> ClientTrack list" where
  "client_tracks [] audioCounter subCounter = []"
| "client_tracks (t # ts) audioCounter subCounter =
     (if tk_Kind t = ''audio''
      then client_track t (track_title audio_word (audio_word @ track_word) t audioCounter) audioCounter
           # client_tracks ts (audioCounter + 1) subCounter
      else if tk_Kind t = ''subtitle''
      then client_track t (track_title subtitles_word subtitles_word t subCounter) subCounter
           # client_tracks ts audioCounter (subCounter + 1)
      else client_tracks ts audioCounter subCounter)"

record ClientMetadata =
  md_Duration :: rat
  md_Tracks :: "ClientTrack list"
  md_Timecodes :: TimecodeRange

definition no_timecodes :: TimecodeRange where
  "no_timecodes = \<lparr>tr_IntroStart = 0, tr_IntroEnd = 0, tr_OutroStart = 0, tr_OutroEnd = 0\<rparr>"

record meta_caches =
  mc_metadata :: "(string \<times> ClientMetadata) list"
  mc_duration :: "(string \<times> rat) list"

text \<open>
  \<^verbatim>\<open>probeAndCacheMetadata\<close> with what opening and probing the file give and the time codes known for it. The
  duration is stored first, the metadata last; \<open>probe_stored\<close> is the state in between.
\<close>

definition probe_stored :: "string \<Rightarrow> ProbeResult \<Rightarrow> meta_caches \<Rightarrow> meta_caches" where
  "probe_stored key p m =
     (if 0 < pr_DurationSec p then m\<lparr>mc_duration := AList.update key (pr_DurationSec p) (mc_duration m)\<rparr> else m)"

definition metadata_of :: "ProbeResult \<Rightarrow> TimecodeRange option \<Rightarrow> ClientMetadata" where
  "metadata_of p tc =
     \<lparr>md_Duration = pr_DurationSec p, md_Tracks = client_tracks (pr_Tracks p) 0 0,
      md_Timecodes = (case tc of None \<Rightarrow> no_timecodes | Some r \<Rightarrow> r)\<rparr>"

definition probeAndCacheMetadata ::
  "ProbeResult option \<Rightarrow> TimecodeRange option \<Rightarrow> string \<Rightarrow> meta_caches \<Rightarrow> meta_caches \<times> ClientMetadata option"
where
  "probeAndCacheMetadata probe tc key m =
     (case map_of (mc_metadata m) key of
        Some md \<Rightarrow> (m, Some md)
      | None \<Rightarrow>
          (case probe of
             None \<Rightarrow> (m, None)
           | Some p \<Rightarrow>
               let m1 = probe_stored key p m; md = metadata_of p tc
               in (m1\<lparr>mc_metadata := AList.update key md (mc_metadata m1)\<rparr>, Some md)))"

text \<open>
  \<^verbatim>\<open>metadataSFG\<close> is one group of flights for two kinds of caller. A flight's value is what its leader's
  function returns: a number when a duration request finds the duration already there, otherwise metadata.
\<close>

datatype flight_value = FloatValue rat | BytesValue ClientMetadata

definition metadata_flight ::
  "ProbeResult option \<Rightarrow> TimecodeRange option \<Rightarrow> string \<Rightarrow> meta_caches \<Rightarrow> meta_caches \<times> flight_value option"
where
  "metadata_flight probe tc key m = apsnd (map_option BytesValue) (probeAndCacheMetadata probe tc key m)"

definition duration_flight ::
  "ProbeResult option \<Rightarrow> TimecodeRange option \<Rightarrow> string \<Rightarrow> meta_caches \<Rightarrow> meta_caches \<times> flight_value option"
where
  "duration_flight probe tc key m =
     (case map_of (mc_duration m) key of
        Some d \<Rightarrow> (m, Some (FloatValue d))
      | None \<Rightarrow> apsnd (map_option BytesValue) (probeAndCacheMetadata probe tc key m))"

text \<open>
  The two callers. \<open>flight\<close> is the flight a caller leads or joins, applied to the caches at that time; its
  result is what \<^verbatim>\<open>Do\<close> returns.
\<close>

definition getOrProbeDuration ::
  "string \<Rightarrow> (meta_caches \<Rightarrow> meta_caches \<times> flight_value option) \<Rightarrow> meta_caches \<Rightarrow> meta_caches \<times> rat option"
where
  "getOrProbeDuration key flight m =
     (case map_of (mc_duration m) key of
        Some d \<Rightarrow> (m, Some d)
      | None \<Rightarrow>
          (case flight m of
             (m1, None) \<Rightarrow> (m1, None)
           | (m1, Some _) \<Rightarrow> (m1, map_of (mc_duration m1) key)))"

definition withExternalSubtitles :: "client \<Rightarrow> string \<Rightarrow> string \<Rightarrow> ClientMetadata \<Rightarrow> ClientMetadata" where
  "withExternalSubtitles cl hashHex xs base =
     (if xs = '''' then base
      else
        let subCount = int (length (filter (\<lambda>t. ct_Type t = ''subtitle'') (md_Tracks base)));
            extra = appendExternalSubtitleTracks (torrentFilePaths cl hashHex) xs subCount
        in if extra = [] then base else base\<lparr>md_Tracks := md_Tracks base @ extra\<rparr>)"

datatype metadata_answer = MetadataOk ClientMetadata | ProbingFailed | MetadataPanic

definition HandleGetMediaMetadata ::
  "client \<Rightarrow> string \<Rightarrow> string \<Rightarrow> string \<Rightarrow> (meta_caches \<Rightarrow> meta_caches \<times> flight_value option) \<Rightarrow> meta_caches \<Rightarrow>
   meta_caches \<times> metadata_answer"
where
  "HandleGetMediaMetadata cl hashHex fileIndexStr xs flight m =
     (case map_of (mc_metadata m) (hashHex @ ''_'' @ fileIndexStr) of
        Some base \<Rightarrow> (m, MetadataOk (withExternalSubtitles cl hashHex xs base))
      | None \<Rightarrow>
          (case flight m of
             (m1, None) \<Rightarrow> (m1, ProbingFailed)
           | (m1, Some (BytesValue base)) \<Rightarrow> (m1, MetadataOk (withExternalSubtitles cl hashHex xs base))
           | (m1, Some (FloatValue d)) \<Rightarrow> (m1, MetadataPanic)))"


text \<open>The state in which that happens is the one a probe leaves between its two stores.\<close>

lemma probe_between_stores:
  assumes "0 < pr_DurationSec p" "map_of (mc_metadata m) key = None"
  shows "map_of (mc_metadata (probe_stored key p m)) key = None \<and> map_of (mc_duration (probe_stored key p m)) key \<noteq> None"
  using assms by (simp add: probe_stored_def update_conv')

text \<open>
  The probe of the stream layout returns: with a pause of a second and a half between the rounds and a
  deadline of forty seconds, at most twenty-eight rounds are made.
\<close>

theorem layout_probe_returns:
  assumes "paced start rounds" "28 \<le> length rounds"
  shows "\<exists>r. probeStreamLayout start key rounds cache = Some r"
proof -
  have "probe_loop (start + layoutProbeDeadline) rounds \<noteq> None"
    by (rule probe_loop_returns [OF assms(1), where n = 27])
      (use assms(2) in \<open>simp_all add: layoutProbeDeadline_def layoutProbeRetryEvery_def\<close>)
  then show ?thesis by (auto simp: probeStreamLayout_def split: option.splits sum.splits)
qed

theorem layout_probe_returns_witness:
  "\<exists>r. probeStreamLayout 0 ''k''
     (map (\<lambda>i. \<lparr>rd_probe = None, rd_now = int i * layoutProbeRetryEvery, rd_ctxErr = False, rd_ctxInPause = False\<rparr>) [0..<28]) [] =
     Some r"
  by (rule layout_probe_returns) (simp_all add: upt_rec layoutProbeRetryEvery_def)

section \<open>Rendition indices name streams\<close>

definition of_kind :: "string \<Rightarrow> Track \<Rightarrow> bool" where
  "of_kind k t \<longleftrightarrow> tk_Kind t = k"

lemma layout_audios:
  "ly_audios (fold layout_track ts l) = ly_audios l @ map tk_Index (filter (of_kind ''audio'') ts) \<and>
   ly_audioCodecs (fold layout_track ts l) = ly_audioCodecs l @ map tk_Codec (filter (of_kind ''audio'') ts)"
  by (induction ts arbitrary: l) (simp_all add: layout_track_def of_kind_def)

lemma client_tracks_kind:
  assumes "(k = ''audio'' \<and> n = a) \<or> (k = ''subtitle'' \<and> n = s)"
  shows "map (\<lambda>t. (ct_Index t, ct_Codec t, ct_RelIndex t)) (filter (\<lambda>t. ct_Type t = k) (client_tracks ts a s)) =
    map (\<lambda>(i, t). (tk_Index t, tk_Codec t, int i)) (enumerate n (filter (of_kind k) ts))"
  using assms
proof (induction ts a s arbitrary: n rule: client_tracks.induct)
  case (2 t ts a s)
  note IH = 2(1-3) and n = 2(4)
  consider (a) "tk_Kind t = ''audio''" | (s) "tk_Kind t = ''subtitle''" | (o) "tk_Kind t \<noteq> ''audio''" "tk_Kind t \<noteq> ''subtitle''"
    by blast
  then show ?case
  proof cases
    case a
    from n show ?thesis using IH(1) [OF a, of "if k = ''audio'' then n + 1 else n"] a
      by (auto simp: client_track_def of_kind_def)
  next
    case s
    then have na: "tk_Kind t \<noteq> ''audio''" by simp
    from n show ?thesis using IH(2) [OF na s, of "if k = ''subtitle'' then n + 1 else n"] s
      by (auto simp: client_track_def of_kind_def)
  next
    case o
    from n show ?thesis using IH(3) [OF o, of n] o by (auto simp: client_track_def of_kind_def)
  qed
qed simp

lemma audio_track_stream:
  assumes "t \<in> set (client_tracks (pr_Tracks p) 0 0)" "ct_Type t = ''audio''"
  shows "0 \<le> ct_RelIndex t \<and> nat (ct_RelIndex t) < length (ly_audios (probe_layout p)) \<and>
    ly_audios (probe_layout p) ! nat (ct_RelIndex t) = ct_Index t \<and>
    ly_audioCodecs (probe_layout p) ! nat (ct_RelIndex t) = ct_Codec t"
proof -
  let ?as = "filter (of_kind ''audio'') (pr_Tracks p)"
  have "(ct_Index t, ct_Codec t, ct_RelIndex t) \<in>
      set (map (\<lambda>t. (ct_Index t, ct_Codec t, ct_RelIndex t)) (filter (\<lambda>t. ct_Type t = ''audio'') (client_tracks (pr_Tracks p) 0 0)))"
    using assms by auto
  then have "(ct_Index t, ct_Codec t, ct_RelIndex t) \<in> set (map (\<lambda>(i, t). (tk_Index t, tk_Codec t, int i)) (enumerate 0 ?as))"
    by (subst (asm) client_tracks_kind [where n = 0]) simp_all
  then obtain i where "i < length ?as" "ct_RelIndex t = int i" "ct_Index t = tk_Index (?as ! i)" "ct_Codec t = tk_Codec (?as ! i)"
    by (auto simp: set_conv_nth nth_enumerate_eq)
  then show ?thesis by (simp add: probe_layout_def layout_audios no_layout_def)
qed

end
