(* ===== verification/SubtitleText.thy ===== *)
theory SubtitleText
  imports MediaProbe AudioCont
begin

text \<open>
  Text subtitles (\<^verbatim>\<open>media/subtitle.go\<close>): the packets of one subtitle stream in a window of time, rendered as
  WebVTT or as ASS. The stream table and the packets the demuxer delivers after a seek are arguments;
  seconds are exact.
\<close>

section \<open>Cues of a window\<close>

datatype sub_event = SubPacket int int int string | SubReadError

record cue =
  cue_start :: rat
  cue_end :: rat
  cue_data :: string

definition toSec :: "int \<Rightarrow> int \<Rightarrow> int \<Rightarrow> rat" where
  "toSec pts num den = (if den = 0 then 0 else of_int pts * of_int num / of_int den)"

text \<open>The search for the \<open>subRel\<close>-th subtitle stream; -1 when there is none.\<close>

fun find_sub :: "int \<Rightarrow> int \<Rightarrow> demux_stream list \<Rightarrow> int" where
  "find_sub subRel seen [] = -1"
| "find_sub subRel seen (s # ss) =
     (if ds_Kind s = KSubtitle
      then if seen = subRel then ds_Index s else find_sub subRel (seen + 1) ss
      else find_sub subRel seen ss)"

definition subtitleTextCodec :: "string \<Rightarrow> bool" where
  "subtitleTextCodec codec \<longleftrightarrow> codec \<in> {''ass'', ''ssa'', ''subrip'', ''srt'', ''webvtt'', ''text'', ''mov_text''}"

text \<open>Where to seek before reading: on the first real video stream, else on the subtitle stream itself.\<close>

definition subtitle_seek :: "demux_stream list \<Rightarrow> int \<Rightarrow> rat \<Rightarrow> (int \<times> int) option" where
  "subtitle_seek streams subIdx startSec =
     (if startSec \<le> 0 then None
      else
        let s = (case filter (\<lambda>s. ds_Kind s = KVideo \<and> \<not> ds_AttachedPic s) streams of
                   v # _ \<Rightarrow> v | [] \<Rightarrow> streams ! nat subIdx)
        in if 0 < ds_tbNum s
           then Some (ds_Index s, trunc_rat (startSec * of_int (ds_tbDen s) / of_int (ds_tbNum s)))
           else None)"

definition packet_sec :: "demux_stream list \<Rightarrow> int \<Rightarrow> int \<Rightarrow> rat" where
  "packet_sec streams si pts = toSec pts (ds_tbNum (streams ! nat si)) (ds_tbDen (streams ! nat si))"

text \<open>The reading loop; \<open>None\<close> is a read error, the end of the list the end of the file.\<close>

fun read_cues :: "demux_stream list \<Rightarrow> int \<Rightarrow> rat \<Rightarrow> rat \<Rightarrow> sub_event list \<Rightarrow> cue list option" where
  "read_cues streams subIdx startSec endSec [] = Some []"
| "read_cues streams subIdx startSec endSec (SubReadError # es) = None"
| "read_cues streams subIdx startSec endSec (SubPacket si pts dur data # es) =
     (let psec = packet_sec streams si pts
      in if endSec < psec then Some []
         else if si = subIdx \<and> startSec - 1 \<le> psec
         then map_option ((#) \<lparr>cue_start = psec, cue_end = psec + packet_sec streams subIdx dur, cue_data = data\<rparr>)
                (read_cues streams subIdx startSec endSec es)
         else read_cues streams subIdx startSec endSec es)"

section \<open>Text of a packet\<close>

fun SplitN :: "char \<Rightarrow> nat \<Rightarrow> string \<Rightarrow> string list" where
  "SplitN c 0 s = []"
| "SplitN c (Suc 0) s = [s]"
| "SplitN c (Suc (Suc n)) s =
     (if c \<in> set s
      then takeWhile (\<lambda>x. x \<noteq> c) s # SplitN c (Suc n) (tl (dropWhile (\<lambda>x. x \<noteq> c) s))
      else [s])"

text \<open>\<^verbatim>\<open>strings.ReplaceAll\<close> for a pattern of two different characters.\<close>

fun replace_pair :: "char \<Rightarrow> char \<Rightarrow> string \<Rightarrow> string \<Rightarrow> string" where
  "replace_pair a b r (x # y # s) =
     (if x = a \<and> y = b then r @ replace_pair a b r s else x # replace_pair a b r (y # s))"
| "replace_pair a b r [x] = [x]"
| "replace_pair a b r [] = []"

function stripASSTags :: "string \<Rightarrow> string" where
  "stripASSTags s =
     (if CHR ''{'' \<notin> set s then s
      else
        let before = takeWhile (\<lambda>x. x \<noteq> CHR ''{'') s; rest = dropWhile (\<lambda>x. x \<noteq> CHR ''{'') s
        in if CHR ''}'' \<notin> set rest then s
           else stripASSTags (before @ tl (dropWhile (\<lambda>x. x \<noteq> CHR ''}'') rest)))"
  by pat_completeness auto
termination
proof (relation "measure length", goal_cases)
  case (2 s before rest)
  have "dropWhile (\<lambda>x. x \<noteq> CHR ''}'') rest \<noteq> []" using 2(4) by (auto simp: dropWhile_eq_Nil_conv)
  then have "length (tl (dropWhile (\<lambda>x. x \<noteq> CHR ''}'') rest)) < length rest"
    using length_dropWhile_le [of "\<lambda>x. x \<noteq> CHR ''}''" rest] by (cases "dropWhile (\<lambda>x. x \<noteq> CHR ''}'') rest") auto
  moreover have "length before + length rest = length s"
    using 2(2,3) by (metis length_append takeWhile_dropWhile_id)
  ultimately show ?case by simp
qed simp

declare stripASSTags.simps [simp del]

abbreviation newline :: string where "newline \<equiv> [CHR 0x0A]"

definition subtitleText :: "string \<Rightarrow> string \<Rightarrow> string" where
  "subtitleText codec data =
     (if codec \<in> {''ass'', ''ssa''} then
        let parts = SplitN (CHR '','') 9 data;
            text = stripASSTags (if length parts = 9 then parts ! 8 else data)
        in TrimSpace (replace_pair (CHR 0x5C) (CHR ''n'') newline (replace_pair (CHR 0x5C) (CHR ''N'') newline text))
      else if codec = ''mov_text'' then (if 2 \<le> length data then TrimSpace (drop 2 data) else '''')
      else TrimSpace data)"

section \<open>Times\<close>

text \<open>\<^verbatim>\<open>%02d\<close> and \<^verbatim>\<open>%03d\<close> of a number that is not negative.\<close>

definition zero_pad :: "nat \<Rightarrow> int \<Rightarrow> string" where
  "zero_pad w n = replicate (w - length (Itoa n)) (CHR ''0'') @ Itoa n"

definition assTime :: "rat \<Rightarrow> string" where
  "assTime sec =
     (let cs0 = trunc_rat ((if sec < 0 then 0 else sec) * 100 + 1 / 2);
          h = cs0 div 360000; cs1 = cs0 mod 360000; m = cs1 div 6000; cs2 = cs1 mod 6000; s = cs2 div 100; cs = cs2 mod 100
      in Itoa h @ '':'' @ zero_pad 2 m @ '':'' @ zero_pad 2 s @ ''.'' @ zero_pad 2 cs)"

definition vttTime :: "rat \<Rightarrow> string" where
  "vttTime sec =
     (let ms0 = trunc_rat ((if sec < 0 then 0 else sec) * 1000 + 1 / 2);
          h = ms0 div 3600000; ms1 = ms0 mod 3600000; m = ms1 div 60000; ms2 = ms1 mod 60000; s = ms2 div 1000;
          ms = ms2 mod 1000
      in zero_pad 2 h @ '':'' @ zero_pad 2 m @ '':'' @ zero_pad 2 s @ ''.'' @ zero_pad 3 ms)"

section \<open>Documents\<close>

definition assDialogue :: "rat \<Rightarrow> rat \<Rightarrow> string \<Rightarrow> string" where
  "assDialogue start end data =
     (let p = SplitN (CHR '','') 9 data
      in if length p < 9
         then ''Dialogue: 0,'' @ assTime start @ '','' @ assTime end @ '',Default,,0,0,0,,'' @ data
         else ''Dialogue: '' @ p ! 1 @ '','' @ assTime start @ '','' @ assTime end @ '','' @
           p ! 2 @ '','' @ p ! 3 @ '','' @ p ! 4 @ '','' @ p ! 5 @ '','' @ p ! 6 @ '','' @ p ! 7 @ '','' @ p ! 8)"

definition render_ass :: "string \<Rightarrow> cue list \<Rightarrow> string" where
  "render_ass header cues =
     (if suffix newline header then header else header @ newline) @
     concat (map (\<lambda>c. assDialogue (cue_start c) (cue_end c) (cue_data c) @ newline) cues)"

definition vtt_cue :: "string \<Rightarrow> cue \<Rightarrow> string" where
  "vtt_cue codec c =
     (let text = subtitleText codec (cue_data c)
      in if TrimSpace text = '''' then ''''
         else vttTime (cue_start c) @ '' --> '' @ vttTime (cue_end c) @ newline @ text @ newline @ newline)"

definition render_vtt :: "string \<Rightarrow> cue list \<Rightarrow> string" where
  "render_vtt codec cues = ''WEBVTT'' @ newline @ newline @ concat (map (vtt_cue codec) cues)"

datatype subtitle_error = SubTrackNotFound int | SubUnsupported | SubRead | SubOpen

text \<open>\<open>packets\<close> is what the demuxer delivers after that seek, from the start of the file without one.\<close>

definition SubtitleWindow ::
  "demux_stream list \<Rightarrow> ((int \<times> int) option \<Rightarrow> sub_event list) \<Rightarrow> int \<Rightarrow> rat \<Rightarrow> rat \<Rightarrow> string \<Rightarrow> subtitle_error + string"
where
  "SubtitleWindow streams packets subRel startSec endSec format =
     (let subIdx = find_sub subRel 0 streams; sub = streams ! nat subIdx; codec = ds_Codec sub
      in if subIdx < 0 then Inl (SubTrackNotFound subRel)
         else if \<not> subtitleTextCodec codec then Inl SubUnsupported
         else case read_cues streams subIdx startSec endSec (packets (subtitle_seek streams subIdx startSec)) of
                None \<Rightarrow> Inl SubRead
              | Some cues \<Rightarrow>
                  Inr (if format = ''ass'' \<and> codec \<in> {''ass'', ''ssa''} then render_ass (ds_ExtraData sub) cues
                       else render_vtt codec cues))"

section \<open>Times read back\<close>

text \<open>A reader of the two formats: hours, minutes, seconds and a fraction with \<open>unit\<close> parts to the second.\<close>

definition read_time :: "int \<Rightarrow> string \<Rightarrow> int option" where
  "read_time unit s =
     (case split_on (CHR '':'') s of
        [h, m, sf] \<Rightarrow>
          (case split_on (CHR ''.'') sf of
             [sec, f] \<Rightarrow>
               (case (parse_nat h, parse_nat m, parse_nat sec, parse_nat f) of
                  (Some h, Some m, Some sec, Some f) \<Rightarrow> Some (((h * 60 + m) * 60 + sec) * unit + f)
                | _ \<Rightarrow> None)
           | _ \<Rightarrow> None)
      | _ \<Rightarrow> None)"

lemma dec_digits_zeros: "dec_digits 0 (replicate k (CHR ''0'') @ s) = dec_digits 0 s"
  by (induction k) (simp_all add: digit_val_def)

lemma parse_nat_zero_pad: "0 \<le> n \<Longrightarrow> parse_nat (zero_pad w n) = Some n"
proof -
  assume n: "0 \<le> n"
  then have "parse_nat (Itoa n) = Some n" by (simp add: Itoa_def parse_nat_dec_nat)
  then show ?thesis using n by (auto simp: parse_nat_def zero_pad_def dec_digits_zeros split: if_splits)
qed

lemma parse_nat_Itoa: "0 \<le> n \<Longrightarrow> parse_nat (Itoa n) = Some n"
  by (simp add: Itoa_def parse_nat_dec_nat)

lemma digits_apart: "0 \<le> n \<Longrightarrow> digit_val c = None \<Longrightarrow> c \<notin> set (Itoa n) \<and> c \<notin> set (zero_pad w n)"
  using dec_nat_digits [of c "nat n"] by (auto simp: Itoa_def zero_pad_def digit_val_def)

lemma read_time_digits:
  assumes "0 \<le> h" "0 \<le> m" "0 \<le> s" "0 \<le> f" "hs = Itoa h \<or> hs = zero_pad 2 h"
  shows "read_time unit (hs @ '':'' @ zero_pad 2 m @ '':'' @ zero_pad 2 s @ ''.'' @ zero_pad w f) =
    Some (((h * 60 + m) * 60 + s) * unit + f)"
proof -
  have c: "digit_val (CHR '':'') = None" "digit_val (CHR ''.'') = None" by (simp_all add: digit_val_def)
  note apart = digits_apart [OF _ c(1)] digits_apart [OF _ c(2)]
  have p: "parse_nat hs = Some h" using assms(1,5) by (auto simp: parse_nat_zero_pad parse_nat_Itoa)
  have "CHR '':'' \<notin> set hs" using assms(1,5) apart(1) by auto
  moreover have "CHR '':'' \<notin> set (zero_pad 2 s @ ''.'' @ zero_pad w f)" using assms(3,4) apart(1) by auto
  ultimately have "split_on (CHR '':'') (hs @ '':'' @ zero_pad 2 m @ '':'' @ zero_pad 2 s @ ''.'' @ zero_pad w f) =
      [hs, zero_pad 2 m, zero_pad 2 s @ ''.'' @ zero_pad w f]"
    using assms(2) apart(1) by (simp add: split_on_append split_on_none)
  moreover have "split_on (CHR ''.'') (zero_pad 2 s @ ''.'' @ zero_pad w f) = [zero_pad 2 s, zero_pad w f]"
    using assms(3,4) apart(2) by (simp add: split_on_append split_on_none)
  ultimately show ?thesis using p assms(2-4) by (simp add: read_time_def parse_nat_zero_pad)
qed

lemma units_join: "t = q * (3600 * u) + r \<Longrightarrow> r = q2 * (60 * u) + r2 \<Longrightarrow> r2 = q3 * u + r3 \<Longrightarrow>
  ((q * 60 + q2) * 60 + q3) * u + r3 = t" for t u :: int
  by (simp add: algebra_simps)

lemma trunc_round: "0 \<le> q \<Longrightarrow> 0 \<le> trunc_rat (q + 1 / 2) \<and> \<bar>of_int (trunc_rat (q + 1 / 2)) - q\<bar> \<le> 1 / 2"
proof -
  assume "0 \<le> q"
  then have "trunc_rat (q + 1 / 2) = \<lfloor>q + 1 / 2\<rfloor>" by (simp add: trunc_rat_def)
  moreover have "of_int \<lfloor>q + 1 / 2\<rfloor> \<le> q + 1 / 2" "q + 1 / 2 < of_int \<lfloor>q + 1 / 2\<rfloor> + 1" by linarith+
  moreover have "0 \<le> \<lfloor>q + 1 / 2\<rfloor>" using \<open>0 \<le> q\<close> by simp
  ultimately show ?thesis by (simp only: abs_le_iff) (simp add: field_simps)
qed

lemma read_vttTime:
  assumes "0 \<le> sec"
  shows "read_time 1000 (vttTime sec) = Some (trunc_rat (sec * 1000 + 1 / 2))"
proof -
  let ?t = "trunc_rat (sec * 1000 + 1 / 2)"
  have "0 \<le> ?t" using trunc_round [of "sec * 1000"] assms by simp
  then have "read_time 1000 (vttTime sec) =
      Some (((?t div 3600000 * 60 + ?t mod 3600000 div 60000) * 60 + ?t mod 3600000 mod 60000 div 1000) * 1000 +
        ?t mod 3600000 mod 60000 mod 1000)"
    unfolding vttTime_def Let_def using assms by (simp only: linorder_not_le [symmetric] if_False) (subst read_time_digits [where h = "?t div 3600000"], simp_all)
  also have "\<dots> = Some ?t" by (intro arg_cong [where f = Some] units_join) simp_all
  finally show ?thesis .
qed

lemma read_assTime:
  assumes "0 \<le> sec"
  shows "read_time 100 (assTime sec) = Some (trunc_rat (sec * 100 + 1 / 2))"
proof -
  let ?t = "trunc_rat (sec * 100 + 1 / 2)"
  have "0 \<le> ?t" using trunc_round [of "sec * 100"] assms by simp
  then have "read_time 100 (assTime sec) =
      Some (((?t div 360000 * 60 + ?t mod 360000 div 6000) * 60 + ?t mod 360000 mod 6000 div 100) * 100 +
        ?t mod 360000 mod 6000 mod 100)"
    unfolding assTime_def Let_def using assms by (simp only: linorder_not_le [symmetric] if_False) (subst read_time_digits [where h = "?t div 360000"], simp_all)
  also have "\<dots> = Some ?t" by (intro arg_cong [where f = Some] units_join) simp_all
  finally show ?thesis .
qed

text \<open>
  The times of both formats read back: the text of a time that is not negative denotes the nearest
  millisecond (WebVTT) or centisecond (ASS) of it.
\<close>

theorem subtitle_times_roundtrip:
  assumes "0 \<le> sec"
  shows "\<exists>ms cs. read_time 1000 (vttTime sec) = Some ms \<and> \<bar>of_int ms - sec * 1000\<bar> \<le> 1 / 2 \<and>
    read_time 100 (assTime sec) = Some cs \<and> \<bar>of_int cs - sec * 100\<bar> \<le> 1 / 2"
  using assms read_vttTime [OF assms] read_assTime [OF assms] trunc_round [of "sec * 1000"] trunc_round [of "sec * 100"]
  by simp

theorem subtitle_times_roundtrip_witness:
  "\<exists>ms cs. read_time 1000 (vttTime (7384.5)) = Some ms \<and> \<bar>of_int ms - 7384500\<bar> \<le> (1 / 2 :: rat) \<and>
    read_time 100 (assTime (7384.5)) = Some cs \<and> \<bar>of_int cs - 738450\<bar> \<le> (1 / 2 :: rat)"
  using subtitle_times_roundtrip [of "7384.5"] by simp

section \<open>Fields of a dialogue line\<close>

lemma SplitN_join:
  "ps \<noteq> [] \<Longrightarrow> length ps \<le> n \<Longrightarrow> \<forall>p \<in> set (butlast ps). c \<notin> set p \<Longrightarrow> length ps = n \<or> c \<notin> set (last ps) \<Longrightarrow>
   SplitN c n (join [c] ps) = ps"
proof (induction ps arbitrary: n)
  case (Cons p ps)
  show ?case
  proof (cases ps)
    case Nil
    with Cons obtain m where "n = Suc m" by (cases n) auto
    with Cons Nil show ?thesis by (cases m) auto
  next
    case (Cons q qs)
    with Cons.prems(2) obtain m where m: "n = Suc (Suc m)" by (metis Suc_le_D length_Cons Suc_le_mono)
    have p: "c \<notin> set p" using Cons.prems(3) Cons by simp
    have "takeWhile (\<lambda>x. x \<noteq> c) (p @ c # w) = p \<and> dropWhile (\<lambda>x. x \<noteq> c) (p @ c # w) = c # w" for w
      using p by (auto simp: takeWhile_append dropWhile_append)
    then show ?thesis using Cons.IH [of "Suc m"] Cons.prems Cons m by simp
  qed
qed simp

lemma SplitN_parts: "0 < n \<Longrightarrow> SplitN c n s \<noteq> [] \<and> length (SplitN c n s) \<le> n \<and> (\<forall>p \<in> set (butlast (SplitN c n s)). c \<notin> set p)"
proof (induction c n s rule: SplitN.induct)
  case (3 c n s)
  then show ?case by (auto dest: set_takeWhileD)
qed simp_all

lemma assTime_no_comma: "CHR '','' \<notin> set (assTime sec)"
proof -
  have d: "digit_val (CHR '','') = None" by (simp add: digit_val_def)
  have "0 \<le> trunc_rat ((if sec < 0 then 0 else sec) * 100 + 1 / 2)"
    using trunc_round [of "(if sec < 0 then 0 else sec) * 100"] by simp
  then show ?thesis unfolding assTime_def Let_def by (simp add: digits_apart [OF _ d])
qed

text \<open>Splitting the line that was built at nine commas gives back every field of the packet but its read order.\<close>

lemma assDialogue_fields:
  assumes "length (SplitN (CHR '','') 9 data) = 9"
  shows "SplitN (CHR '','') 10 (assDialogue start end data) =
    (''Dialogue: '' @ SplitN (CHR '','') 9 data ! 1) # assTime start # assTime end # drop 2 (SplitN (CHR '','') 9 data)"
proof -
  let ?p = "SplitN (CHR '','') 9 data"
  obtain p0 p1 p2 p3 p4 p5 p6 p7 p8 where p: "?p = [p0, p1, p2, p3, p4, p5, p6, p7, p8]"
  proof -
    have i: "[0..<9] = [0, 1, 2, 3, 4, 5, 6, 7, 8 :: nat]" by (simp add: upt_rec)
    have "?p = map ((!) ?p) [0..<9]" using map_nth [of ?p] assms by (simp only:)
    then show ?thesis unfolding i list.map by (rule that)
  qed
  have c: "\<forall>q \<in> {p1, p2, p3, p4, p5, p6, p7}. CHR '','' \<notin> set q"
    using SplitN_parts [of 9 "CHR '',''" data] unfolding p by simp
  have a: "assDialogue start end data =
      join [CHR '',''] [''Dialogue: '' @ p1, assTime start, assTime end, p2, p3, p4, p5, p6, p7, p8]"
    unfolding assDialogue_def Let_def p by (simp only: list.size nth_Cons_numeral nth_Cons_0 One_nat_def nth_Cons_Suc join.simps append_assoc) simp
  have "SplitN (CHR '','') 10 (assDialogue start end data) = [''Dialogue: '' @ p1, assTime start, assTime end, p2, p3, p4, p5, p6, p7, p8]"
    unfolding a by (rule SplitN_join) (use c assTime_no_comma in simp_all)
  then show ?thesis by (simp add: p numeral_2_eq_2)
qed

section \<open>Override tags\<close>

text \<open>What is left after stripping has no tag that is closed: no brace closes after the first one that opens.\<close>

lemma stripASSTags_clean: "CHR ''}'' \<notin> set (dropWhile (\<lambda>x. x \<noteq> CHR ''{'') (stripASSTags s))"
proof (induction s rule: stripASSTags.induct)
  case (1 s)
  let ?r = "dropWhile (\<lambda>x. x \<noteq> CHR ''{'') s"
  let ?t = "takeWhile (\<lambda>x. x \<noteq> CHR ''{'') s @ tl (dropWhile (\<lambda>x. x \<noteq> CHR ''}'') ?r)"
  show ?case
  proof (cases "CHR ''{'' \<in> set s \<and> CHR ''}'' \<in> set ?r")
    case True
    then have "stripASSTags s = stripASSTags ?t" by (subst stripASSTags.simps) (simp only: Let_def simp_thms if_False)
    moreover have "CHR ''}'' \<notin> set (dropWhile (\<lambda>x. x \<noteq> CHR ''{'') (stripASSTags ?t))"
      by (rule 1 [OF _ refl refl]) (use True in simp_all)
    ultimately show ?thesis by (simp only: simp_thms)
  next
    case False
    then have "stripASSTags s = s" by (subst stripASSTags.simps) (auto simp only: Let_def simp_thms if_True if_False split: if_splits)
    moreover have "?r = []" if "CHR ''{'' \<notin> set s" using that by (auto simp only: dropWhile_eq_Nil_conv)
    ultimately show ?thesis using False by (cases "CHR ''{'' \<in> set s") (simp_all only: list.set empty_iff simp_thms)
  qed
qed

lemma stripASSTags_plain: "CHR ''{'' \<notin> set s \<Longrightarrow> stripASSTags s = s"
  by (subst stripASSTags.simps) simp

text \<open>
  The text of a \<^verbatim>\<open>mov_text\<close> packet is cut at its start only: the length it begins with is not used, so boxes that
  follow the text are shown as text.
\<close>

lemma mov_text_trailer_shown: "subtitleText ''mov_text'' (CHR 0x00 # CHR 0x02 # ''hi'' @ ''styl'') = ''histyl''"
  by code_simp

section \<open>Every cue of the window\<close>

primrec ev_sec :: "demux_stream list \<Rightarrow> sub_event \<Rightarrow> rat" where
  "ev_sec streams (SubPacket si pts dur data) = packet_sec streams si pts"
| "ev_sec streams SubReadError = 0"

text \<open>
  Packets come in the order of their times up to a slack: a decoder that reorders frames makes the times of
  the video packets go back and forth.
\<close>

primrec near_order :: "demux_stream list \<Rightarrow> rat \<Rightarrow> sub_event list \<Rightarrow> bool" where
  "near_order streams slack [] \<longleftrightarrow> True"
| "near_order streams slack (e # es) \<longleftrightarrow>
     (\<forall>p \<in> set es. ev_sec streams e \<le> ev_sec streams p + slack) \<and> near_order streams slack es"

definition cue_of :: "demux_stream list \<Rightarrow> int \<Rightarrow> int \<Rightarrow> int \<Rightarrow> string \<Rightarrow> cue" where
  "cue_of streams subIdx pts dur data =
     \<lparr>cue_start = packet_sec streams subIdx pts,
      cue_end = packet_sec streams subIdx pts + packet_sec streams subIdx dur, cue_data = data\<rparr>"

lemma read_cues_total: "SubReadError \<notin> set es \<Longrightarrow> \<exists>cues. read_cues streams subIdx a b es = Some cues"
  by (induction streams subIdx a b es rule: read_cues.induct) (auto simp: Let_def)

lemma read_cues_complete:
  "near_order streams slack es \<Longrightarrow> read_cues streams subIdx a b es = Some cues \<Longrightarrow>
   SubPacket subIdx pts dur data \<in> set es \<Longrightarrow> a - 1 \<le> packet_sec streams subIdx pts \<Longrightarrow>
   packet_sec streams subIdx pts + slack \<le> b \<Longrightarrow> 0 \<le> slack \<Longrightarrow>
   cue_of streams subIdx pts dur data \<in> set cues"
proof (induction streams subIdx a b es arbitrary: cues rule: read_cues.induct)
  case (3 streams subIdx a b si p d x es)
  let ?s = "packet_sec streams si p"
  have "\<not> b < ?s"
  proof (cases "SubPacket subIdx pts dur data = SubPacket si p d x")
    case True
    then show ?thesis using 3(7,8) by simp
  next
    case False
    then have "SubPacket subIdx pts dur data \<in> set es" using 3(5) by auto
    then have "?s \<le> packet_sec streams subIdx pts + slack" using 3(3) by (metis ev_sec.simps(1) near_order.simps(2))
    then show ?thesis using 3(7) by simp
  qed
  then show ?case using 3 by (cases "si = subIdx \<and> a - 1 \<le> ?s") (auto simp: Let_def cue_of_def)
qed simp_all

lemma read_cues_sound:
  "read_cues streams subIdx a b es = Some cues \<Longrightarrow> c \<in> set cues \<Longrightarrow>
   \<exists>pts dur data. SubPacket subIdx pts dur data \<in> set es \<and> c = cue_of streams subIdx pts dur data \<and>
     a - 1 \<le> cue_start c \<and> cue_start c \<le> b"
proof (induction streams subIdx a b es arbitrary: cues rule: read_cues.induct)
  case (3 streams subIdx a b si p d x es)
  then show ?case by (auto simp: Let_def cue_of_def split: if_splits) blast+
qed simp_all

end
