(* ===== verification/Subtitles.thy ===== *)
theory Subtitles
  imports SubtitleText
begin

text \<open>
  The subtitle endpoint (\<^verbatim>\<open>handlers/subtitles.go\<close>): the cache of extracted text, the two ways to fill it -- a
  window around the playhead or the whole file -- and the answer to a request. Runs of one key are shared by
  concurrent requests (\<^verbatim>\<open>singleflight\<close>), so a run is one step on the cache and its followers see its error.
  What a run meets (the metadata, the executor's answer, opening and reading each track, whether its
  deadline has passed) is an argument; log lines are left out.
\<close>

section \<open>Formats\<close>

definition is_alnum :: "char \<Rightarrow> bool" where
  "is_alnum c \<longleftrightarrow>
     (let n = of_char c :: nat in (97 \<le> n \<and> n \<le> 122) \<or> (65 \<le> n \<and> n \<le> 90) \<or> (48 \<le> n \<and> n \<le> 57))"

definition resolveSubtitleFormat :: "string \<Rightarrow> string \<times> string" where
  "resolveSubtitleFormat format =
     (if format = '''' \<or> 10 \<le> length format \<or> \<not> list_all is_alnum format then (''webvtt'', ''text/vtt; charset=utf-8'')
      else
        (format,
         if ToLower format \<in> {''ass'', ''ssa''} then ''text/x-ssa; charset=utf-8''
         else if ToLower format \<in> {''srt'', ''subrip''} then ''text/srt; charset=utf-8''
         else ''text/plain; charset=utf-8''))"

section \<open>State and runs\<close>

record sub_state =
  su_cache :: "(string \<times> string) list"
  su_extracted :: "string list"
  su_winBad :: "string list"

datatype extract_error = ExDeadline | ExCanceled | ExMetadata | ExOpenFailed | ExFailed

record sub_env =
  se_meta :: "ClientMetadata option"
  se_admit :: "extract_error option"
  se_opens :: "int \<Rightarrow> bool"
  se_window :: "int \<Rightarrow> rat \<Rightarrow> rat \<Rightarrow> string \<Rightarrow> string option"
  se_expired :: "int \<Rightarrow> extract_error option"

definition file_key :: "string \<Rightarrow> string \<Rightarrow> string" where
  "file_key h f = h @ ''_'' @ f"

definition full_key :: "string \<Rightarrow> string \<Rightarrow> string \<Rightarrow> string \<Rightarrow> string" where
  "full_key h f track format = h @ ''_'' @ f @ ''_'' @ track @ ''_'' @ format"

definition window_key :: "string \<Rightarrow> string \<Rightarrow> string \<Rightarrow> string \<Rightarrow> int \<Rightarrow> string" where
  "window_key h f track format bucket = full_key h f track format @ ''_w'' @ Itoa bucket"

definition wholeFileEndSec :: rat where "wholeFileEndSec = 10 ^ 12"
definition subtitleWindowSec :: int where "subtitleWindowSec = 15"
definition subtitleWindowLead :: int where "subtitleWindowLead = 2"

definition track_format :: "ClientTrack \<Rightarrow> string" where
  "track_format t = (if ToLower (ct_Codec t) \<in> {''ass'', ''ssa''} then ''ass'' else ''webvtt'')"

definition text_tracks :: "ClientMetadata \<Rightarrow> ClientTrack list" where
  "text_tracks md = filter (\<lambda>t. ct_Type t = ''subtitle'' \<and> isTextSubtitleCodec (ct_Codec t)) (md_Tracks md)"

definition sub_store :: "string \<Rightarrow> string \<Rightarrow> sub_state \<Rightarrow> sub_state" where
  "sub_store key data s = s\<lparr>su_cache := AList.update key data (su_cache s)\<rparr>"

text \<open>The loop of \<^verbatim>\<open>extractAllSubtitles\<close> over the text tracks.\<close>

fun all_tracks :: "sub_env \<Rightarrow> string \<Rightarrow> string \<Rightarrow> ClientTrack list \<Rightarrow> sub_state \<Rightarrow> sub_state \<times> extract_error option" where
  "all_tracks env h f [] s = (s, None)"
| "all_tracks env h f (t # ts) s =
     (if \<not> se_opens env (ct_RelIndex t) then all_tracks env h f ts s
      else case se_window env (ct_RelIndex t) 0 wholeFileEndSec (track_format t) of
             None \<Rightarrow> (case se_expired env (ct_RelIndex t) of
                        Some e \<Rightarrow> (s, Some e) | None \<Rightarrow> all_tracks env h f ts s)
           | Some data \<Rightarrow>
               if data = '''' then all_tracks env h f ts s
               else all_tracks env h f ts (sub_store (full_key h f (Itoa (ct_RelIndex t)) (track_format t)) data s))"

definition extractAllSubtitles :: "sub_env \<Rightarrow> string \<Rightarrow> string \<Rightarrow> sub_state \<Rightarrow> sub_state \<times> extract_error option" where
  "extractAllSubtitles env h f s =
     (case se_meta env of
        None \<Rightarrow> (s, Some ExMetadata)
      | Some md \<Rightarrow>
          (case se_admit env of
             Some e \<Rightarrow> (s, Some e)
           | None \<Rightarrow> all_tracks env h f (text_tracks md) s))"

text \<open>
  The value of \<^verbatim>\<open>strconv.Atoi\<close> when its error is ignored: zero for text that is no number, the nearest bound
  for a number out of range.
\<close>

definition Atoi_value :: "string \<Rightarrow> int" where
  "Atoi_value s =
     (case Atoi s of
        Some n \<Rightarrow> n
      | None \<Rightarrow>
          (case s of
             [] \<Rightarrow> 0
           | c # cs \<Rightarrow>
               if c = CHR ''-'' then (case parse_nat cs of Some n \<Rightarrow> - (2 ^ 63) | None \<Rightarrow> 0)
               else (case parse_nat (if c = CHR ''+'' then cs else s) of Some n \<Rightarrow> 2 ^ 63 - 1 | None \<Rightarrow> 0)))"

definition extractSingleSubtitle ::
  "sub_env \<Rightarrow> string \<Rightarrow> string \<Rightarrow> string \<Rightarrow> sub_state \<Rightarrow> sub_state \<times> (extract_error + string)"
where
  "extractSingleSubtitle env track format key s =
     (case se_admit env of
        Some e \<Rightarrow> (s, Inl e)
      | None \<Rightarrow>
          let rel = Atoi_value track
          in if \<not> se_opens env rel then (s, Inl ExOpenFailed)
             else case se_window env rel 0 wholeFileEndSec format of
                    None \<Rightarrow> (s, Inl (case se_expired env rel of Some e \<Rightarrow> e | None \<Rightarrow> ExFailed))
                  | Some data \<Rightarrow> (sub_store key data s, Inr data))"

text \<open>The loop of \<^verbatim>\<open>extractWindowSubtitles\<close>; the number is the count of tracks stored.\<close>

fun window_tracks ::
  "sub_env \<Rightarrow> string \<Rightarrow> string \<Rightarrow> int \<Rightarrow> rat \<Rightarrow> rat \<Rightarrow> ClientTrack list \<Rightarrow> nat \<Rightarrow> sub_state \<Rightarrow> sub_state \<times> (extract_error + nat)"
where
  "window_tracks env h f bucket a b [] n s = (s, Inr n)"
| "window_tracks env h f bucket a b (t # ts) n s =
     (if \<not> se_opens env (ct_RelIndex t)
      then (case se_expired env (ct_RelIndex t) of
              Some e \<Rightarrow> (s, Inl e) | None \<Rightarrow> window_tracks env h f bucket a b ts n s)
      else case se_window env (ct_RelIndex t) a b (track_format t) of
             None \<Rightarrow> (case se_expired env (ct_RelIndex t) of
                        Some e \<Rightarrow> (s, Inl e) | None \<Rightarrow> window_tracks env h f bucket a b ts n s)
           | Some data \<Rightarrow>
               window_tracks env h f bucket a b ts (n + 1)
                 (sub_store (window_key h f (Itoa (ct_RelIndex t)) (track_format t) bucket) data s))"

definition window_start :: "int \<Rightarrow> rat" where
  "window_start bucket = (if bucket - subtitleWindowLead < 0 then 0 else of_int (bucket - subtitleWindowLead))"

definition window_end :: "int \<Rightarrow> rat" where
  "window_end bucket = of_int (bucket + subtitleWindowSec + subtitleWindowLead)"

definition extractWindowSubtitles ::
  "sub_env \<Rightarrow> string \<Rightarrow> string \<Rightarrow> int \<Rightarrow> sub_state \<Rightarrow> sub_state \<times> (extract_error + nat)"
where
  "extractWindowSubtitles env h f bucket s =
     (case se_meta env of
        None \<Rightarrow> (s, Inl ExMetadata)
      | Some md \<Rightarrow>
          (case se_admit env of
             Some e \<Rightarrow> (s, Inl e)
           | None \<Rightarrow> window_tracks env h f bucket (window_start bucket) (window_end bucket) (text_tracks md) 0 s))"

section \<open>Requests\<close>

text \<open>The two functions run under the singleflight group.\<close>

definition full_run :: "sub_env \<Rightarrow> string \<Rightarrow> string \<Rightarrow> sub_state \<Rightarrow> sub_state \<times> extract_error option" where
  "full_run env h f s =
     (if file_key h f \<in> set (su_extracted s) then (s, None)
      else case extractAllSubtitles env h f s of
             (s1, Some e) \<Rightarrow> (s1, Some e)
           | (s1, None) \<Rightarrow> (s1\<lparr>su_extracted := file_key h f # su_extracted s1\<rparr>, None))"

definition window_run ::
  "sub_env \<Rightarrow> string \<Rightarrow> string \<Rightarrow> string \<Rightarrow> int \<Rightarrow> sub_state \<Rightarrow> sub_state \<times> extract_error option"
where
  "window_run env h f key bucket s =
     (if map_of (su_cache s) key \<noteq> None then (s, None)
      else case extractWindowSubtitles env h f bucket s of
             (s1, Inl e) \<Rightarrow> (s1, Some e)
           | (s1, Inr n) \<Rightarrow> (if n = 0 then s1\<lparr>su_winBad := file_key h f # su_winBad s1\<rparr> else s1, None))"

text \<open>
  \<open>run\<close> and \<open>wrun\<close> are the flights a request leads or joins; \<open>env\<close> is what its own single extraction meets.
\<close>

definition getOrExtractSubtitle ::
  "(sub_state \<Rightarrow> sub_state \<times> extract_error option) \<Rightarrow> sub_env \<Rightarrow> string \<Rightarrow> string \<Rightarrow> string \<Rightarrow> string \<Rightarrow> sub_state \<Rightarrow>
   sub_state \<times> (extract_error + string)"
where
  "getOrExtractSubtitle run env h f track format s =
     (let key = full_key h f track format
      in case map_of (su_cache s) key of
           Some d \<Rightarrow> (s, Inr d)
         | None \<Rightarrow>
             (case (if file_key h f \<in> set (su_extracted s) then (s, None) else run s) of
                (s1, Some e) \<Rightarrow> (s1, Inl e)
              | (s1, None) \<Rightarrow>
                  (case map_of (su_cache s1) key of
                     Some d \<Rightarrow> (s1, Inr d)
                   | None \<Rightarrow> extractSingleSubtitle env track format key s1)))"

datatype sub_result = SubData string | SubNotReady | SubFailed extract_error

definition getOrExtractSubtitleWindow ::
  "(sub_state \<Rightarrow> sub_state \<times> extract_error option) \<Rightarrow> (sub_state \<Rightarrow> sub_state \<times> extract_error option) \<Rightarrow> sub_env \<Rightarrow>
   string \<Rightarrow> string \<Rightarrow> string \<Rightarrow> string \<Rightarrow> int \<Rightarrow> sub_state \<Rightarrow> sub_state \<times> sub_result"
where
  "getOrExtractSubtitleWindow wrun run env h f track format bucket s =
     (let key = window_key h f track format bucket
      in case map_of (su_cache s) key of
           Some d \<Rightarrow> (s, SubData d)
         | None \<Rightarrow>
             (case wrun s of
                (s1, Some e) \<Rightarrow> (s1, if e = ExDeadline then SubNotReady else SubFailed e)
              | (s1, None) \<Rightarrow>
                  (case map_of (su_cache s1) key of
                     Some d \<Rightarrow> (s1, SubData d)
                   | None \<Rightarrow>
                       (case getOrExtractSubtitle run env h f track format s1 of
                          (s2, Inl e) \<Rightarrow> (s2, SubFailed e) | (s2, Inr d) \<Rightarrow> (s2, SubData d)))))"

section \<open>The answer\<close>

text \<open>\<^verbatim>\<open>hash/fnv\<close>'s 64-bit FNV-1a, and \<^verbatim>\<open>%x\<close> of the sum.\<close>

definition fnv1a :: "string \<Rightarrow> 64 word" where
  "fnv1a s = fold (\<lambda>c h. (xor h (of_char c)) * 1099511628211) s 14695981039346656037"

fun hex_nat :: "nat \<Rightarrow> string" where
  "hex_nat n = (if n < 16 then [hex_char n] else hex_nat (n div 16) @ [hex_char (n mod 16)])"

declare hex_nat.simps [simp del]

definition subtitle_etag :: "string \<Rightarrow> string" where
  "subtitle_etag data = CHR 0x22 # hex_nat (unat (fnv1a data)) @ [CHR 0x22]"

datatype sub_response = Sub200 string string string | Sub304 string | Sub202 | Sub500 | SubGone

text \<open>\<open>pf\<close> is \<^verbatim>\<open>strconv.ParseFloat\<close>.\<close>

definition subtitle_bucket :: "(string \<Rightarrow> rat option) \<Rightarrow> string \<Rightarrow> int" where
  "subtitle_bucket pf start =
     (let startSec = (case pf start of Some f \<Rightarrow> if 0 < f then trunc_rat f else 0 | None \<Rightarrow> 0)
      in startSec div subtitleWindowSec * subtitleWindowSec)"

definition subtitle_answer :: "string \<Rightarrow> string \<Rightarrow> bool \<Rightarrow> sub_result \<Rightarrow> sub_response" where
  "subtitle_answer contentType ifNoneMatch gone r =
     (case r of
        SubData data \<Rightarrow>
          let etag = subtitle_etag data
          in if ifNoneMatch \<noteq> '''' \<and> sublist etag ifNoneMatch then Sub304 etag else Sub200 contentType etag data
      | SubNotReady \<Rightarrow> if gone then SubGone else Sub202
      | SubFailed e \<Rightarrow> if gone then SubGone else Sub500)"

definition HandleGetSubtitles ::
  "(string \<Rightarrow> int \<Rightarrow> sub_state \<Rightarrow> sub_state \<times> extract_error option) \<Rightarrow> (sub_state \<Rightarrow> sub_state \<times> extract_error option) \<Rightarrow>
   sub_env \<Rightarrow> (string \<Rightarrow> rat option) \<Rightarrow> string \<Rightarrow> string \<Rightarrow> string \<Rightarrow> string \<Rightarrow> string \<Rightarrow> string \<Rightarrow> bool \<Rightarrow>
   sub_state \<Rightarrow> sub_state \<times> sub_response"
where
  "HandleGetSubtitles wrun run env pf h f track format start ifNoneMatch gone s =
     (let (subFormat, contentType) = resolveSubtitleFormat format
      in apsnd (subtitle_answer contentType ifNoneMatch gone)
           (if start \<noteq> '''' \<and> file_key h f \<notin> set (su_winBad s)
            then let bucket = subtitle_bucket pf start
                 in getOrExtractSubtitleWindow (wrun (window_key h f track subFormat bucket) bucket) run env h f track subFormat bucket s
            else apsnd (\<lambda>r. case r of Inl e \<Rightarrow> SubFailed e | Inr d \<Rightarrow> SubData d)
                   (getOrExtractSubtitle run env h f track subFormat s)))"

section \<open>Keys\<close>

definition plain :: "string \<Rightarrow> bool" where
  "plain s \<longleftrightarrow> CHR ''_'' \<notin> set s"

lemma plain_Itoa: "plain (Itoa n)"
proof -
  have "digit_val (CHR ''_'') = None" by (simp add: digit_val_def)
  then show ?thesis using dec_nat_digits [of "CHR ''_''"] by (auto simp: plain_def Itoa_def)
qed

lemma plain_format: "plain (fst (resolveSubtitleFormat format))"
  by (auto simp: resolveSubtitleFormat_def plain_def list_all_iff is_alnum_def Let_def)

lemma plain_track_format: "plain (track_format t)"
  by (simp add: track_format_def plain_def)

lemma full_key_inj:
  assumes "plain h" "plain f" "plain t" "plain m" "plain h'" "plain f'" "plain t'" "plain m'"
    and "full_key h f t m = full_key h' f' t' m'"
  shows "h = h' \<and> f = f' \<and> t = t' \<and> m = m'"
proof -
  have "split_on (CHR ''_'') (full_key h f t m) = [h, f, t, m]" if "plain h" "plain f" "plain t" "plain m" for h f t m
    using that by (simp add: full_key_def plain_def split_on_append split_on_none)
  then show ?thesis using assms by (metis list.inject)
qed

lemma window_key_parts:
  assumes "plain h" "plain f" "plain t" "plain m"
  shows "split_on (CHR ''_'') (window_key h f t m b) = [h, f, t, m, CHR ''w'' # Itoa b]"
  using assms plain_Itoa [of b]
  by (simp add: window_key_def full_key_def plain_def split_on_append split_on_none)

lemma full_key_parts:
  "plain h \<Longrightarrow> plain f \<Longrightarrow> plain t \<Longrightarrow> plain m \<Longrightarrow> split_on (CHR ''_'') (full_key h f t m) = [h, f, t, m]"
  by (simp add: full_key_def plain_def split_on_append split_on_none)

text \<open>
  The keys are parsed by nobody, so texts of the URL that contain an underscore can meet the key of another
  request: the whole-file key of one track is the window key of another.
\<close>

lemma keys_collide: "full_key h ''1_1'' ''x'' ''w15'' = window_key h ''1'' ''1'' ''x'' 15"
  by (simp add: full_key_def window_key_def) code_simp

section \<open>What a cached text is\<close>

text \<open>\<open>content h f rel a b m\<close>: what extracting track \<open>rel\<close> of a file between \<open>a\<close> and \<open>b\<close> in format \<open>m\<close> gives.\<close>

type_synonym sub_content = "string \<Rightarrow> string \<Rightarrow> int \<Rightarrow> rat \<Rightarrow> rat \<Rightarrow> string \<Rightarrow> string option"

definition entry_typed :: "sub_content \<Rightarrow> string \<Rightarrow> string \<Rightarrow> bool" where
  "entry_typed content k d \<longleftrightarrow>
     (\<exists>h f t m. plain h \<and> plain f \<and> plain t \<and> plain m \<and>
        (k = full_key h f t m \<and> content h f (Atoi_value t) 0 wholeFileEndSec m = Some d \<or>
         (\<exists>b. k = window_key h f t m b \<and> content h f (Atoi_value t) (window_start b) (window_end b) m = Some d)))"

definition cache_typed :: "sub_content \<Rightarrow> sub_state \<Rightarrow> bool" where
  "cache_typed content s \<longleftrightarrow> (\<forall>(k, d) \<in> set (su_cache s). entry_typed content k d)"

definition env_ok :: "sub_content \<Rightarrow> string \<Rightarrow> string \<Rightarrow> sub_env \<Rightarrow> bool" where
  "env_ok content h f env \<longleftrightarrow>
     (\<forall>rel a b m d. se_window env rel a b m = Some d \<longrightarrow> content h f rel a b m = Some d) \<and>
     (\<forall>md. se_meta env = Some md \<longrightarrow> (\<forall>t \<in> set (md_Tracks md). in_int64 (ct_RelIndex t)))"

lemma Itoa_inject: "Itoa a = Itoa b \<Longrightarrow> a = b"
proof -
  have inj: "m = n" if "dec_nat m = dec_nat n" for m n
    using arg_cong [OF that, of parse_nat] by (simp add: parse_nat_dec_nat)
  have minus: "CHR ''-'' # xs \<noteq> dec_nat n" for xs n using dec_nat_hd [of n] by (auto simp: digit_val_def)
  assume "Itoa a = Itoa b"
  then show "a = b"
    using minus [of "dec_nat (nat (- a))" "nat b"] minus [of "dec_nat (nat (- b))" "nat a"]
    by (auto simp: Itoa_def dest!: inj split: if_splits)
qed

lemma env_ok_window: "env_ok content h f env \<Longrightarrow> se_window env rel a b m = Some d \<Longrightarrow> content h f rel a b m = Some d"
  by (simp add: env_ok_def)

lemma Atoi_value_Itoa: "in_int64 n \<Longrightarrow> Atoi_value (Itoa n) = n"
  by (simp add: Atoi_value_def Atoi_Itoa)

lemma cache_typed_store: "cache_typed content s \<Longrightarrow> entry_typed content k d \<Longrightarrow> cache_typed content (sub_store k d s)"
  using set_al_update by (fastforce simp: cache_typed_def sub_store_def)

lemma full_typedI:
  "plain h \<Longrightarrow> plain f \<Longrightarrow> plain t \<Longrightarrow> plain m \<Longrightarrow> content h f (Atoi_value t) 0 wholeFileEndSec m = Some d \<Longrightarrow>
   entry_typed content (full_key h f t m) d"
  unfolding entry_typed_def by blast

lemma window_typedI:
  "plain h \<Longrightarrow> plain f \<Longrightarrow> plain t \<Longrightarrow> plain m \<Longrightarrow> content h f (Atoi_value t) (window_start b) (window_end b) m = Some d \<Longrightarrow>
   entry_typed content (window_key h f t m b) d"
  unfolding entry_typed_def by blast

lemma full_typedD:
  assumes "entry_typed content (full_key h f t m) d" "plain h" "plain f" "plain t" "plain m"
  shows "content h f (Atoi_value t) 0 wholeFileEndSec m = Some d"
proof -
  obtain h' f' t' m' where p: "plain h'" "plain f'" "plain t'" "plain m'"
    and k: "full_key h f t m = full_key h' f' t' m' \<and> content h' f' (Atoi_value t') 0 wholeFileEndSec m' = Some d \<or>
      (\<exists>b. full_key h f t m = window_key h' f' t' m' b)"
    using assms(1) unfolding entry_typed_def by blast
  have "full_key h f t m \<noteq> window_key h' f' t' m' b" for b
    using full_key_parts [OF assms(2-5)] window_key_parts [OF p] by (metis length_Cons list.size(3) n_not_Suc_n)
  with k full_key_inj [OF assms(2-5) p] show ?thesis by blast
qed

lemma window_typedD:
  assumes "entry_typed content (window_key h f t m b) d" "plain h" "plain f" "plain t" "plain m"
  shows "content h f (Atoi_value t) (window_start b) (window_end b) m = Some d"
proof -
  obtain h' f' t' m' where p: "plain h'" "plain f'" "plain t'" "plain m'"
    and k: "window_key h f t m b = full_key h' f' t' m' \<or>
      (\<exists>b'. window_key h f t m b = window_key h' f' t' m' b' \<and>
        content h' f' (Atoi_value t') (window_start b') (window_end b') m' = Some d)"
    using assms(1) unfolding entry_typed_def by blast
  have "window_key h f t m b \<noteq> full_key h' f' t' m'"
    using full_key_parts [OF p] window_key_parts [OF assms(2-5)] by (metis length_Cons list.size(3) n_not_Suc_n)
  then obtain b' where b: "window_key h f t m b = window_key h' f' t' m' b'"
    "content h' f' (Atoi_value t') (window_start b') (window_end b') m' = Some d" using k by blast
  then have "[h, f, t, m, CHR ''w'' # Itoa b] = [h', f', t', m', CHR ''w'' # Itoa b']"
    using window_key_parts [OF assms(2-5)] window_key_parts [OF p] by metis
  then show ?thesis using b(2) Itoa_inject [of b b'] by simp
qed

lemma all_tracks_typed:
  "env_ok content h f env \<Longrightarrow> plain h \<Longrightarrow> plain f \<Longrightarrow> \<forall>t \<in> set ts. in_int64 (ct_RelIndex t) \<Longrightarrow> cache_typed content s \<Longrightarrow>
   cache_typed content (fst (all_tracks env h f ts s))"
proof (induction env h f ts s rule: all_tracks.induct)
  case (2 env h f t ts s)
  have "entry_typed content (full_key h f (Itoa (ct_RelIndex t)) (track_format t)) d"
    if "se_window env (ct_RelIndex t) 0 wholeFileEndSec (track_format t) = Some d" for d
    using 2(5-8) env_ok_window [OF 2(5) that]
    by (intro full_typedI) (simp_all add: plain_Itoa plain_track_format Atoi_value_Itoa)
  then show ?case using 2 by (auto simp: cache_typed_store split: option.splits)
qed simp

lemma window_tracks_typed:
  "env_ok content h f env \<Longrightarrow> plain h \<Longrightarrow> plain f \<Longrightarrow> \<forall>t \<in> set ts. in_int64 (ct_RelIndex t) \<Longrightarrow> cache_typed content s \<Longrightarrow>
   cache_typed content (fst (window_tracks env h f b (window_start b) (window_end b) ts n s))"
proof (induction ts arbitrary: n s)
  case (Cons t ts)
  have "entry_typed content (window_key h f (Itoa (ct_RelIndex t)) (track_format t) b) d"
    if "se_window env (ct_RelIndex t) (window_start b) (window_end b) (track_format t) = Some d" for d
    using Cons(2-5) env_ok_window [OF Cons(2) that]
    by (intro window_typedI) (simp_all add: plain_Itoa plain_track_format Atoi_value_Itoa)
  then show ?case using Cons by (auto simp: cache_typed_store split: option.splits)
qed simp

lemma env_ok_tracks: "env_ok content h f env \<Longrightarrow> se_meta env = Some md \<Longrightarrow> \<forall>t \<in> set (text_tracks md). in_int64 (ct_RelIndex t)"
  by (auto simp: env_ok_def text_tracks_def)

lemma full_run_typed:
  assumes "env_ok content h f env" "plain h" "plain f" "cache_typed content s"
  shows "cache_typed content (fst (full_run env h f s))"
proof -
  have "cache_typed content (fst (extractAllSubtitles env h f s))"
    using all_tracks_typed [OF assms(1-3) env_ok_tracks [OF assms(1)] assms(4)] assms(4)
    by (auto simp: extractAllSubtitles_def split: option.splits)
  then show ?thesis using assms(4) by (auto simp: full_run_def cache_typed_def split: prod.splits option.splits)
qed

lemma window_run_typed:
  assumes "env_ok content h f env" "plain h" "plain f" "cache_typed content s"
  shows "cache_typed content (fst (window_run env h f key b s))"
proof -
  have "cache_typed content (fst (extractWindowSubtitles env h f b s))"
    using window_tracks_typed [OF assms(1-3) env_ok_tracks [OF assms(1)] assms(4)] assms(4)
    by (auto simp: extractWindowSubtitles_def split: option.splits)
  then show ?thesis using assms(4) by (auto simp: window_run_def cache_typed_def split: prod.splits sum.splits)
qed

text \<open>A flight a request leads is a run of its own; a flight it joins only hands it an error or nothing.\<close>

definition flight :: "sub_content \<Rightarrow> string \<Rightarrow> string \<Rightarrow> (sub_state \<Rightarrow> sub_state \<times> extract_error option) \<Rightarrow> bool" where
  "flight content h f run \<longleftrightarrow> (\<exists>env. env_ok content h f env \<and> run = full_run env h f) \<or> (\<exists>e. run = (\<lambda>s. (s, e)))"

definition window_flight ::
  "sub_content \<Rightarrow> string \<Rightarrow> string \<Rightarrow> (string \<Rightarrow> int \<Rightarrow> sub_state \<Rightarrow> sub_state \<times> extract_error option) \<Rightarrow> bool"
where
  "window_flight content h f wrun \<longleftrightarrow>
     (\<exists>env. env_ok content h f env \<and> wrun = window_run env h f) \<or> (\<exists>e. wrun = (\<lambda>key b s. (s, e)))"

lemma flight_typed: "flight content h f run \<Longrightarrow> plain h \<Longrightarrow> plain f \<Longrightarrow> cache_typed content s \<Longrightarrow> cache_typed content (fst (run s))"
  by (auto simp: flight_def full_run_typed)

lemma window_flight_typed:
  "window_flight content h f wrun \<Longrightarrow> plain h \<Longrightarrow> plain f \<Longrightarrow> cache_typed content s \<Longrightarrow>
   cache_typed content (fst (wrun key b s))"
  by (auto simp: window_flight_def window_run_typed)

lemma cache_typed_lookup: "cache_typed content s \<Longrightarrow> map_of (su_cache s) k = Some d \<Longrightarrow> entry_typed content k d"
  by (auto simp: cache_typed_def dest: map_of_SomeD)

lemma getOrExtractSubtitle_typed:
  assumes "env_ok content h f env" "flight content h f run" "plain h" "plain f" "plain t" "plain m" "cache_typed content s"
    and "getOrExtractSubtitle run env h f t m s = (s', r)"
  shows "cache_typed content s' \<and> (\<forall>d. r = Inr d \<longrightarrow> content h f (Atoi_value t) 0 wholeFileEndSec m = Some d)"
proof (cases "map_of (su_cache s) (full_key h f t m)")
  case None
  obtain s1 e where r: "(if file_key h f \<in> set (su_extracted s) then (s, None) else run s) = (s1, e)" by fastforce
  then have t1: "cache_typed content s1" using flight_typed [OF assms(2,3,4,7)] assms(7) by (auto split: if_splits)
  show ?thesis
  proof (cases "e = None \<and> map_of (su_cache s1) (full_key h f t m) = None")
    case True
    with assms(8) None r have "extractSingleSubtitle env t m (full_key h f t m) s1 = (s', r)"
      by (simp add: getOrExtractSubtitle_def)
    then show ?thesis
      using t1 assms(3-6) env_ok_window [OF assms(1)] cache_typed_store [OF t1 full_typedI]
      by (auto simp: extractSingleSubtitle_def Let_def split: option.splits if_splits)
  next
    case False
    with assms(8) None r have "s' = s1 \<and> (\<forall>d. r = Inr d \<longrightarrow> map_of (su_cache s1) (full_key h f t m) = Some d)"
      by (cases e) (auto simp: getOrExtractSubtitle_def Let_def)
    then show ?thesis using t1 full_typedD [OF cache_typed_lookup [OF t1] assms(3-6)] by blast
  qed
next
  case (Some d)
  with assms(8) have "s' = s \<and> r = Inr d" by (simp add: getOrExtractSubtitle_def)
  then show ?thesis using assms(7) full_typedD [OF cache_typed_lookup [OF assms(7) Some] assms(3-6)] by simp
qed

lemma getOrExtractSubtitleWindow_typed:
  assumes "env_ok content h f env" "flight content h f run" "window_flight content h f wrun"
    and p: "plain h" "plain f" "plain t" "plain m" and s: "cache_typed content s"
    and g: "getOrExtractSubtitleWindow (wrun (window_key h f t m b) b) run env h f t m b s = (s', r)"
  shows "cache_typed content s' \<and>
    (\<forall>d. r = SubData d \<longrightarrow> content h f (Atoi_value t) 0 wholeFileEndSec m = Some d \<or>
       content h f (Atoi_value t) (window_start b) (window_end b) m = Some d)"
proof (cases "map_of (su_cache s) (window_key h f t m b)")
  case None
  obtain s1 e where r: "wrun (window_key h f t m b) b s = (s1, e)" by fastforce
  then have t1: "cache_typed content s1" using window_flight_typed [OF assms(3) p(1,2) s, of "window_key h f t m b" b] by simp
  consider (err) x where "e = Some x" | (hit) d where "e = None" "map_of (su_cache s1) (window_key h f t m b) = Some d"
    | (miss) "e = None" "map_of (su_cache s1) (window_key h f t m b) = None" by (cases e; fastforce)
  then show ?thesis
  proof cases
    case err
    with g None r t1 show ?thesis by (auto simp: getOrExtractSubtitleWindow_def Let_def split: if_splits)
  next
    case hit
    with g None r have "s' = s1 \<and> r = SubData d" by (simp add: getOrExtractSubtitleWindow_def Let_def)
    then show ?thesis using t1 window_typedD [OF cache_typed_lookup [OF t1 hit(2)] p] by simp
  next
    case miss
    obtain s2 q where q: "getOrExtractSubtitle run env h f t m s1 = (s2, q)" by fastforce
    with g None r miss have "s' = s2 \<and> (\<forall>d. r = SubData d \<longrightarrow> q = Inr d)"
      by (auto simp: getOrExtractSubtitleWindow_def Let_def split: sum.splits)
    then show ?thesis using getOrExtractSubtitle_typed [OF assms(1,2) p t1 q] by auto
  qed
next
  case (Some d)
  with g have "s' = s \<and> r = SubData d" by (simp add: getOrExtractSubtitleWindow_def)
  then show ?thesis using s window_typedD [OF cache_typed_lookup [OF s Some] p] by simp
qed

lemma subtitle_answer_data:
  "subtitle_answer ct inm gone r = Sub200 ct' etag body \<Longrightarrow> r = SubData body \<and> ct' = ct \<and> etag = subtitle_etag body"
  by (auto simp: subtitle_answer_def Let_def split: sub_result.splits if_splits)

lemma HandleGetSubtitles_typed:
  assumes "env_ok content h f env" "flight content h f run" "window_flight content h f wrun"
    and p: "plain h" "plain f" "plain t" and s: "cache_typed content s"
    and g: "HandleGetSubtitles wrun run env pf h f t format start inm gone s = (s', a)"
  shows "cache_typed content s' \<and>
    (\<forall>ct etag body. a = Sub200 ct etag body \<longrightarrow>
       ct = snd (resolveSubtitleFormat format) \<and> etag = subtitle_etag body \<and>
       (content h f (Atoi_value t) 0 wholeFileEndSec (fst (resolveSubtitleFormat format)) = Some body \<or>
        start \<noteq> '''' \<and> content h f (Atoi_value t) (window_start (subtitle_bucket pf start)) (window_end (subtitle_bucket pf start))
          (fst (resolveSubtitleFormat format)) = Some body))"
proof -
  obtain m ct0 where m: "resolveSubtitleFormat format = (m, ct0)" by fastforce
  then have pm: "plain m" using plain_format [of format] by simp
  let ?b = "subtitle_bucket pf start"
  show ?thesis
  proof (cases "start \<noteq> '''' \<and> file_key h f \<notin> set (su_winBad s)")
    case True
    obtain s1 r where r: "getOrExtractSubtitleWindow (wrun (window_key h f t m ?b) ?b) run env h f t m ?b s = (s1, r)" by fastforce
    with g m True have "s' = s1" "a = subtitle_answer ct0 inm gone r" by (auto simp: HandleGetSubtitles_def Let_def)
    then show ?thesis
      using getOrExtractSubtitleWindow_typed [OF assms(1-3) p pm s r] True m by (auto dest!: subtitle_answer_data)
  next
    case False
    obtain s1 q where q: "getOrExtractSubtitle run env h f t m s = (s1, q)" by fastforce
    with g m False have "s' = s1" "a = subtitle_answer ct0 inm gone (case q of Inl e \<Rightarrow> SubFailed e | Inr d \<Rightarrow> SubData d)"
      by (auto simp: HandleGetSubtitles_def Let_def)
    then show ?thesis
      using getOrExtractSubtitle_typed [OF assms(1,2) p pm s q] m
      by (auto dest!: subtitle_answer_data split: sum.splits)
  qed
qed

text \<open>The states the endpoint goes through: requests, whatever they meet, and the purge of a dropped torrent.\<close>

inductive sub_step :: "sub_content \<Rightarrow> sub_state \<Rightarrow> sub_state \<Rightarrow> bool" for content where
  sub_request:
    "plain h \<Longrightarrow> plain f \<Longrightarrow> plain t \<Longrightarrow> env_ok content h f env \<Longrightarrow> flight content h f run \<Longrightarrow> window_flight content h f wrun \<Longrightarrow>
     sub_step content s (fst (HandleGetSubtitles wrun run env pf h f t format start inm gone s))"
| sub_purge:
    "sub_step content s
       \<lparr>su_cache = filter (\<lambda>(k, d). \<not> prefix pre k) (su_cache s),
        su_extracted = filter (\<lambda>k. \<not> prefix pre k) (su_extracted s),
        su_winBad = filter (\<lambda>k. \<not> prefix pre k) (su_winBad s)\<rparr>"

definition no_subtitles :: sub_state where
  "no_subtitles = \<lparr>su_cache = [], su_extracted = [], su_winBad = []\<rparr>"

lemma sub_step_typed: "sub_step content s s' \<Longrightarrow> cache_typed content s \<Longrightarrow> cache_typed content s'"
proof (induction rule: sub_step.induct)
  case (sub_request h f t env run wrun s pf format start inm gone)
  then show ?case using HandleGetSubtitles_typed [OF sub_request(4-6,1-3,7) surjective_pairing] by blast
qed (auto simp: cache_typed_def)

lemma no_subtitles_typed: "cache_typed content no_subtitles"
  by (simp add: cache_typed_def no_subtitles_def)

lemma reachable_typed: "(sub_step content)\<^sup>*\<^sup>* no_subtitles s \<Longrightarrow> cache_typed content s"
  by (induction rule: rtranclp_induct) (auto intro: sub_step_typed no_subtitles_typed)


definition demo_content :: sub_content where
  "demo_content h f rel a b m = Some (if rel = 0 \<and> a = 13 then ''hi'' else ''lo'')"

definition demo_sub_env :: sub_env where
  "demo_sub_env =
     \<lparr>se_meta = Some \<lparr>md_Duration = 100, md_Tracks = [\<lparr>ct_Index = 2, ct_Type = ''subtitle'', ct_Codec = ''subrip'',
        ct_Language = '''', ct_Title = ''t'', ct_RelIndex = 0, ct_SourceFile = 0\<rparr>], md_Timecodes = no_timecodes\<rparr>,
      se_admit = None, se_opens = (\<lambda>_. True), se_window = demo_content ''h'' ''1'', se_expired = (\<lambda>_. None)\<rparr>"


section \<open>Every cue of a window reaches the player\<close>

lemma subtitle_bucket_bounds:
  assumes "pf start = Some q" "0 \<le> q"
  shows "of_int (subtitle_bucket pf start) \<le> q \<and> q < of_int (subtitle_bucket pf start) + 15 \<and> 0 \<le> subtitle_bucket pf start"
proof -
  let ?s = "if 0 < q then trunc_rat q else 0"
  have s: "of_int ?s \<le> q" "q < of_int ?s + 1" "0 \<le> ?s" using assms(2) by (auto simp: trunc_rat_def) linarith+
  have b: "subtitle_bucket pf start = ?s div 15 * 15" using assms(1) by (simp add: subtitle_bucket_def subtitleWindowSec_def)
  have "?s div 15 * 15 \<le> ?s" "?s + 1 \<le> ?s div 15 * 15 + 15" by linarith+
  then have "(of_int (?s div 15 * 15) :: rat) \<le> of_int ?s" "(of_int (?s + 1) :: rat) \<le> of_int (?s div 15 * 15 + 15)"
    by (simp_all only: of_int_le_iff)
  then show ?thesis unfolding b using s by (simp add: pos_imp_zdiv_nonneg_iff)
qed

lemma rendered_cue:
  assumes "c \<in> set cues"
  shows "sublist (assDialogue (cue_start c) (cue_end c) (cue_data c) @ newline) (render_ass header cues)"
    and "sublist (vtt_cue codec c) (render_vtt codec cues)"
proof -
  obtain xs ys where c: "cues = xs @ c # ys" using assms by (meson split_list)
  have "render_ass header cues =
      ((if suffix newline header then header else header @ newline) @
       concat (map (\<lambda>c. assDialogue (cue_start c) (cue_end c) (cue_data c) @ newline) xs)) @
      (assDialogue (cue_start c) (cue_end c) (cue_data c) @ newline) @
      concat (map (\<lambda>c. assDialogue (cue_start c) (cue_end c) (cue_data c) @ newline) ys)"
    unfolding render_ass_def c by (simp only: map_append list.map concat_append concat.simps append.assoc)
  then show "sublist (assDialogue (cue_start c) (cue_end c) (cue_data c) @ newline) (render_ass header cues)"
    by (simp only: sublist_appendI)
  have "render_vtt codec cues =
      (''WEBVTT'' @ newline @ newline @ concat (map (vtt_cue codec) xs)) @ vtt_cue codec c @ concat (map (vtt_cue codec) ys)"
    unfolding render_vtt_def c by (simp only: map_append list.map concat_append concat.simps append.assoc)
  then show "sublist (vtt_cue codec c) (render_vtt codec cues)" by (simp only: sublist_appendI)
qed

definition shown_cue :: "string \<Rightarrow> string \<Rightarrow> cue \<Rightarrow> string" where
  "shown_cue codec m c =
     (if m = ''ass'' \<and> codec \<in> {''ass'', ''ssa''} then assDialogue (cue_start c) (cue_end c) (cue_data c) @ newline
      else vtt_cue codec c)"

text \<open>
  A window has the cues of its time: the bucket of a playhead contains it, and when the packets the
  demuxer delivers are in the order of their times up to two seconds, every packet of the requested track that
  starts in the bucket is shown in the document of the window.
\<close>

theorem window_shows_its_cues:
  assumes "pf start = Some q" "0 \<le> q"
    and doc: "SubtitleWindow streams packets rel (window_start (subtitle_bucket pf start)) (window_end (subtitle_bucket pf start)) m =
      Inr doc"
    and order: "near_order streams 2 (packets (subtitle_seek streams (find_sub rel 0 streams) (window_start (subtitle_bucket pf start))))"
    and pkt: "SubPacket (find_sub rel 0 streams) pts dur data \<in>
      set (packets (subtitle_seek streams (find_sub rel 0 streams) (window_start (subtitle_bucket pf start))))"
    and sec: "of_int (subtitle_bucket pf start) \<le> packet_sec streams (find_sub rel 0 streams) pts"
      "packet_sec streams (find_sub rel 0 streams) pts < of_int (subtitle_bucket pf start) + 15"
  shows "of_int (subtitle_bucket pf start) \<le> q \<and> q < of_int (subtitle_bucket pf start) + 15 \<and>
    sublist (shown_cue (ds_Codec (streams ! nat (find_sub rel 0 streams))) m
      (cue_of streams (find_sub rel 0 streams) pts dur data)) doc"
proof -
  let ?b = "subtitle_bucket pf start" and ?i = "find_sub rel 0 streams"
  note b = subtitle_bucket_bounds [of pf start q, OF assms(1,2)]
  obtain cues where cues: "read_cues streams ?i (window_start ?b) (window_end ?b) (packets (subtitle_seek streams ?i (window_start ?b))) = Some cues"
    "doc = (if m = ''ass'' \<and> ds_Codec (streams ! nat ?i) \<in> {''ass'', ''ssa''} then render_ass (ds_ExtraData (streams ! nat ?i)) cues
      else render_vtt (ds_Codec (streams ! nat ?i)) cues)"
    using doc by (auto simp: SubtitleWindow_def Let_def split: option.splits if_splits)
  have "window_start ?b - 1 \<le> packet_sec streams ?i pts"
    using b sec(1) by (auto simp: window_start_def subtitleWindowLead_def)
  moreover have "packet_sec streams ?i pts + 2 \<le> window_end ?b"
    using sec(2) by (simp add: window_end_def subtitleWindowSec_def subtitleWindowLead_def)
  ultimately have "cue_of streams ?i pts dur data \<in> set cues"
    using read_cues_complete [OF order cues(1) pkt] by simp
  then show ?thesis using b cues(2) rendered_cue by (auto simp: shown_cue_def)
qed

definition demo_streams :: "demux_stream list" where
  "demo_streams =
     [\<lparr>ds_Index = 0, ds_Kind = KVideo, ds_Codec = ''h264'', ds_Language = '''', ds_Title = '''', ds_StartTime = 0, ds_tbNum = 1,
        ds_tbDen = 1000, ds_AttachedPic = False, ds_ExtraData = ''''\<rparr>,
      \<lparr>ds_Index = 1, ds_Kind = KSubtitle, ds_Codec = ''subrip'', ds_Language = '''', ds_Title = '''', ds_StartTime = 0,
        ds_tbNum = 1, ds_tbDen = 1000, ds_AttachedPic = False, ds_ExtraData = ''''\<rparr>]"

definition demo_packets :: "(int \<times> int) option \<Rightarrow> sub_event list" where
  "demo_packets seek = [SubPacket 0 13500 40 '''', SubPacket 1 20000 1500 ''hi'', SubPacket 0 19000 40 '''', SubPacket 0 33000 40 '''',
     SubPacket 1 34000 1500 ''late'']"

theorem window_shows_its_cues_witness:
  "\<exists>doc. SubtitleWindow demo_streams demo_packets 0 13 32 ''webvtt'' = Inr doc \<and>
     sublist (''00:00:20.000 --> 00:00:21.500'' @ newline @ ''hi'' @ newline @ newline) doc"
proof -
  let ?pf = "\<lambda>_. Some 20"
  have v: "subtitle_bucket ?pf ''20'' = 15" "window_start 15 = 13" "window_end 15 = 32"
    by (simp_all add: subtitle_bucket_def trunc_rat_def subtitleWindowSec_def window_start_def window_end_def subtitleWindowLead_def)
  have i: "find_sub 0 0 demo_streams = 1" by code_simp
  have doc: "SubtitleWindow demo_streams demo_packets 0 13 32 ''webvtt'' = Inr (render_vtt ''subrip'' [cue_of demo_streams 1 20000 1500 ''hi''])"
    by (simp add: SubtitleWindow_def i Let_def) (simp add: demo_streams_def demo_packets_def subtitleTextCodec_def Let_def packet_sec_def
        toSec_def cue_of_def)
  have order: "near_order demo_streams 2 (demo_packets x)" for x
    by (simp add: demo_packets_def demo_streams_def packet_sec_def toSec_def)
  have pkt: "SubPacket 1 20000 1500 ''hi'' \<in> set (demo_packets x)" for x by (simp add: demo_packets_def)
  have sec: "packet_sec demo_streams 1 20000 = 20" by (simp add: demo_streams_def packet_sec_def toSec_def)
  have "sublist (shown_cue (ds_Codec (demo_streams ! nat (find_sub 0 0 demo_streams))) ''webvtt''
      (cue_of demo_streams (find_sub 0 0 demo_streams) 20000 1500 ''hi'')) (render_vtt ''subrip'' [cue_of demo_streams 1 20000 1500 ''hi''])"
    by (rule window_shows_its_cues [where pf = ?pf and start = "''20''" and q = 20 and packets = demo_packets, THEN conjunct2, THEN conjunct2])
      (simp_all add: v i doc order pkt sec)
  moreover have "shown_cue (ds_Codec (demo_streams ! nat (find_sub 0 0 demo_streams))) ''webvtt''
      (cue_of demo_streams (find_sub 0 0 demo_streams) 20000 1500 ''hi'') = ''00:00:20.000 --> 00:00:21.500'' @ newline @ ''hi'' @ newline @ newline"
    unfolding i by code_simp
  moreover note doc
  ultimately show ?thesis by auto
qed

text \<open>
  Only two formats exist: whatever format a request names, the document of a track is WebVTT unless the
  name is exactly \<^verbatim>\<open>ass\<close>; a request for SubRip is answered with WebVTT under the content type of SubRip.
\<close>

theorem srt_request_gets_webvtt:
  assumes "SubtitleWindow streams packets rel a b (fst (resolveSubtitleFormat ''srt'')) = Inr doc"
  shows "prefix ''WEBVTT'' doc \<and> snd (resolveSubtitleFormat ''srt'') = ''text/srt; charset=utf-8''"
proof -
  have "resolveSubtitleFormat ''srt'' = (''srt'', ''text/srt; charset=utf-8'')" by code_simp
  then show ?thesis using assms by (auto simp: SubtitleWindow_def Let_def render_vtt_def split: if_splits option.splits)
qed

theorem srt_request_gets_webvtt_witness:
  "\<exists>doc. SubtitleWindow demo_streams demo_packets 0 13 32 ''srt'' = Inr doc \<and> prefix ''WEBVTT'' doc"
proof -
  have i: "find_sub 0 0 demo_streams = 1" by code_simp
  have m: "fst (resolveSubtitleFormat ''srt'') = ''srt''" by code_simp
  have "\<exists>doc. SubtitleWindow demo_streams demo_packets 0 13 32 (fst (resolveSubtitleFormat ''srt'')) = Inr doc"
    unfolding m by (simp add: SubtitleWindow_def i Let_def) (simp add: demo_streams_def demo_packets_def subtitleTextCodec_def Let_def packet_sec_def
        toSec_def)
  then show ?thesis using srt_request_gets_webvtt m by metis
qed

text \<open>
  A cue that is on screen at the start of a bucket is missing from it when it began more than three seconds
  before.
\<close>

lemma straddling_cue_missed:
  "read_cues demo_streams 1 (window_start 15) (window_end 15) [SubPacket 1 11000 10000 ''long''] = Some []"
  by (simp add: window_start_def window_end_def subtitleWindowSec_def subtitleWindowLead_def) (simp add: demo_streams_def packet_sec_def
      toSec_def)

text \<open>
  A window is marked unusable for good when no track could be opened or read, although the reason need not be
  the container's.
\<close>

lemma failed_opens_disable_windows:
  assumes "se_meta env = Some md" "se_admit env = None" "\<forall>rel. \<not> se_opens env rel" "\<forall>rel. se_expired env rel = None"
    and "map_of (su_cache s) key = None"
  shows "file_key h f \<in> set (su_winBad (fst (window_run env h f key b s)))"
proof -
  have "window_tracks env h f b x y ts n s = (s, Inr n)" for x y ts n
    using assms(3,4) by (induction ts) simp_all
  then show ?thesis using assms by (simp add: window_run_def extractWindowSubtitles_def)
qed

end
