(* ===== verification/LibavHeap.thy ===== *)
theory LibavHeap
  imports Main "HOL-Library.State_Monad" "HOL-Library.Multiset"
begin

text \<open>
  The objects libav hands out. Every \<^verbatim>\<open>Alloc\<close>, \<^verbatim>\<open>New\<close> or \<^verbatim>\<open>Create\<close> of the bindings gives an object the caller has to
  free; nothing is collected. The heap has the live objects; freeing one that is not live is an error that is
  remembered. A function over libav is a state transformer written in the order of the code, and what it owns
  is stated by a triple: from the objects it is given to the objects its result holds, whatever else is
  live.
\<close>

type_synonym handle = nat

record av_heap =
  av_next :: nat
  av_live :: "handle multiset"
  av_bad :: bool

type_synonym 'a av = "(av_heap, 'a) state"

definition av_alloc :: "handle av" where
  "av_alloc = State (\<lambda>h. (av_next h, h\<lparr>av_next := Suc (av_next h), av_live := add_mset (av_next h) (av_live h)\<rparr>))"

definition av_free :: "handle \<Rightarrow> unit av" where
  "av_free x =
     State (\<lambda>h. ((), if x \<in># av_live h then h\<lparr>av_live := av_live h - {#x#}\<rparr> else h\<lparr>av_bad := True\<rparr>))"

text \<open>A call that may give nothing, and the free of an object that may be nil.\<close>

definition av_try :: "bool \<Rightarrow> handle option av" where
  "av_try ok = (if ok then do { x \<leftarrow> av_alloc; State_Monad.return (Some x) } else State_Monad.return None)"

definition av_free_opt :: "handle option \<Rightarrow> unit av" where
  "av_free_opt o' = (case o' of None \<Rightarrow> State_Monad.return () | Some x \<Rightarrow> av_free x)"

text \<open>An object whose \<^verbatim>\<open>Free\<close> is deferred right after it was made.\<close>

definition av_defer :: "handle \<Rightarrow> 'a av \<Rightarrow> 'a av" where
  "av_defer x body = do { r \<leftarrow> body; av_free x; State_Monad.return r }"

section \<open>Ownership\<close>

definition owns :: "handle multiset \<Rightarrow> 'a av \<Rightarrow> ('a \<Rightarrow> handle multiset) \<Rightarrow> bool" where
  "owns A m B \<longleftrightarrow>
     (\<forall>h F. av_live h = A + F \<longrightarrow>
        av_live (snd (run_state m h)) = B (fst (run_state m h)) + F \<and> av_bad (snd (run_state m h)) = av_bad h)"

lemma ownsI:
  "(\<And>h F. av_live h = A + F \<Longrightarrow>
      av_live (snd (run_state m h)) = B (fst (run_state m h)) + F \<and> av_bad (snd (run_state m h)) = av_bad h) \<Longrightarrow> owns A m B"
  by (simp add: owns_def)

named_theorems own \<open>rules for ownership triples\<close>

lemma owns_return [own]: "A = B r \<Longrightarrow> owns A (State_Monad.return r) B"
  by (simp add: owns_def State_Monad.return_def)

lemma owns_alloc: "owns A av_alloc (\<lambda>x. add_mset x A)"
  by (simp add: owns_def av_alloc_def)

lemma owns_free: "owns (add_mset x A) (av_free x) (\<lambda>_. A)"
  by (simp add: owns_def av_free_def)

lemma owns_bind: "owns A m B \<Longrightarrow> (\<And>r. owns (B r) (f r) C) \<Longrightarrow> owns A (State_Monad.bind m f) C"
  unfolding owns_def State_Monad.bind_def by (simp add: split_beta)

text \<open>The frame is part of the triple, so an owned object that a call does not touch is carried along.\<close>

lemma owns_frame: "owns A m B \<Longrightarrow> owns (A + F) m (\<lambda>r. B r + F)"
  unfolding owns_def by (metis add.assoc)

definition own_opt :: "handle option \<Rightarrow> handle multiset" where
  "own_opt o' = (case o' of None \<Rightarrow> {#} | Some x \<Rightarrow> {#x#})"

lemma own_opt_simps [simp]: "own_opt None = {#}" "own_opt (Some x) = {#x#}"
  by (simp_all add: own_opt_def)

lemma own_opt_def2: "own_opt o' = (case o' of None \<Rightarrow> {#} | Some x \<Rightarrow> {#x#})"
  by (cases o') simp_all

text \<open>Rules in the order of the code: each takes the next statement off the front.\<close>

lemma owns_alloc_then: "(\<And>x. owns (add_mset x A) (f x) B) \<Longrightarrow> owns A (State_Monad.bind av_alloc f) B"
  by (rule owns_bind [OF owns_alloc])

lemma owns_free_then:
  assumes "x \<in># A" "owns (A - {#x#}) (f ()) B" shows "owns A (State_Monad.bind (av_free x) f) B"
proof (rule owns_bind)
  show "owns A (av_free x) (\<lambda>_. A - {#x#})" using owns_free [of x "A - {#x#}"] assms(1) by simp
qed (simp add: assms(2))

lemma owns_free_head: "owns A (f ()) B \<Longrightarrow> owns (add_mset x A) (State_Monad.bind (av_free x) f) B"
  by (rule owns_free_then) simp_all

lemma owns_free_opt: "owns (own_opt x + A) (av_free_opt x) (\<lambda>_. A)"
  using owns_free by (cases x) (auto simp: av_free_opt_def intro: owns_return)

lemma owns_free_opt_then:
  assumes "own_opt x \<subseteq># A" "owns (A - own_opt x) (f ()) B" shows "owns A (State_Monad.bind (av_free_opt x) f) B"
proof (rule owns_bind)
  show "owns A (av_free_opt x) (\<lambda>_. A - own_opt x)"
    using owns_free_opt [of x "A - own_opt x"] assms(1) by (simp add: subset_mset.add_diff_inverse)
qed (simp add: assms(2))

lemma owns_try: "owns A (av_try ok) (\<lambda>r. own_opt r + A)"
  unfolding av_try_def by (auto intro!: owns_alloc_then owns_return)

lemma owns_try_then:
  assumes "\<not> ok \<Longrightarrow> owns A (f None) B" "\<And>x. ok \<Longrightarrow> owns (add_mset x A) (f (Some x)) B"
  shows "owns A (State_Monad.bind (av_try ok) f) B"
proof (cases ok)
  case True
  have "owns A (av_try ok) (\<lambda>r. case r of None \<Rightarrow> A | Some x \<Rightarrow> add_mset x A)"
    using True unfolding av_try_def by (auto intro!: owns_alloc_then owns_return)
  moreover have "\<And>h. fst (run_state (av_try ok) h) \<noteq> None"
    using True by (simp add: av_try_def State_Monad.bind_def State_Monad.return_def split_beta)
  ultimately show ?thesis using assms(2) [OF True]
    unfolding owns_def State_Monad.bind_def by (fastforce simp: split_beta split: option.splits)
next
  case False
  then have "owns A (State_Monad.bind (av_try ok) f) B = owns A (f None) B"
    by (simp add: av_try_def)
  then show ?thesis using assms(1) [OF False] by simp
qed

lemma owns_call_then:
  assumes "owns P m Q" "P \<subseteq># A" "\<And>r. owns (Q r + (A - P)) (f r) B" shows "owns A (State_Monad.bind m f) B"
proof (rule owns_bind)
  show "owns A m (\<lambda>r. Q r + (A - P))"
    using owns_frame [OF assms(1), of "A - P"] assms(2) by (simp add: subset_mset.add_diff_inverse)
qed (rule assms(3))

lemma owns_defer: "owns A body (\<lambda>r. add_mset x (B r)) \<Longrightarrow> owns A (av_defer x body) B"
  unfolding av_defer_def by (rule owns_bind, assumption) (rule owns_free_then, simp, rule owns_return, simp)

lemma owns_if: "(c \<Longrightarrow> owns A m B) \<Longrightarrow> (\<not> c \<Longrightarrow> owns A m' B) \<Longrightarrow> owns A (if c then m else m') B"
  by simp

lemma owns_option:
  "(x = None \<Longrightarrow> owns A m B) \<Longrightarrow> (\<And>y. x = Some y \<Longrightarrow> owns A (f y) B) \<Longrightarrow> owns A (case x of None \<Rightarrow> m | Some y \<Rightarrow> f y) B"
  by (cases x) simp_all

lemma owns_sum:
  "(\<And>e. x = Inl e \<Longrightarrow> owns A (g e) B) \<Longrightarrow> (\<And>y. x = Inr y \<Longrightarrow> owns A (f y) B) \<Longrightarrow>
   owns A (case x of Inl e \<Rightarrow> g e | Inr y \<Rightarrow> f y) B"
  by (cases x) simp_all

lemma owns_let: "owns A (f x) B \<Longrightarrow> owns A (let y = x in f y) B"
  by simp

lemma owns_weaken: "owns A m B \<Longrightarrow> A = A' \<Longrightarrow> (\<And>r. B r = B' r) \<Longrightarrow> owns A' m B'"
  unfolding owns_def by simp

lemmas own_steps =
  owns_alloc_then owns_free_then owns_free_opt_then owns_try_then owns_defer owns_if owns_option owns_sum owns_let

section \<open>What a call gives\<close>

text \<open>A fact about the result that does not depend on what is live.\<close>

definition gives :: "'a av \<Rightarrow> ('a \<Rightarrow> bool) \<Rightarrow> bool" where
  "gives m P \<longleftrightarrow> (\<forall>h. P (fst (run_state m h)))"

lemma gives_return: "P r \<Longrightarrow> gives (State_Monad.return r) P"
  by (simp add: gives_def State_Monad.return_def)

lemma gives_bind: "gives m P \<Longrightarrow> (\<And>r. P r \<Longrightarrow> gives (f r) Q) \<Longrightarrow> gives (State_Monad.bind m f) Q"
  unfolding gives_def State_Monad.bind_def by (auto simp: split_beta)

lemma gives_any: "gives m (\<lambda>_. True)"
  by (simp add: gives_def)

lemma gives_mono: "gives m P \<Longrightarrow> (\<And>r. P r \<Longrightarrow> Q r) \<Longrightarrow> gives m Q"
  by (simp add: gives_def)

lemma gives_then: "(\<And>r. gives (f r) Q) \<Longrightarrow> gives (State_Monad.bind m f) Q"
  by (rule gives_bind [OF gives_any])

lemma gives_if: "(c \<Longrightarrow> gives m P) \<Longrightarrow> (\<not> c \<Longrightarrow> gives m' P) \<Longrightarrow> gives (if c then m else m') P"
  by simp

end
