(* ===== verification/HwAccel.thy ===== *)
theory HwAccel
  imports LibavHeap GoText
begin

text \<open>
  The choice of the GPU at start-up (\<^verbatim>\<open>media/hwaccel.go\<close>). What the FFmpeg build and the drivers answer is a
  record of answers; the objects the probe makes are on the heap of \<open>LibavHeap\<close>.
\<close>

record GPUConfig =
  gpu_HwType :: nat
  gpu_HwTypeName :: string
  gpu_EncoderName :: string
  gpu_Device :: string

record gpuCandidate =
  cd_name :: string
  cd_hwTypeName :: string
  cd_encoderName :: string

definition gpuCandidates :: "string \<Rightarrow> gpuCandidate list" where
  "gpuCandidates goos =
     (if goos = ''darwin'' then
        [\<lparr>cd_name = ''videotoolbox'', cd_hwTypeName = ''videotoolbox'', cd_encoderName = ''h264_videotoolbox''\<rparr>]
      else if goos = ''linux'' then
        [\<lparr>cd_name = ''nvenc'', cd_hwTypeName = ''cuda'', cd_encoderName = ''h264_nvenc''\<rparr>,
         \<lparr>cd_name = ''vaapi'', cd_hwTypeName = ''vaapi'', cd_encoderName = ''h264_vaapi''\<rparr>]
      else [])"

definition cpuEncoderThreadLimit :: nat where "cpuEncoderThreadLimit = 2"

definition hwAccelDisabled :: "string \<Rightarrow> bool" where
  "hwAccelDisabled value \<longleftrightarrow> ToLower (TrimSpace value) \<in> {''1'', ''true'', ''yes'', ''on''}"

text \<open>
  The answers: the two environment variables, which paths \<^verbatim>\<open>stat\<close> finds, what the glob of the render nodes
  gives, the device types and encoders the build knows, whether a device opens, and the run of the probe.
\<close>

datatype receive_answer = GotPacket | Again | ReceiveFailed

record probe_env =
  pe_alloc :: bool
  pe_frames :: bool
  pe_framesInit :: bool
  pe_open :: bool
  pe_soft :: bool
  pe_softBuf :: bool
  pe_fill :: bool
  pe_hard :: bool
  pe_hardBuf :: bool
  pe_upload :: bool
  pe_send :: bool
  pe_pkt :: bool
  pe_receive :: receive_answer
  pe_flushSend :: bool
  pe_flushReceive :: receive_answer

record gpu_env =
  ge_disable :: string
  ge_goos :: string
  ge_vaapiDevice :: string
  ge_stat :: "string \<Rightarrow> bool"
  ge_renderNodes :: "string list"
  ge_hwType :: "string \<Rightarrow> nat option"
  ge_encoder :: "string \<Rightarrow> bool"
  ge_deviceOpens :: "nat \<Rightarrow> string \<Rightarrow> bool"
  ge_probe :: "string \<Rightarrow> probe_env"

definition findRenderNode :: "gpu_env \<Rightarrow> string" where
  "findRenderNode e =
     (if ge_vaapiDevice e \<noteq> '''' then (if ge_stat e (ge_vaapiDevice e) then ge_vaapiDevice e else '''')
      else case find (ge_stat e) (ge_renderNodes e) of Some m \<Rightarrow> m | None \<Rightarrow> '''')"

datatype probe_error =
  NoEncoderContext | NoFramesContext | FramesInit | OpenEncoder | NoSoftwareFrame | SoftwareBuffer | FillFrame
| NoHardwareFrame | HardwareBuffer | UploadFrame | SendProbe | NoProbePacket | ReceiveProbe | FlushProbe | ReceiveFlushed

text \<open>The end of the probe, from \<^verbatim>\<open>SendFrame\<close> on.\<close>

definition probe_exchange :: "probe_env \<Rightarrow> probe_error option av" where
  "probe_exchange p =
     (if \<not> pe_send p then State_Monad.return (Some SendProbe)
      else do {
        pkt' \<leftarrow> av_try (pe_pkt p);
        case pkt' of
          None \<Rightarrow> State_Monad.return (Some NoProbePacket)
        | Some pkt \<Rightarrow> av_defer pkt (State_Monad.return
            (case pe_receive p of
               GotPacket \<Rightarrow> None
             | ReceiveFailed \<Rightarrow> Some ReceiveProbe
             | Again \<Rightarrow> if \<not> pe_flushSend p then Some FlushProbe
                        else if pe_flushReceive p \<noteq> GotPacket then Some ReceiveFlushed else None))
      })"

definition probe_frames :: "probe_env \<Rightarrow> bool \<Rightarrow> probe_error option av" where
  "probe_frames p vaapi = do {
     software' \<leftarrow> av_try (pe_soft p);
     case software' of
       None \<Rightarrow> State_Monad.return (Some NoSoftwareFrame)
     | Some software \<Rightarrow> av_defer software
         (if \<not> pe_softBuf p then State_Monad.return (Some SoftwareBuffer)
          else if \<not> pe_fill p then State_Monad.return (Some FillFrame)
          else if \<not> vaapi then probe_exchange p
          else do {
            hardware' \<leftarrow> av_try (pe_hard p);
            case hardware' of
              None \<Rightarrow> State_Monad.return (Some NoHardwareFrame)
            | Some hardware \<Rightarrow> av_defer hardware
                (if \<not> pe_hardBuf p then State_Monad.return (Some HardwareBuffer)
                 else if \<not> pe_upload p then State_Monad.return (Some UploadFrame)
                 else probe_exchange p)
          })
   }"

definition probe_open :: "probe_env \<Rightarrow> bool \<Rightarrow> probe_error option av" where
  "probe_open p vaapi = do {
     opts \<leftarrow> av_alloc;
     av_defer opts
       (if \<not> pe_open p then State_Monad.return (Some OpenEncoder) else probe_frames p vaapi)
   }"

definition probeHardwareEncoder :: "probe_env \<Rightarrow> string \<Rightarrow> probe_error option av" where
  "probeHardwareEncoder p codec = do {
     enc' \<leftarrow> av_try (pe_alloc p);
     case enc' of
       None \<Rightarrow> State_Monad.return (Some NoEncoderContext)
     | Some enc \<Rightarrow> av_defer enc
         (if codec = ''h264_vaapi'' then do {
            frames' \<leftarrow> av_try (pe_frames p);
            case frames' of
              None \<Rightarrow> State_Monad.return (Some NoFramesContext)
            | Some frames \<Rightarrow> av_defer frames
                (if \<not> pe_framesInit p then State_Monad.return (Some FramesInit) else probe_open p True)
          } else probe_open p False)
   }"

fun try_candidates :: "gpu_env \<Rightarrow> gpuCandidate list \<Rightarrow> GPUConfig option av" where
  "try_candidates e [] = State_Monad.return None"
| "try_candidates e (c # cs) =
     (case ge_hwType e (cd_hwTypeName c) of
        None \<Rightarrow> try_candidates e cs
      | Some hwType \<Rightarrow>
          if \<not> ge_encoder e (cd_encoderName c) then try_candidates e cs
          else
            let device = (if cd_name c = ''vaapi'' then findRenderNode e else '''')
            in if cd_name c = ''vaapi'' \<and> device = '''' then try_candidates e cs
               else do {
                 hwDev' \<leftarrow> av_try (ge_deviceOpens e hwType device);
                 case hwDev' of
                   None \<Rightarrow> try_candidates e cs
                 | Some hwDev \<Rightarrow> do {
                     err \<leftarrow> probeHardwareEncoder (ge_probe e (cd_encoderName c)) (cd_encoderName c);
                     av_free hwDev;
                     if err \<noteq> None then try_candidates e cs
                     else State_Monad.return (Some \<lparr>gpu_HwType = hwType, gpu_HwTypeName = cd_hwTypeName c,
                            gpu_EncoderName = cd_encoderName c, gpu_Device = device\<rparr>)
                   }
               })"

text \<open>\<^verbatim>\<open>InitGPU\<close> gives the value of \<^verbatim>\<open>ActiveGPU\<close>.\<close>

definition InitGPU :: "gpu_env \<Rightarrow> GPUConfig option av" where
  "InitGPU e =
     (if hwAccelDisabled (ge_disable e) then State_Monad.return None
      else try_candidates e (gpuCandidates (ge_goos e)))"

section \<open>What is chosen\<close>

text \<open>The probe as a condition, and the configuration of a candidate that passes everything.\<close>

definition packet_comes :: "probe_env \<Rightarrow> bool" where
  "packet_comes p \<longleftrightarrow> pe_send p \<and> pe_pkt p \<and>
     (pe_receive p = GotPacket \<or> pe_receive p = Again \<and> pe_flushSend p \<and> pe_flushReceive p = GotPacket)"

definition probe_passes :: "probe_env \<Rightarrow> string \<Rightarrow> bool" where
  "probe_passes p codec \<longleftrightarrow>
     pe_alloc p \<and> (codec = ''h264_vaapi'' \<longrightarrow> pe_frames p \<and> pe_framesInit p \<and> pe_hard p \<and> pe_hardBuf p \<and> pe_upload p) \<and>
     pe_open p \<and> pe_soft p \<and> pe_softBuf p \<and> pe_fill p \<and> packet_comes p"

definition candidate_config :: "gpu_env \<Rightarrow> gpuCandidate \<Rightarrow> GPUConfig option" where
  "candidate_config e c =
     (let device = (if cd_name c = ''vaapi'' then findRenderNode e else '''')
      in case ge_hwType e (cd_hwTypeName c) of
           None \<Rightarrow> None
         | Some t \<Rightarrow>
             if ge_encoder e (cd_encoderName c) \<and> (cd_name c = ''vaapi'' \<longrightarrow> device \<noteq> '''') \<and> ge_deviceOpens e t device \<and>
                probe_passes (ge_probe e (cd_encoderName c)) (cd_encoderName c)
             then Some \<lparr>gpu_HwType = t, gpu_HwTypeName = cd_hwTypeName c, gpu_EncoderName = cd_encoderName c, gpu_Device = device\<rparr>
             else None)"

fun first_some :: "('a \<Rightarrow> 'b option) \<Rightarrow> 'a list \<Rightarrow> 'b option" where
  "first_some f [] = None"
| "first_some f (x # xs) = (case f x of Some y \<Rightarrow> Some y | None \<Rightarrow> first_some f xs)"

text \<open>A call that gives a fixed result and leaves nothing of its own on the heap.\<close>

definition settles :: "'a av \<Rightarrow> 'a \<Rightarrow> bool" where
  "settles m r \<longleftrightarrow> owns {#} m (\<lambda>_. {#}) \<and> gives m (\<lambda>r'. r' = r)"

lemma settles_return: "settles (State_Monad.return r) r"
  by (simp add: settles_def owns_return gives_return)

lemma settles_bind: "settles m r \<Longrightarrow> settles (f r) s \<Longrightarrow> settles (State_Monad.bind m f) s"
proof -
  assume a: "settles m r" "settles (f r) s"
  have eq: "fst (run_state m h) = r" for h using a(1) by (simp add: settles_def gives_def)
  have "owns {#} (State_Monad.bind m f) (\<lambda>_. {#})"
    using a eq by (simp add: settles_def owns_def State_Monad.bind_def split_beta)
  moreover have "gives (State_Monad.bind m f) (\<lambda>r'. r' = s)"
    using a eq by (simp add: settles_def gives_def State_Monad.bind_def split_beta)
  ultimately show ?thesis by (simp add: settles_def)
qed

lemma settles_defer: "settles body r \<Longrightarrow> settles (do { x \<leftarrow> av_alloc; av_defer x body }) r"
proof -
  assume a: "settles body r"
  then have "owns {#x#} body (\<lambda>_. add_mset x {#})" for x
    using owns_frame [of "{#}" body "\<lambda>_. {#}" "{#x#}"] by (simp add: settles_def)
  then have "owns {#} (do { x \<leftarrow> av_alloc; av_defer x body }) (\<lambda>_. {#})"
    by (intro owns_alloc_then owns_defer) simp
  moreover have "gives (do { x \<leftarrow> av_alloc; av_defer x body }) (\<lambda>r'. r' = r)"
    unfolding av_defer_def
    by (rule gives_then, rule gives_bind [OF conjunct2 [OF a [unfolded settles_def]]], rule gives_then, rule gives_return)
  ultimately show ?thesis by (simp add: settles_def)
qed

lemma av_try_then: "State_Monad.bind (av_try ok) (\<lambda>x. case x of None \<Rightarrow> n | Some y \<Rightarrow> f y) =
   (if ok then State_Monad.bind av_alloc f else n)"
  by (cases ok) (simp_all add: av_try_def)

lemma settles_try_defer:
  assumes "ok \<Longrightarrow> settles body r" "\<not> ok \<Longrightarrow> settles n r"
  shows "settles (State_Monad.bind (av_try ok) (\<lambda>x. case x of None \<Rightarrow> n | Some y \<Rightarrow> av_defer y body)) r"
  using assms settles_defer [of body r] by (cases ok) (simp_all add: av_try_then)

lemma settles_if: "(c \<Longrightarrow> settles m r) \<Longrightarrow> (\<not> c \<Longrightarrow> settles m' r) \<Longrightarrow> settles (if c then m else m') r"
  by simp

lemma settles_eq: "settles m r \<Longrightarrow> r = s \<Longrightarrow> settles m s"
  by simp

lemma probe_exchange_settles: "\<exists>r. settles (probe_exchange p) r \<and> (r = None \<longleftrightarrow> packet_comes p)"
proof (cases "pe_send p \<and> pe_pkt p")
  case True
  let ?r = "case pe_receive p of GotPacket \<Rightarrow> None | ReceiveFailed \<Rightarrow> Some ReceiveProbe
      | Again \<Rightarrow> if \<not> pe_flushSend p then Some FlushProbe else if pe_flushReceive p \<noteq> GotPacket then Some ReceiveFlushed else None"
  have "settles (probe_exchange p) ?r"
    unfolding probe_exchange_def using True by (auto intro!: settles_try_defer settles_return)
  then show ?thesis using True by (intro exI [of _ ?r]) (auto simp: packet_comes_def split: receive_answer.splits)
next
  case False
  then have "settles (probe_exchange p) (Some (if pe_send p then NoProbePacket else SendProbe))"
    unfolding probe_exchange_def by (auto simp: av_try_then intro: settles_return)
  then show ?thesis using False by (intro exI conjI) (auto simp: packet_comes_def)
qed

lemma settles_ex_try:
  assumes "ok \<Longrightarrow> \<exists>r. settles body r \<and> (r = None \<longleftrightarrow> P)" "\<not> ok \<Longrightarrow> settles n (Some e)"
  shows "\<exists>r. settles (State_Monad.bind (av_try ok) (\<lambda>x. case x of None \<Rightarrow> n | Some y \<Rightarrow> av_defer y body)) r \<and>
     (r = None \<longleftrightarrow> ok \<and> P)"
  using assms settles_defer [of body] by (cases ok) (auto simp: av_try_then)

lemma settles_ex_guard:
  assumes "ok \<Longrightarrow> \<exists>r. settles m r \<and> (r = None \<longleftrightarrow> P)"
  shows "\<exists>r. settles (if \<not> ok then State_Monad.return (Some e) else m) r \<and> (r = None \<longleftrightarrow> ok \<and> P)"
  using assms settles_return [of "Some e"] by (cases ok) auto

lemma settles_ex_eq: "\<exists>r. settles m r \<and> (r = None \<longleftrightarrow> P) \<Longrightarrow> P = Q \<Longrightarrow> \<exists>r. settles m r \<and> (r = None \<longleftrightarrow> Q)"
  by simp

lemma probe_frames_settles:
  "\<exists>r. settles (probe_frames p vaapi) r \<and>
     (r = None \<longleftrightarrow> pe_soft p \<and> pe_softBuf p \<and> pe_fill p \<and> (vaapi \<longrightarrow> pe_hard p \<and> pe_hardBuf p \<and> pe_upload p) \<and> packet_comes p)"
proof (cases vaapi)
  case True
  have "\<exists>r. settles (probe_frames p vaapi) r \<and>
     (r = None \<longleftrightarrow> pe_soft p \<and> pe_softBuf p \<and> pe_fill p \<and> pe_hard p \<and> pe_hardBuf p \<and> pe_upload p \<and> packet_comes p)"
    unfolding probe_frames_def
    apply (simp only: True not_True_eq_False if_False)
    apply (rule settles_ex_try)
     apply (rule settles_ex_guard)
     apply (rule settles_ex_guard)
     apply (rule settles_ex_try)
      apply (rule settles_ex_guard)
      apply (rule settles_ex_guard)
      apply (rule probe_exchange_settles)
     apply (rule settles_return)+
    done
  then show ?thesis by (rule settles_ex_eq) (simp add: True)
next
  case False
  have "\<exists>r. settles (probe_frames p vaapi) r \<and> (r = None \<longleftrightarrow> pe_soft p \<and> pe_softBuf p \<and> pe_fill p \<and> packet_comes p)"
    unfolding probe_frames_def
    apply (simp only: False not_False_eq_True if_True)
    apply (rule settles_ex_try)
     apply (rule settles_ex_guard)
     apply (rule settles_ex_guard)
     apply (rule probe_exchange_settles)
    apply (rule settles_return)
    done
  then show ?thesis by (rule settles_ex_eq) (simp add: False)
qed

lemma probe_open_settles:
  "\<exists>r. settles (probe_open p vaapi) r \<and>
     (r = None \<longleftrightarrow> pe_open p \<and> pe_soft p \<and> pe_softBuf p \<and> pe_fill p \<and>
       (vaapi \<longrightarrow> pe_hard p \<and> pe_hardBuf p \<and> pe_upload p) \<and> packet_comes p)"
proof -
  obtain r where r: "settles (if \<not> pe_open p then State_Monad.return (Some OpenEncoder) else probe_frames p vaapi) r"
      "r = None \<longleftrightarrow> pe_open p \<and> pe_soft p \<and> pe_softBuf p \<and> pe_fill p \<and>
        (vaapi \<longrightarrow> pe_hard p \<and> pe_hardBuf p \<and> pe_upload p) \<and> packet_comes p"
    using settles_ex_guard [where ok = "pe_open p" and e = OpenEncoder, OF probe_frames_settles] by auto
  then show ?thesis using settles_defer [OF r(1)] unfolding probe_open_def by (intro exI [of _ r]) simp
qed

lemma probeHardwareEncoder_settles:
  "\<exists>r. settles (probeHardwareEncoder p codec) r \<and> (r = None \<longleftrightarrow> probe_passes p codec)"
proof (cases "codec = ''h264_vaapi''")
  case True
  have "\<exists>r. settles (probeHardwareEncoder p codec) r \<and> (r = None \<longleftrightarrow> pe_alloc p \<and> pe_frames p \<and> pe_framesInit p \<and> pe_open p \<and>
      pe_soft p \<and> pe_softBuf p \<and> pe_fill p \<and> (True \<longrightarrow> pe_hard p \<and> pe_hardBuf p \<and> pe_upload p) \<and> packet_comes p)"
    unfolding probeHardwareEncoder_def if_P [OF True]
    by (rule settles_ex_try, rule settles_ex_try, rule settles_ex_guard, rule probe_open_settles, (rule settles_return)+)
  then show ?thesis by (rule settles_ex_eq) (auto simp: probe_passes_def True)
next
  case False
  have "\<exists>r. settles (probeHardwareEncoder p codec) r \<and> (r = None \<longleftrightarrow> pe_alloc p \<and> pe_open p \<and>
      pe_soft p \<and> pe_softBuf p \<and> pe_fill p \<and> (False \<longrightarrow> pe_hard p \<and> pe_hardBuf p \<and> pe_upload p) \<and> packet_comes p)"
    unfolding probeHardwareEncoder_def if_not_P [OF False]
    by (rule settles_ex_try, rule probe_open_settles, rule settles_return)
  then show ?thesis by (rule settles_ex_eq) (auto simp: probe_passes_def False)
qed

lemma settles_alloc_free: "settles m r \<Longrightarrow> settles (f r) s \<Longrightarrow>
   settles (do { x \<leftarrow> av_alloc; y \<leftarrow> m; av_free x; f y }) s"
proof -
  assume a: "settles m r" "settles (f r) s"
  have eq: "(do { x \<leftarrow> av_alloc; y \<leftarrow> m; av_free x; f y }) = State_Monad.bind (do { x \<leftarrow> av_alloc; av_defer x m }) f"
    by (simp add: av_defer_def)
  show ?thesis unfolding eq using settles_bind [of "do { x \<leftarrow> av_alloc; av_defer x m }" r f s] settles_defer [OF a(1)] a(2) by blast
qed

lemma try_candidates_settles: "settles (try_candidates e cs) (first_some (candidate_config e) cs)"
proof (induction cs)
  case (Cons c cs)
  obtain r where r: "settles (probeHardwareEncoder (ge_probe e (cd_encoderName c)) (cd_encoderName c)) r"
      "r = None \<longleftrightarrow> probe_passes (ge_probe e (cd_encoderName c)) (cd_encoderName c)"
    using probeHardwareEncoder_settles by blast
  show ?case
    using Cons r(2)
    by (auto simp: candidate_config_def Let_def av_try_then split: option.splits
        intro!: settles_alloc_free [OF r(1)] settles_return)
qed (simp add: settles_return)

text \<open>
  C30. \<^verbatim>\<open>InitGPU\<close> selects the first candidate of the platform that passes every test: its device type and its
  encoder are in the build, VAAPI has a render node, the device opens, and a probe frame comes out of the
  encoder as a packet. Otherwise, and when hardware acceleration is disabled, no GPU is used. Whatever fails,
  every device, encoder, frame, dictionary and packet the probe made is freed exactly once.
\<close>

theorem InitGPU_selects_working:
  "\<exists>h'. run_state (InitGPU e) h =
      (if hwAccelDisabled (ge_disable e) then None else first_some (candidate_config e) (gpuCandidates (ge_goos e)), h') \<and>
    av_live h' = av_live h \<and> av_bad h' = av_bad h"
proof -
  let ?g = "if hwAccelDisabled (ge_disable e) then None else first_some (candidate_config e) (gpuCandidates (ge_goos e))"
  have "settles (InitGPU e) ?g" unfolding InitGPU_def by (auto intro: settles_return try_candidates_settles)
  then have "fst (run_state (InitGPU e) h) = ?g"
      "av_live (snd (run_state (InitGPU e) h)) = av_live h \<and> av_bad (snd (run_state (InitGPU e) h)) = av_bad h"
    by (auto simp: settles_def owns_def gives_def)
  then show ?thesis by (metis prod.collapse)
qed

end
