(* ===== verification/VideoSetup.thy ===== *)
theory VideoSetup
  imports HwAccel SegmentMux
begin

text \<open>
  Building and releasing the video pipeline (\<^verbatim>\<open>media/video.go\<close>, \<^verbatim>\<open>media/tone_map.go\<close>): the decoder and the
  encoder with their hardware variants and fallbacks, the bitstream filter, the tone mapper, the struct that
  holds them and its \<^verbatim>\<open>free\<close>. What libav answers to each call is a record of answers. Objects the muxer
  context owns (its streams) are not on the heap.
\<close>

section \<open>The source stream and the encoder's settings\<close>

datatype color_transfer = Smpte2084 | AribStdB67 | TransferBt709 | OtherTransfer nat

record video_stream =
  vs_CodecID :: string
  vs_Transfer :: color_transfer
  vs_Primaries :: nat
  vs_Space :: nat
  vs_Range :: nat
  vs_fpsNum :: int
  vs_fpsDen :: int
  vs_tbNum :: int
  vs_tbDen :: int

definition isHDRTransfer :: "color_transfer \<Rightarrow> bool" where
  "isHDRTransfer t \<longleftrightarrow> t = Smpte2084 \<or> t = AribStdB67"

definition vaapiToneMapFilter :: string where
  "vaapiToneMapFilter = ''tonemap_vaapi=format=nv12:p=bt709:t=bt709:m=bt709''"

definition softwareToneMapFilter :: "string \<Rightarrow> string" where
  "softwareToneMapFilter output' =
     ''zscale=t=linear:npl=100,'' @ ''format=gbrpf32le,'' @ ''zscale=p=bt709,'' @ ''tonemap=tonemap=hable:desat=0,'' @
     ''zscale=t=bt709:m=bt709:r=tv,'' @ ''format=pix_fmts='' @ output'"

text \<open>
  What the encoder is opened with: \<^verbatim>\<open>None\<close> in a colour field is the BT.709 value, \<^verbatim>\<open>Some\<close> the value of the
  source.
\<close>

record encoder_settings =
  es_Width :: int
  es_Height :: int
  es_Profile :: string
  es_MaxBFrames :: nat
  es_Primaries :: "nat option"
  es_Transfer :: color_transfer
  es_Space :: "nat option"
  es_Range :: "nat option"
  es_Framerate :: "(int \<times> int) option"
  es_TimeBase :: "int \<times> int"
  es_GlobalHeader :: bool
  es_PixelFormat :: string
  es_ThreadCount :: "nat option"
  es_Options :: "(string \<times> string) list"

definition encoder_options :: "string \<Rightarrow> (string \<times> string) list" where
  "encoder_options codec =
     (if codec = ''h264_nvenc'' then [(''preset'', ''p4''), (''tune'', ''ll''), (''rc'', ''vbr''), (''cq'', ''24'')]
      else if codec = ''h264_vaapi'' then [(''rc_mode'', ''CQP''), (''qp'', ''24'')]
      else if codec = ''h264_videotoolbox'' then [(''realtime'', ''1''), (''allow_sw'', ''0'')]
      else [(''preset'', ''veryfast''), (''crf'', ''23''), (''tune'', ''zerolatency'')])"

definition encoder_settings_for :: "video_stream \<Rightarrow> int \<Rightarrow> int \<Rightarrow> bool \<Rightarrow> string \<Rightarrow> encoder_settings" where
  "encoder_settings_for in' width height globalHeader codec =
     (let hdr = isHDRTransfer (vs_Transfer in');
          fps = 0 < vs_fpsNum in' \<and> 0 < vs_fpsDen in';
          hw = codec = ''h264_nvenc'' \<or> codec = ''h264_videotoolbox''
      in \<lparr>es_Width = width, es_Height = height, es_Profile = ''high'', es_MaxBFrames = 0,
          es_Primaries = (if hdr then None else Some (vs_Primaries in')),
          es_Transfer = (if hdr then TransferBt709 else vs_Transfer in'),
          es_Space = (if hdr then None else Some (vs_Space in')),
          es_Range = (if hdr then None else Some (vs_Range in')),
          es_Framerate = (if fps then Some (vs_fpsNum in', vs_fpsDen in') else None),
          es_TimeBase = (if fps then (vs_fpsDen in', vs_fpsNum in') else (vs_tbNum in', vs_tbDen in')),
          es_GlobalHeader = globalHeader,
          es_PixelFormat = (if codec = ''h264_vaapi'' then ''vaapi'' else if hw then ''nv12'' else ''yuv420p''),
          es_ThreadCount = (if codec = ''h264_vaapi'' \<or> hw then None else Some cpuEncoderThreadLimit),
          es_Options = encoder_options codec\<rparr>)"

section \<open>The bitstream filter\<close>

record bsf_env =
  bf_found :: bool
  bf_alloc :: bool
  bf_copy :: bool
  bf_init :: bool

definition mpeg4UnpackBSF :: "bsf_env \<Rightarrow> video_stream \<Rightarrow> (handle \<times> handle) option av" where
  "mpeg4UnpackBSF b in' =
     (if vs_CodecID in' \<noteq> ''mpeg4'' then State_Monad.return None
      else if \<not> bf_found b then State_Monad.return None
      else do {
        bsfc' \<leftarrow> av_try (bf_alloc b);
        case bsfc' of
          None \<Rightarrow> State_Monad.return None
        | Some bsfc \<Rightarrow>
            if \<not> bf_copy b then do { av_free bsfc; State_Monad.return None }
            else if \<not> bf_init b then do { av_free bsfc; State_Monad.return None }
            else do { pkt \<leftarrow> av_alloc; State_Monad.return (Some (bsfc, pkt)) }
      })"

section \<open>The tone mapper\<close>

datatype tone_error =
  ToneAlloc | ToneFilters | ToneSource | ToneSink | ToneParams | ToneConfigureSource | ToneInitSource | ToneLinks
| ToneParse | ToneConfigure | ToneFrame

record tone_env =
  te_graph :: bool
  te_filters :: bool
  te_src :: bool
  te_sink :: bool
  te_params :: bool
  te_setParams :: bool
  te_srcInit :: bool
  te_outputs :: bool
  te_inputs :: bool
  te_parse :: "string \<Rightarrow> bool"
  te_configure :: bool
  te_frame :: bool

text \<open>The source and sink filters belong to the graph and go with it.\<close>

record videoToneMapper =
  tm_graph :: handle
  tm_frame :: handle

definition tone_fail :: "handle \<Rightarrow> tone_error \<Rightarrow> (tone_error + videoToneMapper) av" where
  "tone_fail graph err = do { av_free graph; State_Monad.return (Inl err) }"

definition tone_link :: "tone_env \<Rightarrow> string \<Rightarrow> handle \<Rightarrow> (tone_error + videoToneMapper) av" where
  "tone_link t content graph =
     (if \<not> te_parse t content then tone_fail graph ToneParse
      else if \<not> te_configure t then tone_fail graph ToneConfigure
      else do {
        frame' \<leftarrow> av_try (te_frame t);
        case frame' of
          None \<Rightarrow> tone_fail graph ToneFrame
        | Some frame \<Rightarrow> State_Monad.return (Inr \<lparr>tm_graph = graph, tm_frame = frame\<rparr>)
      })"

definition tone_links :: "tone_env \<Rightarrow> string \<Rightarrow> handle \<Rightarrow> (tone_error + videoToneMapper) av" where
  "tone_links t content graph = do {
     outputs' \<leftarrow> av_try (te_outputs t);
     inputs' \<leftarrow> av_try (te_inputs t);
     case outputs' of
       None \<Rightarrow> do { av_free_opt inputs'; tone_fail graph ToneLinks }
     | Some outputs \<Rightarrow>
         (case inputs' of
            None \<Rightarrow> do { av_free outputs; tone_fail graph ToneLinks }
          | Some inputs \<Rightarrow> av_defer outputs (av_defer inputs (tone_link t content graph)))
   }"

definition newVideoToneMapper :: "tone_env \<Rightarrow> string \<Rightarrow> (tone_error + videoToneMapper) av" where
  "newVideoToneMapper t content = do {
     graph' \<leftarrow> av_try (te_graph t);
     case graph' of
       None \<Rightarrow> State_Monad.return (Inl ToneAlloc)
     | Some graph \<Rightarrow>
         if \<not> te_filters t then tone_fail graph ToneFilters
         else if \<not> te_src t then tone_fail graph ToneSource
         else if \<not> te_sink t then tone_fail graph ToneSink
         else do {
           params' \<leftarrow> av_try (te_params t);
           case params' of
             None \<Rightarrow> tone_fail graph ToneParams
           | Some params \<Rightarrow> do {
               av_free params;
               if \<not> te_setParams t then tone_fail graph ToneConfigureSource
               else if \<not> te_srcInit t then tone_fail graph ToneInitSource
               else tone_links t content graph
             }
         }
   }"

definition tone_free :: "videoToneMapper \<Rightarrow> unit av" where
  "tone_free m = do { av_free (tm_frame m); av_free (tm_graph m) }"

definition own_tone :: "videoToneMapper \<Rightarrow> handle multiset" where
  "own_tone m = {#tm_graph m, tm_frame m#}"

definition own_result :: "('a \<Rightarrow> handle multiset) \<Rightarrow> 'e + 'a \<Rightarrow> handle multiset" where
  "own_result own r = (case r of Inl _ \<Rightarrow> {#} | Inr x \<Rightarrow> own x)"

lemma own_result_simps [simp]: "own_result own (Inl e) = {#}" "own_result own (Inr x) = own x"
  by (simp_all add: own_result_def)

text \<open>Running out the steps of a function: the rules above, then the multiset equations that are left.\<close>

lemma tone_fail_owns: "A = add_mset graph B \<Longrightarrow> owns A (tone_fail graph e) (\<lambda>r. own_result own_tone r + B)"
  unfolding tone_fail_def by (rule owns_free_then) (auto intro: owns_return)

lemma tone_link_owns: "A = add_mset graph B \<Longrightarrow> owns A (tone_link t content graph) (\<lambda>r. own_result own_tone r + B)"
  unfolding tone_link_def
  by (intro owns_if owns_try_then) (auto simp: own_tone_def intro!: tone_fail_owns owns_return)

lemma tone_links_owns: "owns {#graph#} (tone_links t content graph) (own_result own_tone)"
proof -
  have fail: "owns {#graph#} (tone_fail graph e) (own_result own_tone)" for e
    using tone_fail_owns [of "{#graph#}" graph "{#}"] by simp
  have link: "owns {#i, o', graph#} (tone_link t content graph) (\<lambda>r. add_mset i (add_mset o' (own_result own_tone r)))" for i o'
    using tone_link_owns [of "{#i, o', graph#}" graph "{#i, o'#}"] by (simp add: add_mset_commute)
  show ?thesis unfolding tone_links_def
    by (intro owns_try_then) (auto simp: av_free_opt_def intro!: owns_free_then owns_defer fail link)
qed

lemma newVideoToneMapper_owns: "owns {#} (newVideoToneMapper t content) (own_result own_tone)"
proof -
  have fail: "owns {#graph#} (tone_fail graph e) (own_result own_tone)" for e graph
    using tone_fail_owns [of "{#graph#}" graph "{#}"] by simp
  show ?thesis unfolding newVideoToneMapper_def
    by (rule owns_if owns_try_then owns_free_head owns_return fail tone_links_owns | simp only: option.case | (simp; fail))+
qed

lemma tone_free_owns: "own_tone m \<subseteq># A \<Longrightarrow> owns A (tone_free m) (\<lambda>_. A - own_tone m)"
proof -
  assume "own_tone m \<subseteq># A"
  then obtain B where A: "A = own_tone m + B" by (metis subset_mset.le_iff_add)
  have "owns A (tone_free m) (\<lambda>_. B)"
    unfolding tone_free_def A own_tone_def
    by (rule owns_free_then) (simp_all add: owns_free)
  then show ?thesis using A by simp
qed

section \<open>The decoder\<close>

datatype venc_error =
  NoVideoDecoder | DecoderAlloc | DecoderParams | DecoderOpen | NoH264Encoder | EncoderAlloc | FramesAlloc
| FramesInitialize | EncoderOpen | CpuEncoder venc_error | NewVideoStream | StreamParams

record codec_open =
  co_alloc :: bool
  co_params :: bool
  co_open :: bool

record hw_config =
  hc_DeviceType :: nat
  hc_HwDeviceCtx :: bool

definition decoder_context :: "codec_open \<Rightarrow> (venc_error + handle) av" where
  "decoder_context c = do {
     ctx' \<leftarrow> av_try (co_alloc c);
     case ctx' of
       None \<Rightarrow> State_Monad.return (Inl DecoderAlloc)
     | Some ctx \<Rightarrow>
         if \<not> co_params c then do { av_free ctx; State_Monad.return (Inl DecoderParams) }
         else State_Monad.return (Inr ctx)
   }"

text \<open>The software context, which is also the fallback of a rejected hardware context.\<close>

definition software_decoder :: "codec_open \<Rightarrow> (venc_error + handle \<times> bool) av" where
  "software_decoder sw = do {
     r \<leftarrow> decoder_context sw;
     case r of
       Inl e \<Rightarrow> State_Monad.return (Inl e)
     | Inr ctx \<Rightarrow>
         if co_open sw then State_Monad.return (Inr (ctx, False))
         else do { av_free ctx; State_Monad.return (Inl DecoderOpen) }
   }"

definition openVideoDecoder ::
  "GPUConfig option \<Rightarrow> hw_config list \<Rightarrow> codec_open \<Rightarrow> codec_open \<Rightarrow> handle option \<Rightarrow> (venc_error + handle \<times> bool) av"
where
  "openVideoDecoder gpu cfgs hw sw hwDevCtx =
     (case (gpu, hwDevCtx) of
        (Some g, Some _) \<Rightarrow>
          (case find (\<lambda>cfg. hc_DeviceType cfg = gpu_HwType g \<and> hc_HwDeviceCtx cfg) cfgs of
             Some cfg \<Rightarrow> do {
               r \<leftarrow> decoder_context hw;
               case r of
                 Inl e \<Rightarrow> State_Monad.return (Inl e)
               | Inr ctx \<Rightarrow>
                   if co_open hw then State_Monad.return (Inr (ctx, True))
                   else do { av_free ctx; software_decoder sw }
             }
           | None \<Rightarrow> software_decoder sw)
      | _ \<Rightarrow> software_decoder sw)"

lemma decoder_context_owns: "owns {#} (decoder_context c) (own_result (\<lambda>x. {#x#}))"
  unfolding decoder_context_def
  by (rule owns_if owns_try_then owns_free_head owns_return | simp only: option.case | (simp; fail))+

lemma software_decoder_owns: "owns {#} (software_decoder sw) (own_result (\<lambda>(x, _). {#x#}))"
  unfolding software_decoder_def
  by (rule owns_bind [OF decoder_context_owns])
    (rule owns_sum owns_if owns_free_head owns_return | (simp; fail) | simp only: own_result_simps)+

lemma openVideoDecoder_owns: "owns {#} (openVideoDecoder gpu cfgs hw sw hwDevCtx) (own_result (\<lambda>(x, _). {#x#}))"
proof -
  have hw: "owns {#} (do { r \<leftarrow> decoder_context hw;
       case r of Inl e \<Rightarrow> State_Monad.return (Inl e)
       | Inr ctx \<Rightarrow> if co_open hw then State_Monad.return (Inr (ctx, True)) else do { av_free ctx; software_decoder sw } })
     (own_result (\<lambda>(x, _). {#x#}))"
    by (rule owns_bind [OF decoder_context_owns])
      (rule owns_sum owns_if owns_free_head owns_return software_decoder_owns | (simp; fail) | simp only: own_result_simps)+
  show ?thesis
    unfolding openVideoDecoder_def
    using hw software_decoder_owns [of sw] by (auto split: option.split prod.split)
qed

section \<open>The encoder\<close>

record encoder_env =
  ee_alloc :: bool
  ee_frames :: bool
  ee_framesInit :: bool
  ee_open :: "encoder_settings \<Rightarrow> bool"

definition encoder_fail :: "handle \<Rightarrow> handle option \<Rightarrow> venc_error \<Rightarrow> (venc_error + handle \<times> handle option) av" where
  "encoder_fail enc frms err = do { av_free_opt frms; av_free enc; State_Monad.return (Inl err) }"

definition encoder_open_step ::
  "encoder_env \<Rightarrow> encoder_settings \<Rightarrow> handle \<Rightarrow> handle option \<Rightarrow> (venc_error + handle \<times> handle option) av"
where
  "encoder_open_step e settings enc frms = do {
     opts \<leftarrow> av_alloc;
     av_defer opts
       (if ee_open e settings then State_Monad.return (Inr (enc, frms)) else encoder_fail enc frms EncoderOpen)
   }"

definition openVideoEncoderCandidate ::
  "encoder_env \<Rightarrow> encoder_settings \<Rightarrow> string \<Rightarrow> (venc_error + handle \<times> handle option) av"
where
  "openVideoEncoderCandidate e settings codec = do {
     enc' \<leftarrow> av_try (ee_alloc e);
     case enc' of
       None \<Rightarrow> State_Monad.return (Inl EncoderAlloc)
     | Some enc \<Rightarrow>
         if codec = ''h264_vaapi'' then do {
           frames' \<leftarrow> av_try (ee_frames e);
           case frames' of
             None \<Rightarrow> encoder_fail enc None FramesAlloc
           | Some frms \<Rightarrow>
               if \<not> ee_framesInit e then encoder_fail enc (Some frms) FramesInitialize
               else encoder_open_step e settings enc (Some frms)
         }
         else encoder_open_step e settings enc None
   }"

text \<open>
  The encoders of the build: which names \<^verbatim>\<open>FindEncoderByName\<close> knows, the name of the encoder
  \<^verbatim>\<open>FindEncoder(CodecIDH264)\<close> gives, and the answers while one is opened.
\<close>

record encoder_build =
  eb_byName :: "string \<Rightarrow> bool"
  eb_h264 :: "string option"
  eb_env :: "string \<Rightarrow> encoder_env"

definition cpu_codec :: "encoder_build \<Rightarrow> string option" where
  "cpu_codec b = (if eb_byName b ''libx264'' then Some ''libx264'' else eb_h264 b)"

text \<open>The fallback drops the frames context of its candidate (\<^verbatim>\<open>enc, _, err\<close>).\<close>

definition cpu_encoder ::
  "encoder_build \<Rightarrow> (string \<Rightarrow> encoder_settings) \<Rightarrow> (venc_error + handle \<times> string \<times> handle option) av"
where
  "cpu_encoder b settings =
     (case cpu_codec b of
        None \<Rightarrow> State_Monad.return (Inl NoH264Encoder)
      | Some codec \<Rightarrow> do {
          r \<leftarrow> openVideoEncoderCandidate (eb_env b codec) (settings codec) codec;
          case r of
            Inl e \<Rightarrow> State_Monad.return (Inl (CpuEncoder e))
          | Inr (enc, _) \<Rightarrow> State_Monad.return (Inr (enc, codec, None))
        })"

definition openVideoEncoder ::
  "GPUConfig option \<Rightarrow> encoder_build \<Rightarrow> (string \<Rightarrow> encoder_settings) \<Rightarrow> handle option \<Rightarrow>
   (venc_error + handle \<times> string \<times> handle option) av"
where
  "openVideoEncoder gpu b settings hwDevCtx =
     (case (gpu, hwDevCtx) of
        (Some g, Some _) \<Rightarrow>
          if eb_byName b (gpu_EncoderName g) then do {
            r \<leftarrow> openVideoEncoderCandidate (eb_env b (gpu_EncoderName g)) (settings (gpu_EncoderName g)) (gpu_EncoderName g);
            case r of
              Inr (enc, frms) \<Rightarrow> State_Monad.return (Inr (enc, gpu_EncoderName g, frms))
            | Inl _ \<Rightarrow> cpu_encoder b settings
          }
          else cpu_encoder b settings
      | _ \<Rightarrow> cpu_encoder b settings)"

definition own_encoder :: "handle \<times> handle option \<Rightarrow> handle multiset" where
  "own_encoder r = add_mset (fst r) (own_opt (snd r))"

definition own_opened :: "handle \<times> string \<times> handle option \<Rightarrow> handle multiset" where
  "own_opened r = add_mset (fst r) (own_opt (snd (snd r)))"

lemma encoder_fail_owns:
  "owns (add_mset enc (own_opt frms + B)) (encoder_fail enc frms e) (\<lambda>r. own_result own_encoder r + B)"
  unfolding encoder_fail_def
  by (cases frms) (auto simp: av_free_opt_def intro!: owns_free_then owns_return)

lemma encoder_open_step_owns:
  "owns (add_mset enc (own_opt frms)) (encoder_open_step e settings enc frms) (own_result own_encoder)"
proof -
  have "owns {#opts#} (State_Monad.return ()) (\<lambda>_. {#opts#})" for opts by (rule owns_return) simp
  have "owns (add_mset opts (add_mset enc (own_opt frms)))
      (if ee_open e settings then State_Monad.return (Inr (enc, frms)) else encoder_fail enc frms EncoderOpen)
      (\<lambda>r. add_mset opts (own_result own_encoder r))" for opts
    using encoder_fail_owns [of enc frms "{#opts#}" EncoderOpen]
    by (auto simp: own_encoder_def add_mset_commute intro!: owns_return)
  then show ?thesis unfolding encoder_open_step_def by (intro owns_alloc_then owns_defer)
qed

lemma openVideoEncoderCandidate_owns:
  "owns {#} (openVideoEncoderCandidate e settings codec) (own_result own_encoder)"
proof -
  have step: "owns {#enc#} (encoder_open_step e settings enc None) (own_result own_encoder)"
    "owns {#frms, enc#} (encoder_open_step e settings enc (Some frms)) (own_result own_encoder)"
    "owns {#enc#} (encoder_fail enc None err) (own_result own_encoder)"
    "owns {#frms, enc#} (encoder_fail enc (Some frms) err) (own_result own_encoder)" for enc frms err
    using encoder_open_step_owns [of enc None e settings] encoder_open_step_owns [of enc "Some frms" e settings]
      encoder_fail_owns [of enc None "{#}" err] encoder_fail_owns [of enc "Some frms" "{#}" err]
    by (simp_all add: add_mset_commute)
  show ?thesis unfolding openVideoEncoderCandidate_def
    by (rule owns_if owns_try_then owns_return step | simp only: option.case | (simp; fail))+
qed

text \<open>Only a VAAPI encoder has a frames context, so the fallback drops none unless the build's H.264 encoder is VAAPI.\<close>

lemma encoder_frames:
  "codec \<noteq> ''h264_vaapi'' \<Longrightarrow>
   gives (openVideoEncoderCandidate e settings codec) (\<lambda>r. \<forall>x. r = Inr x \<longrightarrow> snd x = None)"
proof -
  assume c: "codec \<noteq> ''h264_vaapi''"
  have "gives (encoder_open_step e settings enc None) (\<lambda>r. \<forall>x. r = Inr x \<longrightarrow> snd x = None)" for enc
    unfolding encoder_open_step_def encoder_fail_def av_defer_def
    by (auto simp: gives_def State_Monad.bind_def State_Monad.return_def split_beta)
  then show ?thesis
    using c unfolding openVideoEncoderCandidate_def
    by (auto simp: av_try_then intro!: gives_then gives_return)
qed

lemma cpu_encoder_owns:
  assumes "cpu_codec b \<noteq> Some ''h264_vaapi''"
  shows "owns {#} (cpu_encoder b settings) (own_result own_opened)"
proof (cases "cpu_codec b")
  case None
  then show ?thesis by (simp add: cpu_encoder_def owns_return)
next
  case (Some codec)
  let ?m = "openVideoEncoderCandidate (eb_env b codec) (settings codec) codec"
  have "gives ?m (\<lambda>r. \<forall>x. r = Inr x \<longrightarrow> snd x = None)" using assms Some by (intro encoder_frames) simp
  then have m: "owns {#} ?m (\<lambda>r. own_result (\<lambda>x. {#fst x#}) r)"
    using openVideoEncoderCandidate_owns [of "eb_env b codec" "settings codec" codec]
    by (fastforce simp: owns_def gives_def own_result_def own_encoder_def split: sum.splits)
  show ?thesis unfolding cpu_encoder_def Some option.case
    by (rule owns_bind [OF m]) (auto simp: own_opened_def split: sum.split intro!: owns_return)
qed

lemma openVideoEncoder_owns:
  assumes "cpu_codec b \<noteq> Some ''h264_vaapi''"
  shows "owns {#} (openVideoEncoder gpu b settings hwDevCtx) (own_result own_opened)"
proof -
  have "owns {#} (do { r \<leftarrow> openVideoEncoderCandidate (eb_env b c) (settings c) c;
       case r of Inr (enc, frms) \<Rightarrow> State_Monad.return (Inr (enc, c, frms)) | Inl _ \<Rightarrow> cpu_encoder b settings })
     (own_result own_opened)" for c
    by (rule owns_bind [OF openVideoEncoderCandidate_owns])
      (auto simp: own_opened_def own_encoder_def cpu_encoder_owns [OF assms] split: sum.split intro!: owns_return)
  then show ?thesis
    unfolding openVideoEncoder_def using cpu_encoder_owns [OF assms, of settings]
    by (auto split: option.split prod.split)
qed

section \<open>The pipeline\<close>

text \<open>
  The struct. \<open>ve_w\<close> is the shared writer, \<open>ve_bsf\<close> the filter with its packet, \<open>ve_gpu\<close> the global
  \<^verbatim>\<open>ActiveGPU\<close>, \<open>ve_pixFmt\<close> the encoder's pixel format. \<open>ve_sent\<close> records the presentation times of the
  frames the encoder accepted.
\<close>

record videoEncoder =
  ve_outIdx :: int
  ve_w :: fragWriter
  ve_dec :: handle
  ve_enc :: handle
  ve_hwDevCtx :: "handle option"
  ve_hwFramesCtx :: "handle option"
  ve_toneMapper :: "videoToneMapper option"
  ve_sws :: "handle option"
  ve_decFrm :: handle
  ve_transferFrm :: "handle option"
  ve_scaled :: handle
  ve_uploadFrm :: "handle option"
  ve_pkt :: handle
  ve_bsf :: "(handle \<times> handle) option"
  ve_startTS :: int
  ve_endTS :: int
  ve_lastPTS :: int
  ve_lastDTS :: int
  ve_hwDecode :: bool
  ve_sourceHDR :: bool
  ve_hdr10 :: bool
  ve_toneMapHW :: bool
  ve_forceSWMap :: bool
  ve_gpu :: "GPUConfig option"
  ve_pixFmt :: string
  ve_sent :: "int list"

record video_env =
  vv_stream :: video_stream
  vv_decoder :: bool
  vv_gpu :: "GPUConfig option"
  vv_device :: bool
  vv_configs :: "hw_config list"
  vv_hw :: codec_open
  vv_sw :: codec_open
  vv_width :: int
  vv_height :: int
  vv_globalHeader :: bool
  vv_build :: encoder_build
  vv_newStream :: "int option"
  vv_params :: bool
  vv_bsf :: bsf_env

definition video_settings :: "video_env \<Rightarrow> string \<Rightarrow> encoder_settings" where
  "video_settings e = encoder_settings_for (vv_stream e) (vv_width e) (vv_height e) (vv_globalHeader e)"

definition video_free_setup :: "handle \<Rightarrow> handle \<Rightarrow> handle option \<Rightarrow> handle option \<Rightarrow> unit av" where
  "video_free_setup dec enc hwFrames hwDev = do { av_free dec; av_free enc; av_free_opt hwFrames; av_free_opt hwDev }"

definition video_struct ::
  "video_env \<Rightarrow> int \<Rightarrow> int \<Rightarrow> fragWriter \<Rightarrow> int \<Rightarrow> handle option \<Rightarrow> handle \<times> bool \<Rightarrow> handle \<times> string \<times> handle option \<Rightarrow>
   videoEncoder av"
where
  "video_struct e startTS endTS fw outIdx hwDev dec enc = do {
     bsf \<leftarrow> mpeg4UnpackBSF (vv_bsf e) (vv_stream e);
     transferFrm \<leftarrow> av_try (snd dec);
     uploadFrm \<leftarrow> av_try (snd (snd enc) \<noteq> None);
     decFrm \<leftarrow> av_alloc;
     scaled \<leftarrow> av_alloc;
     pkt \<leftarrow> av_alloc;
     State_Monad.return
       \<lparr>ve_outIdx = outIdx, ve_w = fw, ve_dec = fst dec, ve_enc = fst enc, ve_hwDevCtx = hwDev,
        ve_hwFramesCtx = snd (snd enc), ve_toneMapper = None, ve_sws = None, ve_decFrm = decFrm,
        ve_transferFrm = transferFrm, ve_scaled = scaled, ve_uploadFrm = uploadFrm, ve_pkt = pkt, ve_bsf = bsf,
        ve_startTS = startTS, ve_endTS = endTS, ve_lastPTS = noPTS, ve_lastDTS = noPTS,
        ve_hwDecode = snd dec, ve_sourceHDR = isHDRTransfer (vs_Transfer (vv_stream e)),
        ve_hdr10 = (vs_Transfer (vv_stream e) = Smpte2084), ve_toneMapHW = False, ve_forceSWMap = False,
        ve_gpu = vv_gpu e, ve_pixFmt = es_PixelFormat (video_settings e (fst (snd enc))), ve_sent = []\<rparr>
   }"

definition newVideoEncoder ::
  "video_env \<Rightarrow> int \<Rightarrow> int \<Rightarrow> fragWriter \<Rightarrow> (venc_error + videoEncoder) av"
where
  "newVideoEncoder e startTS endTS fw =
     (if \<not> vv_decoder e then State_Monad.return (Inl NoVideoDecoder)
      else do {
        hwDev \<leftarrow> av_try (vv_gpu e \<noteq> None \<and> vv_device e);
        d \<leftarrow> openVideoDecoder (vv_gpu e) (vv_configs e) (vv_hw e) (vv_sw e) hwDev;
        case d of
          Inl err \<Rightarrow> do { av_free_opt hwDev; State_Monad.return (Inl err) }
        | Inr dec \<Rightarrow> do {
            n \<leftarrow> openVideoEncoder (vv_gpu e) (vv_build e) (video_settings e) hwDev;
            case n of
              Inl err \<Rightarrow> do { av_free (fst dec); av_free_opt hwDev; State_Monad.return (Inl err) }
            | Inr enc \<Rightarrow>
                (case vv_newStream e of
                   None \<Rightarrow> do {
                     video_free_setup (fst dec) (fst enc) (snd (snd enc)) hwDev;
                     State_Monad.return (Inl NewVideoStream)
                   }
                 | Some outIdx \<Rightarrow>
                     if \<not> vv_params e then do {
                       video_free_setup (fst dec) (fst enc) (snd (snd enc)) hwDev;
                       State_Monad.return (Inl StreamParams)
                     }
                     else do {
                       v \<leftarrow> video_struct e startTS endTS fw outIdx hwDev dec enc;
                       State_Monad.return (Inr v)
                     })
          }
      })"

definition video_free :: "videoEncoder \<Rightarrow> unit av" where
  "video_free v = do {
     av_free (ve_pkt v);
     av_free_opt (map_option snd (ve_bsf v));
     av_free_opt (map_option fst (ve_bsf v));
     (case ve_toneMapper v of None \<Rightarrow> State_Monad.return () | Some m \<Rightarrow> tone_free m);
     av_free (ve_scaled v);
     av_free_opt (ve_uploadFrm v);
     av_free_opt (ve_transferFrm v);
     av_free (ve_decFrm v);
     av_free_opt (ve_sws v);
     av_free (ve_enc v);
     av_free (ve_dec v);
     av_free_opt (ve_hwFramesCtx v);
     av_free_opt (ve_hwDevCtx v)
   }"

text \<open>What an encoder holds.\<close>

definition own_tone_opt :: "videoToneMapper option \<Rightarrow> handle multiset" where
  "own_tone_opt o' = (case o' of None \<Rightarrow> {#} | Some m \<Rightarrow> own_tone m)"

definition own_fixed :: "videoEncoder \<Rightarrow> handle multiset" where
  "own_fixed v = {#ve_dec v, ve_enc v, ve_decFrm v, ve_scaled v, ve_pkt v#} + own_opt (ve_hwDevCtx v) +
     own_opt (ve_hwFramesCtx v) + own_opt (ve_transferFrm v) + own_opt (ve_uploadFrm v) +
     own_opt (map_option fst (ve_bsf v)) + own_opt (map_option snd (ve_bsf v))"

definition own_video :: "videoEncoder \<Rightarrow> handle multiset" where
  "own_video v = own_fixed v + own_opt (ve_sws v) + own_tone_opt (ve_toneMapper v)"

lemma own_tone_opt_simps [simp]: "own_tone_opt None = {#}" "own_tone_opt (Some m) = own_tone m"
  by (simp_all add: own_tone_opt_def)

text \<open>Freeing in a row: what is freed is taken off the front of a sum.\<close>

lemma owns_free_row: "owns A (f ()) B \<Longrightarrow> owns (own_opt x + A) (State_Monad.bind (av_free_opt x) f) B"
  by (rule owns_bind [OF owns_free_opt]) simp

lemma tone_free_opt_owns:
  "owns (own_tone_opt t + A) (case t of None \<Rightarrow> State_Monad.return () | Some m \<Rightarrow> tone_free m) (\<lambda>_. A)"
proof (cases t)
  case (Some m)
  then show ?thesis using tone_free_owns [of m "own_tone m + A"] by simp
qed (simp add: owns_return)

lemma video_free_owns: "owns (own_video v + A) (video_free v) (\<lambda>_. A)"
proof -
  have eq: "own_video v + A =
      add_mset (ve_pkt v) (own_opt (map_option snd (ve_bsf v)) + (own_opt (map_option fst (ve_bsf v)) +
      (own_tone_opt (ve_toneMapper v) + add_mset (ve_scaled v) (own_opt (ve_uploadFrm v) + (own_opt (ve_transferFrm v) +
      add_mset (ve_decFrm v) (own_opt (ve_sws v) + add_mset (ve_enc v) (add_mset (ve_dec v) (own_opt (ve_hwFramesCtx v) +
      (own_opt (ve_hwDevCtx v) + A)))))))))"
    by (simp add: own_video_def own_fixed_def ac_simps)
  show ?thesis
    unfolding eq video_free_def
    by (intro owns_free_head owns_free_row owns_bind [OF tone_free_opt_owns] owns_free_opt)
qed

lemma video_free_setup_owns:
  "owns (add_mset dec (add_mset enc (own_opt frms + (own_opt dev + A)))) (video_free_setup dec enc frms dev) (\<lambda>_. A)"
  unfolding video_free_setup_def by (intro owns_free_head owns_free_row owns_free_opt)

definition own_bsf :: "(handle \<times> handle) option \<Rightarrow> handle multiset" where
  "own_bsf b = own_opt (map_option fst b) + own_opt (map_option snd b)"

lemma mpeg4UnpackBSF_owns: "owns A (mpeg4UnpackBSF b in') (\<lambda>r. own_bsf r + A)"
  unfolding mpeg4UnpackBSF_def
  by (rule owns_if owns_try_then owns_alloc_then owns_free_head owns_return | simp only: option.case | (simp add: own_bsf_def; fail))+

lemma owns_try_row: "(\<And>r. owns (own_opt r + A) (f r) B) \<Longrightarrow> owns A (State_Monad.bind (av_try ok) f) B"
  by (rule owns_bind [OF owns_try])

lemma video_struct_owns:
  "owns (add_mset (fst dec) (add_mset (fst enc) (own_opt (snd (snd enc)) + own_opt hwDev)))
     (video_struct e startTS endTS fw outIdx hwDev dec enc) own_video"
  unfolding video_struct_def
  by (rule owns_bind [OF mpeg4UnpackBSF_owns])
    (intro owns_try_row owns_alloc_then owns_return; simp add: own_video_def own_fixed_def own_bsf_def ac_simps)

lemma newVideoEncoder_owns:
  assumes "cpu_codec (vv_build e) \<noteq> Some ''h264_vaapi''"
  shows "owns {#} (newVideoEncoder e startTS endTS fw) (own_result own_video)"
proof -
  have dec: "owns (own_opt hwDev) (openVideoDecoder (vv_gpu e) (vv_configs e) (vv_hw e) (vv_sw e) hwDev)
      (\<lambda>r. own_result (\<lambda>(x, _). {#x#}) r + own_opt hwDev)" for hwDev
    using owns_frame [OF openVideoDecoder_owns, of "own_opt hwDev"] by simp
  have enc: "owns (add_mset d (own_opt hwDev)) (openVideoEncoder (vv_gpu e) (vv_build e) (video_settings e) hwDev)
      (\<lambda>r. own_result own_opened r + add_mset d (own_opt hwDev))" for d hwDev
    using owns_frame [OF openVideoEncoder_owns [OF assms], of "add_mset d (own_opt hwDev)"] by simp
  have ret: "owns {#} (State_Monad.return (Inl err)) (own_result own_video)" for err by (rule owns_return) simp
  have undo: "owns (add_mset d (add_mset n (own_opt frms + own_opt hwDev)))
      (do { video_free_setup d n frms hwDev; State_Monad.return (Inl err) }) (own_result own_video)" for d n frms hwDev err
    using owns_bind [OF video_free_setup_owns [of d n frms hwDev "{#}"] ret] by simp
  have rest: "owns (own_opened n + add_mset (fst d) (own_opt hwDev))
      (case vv_newStream e of
         None \<Rightarrow> do { video_free_setup (fst d) (fst n) (snd (snd n)) hwDev; State_Monad.return (Inl NewVideoStream) }
       | Some outIdx \<Rightarrow>
           if \<not> vv_params e then do { video_free_setup (fst d) (fst n) (snd (snd n)) hwDev; State_Monad.return (Inl StreamParams) }
           else do { v \<leftarrow> video_struct e startTS endTS fw outIdx hwDev d n; State_Monad.return (Inr v) })
      (own_result own_video)" for d n hwDev
  proof -
    have eq: "own_opened n + add_mset (fst d) (own_opt hwDev) =
        add_mset (fst d) (add_mset (fst n) (own_opt (snd (snd n)) + own_opt hwDev))"
      by (simp add: own_opened_def add_mset_commute)
    show ?thesis unfolding eq
      by (intro owns_option owns_if undo owns_bind [OF video_struct_owns] owns_return) simp
  qed
  show ?thesis
    unfolding newVideoEncoder_def
    apply (intro owns_if owns_try_row owns_return)
     apply simp
    apply (rule owns_bind, simp, rule dec)
    apply (rule owns_sum)
     apply (simp, rule owns_bind [OF owns_free_opt [of _ "{#}", simplified] ret])
    apply (rule owns_bind, simp add: split_beta, rule enc)
    apply (rule owns_sum)
     apply (simp, rule owns_free_head, rule owns_bind [OF owns_free_opt [of _ "{#}", simplified] ret])
    apply (simp only: own_result_simps)
    apply (rule rest)
    done
qed

end
