(* ===== verification/VideoEncoder.thy ===== *)
theory VideoEncoder
  imports VideoSetup
begin

text \<open>
  The flow of the video encoder (\<^verbatim>\<open>media/video.go\<close>, \<^verbatim>\<open>media/tone_map.go\<close>): from the packets of the source
  through the bitstream filter, the decoder, the tone mapper or the scaler and the encoder to the shared
  writer. What libav answers while one packet is fed is a record of answers: the frames the decoder gives, and
  for each frame what the steps after it answer. Unreferencing a reused frame or packet has no effect on the
  model; objects made and freed on the way live on the heap of \<open>LibavHeap\<close>.
\<close>

datatype video_error =
  BsfSend | BsfReceive | SendPacket | ReceiveFrame | DownloadFrame | InitToneMap tone_error | ToneSubmit | ToneReceive
| CreateSws | ScaleFrame | AllocVaapiFrame | UploadFrameFailed | SendFrame | ReceivePacket | MuxWrite media_error
| FlushBsf | FlushDecoder

section \<open>The encoder\<close>

text \<open>
  One call of \<^verbatim>\<open>encode\<close>: whether the frame is accepted, the packets the encoder emits, in the time base of the
  output stream, each with the failures of the writer, and whether the drain ends with \<^verbatim>\<open>EAGAIN\<close> or \<^verbatim>\<open>EOF\<close>.
\<close>

record enc_run =
  er_send :: bool
  er_packets :: "(packet \<times> bool \<times> bool) list"
  er_end :: bool

definition stamp_packet :: "packet \<Rightarrow> int \<Rightarrow> int \<Rightarrow> packet \<times> int" where
  "stamp_packet p outIdx last' =
     (let q = p\<lparr>pk_stream := outIdx\<rparr>
      in if pk_dts q = noPTS then (q, last')
         else if last' \<noteq> noPTS \<and> pk_dts q \<le> last' then
           let dts = wrap64 (last' + 1)
           in (q\<lparr>pk_dts := dts, pk_pts := (if pk_pts q = noPTS \<or> pk_pts q < dts then dts else pk_pts q)\<rparr>, dts)
         else (q, pk_dts q))"

fun encode_packets ::
  "(packet \<times> bool \<times> bool) list \<Rightarrow> bool \<Rightarrow> videoEncoder \<Rightarrow> videoEncoder \<times> video_error option"
where
  "encode_packets [] ended v = (v, if ended then None else Some ReceivePacket)"
| "encode_packets ((p, werr, cl) # ps) ended v =
     (let (q, last') = stamp_packet p (ve_outIdx v) (ve_lastDTS v);
          (fw, err) = fragWriter_write werr cl q (ve_w v);
          v1 = v\<lparr>ve_lastDTS := last', ve_w := fw\<rparr>
      in case err of Some e \<Rightarrow> (v1, Some (MuxWrite e)) | None \<Rightarrow> encode_packets ps ended v1)"

text \<open>The frame is \<^verbatim>\<open>None\<close> when the encoder is flushed.\<close>

definition video_encode :: "int option \<Rightarrow> enc_run \<Rightarrow> videoEncoder \<Rightarrow> videoEncoder \<times> video_error option" where
  "video_encode f r v =
     (if \<not> er_send r then (v, Some SendFrame)
      else encode_packets (er_packets r) (er_end r)
             (case f of None \<Rightarrow> v | Some pts \<Rightarrow> v\<lparr>ve_sent := ve_sent v @ [pts]\<rparr>))"

text \<open>\<open>rq\<close> is \<^verbatim>\<open>RescaleQ\<close> from the input to the encoder time base.\<close>

definition encodeReadyFrame ::
  "(int \<Rightarrow> int) \<Rightarrow> int \<Rightarrow> enc_run \<Rightarrow> videoEncoder \<Rightarrow> videoEncoder \<times> video_error option"
where
  "encodeReadyFrame rq pts r v = video_encode (Some (rq pts)) r v"

record ready_run =
  rr_alloc :: bool
  rr_upload :: bool
  rr_encode :: enc_run

definition prepareSoftwareFrame ::
  "(int \<Rightarrow> int) \<Rightarrow> int \<Rightarrow> ready_run \<Rightarrow> videoEncoder \<Rightarrow> videoEncoder \<times> video_error option"
where
  "prepareSoftwareFrame rq pts r v =
     (if ve_hwFramesCtx v \<noteq> None \<and> \<not> rr_alloc r then (v, Some AllocVaapiFrame)
      else if ve_hwFramesCtx v \<noteq> None \<and> \<not> rr_upload r then (v, Some UploadFrameFailed)
      else encodeReadyFrame rq pts (rr_encode r) v)"

section \<open>The tone mapper\<close>

text \<open>
  One pass through the graph: whether the frame is taken (for a flush: or the graph answers \<^verbatim>\<open>EOF\<close>), the
  frames that come out, and whether they end with \<^verbatim>\<open>EAGAIN\<close> or \<^verbatim>\<open>EOF\<close>.
\<close>

record tone_run =
  tr_add :: bool
  tr_frames :: "(int \<times> ready_run) list"
  tr_end :: bool

type_synonym consumer = "int \<Rightarrow> ready_run \<Rightarrow> videoEncoder \<Rightarrow> videoEncoder \<times> video_error option"

fun tone_drain :: "consumer \<Rightarrow> (int \<times> ready_run) list \<Rightarrow> bool \<Rightarrow> videoEncoder \<Rightarrow> videoEncoder \<times> video_error option" where
  "tone_drain consume [] ended v = (v, if ended then None else Some ToneReceive)"
| "tone_drain consume ((pts, r) # fs) ended v =
     (case consume pts r v of
        (v1, Some e) \<Rightarrow> (v1, Some e)
      | (v1, None) \<Rightarrow> tone_drain consume fs ended v1)"

text \<open>\<^verbatim>\<open>process\<close> and \<^verbatim>\<open>flush\<close> differ in what counts as a refusal, which is in the answer.\<close>

definition tone_process :: "consumer \<Rightarrow> tone_run \<Rightarrow> videoEncoder \<Rightarrow> videoEncoder \<times> video_error option" where
  "tone_process consume t v =
     (if \<not> tr_add t then (v, Some ToneSubmit) else tone_drain consume (tr_frames t) (tr_end t) v)"

definition ready_frame :: "(int \<Rightarrow> int) \<Rightarrow> consumer" where
  "ready_frame rq = (\<lambda>pts r. encodeReadyFrame rq pts (rr_encode r))"

section \<open>A decoded frame\<close>

record frame_run =
  fr_pixFmt :: string
  fr_transferFmt :: string
  fr_hwTone :: tone_env
  fr_hwRun :: tone_run
  fr_download :: bool
  fr_swTone :: tone_env
  fr_swRun :: tone_run
  fr_sws :: bool
  fr_scale :: bool
  fr_ready :: ready_run

type_synonym outcome = "videoEncoder \<times> video_error option"

definition canHardwareToneMap :: "videoEncoder \<Rightarrow> bool" where
  "canHardwareToneMap v \<longleftrightarrow> ve_sourceHDR v \<and> ve_hdr10 v \<and> ve_hwDecode v \<and> ve_hwFramesCtx v \<noteq> None \<and>
     (case ve_gpu v of None \<Rightarrow> False | Some g \<Rightarrow> gpu_HwTypeName g = ''vaapi'')"

definition targetFmt :: "videoEncoder \<Rightarrow> string" where
  "targetFmt v = (if ve_hwFramesCtx v \<noteq> None then ''nv12'' else ve_pixFmt v)"

definition software_tone :: "(int \<Rightarrow> int) \<Rightarrow> frame_run \<Rightarrow> videoEncoder \<Rightarrow> outcome av" where
  "software_tone rq f v =
     (case ve_toneMapper v of
        Some _ \<Rightarrow> State_Monad.return (tone_process (prepareSoftwareFrame rq) (fr_swRun f) v)
      | None \<Rightarrow> do {
          r \<leftarrow> newVideoToneMapper (fr_swTone f) (softwareToneMapFilter (targetFmt v));
          State_Monad.return
            (case r of
               Inl e \<Rightarrow> (v, Some (InitToneMap e))
             | Inr m \<Rightarrow> tone_process (prepareSoftwareFrame rq) (fr_swRun f)
                          (v\<lparr>ve_toneMapper := Some m, ve_toneMapHW := False\<rparr>))
        })"

definition scale_frame :: "(int \<Rightarrow> int) \<Rightarrow> int \<Rightarrow> frame_run \<Rightarrow> videoEncoder \<Rightarrow> outcome av" where
  "scale_frame rq pts f v =
     (case ve_sws v of
        Some _ \<Rightarrow> State_Monad.return
          (if \<not> fr_scale f then (v, Some ScaleFrame) else prepareSoftwareFrame rq pts (fr_ready f) v)
      | None \<Rightarrow> do {
          sws \<leftarrow> av_try (fr_sws f);
          State_Monad.return
            (let v1 = v\<lparr>ve_sws := sws\<rparr>
             in if sws = None then (v1, Some CreateSws)
                else if \<not> fr_scale f then (v1, Some ScaleFrame)
                else prepareSoftwareFrame rq pts (fr_ready f) v1)
        })"

definition software_path :: "(int \<Rightarrow> int) \<Rightarrow> int \<Rightarrow> frame_run \<Rightarrow> videoEncoder \<Rightarrow> outcome av" where
  "software_path rq pts f v =
     (if ve_hwDecode v \<and> \<not> fr_download f then State_Monad.return (v, Some DownloadFrame)
      else if ve_sourceHDR v then software_tone rq f v
      else if (if ve_hwDecode v then fr_transferFmt f else fr_pixFmt f) \<noteq> targetFmt v then scale_frame rq pts f v
      else State_Monad.return (prepareSoftwareFrame rq pts (fr_ready f) v))"

definition hardware_mapper :: "frame_run \<Rightarrow> videoEncoder \<Rightarrow> videoEncoder av" where
  "hardware_mapper f v =
     (case ve_toneMapper v of
        Some _ \<Rightarrow> State_Monad.return v
      | None \<Rightarrow> do {
          r \<leftarrow> newVideoToneMapper (fr_hwTone f) vaapiToneMapFilter;
          State_Monad.return
            (case r of
               Inr m \<Rightarrow> v\<lparr>ve_toneMapper := Some m, ve_toneMapHW := True\<rparr>
             | Inl _ \<Rightarrow> v\<lparr>ve_forceSWMap := True\<rparr>)
        })"

definition encodeDecoded :: "(int \<Rightarrow> int) \<Rightarrow> int \<Rightarrow> frame_run \<Rightarrow> videoEncoder \<Rightarrow> outcome av" where
  "encodeDecoded rq pts f v =
     (if canHardwareToneMap v \<and> \<not> ve_forceSWMap v then do {
        v1 \<leftarrow> hardware_mapper f v;
        case ve_toneMapper v1 of
          None \<Rightarrow> software_path rq pts f v1
        | Some m \<Rightarrow>
            (case tone_process (ready_frame rq) (fr_hwRun f) v1 of
               (v2, None) \<Rightarrow> State_Monad.return (v2, None)
             | (v2, Some _) \<Rightarrow> do {
                 tone_free m;
                 software_path rq pts f (v2\<lparr>ve_toneMapper := None, ve_toneMapHW := False, ve_forceSWMap := True\<rparr>)
               })
      }
      else software_path rq pts f v)"

section \<open>Decoding and feeding\<close>

text \<open>What the decoder gives for one packet.\<close>

record decode_run =
  dr_send :: bool
  dr_frames :: "(int \<times> frame_run) list"
  dr_end :: bool

fun drain_frames :: "(int \<Rightarrow> int) \<Rightarrow> (int \<times> frame_run) list \<Rightarrow> bool \<Rightarrow> videoEncoder \<Rightarrow> outcome av" where
  "drain_frames rq [] ended v = State_Monad.return (v, if ended then None else Some ReceiveFrame)"
| "drain_frames rq ((pts, f) # fs) ended v =
     (if pts = noPTS \<or> pts < ve_startTS v \<or> ve_endTS v \<le> pts then drain_frames rq fs ended v
      else if ve_lastPTS v \<noteq> noPTS \<and> pts \<le> ve_lastPTS v then drain_frames rq fs ended v
      else do {
        r \<leftarrow> encodeDecoded rq pts f (v\<lparr>ve_lastPTS := pts\<rparr>);
        (case r of
           (v1, Some e) \<Rightarrow> State_Monad.return (v1, Some e)
         | (v1, None) \<Rightarrow> drain_frames rq fs ended v1)
      })"

definition drainDecoder :: "(int \<Rightarrow> int) \<Rightarrow> decode_run \<Rightarrow> videoEncoder \<Rightarrow> outcome av" where
  "drainDecoder rq d v = drain_frames rq (dr_frames d) (dr_end d) v"

definition decodeAndDrain :: "(int \<Rightarrow> int) \<Rightarrow> decode_run \<Rightarrow> videoEncoder \<Rightarrow> outcome av" where
  "decodeAndDrain rq d v =
     (if \<not> dr_send d then State_Monad.return (v, Some SendPacket) else drainDecoder rq d v)"

fun drainBSF :: "(int \<Rightarrow> int) \<Rightarrow> decode_run list \<Rightarrow> bool \<Rightarrow> videoEncoder \<Rightarrow> outcome av" where
  "drainBSF rq [] ended v = State_Monad.return (v, if ended then None else Some BsfReceive)"
| "drainBSF rq (d # ds) ended v = do {
     r \<leftarrow> decodeAndDrain rq d v;
     (case r of
        (v1, Some e) \<Rightarrow> State_Monad.return (v1, Some e)
      | (v1, None) \<Rightarrow> drainBSF rq ds ended v1)
   }"

text \<open>
  One packet of the source: \<open>fd_direct\<close> is used without a bitstream filter, the others are the filter's
  answer and the decoder's answer to each packet that comes out of it.
\<close>

record feed_run =
  fd_direct :: decode_run
  fd_bsfSend :: bool
  fd_bsf :: "decode_run list"
  fd_bsfEnd :: bool

definition video_feed :: "(int \<Rightarrow> int) \<Rightarrow> feed_run \<Rightarrow> videoEncoder \<Rightarrow> outcome av" where
  "video_feed rq d v =
     (if ve_bsf v = None then decodeAndDrain rq (fd_direct d) v
      else if \<not> fd_bsfSend d then State_Monad.return (v, Some BsfSend)
      else drainBSF rq (fd_bsf d) (fd_bsfEnd d) v)"

text \<open>In a flush, an answer \<^verbatim>\<open>EOF\<close> to the empty packet is no refusal.\<close>

record flush_run =
  fl_bsfSend :: bool
  fl_bsf :: "decode_run list"
  fl_bsfEnd :: bool
  fl_decode :: decode_run
  fl_tone :: tone_run
  fl_encode :: enc_run

definition flush_tone :: "(int \<Rightarrow> int) \<Rightarrow> flush_run \<Rightarrow> videoEncoder \<Rightarrow> outcome" where
  "flush_tone rq l v =
     (case (if ve_toneMapper v = None then (v, None)
            else tone_process (if ve_toneMapHW v then ready_frame rq else prepareSoftwareFrame rq) (fl_tone l) v) of
        (v1, Some e) \<Rightarrow> (v1, Some e)
      | (v1, None) \<Rightarrow> video_encode None (fl_encode l) v1)"

definition video_flush :: "(int \<Rightarrow> int) \<Rightarrow> flush_run \<Rightarrow> videoEncoder \<Rightarrow> outcome av" where
  "video_flush rq l v = do {
     b \<leftarrow> (if ve_bsf v = None then State_Monad.return (v, None)
          else if \<not> fl_bsfSend l then State_Monad.return (v, Some FlushBsf)
          else drainBSF rq (fl_bsf l) (fl_bsfEnd l) v);
     (case b of
        (v1, Some e) \<Rightarrow> State_Monad.return (v1, Some e)
      | (v1, None) \<Rightarrow>
          if \<not> dr_send (fl_decode l) then State_Monad.return (v1, Some FlushDecoder)
          else do {
            d \<leftarrow> drainDecoder rq (fl_decode l) v1;
            State_Monad.return
              (case d of (v2, Some e) \<Rightarrow> (v2, Some e) | (v2, None) \<Rightarrow> flush_tone rq l v2)
          })
   }"

text \<open>A segment: the packets of the source, then the flush; the first error ends it.\<close>

fun video_run :: "(int \<Rightarrow> int) \<Rightarrow> feed_run list \<Rightarrow> flush_run \<Rightarrow> videoEncoder \<Rightarrow> outcome av" where
  "video_run rq [] l v = video_flush rq l v"
| "video_run rq (d # ds) l v = do {
     r \<leftarrow> video_feed rq d v;
     (case r of
        (v1, Some e) \<Rightarrow> State_Monad.return (v1, Some e)
      | (v1, None) \<Rightarrow> video_run rq ds l v1)
   }"

section \<open>What the steps leave alone\<close>

text \<open>Encoding changes the writer, the last decode time and the log, and nothing else.\<close>

definition ve_core :: "videoEncoder \<Rightarrow> videoEncoder" where
  "ve_core v = v\<lparr>ve_w := newFragWriter, ve_lastDTS := 0, ve_lastPTS := 0, ve_sent := []\<rparr>"

named_theorems core \<open>steps that leave the core of the encoder alone\<close>

lemma ve_core_updates [simp]:
  "ve_core (v\<lparr>ve_w := a\<rparr>) = ve_core v" "ve_core (v\<lparr>ve_lastDTS := b\<rparr>) = ve_core v"
  "ve_core (v\<lparr>ve_lastPTS := b\<rparr>) = ve_core v" "ve_core (v\<lparr>ve_sent := c\<rparr>) = ve_core v"
  by (simp_all add: ve_core_def)

lemma encode_packets_keeps:
  assumes "\<And>v l w. g (v\<lparr>ve_lastDTS := l, ve_w := w\<rparr>) = g v"
  shows "g (fst (encode_packets ps ended v)) = g v"
  by (induction ps arbitrary: v) (auto simp: assms Let_def split_beta split: option.splits)

lemma encode_packets_core [core]: "ve_core (fst (encode_packets ps ended v)) = ve_core v"
  by (rule encode_packets_keeps) simp

lemma video_encode_core [core]: "ve_core (fst (video_encode f r v)) = ve_core v"
  by (auto simp: video_encode_def core split: option.splits)

lemma ready_frame_core [core]: "ve_core (fst (ready_frame rq pts r v)) = ve_core v"
  by (simp add: ready_frame_def encodeReadyFrame_def core)

lemma prepareSoftwareFrame_core [core]: "ve_core (fst (prepareSoftwareFrame rq pts r v)) = ve_core v"
  by (simp add: prepareSoftwareFrame_def encodeReadyFrame_def core)

lemma tone_drain_core:
  "(\<And>pts r v. ve_core (fst (consume pts r v)) = ve_core v) \<Longrightarrow> ve_core (fst (tone_drain consume fs ended v)) = ve_core v"
proof (induction fs arbitrary: v)
  case (Cons pf fs)
  obtain pts r where pf: "pf = (pts, r)" by fastforce
  obtain v1 err where c: "consume pts r v = (v1, err)" by fastforce
  then have "ve_core v1 = ve_core v" using Cons.prems [of pts r v] by simp
  then show ?case using Cons.IH [OF Cons.prems] unfolding pf by (cases err) (simp_all add: c)
qed simp

lemma tone_process_core:
  "(\<And>pts r v. ve_core (fst (consume pts r v)) = ve_core v) \<Longrightarrow> ve_core (fst (tone_process consume t v)) = ve_core v"
  by (simp add: tone_process_def tone_drain_core)

lemma tone_process_cores [core]:
  "ve_core (fst (tone_process (ready_frame rq) t v)) = ve_core v"
  "ve_core (fst (tone_process (prepareSoftwareFrame rq) t v)) = ve_core v"
  by (rule tone_process_core, rule core)+

lemma core_fields:
  assumes "ve_core v' = ve_core v"
  shows "own_fixed v' = own_fixed v" "ve_sws v' = ve_sws v" "ve_toneMapper v' = ve_toneMapper v"
    "own_video v' = own_video v" "ve_startTS v' = ve_startTS v" "ve_endTS v' = ve_endTS v"
    "ve_sourceHDR v' = ve_sourceHDR v" "ve_outIdx v' = ve_outIdx v" "ve_hwDecode v' = ve_hwDecode v"
    "ve_hwFramesCtx v' = ve_hwFramesCtx v" "ve_bsf v' = ve_bsf v" "ve_pixFmt v' = ve_pixFmt v"
    "canHardwareToneMap v' = canHardwareToneMap v" "ve_toneMapHW v' = ve_toneMapHW v"
  using assms
  by (simp_all add: ve_core_def own_video_def own_fixed_def canHardwareToneMap_def)
    (cases v; cases v'; simp add: ve_core_def own_video_def own_fixed_def canHardwareToneMap_def)+

section \<open>Nothing leaks\<close>

definition keeps :: "videoEncoder \<Rightarrow> outcome av \<Rightarrow> bool" where
  "keeps v m \<longleftrightarrow> (\<forall>A. owns (own_video v + A) m (\<lambda>r. own_video (fst r) + A))"

lemma keepsI: "(\<And>A. owns (own_video v + A) m (\<lambda>r. own_video (fst r) + A)) \<Longrightarrow> keeps v m"
  by (simp add: keeps_def)

lemma keeps_return: "ve_core (fst r) = ve_core v \<Longrightarrow> keeps v (State_Monad.return r)"
  by (drule core_fields(4)) (simp add: keeps_def owns_return)

lemma keeps_core: "keeps v' m \<Longrightarrow> ve_core v = ve_core v' \<Longrightarrow> keeps v m"
  by (drule core_fields(4)) (simp add: keeps_def)

lemma keeps_seq:
  assumes "keeps v m" "\<And>v'. keeps v' (f v')"
  shows "keeps v (State_Monad.bind m (\<lambda>r. case r of (v1, Some e) \<Rightarrow> State_Monad.return (v1, Some e) | (v1, None) \<Rightarrow> f v1))"
  using assms(2) unfolding keeps_def
  by (intro allI owns_bind [OF assms(1) [unfolded keeps_def, rule_format]])
    (auto split: option.splits intro!: owns_return)

lemma own_tone_part: "own_video v = own_fixed v + own_opt (ve_sws v) + own_tone_opt (ve_toneMapper v)"
  by (simp add: own_video_def)

lemma own_fixed_updates [simp]:
  "own_fixed (v\<lparr>ve_toneMapper := m\<rparr>) = own_fixed v" "own_fixed (v\<lparr>ve_toneMapHW := b\<rparr>) = own_fixed v"
  "own_fixed (v\<lparr>ve_forceSWMap := b\<rparr>) = own_fixed v" "own_fixed (v\<lparr>ve_sws := h\<rparr>) = own_fixed v"
  by (simp_all add: own_fixed_def)

lemma new_tone_owns: "owns A (newVideoToneMapper t c) (\<lambda>r. own_result own_tone r + A)"
  using owns_frame [OF newVideoToneMapper_owns, of A] by simp

lemma software_tone_keeps: "keeps v (software_tone rq f v)"
proof (cases "ve_toneMapper v")
  case (Some m)
  then show ?thesis by (simp add: software_tone_def keeps_return core)
next
  case None
  have own: "own_video (fst (tone_process (prepareSoftwareFrame rq) (fr_swRun f)
      (v\<lparr>ve_toneMapper := Some m, ve_toneMapHW := False\<rparr>))) = own_tone m + own_video v" for m
    using None core_fields(4) [OF tone_process_cores(2) [of rq "fr_swRun f" "v\<lparr>ve_toneMapper := Some m, ve_toneMapHW := False\<rparr>"]]
    by (simp add: own_video_def ac_simps)
  show ?thesis
    unfolding software_tone_def None option.case
    by (intro keepsI owns_bind [OF new_tone_owns] owns_return) (simp add: own ac_simps split: sum.split)
qed

lemma scale_frame_keeps: "keeps v (scale_frame rq pts f v)"
proof (cases "ve_sws v")
  case (Some s)
  then show ?thesis by (simp add: scale_frame_def keeps_return core)
next
  case None
  have own: "own_video (fst (prepareSoftwareFrame rq pts (fr_ready f) (v\<lparr>ve_sws := s\<rparr>))) = own_opt s + own_video v" for s
    using None core_fields(4) [OF prepareSoftwareFrame_core [of rq pts "fr_ready f" "v\<lparr>ve_sws := s\<rparr>"]]
    by (simp add: own_video_def ac_simps)
  have own': "own_video (v\<lparr>ve_sws := s\<rparr>) = own_opt s + own_video v" for s
    using None by (simp add: own_video_def ac_simps)
  show ?thesis
    unfolding scale_frame_def None option.case
    by (intro keepsI owns_bind [OF owns_try] owns_return) (simp add: own own' Let_def ac_simps)
qed

lemma software_path_keeps: "keeps v (software_path rq pts f v)"
  unfolding software_path_def
  by (simp add: keeps_return core software_tone_keeps scale_frame_keeps)

lemma hardware_mapper_owns: "owns (own_video v + A) (hardware_mapper f v) (\<lambda>v1. own_video v1 + A)"
proof (cases "ve_toneMapper v")
  case (Some m)
  then show ?thesis by (simp add: hardware_mapper_def owns_return)
next
  case None
  show ?thesis
    unfolding hardware_mapper_def None option.case
    by (intro owns_bind [OF new_tone_owns] owns_return) (auto simp: own_video_def None ac_simps split: sum.split)
qed

lemma encodeDecoded_keeps: "keeps v (encodeDecoded rq pts f v)"
proof -
  have fallback: "owns (own_video v1 + A)
      (do { tone_free m; software_path rq pts f (v2\<lparr>ve_toneMapper := None, ve_toneMapHW := False, ve_forceSWMap := True\<rparr>) })
      (\<lambda>r. own_video (fst r) + A)"
    if m: "ve_toneMapper v1 = Some m" and c: "ve_core v2 = ve_core v1" for v1 v2 m A
  proof -
    let ?w = "v2\<lparr>ve_toneMapper := None, ve_toneMapHW := False, ve_forceSWMap := True\<rparr>"
    have eq: "own_video v1 + A = own_tone m + (own_video ?w + A)"
      using m core_fields(1-3) [OF c] by (simp add: own_video_def ac_simps)
    have "owns (own_video v1 + A) (tone_free m) (\<lambda>_. own_video ?w + A)"
      using tone_free_owns [of m "own_video v1 + A"] unfolding eq by simp
    then show ?thesis
      by (rule owns_bind) (use software_path_keeps [of ?w] in \<open>simp add: keeps_def\<close>)
  qed
  have body: "owns (own_video v1 + A)
      (case ve_toneMapper v1 of
         None \<Rightarrow> software_path rq pts f v1
       | Some m \<Rightarrow>
           (case tone_process (ready_frame rq) (fr_hwRun f) v1 of
              (v2, None) \<Rightarrow> State_Monad.return (v2, None)
            | (v2, Some _) \<Rightarrow> do { tone_free m;
                software_path rq pts f (v2\<lparr>ve_toneMapper := None, ve_toneMapHW := False, ve_forceSWMap := True\<rparr>) }))
      (\<lambda>r. own_video (fst r) + A)" for v1 A
  proof (cases "ve_toneMapper v1")
    case None
    then show ?thesis using software_path_keeps [of v1] by (simp add: keeps_def)
  next
    case (Some m)
    obtain v2 err where r: "tone_process (ready_frame rq) (fr_hwRun f) v1 = (v2, err)" by fastforce
    then have c: "ve_core v2 = ve_core v1" using tone_process_cores(1) [of rq "fr_hwRun f" v1] by simp
    show ?thesis
      using Some r c fallback [OF Some c] core_fields(4) [OF c] by (cases err) (auto intro!: owns_return)
  qed
  show ?thesis
  proof (cases "canHardwareToneMap v \<and> \<not> ve_forceSWMap v")
    case True
    then show ?thesis
      unfolding encodeDecoded_def if_P [OF True] by (intro keepsI owns_bind [OF hardware_mapper_owns] body)
  next
    case False
    show ?thesis unfolding encodeDecoded_def if_not_P [OF False] by (rule software_path_keeps)
  qed
qed

lemma drain_frames_keeps: "keeps v (drain_frames rq fs ended v)"
proof (induction fs arbitrary: v)
  case (Cons pf fs)
  obtain pts f where pf: "pf = (pts, f)" by fastforce
  have "keeps v (encodeDecoded rq pts f (v\<lparr>ve_lastPTS := pts\<rparr>))"
    by (rule keeps_core [OF encodeDecoded_keeps]) simp
  then show ?case using Cons unfolding pf by (auto intro!: keeps_seq)
qed (simp add: keeps_return)

lemma decodeAndDrain_keeps: "keeps v (decodeAndDrain rq d v)"
  by (simp add: decodeAndDrain_def drainDecoder_def keeps_return drain_frames_keeps)

lemma drainBSF_keeps: "keeps v (drainBSF rq ds ended v)"
  by (induction ds arbitrary: v) (auto intro!: keeps_return keeps_seq decodeAndDrain_keeps)

lemma video_feed_keeps: "keeps v (video_feed rq d v)"
  by (simp add: video_feed_def keeps_return decodeAndDrain_keeps drainBSF_keeps)

lemma flush_tone_core: "ve_core (fst (flush_tone rq l v)) = ve_core v"
proof -
  obtain v1 err where r: "(if ve_toneMapper v = None then (v, None)
      else tone_process (if ve_toneMapHW v then ready_frame rq else prepareSoftwareFrame rq) (fl_tone l) v) = (v1, err)"
    by fastforce
  then have "ve_core v1 = ve_core v"
    using tone_process_cores [of rq "fl_tone l" v] by (auto split: if_splits)
  then show ?thesis unfolding flush_tone_def r by (auto simp: core split: option.splits)
qed

lemma video_flush_keeps: "keeps v (video_flush rq l v)"
proof -
  have tail: "keeps v1 (do { d \<leftarrow> drainDecoder rq (fl_decode l) v1;
      State_Monad.return (case d of (v2, Some e) \<Rightarrow> (v2, Some e) | (v2, None) \<Rightarrow> flush_tone rq l v2) })" for v1
    unfolding keeps_def drainDecoder_def
    by (intro allI owns_bind [OF drain_frames_keeps [unfolded keeps_def, rule_format]])
      (auto intro!: owns_return simp: core_fields(4) [OF flush_tone_core] split: option.splits)
  show ?thesis
    unfolding video_flush_def
    by (intro keeps_seq) (auto intro: keeps_return drainBSF_keeps tail)
qed

lemma video_run_keeps: "keeps v (video_run rq ds l v)"
  by (induction ds arbitrary: v) (auto intro!: video_flush_keeps keeps_seq video_feed_keeps)

text \<open>The encoder of a segment, from its construction to its \<^verbatim>\<open>free\<close>.\<close>

definition video_segment ::
  "(int \<Rightarrow> int) \<Rightarrow> video_env \<Rightarrow> int \<Rightarrow> int \<Rightarrow> fragWriter \<Rightarrow> feed_run list \<Rightarrow> flush_run \<Rightarrow> (venc_error + outcome) av"
where
  "video_segment rq e startTS endTS fw ds l = do {
     n \<leftarrow> newVideoEncoder e startTS endTS fw;
     case n of
       Inl err \<Rightarrow> State_Monad.return (Inl err)
     | Inr v \<Rightarrow> do { r \<leftarrow> video_run rq ds l v; video_free (fst r); State_Monad.return (Inr r) }
   }"

text \<open>
  However the transcoding of a segment ends, everything it allocated is freed exactly once: the decoder,
  the encoder, the hardware contexts, the frames, the filter graphs and the packets. This covers the partial
  set-ups that fail half-way, the fallbacks from hardware to software, and the tone mapper that is replaced in
  the middle of a segment. It needs that the software fallback is not itself the VAAPI encoder, whose frames
  context the fallback would drop.
\<close>

theorem video_segment_frees_all:
  assumes "cpu_codec (vv_build e) \<noteq> Some ''h264_vaapi''"
  shows "av_live (snd (run_state (video_segment rq e startTS endTS fw ds l) h)) = av_live h \<and>
    av_bad (snd (run_state (video_segment rq e startTS endTS fw ds l) h)) = av_bad h"
proof -
  have run: "owns (own_video v) (video_run rq ds l v) (\<lambda>r. own_video (fst r))" for v
    using video_run_keeps [of v rq ds l, unfolded keeps_def, THEN spec, of "{#}"] by simp
  have free: "owns (own_video v) (video_free v) (\<lambda>_. {#})" for v
    using video_free_owns [of v "{#}"] by simp
  have "owns {#} (video_segment rq e startTS endTS fw ds l) (\<lambda>_. {#})"
    unfolding video_segment_def
    by (rule owns_bind [OF newVideoEncoder_owns [OF assms]], rule owns_sum)
      (simp_all add: owns_return owns_bind [OF run owns_bind [OF free]])
  then show ?thesis by (simp add: owns_def)
qed

section \<open>Which frames are encoded\<close>

text \<open>The frames a window places after a last presentation time, and the window itself.\<close>

fun placed :: "int \<Rightarrow> int \<Rightarrow> int \<Rightarrow> int list \<Rightarrow> int list" where
  "placed a b l [] = []"
| "placed a b l (p # ps) =
     (if p = noPTS \<or> p < a \<or> b \<le> p \<or> l \<noteq> noPTS \<and> p \<le> l then placed a b l ps else p # placed a b p ps)"

definition in_window :: "int \<Rightarrow> int \<Rightarrow> int list \<Rightarrow> int list" where
  "in_window a b ps = filter (\<lambda>p. a \<le> p \<and> p < b) ps"

definition last_or :: "int \<Rightarrow> int list \<Rightarrow> int" where
  "last_or l ps = (if ps = [] then l else last ps)"

lemma last_or_simps [simp]: "last_or l [] = l" "last_or l (p # ps) = last_or p ps"
  by (simp_all add: last_or_def)

lemma placed_append: "placed a b l (ps @ qs) = placed a b l ps @ placed a b (last_or l (placed a b l ps)) qs"
  by (induction ps arbitrary: l) auto

lemma last_or_append: "last_or l (ps @ qs) = last_or (last_or l ps) qs"
  by (simp add: last_or_def)

lemma placed_window:
  assumes "noPTS < a" "sorted_wrt (<) (in_window a b ps)" "\<forall>p \<in> set (in_window a b ps). l < p"
  shows "placed a b l ps = in_window a b ps"
  using assms(2,3)
proof (induction ps arbitrary: l)
  case (Cons p ps)
  show ?case
  proof (cases "a \<le> p \<and> p < b")
    case True
    then have "in_window a b (p # ps) = p # in_window a b ps" by (simp add: in_window_def)
    with Cons True assms(1) show ?thesis by auto
  next
    case False
    then have "in_window a b (p # ps) = in_window a b ps" by (auto simp: in_window_def)
    with Cons False show ?thesis by auto
  qed
qed (simp add: in_window_def)

text \<open>\<open>shows_frames\<close>: a successful run hands the encoder exactly the frames of the window.\<close>

definition frame_state :: "videoEncoder \<Rightarrow> int \<times> int \<times> bool \<times> bool \<times> bool" where
  "frame_state v = (ve_startTS v, ve_endTS v, ve_sourceHDR v, ve_bsf v = None, ve_toneMapper v = None)"

definition shows_frames :: "(int \<Rightarrow> int) \<Rightarrow> videoEncoder \<Rightarrow> int list \<Rightarrow> outcome \<Rightarrow> bool" where
  "shows_frames rq v ps r \<longleftrightarrow>
     (snd r = None \<longrightarrow>
        (let qs = placed (ve_startTS v) (ve_endTS v) (ve_lastPTS v) ps; w = fst r
         in ve_sent w = ve_sent v @ map rq qs \<and> ve_lastPTS w = last_or (ve_lastPTS v) qs \<and> frame_state w = frame_state v))"

lemma core_frame_state: "ve_core v' = ve_core v \<Longrightarrow> frame_state v' = frame_state v"
  using core_fields [of v' v] by (simp add: frame_state_def)

lemma shows_frames_seq:
  assumes "gives m (shows_frames rq v ps)" "\<And>v'. frame_state v' = frame_state v \<Longrightarrow> gives (f v') (shows_frames rq v' qs)"
  shows "gives (State_Monad.bind m (\<lambda>r. case r of (v1, Some e) \<Rightarrow> State_Monad.return (v1, Some e) | (v1, None) \<Rightarrow> f v1))
    (shows_frames rq v (ps @ qs))"
proof (rule gives_bind [OF assms(1)])
  fix r assume r: "shows_frames rq v ps r"
  show "gives (case r of (v1, Some e) \<Rightarrow> State_Monad.return (v1, Some e) | (v1, None) \<Rightarrow> f v1) (shows_frames rq v (ps @ qs))"
  proof (cases "snd r")
    case None
    then obtain v1 where v1: "r = (v1, None)" by (cases r) auto
    have st: "frame_state v1 = frame_state v" using r by (simp add: v1 shows_frames_def Let_def)
    have "shows_frames rq v (ps @ qs) s" if "shows_frames rq v1 qs s" for s
      using r that st unfolding v1
      by (auto simp: shows_frames_def Let_def placed_append last_or_append frame_state_def)
    then show ?thesis using assms(2) [OF st] by (auto simp: v1 intro: gives_mono)
  next
    case (Some e)
    then show ?thesis by (cases r) (auto simp: shows_frames_def intro!: gives_return)
  qed
qed

lemma shows_no_frames: "ve_core (fst r) = ve_core v \<Longrightarrow> ve_sent (fst r) = ve_sent v \<Longrightarrow> ve_lastPTS (fst r) = ve_lastPTS v \<Longrightarrow>
   shows_frames rq v [] r"
  using core_frame_state [of "fst r" v] by (simp add: shows_frames_def)

lemma shows_error: "shows_frames rq v ps (v', Some e)"
  by (simp add: shows_frames_def)

lemma encode_packets_sent [simp]:
  "ve_sent (fst (encode_packets ps ended v)) = ve_sent v" "ve_lastPTS (fst (encode_packets ps ended v)) = ve_lastPTS v"
  by (rule encode_packets_keeps [where g = ve_sent], simp) (rule encode_packets_keeps [where g = ve_lastPTS], simp)

lemma prepareSoftwareFrame_sent:
  "snd (prepareSoftwareFrame rq pts r v) = None \<Longrightarrow> ve_sent (fst (prepareSoftwareFrame rq pts r v)) = ve_sent v @ [rq pts]"
  "ve_lastPTS (fst (prepareSoftwareFrame rq pts r v)) = ve_lastPTS v"
  by (cases "ve_hwFramesCtx v"; cases "rr_alloc r"; cases "rr_upload r"; cases "er_send (rr_encode r)";
      simp add: prepareSoftwareFrame_def encodeReadyFrame_def video_encode_def)+

text \<open>One decoded frame of a source that is not HDR.\<close>

definition one_frame :: "(int \<Rightarrow> int) \<Rightarrow> int \<Rightarrow> videoEncoder \<Rightarrow> outcome \<Rightarrow> bool" where
  "one_frame rq pts v r \<longleftrightarrow>
     (snd r = None \<longrightarrow> ve_sent (fst r) = ve_sent v @ [rq pts] \<and> ve_lastPTS (fst r) = ve_lastPTS v \<and>
        frame_state (fst r) = frame_state v)"

lemma prepareSoftwareFrame_one: "one_frame rq pts v (prepareSoftwareFrame rq pts r v)"
  using prepareSoftwareFrame_sent [of rq pts r v] core_frame_state [OF prepareSoftwareFrame_core]
  by (simp add: one_frame_def)

lemma prepareSoftwareFrame_sws: "one_frame rq pts v (prepareSoftwareFrame rq pts r (v\<lparr>ve_sws := s\<rparr>))"
  using prepareSoftwareFrame_one [of rq pts "v\<lparr>ve_sws := s\<rparr>" r] by (simp add: one_frame_def frame_state_def)

lemma encodeDecoded_one:
  assumes "\<not> ve_sourceHDR v"
  shows "gives (encodeDecoded rq pts f v) (one_frame rq pts v)"
proof -
  have "gives (scale_frame rq pts f v) (one_frame rq pts v)"
    unfolding scale_frame_def
    by (cases "ve_sws v")
      (auto simp: Let_def prepareSoftwareFrame_one prepareSoftwareFrame_sws one_frame_def [of _ _ _ "(_, Some _)"]
        intro!: gives_then gives_return)
  then show ?thesis
    using assms
    by (auto simp: encodeDecoded_def canHardwareToneMap_def software_path_def prepareSoftwareFrame_one
        one_frame_def [of _ _ _ "(_, Some _)"] intro!: gives_return)
qed

lemma drain_frames_shows:
  "\<not> ve_sourceHDR v \<Longrightarrow> gives (drain_frames rq fs ended v) (shows_frames rq v (map fst fs))"
proof (induction fs arbitrary: v)
  case Nil
  then show ?case by (auto simp: shows_frames_def intro!: gives_return)
next
  case (Cons pf fs)
  obtain pts f where pf: "pf = (pts, f)" by fastforce
  show ?case
  proof (cases "pts = noPTS \<or> pts < ve_startTS v \<or> ve_endTS v \<le> pts \<or> ve_lastPTS v \<noteq> noPTS \<and> pts \<le> ve_lastPTS v")
    case True
    then have "drain_frames rq (pf # fs) ended v = drain_frames rq fs ended v" by (auto simp: pf)
    moreover have "shows_frames rq v (map fst (pf # fs)) = shows_frames rq v (map fst fs)"
      using True by (intro ext) (simp add: shows_frames_def pf)
    ultimately show ?thesis using Cons by simp
  next
    case False
    let ?v = "v\<lparr>ve_lastPTS := pts\<rparr>"
    have one: "gives (encodeDecoded rq pts f ?v) (shows_frames rq v [pts])"
      using False
      by (intro gives_mono [OF encodeDecoded_one [of ?v rq pts f]])
        (auto simp: Cons.prems one_frame_def shows_frames_def frame_state_def)
    have "gives (drain_frames rq fs ended v') (shows_frames rq v' (map fst fs))" if "frame_state v' = frame_state v" for v'
      using that Cons by (intro Cons.IH) (simp add: frame_state_def)
    then have "gives (State_Monad.bind (encodeDecoded rq pts f ?v)
        (\<lambda>r. case r of (v1, Some e) \<Rightarrow> State_Monad.return (v1, Some e) | (v1, None) \<Rightarrow> drain_frames rq fs ended v1))
        (shows_frames rq v ([pts] @ map fst fs))"
      by (intro shows_frames_seq one)
    moreover have "drain_frames rq (pf # fs) ended v = State_Monad.bind (encodeDecoded rq pts f ?v)
        (\<lambda>r. case r of (v1, Some e) \<Rightarrow> State_Monad.return (v1, Some e) | (v1, None) \<Rightarrow> drain_frames rq fs ended v1)"
      using False by (auto simp: pf)
    ultimately show ?thesis by (simp add: pf)
  qed
qed

definition decoded_pts :: "decode_run \<Rightarrow> int list" where
  "decoded_pts d = map fst (dr_frames d)"

lemma decodeAndDrain_shows:
  "\<not> ve_sourceHDR v \<Longrightarrow> gives (decodeAndDrain rq d v) (shows_frames rq v (decoded_pts d))"
  by (auto simp: decodeAndDrain_def drainDecoder_def decoded_pts_def shows_error drain_frames_shows intro!: gives_return)

lemma drainBSF_shows:
  "\<not> ve_sourceHDR v \<Longrightarrow> gives (drainBSF rq ds ended v) (shows_frames rq v (concat (map decoded_pts ds)))"
proof (induction ds arbitrary: v)
  case (Cons d ds)
  then show ?case
    by (auto simp: frame_state_def intro!: shows_frames_seq decodeAndDrain_shows)
qed (auto simp: shows_frames_def intro!: gives_return)

text \<open>The frames of a whole run, for an encoder with or without the bitstream filter.\<close>

definition feed_pts :: "bool \<Rightarrow> feed_run \<Rightarrow> int list" where
  "feed_pts filtered d = (if filtered then concat (map decoded_pts (fd_bsf d)) else decoded_pts (fd_direct d))"

definition flush_pts :: "bool \<Rightarrow> flush_run \<Rightarrow> int list" where
  "flush_pts filtered l = (if filtered then concat (map decoded_pts (fl_bsf l)) else []) @ decoded_pts (fl_decode l)"

definition run_pts :: "bool \<Rightarrow> feed_run list \<Rightarrow> flush_run \<Rightarrow> int list" where
  "run_pts filtered ds l = concat (map (feed_pts filtered) ds) @ flush_pts filtered l"

lemma video_feed_shows:
  "\<not> ve_sourceHDR v \<Longrightarrow> gives (video_feed rq d v) (shows_frames rq v (feed_pts (ve_bsf v \<noteq> None) d))"
  by (auto simp: video_feed_def feed_pts_def decodeAndDrain_shows drainBSF_shows shows_error intro!: gives_return)

lemma video_flush_shows:
  assumes "\<not> ve_sourceHDR v" "ve_toneMapper v = None"
  shows "gives (video_flush rq l v) (shows_frames rq v (flush_pts (ve_bsf v \<noteq> None) l))"
proof -
  have last: "shows_frames rq v' ps (flush_tone rq l v2)"
    if "shows_frames rq v' ps (v2, None)" "ve_toneMapper v' = None" for v' v2 ps
  proof -
    have none: "ve_toneMapper v2 = None" using that by (simp add: shows_frames_def Let_def frame_state_def)
    have "ve_sent (fst (video_encode None (fl_encode l) v2)) = ve_sent v2"
        "ve_lastPTS (fst (video_encode None (fl_encode l) v2)) = ve_lastPTS v2"
      by (simp_all add: video_encode_def)
    moreover have "frame_state (fst (video_encode None (fl_encode l) v2)) = frame_state v2"
      by (rule core_frame_state) (rule core)
    ultimately show ?thesis using that none by (simp add: flush_tone_def shows_frames_def Let_def)
  qed
  have tail: "gives (if \<not> dr_send (fl_decode l) then State_Monad.return (v1, Some FlushDecoder)
      else do { d \<leftarrow> drainDecoder rq (fl_decode l) v1;
        State_Monad.return (case d of (v2, Some e) \<Rightarrow> (v2, Some e) | (v2, None) \<Rightarrow> flush_tone rq l v2) })
      (shows_frames rq v1 (decoded_pts (fl_decode l)))" if "frame_state v1 = frame_state v" for v1
    using that assms unfolding drainDecoder_def decoded_pts_def
    by (intro gives_if gives_return shows_error gives_bind [OF drain_frames_shows])
      (auto simp: frame_state_def intro!: gives_return shows_error last split: option.splits)
  have head: "gives (if ve_bsf v = None then State_Monad.return (v, None)
      else if \<not> fl_bsfSend l then State_Monad.return (v, Some FlushBsf)
      else drainBSF rq (fl_bsf l) (fl_bsfEnd l) v)
      (shows_frames rq v (if ve_bsf v \<noteq> None then concat (map decoded_pts (fl_bsf l)) else []))"
    using assms by (auto simp: shows_error drainBSF_shows intro!: gives_return shows_no_frames)
  show ?thesis unfolding video_flush_def flush_pts_def by (rule shows_frames_seq [OF head tail])
qed

lemma video_run_shows:
  "\<not> ve_sourceHDR v \<Longrightarrow> ve_toneMapper v = None \<Longrightarrow>
   gives (video_run rq ds l v) (shows_frames rq v (run_pts (ve_bsf v \<noteq> None) ds l))"
proof (induction ds arbitrary: v)
  case Nil
  then show ?case
    using video_flush_shows [of v rq l] unfolding run_pts_def by (simp only: list.map concat.simps append_Nil video_run.simps simp_thms)
next
  case (Cons d ds)
  have "gives (video_run rq ds l v') (shows_frames rq v' (run_pts (ve_bsf v \<noteq> None) ds l))" if "frame_state v' = frame_state v" for v'
    using Cons.IH [of v'] Cons.prems that by (simp add: frame_state_def del: not_None_eq)
  then show ?case
    using shows_frames_seq [OF video_feed_shows [OF Cons.prems(1)]]
    by (simp only: run_pts_def list.map concat.simps append_assoc video_run.simps)
qed

section \<open>A new encoder\<close>

definition bsf_on :: "video_env \<Rightarrow> bool" where
  "bsf_on e \<longleftrightarrow> vs_CodecID (vv_stream e) = ''mpeg4'' \<and> bf_found (vv_bsf e) \<and> bf_alloc (vv_bsf e) \<and>
     bf_copy (vv_bsf e) \<and> bf_init (vv_bsf e)"

definition fresh_video :: "video_env \<Rightarrow> int \<Rightarrow> int \<Rightarrow> fragWriter \<Rightarrow> videoEncoder \<Rightarrow> bool" where
  "fresh_video e a b fw v \<longleftrightarrow>
     ve_startTS v = a \<and> ve_endTS v = b \<and> ve_lastPTS v = noPTS \<and> ve_lastDTS v = noPTS \<and> ve_sent v = [] \<and> ve_w v = fw \<and>
     ve_toneMapper v = None \<and> ve_sourceHDR v = isHDRTransfer (vs_Transfer (vv_stream e)) \<and>
     ve_hdr10 v = (vs_Transfer (vv_stream e) = Smpte2084) \<and> ve_gpu v = vv_gpu e \<and> (ve_bsf v \<noteq> None) = bsf_on e \<and>
     vv_newStream e = Some (ve_outIdx v)"

lemma mpeg4UnpackBSF_gives: "gives (mpeg4UnpackBSF (vv_bsf e) (vv_stream e)) (\<lambda>r. (r \<noteq> None) = bsf_on e)"
  unfolding mpeg4UnpackBSF_def bsf_on_def by (auto simp: av_try_then intro!: gives_then gives_return)

lemma newVideoEncoder_fresh: "gives (newVideoEncoder e a b fw) (\<lambda>r. \<forall>v. r = Inr v \<longrightarrow> fresh_video e a b fw v)"
proof -
  have struct: "gives (video_struct e a b fw outIdx hwDev d n) (fresh_video e a b fw)" if "vv_newStream e = Some outIdx"
    for outIdx hwDev d n
    unfolding video_struct_def
    by (rule gives_bind [OF mpeg4UnpackBSF_gives], rule gives_then, rule gives_then, rule gives_then, rule gives_then,
        rule gives_then, rule gives_return) (use that in \<open>simp add: fresh_video_def del: not_None_eq\<close>)
  have "gives (do { v \<leftarrow> video_struct e a b fw outIdx hwDev d n; State_Monad.return (Inr v) })
      (\<lambda>r :: venc_error + videoEncoder. \<forall>v. r = Inr v \<longrightarrow> fresh_video e a b fw v)" if "vv_newStream e = Some outIdx"
    for outIdx hwDev d n
    by (rule gives_bind [OF struct [OF that]], rule gives_return) simp
  then show ?thesis
    unfolding newVideoEncoder_def
    by (auto split: sum.split option.split intro!: gives_then gives_return)
qed

text \<open>The result of a segment comes from a fresh encoder.\<close>

lemma video_segment_run:
  assumes "fst (run_state (video_segment rq e a b fw ds l) h) = Inr r"
  shows "\<exists>v h'. fresh_video e a b fw v \<and> fst (run_state (video_run rq ds l v) h') = r"
proof -
  have "gives (video_segment rq e a b fw ds l)
      (\<lambda>s. \<forall>r. s = Inr r \<longrightarrow> (\<exists>v h'. fresh_video e a b fw v \<and> fst (run_state (video_run rq ds l v) h') = r))"
    unfolding video_segment_def
  proof (rule gives_bind [OF newVideoEncoder_fresh])
    fix n :: "venc_error + videoEncoder"
    assume n: "\<forall>v. n = Inr v \<longrightarrow> fresh_video e a b fw v"
    have run: "gives (video_run rq ds l v) (\<lambda>r. \<exists>h'. fst (run_state (video_run rq ds l v) h') = r)" for v
      by (auto simp: gives_def)
    show "gives (case n of Inl err \<Rightarrow> State_Monad.return (Inl err)
        | Inr v \<Rightarrow> do { r \<leftarrow> video_run rq ds l v; video_free (fst r); State_Monad.return (Inr r) })
      (\<lambda>s. \<forall>r. s = Inr r \<longrightarrow> (\<exists>v h'. fresh_video e a b fw v \<and> fst (run_state (video_run rq ds l v) h') = r))"
    proof (cases n)
      case (Inl err)
      then show ?thesis by (simp add: gives_return)
    next
      case (Inr v)
      then have "fresh_video e a b fw v" using n by simp
      then show ?thesis unfolding Inr sum.case
        by (intro gives_bind [OF run] gives_then gives_return) blast
    qed
  qed
  then show ?thesis using assms unfolding gives_def by blast
qed

lemma video_segment_frames:
  assumes "fst (run_state (video_segment rq e a b fw ds l) h) = Inr (v, None)" "\<not> isHDRTransfer (vs_Transfer (vv_stream e))"
  shows "ve_sent v = map rq (placed a b noPTS (run_pts (bsf_on e) ds l))"
proof -
  obtain v0 h' where v0: "fresh_video e a b fw v0" "fst (run_state (video_run rq ds l v0) h') = (v, None)"
    using video_segment_run [OF assms(1)] by blast
  have "\<not> ve_sourceHDR v0" "ve_toneMapper v0 = None" using v0(1) assms(2) by (simp_all add: fresh_video_def)
  then have "shows_frames rq v0 (run_pts (ve_bsf v0 \<noteq> None) ds l) (fst (run_state (video_run rq ds l v0) h'))"
    using video_run_shows [of v0 rq ds l] unfolding gives_def by blast
  then show ?thesis using v0 by (simp add: shows_frames_def fresh_video_def Let_def del: not_None_eq)
qed

lemma in_window_append: "a \<le> b \<Longrightarrow> b \<le> c \<Longrightarrow> sorted_wrt (<) (in_window a c ps) \<Longrightarrow> in_window a b ps @ in_window b c ps = in_window a c ps"
proof (induction ps)
  case (Cons p ps)
  have big: "in_window a b ps = []" if "b \<le> p" "p < c" "sorted_wrt (<) (in_window a c (p # ps))"
    using that Cons.prems(1,2) by (force simp: in_window_def filter_empty_conv)
  have ih: "in_window a b ps @ in_window b c ps = in_window a c ps"
    using Cons by (intro Cons.IH) (auto simp: in_window_def split: if_splits)
  show ?case
    using ih big Cons.prems by (cases "p < b") (auto simp: in_window_def)
qed (simp add: in_window_def)


section \<open>Decode times\<close>

text \<open>
  What the writer holds for the encoder's stream while no hardware tone mapping is tried. A packet of the
  encoder is timed when it has a decode time of a sensible size that is not after its presentation time.
\<close>

definition timed_packet :: "packet \<times> bool \<times> bool \<Rightarrow> bool" where
  "timed_packet = (\<lambda>(p, _). pk_dts p \<noteq> noPTS \<and> - (2 ^ 61) \<le> pk_dts p \<and> pk_dts p \<le> 2 ^ 61 \<and> pk_dts p \<le> pk_pts p)"

definition writes_ok :: "videoEncoder \<Rightarrow> packet list \<Rightarrow> bool" where
  "writes_ok v qs \<longleftrightarrow> fw_wf (ve_w v) \<and> stream_view (ve_outIdx v) (ve_w v) qs \<and> copied_ok (ve_outIdx v) qs \<and>
     ve_lastDTS v = (if qs = [] then noPTS else pk_dts (last qs)) \<and> \<not> canHardwareToneMap v"

lemma stamp_packet_step:
  assumes "copied_ok out qs" "l = (if qs = [] then noPTS else pk_dts (last qs))" "timed_packet (p, z)"
    and "int (length qs) < 2 ^ 61" "stamp_packet p out l = (q, l')"
  shows "copied_ok out (qs @ [q])" "l' = pk_dts q" "pk_stream q = out"
proof -
  have last: "pk_dts (last qs) \<le> 2 ^ 61 + int (length qs)" "- (2 ^ 61) \<le> pk_dts (last qs)" if "qs \<noteq> []"
    using assms(1) that by (auto simp: copied_ok_def)
  have wrap: "wrap64 (pk_dts (last qs) + 1) = pk_dts (last qs) + 1" if "qs \<noteq> []"
    using last [OF that] assms(4) by (intro wrap64_id) (simp add: in_int64_def)
  have no: "pk_dts (last qs) \<noteq> noPTS" if "qs \<noteq> []" using last(2) [OF that] by (simp add: noPTS_def)
  have "pk_stream q = out \<and> pk_dts q \<le> pk_pts q \<and> - (2 ^ 61) \<le> pk_dts q \<and>
      pk_dts q \<le> 2 ^ 61 + int (length qs) + 1 \<and> (qs \<noteq> [] \<longrightarrow> pk_dts (last qs) < pk_dts q) \<and> l' = pk_dts q"
    using assms(2,3,5) last no wrap
    by (cases "qs = []") (auto simp: stamp_packet_def timed_packet_def Let_def split: if_splits)
  then show "copied_ok out (qs @ [q])" "l' = pk_dts q" "pk_stream q = out"
    using assms(1) by (auto intro!: copied_ok_snoc)
qed

lemma encode_packets_ok:
  assumes "writes_ok v qs" "\<forall>x \<in> set ps. timed_packet x" "int (length qs + length ps) < 2 ^ 61"
    and "encode_packets ps ended v = (v', None)"
  shows "\<exists>qs'. writes_ok v' qs' \<and> length qs' = length qs + length ps"
  using assms
proof (induction ps arbitrary: v qs)
  case (Cons x ps)
  obtain p werr cl where x: "x = (p, werr, cl)" by (cases x)
  obtain q l' where q: "stamp_packet p (ve_outIdx v) (ve_lastDTS v) = (q, l')" by fastforce
  obtain fw err where fw: "fragWriter_write werr cl q (ve_w v) = (fw, err)" by fastforce
  let ?v = "v\<lparr>ve_lastDTS := l', ve_w := fw\<rparr>"
  from Cons.prems(4) have err: "err = None" and rest: "encode_packets ps ended ?v = (v', None)"
    by (auto simp: x q fw Let_def split: option.splits)
  have step: "copied_ok (ve_outIdx v) (qs @ [q])" "l' = pk_dts q" "pk_stream q = ve_outIdx v"
    using stamp_packet_step [OF _ _ _ _ q] Cons.prems(1,2,3) unfolding writes_ok_def x by (auto 0 3)
  have sorted: "qs \<noteq> [] \<Longrightarrow> pk_dts (last qs) < pk_dts q"
    using step(1) by (cases qs rule: rev_cases) (auto simp: copied_ok_def sorted_wrt_append)
  have "fw_wf fw" using Cons.prems(1) fw_wf_write [of "ve_w v" werr cl q] by (simp add: writes_ok_def fw)
  moreover have "stream_view (ve_outIdx v) fw (qs @ [q])"
  proof -
    have near: "pk_dts q - pk_dts (last qs) < 2 ^ 63 \<and> pk_stream (last qs) = ve_outIdx v" if "qs \<noteq> []"
    proof -
      have "last qs \<in> set (qs @ [q])" "q \<in> set (qs @ [q])" using that by auto
      then have "- (2 ^ 61) \<le> pk_dts (last qs)" "pk_stream (last qs) = ve_outIdx v"
          "pk_dts q \<le> 2 ^ 61 + int (length (qs @ [q]))"
        using step(1) unfolding copied_ok_def by blast+
      then show ?thesis using Cons.prems(3) by simp
    qed
    show ?thesis
      using stream_view_write [of "ve_outIdx v" "ve_w v" qs q werr cl] Cons.prems(1) step(3) sorted near err
      by (simp add: writes_ok_def fw)
  qed
  ultimately have "writes_ok ?v (qs @ [q])"
    using step Cons.prems(1) by (simp add: writes_ok_def canHardwareToneMap_def)
  then obtain qs' where "writes_ok v' qs'" "length qs' = length (qs @ [q]) + length ps"
    using Cons.IH [OF _ _ _ rest, of "qs @ [q]"] Cons.prems(2,3) by auto
  then show ?case by auto
qed auto

text \<open>A step that writes at most \<open>n\<close> packets, as long as the total stays small.\<close>

definition adds :: "nat \<Rightarrow> videoEncoder \<Rightarrow> outcome \<Rightarrow> bool" where
  "adds n v r \<longleftrightarrow> (\<forall>qs. writes_ok v qs \<longrightarrow> int (length qs + n) < 2 ^ 61 \<longrightarrow> snd r = None \<longrightarrow>
     (\<exists>qs'. writes_ok (fst r) qs' \<and> length qs' \<le> length qs + n))"

definition timed_packets :: "(packet \<times> bool \<times> bool) list \<Rightarrow> bool" where
  "timed_packets xs \<longleftrightarrow> (\<forall>x \<in> set xs. timed_packet x)"

lemma timed_packets_append [simp]: "timed_packets (xs @ ys) \<longleftrightarrow> timed_packets xs \<and> timed_packets ys"
  by (auto simp: timed_packets_def)

lemma adds_error [simp]: "adds n v (v', Some e)"
  by (simp add: adds_def)

lemma adds_nothing: "(\<And>qs. writes_ok v qs \<Longrightarrow> writes_ok v' qs) \<Longrightarrow> adds n v (v', e)"
  unfolding adds_def by (intro allI impI exI conjI) auto

lemma adds_from: "adds n v' r \<Longrightarrow> (\<And>qs. writes_ok v qs \<Longrightarrow> writes_ok v' qs) \<Longrightarrow> adds n v r"
  by (simp add: adds_def)

lemma adds_mono: "adds n v r \<Longrightarrow> n \<le> k \<Longrightarrow> adds k v r"
  unfolding adds_def by (meson le_trans add_left_mono of_nat_mono order.strict_trans1)

lemma adds_then: "adds n v (v1, None) \<Longrightarrow> adds k v1 r \<Longrightarrow> adds (n + k) v r"
  unfolding adds_def
proof (intro allI impI)
  fix qs
  assume a: "\<forall>qs. writes_ok v qs \<longrightarrow> int (length qs + n) < 2 ^ 61 \<longrightarrow> snd (v1, None :: video_error option) = None \<longrightarrow>
      (\<exists>qs'. writes_ok (fst (v1, None :: video_error option)) qs' \<and> length qs' \<le> length qs + n)"
    and b: "\<forall>qs. writes_ok v1 qs \<longrightarrow> int (length qs + k) < 2 ^ 61 \<longrightarrow> snd r = None \<longrightarrow>
      (\<exists>qs'. writes_ok (fst r) qs' \<and> length qs' \<le> length qs + k)"
    and c: "writes_ok v qs" "int (length qs + (n + k)) < 2 ^ 61" "snd r = None"
  obtain qs1 where q: "writes_ok v1 qs1" "length qs1 \<le> length qs + n" using a c by fastforce
  then have "int (length qs1 + k) < 2 ^ 61" using c(2) by linarith
  then obtain qs2 where "writes_ok (fst r) qs2" "length qs2 \<le> length qs1 + k" using b q(1) c(3) by blast
  then show "\<exists>qs'. writes_ok (fst r) qs' \<and> length qs' \<le> length qs + (n + k)"
    using q(2) by (intro exI [of _ qs2]) simp
qed

lemma adds_seq:
  assumes "gives m (adds n v)" "\<And>v'. gives (f v') (adds k v')"
  shows "gives (State_Monad.bind m (\<lambda>r. case r of (v1, Some e) \<Rightarrow> State_Monad.return (v1, Some e) | (v1, None) \<Rightarrow> f v1))
    (adds (n + k) v)"
proof (rule gives_bind [OF assms(1)])
  fix r assume r: "adds n v r"
  show "gives (case r of (v1, Some e) \<Rightarrow> State_Monad.return (v1, Some e) | (v1, None) \<Rightarrow> f v1) (adds (n + k) v)"
  proof (cases r)
    case (Pair v1 err)
    then show ?thesis
      using r assms(2) [of v1] by (cases err) (auto intro: gives_return gives_mono adds_then)
  qed
qed

lemma writes_ok_updates [simp]:
  "writes_ok (v\<lparr>ve_sent := s\<rparr>) qs = writes_ok v qs" "writes_ok (v\<lparr>ve_lastPTS := t\<rparr>) qs = writes_ok v qs"
  "writes_ok (v\<lparr>ve_sws := h\<rparr>) qs = writes_ok v qs" "writes_ok (v\<lparr>ve_toneMapper := m\<rparr>) qs = writes_ok v qs"
  "writes_ok (v\<lparr>ve_toneMapHW := b\<rparr>) qs = writes_ok v qs"
  by (simp_all add: writes_ok_def canHardwareToneMap_def)

lemma video_encode_adds:
  assumes "timed_packets (er_packets r)"
  shows "adds (length (er_packets r)) v (video_encode f r v)"
proof (cases "er_send r")
  case True
  let ?v = "case f of None \<Rightarrow> v | Some pts \<Rightarrow> v\<lparr>ve_sent := ve_sent v @ [pts]\<rparr>"
  have ok: "writes_ok ?v qs = writes_ok v qs" for qs by (cases f) simp_all
  have "adds (length (er_packets r)) ?v (encode_packets (er_packets r) (er_end r) ?v)"
    unfolding adds_def
  proof (intro allI impI)
    fix qs
    assume "writes_ok ?v qs" "int (length qs + length (er_packets r)) < 2 ^ 61"
      "snd (encode_packets (er_packets r) (er_end r) ?v) = None"
    then show "\<exists>qs'. writes_ok (fst (encode_packets (er_packets r) (er_end r) ?v)) qs' \<and>
        length qs' \<le> length qs + length (er_packets r)"
      using encode_packets_ok [of ?v qs "er_packets r" "er_end r" "fst (encode_packets (er_packets r) (er_end r) ?v)"] assms
      by (auto simp: timed_packets_def prod_eq_iff)
  qed
  then show ?thesis using True ok by (auto simp: video_encode_def intro: adds_from)
qed (simp add: video_encode_def)

lemma consumers_add:
  assumes "timed_packets (er_packets (rr_encode r))"
  shows "adds (length (er_packets (rr_encode r))) v (ready_frame rq pts r v)"
    "adds (length (er_packets (rr_encode r))) v (prepareSoftwareFrame rq pts r v)"
  using video_encode_adds [OF assms]
  by (simp_all add: ready_frame_def encodeReadyFrame_def prepareSoftwareFrame_def)

definition tone_packets :: "tone_run \<Rightarrow> (packet \<times> bool \<times> bool) list" where
  "tone_packets t = concat (map (\<lambda>x. er_packets (rr_encode (snd x))) (tr_frames t))"

lemma tone_drain_adds:
  assumes "\<And>pts r v. timed_packets (er_packets (rr_encode r)) \<Longrightarrow> adds (length (er_packets (rr_encode r))) v (consume pts r v)"
  shows "timed_packets (concat (map (\<lambda>x. er_packets (rr_encode (snd x))) fs)) \<Longrightarrow>
    adds (length (concat (map (\<lambda>x. er_packets (rr_encode (snd x))) fs))) v (tone_drain consume fs ended v)"
proof (induction fs arbitrary: v)
  case (Cons x fs)
  obtain pts r where x: "x = (pts, r)" by fastforce
  obtain v1 err where c: "consume pts r v = (v1, err)" by fastforce
  show ?case
    using assms [of r v pts] Cons.IH [of v1] Cons.prems c
    by (cases err) (auto simp: x intro: adds_then)
qed (simp add: adds_nothing)

lemma tone_process_adds:
  assumes "timed_packets (tone_packets t)"
  shows "adds (length (tone_packets t)) v (tone_process (ready_frame rq) t v)"
    "adds (length (tone_packets t)) v (tone_process (prepareSoftwareFrame rq) t v)"
  using tone_drain_adds [of "ready_frame rq" "tr_frames t" v "tr_end t"] consumers_add(1)
    tone_drain_adds [of "prepareSoftwareFrame rq" "tr_frames t" v "tr_end t"] consumers_add(2) assms
  by (simp_all add: tone_process_def tone_packets_def)

text \<open>The packets of the answers, without those of a hardware tone mapper.\<close>

definition frame_packets :: "frame_run \<Rightarrow> (packet \<times> bool \<times> bool) list" where
  "frame_packets f = tone_packets (fr_swRun f) @ er_packets (rr_encode (fr_ready f))"

definition decode_packets :: "decode_run \<Rightarrow> (packet \<times> bool \<times> bool) list" where
  "decode_packets d = concat (map (\<lambda>x. frame_packets (snd x)) (dr_frames d))"

definition feed_packets :: "feed_run \<Rightarrow> (packet \<times> bool \<times> bool) list" where
  "feed_packets d = decode_packets (fd_direct d) @ concat (map decode_packets (fd_bsf d))"

definition flush_packets :: "flush_run \<Rightarrow> (packet \<times> bool \<times> bool) list" where
  "flush_packets l = concat (map decode_packets (fl_bsf l)) @ decode_packets (fl_decode l) @ tone_packets (fl_tone l) @
     er_packets (fl_encode l)"

definition run_packets :: "feed_run list \<Rightarrow> flush_run \<Rightarrow> (packet \<times> bool \<times> bool) list" where
  "run_packets ds l = concat (map feed_packets ds) @ flush_packets l"

lemma software_path_adds:
  assumes "timed_packets (frame_packets f)"
  shows "gives (software_path rq pts f v) (adds (length (frame_packets f)) v)"
proof -
  have t: "timed_packets (tone_packets (fr_swRun f))" "timed_packets (er_packets (rr_encode (fr_ready f)))"
    using assms by (simp_all add: frame_packets_def)
  have prep: "adds (length (frame_packets f)) v' (prepareSoftwareFrame rq pts (fr_ready f) v')" for v'
    by (rule adds_mono [OF consumers_add(2) [OF t(2)]]) (simp add: frame_packets_def)
  have tone: "adds (length (frame_packets f)) v' (tone_process (prepareSoftwareFrame rq) (fr_swRun f) v')" for v'
    by (rule adds_mono [OF tone_process_adds(2) [OF t(1)]]) (simp add: frame_packets_def)
  have "gives (software_tone rq f v) (adds (length (frame_packets f)) v)"
    unfolding software_tone_def
    by (cases "ve_toneMapper v")
      (auto intro!: gives_then gives_return tone adds_from [OF tone] split: sum.split)
  moreover have "gives (scale_frame rq pts f v) (adds (length (frame_packets f)) v)"
    unfolding scale_frame_def
    by (cases "ve_sws v") (auto simp: Let_def intro!: gives_then gives_return prep adds_from [OF prep])
  ultimately show ?thesis
    unfolding software_path_def by (auto intro!: gives_return prep)
qed

lemma encodeDecoded_adds:
  assumes "timed_packets (frame_packets f)"
  shows "gives (encodeDecoded rq pts f v) (adds (length (frame_packets f)) v)"
proof (cases "canHardwareToneMap v")
  case True
  then have "adds n v r" for n r by (simp add: adds_def writes_ok_def)
  then show ?thesis by (simp add: gives_def)
qed (simp add: encodeDecoded_def software_path_adds [OF assms])

lemma drain_frames_adds:
  "timed_packets (concat (map (\<lambda>x. frame_packets (snd x)) fs)) \<Longrightarrow>
   gives (drain_frames rq fs ended v) (adds (length (concat (map (\<lambda>x. frame_packets (snd x)) fs))) v)"
proof (induction fs arbitrary: v)
  case (Cons x fs)
  obtain pts f where x: "x = (pts, f)" by fastforce
  have ih: "gives (drain_frames rq fs ended v') (adds (length (concat (map (\<lambda>x. frame_packets (snd x)) fs))) v')" for v'
    using Cons by simp
  have skip: "gives (drain_frames rq fs ended v) (adds (length (concat (map (\<lambda>x. frame_packets (snd x)) (x # fs)))) v)"
    by (rule gives_mono [OF ih], erule adds_mono) simp
  have "gives (encodeDecoded rq pts f (v\<lparr>ve_lastPTS := pts\<rparr>)) (adds (length (frame_packets f)) v)"
    using Cons.prems by (intro gives_mono [OF encodeDecoded_adds]) (auto simp: x intro: adds_from)
  then show ?case using adds_seq [OF _ ih] skip by (auto simp: x)
qed (auto intro!: gives_return adds_nothing)

lemma decodeAndDrain_adds:
  "timed_packets (decode_packets d) \<Longrightarrow> gives (decodeAndDrain rq d v) (adds (length (decode_packets d)) v)"
  using drain_frames_adds
  by (auto simp: decodeAndDrain_def drainDecoder_def decode_packets_def intro!: gives_return)

lemma drainBSF_adds:
  "timed_packets (concat (map decode_packets ds)) \<Longrightarrow>
   gives (drainBSF rq ds ended v) (adds (length (concat (map decode_packets ds))) v)"
proof (induction ds arbitrary: v)
  case (Cons d ds)
  then show ?case using adds_seq [OF decodeAndDrain_adds [of d rq v] Cons.IH] by simp
qed (auto intro!: gives_return adds_nothing)

lemma video_feed_adds:
  assumes "timed_packets (feed_packets d)"
  shows "gives (video_feed rq d v) (adds (length (feed_packets d)) v)"
proof -
  have t: "timed_packets (decode_packets (fd_direct d))" "timed_packets (concat (map decode_packets (fd_bsf d)))"
    using assms by (simp_all add: feed_packets_def)
  have "gives (decodeAndDrain rq (fd_direct d) v) (adds (length (feed_packets d)) v)"
    by (rule gives_mono [OF decodeAndDrain_adds [OF t(1)]], erule adds_mono) (simp add: feed_packets_def)
  moreover have "gives (drainBSF rq (fd_bsf d) (fd_bsfEnd d) v) (adds (length (feed_packets d)) v)"
    by (rule gives_mono [OF drainBSF_adds [OF t(2)]], erule adds_mono) (simp add: feed_packets_def)
  ultimately show ?thesis by (auto simp: video_feed_def intro: gives_return)
qed

lemma flush_tone_adds:
  assumes "timed_packets (tone_packets (fl_tone l))" "timed_packets (er_packets (fl_encode l))"
  shows "adds (length (tone_packets (fl_tone l)) + length (er_packets (fl_encode l))) v (flush_tone rq l v)"
proof -
  let ?m = "if ve_toneMapper v = None then (v, None)
    else tone_process (if ve_toneMapHW v then ready_frame rq else prepareSoftwareFrame rq) (fl_tone l) v"
  have m: "adds (length (tone_packets (fl_tone l))) v ?m"
    using tone_process_adds [OF assms(1)] by (auto intro: adds_nothing)
  obtain v1 err where r: "?m = (v1, err)" by fastforce
  show ?thesis
    using m video_encode_adds [OF assms(2), of v1 None] unfolding flush_tone_def r
    by (cases err) (auto intro: adds_then)
qed

lemma video_flush_adds:
  assumes "timed_packets (flush_packets l)"
  shows "gives (video_flush rq l v) (adds (length (flush_packets l)) v)"
proof -
  have t: "timed_packets (concat (map decode_packets (fl_bsf l)))" "timed_packets (decode_packets (fl_decode l))"
      "timed_packets (tone_packets (fl_tone l))" "timed_packets (er_packets (fl_encode l))"
    using assms by (simp_all add: flush_packets_def)
  let ?k = "length (decode_packets (fl_decode l)) + (length (tone_packets (fl_tone l)) + length (er_packets (fl_encode l)))"
  have head: "gives (if ve_bsf v = None then State_Monad.return (v, None)
      else if \<not> fl_bsfSend l then State_Monad.return (v, Some FlushBsf)
      else drainBSF rq (fl_bsf l) (fl_bsfEnd l) v) (adds (length (concat (map decode_packets (fl_bsf l)))) v)"
    using drainBSF_adds [OF t(1)] by (auto intro: gives_return adds_nothing)
  have drain: "gives (drainDecoder rq (fl_decode l) v1) (adds (length (decode_packets (fl_decode l))) v1)" for v1
    using drain_frames_adds t(2) by (simp add: drainDecoder_def decode_packets_def)
  have "gives (if \<not> dr_send (fl_decode l) then State_Monad.return (v1, Some FlushDecoder)
      else do { d \<leftarrow> drainDecoder rq (fl_decode l) v1;
        State_Monad.return (case d of (v2, Some e) \<Rightarrow> (v2, Some e) | (v2, None) \<Rightarrow> flush_tone rq l v2) })
      (adds ?k v1)" for v1
    by (intro gives_if gives_return gives_bind [OF drain])
      (auto intro: adds_then [OF _ flush_tone_adds [OF t(3,4)]] split: option.splits)
  then have "gives (video_flush rq l v) (adds (length (concat (map decode_packets (fl_bsf l))) + ?k) v)"
    unfolding video_flush_def by (intro adds_seq head)
  then show ?thesis by (simp add: flush_packets_def add.assoc)
qed

lemma video_run_adds:
  "timed_packets (run_packets ds l) \<Longrightarrow> gives (video_run rq ds l v) (adds (length (run_packets ds l)) v)"
proof (induction ds arbitrary: v)
  case Nil
  then show ?case using video_flush_adds [of l rq v] by (simp add: run_packets_def)
next
  case (Cons d ds)
  then have "timed_packets (feed_packets d)" "timed_packets (run_packets ds l)" by (simp_all add: run_packets_def)
  then show ?case
    using adds_seq [OF video_feed_adds [of d rq v] Cons.IH] by (simp add: run_packets_def add.assoc)
qed

text \<open>
  The packets of a transcoded segment form a gapless track. Whatever decode times the encoder gives
  its packets, repeated or going backwards, a segment that ends without an error has strictly increasing
  decode times, no presentation time before its decode time, and durations that make each packet end where
  the next one starts. (The source is one for which no VAAPI tone mapping is tried: there a failed packet
  is not reported, see \<open>tone_fault_doubles_frame\<close>.)
\<close>

theorem video_segment_is_gapless:
  assumes "fst (run_state (video_segment rq e a b newFragWriter ds l) h) = Inr (v, None)"
    and "vs_Transfer (vv_stream e) = Smpte2084 \<longrightarrow> (\<forall>g. vv_gpu e = Some g \<longrightarrow> gpu_HwTypeName g \<noteq> ''vaapi'')"
    and "timed_packets (run_packets ds l)" "int (length (run_packets ds l)) < 2 ^ 61"
    and "fragWriter_finish werrs (ve_w v) = (fw, None)" "ps = filter (on_stream (ve_outIdx v)) (fw_out fw)"
  shows "sorted_wrt (\<lambda>p q. pk_dts p < pk_dts q) ps \<and> (\<forall>p \<in> set ps. pk_dts p \<le> pk_pts p \<and> 0 < pk_dur p) \<and>
    (\<forall>i. i + 1 < length ps \<longrightarrow> pk_dts (ps ! i) + pk_dur (ps ! i) = pk_dts (ps ! (i + 1)))"
proof -
  obtain v0 h' where v0: "fresh_video e a b newFragWriter v0" "fst (run_state (video_run rq ds l v0) h') = (v, None)"
    using video_segment_run [OF assms(1)] by blast
  have "\<not> canHardwareToneMap v0"
    using v0(1) assms(2) by (auto simp: canHardwareToneMap_def fresh_video_def split: option.splits)
  then have "writes_ok v0 []"
    using v0(1) by (simp add: writes_ok_def fresh_video_def fw_wf_new stream_view_new copied_ok_def)
  moreover have "adds (length (run_packets ds l)) v0 (v, None)"
    using video_run_adds [OF assms(3), of rq v0] v0(2) unfolding gives_def by metis
  ultimately obtain qs where qs: "writes_ok v qs" using assms(4) by (fastforce simp: adds_def)
  then have "ps = stamped qs"
    using fragWriter_finish_stream [OF _ _ assms(5), of "ve_outIdx v" qs] assms(6) by (simp add: stamped_def writes_ok_def)
  then show ?thesis using stamped_gapless [of "ve_outIdx v" qs] qs by (simp add: writes_ok_def)
qed

section \<open>The fault of the tone mapper\<close>

text \<open>
  With VAAPI tone mapping, a frame can be encoded twice and a packet be lost without an error. When
  the encoder has accepted a tone-mapped frame and the muxer then rejects a packet, the failure counts as one
  of the tone mapper: the mapper is replaced by the software one, the same source frame goes through it and is
  encoded again, and the decoder's loop goes on as if nothing had happened.
\<close>

theorem tone_fault_doubles_frame:
  assumes "canHardwareToneMap v" "\<not> ve_forceSWMap v" "ve_toneMapper v = Some m"
    and "fr_hwRun f = \<lparr>tr_add = True, tr_frames = [(pts, r)], tr_end = True\<rparr>" "er_send (rr_encode r)"
    and "encode_packets (er_packets (rr_encode r)) (er_end (rr_encode r)) (v\<lparr>ve_sent := ve_sent v @ [rq pts]\<rparr>) =
      (v1, Some (MuxWrite err))"
    and "fr_download f" "gives (newVideoToneMapper (fr_swTone f) (softwareToneMapFilter ''nv12'')) (\<lambda>s. \<exists>k. s = Inr k)"
    and "fr_swRun f = \<lparr>tr_add = True, tr_frames = [(pts, \<lparr>rr_alloc = True, rr_upload = True,
      rr_encode = \<lparr>er_send = True, er_packets = [], er_end = True\<rparr>\<rparr>)], tr_end = True\<rparr>"
  shows "\<exists>w. fst (run_state (encodeDecoded rq pts f v) h) = (w, None) \<and> ve_sent w = ve_sent v @ [rq pts, rq pts]"
proof -
  have c: "ve_core v1 = ve_core v" "ve_sent v1 = ve_sent v @ [rq pts]"
    using assms(6) encode_packets_core [of "er_packets (rr_encode r)" "er_end (rr_encode r)" "v\<lparr>ve_sent := ve_sent v @ [rq pts]\<rparr>"]
      encode_packets_sent(1) [of "er_packets (rr_encode r)" "er_end (rr_encode r)" "v\<lparr>ve_sent := ve_sent v @ [rq pts]\<rparr>"]
    by simp_all
  have hw: "tone_process (ready_frame rq) (fr_hwRun f) v = (v1, Some (MuxWrite err))"
    using assms(5,6) by (simp add: tone_process_def assms(4) ready_frame_def encodeReadyFrame_def video_encode_def)
  have f: "ve_hwDecode v1" "ve_sourceHDR v1" "ve_hwFramesCtx v1 \<noteq> None"
    using assms(1) core_fields [OF c(1)] by (simp_all add: canHardwareToneMap_def)
  let ?w = "v1\<lparr>ve_toneMapper := None, ve_toneMapHW := False, ve_forceSWMap := True\<rparr>"
  have t: "targetFmt ?w = ''nv12''" using f(3) by (simp add: targetFmt_def)
  have sw: "tone_process (prepareSoftwareFrame rq) (fr_swRun f) u = (u\<lparr>ve_sent := ve_sent u @ [rq pts]\<rparr>, None)" for u
    by (simp add: tone_process_def assms(9) prepareSoftwareFrame_def encodeReadyFrame_def video_encode_def)
  have path: "\<exists>w. fst (run_state (software_path rq pts f ?w) h') = (w, None) \<and> ve_sent w = ve_sent v @ [rq pts, rq pts]" for h'
  proof -
    obtain k h2 where k: "run_state (newVideoToneMapper (fr_swTone f) (softwareToneMapFilter ''nv12'')) h' = (Inr k, h2)"
      using assms(8) unfolding gives_def by (metis prod.collapse)
    show ?thesis using f(1,2) assms(7) c(2) by (simp add: software_path_def software_tone_def t k sw)
  qed
  have "encodeDecoded rq pts f v = do { tone_free m; software_path rq pts f ?w }"
    using assms(1-3) by (simp add: encodeDecoded_def hardware_mapper_def hw)
  then show ?thesis using path by (simp add: split_beta)
qed

section \<open>A concrete segment\<close>

text \<open>A source without HDR on a machine without a GPU: four frames, which both decoders see in full.\<close>

definition demo_encoder_env :: encoder_env where
  "demo_encoder_env = \<lparr>ee_alloc = True, ee_frames = True, ee_framesInit = True, ee_open = (\<lambda>_. True)\<rparr>"

definition demo_tone :: tone_env where
  "demo_tone = \<lparr>te_graph = True, te_filters = True, te_src = True, te_sink = True, te_params = True, te_setParams = True,
     te_srcInit = True, te_outputs = True, te_inputs = True, te_parse = (\<lambda>_. True), te_configure = True, te_frame = True\<rparr>"

definition demo_video :: video_env where
  "demo_video = \<lparr>vv_stream = \<lparr>vs_CodecID = ''hevc'', vs_Transfer = TransferBt709, vs_Primaries = 1, vs_Space = 1, vs_Range = 1,
       vs_fpsNum = 25, vs_fpsDen = 1, vs_tbNum = 1, vs_tbDen = 1000\<rparr>,
     vv_decoder = True, vv_gpu = None, vv_device = False, vv_configs = [],
     vv_hw = \<lparr>co_alloc = True, co_params = True, co_open = True\<rparr>,
     vv_sw = \<lparr>co_alloc = True, co_params = True, co_open = True\<rparr>, vv_width = 1920, vv_height = 1080,
     vv_globalHeader = True,
     vv_build = \<lparr>eb_byName = (\<lambda>n. n = ''libx264''), eb_h264 = None, eb_env = (\<lambda>_. demo_encoder_env)\<rparr>,
     vv_newStream = Some 0, vv_params = True,
     vv_bsf = \<lparr>bf_found = True, bf_alloc = True, bf_copy = True, bf_init = True\<rparr>\<rparr>"

definition demo_packet :: "int \<Rightarrow> packet \<times> bool \<times> bool" where
  "demo_packet t = (\<lparr>pk_stream = 7, pk_pts = t, pk_dts = t, pk_dur = 0, pk_data = []\<rparr>, False, False)"

definition demo_frame :: "int \<Rightarrow> int \<times> frame_run" where
  "demo_frame t = (t, \<lparr>fr_pixFmt = ''yuv420p'', fr_transferFmt = '''', fr_hwTone = demo_tone,
     fr_hwRun = \<lparr>tr_add = True, tr_frames = [], tr_end = True\<rparr>, fr_download = True, fr_swTone = demo_tone,
     fr_swRun = \<lparr>tr_add = True, tr_frames = [], tr_end = True\<rparr>, fr_sws = True, fr_scale = True,
     fr_ready = \<lparr>rr_alloc = True, rr_upload = True,
       rr_encode = \<lparr>er_send = True, er_packets = [demo_packet (40 * (t div 80))], er_end = True\<rparr>\<rparr>\<rparr>)"

definition demo_decode :: "int list \<Rightarrow> decode_run" where
  "demo_decode ts = \<lparr>dr_send = True, dr_frames = map demo_frame ts, dr_end = True\<rparr>"

definition demo_feeds :: "feed_run list" where
  "demo_feeds = [\<lparr>fd_direct = demo_decode [0, 40], fd_bsfSend = True, fd_bsf = [], fd_bsfEnd = True\<rparr>,
     \<lparr>fd_direct = demo_decode [80], fd_bsfSend = True, fd_bsf = [], fd_bsfEnd = True\<rparr>]"

definition demo_flush :: flush_run where
  "demo_flush = \<lparr>fl_bsfSend = True, fl_bsf = [], fl_bsfEnd = True, fl_decode = demo_decode [120],
     fl_tone = \<lparr>tr_add = True, tr_frames = [], tr_end = True\<rparr>,
     fl_encode = \<lparr>er_send = True, er_packets = [], er_end = True\<rparr>\<rparr>"

definition no_objects :: av_heap where
  "no_objects = \<lparr>av_next = 0, av_live = {#}, av_bad = False\<rparr>"

definition demo_segment :: "int \<Rightarrow> int \<Rightarrow> venc_error + outcome" where
  "demo_segment a b = fst (run_state (video_segment (\<lambda>t. t) demo_video a b newFragWriter demo_feeds demo_flush) no_objects)"

text \<open>The encoder the demonstration builds, and its run.\<close>

definition demo_encoder :: "int \<Rightarrow> int \<Rightarrow> videoEncoder" where
  "demo_encoder a b = \<lparr>ve_outIdx = 0, ve_w = newFragWriter, ve_dec = 0, ve_enc = 1, ve_hwDevCtx = None, ve_hwFramesCtx = None,
     ve_toneMapper = None, ve_sws = None, ve_decFrm = 3, ve_transferFrm = None, ve_scaled = 4, ve_uploadFrm = None, ve_pkt = 5,
     ve_bsf = None, ve_startTS = a, ve_endTS = b, ve_lastPTS = noPTS, ve_lastDTS = noPTS, ve_hwDecode = False,
     ve_sourceHDR = False, ve_hdr10 = False, ve_toneMapHW = False, ve_forceSWMap = False, ve_gpu = None,
     ve_pixFmt = ''yuv420p'', ve_sent = []\<rparr>"

lemma demo_new: "fst (run_state (newVideoEncoder demo_video a b newFragWriter) no_objects) = Inr (demo_encoder a b)"
  by (simp add: newVideoEncoder_def demo_video_def av_try_def openVideoDecoder_def software_decoder_def decoder_context_def
      av_alloc_def openVideoEncoder_def cpu_encoder_def cpu_codec_def openVideoEncoderCandidate_def encoder_open_step_def
      demo_encoder_env_def av_defer_def av_free_def video_struct_def mpeg4UnpackBSF_def no_objects_def demo_encoder_def
      video_settings_def encoder_settings_for_def isHDRTransfer_def)

definition two_packets :: "videoEncoder \<Rightarrow> bool" where
  "two_packets v \<longleftrightarrow> snd (fragWriter_finish [] (ve_w v)) = None \<and>
     length (filter (on_stream (ve_outIdx v)) (fw_out (fst (fragWriter_finish [] (ve_w v))))) = 2"

lemma demo_run:
  "a = 0 \<and> b = 80 \<or> a = 80 \<and> b = 160 \<Longrightarrow>
   \<exists>v. run_state (video_run (\<lambda>t. t) demo_feeds demo_flush (demo_encoder a b)) h = ((v, None), h) \<and> two_packets v"
  by (elim disjE conjE)
    (simp_all add: demo_feeds_def demo_flush_def video_feed_def demo_encoder_def decodeAndDrain_def demo_decode_def drainDecoder_def
      demo_frame_def noPTS_def encodeDecoded_def canHardwareToneMap_def software_path_def targetFmt_def prepareSoftwareFrame_def
      encodeReadyFrame_def video_encode_def demo_packet_def stamp_packet_def fragWriter_write_def newFragWriter_def Let_def
      wrap64_id in_int64_def video_flush_def flush_tone_def two_packets_def fragWriter_finish_def on_stream_def)

lemma demo_succeeds:
  assumes "a = 0 \<and> b = 80 \<or> a = 80 \<and> b = 160"
  shows "\<exists>v. demo_segment a b = Inr (v, None) \<and> two_packets v"
proof -
  let ?h = "snd (run_state (newVideoEncoder demo_video a b newFragWriter) no_objects)"
  obtain v where v: "run_state (video_run (\<lambda>t. t) demo_feeds demo_flush (demo_encoder a b)) ?h = ((v, None), ?h)" "two_packets v"
    using demo_run [OF assms] by blast
  then have "demo_segment a b = Inr (v, None)"
    using demo_new [of a b] by (simp add: demo_segment_def video_segment_def split_beta)
  then show ?thesis using v(2) by blast
qed

theorem video_segment_frees_all_witness:
  "av_live (snd (run_state (video_segment (\<lambda>t. t) demo_video 0 80 newFragWriter demo_feeds demo_flush) no_objects)) = {#} \<and>
   \<not> av_bad (snd (run_state (video_segment (\<lambda>t. t) demo_video 0 80 newFragWriter demo_feeds demo_flush) no_objects))"
  using video_segment_frees_all [of demo_video "\<lambda>t. t" 0 80 newFragWriter demo_feeds demo_flush no_objects]
  by (simp add: demo_video_def cpu_codec_def no_objects_def)


theorem video_segment_is_gapless_witness:
  "\<exists>v fw p q. demo_segment 0 80 = Inr (v, None) \<and> fragWriter_finish [] (ve_w v) = (fw, None) \<and>
     filter (on_stream (ve_outIdx v)) (fw_out fw) = [p, q] \<and> pk_dts p + pk_dur p = pk_dts q"
proof -
  obtain v where v: "demo_segment 0 80 = Inr (v, None)" "two_packets v" using demo_succeeds [of 0 80] by auto
  obtain fw p q where fw: "fragWriter_finish [] (ve_w v) = (fw, None)" "filter (on_stream (ve_outIdx v)) (fw_out fw) = [p, q]"
    using v(2) by (cases "fragWriter_finish [] (ve_w v)") (auto simp: two_packets_def numeral_2_eq_2 length_Suc_conv)
  have "timed_packets (run_packets demo_feeds demo_flush)" by code_simp
  moreover have "length (run_packets demo_feeds demo_flush) = 4" by code_simp
  moreover have "vs_Transfer (vv_stream demo_video) = Smpte2084 \<longrightarrow> (\<forall>g. vv_gpu demo_video = Some g \<longrightarrow> gpu_HwTypeName g \<noteq> ''vaapi'')"
    by (simp add: demo_video_def)
  ultimately have "\<forall>i. i + 1 < length [p, q] \<longrightarrow> pk_dts ([p, q] ! i) + pk_dur ([p, q] ! i) = pk_dts ([p, q] ! (i + 1))"
    using video_segment_is_gapless [of "\<lambda>t. t" demo_video 0 80 demo_feeds demo_flush no_objects v "[]" fw "[p, q]"] v fw
    by (simp add: demo_segment_def)
  then have "pk_dts p + pk_dur p = pk_dts q" by force
  then show ?thesis using v fw by blast
qed

text \<open>An encoder that decodes and encodes HDR10 on a VAAPI device, and a muxer that rejects the packet it held.\<close>

definition demo_vaapi :: videoEncoder where
  "demo_vaapi = \<lparr>ve_outIdx = 0, ve_w = fst (fragWriter_write False False (fst (demo_packet 0)\<lparr>pk_stream := 0\<rparr>) newFragWriter),
     ve_dec = 0, ve_enc = 1, ve_hwDevCtx = Some 2, ve_hwFramesCtx = Some 3,
     ve_toneMapper = Some \<lparr>tm_graph = 4, tm_frame = 5\<rparr>, ve_sws = None, ve_decFrm = 6, ve_transferFrm = Some 7, ve_scaled = 8,
     ve_uploadFrm = Some 9, ve_pkt = 10, ve_bsf = None, ve_startTS = 0, ve_endTS = 80, ve_lastPTS = 0, ve_lastDTS = 0,
     ve_hwDecode = True, ve_sourceHDR = True, ve_hdr10 = True, ve_toneMapHW = True, ve_forceSWMap = False,
     ve_gpu = Some \<lparr>gpu_HwType = 3, gpu_HwTypeName = ''vaapi'', gpu_EncoderName = ''h264_vaapi'', gpu_Device = ''/dev/dri/renderD128''\<rparr>,
     ve_pixFmt = ''vaapi'', ve_sent = [0]\<rparr>"

definition demo_rejected :: ready_run where
  "demo_rejected = \<lparr>rr_alloc = True, rr_upload = True,
     rr_encode = \<lparr>er_send = True, er_packets = [(fst (demo_packet 40), True, False)], er_end = True\<rparr>\<rparr>"

definition demo_hdr_frame :: frame_run where
  "demo_hdr_frame = (snd (demo_frame 40))\<lparr>fr_hwRun := \<lparr>tr_add = True, tr_frames = [(40, demo_rejected)], tr_end = True\<rparr>,
     fr_swRun := \<lparr>tr_add = True, tr_frames = [(40, \<lparr>rr_alloc = True, rr_upload = True,
       rr_encode = \<lparr>er_send = True, er_packets = [], er_end = True\<rparr>\<rparr>)], tr_end = True\<rparr>\<rparr>"

lemma demo_tone_builds: "gives (newVideoToneMapper demo_tone c) (\<lambda>s. \<exists>k. s = Inr k)"
  unfolding newVideoToneMapper_def tone_links_def tone_link_def av_defer_def
  by (simp add: demo_tone_def av_try_def gives_def split_beta)

theorem tone_fault_doubles_frame_witness:
  "\<exists>w. fst (run_state (encodeDecoded (\<lambda>t. t) 40 demo_hdr_frame demo_vaapi) no_objects) = (w, None) \<and> ve_sent w = [0, 40, 40]"
proof -
  have can: "canHardwareToneMap demo_vaapi" "\<not> ve_forceSWMap demo_vaapi" by code_simp+
  have tone: "fr_swTone demo_hdr_frame = demo_tone" "fr_download demo_hdr_frame" by (simp_all add: demo_hdr_frame_def demo_frame_def)
  obtain v1 where v1: "encode_packets (er_packets (rr_encode demo_rejected)) (er_end (rr_encode demo_rejected))
      (demo_vaapi\<lparr>ve_sent := ve_sent demo_vaapi @ [40]\<rparr>) = (v1, Some (MuxWrite ErrWriteFrame))"
  proof -
    have "snd (encode_packets (er_packets (rr_encode demo_rejected)) (er_end (rr_encode demo_rejected))
        (demo_vaapi\<lparr>ve_sent := ve_sent demo_vaapi @ [40]\<rparr>)) = Some (MuxWrite ErrWriteFrame)"
      by (simp add: demo_rejected_def demo_vaapi_def demo_packet_def stamp_packet_def fragWriter_write_def newFragWriter_def
          noPTS_def Let_def wrap64_id in_int64_def)
    then show thesis using that by (metis prod.collapse)
  qed
  have "\<exists>w. fst (run_state (encodeDecoded (\<lambda>t. t) 40 demo_hdr_frame demo_vaapi) no_objects) = (w, None) \<and>
      ve_sent w = ve_sent demo_vaapi @ [40, 40]"
  proof (rule tone_fault_doubles_frame [where rq = "\<lambda>t. t"])
    show "ve_toneMapper demo_vaapi = Some \<lparr>tm_graph = 4, tm_frame = 5\<rparr>" by (simp add: demo_vaapi_def)
    show "fr_hwRun demo_hdr_frame = \<lparr>tr_add = True, tr_frames = [(40, demo_rejected)], tr_end = True\<rparr>"
      by (simp add: demo_hdr_frame_def)
    show "er_send (rr_encode demo_rejected)" by (simp add: demo_rejected_def)
  qed (use can tone v1 demo_tone_builds in \<open>simp_all add: demo_hdr_frame_def\<close>)
  then show ?thesis by (simp add: demo_vaapi_def)
qed

section \<open>Frames that are reordered\<close>

text \<open>The packets the loop of \<^verbatim>\<open>Segment\<close> feeds to encoders, for a run of the demuxer.\<close>

fun fed :: "segment_plan \<Rightarrow> demux_event list \<Rightarrow> packet list" where
  "fed plan [] = []"
| "fed plan (FrameError # evs) = []"
| "fed plan (FrameRead raw emitted feedErr w # evs) =
     (let pkt = effective plan raw
      in if ends_segment plan pkt then []
         else if pk_stream pkt \<in> set (sp_encoders plan) then pkt # (if feedErr then [] else fed plan evs)
         else fed plan evs)"

lemma Segment_loop_stops:
  "ends_segment plan (effective plan raw) \<Longrightarrow> Segment_loop plan rescale (FrameRead raw emitted feedErr w # evs) st = (st, None)"
  by (cases w) (simp add: Let_def)

lemma fed_stops: "ends_segment plan (effective plan raw) \<Longrightarrow> fed plan (pre @ FrameRead raw emitted feedErr w # post) = fed plan (pre @ [FrameRead raw emitted feedErr w])"
proof (induction pre)
  case (Cons e pre)
  then show ?case by (cases e) (simp_all add: Let_def)
qed (simp add: Let_def)

lemma fed_frames: "set (fed plan evs) \<subseteq> effective plan ` set (frames evs)"
  by (induction plan evs rule: fed.induct) (auto simp: frames_def Let_def split: if_splits)

lemma placed_in: "p \<in> set (placed a b l ps) \<Longrightarrow> a \<le> p \<and> p < b"
  by (induction a b l ps rule: placed.induct) (auto split: if_splits)

text \<open>
  C28. Frames are lost at a boundary of the uniform grid when the source reorders frames. A container stores
  a frame that others refer to before the frames displayed ahead of it. When such a frame \<open>p\<close> lies after the
  end of the segment and a frame \<open>q\<close> that comes later in the file lies before it, the loop stops at \<open>p\<close>: \<open>q\<close> is
  not fed to the encoder of its own segment, and the encoder of the next segment drops it because it lies
  before its window.
\<close>

theorem reordered_frames_lost:
  assumes "evs = pre @ FrameRead p emitted1 feedErr1 w1 # mid @ FrameRead q emitted2 feedErr2 w2 # post"
    and "ends_segment plan (effective plan p)" "pk_stream q = sp_primary plan"
    and "sp_startTS plan \<le> pk_pts q" "pk_pts q < sp_endTS plan" "pk_pts q \<noteq> noPTS"
    and "\<forall>x \<in> set (frames pre). pk_pts (effective plan x) \<noteq> pk_pts q"
  shows "(\<forall>x \<in> set (fed plan evs). pk_pts x \<noteq> pk_pts q) \<and> pk_pts q \<notin> set (placed (sp_endTS plan) c l ps)"
proof -
  have "fed plan evs = fed plan (pre @ [FrameRead p emitted1 feedErr1 w1])"
    unfolding assms(1) by (rule fed_stops [OF assms(2)])
  moreover have "sp_endTS plan \<le> pk_pts (effective plan p)" using assms(2) by (simp add: ends_segment_def)
  ultimately have "\<forall>x \<in> set (fed plan evs). pk_pts x \<noteq> pk_pts q"
    using assms(5,7) fed_frames [of plan "pre @ [FrameRead p emitted1 feedErr1 w1]"] by (force simp: frames_def)
  then show ?thesis using assms(5) placed_in [of "pk_pts q"] by fastforce
qed

definition demo_reordered :: "demux_event list" where
  "demo_reordered = map (\<lambda>t. FrameRead \<lparr>pk_stream = 0, pk_pts = t, pk_dts = noPTS, pk_dur = 0, pk_data = []\<rparr> [] False (False, False))
     [0, 40, 160, 80, 120]"

definition demo_grid :: segment_plan where
  "demo_grid = \<lparr>sp_primary = 0, sp_startTS = 0, sp_endTS = 100, sp_copyMap = (\<lambda>_. None), sp_encoders = [0], sp_audio = (\<lambda>_. False)\<rparr>"

theorem reordered_frames_lost_witness:
  "80 \<notin> pk_pts ` set (fed demo_grid demo_reordered) \<and> 80 \<notin> set (placed 100 200 noPTS [0, 40, 80, 120, 160])"
proof -
  let ?pkt = "\<lambda>t. \<lparr>pk_stream = 0, pk_pts = t, pk_dts = noPTS, pk_dur = 0, pk_data = []\<rparr>"
  let ?ev = "\<lambda>t. FrameRead (?pkt t) [] False (False, False)"
  have "(\<forall>x \<in> set (fed demo_grid demo_reordered). pk_pts x \<noteq> pk_pts (?pkt 80)) \<and>
      pk_pts (?pkt 80) \<notin> set (placed (sp_endTS demo_grid) 200 noPTS [0, 40, 80, 120, 160])"
    by (rule reordered_frames_lost [where pre = "[?ev 0, ?ev 40]" and p = "?pkt 160" and mid = "[]" and q = "?pkt 80" and post = "[?ev 120]"])
      (auto simp: demo_reordered_def demo_grid_def ends_segment_def effective_def noPTS_def frames_def)
  then show ?thesis by (auto simp: demo_grid_def)
qed

end
