(* ===== verification/AudioEncoder.thy ===== *)
theory AudioEncoder
  imports VideoEncoder
begin

text \<open>
  The audio encoder (\<^verbatim>\<open>media/audio.go\<close>): the pipeline from the decoder over the resampler and the sample FIFO
  to AAC frames of a fixed size, and its set-up and release. Samples are opaque values; what libav answers is
  a record of answers, as for the video encoder. The encoder runs at the decoder's sample rate, so resampling
  keeps the number of samples.
\<close>

section \<open>Set-up and release\<close>

datatype aenc_error =
  NoAudioDecoder | AudioDecoderAlloc | AudioDecoderParams | AudioDecoderOpen | NoAacEncoder | AacAlloc | AacOpen
| NewAacStream | AacParams

record audioEncoder =
  ae_outIdx :: int
  ae_w :: fragWriter
  ae_dec :: handle
  ae_enc :: handle
  ae_swr :: handle
  ae_fifo :: handle
  ae_decFrame :: handle
  ae_resampled :: handle
  ae_outFrame :: handle
  ae_pkt :: handle
  ae_frameSize :: int
  ae_samples :: "int list"
  ae_started :: bool
  ae_nextPts :: int
  ae_startTS :: int
  ae_endTS :: int
  ae_sent :: "(int \<times> int list) list"

text \<open>
  \<open>ae_samples\<close> is the content of the FIFO, \<open>ae_frameSize\<close> the encoder's \<^verbatim>\<open>FrameSize()\<close>; \<open>ae_sent\<close> records the
  frames the encoder accepted.
\<close>

record audio_env =
  au_decoder :: bool
  au_dec :: codec_open
  au_aac :: bool
  au_encAlloc :: bool
  au_encOpen :: bool
  au_newStream :: "int option"
  au_params :: bool
  au_frameSize :: int

definition audio_struct :: "audio_env \<Rightarrow> int \<Rightarrow> int \<Rightarrow> fragWriter \<Rightarrow> int \<Rightarrow> handle \<Rightarrow> handle \<Rightarrow> audioEncoder av" where
  "audio_struct e startTS endTS fw outIdx dec enc = do {
     swr \<leftarrow> av_alloc;
     fifo \<leftarrow> av_alloc;
     decFrame \<leftarrow> av_alloc;
     resampled \<leftarrow> av_alloc;
     outFrame \<leftarrow> av_alloc;
     pkt \<leftarrow> av_alloc;
     State_Monad.return
       \<lparr>ae_outIdx = outIdx, ae_w = fw, ae_dec = dec, ae_enc = enc, ae_swr = swr, ae_fifo = fifo, ae_decFrame = decFrame,
        ae_resampled = resampled, ae_outFrame = outFrame, ae_pkt = pkt, ae_frameSize = au_frameSize e, ae_samples = [],
        ae_started = False, ae_nextPts = 0, ae_startTS = startTS, ae_endTS = endTS, ae_sent = []\<rparr>
   }"

definition audio_undo :: "handle \<Rightarrow> handle \<Rightarrow> aenc_error \<Rightarrow> (aenc_error + audioEncoder) av" where
  "audio_undo dec enc err = do { av_free dec; av_free enc; State_Monad.return (Inl err) }"

definition audio_encoder_setup ::
  "audio_env \<Rightarrow> int \<Rightarrow> int \<Rightarrow> fragWriter \<Rightarrow> handle \<Rightarrow> (aenc_error + audioEncoder) av"
where
  "audio_encoder_setup e startTS endTS fw dec =
     (if \<not> au_aac e then do { av_free dec; State_Monad.return (Inl NoAacEncoder) }
      else do {
        enc' \<leftarrow> av_try (au_encAlloc e);
        case enc' of
          None \<Rightarrow> do { av_free dec; State_Monad.return (Inl AacAlloc) }
        | Some enc \<Rightarrow>
            if \<not> au_encOpen e then audio_undo dec enc AacOpen
            else (case au_newStream e of
                    None \<Rightarrow> audio_undo dec enc NewAacStream
                  | Some outIdx \<Rightarrow>
                      if \<not> au_params e then audio_undo dec enc AacParams
                      else do { a \<leftarrow> audio_struct e startTS endTS fw outIdx dec enc; State_Monad.return (Inr a) })
      })"

definition newAudioEncoder :: "audio_env \<Rightarrow> int \<Rightarrow> int \<Rightarrow> fragWriter \<Rightarrow> (aenc_error + audioEncoder) av" where
  "newAudioEncoder e startTS endTS fw =
     (if \<not> au_decoder e then State_Monad.return (Inl NoAudioDecoder)
      else do {
        dec' \<leftarrow> av_try (co_alloc (au_dec e));
        case dec' of
          None \<Rightarrow> State_Monad.return (Inl AudioDecoderAlloc)
        | Some dec \<Rightarrow>
            if \<not> co_params (au_dec e) then do { av_free dec; State_Monad.return (Inl AudioDecoderParams) }
            else if \<not> co_open (au_dec e) then do { av_free dec; State_Monad.return (Inl AudioDecoderOpen) }
            else audio_encoder_setup e startTS endTS fw dec
      })"

definition audio_free :: "audioEncoder \<Rightarrow> unit av" where
  "audio_free a = do {
     av_free (ae_pkt a);
     av_free (ae_outFrame a);
     av_free (ae_resampled a);
     av_free (ae_decFrame a);
     av_free (ae_fifo a);
     av_free (ae_swr a);
     av_free (ae_enc a);
     av_free (ae_dec a)
   }"

definition own_audio :: "audioEncoder \<Rightarrow> handle multiset" where
  "own_audio a = {#ae_pkt a, ae_outFrame a, ae_resampled a, ae_decFrame a, ae_fifo a, ae_swr a, ae_enc a, ae_dec a#}"

lemma audio_free_owns: "owns (own_audio a) (audio_free a) (\<lambda>_. {#})"
  unfolding audio_free_def own_audio_def by (intro owns_free_head owns_free)

lemma audio_struct_owns: "owns {#enc, dec#} (audio_struct e startTS endTS fw outIdx dec enc) own_audio"
  unfolding audio_struct_def by (intro owns_alloc_then owns_return) (simp add: own_audio_def)

lemma audio_undo_owns: "owns {#enc, dec#} (audio_undo dec enc err) (own_result own_audio)"
proof -
  have "owns {#dec, enc#} (audio_undo dec enc err) (own_result own_audio)"
    unfolding audio_undo_def by (intro owns_free_head owns_return) simp
  then show ?thesis by (simp add: add_mset_commute)
qed

lemma newAudioEncoder_owns: "owns {#} (newAudioEncoder e startTS endTS fw) (own_result own_audio)"
proof -
  have struct: "owns {#enc, dec#} (do { a \<leftarrow> audio_struct e startTS endTS fw outIdx dec enc; State_Monad.return (Inr a) })
      (own_result own_audio)" for enc dec outIdx
    by (rule owns_bind [OF audio_struct_owns], rule owns_return) simp
  have init: "owns {#dec#} (audio_encoder_setup e startTS endTS fw dec) (own_result own_audio)" for dec
    unfolding audio_encoder_setup_def
    by (simp only: option.case | rule audio_undo_owns struct owns_if owns_option owns_try_then owns_free_head owns_return | (simp; fail))+
  show ?thesis
    unfolding newAudioEncoder_def
    by (rule init owns_if owns_try_then owns_free_head owns_return | simp only: option.case | (simp; fail))+
qed

section \<open>Encoding\<close>

datatype audio_error =
  AudioSendPacket | AudioReceiveFrame | AllocResample | Resample | FifoWrite | AllocOut | FifoRead | AudioSendFrame
| AudioReceivePacket | AudioWrite media_error

type_synonym audio_outcome = "audioEncoder \<times> audio_error option"

fun audio_packets :: "(packet \<times> bool \<times> bool) list \<Rightarrow> bool \<Rightarrow> audioEncoder \<Rightarrow> audio_outcome" where
  "audio_packets [] ended a = (a, if ended then None else Some AudioReceivePacket)"
| "audio_packets ((p, werr, cl) # ps) ended a =
     (let (fw, err) = fragWriter_write werr cl (p\<lparr>pk_stream := ae_outIdx a\<rparr>) (ae_w a);
          a1 = a\<lparr>ae_w := fw\<rparr>
      in case err of Some e \<Rightarrow> (a1, Some (AudioWrite e)) | None \<Rightarrow> audio_packets ps ended a1)"

definition audio_encode :: "(int \<times> int list) option \<Rightarrow> enc_run \<Rightarrow> audioEncoder \<Rightarrow> audio_outcome" where
  "audio_encode f r a =
     (if \<not> er_send r then (a, Some AudioSendFrame)
      else audio_packets (er_packets r) (er_end r)
             (case f of None \<Rightarrow> a | Some frame \<Rightarrow> a\<lparr>ae_sent := ae_sent a @ [frame]\<rparr>))"

text \<open>One round of the drain, and the answers of all rounds by their number.\<close>

record drain_run =
  dn_alloc :: bool
  dn_read :: bool
  dn_encode :: enc_run

definition frame_size :: "audioEncoder \<Rightarrow> nat" where
  "frame_size a = (if ae_frameSize a \<le> 0 then 1024 else nat (ae_frameSize a))"

definition drain_round :: "drain_run \<Rightarrow> nat \<Rightarrow> audioEncoder \<Rightarrow> audio_outcome" where
  "drain_round r n a =
     (if \<not> dn_alloc r then (a, Some AllocOut)
      else if \<not> dn_read r then (a, Some FifoRead)
      else audio_encode (Some (ae_nextPts a, take n (ae_samples a))) (dn_encode r)
             (a\<lparr>ae_samples := drop n (ae_samples a), ae_nextPts := wrap64 (ae_nextPts a + int n)\<rparr>))"

lemma audio_packets_keeps:
  assumes "\<And>a w. g (a\<lparr>ae_w := w\<rparr>) = g a"
  shows "g (fst (audio_packets ps ended a)) = g a"
  by (induction ps arbitrary: a) (auto simp: assms Let_def split_beta split: option.splits)

lemma audio_encode_keeps:
  assumes "\<And>a w. g (a\<lparr>ae_w := w\<rparr>) = g a" "\<And>a s. g (a\<lparr>ae_sent := s\<rparr>) = g a"
  shows "g (fst (audio_encode f r a)) = g a"
  using audio_packets_keeps [of g, OF assms(1)] assms(2) by (auto simp: audio_encode_def split: option.splits)

lemma audio_encode_samples [simp]:
  "ae_samples (fst (audio_encode f r a)) = ae_samples a" "ae_nextPts (fst (audio_encode f r a)) = ae_nextPts a"
  "ae_frameSize (fst (audio_encode f r a)) = ae_frameSize a" "ae_started (fst (audio_encode f r a)) = ae_started a"
  "ae_startTS (fst (audio_encode f r a)) = ae_startTS a" "ae_endTS (fst (audio_encode f r a)) = ae_endTS a"
  "own_audio (fst (audio_encode f r a)) = own_audio a"
  apply (rule audio_encode_keeps [where g = ae_samples]; simp)
  apply (rule audio_encode_keeps [where g = ae_nextPts]; simp)
  apply (rule audio_encode_keeps [where g = ae_frameSize]; simp)
  apply (rule audio_encode_keeps [where g = ae_started]; simp)
  apply (rule audio_encode_keeps [where g = ae_startTS]; simp)
  apply (rule audio_encode_keeps [where g = ae_endTS]; simp)
  apply (rule audio_encode_keeps [where g = own_audio]; simp add: own_audio_def)
  done

lemma drain_round_samples:
  "length (ae_samples (fst (drain_round r n a))) \<le> length (ae_samples a)"
  "snd (drain_round r n a) = None \<Longrightarrow> ae_samples (fst (drain_round r n a)) = drop n (ae_samples a)"
  "frame_size (fst (drain_round r n a)) = frame_size a"
  by (auto simp: drain_round_def frame_size_def split: if_splits)

lemma frame_size_pos [simp]: "0 < frame_size a" and frame_size_neq [simp]: "frame_size a \<noteq> 0"
  by (auto simp: frame_size_def)

lemma drain_round_shrinks:
  assumes "frame_size a \<le> length (ae_samples a) \<or> flush \<and> 0 < length (ae_samples a)"
    and "(a1, None) = drain_round r (min (frame_size a) (length (ae_samples a))) a"
  shows "length (ae_samples a1) < length (ae_samples a)"
proof -
  have "ae_samples a1 = drop (min (frame_size a) (length (ae_samples a))) (ae_samples a)"
    using drain_round_samples(2) [of r "min (frame_size a) (length (ae_samples a))" a] by (simp flip: assms(2))
  moreover have "0 < length (ae_samples a)" using assms(1) frame_size_pos [of a] by linarith
  ultimately show ?thesis using frame_size_pos [of a] by simp
qed

function audio_drain :: "bool \<Rightarrow> (nat \<Rightarrow> drain_run) \<Rightarrow> nat \<Rightarrow> audioEncoder \<Rightarrow> audio_outcome" where
  "audio_drain flush rs k a =
     (if frame_size a \<le> length (ae_samples a) \<or> flush \<and> 0 < length (ae_samples a) then
        (case drain_round (rs k) (min (frame_size a) (length (ae_samples a))) a of
           (a1, Some e) \<Rightarrow> (a1, Some e)
         | (a1, None) \<Rightarrow> audio_drain flush rs (Suc k) a1)
      else (a, None))"
  by auto
termination
  apply (relation "measure (\<lambda>(_, _, _, a). length (ae_samples a))")
   apply simp
  apply (use drain_round_shrinks in force)
  done

declare audio_drain.simps [simp del]

section \<open>Feeding and flushing\<close>

text \<open>
  A decoded frame with its resampled samples and the answers of the steps after it. \<open>seed\<close> is the floating
  point expression that turns the time of the first frame into output samples.
\<close>

record audio_frame =
  adf_pts :: int
  adf_pcm :: "int list"
  adf_alloc :: bool
  adf_convert :: bool
  adf_write :: bool
  adf_drain :: "nat \<Rightarrow> drain_run"

definition outside_window :: "audioEncoder \<Rightarrow> int \<Rightarrow> bool" where
  "outside_window a pts \<longleftrightarrow> pts \<noteq> noPTS \<and> (pts < ae_startTS a \<or> ae_endTS a \<le> pts)"

definition feed_frame :: "(int \<Rightarrow> int) \<Rightarrow> audio_frame \<Rightarrow> audioEncoder \<Rightarrow> audio_outcome" where
  "feed_frame seed f a =
     (let a1 = (if ae_started a then a else a\<lparr>ae_nextPts := seed (adf_pts f), ae_started := True\<rparr>)
      in if \<not> adf_alloc f then (a1, Some AllocResample)
         else if \<not> adf_convert f then (a1, Some Resample)
         else if \<not> adf_write f then (a1, Some FifoWrite)
         else audio_drain False (adf_drain f) 0 (a1\<lparr>ae_samples := ae_samples a1 @ adf_pcm f\<rparr>))"

fun feed_frames :: "(int \<Rightarrow> int) \<Rightarrow> audio_frame list \<Rightarrow> bool \<Rightarrow> audioEncoder \<Rightarrow> audio_outcome" where
  "feed_frames seed [] ended a = (a, if ended then None else Some AudioReceiveFrame)"
| "feed_frames seed (f # fs) ended a =
     (if outside_window a (adf_pts f) then feed_frames seed fs ended a
      else case feed_frame seed f a of
             (a1, Some e) \<Rightarrow> (a1, Some e)
           | (a1, None) \<Rightarrow> feed_frames seed fs ended a1)"

record audio_feed_run =
  afr_send :: bool
  afr_frames :: "audio_frame list"
  afr_end :: bool

definition audio_feed :: "(int \<Rightarrow> int) \<Rightarrow> audio_feed_run \<Rightarrow> audioEncoder \<Rightarrow> audio_outcome" where
  "audio_feed seed d a =
     (if \<not> afr_send d then (a, Some AudioSendPacket) else feed_frames seed (afr_frames d) (afr_end d) a)"

definition audio_flush :: "(nat \<Rightarrow> drain_run) \<Rightarrow> enc_run \<Rightarrow> audioEncoder \<Rightarrow> audio_outcome" where
  "audio_flush rs r a =
     (case audio_drain True rs 0 a of
        (a1, Some e) \<Rightarrow> (a1, Some e)
      | (a1, None) \<Rightarrow> audio_encode None r a1)"

fun audio_run ::
  "(int \<Rightarrow> int) \<Rightarrow> audio_feed_run list \<Rightarrow> (nat \<Rightarrow> drain_run) \<Rightarrow> enc_run \<Rightarrow> audioEncoder \<Rightarrow> audio_outcome"
where
  "audio_run seed [] rs r a = audio_flush rs r a"
| "audio_run seed (d # ds) rs r a =
     (case audio_feed seed d a of
        (a1, Some e) \<Rightarrow> (a1, Some e)
      | (a1, None) \<Rightarrow> audio_run seed ds rs r a1)"

definition audio_segment ::
  "(int \<Rightarrow> int) \<Rightarrow> audio_env \<Rightarrow> int \<Rightarrow> int \<Rightarrow> fragWriter \<Rightarrow> audio_feed_run list \<Rightarrow> (nat \<Rightarrow> drain_run) \<Rightarrow> enc_run \<Rightarrow>
   (aenc_error + audio_outcome) av"
where
  "audio_segment seed e startTS endTS fw ds rs r = do {
     n \<leftarrow> newAudioEncoder e startTS endTS fw;
     case n of
       Inl err \<Rightarrow> State_Monad.return (Inl err)
     | Inr a \<Rightarrow> do { let out = audio_run seed ds rs r a; audio_free (fst out); State_Monad.return (Inr out) }
   }"

section \<open>Samples in, samples out\<close>

text \<open>Frames that follow each other without a gap, from one sample time to another.\<close>

fun contiguous :: "int \<Rightarrow> (int \<times> int list) list \<Rightarrow> int \<Rightarrow> bool" where
  "contiguous s [] e \<longleftrightarrow> s = e"
| "contiguous s ((p, x) # fs) e \<longleftrightarrow> p = s \<and> contiguous (s + int (length x)) fs e"

lemma contiguous_snoc: "contiguous s (fs @ [(p, x)]) e \<longleftrightarrow> contiguous s fs p \<and> e = p + int (length x)"
  by (induction s fs p rule: contiguous.induct) auto

lemma contiguous_end: "contiguous s fs e \<Longrightarrow> e = s + int (length (concat (map snd fs)))"
  by (induction s fs e rule: contiguous.induct) auto

text \<open>The state after the samples \<open>xs\<close>, the first of them at \<open>s\<close>.\<close>

definition reframed :: "int \<Rightarrow> int list \<Rightarrow> audioEncoder \<Rightarrow> bool" where
  "reframed s xs a \<longleftrightarrow> concat (map snd (ae_sent a)) @ ae_samples a = xs \<and> contiguous s (ae_sent a) (ae_nextPts a)"

definition full_frames :: "audioEncoder \<Rightarrow> bool" where
  "full_frames a \<longleftrightarrow> (\<forall>f \<in> set (ae_sent a). length (snd f) = frame_size a)"

definition last_may_be_short :: "audioEncoder \<Rightarrow> bool" where
  "last_may_be_short a \<longleftrightarrow> (\<forall>f \<in> set (butlast (ae_sent a)). length (snd f) = frame_size a) \<and>
     (\<forall>f \<in> set (ae_sent a). 0 < length (snd f) \<and> length (snd f) \<le> frame_size a)"

lemma audio_packets_sent [simp]: "ae_sent (fst (audio_packets ps ended a)) = ae_sent a"
  by (rule audio_packets_keeps [where g = ae_sent]) simp

lemma drain_round_sent:
  assumes "drain_round r n a = (a1, None)"
  shows "ae_sent a1 = ae_sent a @ [(ae_nextPts a, take n (ae_samples a))]" "ae_samples a1 = drop n (ae_samples a)"
    "ae_nextPts a1 = wrap64 (ae_nextPts a + int n)" "frame_size a1 = frame_size a"
proof -
  have r: "dn_alloc r" "dn_read r" "er_send (dn_encode r)"
    using assms by (auto simp: drain_round_def audio_encode_def split: if_splits)
  have a1: "a1 = fst (drain_round r n a)" using assms by simp
  show "ae_sent a1 = ae_sent a @ [(ae_nextPts a, take n (ae_samples a))]" "ae_samples a1 = drop n (ae_samples a)"
    "ae_nextPts a1 = wrap64 (ae_nextPts a + int n)" "frame_size a1 = frame_size a"
    unfolding a1 using r by (simp_all add: drain_round_def frame_size_def) (simp add: audio_encode_def)
qed

lemma drain_round_window:
  "ae_started (fst (drain_round r n a)) = ae_started a" "outside_window (fst (drain_round r n a)) = outside_window a"
  by (simp_all add: drain_round_def outside_window_def fun_eq_iff)

lemma drain_round_reframed:
  assumes "drain_round r n a = (a1, None)" "reframed s xs a" "n \<le> length (ae_samples a)"
    and "in_int64 s" "s + int (length xs) < 2 ^ 63"
  shows "reframed s xs a1"
proof -
  have e: "ae_nextPts a = s + int (length (concat (map snd (ae_sent a))))"
    using assms(2) by (auto simp: reframed_def dest: contiguous_end)
  have "length xs = length (concat (map snd (ae_sent a))) + length (ae_samples a)"
    using assms(2) by (auto simp: reframed_def)
  then have "wrap64 (ae_nextPts a + int n) = ae_nextPts a + int n"
    using e assms(3-5) by (intro wrap64_id) (auto simp: in_int64_def)
  then show ?thesis
    using drain_round_sent [OF assms(1)] assms(2,3) by (auto simp: reframed_def contiguous_snoc min_absorb2)
qed

lemma audio_drain_frames:
  assumes "audio_drain flush rs k a = (a', None)" "reframed s xs a" "full_frames a" "in_int64 s" "s + int (length xs) < 2 ^ 63"
  shows "reframed s xs a' \<and> frame_size a' = frame_size a \<and> ae_started a' = ae_started a \<and>
    outside_window a' = outside_window a \<and>
    (if flush then ae_samples a' = [] \<and> last_may_be_short a' else full_frames a')"
  using assms(1-3)
proof (induction flush rs k a rule: audio_drain.induct)
  case (1 flush rs k a)
  let ?n = "min (frame_size a) (length (ae_samples a))"
  show ?case
  proof (cases "frame_size a \<le> length (ae_samples a) \<or> flush \<and> 0 < length (ae_samples a)")
    case False
    have "audio_drain flush rs k a = (a, None)" unfolding audio_drain.simps [of flush rs k a] if_not_P [OF False] ..
    then have "a' = a" using 1(2) by simp
    moreover have "last_may_be_short a"
      using 1(4) by (auto simp: full_frames_def last_may_be_short_def dest: in_set_butlastD)
    ultimately show ?thesis using False 1(3,4) by auto
  next
    case True
    obtain a1 err where r: "drain_round (rs k) ?n a = (a1, err)" by fastforce
    have run: "err = None" "audio_drain flush rs (Suc k) a1 = (a', None)"
      using 1(2) unfolding audio_drain.simps [of flush rs k a] if_P [OF True] r by (auto split: option.splits)
    note step = drain_round_sent [OF r [unfolded run(1)]]
    have re: "reframed s xs a1"
      by (rule drain_round_reframed [OF r [unfolded run(1)] 1(3) _ assms(4,5)]) simp
    have same: "ae_started a1 = ae_started a" "outside_window a1 = outside_window a"
      using drain_round_window [of "rs k" ?n a] r by simp_all
    show ?thesis
    proof (cases "frame_size a \<le> length (ae_samples a)")
      case full: True
      have "full_frames a1" using full 1(4) unfolding full_frames_def step(1,4) by (simp add: ball_Un)
      then show ?thesis using 1(1) [OF True r [symmetric] run(1) run(2) re] step(4) same by simp
    next
      case short: False
      then have fl: flush and rest: "ae_samples a1 = []" using True step(2) by auto
      have "a' = a1" using run(2) rest frame_size_pos [of a1] by (simp add: audio_drain.simps [of flush rs "Suc k" a1])
      moreover have "last_may_be_short a1"
      proof -
        have "ae_sent a1 = ae_sent a @ [(ae_nextPts a, ae_samples a)]" using step(1) short by (simp add: min_absorb2)
        moreover have "0 < length (ae_samples a)" "length (ae_samples a) \<le> frame_size a" using short True by auto
        ultimately show ?thesis using step(4) 1(4) frame_size_pos [of a] unfolding last_may_be_short_def full_frames_def
          by (simp only: butlast_snoc set_append list.set(1) list.set(2) ball_Un ball_simps snd_conv) simp
      qed
      ultimately show ?thesis using re rest fl step(4) same by simp
    qed
  qed
qed

text \<open>
  The frames of a window. A frame that carries no time passes the test of every window.
\<close>

definition wanted_audio :: "int \<Rightarrow> int \<Rightarrow> audio_frame list \<Rightarrow> audio_frame list" where
  "wanted_audio a b fs = filter (\<lambda>f. \<not> (adf_pts f \<noteq> noPTS \<and> (adf_pts f < a \<or> b \<le> adf_pts f))) fs"

definition pcm :: "audio_frame list \<Rightarrow> int list" where
  "pcm fs = concat (map adf_pcm fs)"

lemma wanted_audio_append [simp]: "wanted_audio a b (fs @ gs) = wanted_audio a b fs @ wanted_audio a b gs"
  by (simp add: wanted_audio_def)

lemma pcm_append [simp]: "pcm (fs @ gs) = pcm fs @ pcm gs" "pcm [] = []"
  by (simp_all add: pcm_def)

text \<open>
  After the wanted frames \<open>fs\<close>: the clock was started by the first of them, and everything since is in the
  encoder or still in the FIFO.
\<close>

definition after_frames :: "(int \<Rightarrow> int) \<Rightarrow> audio_frame list \<Rightarrow> audioEncoder \<Rightarrow> bool" where
  "after_frames seed fs a \<longleftrightarrow> full_frames a \<and> ae_started a = (fs \<noteq> []) \<and>
     (if fs = [] then ae_sent a = [] \<and> ae_samples a = [] else reframed (seed (adf_pts (hd fs))) (pcm fs) a)"

definition clock_ok :: "(int \<Rightarrow> int) \<Rightarrow> audio_frame list \<Rightarrow> bool" where
  "clock_ok seed fs \<longleftrightarrow>
     (fs \<noteq> [] \<longrightarrow> in_int64 (seed (adf_pts (hd fs))) \<and> seed (adf_pts (hd fs)) + int (length (pcm fs)) < 2 ^ 63)"

lemma clock_ok_prefix: "clock_ok seed (fs @ gs) \<Longrightarrow> clock_ok seed fs"
  by (cases fs) (auto simp: clock_ok_def pcm_def)

lemma feed_frame_after:
  assumes "feed_frame seed f a = (a', None)" "after_frames seed fs a" "clock_ok seed (fs @ [f])"
  shows "after_frames seed (fs @ [f]) a' \<and> outside_window a' = outside_window a \<and> frame_size a' = frame_size a"
proof -
  let ?a1 = "if ae_started a then a else a\<lparr>ae_nextPts := seed (adf_pts f), ae_started := True\<rparr>"
  let ?a2 = "?a1\<lparr>ae_samples := ae_samples ?a1 @ adf_pcm f\<rparr>"
  let ?s = "seed (adf_pts (hd (fs @ [f])))"
  have run: "audio_drain False (adf_drain f) 0 ?a2 = (a', None)"
    using assms(1) by (auto simp: feed_frame_def Let_def split: if_splits)
  have re: "reframed ?s (pcm (fs @ [f])) ?a2"
    using assms(2) by (cases fs) (auto simp: after_frames_def reframed_def pcm_def)
  have full: "full_frames ?a2" using assms(2) by (auto simp: after_frames_def full_frames_def frame_size_def)
  have "in_int64 ?s" "?s + int (length (pcm (fs @ [f]))) < 2 ^ 63" using assms(3) by (auto simp: clock_ok_def)
  from audio_drain_frames [OF run re full this]
  show ?thesis by (auto simp: after_frames_def outside_window_def frame_size_def fun_eq_iff)
qed

lemma feed_frames_after:
  assumes "feed_frames seed gs ended a = (a', None)" "after_frames seed fs a"
    and "outside_window a = (\<lambda>p. p \<noteq> noPTS \<and> (p < lo \<or> hi \<le> p))" "clock_ok seed (fs @ wanted_audio lo hi gs)"
  shows "after_frames seed (fs @ wanted_audio lo hi gs) a' \<and> outside_window a' = outside_window a \<and> frame_size a' = frame_size a"
  using assms
proof (induction gs arbitrary: a fs)
  case (Cons g gs)
  show ?case
  proof (cases "outside_window a (adf_pts g)")
    case True
    then have "wanted_audio lo hi (g # gs) = wanted_audio lo hi gs" using Cons.prems(3) by (auto simp: wanted_audio_def)
    then show ?thesis using Cons True by auto
  next
    case False
    then have w: "wanted_audio lo hi (g # gs) = g # wanted_audio lo hi gs" using Cons.prems(3) by (auto simp: wanted_audio_def)
    obtain a1 where a1: "feed_frame seed g a = (a1, None)" "feed_frames seed gs ended a1 = (a', None)"
      using Cons.prems(1) False by (auto split: prod.splits option.splits)
    have "clock_ok seed ((fs @ [g]) @ wanted_audio lo hi gs)" using Cons.prems(4) w by simp
    moreover from this have "clock_ok seed (fs @ [g])" by (rule clock_ok_prefix)
    ultimately show ?thesis
      using feed_frame_after [OF a1(1) Cons.prems(2)] Cons.IH [OF a1(2), of "fs @ [g]"] Cons.prems(3) w by simp
  qed
qed (auto simp: wanted_audio_def split: if_splits)

text \<open>A run: the frames of all packets, then the flush.\<close>

definition all_frames :: "audio_feed_run list \<Rightarrow> audio_frame list" where
  "all_frames ds = concat (map afr_frames ds)"

definition reframing :: "(int \<Rightarrow> int) \<Rightarrow> audio_frame list \<Rightarrow> audioEncoder \<Rightarrow> bool" where
  "reframing seed fs a \<longleftrightarrow> concat (map snd (ae_sent a)) = pcm fs \<and>
     (fs \<noteq> [] \<longrightarrow> (\<exists>e. contiguous (seed (adf_pts (hd fs))) (ae_sent a) e)) \<and> last_may_be_short a"

lemma audio_flush_after:
  assumes "audio_flush rs r a = (a', None)" "after_frames seed fs a" "clock_ok seed fs"
  shows "reframing seed fs a' \<and> frame_size a' = frame_size a"
proof -
  obtain a1 where a1: "audio_drain True rs 0 a = (a1, None)" "audio_encode None r a1 = (a', None)"
    using assms(1) by (auto simp: audio_flush_def split: prod.splits option.splits)
  have a': "ae_sent a' = ae_sent a1" "frame_size a' = frame_size a1"
    using audio_packets_sent [of "er_packets r" "er_end r" a1] audio_encode_samples(3) [of None r a1] a1(2)
    by (auto simp: audio_encode_def frame_size_def simp del: audio_packets_sent split: if_splits)
  show ?thesis
  proof (cases "fs = []")
    case True
    then have "audio_drain True rs 0 a = (a, None)"
      using assms(2) frame_size_pos [of a] by (simp add: after_frames_def audio_drain.simps [of True rs 0 a])
    then have "ae_sent a' = []" "frame_size a' = frame_size a"
      using a1 a' assms(2) True by (auto simp: after_frames_def)
    then show ?thesis using True by (simp add: reframing_def last_may_be_short_def)
  next
    case False
    let ?s = "seed (adf_pts (hd fs))"
    have "reframed ?s (pcm fs) a" "full_frames a" using assms(2) False by (simp_all add: after_frames_def)
    moreover have "in_int64 ?s" "?s + int (length (pcm fs)) < 2 ^ 63" using assms(3) False by (simp_all add: clock_ok_def)
    ultimately have "reframed ?s (pcm fs) a1 \<and> frame_size a1 = frame_size a \<and> ae_samples a1 = [] \<and> last_may_be_short a1"
      using audio_drain_frames [OF a1(1)] by auto
    then show ?thesis using a' by (auto simp: reframing_def reframed_def last_may_be_short_def)
  qed
qed

lemma audio_run_after:
  assumes "audio_run seed ds rs r a = (a', None)" "after_frames seed fs a"
    and "outside_window a = (\<lambda>p. p \<noteq> noPTS \<and> (p < lo \<or> hi \<le> p))" "clock_ok seed (fs @ wanted_audio lo hi (all_frames ds))"
  shows "reframing seed (fs @ wanted_audio lo hi (all_frames ds)) a' \<and> frame_size a' = frame_size a"
  using assms
proof (induction ds arbitrary: a fs)
  case Nil
  then show ?case using audio_flush_after by (simp add: all_frames_def wanted_audio_def)
next
  case (Cons d ds)
  have all: "all_frames (d # ds) = afr_frames d @ all_frames ds" by (simp add: all_frames_def)
  obtain a1 where a1: "audio_feed seed d a = (a1, None)" "audio_run seed ds rs r a1 = (a', None)"
    using Cons.prems(1) by (auto split: prod.splits option.splits)
  then have feed: "feed_frames seed (afr_frames d) (afr_end d) a = (a1, None)"
    by (simp add: audio_feed_def split: if_splits)
  have ok: "clock_ok seed ((fs @ wanted_audio lo hi (afr_frames d)) @ wanted_audio lo hi (all_frames ds))"
    using Cons.prems(4) by (simp add: all)
  show ?case
    using feed_frames_after [OF feed Cons.prems(2,3) clock_ok_prefix [OF ok]]
      Cons.IH [OF a1(2), of "fs @ wanted_audio lo hi (afr_frames d)"] ok Cons.prems(3) by (simp add: all)
qed

lemma newAudioEncoder_fresh:
  "gives (newAudioEncoder e lo hi fw)
     (\<lambda>n. \<forall>a. n = Inr a \<longrightarrow> after_frames seed [] a \<and> outside_window a = (\<lambda>p. p \<noteq> noPTS \<and> (p < lo \<or> hi \<le> p)) \<and>
        ae_frameSize a = au_frameSize e)"
proof -
  have struct: "gives (do { a \<leftarrow> audio_struct e lo hi fw outIdx dec enc; State_Monad.return (Inr a) })
      (\<lambda>n :: aenc_error + audioEncoder. \<forall>a. n = Inr a \<longrightarrow> after_frames seed [] a \<and>
        outside_window a = (\<lambda>p. p \<noteq> noPTS \<and> (p < lo \<or> hi \<le> p)) \<and> ae_frameSize a = au_frameSize e)" for outIdx dec enc
    unfolding audio_struct_def
    by (simp only: bind_assoc bind_left_identity) (intro gives_then gives_return, simp add: after_frames_def full_frames_def outside_window_def fun_eq_iff)
  show ?thesis
    unfolding newAudioEncoder_def audio_encoder_setup_def audio_undo_def
    by (auto simp: av_try_then intro!: gives_then gives_return struct split: option.split)
qed

text \<open>
  C29. A transcoded audio segment neither loses nor repeats a sample. The frames the AAC encoder accepts
  carry, in order, exactly the samples of the decoded frames of the window; each begins at the sample time
  at which the one before it ends, the first at the time of the first frame of the window; and all but the last
  have the encoder's frame size, which none exceeds.
\<close>

theorem audio_segment_reframes:
  assumes "fst (run_state (audio_segment seed e lo hi fw ds rs r) h) = Inr (a, None)"
    and "fs = wanted_audio lo hi (all_frames ds)" "clock_ok seed fs"
  shows "concat (map snd (ae_sent a)) = pcm fs \<and>
    (fs \<noteq> [] \<longrightarrow> (\<exists>e. contiguous (seed (adf_pts (hd fs))) (ae_sent a) e)) \<and>
    (\<forall>f \<in> set (butlast (ae_sent a)). length (snd f) = (if au_frameSize e \<le> 0 then 1024 else nat (au_frameSize e))) \<and>
    (\<forall>f \<in> set (ae_sent a). 0 < length (snd f) \<and> length (snd f) \<le> (if au_frameSize e \<le> 0 then 1024 else nat (au_frameSize e)))"
proof -
  have "gives (audio_segment seed e lo hi fw ds rs r)
      (\<lambda>n. \<forall>a. n = Inr (a, None) \<longrightarrow> reframing seed fs a \<and> ae_frameSize a = ae_frameSize a \<and>
         frame_size a = (if au_frameSize e \<le> 0 then 1024 else nat (au_frameSize e)))"
    unfolding audio_segment_def
  proof (rule gives_bind [OF newAudioEncoder_fresh [of e lo hi fw seed]])
    fix n :: "aenc_error + audioEncoder"
    assume n: "\<forall>a. n = Inr a \<longrightarrow> after_frames seed [] a \<and> outside_window a = (\<lambda>p. p \<noteq> noPTS \<and> (p < lo \<or> hi \<le> p)) \<and>
        ae_frameSize a = au_frameSize e"
    show "gives (case n of Inl err \<Rightarrow> State_Monad.return (Inl err)
        | Inr a \<Rightarrow> do { let out = audio_run seed ds rs r a; audio_free (fst out); State_Monad.return (Inr out) })
      (\<lambda>n. \<forall>a. n = Inr (a, None) \<longrightarrow> reframing seed fs a \<and> ae_frameSize a = ae_frameSize a \<and>
         frame_size a = (if au_frameSize e \<le> 0 then 1024 else nat (au_frameSize e)))"
    proof (cases n)
      case (Inl err)
      then show ?thesis by (simp add: gives_return)
    next
      case (Inr a)
      then have a: "after_frames seed [] a" "outside_window a = (\<lambda>p. p \<noteq> noPTS \<and> (p < lo \<or> hi \<le> p))"
          "ae_frameSize a = au_frameSize e" using n by simp_all
      have "reframing seed fs a' \<and> frame_size a' = frame_size a" if "audio_run seed ds rs r a = (a', None)" for a'
        using audio_run_after [OF that a(1,2)] assms(2,3) by simp
      then show ?thesis unfolding Inr sum.case Let_def
        by (intro gives_then gives_return) (auto simp: frame_size_def a(3))
    qed
  qed
  then have "reframing seed fs a \<and> frame_size a = (if au_frameSize e \<le> 0 then 1024 else nat (au_frameSize e))"
    using assms(1) unfolding gives_def by blast
  then show ?thesis by (auto simp: reframing_def last_may_be_short_def)
qed

text \<open>Two adjacent windows share out frames that carry a time; a frame without one is in both.\<close>

lemma wanted_audio_split:
  assumes "\<forall>f \<in> set fs. adf_pts f \<noteq> noPTS" "sorted_wrt (\<lambda>f g. adf_pts f \<le> adf_pts g) fs" "a \<le> b" "b \<le> c"
  shows "wanted_audio a b fs @ wanted_audio b c fs = wanted_audio a c fs"
  using assms(1,2)
proof (induction fs)
  case (Cons f fs)
  then have ih: "wanted_audio a b fs @ wanted_audio b c fs = wanted_audio a c fs" by simp
  have "wanted_audio a b fs = []" if "b \<le> adf_pts f"
    using Cons.prems that by (fastforce simp: wanted_audio_def filter_empty_conv)
  then show ?case using ih Cons.prems(1) assms(3,4) by (cases "b \<le> adf_pts f") (auto simp: wanted_audio_def)
qed (simp add: wanted_audio_def)

text \<open>
  The samples of adjacent audio segments join without a gap or an overlap. Two segments \<open>[a, b)\<close> and
  \<open>[b, c)\<close> that were transcoded by independent encoders deliver, one after the other, the samples of all the
  source frames that start in \<open>[a, c)\<close>, each once, if every frame carries a time.
\<close>

theorem audio_windows_join:
  assumes "fst (run_state (audio_segment seed e1 a b fw1 ds1 rs1 r1) h1) = Inr (x1, None)"
    and "fst (run_state (audio_segment seed e2 b c fw2 ds2 rs2 r2) h2) = Inr (x2, None)"
    and "wanted_audio a b (all_frames ds1) = wanted_audio a b src" "wanted_audio b c (all_frames ds2) = wanted_audio b c src"
    and "clock_ok seed (wanted_audio a b src)" "clock_ok seed (wanted_audio b c src)"
    and "\<forall>f \<in> set src. adf_pts f \<noteq> noPTS" "sorted_wrt (\<lambda>f g. adf_pts f \<le> adf_pts g) src" "a \<le> b" "b \<le> c"
  shows "concat (map snd (ae_sent x1)) @ concat (map snd (ae_sent x2)) = pcm (wanted_audio a c src)"
  using audio_segment_reframes [OF assms(1) refl] audio_segment_reframes [OF assms(2) refl] assms(3-6)
    wanted_audio_split [OF assms(7-10)] pcm_append(1) by metis

text \<open>Running keeps the objects.\<close>

lemma drain_round_owned [simp]: "own_audio (fst (drain_round r n a)) = own_audio a"
  by (auto simp: drain_round_def) (simp_all add: own_audio_def)

lemma audio_drain_owned: "own_audio (fst (audio_drain flush rs k a)) = own_audio a"
proof (induction flush rs k a rule: audio_drain.induct)
  case (1 flush rs k a)
  let ?c = "frame_size a \<le> length (ae_samples a) \<or> flush \<and> 0 < length (ae_samples a)"
  let ?n = "min (frame_size a) (length (ae_samples a))"
  obtain a1 err where r: "drain_round (rs k) ?n a = (a1, err)" by fastforce
  have o: "own_audio a1 = own_audio a" using drain_round_owned [of "rs k" ?n a] r by simp
  show ?case
  proof (cases "?c \<and> err = None")
    case True
    then have "audio_drain flush rs k a = audio_drain flush rs (Suc k) a1"
      unfolding audio_drain.simps [of flush rs k a] by (simp add: r)
    then show ?thesis using 1 [OF _ r [symmetric]] True o by simp
  next
    case False
    then have "fst (audio_drain flush rs k a) = (if ?c then a1 else a)"
      unfolding audio_drain.simps [of flush rs k a] by (auto simp: r split: option.splits)
    then show ?thesis using o by simp
  qed
qed

lemma feed_frame_owned: "own_audio (fst (feed_frame seed f a)) = own_audio a"
  by (auto simp: feed_frame_def Let_def audio_drain_owned) (simp_all add: own_audio_def)

lemma feed_frames_owned: "own_audio (fst (feed_frames seed fs ended a)) = own_audio a"
proof (induction fs arbitrary: a)
  case (Cons f fs)
  obtain a1 err where r: "feed_frame seed f a = (a1, err)" by fastforce
  then have "own_audio a1 = own_audio a" using feed_frame_owned [of seed f a] by simp
  then show ?case using Cons [of a] Cons [of a1] by (cases err) (simp_all add: r)
qed simp

lemma audio_run_owned: "own_audio (fst (audio_run seed ds rs r a)) = own_audio a"
proof (induction ds arbitrary: a)
  case Nil
  obtain a1 err where d: "audio_drain True rs 0 a = (a1, err)" by fastforce
  then have "own_audio a1 = own_audio a" using audio_drain_owned [of True rs 0 a] by simp
  then show ?case by (cases err) (simp_all add: audio_flush_def d)
next
  case (Cons d ds)
  obtain a1 err where f: "audio_feed seed d a = (a1, err)" by fastforce
  then have "own_audio a1 = own_audio a"
    using feed_frames_owned [of seed "afr_frames d" "afr_end d" a] by (auto simp: audio_feed_def split: if_splits)
  then show ?case using Cons [of a1] by (cases err) (simp_all add: f)
qed

text \<open>
  However an audio segment ends, its encoder's objects are freed exactly once, also when the set-up
  stops half-way.
\<close>

theorem audio_segment_frees_all:
  "av_live (snd (run_state (audio_segment seed e lo hi fw ds rs r) h)) = av_live h \<and>
   av_bad (snd (run_state (audio_segment seed e lo hi fw ds rs r) h)) = av_bad h"
proof -
  have free: "owns (own_audio a) (audio_free (fst (audio_run seed ds rs r a))) (\<lambda>_. {#})" for a
    using audio_free_owns [of "fst (audio_run seed ds rs r a)"] by (simp only: audio_run_owned)
  have "owns {#} (audio_segment seed e lo hi fw ds rs r) (\<lambda>_. {#})"
    unfolding audio_segment_def Let_def
    by (rule owns_bind [OF newAudioEncoder_owns], rule owns_sum)
      (simp_all add: owns_return owns_bind [OF free])
  then show ?thesis by (simp add: owns_def)
qed

section \<open>A concrete segment\<close>

definition demo_audio :: audio_env where
  "demo_audio = \<lparr>au_decoder = True, au_dec = \<lparr>co_alloc = True, co_params = True, co_open = True\<rparr>, au_aac = True,
     au_encAlloc = True, au_encOpen = True, au_newStream = Some 0, au_params = True, au_frameSize = 2\<rparr>"

definition quiet_run :: enc_run where
  "quiet_run = \<lparr>er_send = True, er_packets = [], er_end = True\<rparr>"

definition demo_drain :: "nat \<Rightarrow> drain_run" where
  "demo_drain k = \<lparr>dn_alloc = True, dn_read = True, dn_encode = quiet_run\<rparr>"

definition demo_audio_frame :: "int \<Rightarrow> int list \<Rightarrow> audio_frame" where
  "demo_audio_frame t xs = \<lparr>adf_pts = t, adf_pcm = xs, adf_alloc = True, adf_convert = True, adf_write = True, adf_drain = demo_drain\<rparr>"

definition demo_source :: "audio_frame list" where
  "demo_source = [demo_audio_frame 0 [10, 11, 12], demo_audio_frame 3 [13, 14, 15]]"

definition demo_audio_feeds :: "audio_feed_run list" where
  "demo_audio_feeds = [\<lparr>afr_send = True, afr_frames = demo_source, afr_end = True\<rparr>]"

definition demo_audio_segment :: "int \<Rightarrow> int \<Rightarrow> aenc_error + audio_outcome" where
  "demo_audio_segment a b =
     fst (run_state (audio_segment (\<lambda>t. t) demo_audio a b newFragWriter demo_audio_feeds demo_drain quiet_run) no_objects)"

lemma demo_audio_runs:
  "\<exists>a. demo_audio_segment 0 3 = Inr (a, None) \<and> ae_sent a = [(0, [10, 11]), (2, [12])]"
  "\<exists>a. demo_audio_segment 3 6 = Inr (a, None) \<and> ae_sent a = [(3, [13, 14]), (5, [15])]"
  by (simp_all add: demo_audio_segment_def audio_segment_def newAudioEncoder_def demo_audio_def av_try_def audio_encoder_setup_def
      audio_struct_def split_beta Let_def demo_audio_feeds_def demo_source_def demo_audio_frame_def audio_feed_def outside_window_def
      noPTS_def feed_frame_def audio_drain.simps frame_size_def drain_round_def demo_drain_def audio_encode_def quiet_run_def
      audio_flush_def wrap64_id in_int64_def)

lemma demo_wanted:
  "wanted_audio 0 3 (all_frames demo_audio_feeds) = [demo_audio_frame 0 [10, 11, 12]]"
  "wanted_audio 3 6 (all_frames demo_audio_feeds) = [demo_audio_frame 3 [13, 14, 15]]"
  "wanted_audio 0 3 demo_source = [demo_audio_frame 0 [10, 11, 12]]"
  "wanted_audio 3 6 demo_source = [demo_audio_frame 3 [13, 14, 15]]"
  "wanted_audio 0 6 demo_source = demo_source"
  by (simp_all add: wanted_audio_def all_frames_def demo_audio_feeds_def demo_source_def demo_audio_frame_def noPTS_def)

lemma demo_clock: "clock_ok (\<lambda>t. t) [demo_audio_frame 0 [10, 11, 12]]" "clock_ok (\<lambda>t. t) [demo_audio_frame 3 [13, 14, 15]]"
  by (simp_all add: clock_ok_def demo_audio_frame_def in_int64_def pcm_def)

theorem audio_segment_reframes_witness:
  "\<exists>a. demo_audio_segment 0 3 = Inr (a, None) \<and> concat (map snd (ae_sent a)) = [10, 11, 12] \<and>
     (\<exists>e. contiguous 0 (ae_sent a) e)"
proof -
  obtain a where a: "demo_audio_segment 0 3 = Inr (a, None)" using demo_audio_runs(1) by blast
  then show ?thesis
    using audio_segment_reframes [OF a [unfolded demo_audio_segment_def] refl] demo_clock(1)
    by (simp add: demo_wanted demo_audio_frame_def pcm_def)
qed

theorem audio_windows_join_witness:
  "\<exists>x y. demo_audio_segment 0 3 = Inr (x, None) \<and> demo_audio_segment 3 6 = Inr (y, None) \<and>
     concat (map snd (ae_sent x)) @ concat (map snd (ae_sent y)) = [10, 11, 12, 13, 14, 15]"
proof -
  obtain x y where xy: "demo_audio_segment 0 3 = Inr (x, None)" "demo_audio_segment 3 6 = Inr (y, None)"
    using demo_audio_runs by blast
  have "concat (map snd (ae_sent x)) @ concat (map snd (ae_sent y)) = pcm (wanted_audio 0 6 demo_source)"
    by (rule audio_windows_join [OF xy [unfolded demo_audio_segment_def]])
      (use demo_clock in \<open>simp_all add: demo_wanted, simp_all add: demo_source_def demo_audio_frame_def noPTS_def\<close>)
  then show ?thesis using xy unfolding demo_wanted by (simp add: pcm_def demo_source_def demo_audio_frame_def)
qed

text \<open>A frame without a time, such as the first one of a damaged stream, is delivered in both of two adjacent windows.\<close>

lemma untimed_frame_in_every_window: "adf_pts f = noPTS \<Longrightarrow> wanted_audio a b [f] = [f]"
  by (simp add: wanted_audio_def)

end
