(* ===== verification/Extract.thy ===== *)
theory Extract
  imports HwAccel MediaProbe TorrentFiles AudioCont
begin

text \<open>
  Extractions that read a file from start to end of one call: opening the demuxer over a reader
  (\<^verbatim>\<open>media/avio.go\<close>), one frame as a picture (\<^verbatim>\<open>media/thumbnail.go\<close>) with the endpoint that serves it
  (\<^verbatim>\<open>handlers/thumbnails.go\<close>), and the samples of a time window for the fingerprinter (\<^verbatim>\<open>media/audiopcm.go\<close>).
  What libav answers is a record, in the order of the calls; the functions are sequences of allocations
  and deferred frees over its heap, and each \<open>settles\<close>: it gives a fixed result and leaves nothing live.
\<close>

section \<open>Opening the input\<close>

record demux_answers =
  da_io :: bool
  da_format :: bool
  da_open :: bool
  da_info :: bool

datatype demux_error = AllocIOContext | AllocFormatContext | OpenInput | FindStreamInfo

text \<open>The format context, the I/O context and the interrupter, freed in this order.\<close>

definition demux_cleanup :: "handle \<times> handle \<times> handle \<Rightarrow> unit av" where
  "demux_cleanup d = (case d of (fc, io, it) \<Rightarrow> do { av_free fc; av_free io; av_free it })"

definition openDemux :: "demux_answers \<Rightarrow> (demux_error + handle \<times> handle \<times> handle) av" where
  "openDemux a = do {
     io \<leftarrow> av_try (da_io a);
     case io of
       None \<Rightarrow> State_Monad.return (Inl AllocIOContext)
     | Some io \<Rightarrow> do {
         fc \<leftarrow> av_try (da_format a);
         case fc of
           None \<Rightarrow> do { av_free io; State_Monad.return (Inl AllocFormatContext) }
         | Some fc \<Rightarrow> do {
             it \<leftarrow> av_alloc;
             if \<not> da_open a then do { demux_cleanup (fc, io, it); State_Monad.return (Inl OpenInput) }
             else if \<not> da_info a then do { demux_cleanup (fc, io, it); State_Monad.return (Inl FindStreamInfo) }
             else State_Monad.return (Inr (fc, io, it))
           }
       }
   }"

definition demux_error_of :: "demux_answers \<Rightarrow> demux_error option" where
  "demux_error_of a =
     (if \<not> da_io a then Some AllocIOContext else if \<not> da_format a then Some AllocFormatContext
      else if \<not> da_open a then Some OpenInput else if \<not> da_info a then Some FindStreamInfo else None)"

lemma cleanup_owns: "owns {#fc, io, it#} (demux_cleanup (fc, io, it)) (\<lambda>_. {#})"
  unfolding demux_cleanup_def prod.case
  by (rule owns_free_then, simp, rule owns_free_then, simp, rule owns_weaken [OF owns_free]) auto

lemma cleanup_then:
  "A = {#fc, io, it#} \<Longrightarrow> owns {#} (f ()) B \<Longrightarrow> owns A (State_Monad.bind (demux_cleanup (fc, io, it)) f) B"
  by (simp only:) (rule owns_bind [OF cleanup_owns], simp)

definition demux_owned :: "demux_error + handle \<times> handle \<times> handle \<Rightarrow> handle multiset" where
  "demux_owned r = (case r of Inl _ \<Rightarrow> {#} | Inr (fc, io, it) \<Rightarrow> {#fc, io, it#})"

lemma openDemux_owns: "owns {#} (openDemux a) demux_owned"
  unfolding openDemux_def
  by (intro owns_try_then owns_alloc_then owns_if)
    (auto simp: demux_owned_def intro!: owns_return cleanup_then owns_try_then owns_alloc_then owns_if owns_free_head)

lemma openDemux_gives:
  "gives (openDemux a) (\<lambda>r. case demux_error_of a of Some e \<Rightarrow> r = Inl e | None \<Rightarrow> \<exists>d. r = Inr d)"
  unfolding openDemux_def av_try_then
  by (auto simp: demux_error_of_def intro!: gives_if gives_then gives_return)

text \<open>A body over an open input, and the deferred cleanup.\<close>

definition with_demux :: "demux_answers \<Rightarrow> (demux_error \<Rightarrow> 'e) \<Rightarrow> ('e + 'a) av \<Rightarrow> ('e + 'a) av" where
  "with_demux a err body = do {
     d \<leftarrow> openDemux a;
     case d of
       Inl e \<Rightarrow> State_Monad.return (Inl (err e))
     | Inr d \<Rightarrow> do { r \<leftarrow> body; demux_cleanup d; State_Monad.return r }
   }"

lemma with_demux_owns:
  assumes "owns {#} body (\<lambda>_. {#})"
  shows "owns {#} (with_demux a err body) (\<lambda>_. {#})"
  unfolding with_demux_def
proof (rule owns_bind [OF openDemux_owns])
  fix d
  show "owns (demux_owned d) (case d of Inl e \<Rightarrow> State_Monad.return (Inl (err e))
      | Inr d \<Rightarrow> do { r \<leftarrow> body; demux_cleanup d; State_Monad.return r }) (\<lambda>_. {#})"
  proof (cases d)
    case (Inr x)
    obtain fc io it where x: "x = (fc, io, it)" by (metis prod_cases3)
    have "owns {#fc, io, it#} body (\<lambda>_. {#fc, io, it#})" using owns_frame [OF assms, of "{#fc, io, it#}"] by simp
    then show ?thesis by (auto simp: Inr x demux_owned_def intro!: owns_bind cleanup_then owns_return)
  qed (simp add: demux_owned_def owns_return)
qed

lemma with_demux_settles:
  assumes "settles body r"
  shows "settles (with_demux a err body) (case demux_error_of a of Some e \<Rightarrow> Inl (err e) | None \<Rightarrow> r)"
proof -
  have b: "owns {#} body (\<lambda>_. {#})" "gives body (\<lambda>r'. r' = r)" using assms by (simp_all add: settles_def)
  have "gives (with_demux a err body) (\<lambda>r'. r' = (case demux_error_of a of Some e \<Rightarrow> Inl (err e) | None \<Rightarrow> r))"
    unfolding with_demux_def
    by (rule gives_bind [OF openDemux_gives])
      (auto split: option.splits intro!: gives_return gives_then gives_bind [OF b(2)])
  with with_demux_owns [OF b(1)] show ?thesis by (simp add: settles_def)
qed

text \<open>The check at start-up that libav is there: whether a format context can be allocated; it is freed.\<close>

definition LibavLinked :: "bool \<Rightarrow> bool av" where
  "LibavLinked ok = do {
     fc \<leftarrow> av_try ok;
     case fc of None \<Rightarrow> State_Monad.return False | Some fc \<Rightarrow> do { av_free fc; State_Monad.return True }
   }"

lemma LibavLinked_settles: "settles (LibavLinked ok) ok"
  unfolding LibavLinked_def av_try_then settles_def
  by (auto intro!: owns_alloc_then owns_free_then owns_return gives_then gives_return)

section \<open>One frame as a picture\<close>

text \<open>
  What reading gives after a seek: the packets, each with its stream, whether the decoder takes it and what
  it then gives, and how the packets end. A frame is what the encoder makes of it.
\<close>

datatype 'f decoded = Frame 'f | NeedsMore | DecodeFails

record 'f video_packet =
  vp_stream :: int
  vp_sent :: bool
  vp_decoded :: "'f decoded"

datatype 'f read_end = ReadEof "'f option" | ReadFails

datatype thumb_error =
    ThumbDemux demux_error | ThumbNoStream | ThumbNoDecoder | ThumbAllocDecoder | ThumbDecoderParams | ThumbOpenDecoder
  | ThumbSeek | ThumbRead | ThumbSend | ThumbReceive | ThumbNoFrame | ThumbScaler | ThumbScale | ThumbNoEncoder
  | ThumbAllocEncoder | ThumbOpenEncoder | ThumbSendFrame | ThumbReceivePacket

record 'f thumb_answers =
  ta_demux :: demux_answers
  ta_streams :: "demux_stream list"
  ta_decoder :: bool
  ta_allocDecoder :: bool
  ta_params :: bool
  ta_openDecoder :: bool
  ta_seek :: "int \<Rightarrow> bool"
  ta_reads :: "int option \<Rightarrow> 'f video_packet list \<times> 'f read_end"
  ta_scaler :: "'f \<Rightarrow> bool"
  ta_scale :: "'f \<Rightarrow> bool"
  ta_encoder :: bool
  ta_allocEncoder :: bool
  ta_openEncoder :: bool
  ta_sendFrame :: "'f \<Rightarrow> bool"
  ta_jpeg :: "'f \<Rightarrow> byte list option"

definition thumb_stream :: "demux_stream list \<Rightarrow> demux_stream option" where
  "thumb_stream ss = List.find (\<lambda>s. ds_Kind s = KVideo \<and> \<not> ds_AttachedPic s) ss"

text \<open>The time stamp to seek to; none at the start of the file or without a time base.\<close>

definition seek_target :: "rat \<Rightarrow> demux_stream \<Rightarrow> int option" where
  "seek_target timeSec s =
     (if 0 < timeSec \<and> 0 < ds_tbNum s
      then Some (trunc_rat (timeSec * of_int (ds_tbDen s) / of_int (ds_tbNum s))) else None)"

fun first_frame :: "int \<Rightarrow> 'f video_packet list \<Rightarrow> 'f read_end \<Rightarrow> thumb_error + 'f" where
  "first_frame videoIdx [] e =
     (case e of ReadFails \<Rightarrow> Inl ThumbRead | ReadEof None \<Rightarrow> Inl ThumbNoFrame | ReadEof (Some f) \<Rightarrow> Inr f)"
| "first_frame videoIdx (p # ps) e =
     (if vp_stream p \<noteq> videoIdx then first_frame videoIdx ps e
      else if \<not> vp_sent p then Inl ThumbSend
      else case vp_decoded p of
             Frame f \<Rightarrow> Inr f
           | NeedsMore \<Rightarrow> first_frame videoIdx ps e
           | DecodeFails \<Rightarrow> Inl ThumbReceive)"

definition encode_thumb :: "'f thumb_answers \<Rightarrow> 'f \<Rightarrow> (thumb_error + byte list) av" where
  "encode_thumb a f = do {
     sws \<leftarrow> av_try (ta_scaler a f);
     case sws of
       None \<Rightarrow> State_Monad.return (Inl ThumbScaler)
     | Some sws \<Rightarrow> av_defer sws (do {
         scaled \<leftarrow> av_alloc;
         av_defer scaled
           (if \<not> ta_scale a f then State_Monad.return (Inl ThumbScale)
            else if \<not> ta_encoder a then State_Monad.return (Inl ThumbNoEncoder)
            else do {
              enc \<leftarrow> av_try (ta_allocEncoder a);
              case enc of
                None \<Rightarrow> State_Monad.return (Inl ThumbAllocEncoder)
              | Some enc \<Rightarrow> av_defer enc
                  (if \<not> ta_openEncoder a then State_Monad.return (Inl ThumbOpenEncoder)
                   else if \<not> ta_sendFrame a f then State_Monad.return (Inl ThumbSendFrame)
                   else do {
                     out \<leftarrow> av_alloc;
                     av_defer out (State_Monad.return
                       (case ta_jpeg a f of None \<Rightarrow> Inl ThumbReceivePacket | Some jpeg \<Rightarrow> Inr jpeg))
                   })
            })
       })
   }"

definition thumb_body :: "'f thumb_answers \<Rightarrow> rat \<Rightarrow> (thumb_error + byte list) av" where
  "thumb_body a timeSec =
     (case thumb_stream (ta_streams a) of
        None \<Rightarrow> State_Monad.return (Inl ThumbNoStream)
      | Some s \<Rightarrow>
          if \<not> ta_decoder a then State_Monad.return (Inl ThumbNoDecoder)
          else do {
            dec \<leftarrow> av_try (ta_allocDecoder a);
            case dec of
              None \<Rightarrow> State_Monad.return (Inl ThumbAllocDecoder)
            | Some dec \<Rightarrow> av_defer dec
                (if \<not> ta_params a then State_Monad.return (Inl ThumbDecoderParams)
                 else if \<not> ta_openDecoder a then State_Monad.return (Inl ThumbOpenDecoder)
                 else
                   let target = seek_target timeSec s
                   in if (case target of Some ts \<Rightarrow> \<not> ta_seek a ts | None \<Rightarrow> False) then State_Monad.return (Inl ThumbSeek)
                      else do {
                        pkt \<leftarrow> av_alloc;
                        av_defer pkt (do {
                          frame \<leftarrow> av_alloc;
                          av_defer frame
                            (case ta_reads a target of
                               (ps, e) \<Rightarrow>
                                 (case first_frame (ds_Index s) ps e of
                                    Inl err \<Rightarrow> State_Monad.return (Inl err)
                                  | Inr f \<Rightarrow> encode_thumb a f))
                        })
                      })
          })"

definition Thumbnail :: "'f thumb_answers \<Rightarrow> rat \<Rightarrow> (thumb_error + byte list) av" where
  "Thumbnail a timeSec = with_demux (ta_demux a) ThumbDemux (thumb_body a timeSec)"

text \<open>The result without the objects: the first step that fails, or the picture.\<close>

definition encode_result :: "'f thumb_answers \<Rightarrow> 'f \<Rightarrow> thumb_error + byte list" where
  "encode_result a f =
     (if \<not> ta_scaler a f then Inl ThumbScaler else if \<not> ta_scale a f then Inl ThumbScale
      else if \<not> ta_encoder a then Inl ThumbNoEncoder else if \<not> ta_allocEncoder a then Inl ThumbAllocEncoder
      else if \<not> ta_openEncoder a then Inl ThumbOpenEncoder else if \<not> ta_sendFrame a f then Inl ThumbSendFrame
      else case ta_jpeg a f of None \<Rightarrow> Inl ThumbReceivePacket | Some jpeg \<Rightarrow> Inr jpeg)"

definition thumb_body_result :: "'f thumb_answers \<Rightarrow> rat \<Rightarrow> thumb_error + byte list" where
  "thumb_body_result a timeSec =
     (case thumb_stream (ta_streams a) of
        None \<Rightarrow> Inl ThumbNoStream
      | Some s \<Rightarrow>
          if \<not> ta_decoder a then Inl ThumbNoDecoder else if \<not> ta_allocDecoder a then Inl ThumbAllocDecoder
          else if \<not> ta_params a then Inl ThumbDecoderParams else if \<not> ta_openDecoder a then Inl ThumbOpenDecoder
          else if (case seek_target timeSec s of Some ts \<Rightarrow> \<not> ta_seek a ts | None \<Rightarrow> False) then Inl ThumbSeek
          else case ta_reads a (seek_target timeSec s) of
                 (ps, e) \<Rightarrow> (case first_frame (ds_Index s) ps e of Inl err \<Rightarrow> Inl err | Inr f \<Rightarrow> encode_result a f))"

definition thumb_result :: "'f thumb_answers \<Rightarrow> rat \<Rightarrow> thumb_error + byte list" where
  "thumb_result a timeSec =
     (case demux_error_of (ta_demux a) of Some e \<Rightarrow> Inl (ThumbDemux e) | None \<Rightarrow> thumb_body_result a timeSec)"

lemma encode_thumb_settles: "settles (encode_thumb a f) (encode_result a f)"
  unfolding encode_thumb_def encode_result_def
  by (rule settles_try_defer; (rule settles_eq [OF settles_return], simp)?)
    (rule settles_defer, auto intro!: settles_return settles_try_defer settles_defer)

lemma thumb_body_settles: "settles (thumb_body a timeSec) (thumb_body_result a timeSec)"
proof (cases "thumb_stream (ta_streams a)")
  case None
  then show ?thesis by (simp add: thumb_body_def thumb_body_result_def settles_return)
next
  case (Some s)
  then show ?thesis
    unfolding thumb_body_def thumb_body_result_def Let_def
    by (auto split: prod.split sum.split
        intro!: settles_return settles_try_defer settles_defer encode_thumb_settles)
qed

lemma Thumbnail_settles: "settles (Thumbnail a timeSec) (thumb_result a timeSec)"
  unfolding Thumbnail_def thumb_result_def by (rule with_demux_settles [OF thumb_body_settles])

section \<open>The samples of a time window\<close>

text \<open>
  A decoded audio frame with its time, if it has one. The resampler answers each call, counted from the
  first, with what stops it or with the bytes it gives for a frame, or for its tail when there is none. A
  decoder that was flushed gives its frames and then its end.
\<close>

record 'f audio_frame_in =
  af_time :: "int option"
  af_frame :: 'f

datatype drain_end = DrainAgain | DrainEof | DrainFails

record 'f audio_packet =
  ap_stream :: int
  ap_sent :: bool
  ap_frames :: "'f audio_frame_in list"
  ap_end :: drain_end

datatype 'f audio_read_end = AudioEof "'f audio_frame_in list" bool | AudioReadFails

datatype resample_answer = RsNoBuffer | RsNoConvert | RsEmpty | RsNoSize | RsNoCopy | RsBytes "byte list"

datatype pcm_error =
    PcmDemux demux_error | PcmNoStream | PcmNoDecoder | PcmAllocDecoder | PcmDecoderParams | PcmOpenDecoder
  | PcmRead | PcmSend | PcmReceive | PcmResample resample_answer

record 'f pcm_answers =
  pa_demux :: demux_answers
  pa_streams :: "demux_stream list"
  pa_decoder :: bool
  pa_allocDecoder :: bool
  pa_params :: bool
  pa_openDecoder :: bool
  pa_reads :: "int option \<Rightarrow> 'f audio_packet list \<times> 'f audio_read_end"
  pa_resample :: "nat \<Rightarrow> 'f option \<Rightarrow> resample_answer"

record pcm_state =
  ps_pcm :: "byte list"
  ps_resampled :: bool
  ps_calls :: nat

definition appendResampled ::
  "(nat \<Rightarrow> 'f option \<Rightarrow> resample_answer) \<Rightarrow> 'f option \<Rightarrow> pcm_state \<Rightarrow> pcm_error + pcm_state"
where
  "appendResampled rs inp st =
     (if inp = None \<and> \<not> ps_resampled st then Inr st
      else
        let ans = rs (ps_calls st) inp;
            st1 = st\<lparr>ps_resampled := True, ps_calls := Suc (ps_calls st)\<rparr>
        in case ans of
             RsEmpty \<Rightarrow> Inr st1
           | RsBytes bs \<Rightarrow> Inr (st1\<lparr>ps_pcm := ps_pcm st1 @ bs\<rparr>)
           | _ \<Rightarrow> Inl (PcmResample ans))"

definition past_end :: "demux_stream \<Rightarrow> rat \<Rightarrow> 'f audio_frame_in \<Rightarrow> bool" where
  "past_end s endSec f =
     (0 < ds_tbDen s \<and>
      (case af_time f of
         None \<Rightarrow> False
       | Some pts \<Rightarrow> endSec \<le> of_int pts * of_int (ds_tbNum s) / of_int (ds_tbDen s)))"

text \<open>The inner loop: the frames of one packet, and whether the outer loop is done.\<close>

fun drain_pcm ::
  "(nat \<Rightarrow> 'f option \<Rightarrow> resample_answer) \<Rightarrow> ('f audio_frame_in \<Rightarrow> bool) \<Rightarrow> 'f audio_frame_in list \<Rightarrow> drain_end \<Rightarrow>
   pcm_state \<Rightarrow> pcm_error + pcm_state \<times> bool"
where
  "drain_pcm rs past [] e st =
     (case e of DrainAgain \<Rightarrow> Inr (st, False) | DrainEof \<Rightarrow> Inr (st, True) | DrainFails \<Rightarrow> Inl PcmReceive)"
| "drain_pcm rs past (f # fs) e st =
     (if past f then Inr (st, True)
      else case appendResampled rs (Some (af_frame f)) st of
             Inl err \<Rightarrow> Inl err
           | Inr st1 \<Rightarrow> drain_pcm rs past fs e st1)"

fun pcm_loop ::
  "(nat \<Rightarrow> 'f option \<Rightarrow> resample_answer) \<Rightarrow> ('f audio_frame_in \<Rightarrow> bool) \<Rightarrow> int \<Rightarrow> 'f audio_packet list \<Rightarrow>
   'f audio_read_end \<Rightarrow> pcm_state \<Rightarrow> pcm_error + pcm_state"
where
  "pcm_loop rs past audioIdx [] e st =
     (case e of
        AudioReadFails \<Rightarrow> Inl PcmRead
      | AudioEof fs ok \<Rightarrow>
          (case drain_pcm rs past fs (if ok then DrainEof else DrainFails) st of
             Inl err \<Rightarrow> Inl err | Inr (st1, _) \<Rightarrow> Inr st1))"
| "pcm_loop rs past audioIdx (p # ps) e st =
     (if ap_stream p \<noteq> audioIdx then pcm_loop rs past audioIdx ps e st
      else if \<not> ap_sent p then Inl PcmSend
      else case drain_pcm rs past (ap_frames p) (ap_end p) st of
             Inl err \<Rightarrow> Inl err
           | Inr (st1, done) \<Rightarrow> if done then Inr st1 else pcm_loop rs past audioIdx ps e st1)"

definition audio_stream :: "demux_stream list \<Rightarrow> demux_stream option" where
  "audio_stream ss = List.find (\<lambda>s. ds_Kind s = KAudio) ss"

definition pcm_samples :: "'f pcm_answers \<Rightarrow> rat \<Rightarrow> rat \<Rightarrow> demux_stream \<Rightarrow> pcm_error + byte list" where
  "pcm_samples a startSec durSec s =
     (let past = past_end s (startSec + durSec);
          rs = pa_resample a
      in case pa_reads a (seek_target startSec s) of
           (ps, e) \<Rightarrow>
             (case pcm_loop rs past (ds_Index s) ps e \<lparr>ps_pcm = [], ps_resampled = False, ps_calls = 0\<rparr> of
                Inl err \<Rightarrow> Inl err
              | Inr st \<Rightarrow> map_sum id ps_pcm (appendResampled rs None st)))"

definition pcm_body :: "'f pcm_answers \<Rightarrow> rat \<Rightarrow> rat \<Rightarrow> (pcm_error + byte list) av" where
  "pcm_body a startSec durSec =
     (case audio_stream (pa_streams a) of
        None \<Rightarrow> State_Monad.return (Inl PcmNoStream)
      | Some s \<Rightarrow>
          if \<not> pa_decoder a then State_Monad.return (Inl PcmNoDecoder)
          else do {
            dec \<leftarrow> av_try (pa_allocDecoder a);
            case dec of
              None \<Rightarrow> State_Monad.return (Inl PcmAllocDecoder)
            | Some dec \<Rightarrow> av_defer dec
                (if \<not> pa_params a then State_Monad.return (Inl PcmDecoderParams)
                 else if \<not> pa_openDecoder a then State_Monad.return (Inl PcmOpenDecoder)
                 else do {
                   swr \<leftarrow> av_alloc;
                   av_defer swr (do {
                     pkt \<leftarrow> av_alloc;
                     av_defer pkt (do {
                       decFrame \<leftarrow> av_alloc;
                       av_defer decFrame (do {
                         outFrame \<leftarrow> av_alloc;
                         av_defer outFrame (State_Monad.return (pcm_samples a startSec durSec s))
                       })
                     })
                   })
                 })
          })"

definition AudioPCM :: "'f pcm_answers \<Rightarrow> rat \<Rightarrow> rat \<Rightarrow> (pcm_error + byte list) av" where
  "AudioPCM a startSec durSec = with_demux (pa_demux a) PcmDemux (pcm_body a startSec durSec)"

definition pcm_result :: "'f pcm_answers \<Rightarrow> rat \<Rightarrow> rat \<Rightarrow> pcm_error + byte list" where
  "pcm_result a startSec durSec =
     (case demux_error_of (pa_demux a) of
        Some e \<Rightarrow> Inl (PcmDemux e)
      | None \<Rightarrow>
          (case audio_stream (pa_streams a) of
             None \<Rightarrow> Inl PcmNoStream
           | Some s \<Rightarrow>
               if \<not> pa_decoder a then Inl PcmNoDecoder else if \<not> pa_allocDecoder a then Inl PcmAllocDecoder
               else if \<not> pa_params a then Inl PcmDecoderParams else if \<not> pa_openDecoder a then Inl PcmOpenDecoder
               else pcm_samples a startSec durSec s))"

lemma AudioPCM_settles: "settles (AudioPCM a startSec durSec) (pcm_result a startSec durSec)"
proof -
  have "settles (pcm_body a startSec durSec)
      (case audio_stream (pa_streams a) of
         None \<Rightarrow> Inl PcmNoStream
       | Some s \<Rightarrow>
           if \<not> pa_decoder a then Inl PcmNoDecoder else if \<not> pa_allocDecoder a then Inl PcmAllocDecoder
           else if \<not> pa_params a then Inl PcmDecoderParams else if \<not> pa_openDecoder a then Inl PcmOpenDecoder
           else pcm_samples a startSec durSec s)"
    unfolding pcm_body_def
    by (cases "audio_stream (pa_streams a)") (auto intro!: settles_return settles_try_defer settles_defer)
  from with_demux_settles [OF this] show ?thesis unfolding AudioPCM_def pcm_result_def .
qed

text \<open>Frames fed one after the other, when the resampler gives bytes for each.\<close>

definition fed_bytes :: "(nat \<Rightarrow> 'f option \<Rightarrow> byte list) \<Rightarrow> nat \<Rightarrow> 'f audio_frame_in list \<Rightarrow> byte list" where
  "fed_bytes out k fs = concat (map (\<lambda>(i, f). out i (Some (af_frame f))) (enumerate k fs))"

definition fed_state :: "(nat \<Rightarrow> 'f option \<Rightarrow> byte list) \<Rightarrow> 'f audio_frame_in list \<Rightarrow> pcm_state \<Rightarrow> pcm_state" where
  "fed_state out fs st =
     \<lparr>ps_pcm = ps_pcm st @ fed_bytes out (ps_calls st) fs, ps_resampled = (ps_resampled st \<or> fs \<noteq> []),
      ps_calls = ps_calls st + length fs\<rparr>"

lemma fed_bytes_simps [simp]:
  "fed_bytes out k [] = []" "fed_bytes out k (f # fs) = out k (Some (af_frame f)) @ fed_bytes out (Suc k) fs"
  by (simp_all add: fed_bytes_def)

lemma fed_state_Nil [simp]: "fed_state out [] st = st"
  by (simp add: fed_state_def)

lemma fed_state_append: "fed_state out gs (fed_state out fs st) = fed_state out (fs @ gs) st"
proof -
  have "fed_bytes out k (fs @ gs) = fed_bytes out k fs @ fed_bytes out (k + length fs) gs" for k
    by (induction fs arbitrary: k) simp_all
  then show ?thesis by (simp add: fed_state_def)
qed

lemma drain_pcm_eq:
  assumes "\<And>n x. rs n x = RsBytes (out n x)"
  shows "drain_pcm rs past fs e st =
    (if \<forall>f \<in> set fs. \<not> past f
     then (case e of DrainAgain \<Rightarrow> Inr (fed_state out fs st, False) | DrainEof \<Rightarrow> Inr (fed_state out fs st, True)
           | DrainFails \<Rightarrow> Inl PcmReceive)
     else Inr (fed_state out (takeWhile (\<lambda>f. \<not> past f) fs) st, True))"
proof (induction fs arbitrary: st)
  case (Cons f fs)
  have "appendResampled rs (Some (af_frame f)) st = Inr (fed_state out [f] st)"
    by (simp add: appendResampled_def assms fed_state_def Let_def)
  with Cons show ?case using fed_state_append [of out _ "[f]" st] by (auto split: drain_end.splits)
qed (simp split: drain_end.splits)

definition audio_frames :: "int \<Rightarrow> 'f audio_packet list \<Rightarrow> 'f audio_frame_in list" where
  "audio_frames idx ps = concat (map ap_frames (filter (\<lambda>p. ap_stream p = idx) ps))"

lemma pcm_loop_eq:
  assumes "\<And>n x. rs n x = RsBytes (out n x)"
    and "\<And>p. p \<in> set ps \<Longrightarrow> ap_stream p = idx \<Longrightarrow> ap_sent p \<and> ap_end p = DrainAgain"
  shows "pcm_loop rs past idx ps (AudioEof rest True) st =
    Inr (fed_state out (takeWhile (\<lambda>f. \<not> past f) (audio_frames idx ps @ rest)) st)"
  using assms(2)
proof (induction ps arbitrary: st)
  case Nil
  have "drain_pcm rs past rest DrainEof st = Inr (fed_state out (takeWhile (\<lambda>f. \<not> past f) rest) st, True)"
  proof (cases "\<forall>f \<in> set rest. \<not> past f")
    case True
    then show ?thesis by (simp add: drain_pcm_eq [OF assms(1)] takeWhile_eq_all_conv [THEN iffD2])
  next
    case False
    show ?thesis by (simp only: drain_pcm_eq [OF assms(1)] False if_False)
  qed
  then show ?case by (simp add: audio_frames_def)
next
  case (Cons p ps)
  have IH: "pcm_loop rs past idx ps (AudioEof rest True) st =
      Inr (fed_state out (takeWhile (\<lambda>f. \<not> past f) (audio_frames idx ps @ rest)) st)" for st
    by (rule Cons.IH) (rule Cons.prems, simp_all)
  show ?case
  proof (cases "ap_stream p = idx")
    case True
    then have p: "ap_sent p" "ap_end p = DrainAgain" using Cons.prems by auto
    have fr: "audio_frames idx (p # ps) = ap_frames p @ audio_frames idx ps" using True by (simp add: audio_frames_def)
    note step = pcm_loop.simps(2) drain_pcm_eq [OF assms(1)] p True
    show ?thesis
    proof (cases "\<forall>f \<in> set (ap_frames p). \<not> past f")
      case all: True
      then have "takeWhile (\<lambda>f. \<not> past f) (ap_frames p @ xs) = ap_frames p @ takeWhile (\<lambda>f. \<not> past f) xs" for xs
        by (intro takeWhile_append2) blast
      then show ?thesis using all by (simp add: step fr IH fed_state_append)
    next
      case False
      then have "takeWhile (\<lambda>f. \<not> past f) (ap_frames p @ xs) = takeWhile (\<lambda>f. \<not> past f) (ap_frames p)" for xs
        by (metis takeWhile_append1)
      moreover have "(\<forall>f \<in> set (ap_frames p). \<not> past f) = False" using False by blast
      ultimately show ?thesis by (simp only: step fr append_assoc) simp
    qed
  next
    case False
    then show ?thesis by (simp add: IH audio_frames_def)
  qed
qed

text \<open>
  What the fingerprinter is given, when nothing fails: the resampled frames of the audio stream from where
  the seek landed up to the first frame at or past the end of the window, and the tail of the resampler.
  Where the window starts is not looked at again: frames that lie before it are part of the samples.
\<close>

theorem pcm_samples_eq:
  assumes "\<And>n x. pa_resample a n x = RsBytes (out n x)" "pa_reads a (seek_target startSec s) = (ps, AudioEof rest True)"
    and "\<And>p. p \<in> set ps \<Longrightarrow> ap_stream p = ds_Index s \<Longrightarrow> ap_sent p \<and> ap_end p = DrainAgain"
    and "kept = takeWhile (\<lambda>f. \<not> past_end s (startSec + durSec) f) (audio_frames (ds_Index s) ps @ rest)"
  shows "pcm_samples a startSec durSec s =
    Inr (fed_bytes out 0 kept @ (if kept = [] then [] else out (length kept) None))"
  using pcm_loop_eq [where rs = "pa_resample a" and out = out and ps = ps and idx = "ds_Index s" and past = "past_end s (startSec + durSec)" and rest = rest
      and st = "\<lparr>ps_pcm = [], ps_resampled = False, ps_calls = 0\<rparr>", OF assms(1) assms(3)]
  by (simp add: pcm_samples_def Let_def assms(1,2) assms(4) [symmetric] appendResampled_def fed_state_def)

text \<open>A frame without a time never ends the window: a stream without times is decoded to its end.\<close>

lemma timeless_frames_never_end: "af_time f = None \<Longrightarrow> \<not> past_end s endSec f"
  by (simp add: past_end_def)

end
