(* ===== verification/SegmentRun.thy ===== *)
theory SegmentRun
  imports AudioEncoder Extract Gates
begin

text \<open>
  A whole call of \<^verbatim>\<open>InitSegment\<close> and \<^verbatim>\<open>Segment\<close> (\<^verbatim>\<open>media/segment.go\<close>, \<^verbatim>\<open>media/output.go\<close>): the slot of the transcode
  gate, the input, the output, the plan with its encoders, the packet loop that dispatches to them, the flush
  and the release of everything. It composes the gate, the demuxer input and both encoders, which share one
  writer; what libav answers is a record.
\<close>

section \<open>The output\<close>

record output_answers =
  oa_error :: bool
  oa_some :: bool
  oa_io :: bool

datatype segment_error =
    SegNoStreams | SegGate ctx_error | SegDemux demux_error | SegOutputAlloc | SegOutputNil | SegOutputIO
  | SegStreamRange int | SegVideo venc_error | SegAudio aenc_error | SegNewStream | SegCopyParams int | SegPanic
  | SegDict | SegHeader | SegSeek | SegRead | SegFeedVideo video_error | SegFeedAudio audio_error
  | SegWrite media_error | SegTrailer

definition openOutput :: "output_answers \<Rightarrow> (segment_error + handle \<times> handle) av" where
  "openOutput a =
     (if oa_error a then State_Monad.return (Inl SegOutputAlloc)
      else do {
        ofc \<leftarrow> av_try (oa_some a);
        case ofc of
          None \<Rightarrow> State_Monad.return (Inl SegOutputNil)
        | Some ofc \<Rightarrow> do {
            io \<leftarrow> av_try (oa_io a);
            case io of
              None \<Rightarrow> do { av_free ofc; State_Monad.return (Inl SegOutputIO) }
            | Some io \<Rightarrow> State_Monad.return (Inr (ofc, io))
          }
      })"

definition output_cleanup :: "handle \<times> handle \<Rightarrow> unit av" where
  "output_cleanup o' = (case o' of (ofc, io) \<Rightarrow> do { av_free ofc; av_free io })"

definition with_output :: "output_answers \<Rightarrow> (segment_error \<Rightarrow> 'e) \<Rightarrow> ('e + 'a) av \<Rightarrow> ('e + 'a) av" where
  "with_output a err body = do {
     o' \<leftarrow> openOutput a;
     case o' of
       Inl e \<Rightarrow> State_Monad.return (Inl (err e))
     | Inr o' \<Rightarrow> do { r \<leftarrow> body; output_cleanup o'; State_Monad.return r }
   }"

lemma openOutput_owns: "owns {#} (openOutput a) (own_result (\<lambda>(ofc, io). {#io, ofc#}))"
  unfolding openOutput_def
  by (auto intro!: owns_try_then owns_return owns_free_head)

lemma with_output_owns:
  assumes "owns {#} body (\<lambda>_. {#})"
  shows "owns {#} (with_output a err body) (\<lambda>_. {#})"
  unfolding with_output_def
proof (rule owns_bind [OF openOutput_owns], rule owns_sum)
  fix r :: "segment_error + handle \<times> handle" and e assume "r = Inl e"
  then show "owns (own_result (\<lambda>(ofc, io). {#io, ofc#}) r) (State_Monad.return (Inl (err e))) (\<lambda>_. {#})"
    by (simp add: owns_return)
next
  fix r :: "segment_error + handle \<times> handle" and x assume r: "r = Inr x"
  obtain ofc io where x: "x = (ofc, io)" by fastforce
  have "owns {#io, ofc#} body (\<lambda>_. {#io, ofc#})" using owns_frame [OF assms, of "{#io, ofc#}"] by simp
  then show "owns (own_result (\<lambda>(ofc, io). {#io, ofc#}) r) (do { r \<leftarrow> body; output_cleanup x; State_Monad.return r }) (\<lambda>_. {#})"
    by (simp add: r x output_cleanup_def) (auto intro!: owns_bind owns_free_then owns_free owns_return)
qed

section \<open>The plan with its encoders\<close>

text \<open>
  The maps of \<^verbatim>\<open>buildOutputPlan\<close> as association lists, which a second entry for a stream overwrites, and the
  number of output streams so far. What libav answers is given per input stream.
\<close>

record plan_state =
  pl_copy :: "int \<rightharpoonup> int"
  pl_video :: "(int \<times> videoEncoder) list"
  pl_audio :: "(int \<times> audioEncoder) list"
  pl_outs :: nat

record plan_answers =
  pa_video :: "int \<Rightarrow> video_env"
  pa_audio :: "int \<Rightarrow> audio_env"
  pa_newStream :: "int \<Rightarrow> bool"
  pa_copyParams :: "int \<Rightarrow> bool"

definition no_plan :: plan_state where
  "no_plan = \<lparr>pl_copy = (\<lambda>_. None), pl_video = [], pl_audio = [], pl_outs = 0\<rparr>"

fun free_videos :: "(int \<times> videoEncoder) list \<Rightarrow> unit av" where
  "free_videos [] = State_Monad.return ()"
| "free_videos ((si, v) # vs) = do { video_free v; free_videos vs }"

fun free_audios :: "(int \<times> audioEncoder) list \<Rightarrow> unit av" where
  "free_audios [] = State_Monad.return ()"
| "free_audios ((si, a) # as) = do { audio_free a; free_audios as }"

definition freeAll :: "plan_state \<Rightarrow> unit av" where
  "freeAll pl = do { free_videos (pl_video pl); free_audios (pl_audio pl) }"

text \<open>The next output stream of the container has the next index, when there is one.\<close>

definition next_stream :: "plan_state \<Rightarrow> int option \<Rightarrow> int option" where
  "next_stream pl answer = map_option (\<lambda>_. int (pl_outs pl)) answer"

definition encodes_video :: "bool \<Rightarrow> demux_stream \<Rightarrow> bool" where
  "encodes_video transcodeVideo s \<longleftrightarrow> ds_Kind s = KVideo \<and> (transcodeVideo \<or> ds_Codec s \<noteq> ''h264'')"

definition encodes_audio :: "demux_stream \<Rightarrow> bool" where
  "encodes_audio s \<longleftrightarrow> ds_Kind s = KAudio \<and> ds_Codec s \<noteq> ''aac''"

fun plan_streams ::
  "plan_answers \<Rightarrow> demux_stream list \<Rightarrow> int \<Rightarrow> int \<Rightarrow> bool \<Rightarrow> int list \<Rightarrow> plan_state \<Rightarrow> (segment_error + plan_state) av"
where
  "plan_streams e ins startTS endTS tv [] pl = State_Monad.return (Inr pl)"
| "plan_streams e ins startTS endTS tv (si # sis) pl =
     (if si < 0 \<or> int (length ins) \<le> si then do { freeAll pl; State_Monad.return (Inl (SegStreamRange si)) }
      else if encodes_video tv (ins ! nat si) then do {
        r \<leftarrow> newVideoEncoder ((pa_video e si)\<lparr>vv_newStream := next_stream pl (vv_newStream (pa_video e si))\<rparr>)
              startTS endTS newFragWriter;
        case r of
          Inl err \<Rightarrow> do { freeAll pl; State_Monad.return (Inl (SegVideo err)) }
        | Inr v \<Rightarrow> plan_streams e ins startTS endTS tv sis
                     (pl\<lparr>pl_video := AList.update si v (pl_video pl), pl_outs := Suc (pl_outs pl)\<rparr>)
      }
      else if encodes_audio (ins ! nat si) then do {
        r \<leftarrow> newAudioEncoder ((pa_audio e si)\<lparr>au_newStream := next_stream pl (au_newStream (pa_audio e si))\<rparr>)
              startTS endTS newFragWriter;
        case r of
          Inl err \<Rightarrow> do { freeAll pl; State_Monad.return (Inl (SegAudio err)) }
        | Inr a \<Rightarrow> plan_streams e ins startTS endTS tv sis
                     (pl\<lparr>pl_audio := AList.update si a (pl_audio pl), pl_outs := Suc (pl_outs pl)\<rparr>)
      }
      else if \<not> pa_newStream e si then do { freeAll pl; State_Monad.return (Inl SegNewStream) }
      else if \<not> pa_copyParams e si then do { freeAll pl; State_Monad.return (Inl (SegCopyParams si)) }
      else plan_streams e ins startTS endTS tv sis
             (pl\<lparr>pl_copy := (pl_copy pl)(si \<mapsto> int (pl_outs pl)), pl_outs := Suc (pl_outs pl)\<rparr>))"

section \<open>What a plan holds\<close>

definition own_videos :: "(int \<times> videoEncoder) list \<Rightarrow> handle multiset" where
  "own_videos vs = sum_list (map (own_video \<circ> snd) vs)"

definition own_audios :: "(int \<times> audioEncoder) list \<Rightarrow> handle multiset" where
  "own_audios as = sum_list (map (own_audio \<circ> snd) as)"

definition own_plan :: "plan_state \<Rightarrow> handle multiset" where
  "own_plan pl = own_videos (pl_video pl) + own_audios (pl_audio pl)"

lemma own_lists_simps [simp]:
  "own_videos [] = {#}" "own_videos ((si, v) # vs) = own_video v + own_videos vs"
  "own_audios [] = {#}" "own_audios ((si, a) # as) = own_audio a + own_audios as"
  by (simp_all add: own_videos_def own_audios_def)

lemma own_fresh_video: "si \<notin> fst ` set vs \<Longrightarrow> own_videos (AList.update si v vs) = own_video v + own_videos vs"
  by (induction vs) (auto simp: ac_simps)

lemma own_fresh_audio: "si \<notin> fst ` set as \<Longrightarrow> own_audios (AList.update si a as) = own_audio a + own_audios as"
  by (induction as) (auto simp: ac_simps)

lemma own_replaced_video:
  "distinct (map fst vs) \<Longrightarrow> map_of vs si = Some v \<Longrightarrow>
     own_videos (AList.update si v' vs) + own_video v = own_videos vs + own_video v'"
  by (induction vs) (auto simp: ac_simps)

lemma own_replaced_audio:
  "distinct (map fst as) \<Longrightarrow> map_of as si = Some a \<Longrightarrow>
     own_audios (AList.update si a' as) + own_audio a = own_audios as + own_audio a'"
  by (induction as) (auto simp: ac_simps)

lemma free_videos_owns: "owns (own_videos vs + A) (free_videos vs) (\<lambda>_. A)"
proof (induction vs)
  case (Cons x vs)
  obtain si v where x: "x = (si, v)" by fastforce
  have "owns (own_video v + (own_videos vs + A)) (do { video_free v; free_videos vs }) (\<lambda>_. A)"
    by (rule owns_bind [OF video_free_owns]) (rule Cons)
  then show ?case by (simp add: x add.assoc)
qed (simp add: owns_return)

lemma free_audios_owns: "owns (own_audios as + A) (free_audios as) (\<lambda>_. A)"
proof (induction as)
  case (Cons x as)
  obtain si a where x: "x = (si, a)" by fastforce
  have "owns (own_audio a + (own_audios as + A)) (audio_free a) (\<lambda>_. own_audios as + A)"
    using owns_frame [OF audio_free_owns [of a], of "own_audios as + A"] by simp
  then have "owns (own_audio a + (own_audios as + A)) (do { audio_free a; free_audios as }) (\<lambda>_. A)"
    by (rule owns_bind) (rule Cons)
  then show ?case by (simp add: x add.assoc)
qed (simp add: owns_return)

lemma freeAll_then:
  assumes "owns A (f ()) B"
  shows "owns (own_plan pl + A) (State_Monad.bind (freeAll pl) f) B"
proof -
  have "owns (own_plan pl + A) (freeAll pl) (\<lambda>_. A)"
    unfolding freeAll_def own_plan_def add.assoc by (rule owns_bind [OF free_videos_owns free_audios_owns])
  then show ?thesis by (rule owns_bind) (simp add: assms)
qed

lemma owns_bind_gives:
  assumes "owns A m B" "gives m P" "\<And>r. P r \<Longrightarrow> owns (B r) (f r) C"
  shows "owns A (State_Monad.bind m f) C"
  unfolding owns_def State_Monad.bind_def
proof (intro allI impI)
  fix h :: av_heap and F assume h: "av_live h = A + F"
  let ?r = "fst (run_state m h)" and ?h = "snd (run_state m h)"
  have 1: "av_live ?h = B ?r + F \<and> av_bad ?h = av_bad h" using assms(1) h by (simp add: owns_def)
  have "owns (B ?r) (f ?r) C" using assms(2) by (intro assms(3)) (simp add: gives_def)
  with 1 show "av_live (snd (run_state (State (\<lambda>s. case run_state m s of (x, s') \<Rightarrow> run_state (f x) s')) h)) =
      C (fst (run_state (State (\<lambda>s. case run_state m s of (x, s') \<Rightarrow> run_state (f x) s')) h)) + F \<and>
      av_bad (snd (run_state (State (\<lambda>s. case run_state m s of (x, s') \<Rightarrow> run_state (f x) s')) h)) = av_bad h"
    by (simp add: owns_def split_beta)
qed

definition plan_keys :: "plan_state \<Rightarrow> int list" where
  "plan_keys pl = map fst (pl_video pl) @ map fst (pl_audio pl)"

definition plan_ok :: "plan_state \<Rightarrow> bool" where
  "plan_ok pl \<longleftrightarrow> distinct (map fst (pl_video pl)) \<and> distinct (map fst (pl_audio pl))"

lemma plan_ok_none: "plan_ok no_plan"
  by (simp add: plan_ok_def no_plan_def)

lemma own_none [simp]: "own_plan no_plan = {#}"
  by (simp add: own_plan_def no_plan_def)

lemma own_plan_updates [simp]: "own_plan (pl\<lparr>pl_copy := c\<rparr>) = own_plan pl" "own_plan (pl\<lparr>pl_outs := n\<rparr>) = own_plan pl"
  by (simp_all add: own_plan_def)

lemma plan_streams_gives: "plan_ok pl \<Longrightarrow> gives (plan_streams e ins a b tv sis pl) (\<lambda>r. \<forall>pl'. r = Inr pl' \<longrightarrow> plan_ok pl')"
proof (induction sis arbitrary: pl)
  case (Cons si sis)
  have "plan_ok (pl\<lparr>pl_video := AList.update si v (pl_video pl), pl_outs := n\<rparr>)"
    "plan_ok (pl\<lparr>pl_audio := AList.update si w (pl_audio pl), pl_outs := n\<rparr>)"
    "plan_ok (pl\<lparr>pl_copy := c, pl_outs := n\<rparr>)" for v w c n
    using Cons.prems by (simp_all add: plan_ok_def distinct_update)
  then show ?case
    by (auto intro!: gives_if gives_then gives_return Cons.IH split: sum.split)
qed (simp add: gives_return)

lemma plan_streams_owns:
  assumes "\<And>si. cpu_codec (vv_build (pa_video e si)) \<noteq> Some ''h264_vaapi''"
  shows "distinct sis \<Longrightarrow> set sis \<inter> set (plan_keys pl) = {} \<Longrightarrow>
    owns (own_plan pl) (plan_streams e ins a b tv sis pl) (own_result own_plan)"
proof (induction sis arbitrary: pl)
  case Nil
  then show ?case by (simp add: owns_return)
next
  case (Cons si sis)
  have fail: "owns (own_plan pl) (do { freeAll pl; State_Monad.return (Inl err) }) (own_result own_plan)" for err
    using freeAll_then [of "{#}" "\<lambda>_. State_Monad.return (Inl err)" "own_result own_plan" pl] by (simp add: owns_return)
  have fresh: "si \<notin> fst ` set (pl_video pl)" "si \<notin> fst ` set (pl_audio pl)"
    using Cons.prems(2) by (auto simp: plan_keys_def)
  have rest: "owns (own_plan pl') (plan_streams e ins a b tv sis pl') (own_result own_plan)"
    if "set (plan_keys pl') \<subseteq> insert si (set (plan_keys pl))" for pl'
    using that Cons.prems by (intro Cons.IH) auto
  have video: "owns (own_plan pl)
      (do { r \<leftarrow> newVideoEncoder env a b newFragWriter;
            case r of Inl err \<Rightarrow> do { freeAll pl; State_Monad.return (Inl (SegVideo err)) }
            | Inr v \<Rightarrow> plan_streams e ins a b tv sis (pl\<lparr>pl_video := AList.update si v (pl_video pl), pl_outs := Suc (pl_outs pl)\<rparr>) })
      (own_result own_plan)" if "cpu_codec (vv_build env) \<noteq> Some ''h264_vaapi''" for env
  proof (rule owns_bind)
    show "owns (own_plan pl) (newVideoEncoder env a b newFragWriter) (\<lambda>r. own_result own_video r + own_plan pl)"
      using owns_frame [OF newVideoEncoder_owns [OF that], of "own_plan pl"] by simp
    fix r
    show "owns (own_result own_video r + own_plan pl)
        (case r of Inl err \<Rightarrow> do { freeAll pl; State_Monad.return (Inl (SegVideo err)) }
         | Inr v \<Rightarrow> plan_streams e ins a b tv sis (pl\<lparr>pl_video := AList.update si v (pl_video pl), pl_outs := Suc (pl_outs pl)\<rparr>))
        (own_result own_plan)"
    proof (cases r)
      case (Inr v)
      let ?pl = "pl\<lparr>pl_video := AList.update si v (pl_video pl), pl_outs := Suc (pl_outs pl)\<rparr>"
      have "own_video v + own_plan pl = own_plan ?pl"
        using fresh by (simp add: own_plan_def own_fresh_video ac_simps)
      moreover have "owns (own_plan ?pl) (plan_streams e ins a b tv sis ?pl) (own_result own_plan)"
        by (rule rest) (auto simp: plan_keys_def dom_update)
      ultimately show ?thesis by (simp add: Inr)
    qed (simp add: fail)
  qed
  have audio: "owns (own_plan pl)
      (do { r \<leftarrow> newAudioEncoder env a b newFragWriter;
            case r of Inl err \<Rightarrow> do { freeAll pl; State_Monad.return (Inl (SegAudio err)) }
            | Inr v \<Rightarrow> plan_streams e ins a b tv sis (pl\<lparr>pl_audio := AList.update si v (pl_audio pl), pl_outs := Suc (pl_outs pl)\<rparr>) })
      (own_result own_plan)" for env
  proof (rule owns_bind)
    show "owns (own_plan pl) (newAudioEncoder env a b newFragWriter) (\<lambda>r. own_result own_audio r + own_plan pl)"
      using owns_frame [OF newAudioEncoder_owns, of "own_plan pl"] by simp
    fix r
    show "owns (own_result own_audio r + own_plan pl)
        (case r of Inl err \<Rightarrow> do { freeAll pl; State_Monad.return (Inl (SegAudio err)) }
         | Inr v \<Rightarrow> plan_streams e ins a b tv sis (pl\<lparr>pl_audio := AList.update si v (pl_audio pl), pl_outs := Suc (pl_outs pl)\<rparr>))
        (own_result own_plan)"
    proof (cases r)
      case (Inr v)
      let ?pl = "pl\<lparr>pl_audio := AList.update si v (pl_audio pl), pl_outs := Suc (pl_outs pl)\<rparr>"
      have "own_audio v + own_plan pl = own_plan ?pl"
        using fresh by (simp add: own_plan_def own_fresh_audio ac_simps)
      moreover have "owns (own_plan ?pl) (plan_streams e ins a b tv sis ?pl) (own_result own_plan)"
        by (rule rest) (auto simp: plan_keys_def dom_update)
      ultimately show ?thesis by (simp add: Inr)
    qed (simp add: fail)
  qed
  have copy: "owns (own_plan pl) (plan_streams e ins a b tv sis
      (pl\<lparr>pl_copy := (pl_copy pl)(si \<mapsto> int (pl_outs pl)), pl_outs := Suc (pl_outs pl)\<rparr>)) (own_result own_plan)"
    using rest [of "pl\<lparr>pl_copy := (pl_copy pl)(si \<mapsto> int (pl_outs pl)), pl_outs := Suc (pl_outs pl)\<rparr>"]
    by (simp add: plan_keys_def own_plan_def subset_insertI)
  show ?case
    by (simp only: plan_streams.simps) (intro owns_if fail video audio copy, use assms in simp)
qed

text \<open>
  A stream that is asked for twice would overwrite its first encoder, which is then never freed: the callers
  ask for each stream once.
\<close>

section \<open>The packet loop over the encoders\<close>

text \<open>
  One event of the demuxer: a packet, with what the encoder of its stream answers if it has one, and the
  failures of the writer if it is copied. The encoders hold a pointer to the one writer of the segment: it is
  handed to an encoder before a call and taken back after it.
\<close>

datatype seg_read = SegReadFails | SegPacket packet feed_run audio_feed_run "bool \<times> bool"

record seg_run =
  ru_plan :: plan_state
  ru_fw :: fragWriter
  ru_lastDTS :: "int \<rightharpoonup> int"

record run_answers =
  rn_rescale :: "int \<Rightarrow> int \<Rightarrow> packet \<Rightarrow> packet"
  rn_time :: "int \<Rightarrow> int \<Rightarrow> int"
  rn_seed :: "int \<Rightarrow> int \<Rightarrow> int"
  rn_reads :: "seg_read list"
  rn_flushVideo :: "int \<Rightarrow> flush_run"
  rn_flushAudio :: "int \<Rightarrow> (nat \<Rightarrow> drain_run) \<times> enc_run"
  rn_werrs :: "bool list"
  rn_setOpts :: bool
  rn_header :: bool
  rn_seek :: "int \<Rightarrow> int \<Rightarrow> bool"
  rn_trailer :: bool
  rn_mux :: "packet list \<Rightarrow> byte list"
  rn_init :: "byte list"

definition put_video :: "int \<Rightarrow> videoEncoder \<Rightarrow> seg_run \<Rightarrow> seg_run" where
  "put_video si v st =
     st\<lparr>ru_plan := (ru_plan st)\<lparr>pl_video := AList.update si v (pl_video (ru_plan st))\<rparr>, ru_fw := ve_w v\<rparr>"

definition put_audio :: "int \<Rightarrow> audioEncoder \<Rightarrow> seg_run \<Rightarrow> seg_run" where
  "put_audio si a st =
     st\<lparr>ru_plan := (ru_plan st)\<lparr>pl_audio := AList.update si a (pl_audio (ru_plan st))\<rparr>, ru_fw := ae_w a\<rparr>"

type_synonym run_outcome = "seg_run \<times> segment_error option"

definition feed_video :: "run_answers \<Rightarrow> int \<Rightarrow> feed_run \<Rightarrow> videoEncoder \<Rightarrow> seg_run \<Rightarrow> run_outcome av" where
  "feed_video e si d v st = do {
     r \<leftarrow> video_feed (rn_time e si) d (v\<lparr>ve_w := ru_fw st\<rparr>);
     State_Monad.return (put_video si (fst r) st, map_option SegFeedVideo (snd r))
   }"

definition feed_audio :: "run_answers \<Rightarrow> int \<Rightarrow> audio_feed_run \<Rightarrow> audioEncoder \<Rightarrow> seg_run \<Rightarrow> run_outcome" where
  "feed_audio e si d a st =
     (let r = audio_feed (rn_seed e si) d (a\<lparr>ae_w := ru_fw st\<rparr>)
      in (put_audio si (fst r) st, map_option SegFeedAudio (snd r)))"

definition copy_packet ::
  "run_answers \<Rightarrow> segment_plan \<Rightarrow> packet \<Rightarrow> bool \<times> bool \<Rightarrow> seg_run \<Rightarrow> run_outcome"
where
  "copy_packet e plan pkt flt st =
     (case sp_copyMap plan (pk_stream pkt) of
        None \<Rightarrow> (st, None)
      | Some outIdx \<Rightarrow>
          if trimmed plan pkt then (st, None)
          else
            let (p, lst) = sanitizeCopyDTS (rn_rescale e (pk_stream pkt) outIdx (pkt\<lparr>pk_stream := outIdx\<rparr>)) outIdx (ru_lastDTS st);
                (fw, err) = fragWriter_write (fst flt) (snd flt) p (ru_fw st)
            in (st\<lparr>ru_fw := fw, ru_lastDTS := lst\<rparr>, map_option SegWrite err))"

definition and_then :: "run_outcome \<Rightarrow> (seg_run \<Rightarrow> run_outcome av) \<Rightarrow> run_outcome av" where
  "and_then r f = (case r of (st, Some err) \<Rightarrow> State_Monad.return (st, Some err) | (st, None) \<Rightarrow> f st)"

fun segment_run :: "run_answers \<Rightarrow> segment_plan \<Rightarrow> seg_read list \<Rightarrow> seg_run \<Rightarrow> run_outcome av" where
  "segment_run e plan [] st = State_Monad.return (st, None)"
| "segment_run e plan (SegReadFails # evs) st = State_Monad.return (st, Some SegRead)"
| "segment_run e plan (SegPacket raw fd afd flt # evs) st =
     (let pkt = effective plan raw; si = pk_stream pkt
      in if ends_segment plan pkt then State_Monad.return (st, None)
         else case map_of (pl_video (ru_plan st)) si of
                Some v \<Rightarrow> do { r \<leftarrow> feed_video e si fd v st; and_then r (segment_run e plan evs) }
              | None \<Rightarrow>
                  (case map_of (pl_audio (ru_plan st)) si of
                     Some a \<Rightarrow> and_then (feed_audio e si afd a st) (segment_run e plan evs)
                   | None \<Rightarrow> and_then (copy_packet e plan pkt flt st) (segment_run e plan evs)))"

fun flush_videos :: "run_answers \<Rightarrow> int list \<Rightarrow> seg_run \<Rightarrow> run_outcome av" where
  "flush_videos e [] st = State_Monad.return (st, None)"
| "flush_videos e (si # sis) st =
     (case map_of (pl_video (ru_plan st)) si of
        None \<Rightarrow> flush_videos e sis st
      | Some v \<Rightarrow> do {
          r \<leftarrow> video_flush (rn_time e si) (rn_flushVideo e si) (v\<lparr>ve_w := ru_fw st\<rparr>);
          and_then (put_video si (fst r) st, map_option SegFeedVideo (snd r)) (flush_videos e sis)
        })"

fun flush_audios :: "run_answers \<Rightarrow> int list \<Rightarrow> seg_run \<Rightarrow> run_outcome" where
  "flush_audios e [] st = (st, None)"
| "flush_audios e (si # sis) st =
     (case map_of (pl_audio (ru_plan st)) si of
        None \<Rightarrow> flush_audios e sis st
      | Some a \<Rightarrow>
          (case audio_flush (fst (rn_flushAudio e si)) (snd (rn_flushAudio e si)) (a\<lparr>ae_w := ru_fw st\<rparr>) of
             (a1, Some err) \<Rightarrow> (put_audio si a1 st, Some (SegFeedAudio err))
           | (a1, None) \<Rightarrow> flush_audios e sis (put_audio si a1 st)))"

text \<open>From the first packet to the trailer: the packets the muxer accepted.\<close>

definition segment_packets :: "run_answers \<Rightarrow> segment_plan \<Rightarrow> plan_state \<Rightarrow> (plan_state \<times> (segment_error + packet list)) av" where
  "segment_packets e plan pl = do {
     r \<leftarrow> segment_run e plan (rn_reads e) \<lparr>ru_plan = pl, ru_fw = newFragWriter, ru_lastDTS = (\<lambda>_. None)\<rparr>;
     v \<leftarrow> and_then r (\<lambda>st. flush_videos e (map fst (pl_video (ru_plan st))) st);
     a \<leftarrow> and_then v (\<lambda>st. State_Monad.return (flush_audios e (map fst (pl_audio (ru_plan st))) st));
     State_Monad.return (ru_plan (fst a),
       case a of
         (st, Some err) \<Rightarrow> Inl err
       | (st, None) \<Rightarrow>
           (case fragWriter_finish (rn_werrs e) (ru_fw st) of
              (fw, Some err) \<Rightarrow> Inl (SegWrite err)
            | (fw, None) \<Rightarrow> if rn_trailer e then Inr (fw_out fw) else Inl SegTrailer))
   }"

section \<open>The whole call\<close>

definition to_ticks :: "demux_stream \<Rightarrow> rat \<Rightarrow> int" where
  "to_ticks s sec = trunc_rat (sec * of_int (ds_tbDen s) / of_int (ds_tbNum s))"

text \<open>The stream to seek on: the first proper video stream, when the primary stream is not a video.\<close>

definition seek_stream :: "demux_stream list \<Rightarrow> int \<Rightarrow> int \<times> demux_stream" where
  "seek_stream ins primary =
     (let p = ins ! nat primary
      in if ds_Kind p = KVideo then (primary, p)
         else (case List.find (\<lambda>s. ds_Kind s = KVideo \<and> \<not> ds_AttachedPic s) ins of
                 Some s \<Rightarrow> (ds_Index s, s) | None \<Rightarrow> (primary, p)))"

definition plan_of :: "demux_stream list \<Rightarrow> int \<Rightarrow> int \<Rightarrow> int \<Rightarrow> plan_state \<Rightarrow> segment_plan" where
  "plan_of ins primary startTS endTS pl =
     \<lparr>sp_primary = primary, sp_startTS = startTS, sp_endTS = endTS, sp_copyMap = pl_copy pl,
      sp_encoders = plan_keys pl, sp_audio = (\<lambda>si. ds_Kind (ins ! nat si) = KAudio)\<rparr>"

definition segment_mux ::
  "run_answers \<Rightarrow> segment_plan \<Rightarrow> int \<Rightarrow> int \<Rightarrow> plan_state \<Rightarrow> (plan_state \<times> (segment_error + byte list)) av"
where
  "segment_mux e plan seekIdx seekTS pl = do {
     dict \<leftarrow> av_alloc;
     av_defer dict
       (if \<not> rn_setOpts e then State_Monad.return (pl, Inl SegDict)
        else if \<not> rn_header e then State_Monad.return (pl, Inl SegHeader)
        else if \<not> rn_seek e seekIdx seekTS then State_Monad.return (pl, Inl SegSeek)
        else do {
          pkt \<leftarrow> av_alloc;
          av_defer pkt (do {
            r \<leftarrow> segment_packets e plan pl;
            State_Monad.return (fst r,
              case snd r of
                Inl err \<Rightarrow> Inl err
              | Inr ps \<Rightarrow> (case stripInit (rn_mux e ps) of None \<Rightarrow> Inl SegPanic | Some bytes \<Rightarrow> Inr bytes))
          })
        })
   }"

definition segment_body ::
  "plan_answers \<Rightarrow> run_answers \<Rightarrow> demux_stream list \<Rightarrow> rat \<Rightarrow> rat \<Rightarrow> int list \<Rightarrow> bool \<Rightarrow> (segment_error + byte list) av"
where
  "segment_body pa e ins startSec durSec streams tv =
     (let primary = hd streams
      in if primary < 0 \<or> int (length ins) \<le> primary then State_Monad.return (Inl SegPanic)
         else
           let startTS = to_ticks (ins ! nat primary) startSec;
               endTS = to_ticks (ins ! nat primary) (startSec + durSec)
           in do {
                p \<leftarrow> plan_streams pa ins startTS endTS tv streams no_plan;
                case p of
                  Inl err \<Rightarrow> State_Monad.return (Inl err)
                | Inr pl \<Rightarrow> do {
                    r \<leftarrow> segment_mux e (plan_of ins primary startTS endTS pl) (fst (seek_stream ins primary))
                          (to_ticks (snd (seek_stream ins primary)) startSec) pl;
                    freeAll (fst r);
                    State_Monad.return (snd r)
                  }
              })"

record segment_answers =
  sa_demux :: demux_answers
  sa_output :: output_answers
  sa_streams :: "demux_stream list"
  sa_plan :: plan_answers
  sa_run :: run_answers

definition segment_work :: "segment_answers \<Rightarrow> rat \<Rightarrow> rat \<Rightarrow> int list \<Rightarrow> bool \<Rightarrow> (segment_error + byte list) av" where
  "segment_work a startSec durSec streams tv =
     with_demux (sa_demux a) SegDemux (with_output (sa_output a) id
       (segment_body (sa_plan a) (sa_run a) (sa_streams a) startSec durSec streams tv))"

text \<open>
  A call under the transcode gate, when the video is transcoded. \<open>sel\<close> is the branch its \<^verbatim>\<open>select\<close> takes; \<open>None\<close> is a branch that is
  not ready, or a release that would block.
\<close>

definition under_gate ::
  "bool \<Rightarrow> sel_branch \<Rightarrow> (segment_error + 'a) av \<Rightarrow> semaphore \<times> av_heap \<Rightarrow> ((semaphore \<times> av_heap) \<times> (segment_error + 'a)) option"
where
  "under_gate tv sel body st =
     (if \<not> tv then (case run_state body (snd st) of (r, h) \<Rightarrow> Some ((fst st, h), r))
      else case transcode_acquire sel (fst st) of
             None \<Rightarrow> None
           | Some (g, Some err) \<Rightarrow> Some ((g, snd st), Inl (SegGate err))
           | Some (g, None) \<Rightarrow>
               (case run_state body (snd st) of
                  (r, h) \<Rightarrow> map_option (\<lambda>g'. ((g', h), r)) (chan_recv g)))"

definition Segment ::
  "segment_answers \<Rightarrow> sel_branch \<Rightarrow> rat \<Rightarrow> rat \<Rightarrow> int list \<Rightarrow> bool \<Rightarrow> semaphore \<times> av_heap \<Rightarrow>
   ((semaphore \<times> av_heap) \<times> (segment_error + byte list)) option"
where
  "Segment a sel startSec durSec streams tv st =
     (if streams = [] then Some (st, Inl SegNoStreams)
      else under_gate tv sel (segment_work a startSec durSec streams tv) st)"

text \<open>The initialization segment is the header alone; the window of its encoders is the whole timeline.\<close>

definition init_body :: "plan_answers \<Rightarrow> run_answers \<Rightarrow> demux_stream list \<Rightarrow> int list \<Rightarrow> bool \<Rightarrow> (segment_error + byte list) av" where
  "init_body pa e ins streams tv = do {
     p \<leftarrow> plan_streams pa ins 0 (2 ^ 63 - 1) tv streams no_plan;
     case p of
       Inl err \<Rightarrow> State_Monad.return (Inl err)
     | Inr pl \<Rightarrow> do {
         dict \<leftarrow> av_alloc;
         r \<leftarrow> av_defer dict (State_Monad.return
           (if \<not> rn_setOpts e then Inl SegDict else if \<not> rn_header e then Inl SegHeader else Inr (rn_init e)));
         freeAll pl;
         State_Monad.return r
       }
   }"

definition init_work :: "segment_answers \<Rightarrow> int list \<Rightarrow> bool \<Rightarrow> (segment_error + byte list) av" where
  "init_work a streams tv =
     with_demux (sa_demux a) SegDemux (with_output (sa_output a) id
       (init_body (sa_plan a) (sa_run a) (sa_streams a) streams tv))"

definition InitSegment ::
  "segment_answers \<Rightarrow> sel_branch \<Rightarrow> int list \<Rightarrow> bool \<Rightarrow> semaphore \<times> av_heap \<Rightarrow>
   ((semaphore \<times> av_heap) \<times> (segment_error + byte list)) option"
where
  "InitSegment a sel streams tv st = under_gate tv sel (init_work a streams tv) st"

section \<open>Everything is released\<close>

abbreviation own_run :: "seg_run \<Rightarrow> handle multiset" where
  "own_run st \<equiv> own_plan (ru_plan st)"

definition run_ok :: "seg_run \<Rightarrow> bool" where
  "run_ok st \<longleftrightarrow> plan_ok (ru_plan st)"

text \<open>A step that takes what its state holds to what its result holds.\<close>

definition run_keeps :: "seg_run \<Rightarrow> run_outcome av \<Rightarrow> bool" where
  "run_keeps st m \<longleftrightarrow> owns (own_run st) m (\<lambda>r. own_run (fst r)) \<and> gives m (\<lambda>r. run_ok (fst r))"

lemma run_keeps_return: "own_run (fst r) = own_run st \<Longrightarrow> run_ok (fst r) \<Longrightarrow> run_keeps st (State_Monad.return r)"
  by (simp add: run_keeps_def owns_return gives_return)

lemma run_keeps_and_then:
  assumes "\<And>st. run_ok st \<Longrightarrow> run_keeps st (f st)" "run_ok (fst r)"
  shows "run_keeps (fst r) (and_then r f)"
proof -
  obtain st err where r: "r = (st, err)" by fastforce
  show ?thesis using assms by (cases err) (simp_all add: r and_then_def run_keeps_return)
qed

lemma run_keeps_bind:
  assumes "run_keeps st m" "\<And>st. run_ok st \<Longrightarrow> run_keeps st (f st)"
  shows "run_keeps st (do { r \<leftarrow> m; and_then r f })"
proof -
  have k: "run_ok (fst r) \<Longrightarrow> run_keeps (fst r) (and_then r f)" for r using assms(2) by (rule run_keeps_and_then)
  show ?thesis
    using assms(1) k unfolding run_keeps_def
    by (blast intro: owns_bind_gives gives_bind)
qed

lemma put_ok:
  "run_ok st \<Longrightarrow> run_ok (put_video si v st)" "run_ok st \<Longrightarrow> run_ok (put_audio si a st)"
  by (simp_all add: run_ok_def plan_ok_def put_video_def put_audio_def distinct_update)

lemma own_video_split:
  assumes "distinct (map fst vs)" "map_of vs si = Some v"
  shows "\<exists>R. own_videos vs = own_video v + R \<and> (\<forall>v'. own_videos (AList.update si v' vs) = own_video v' + R)"
proof -
  have "\<exists>R. own_videos vs = own_video v + R" using assms(2)
  proof (induction vs)
    case (Cons x xs)
    obtain si' y where x: "x = (si', y)" by fastforce
    show ?case
    proof (cases "si' = si")
      case False
      then obtain R where "own_videos xs = own_video v + R" using Cons x by auto
      then show ?thesis by (intro exI [of _ "own_video y + R"]) (simp add: x ac_simps)
    qed (use Cons.prems x in auto)
  qed simp
  then obtain R where R: "own_videos vs = own_video v + R" by blast
  have "own_videos (AList.update si v' vs) = own_video v' + R" for v'
    using own_replaced_video [OF assms, of v'] unfolding R by (simp add: ac_simps)
  with R show ?thesis by blast
qed

lemma own_audio_split:
  assumes "distinct (map fst as)" "map_of as si = Some a"
  shows "\<exists>R. own_audios as = own_audio a + R \<and> (\<forall>a'. own_audios (AList.update si a' as) = own_audio a' + R)"
proof -
  have "\<exists>R. own_audios as = own_audio a + R" using assms(2)
  proof (induction as)
    case (Cons x xs)
    obtain si' y where x: "x = (si', y)" by fastforce
    show ?case
    proof (cases "si' = si")
      case False
      then obtain R where "own_audios xs = own_audio a + R" using Cons x by auto
      then show ?thesis by (intro exI [of _ "own_audio y + R"]) (simp add: x ac_simps)
    qed (use Cons.prems x in auto)
  qed simp
  then obtain R where R: "own_audios as = own_audio a + R" by blast
  have "own_audios (AList.update si a' as) = own_audio a' + R" for a'
    using own_replaced_audio [OF assms, of a'] unfolding R by (simp add: ac_simps)
  with R show ?thesis by blast
qed

lemma own_put_video:
  assumes "run_ok st" "map_of (pl_video (ru_plan st)) si = Some v"
  shows "\<exists>R. own_run st = own_video v + R \<and> (\<forall>v'. own_run (put_video si v' st) = own_video v' + R)"
proof -
  obtain R where R: "own_videos (pl_video (ru_plan st)) = own_video v + R"
      "\<And>v'. own_videos (AList.update si v' (pl_video (ru_plan st))) = own_video v' + R"
    using own_video_split [OF _ assms(2)] assms(1) unfolding run_ok_def plan_ok_def by blast
  show ?thesis
    by (rule exI [of _ "R + own_audios (pl_audio (ru_plan st))"]) (simp add: own_plan_def put_video_def R ac_simps)
qed

lemma own_put_audio:
  assumes "run_ok st" "map_of (pl_audio (ru_plan st)) si = Some a"
  shows "\<exists>R. own_run st = own_audio a + R \<and> (\<forall>a'. own_run (put_audio si a' st) = own_audio a' + R)"
proof -
  obtain R where R: "own_audios (pl_audio (ru_plan st)) = own_audio a + R"
      "\<And>a'. own_audios (AList.update si a' (pl_audio (ru_plan st))) = own_audio a' + R"
    using own_audio_split [OF _ assms(2)] assms(1) unfolding run_ok_def plan_ok_def by blast
  show ?thesis
    by (rule exI [of _ "own_videos (pl_video (ru_plan st)) + R"]) (simp add: own_plan_def put_audio_def R ac_simps)
qed

lemma own_video_writer [simp]: "own_video (v\<lparr>ve_w := fw\<rparr>) = own_video v"
  by (simp add: own_video_def own_fixed_def)

lemma own_audio_writer [simp]: "own_audio (a\<lparr>ae_w := fw\<rparr>) = own_audio a"
  by (simp add: own_audio_def)

lemma video_step_keeps:
  assumes "run_ok st" "map_of (pl_video (ru_plan st)) si = Some v" "\<And>w. VideoEncoder.keeps w (step w)"
  shows "run_keeps st (do { r \<leftarrow> step (v\<lparr>ve_w := ru_fw st\<rparr>);
    State_Monad.return (put_video si (fst r) st, map_option SegFeedVideo (snd r)) })"
proof -
  obtain R where R: "own_run st = own_video v + R" "\<And>v'. own_run (put_video si v' st) = own_video v' + R"
    using own_put_video [OF assms(1,2)] by blast
  have "owns (own_run st) (step (v\<lparr>ve_w := ru_fw st\<rparr>)) (\<lambda>r. own_video (fst r) + R)"
    using assms(3) [of "v\<lparr>ve_w := ru_fw st\<rparr>"] unfolding VideoEncoder.keeps_def R(1) by simp
  then show ?thesis
    unfolding run_keeps_def
    by (auto intro!: owns_bind [where m = "step (v\<lparr>ve_w := ru_fw st\<rparr>)"] owns_return gives_then gives_return put_ok assms(1) simp: R(2))
qed

lemma feed_video_keeps:
  assumes "run_ok st" "map_of (pl_video (ru_plan st)) si = Some v"
  shows "run_keeps st (feed_video e si d v st)"
  unfolding feed_video_def by (rule video_step_keeps [OF assms video_feed_keeps])

lemma audio_feed_owned: "own_audio (fst (audio_feed seed d a)) = own_audio a"
  by (simp add: audio_feed_def feed_frames_owned)

lemma audio_flush_owned: "own_audio (fst (audio_flush rs r a)) = own_audio a"
  using audio_drain_owned [of True rs 0 a] by (auto simp: audio_flush_def split: prod.split option.split)

lemma feed_audio_keeps:
  assumes "run_ok st" "map_of (pl_audio (ru_plan st)) si = Some a"
  shows "own_run (fst (feed_audio e si d a st)) = own_run st \<and> run_ok (fst (feed_audio e si d a st))"
proof -
  obtain R where R: "own_run st = own_audio a + R" "\<And>a'. own_run (put_audio si a' st) = own_audio a' + R"
    using own_put_audio [OF assms] by blast
  show ?thesis by (simp add: feed_audio_def R put_ok(2) [OF assms(1)] audio_feed_owned Let_def)
qed

lemma copy_packet_keeps:
  "run_ok st \<Longrightarrow> own_run (fst (copy_packet e plan pkt flt st)) = own_run st \<and> run_ok (fst (copy_packet e plan pkt flt st))"
  by (auto simp: copy_packet_def run_ok_def Let_def split: option.split prod.split)

lemma run_keeps_then:
  assumes "\<And>st. run_ok st \<Longrightarrow> run_keeps st (f st)" "own_run (fst r) = own_run st \<and> run_ok (fst r)"
  shows "run_keeps st (and_then r f)"
  using run_keeps_and_then [OF assms(1), of r] assms(2) by (simp add: run_keeps_def)

lemma segment_run_keeps: "run_ok st \<Longrightarrow> run_keeps st (segment_run e plan evs st)"
proof (induction evs arbitrary: st)
  case (Cons ev evs)
  show ?case
  proof (cases ev)
    case (SegPacket raw fd afd flt)
    show ?thesis
      using Cons.prems
      by (auto simp: SegPacket Let_def split: option.split
          intro!: run_keeps_return run_keeps_bind run_keeps_then feed_video_keeps feed_audio_keeps copy_packet_keeps Cons.IH)
  qed (simp add: run_keeps_return Cons.prems)
qed (simp add: run_keeps_return)

lemma flush_videos_keeps: "run_ok st \<Longrightarrow> run_keeps st (flush_videos e sis st)"
proof (induction sis arbitrary: st)
  case (Cons si sis)
  show ?case
  proof (cases "map_of (pl_video (ru_plan st)) si")
    case (Some v)
    have "run_keeps st (do { r \<leftarrow> (do { r \<leftarrow> video_flush (rn_time e si) (rn_flushVideo e si) (v\<lparr>ve_w := ru_fw st\<rparr>);
        State_Monad.return (put_video si (fst r) st, map_option SegFeedVideo (snd r)) }); and_then r (flush_videos e sis) })"
      by (rule run_keeps_bind [OF video_step_keeps [OF Cons.prems Some video_flush_keeps] Cons.IH])
    then show ?thesis by (simp add: Some State_Monad.bind_def State_Monad.return_def split_beta)
  qed (simp add: Cons)
qed (simp add: run_keeps_return)

lemma flush_audios_keeps:
  "run_ok st \<Longrightarrow> own_run (fst (flush_audios e sis st)) = own_run st \<and> run_ok (fst (flush_audios e sis st))"
proof (induction sis arbitrary: st)
  case (Cons si sis)
  show ?case
  proof (cases "map_of (pl_audio (ru_plan st)) si")
    case (Some a)
    obtain R where R: "own_run st = own_audio a + R" "\<And>a'. own_run (put_audio si a' st) = own_audio a' + R"
      using own_put_audio [OF Cons.prems Some] by blast
    obtain a1 err where f: "audio_flush (fst (rn_flushAudio e si)) (snd (rn_flushAudio e si)) (a\<lparr>ae_w := ru_fw st\<rparr>) = (a1, err)"
      by fastforce
    have o: "own_audio a1 = own_audio a"
      using audio_flush_owned [of "fst (rn_flushAudio e si)" "snd (rn_flushAudio e si)" "a\<lparr>ae_w := ru_fw st\<rparr>"] f by simp
    then show ?thesis
      using R Cons.IH [OF put_ok(2) [OF Cons.prems], of si a1] put_ok(2) [OF Cons.prems]
      by (cases err) (simp_all add: Some f)
  qed (simp add: Cons)
qed simp

lemma segment_packets_owns:
  assumes "plan_ok pl"
  shows "owns (own_plan pl) (segment_packets e plan pl) (\<lambda>r. own_plan (fst r))"
proof -
  let ?st = "\<lparr>ru_plan = pl, ru_fw = newFragWriter, ru_lastDTS = (\<lambda>_. None)\<rparr>"
  have ok: "run_ok ?st" using assms by (simp add: run_ok_def)
  let ?v = "\<lambda>st. flush_videos e (map fst (pl_video (ru_plan st))) st"
  let ?a = "\<lambda>st. State_Monad.return (flush_audios e (map fst (pl_audio (ru_plan st))) st)"
  have a: "run_keeps st (?a st)" if "run_ok st" for st
    using flush_audios_keeps [OF that] by (auto intro: run_keeps_return)
  have v: "run_keeps st (?v st)" if "run_ok st" for st by (rule flush_videos_keeps [OF that])
  have "run_keeps ?st (do { v \<leftarrow> (do { r \<leftarrow> segment_run e plan (rn_reads e) ?st; and_then r ?v }); and_then v ?a })"
    by (rule run_keeps_bind [OF run_keeps_bind [OF segment_run_keeps [OF ok] v] a])
  then have "owns (own_plan pl) (do { v \<leftarrow> (do { r \<leftarrow> segment_run e plan (rn_reads e) ?st; and_then r ?v }); and_then v ?a })
      (\<lambda>r. own_run (fst r))" by (simp add: run_keeps_def)
  from owns_bind [OF this, of "\<lambda>a. State_Monad.return (ru_plan (fst a),
       case a of
         (st, Some err) \<Rightarrow> Inl err
       | (st, None) \<Rightarrow>
           (case fragWriter_finish (rn_werrs e) (ru_fw st) of
              (fw, Some err) \<Rightarrow> Inl (SegWrite err)
            | (fw, None) \<Rightarrow> if rn_trailer e then Inr (fw_out fw) else Inl SegTrailer))" "\<lambda>r. own_plan (fst r)"]
  show ?thesis
    by (simp add: segment_packets_def owns_return State_Monad.bind_def split_beta)
qed

lemma segment_mux_owns:
  assumes "plan_ok pl"
  shows "owns (own_plan pl) (segment_mux e plan si ts pl) (\<lambda>r. own_plan (fst r))"
proof -
  have "owns (own_plan pl + {#pkt, dict#}) (segment_packets e plan pl) (\<lambda>r. own_plan (fst r) + {#pkt, dict#})" for pkt dict
    by (rule owns_frame [OF segment_packets_owns [OF assms]])
  then have "owns (add_mset pkt (add_mset dict (own_plan pl))) (segment_packets e plan pl)
      (\<lambda>r. add_mset pkt (add_mset dict (own_plan (fst r))))" for pkt dict by simp
  then show ?thesis
    unfolding segment_mux_def
    by (intro owns_alloc_then owns_defer owns_if owns_return owns_bind [where m = "segment_packets e plan pl"]) auto
qed

lemma freeAll_owns: "owns (own_plan pl) (do { freeAll pl; State_Monad.return r }) (\<lambda>_. {#})"
  using freeAll_then [of "{#}" "\<lambda>_. State_Monad.return r" "\<lambda>_. {#}" pl] by (simp add: owns_return)

lemma planned_owns:
  assumes "\<And>si. cpu_codec (vv_build (pa_video pa si)) \<noteq> Some ''h264_vaapi''" "distinct streams"
    and "\<And>pl. plan_ok pl \<Longrightarrow> owns (own_plan pl) (f pl) (\<lambda>_. {#})"
  shows "owns {#} (do { p \<leftarrow> plan_streams pa ins a b tv streams no_plan;
    case p of Inl err \<Rightarrow> State_Monad.return (Inl err) | Inr pl \<Rightarrow> f pl }) (\<lambda>_. {#})"
proof (rule owns_bind_gives)
  show "owns {#} (plan_streams pa ins a b tv streams no_plan) (own_result own_plan)"
    using plan_streams_owns [OF assms(1,2), of no_plan ins a b tv] by (simp add: plan_keys_def no_plan_def own_plan_def)
  show "gives (plan_streams pa ins a b tv streams no_plan) (\<lambda>r. \<forall>pl'. r = Inr pl' \<longrightarrow> plan_ok pl')"
    by (rule plan_streams_gives [OF plan_ok_none])
  fix r :: "segment_error + plan_state" assume "\<forall>pl'. r = Inr pl' \<longrightarrow> plan_ok pl'"
  then show "owns (own_result own_plan r) (case r of Inl err \<Rightarrow> State_Monad.return (Inl err) | Inr pl \<Rightarrow> f pl) (\<lambda>_. {#})"
    using assms(3) by (cases r) (simp_all add: owns_return)
qed

lemma segment_work_owns:
  assumes "\<And>si. cpu_codec (vv_build (pa_video (sa_plan a) si)) \<noteq> Some ''h264_vaapi''" "distinct streams"
  shows "owns {#} (segment_work a startSec durSec streams tv) (\<lambda>_. {#})"
proof -
  have "owns (own_plan pl) (do { r \<leftarrow> segment_mux e plan si ts pl; freeAll (fst r); State_Monad.return (snd r) }) (\<lambda>_. {#})"
    if "plan_ok pl" for e plan si ts pl
    by (rule owns_bind [OF segment_mux_owns [OF that] freeAll_owns])
  then have "owns {#} (segment_body (sa_plan a) (sa_run a) (sa_streams a) startSec durSec streams tv) (\<lambda>_. {#})"
    unfolding segment_body_def Let_def
    by (intro owns_if owns_return planned_owns [OF assms]) auto
  then show ?thesis unfolding segment_work_def by (intro with_demux_owns with_output_owns)
qed

lemma init_body_owns:
  assumes "\<And>si. cpu_codec (vv_build (pa_video pa si)) \<noteq> Some ''h264_vaapi''" "distinct streams"
  shows "owns {#} (init_body pa e ins streams tv) (\<lambda>_. {#})"
proof -
  have "owns (own_plan pl) (do {
         dict \<leftarrow> av_alloc;
         r \<leftarrow> av_defer dict (State_Monad.return r0);
         freeAll pl;
         State_Monad.return r }) (\<lambda>_. {#})" for pl and r0 :: "segment_error + byte list"
    by (rule owns_alloc_then, rule owns_bind [where B = "\<lambda>_. own_plan pl"], rule owns_defer, rule owns_return, simp, rule freeAll_owns)
  then show ?thesis unfolding init_body_def by (rule planned_owns [OF assms])
qed

lemma init_work_owns:
  assumes "\<And>si. cpu_codec (vv_build (pa_video (sa_plan a) si)) \<noteq> Some ''h264_vaapi''" "distinct streams"
  shows "owns {#} (init_work a streams tv) (\<lambda>_. {#})"
  unfolding init_work_def by (intro with_demux_owns with_output_owns init_body_owns [OF assms])

lemma under_gate_releases:
  assumes "owns {#} body (\<lambda>_. {#})" "under_gate tv sel body (g, h) = Some ((g', h'), r)"
  shows "g' = g \<and> av_live h' = av_live h \<and> av_bad h' = av_bad h"
proof -
  have b: "av_live (snd (run_state body h)) = av_live h" "av_bad (snd (run_state body h)) = av_bad h"
    using assms(1) by (simp_all add: owns_def)
  show ?thesis
    using assms(2) b
    by (auto simp: under_gate_def transcode_acquire_def chan_send_def chan_recv_def split_beta
        split: if_splits option.splits prod.splits sel_branch.splits)
qed

lemma under_gate_returns:
  "0 \<le> sem_len g \<Longrightarrow> sel = SelToken \<Longrightarrow> sem_len g < sem_cap g \<Longrightarrow> \<exists>st r. under_gate tv sel body (g, h) = Some (st, r)"
  by (auto simp: under_gate_def transcode_acquire_def chan_send_def chan_recv_def split_beta)


section \<open>A concrete call\<close>

text \<open>A video that is transcoded under the gate's only slot, with a copied AAC track.\<close>

definition demo_stream :: "int \<Rightarrow> stream_kind \<Rightarrow> string \<Rightarrow> demux_stream" where
  "demo_stream i k codec = \<lparr>ds_Index = i, ds_Kind = k, ds_Codec = codec, ds_Language = '''', ds_Title = '''', ds_StartTime = 0,
     ds_tbNum = 1, ds_tbDen = 1000, ds_AttachedPic = False, ds_ExtraData = ''''\<rparr>"

definition demo_read :: "int \<Rightarrow> int \<Rightarrow> feed_run \<Rightarrow> seg_read" where
  "demo_read si t fd = SegPacket \<lparr>pk_stream = si, pk_pts = t, pk_dts = t, pk_dur = 0, pk_data = [of_int t]\<rparr> fd
     \<lparr>afr_send = True, afr_frames = [], afr_end = True\<rparr> (False, False)"

definition demo_call :: segment_answers where
  "demo_call = \<lparr>sa_demux = \<lparr>da_io = True, da_format = True, da_open = True, da_info = True\<rparr>,
     sa_output = \<lparr>oa_error = False, oa_some = True, oa_io = True\<rparr>,
     sa_streams = [demo_stream 0 KVideo ''h264'', demo_stream 1 KAudio ''aac''],
     sa_plan = \<lparr>pa_video = (\<lambda>_. demo_video), pa_audio = (\<lambda>_. demo_audio), pa_newStream = (\<lambda>_. True), pa_copyParams = (\<lambda>_. True)\<rparr>,
     sa_run = \<lparr>rn_rescale = (\<lambda>_ _ p. p), rn_time = (\<lambda>_ t. t), rn_seed = (\<lambda>_ t. t),
       rn_reads = [demo_read 0 0 (hd demo_feeds), demo_read 1 5 (hd demo_feeds), demo_read 1 25 (hd demo_feeds), demo_read 0 80 (hd demo_feeds)],
       rn_flushVideo = (\<lambda>_. demo_flush), rn_flushAudio = (\<lambda>_. (demo_drain, quiet_run)), rn_werrs = [], rn_setOpts = True,
       rn_header = True, rn_seek = (\<lambda>_ _. True), rn_trailer = True,
       rn_mux = (\<lambda>ps. map (\<lambda>p. of_int (pk_dur p)) ps), rn_init = [1, 2]\<rparr>\<rparr>"

definition one_slot :: semaphore where
  "one_slot = \<lparr>sem_cap = 1, sem_len = 0\<rparr>"


end
