(* ===== verification/SegmentStreams.thy ===== *)
theory SegmentStreams
  imports SegmentRun
begin

text \<open>
  The streams of a whole \<^verbatim>\<open>Segment\<close> call (\<^verbatim>\<open>media/segment.go\<close>): the encoders of a plan write to their own output
  streams only, so a copied stream of a segment that is produced is gapless whatever is transcoded beside it.
\<close>

section \<open>An encoder writes to its own stream\<close>

text \<open>What the writer holds for stream \<open>s\<close> is \<open>ps\<close>, and the encoder writes to another stream.\<close>

definition fw_shows :: "int \<Rightarrow> packet list \<Rightarrow> fragWriter \<Rightarrow> bool" where
  "fw_shows s ps fw \<longleftrightarrow> fw_wf fw \<and> stream_view s fw ps"

lemma fw_shows_other: "fw_shows s ps fw \<Longrightarrow> pk_stream p \<noteq> s \<Longrightarrow> fw_shows s ps (fst (fragWriter_write werr cl p fw))"
  by (simp add: fw_shows_def fw_wf_write stream_view_other)

definition video_beside :: "int \<Rightarrow> packet list \<Rightarrow> videoEncoder \<Rightarrow> bool" where
  "video_beside s ps v \<longleftrightarrow> ve_outIdx v \<noteq> s \<and> fw_shows s ps (ve_w v)"

lemma video_beside_updates [simp]:
  "video_beside s ps (v\<lparr>ve_lastPTS := a\<rparr>) = video_beside s ps v" "video_beside s ps (v\<lparr>ve_lastDTS := a\<rparr>) = video_beside s ps v"
  "video_beside s ps (v\<lparr>ve_sent := b\<rparr>) = video_beside s ps v" "video_beside s ps (v\<lparr>ve_sws := c\<rparr>) = video_beside s ps v"
  "video_beside s ps (v\<lparr>ve_toneMapper := d\<rparr>) = video_beside s ps v" "video_beside s ps (v\<lparr>ve_toneMapHW := t\<rparr>) = video_beside s ps v"
  "video_beside s ps (v\<lparr>ve_forceSWMap := t\<rparr>) = video_beside s ps v"
  by (simp_all add: video_beside_def)

named_theorems beside \<open>steps of an encoder that leave the other streams alone\<close>

lemma stamp_packet_stream: "pk_stream (fst (stamp_packet p o' l)) = o'"
  by (simp add: stamp_packet_def Let_def)

lemma encode_packets_beside [beside]: "video_beside s ps v \<Longrightarrow> video_beside s ps (fst (encode_packets qs ended v))"
proof (induction qs arbitrary: v)
  case (Cons x qs)
  obtain p werr cl where x: "x = (p, werr, cl)" by (cases x)
  let ?q = "stamp_packet p (ve_outIdx v) (ve_lastDTS v)"
  let ?w = "fragWriter_write werr cl (fst ?q) (ve_w v)"
  have "video_beside s ps (v\<lparr>ve_lastDTS := snd ?q, ve_w := fst ?w\<rparr>)"
    using Cons.prems by (simp add: video_beside_def fw_shows_other stamp_packet_stream)
  from Cons.IH [OF this] this show ?case by (simp add: x Let_def split_beta split: option.split)
qed simp

lemma video_encode_beside [beside]: "video_beside s ps v \<Longrightarrow> video_beside s ps (fst (video_encode f r v))"
  by (auto simp: video_encode_def beside split: option.split)

lemma ready_frame_beside [beside]: "video_beside s ps v \<Longrightarrow> video_beside s ps (fst (ready_frame rq pts r v))"
  by (simp add: ready_frame_def encodeReadyFrame_def beside)

lemma prepareSoftwareFrame_beside [beside]: "video_beside s ps v \<Longrightarrow> video_beside s ps (fst (prepareSoftwareFrame rq pts r v))"
  by (simp add: prepareSoftwareFrame_def encodeReadyFrame_def beside)

lemma tone_drain_beside:
  assumes "\<And>pts r v. video_beside s ps v \<Longrightarrow> video_beside s ps (fst (consume pts r v))"
  shows "video_beside s ps v \<Longrightarrow> video_beside s ps (fst (tone_drain consume fs ended v))"
proof (induction fs arbitrary: v)
  case (Cons pf fs)
  obtain pts r where pf: "pf = (pts, r)" by fastforce
  have "video_beside s ps (fst (consume pts r v))" by (rule assms [OF Cons.prems])
  with Cons.IH [of "fst (consume pts r v)"] show ?case by (auto simp: pf split: prod.split option.split)
qed simp

lemma tone_process_beside [beside]:
  "video_beside s ps v \<Longrightarrow> video_beside s ps (fst (tone_process (ready_frame rq) t v))"
  "video_beside s ps v \<Longrightarrow> video_beside s ps (fst (tone_process (prepareSoftwareFrame rq) t v))"
  by (auto simp: tone_process_def intro!: tone_drain_beside beside)

abbreviation stays_beside :: "int \<Rightarrow> packet list \<Rightarrow> VideoEncoder.outcome av \<Rightarrow> bool" where
  "stays_beside s ps m \<equiv> gives m (\<lambda>r. video_beside s ps (fst r))"

lemma stays_beside_then:
  assumes "stays_beside s ps m" "\<And>v. video_beside s ps v \<Longrightarrow> stays_beside s ps (f v)"
  shows "stays_beside s ps (do { r \<leftarrow> m; (case r of (v1, Some e) \<Rightarrow> State_Monad.return (v1, Some e) | (v1, None) \<Rightarrow> f v1) })"
  using assms(2) by (intro gives_bind [OF assms(1)]) (auto intro!: gives_return split: option.split)

lemma software_tone_beside: "video_beside s ps v \<Longrightarrow> stays_beside s ps (software_tone rq f v)"
  unfolding software_tone_def by (auto intro!: gives_then gives_return beside split: option.split sum.split)

lemma scale_frame_beside: "video_beside s ps v \<Longrightarrow> stays_beside s ps (scale_frame rq pts f v)"
  unfolding scale_frame_def by (auto intro!: gives_then gives_return beside simp: Let_def split: option.split)

lemma software_path_beside: "video_beside s ps v \<Longrightarrow> stays_beside s ps (software_path rq pts f v)"
  unfolding software_path_def by (auto intro!: gives_return beside software_tone_beside scale_frame_beside)

lemma hardware_mapper_beside: "video_beside s ps v \<Longrightarrow> gives (hardware_mapper f v) (video_beside s ps)"
  unfolding hardware_mapper_def by (auto intro!: gives_then gives_return split: option.split sum.split)

lemma encodeDecoded_beside:
  assumes "video_beside s ps v"
  shows "stays_beside s ps (encodeDecoded rq pts f v)"
proof -
  have "stays_beside s ps (case ve_toneMapper v1 of
          None \<Rightarrow> software_path rq pts f v1
        | Some m \<Rightarrow>
            (case tone_process (ready_frame rq) (fr_hwRun f) v1 of
               (v2, None) \<Rightarrow> State_Monad.return (v2, None)
             | (v2, Some _) \<Rightarrow> do {
                 tone_free m;
                 software_path rq pts f (v2\<lparr>ve_toneMapper := None, ve_toneMapHW := False, ve_forceSWMap := True\<rparr>)
               }))" if "video_beside s ps v1" for v1
    using tone_process_beside(1) [OF that, of rq "fr_hwRun f"] that
    by (auto intro!: gives_return gives_then software_path_beside split: option.split prod.split)
  then show ?thesis
    unfolding encodeDecoded_def using assms
    by (auto intro!: gives_bind [OF hardware_mapper_beside] software_path_beside)
qed

lemma drain_frames_beside: "video_beside s ps v \<Longrightarrow> stays_beside s ps (drain_frames rq fs ended v)"
proof (induction fs arbitrary: v)
  case (Cons x fs)
  obtain pts f where x: "x = (pts, f)" by fastforce
  have e: "stays_beside s ps (encodeDecoded rq pts f (v\<lparr>ve_lastPTS := pts\<rparr>))"
    using Cons.prems by (intro encodeDecoded_beside) simp
  show ?case unfolding x drain_frames.simps by (intro gives_if Cons.IH Cons.prems stays_beside_then [OF e])
qed (simp add: gives_return)

lemma decodeAndDrain_beside: "video_beside s ps v \<Longrightarrow> stays_beside s ps (decodeAndDrain rq d v)"
  unfolding decodeAndDrain_def drainDecoder_def by (auto intro!: gives_return drain_frames_beside)

lemma drainBSF_beside: "video_beside s ps v \<Longrightarrow> stays_beside s ps (drainBSF rq ds ended v)"
proof (induction ds arbitrary: v)
  case (Cons d ds)
  show ?case unfolding drainBSF.simps by (intro stays_beside_then [OF decodeAndDrain_beside] Cons)
qed (simp add: gives_return)

lemma video_feed_beside: "video_beside s ps v \<Longrightarrow> stays_beside s ps (video_feed rq d v)"
  unfolding video_feed_def by (auto intro!: gives_return decodeAndDrain_beside drainBSF_beside)

lemma flush_tone_beside:
  assumes "video_beside s ps v"
  shows "video_beside s ps (fst (flush_tone rq l v))"
proof -
  let ?m = "if ve_toneMapper v = None then (v, None)
    else tone_process (if ve_toneMapHW v then ready_frame rq else prepareSoftwareFrame rq) (fl_tone l) v"
  obtain v1 e where m: "?m = (v1, e)" by fastforce
  have "video_beside s ps (fst ?m)" using assms by (simp add: beside)
  then have "video_beside s ps v1" by (simp only: m fst_conv)
  then show ?thesis unfolding flush_tone_def m by (simp add: beside split: option.split)
qed

lemma video_flush_beside:
  assumes "video_beside s ps v"
  shows "stays_beside s ps (video_flush rq l v)"
proof -
  have d: "stays_beside s ps (do {
            d \<leftarrow> drainDecoder rq (fl_decode l) v1;
            State_Monad.return
              (case d of (v2, Some e) \<Rightarrow> (v2, Some e) | (v2, None) \<Rightarrow> flush_tone rq l v2)
          })" if "video_beside s ps v1" for v1
    unfolding drainDecoder_def using that
    by (auto intro!: gives_bind [OF drain_frames_beside] gives_return flush_tone_beside split: prod.split option.split)
  show ?thesis
    unfolding video_flush_def using assms
    by (intro stays_beside_then gives_if gives_return drainBSF_beside d) auto
qed

section \<open>The same for audio\<close>

definition audio_beside :: "int \<Rightarrow> packet list \<Rightarrow> audioEncoder \<Rightarrow> bool" where
  "audio_beside s ps a \<longleftrightarrow> ae_outIdx a \<noteq> s \<and> fw_shows s ps (ae_w a)"

lemma audio_beside_updates [simp]:
  "audio_beside s ps (a\<lparr>ae_samples := xs\<rparr>) = audio_beside s ps a" "audio_beside s ps (a\<lparr>ae_nextPts := t\<rparr>) = audio_beside s ps a"
  "audio_beside s ps (a\<lparr>ae_sent := fs\<rparr>) = audio_beside s ps a" "audio_beside s ps (a\<lparr>ae_started := b\<rparr>) = audio_beside s ps a"
  by (simp_all add: audio_beside_def)

lemma audio_packets_beside: "audio_beside s ps a \<Longrightarrow> audio_beside s ps (fst (audio_packets qs ended a))"
proof (induction qs arbitrary: a)
  case (Cons x qs)
  obtain p werr cl where x: "x = (p, werr, cl)" by (cases x)
  let ?w = "fragWriter_write werr cl (p\<lparr>pk_stream := ae_outIdx a\<rparr>) (ae_w a)"
  have "audio_beside s ps (a\<lparr>ae_w := fst ?w\<rparr>)"
    using Cons.prems by (simp add: audio_beside_def fw_shows_other)
  from Cons.IH [OF this] this show ?case by (simp add: x Let_def split_beta split: option.split)
qed simp

lemma audio_encode_beside [beside]: "audio_beside s ps a \<Longrightarrow> audio_beside s ps (fst (audio_encode f r a))"
  by (auto simp: audio_encode_def audio_packets_beside split: option.split)

lemma drain_round_beside: "audio_beside s ps a \<Longrightarrow> audio_beside s ps (fst (drain_round r n a))"
  by (simp add: drain_round_def beside)

lemma audio_drain_beside [beside]: "audio_beside s ps a \<Longrightarrow> audio_beside s ps (fst (audio_drain flush rs k a))"
proof (induction flush rs k a rule: audio_drain.induct)
  case (1 flush rs k a)
  let ?r = "drain_round (rs k) (min (frame_size a) (length (ae_samples a))) a"
  have "audio_beside s ps (fst ?r)" by (rule drain_round_beside [OF 1(2)])
  with 1 show ?case
    by (subst audio_drain.simps) (auto split: prod.split option.split)
qed

lemma feed_frame_beside: "audio_beside s ps a \<Longrightarrow> audio_beside s ps (fst (feed_frame seed f a))"
  by (simp add: feed_frame_def Let_def beside)

lemma feed_frames_beside: "audio_beside s ps a \<Longrightarrow> audio_beside s ps (fst (feed_frames seed fs ended a))"
proof (induction fs arbitrary: a)
  case (Cons f fs)
  have "audio_beside s ps (fst (feed_frame seed f a))" by (rule feed_frame_beside [OF Cons.prems])
  with Cons show ?case by (auto split: prod.split option.split)
qed simp

lemma audio_feed_beside: "audio_beside s ps a \<Longrightarrow> audio_beside s ps (fst (audio_feed seed d a))"
  by (simp add: audio_feed_def feed_frames_beside)

lemma audio_flush_beside:
  assumes "audio_beside s ps a"
  shows "audio_beside s ps (fst (audio_flush rs r a))"
proof -
  have "audio_beside s ps (fst (audio_drain True rs 0 a))" by (rule audio_drain_beside [OF assms])
  then show ?thesis by (auto simp: audio_flush_def beside split: prod.split option.split)
qed

section \<open>The output streams of a plan\<close>

text \<open>
  After the streams \<open>seen\<close>: each of them has the output stream of its position, copied or encoded as its kind
  and codec say.
\<close>

definition copies :: "bool \<Rightarrow> demux_stream list \<Rightarrow> int \<Rightarrow> bool" where
  "copies tv ins si \<longleftrightarrow> \<not> encodes_video tv (ins ! nat si) \<and> \<not> encodes_audio (ins ! nat si)"

definition stands_at :: "int list \<Rightarrow> int \<Rightarrow> int \<Rightarrow> bool" where
  "stands_at seen o' si \<longleftrightarrow> 0 \<le> o' \<and> nat o' < length seen \<and> seen ! nat o' = si"

lemma stands_at_snoc: "stands_at (seen @ [s]) o' si \<longleftrightarrow> stands_at seen o' si \<or> o' = int (length seen) \<and> si = s"
  by (auto simp: stands_at_def nth_append)

lemma stands_at_in: "stands_at seen o' si \<Longrightarrow> si \<in> set seen"
  by (auto simp: stands_at_def)

definition planned :: "bool \<Rightarrow> demux_stream list \<Rightarrow> int list \<Rightarrow> plan_state \<Rightarrow> bool" where
  "planned tv ins seen pl \<longleftrightarrow>
     pl_outs pl = length seen \<and>
     (\<forall>si o'. pl_copy pl si = Some o' \<longleftrightarrow> stands_at seen o' si \<and> copies tv ins si) \<and>
     (\<forall>si v. (si, v) \<in> set (pl_video pl) \<longrightarrow> stands_at seen (ve_outIdx v) si \<and> \<not> copies tv ins si) \<and>
     (\<forall>si a. (si, a) \<in> set (pl_audio pl) \<longrightarrow> stands_at seen (ae_outIdx a) si \<and> \<not> copies tv ins si)"

lemma planned_none: "planned tv ins [] no_plan"
  by (simp add: planned_def no_plan_def stands_at_def)

lemma planned_video:
  assumes "planned tv ins seen pl" "\<not> copies tv ins si" "ve_outIdx v = int (pl_outs pl)"
  shows "planned tv ins (seen @ [si]) (pl\<lparr>pl_video := AList.update si v (pl_video pl), pl_outs := Suc (pl_outs pl)\<rparr>)"
proof -
  have "(si', v') \<in> set (AList.update si v (pl_video pl)) \<Longrightarrow> stands_at (seen @ [si]) (ve_outIdx v') si' \<and> \<not> copies tv ins si'" for si' v'
    using assms set_al_update [of "(si', v')" si v "pl_video pl"] by (auto simp: planned_def stands_at_snoc)
  then show ?thesis using assms unfolding planned_def stands_at_snoc by simp metis
qed

lemma planned_audio:
  assumes "planned tv ins seen pl" "\<not> copies tv ins si" "ae_outIdx a = int (pl_outs pl)"
  shows "planned tv ins (seen @ [si]) (pl\<lparr>pl_audio := AList.update si a (pl_audio pl), pl_outs := Suc (pl_outs pl)\<rparr>)"
proof -
  have "(si', a') \<in> set (AList.update si a (pl_audio pl)) \<Longrightarrow> stands_at (seen @ [si]) (ae_outIdx a') si' \<and> \<not> copies tv ins si'" for si' a'
    using assms set_al_update [of "(si', a')" si a "pl_audio pl"] by (auto simp: planned_def stands_at_snoc)
  then show ?thesis using assms unfolding planned_def stands_at_snoc by simp metis
qed

lemma planned_copy:
  assumes "planned tv ins seen pl" "copies tv ins si" "si \<notin> set seen"
  shows "planned tv ins (seen @ [si]) (pl\<lparr>pl_copy := (pl_copy pl)(si \<mapsto> int (pl_outs pl)), pl_outs := Suc (pl_outs pl)\<rparr>)"
  using assms stands_at_in [of seen _ si] unfolding planned_def stands_at_snoc by (simp add: eq_commute [of "int _"]) blast

lemma newAudioEncoder_stream: "gives (newAudioEncoder e a b fw) (\<lambda>r. \<forall>w. r = Inr w \<longrightarrow> au_newStream e = Some (ae_outIdx w))"
proof -
  have struct: "gives (do { a \<leftarrow> audio_struct e lo hi fw outIdx dec enc; State_Monad.return (Inr a) })
      (\<lambda>n :: aenc_error + audioEncoder. \<forall>w. n = Inr w \<longrightarrow> outIdx = ae_outIdx w)" for lo hi outIdx dec enc
    unfolding audio_struct_def by (simp only: bind_assoc bind_left_identity) (intro gives_then gives_return, simp)
  then show ?thesis
    unfolding newAudioEncoder_def audio_encoder_setup_def audio_undo_def
    by (auto simp: av_try_then intro!: gives_then gives_return struct split: option.split)
qed

lemma newVideoEncoder_stream: "gives (newVideoEncoder e a b fw) (\<lambda>r. \<forall>v. r = Inr v \<longrightarrow> vv_newStream e = Some (ve_outIdx v))"
  by (rule gives_mono [OF newVideoEncoder_fresh]) (simp add: fresh_video_def)

lemma plan_streams_planned:
  "planned tv ins seen pl \<Longrightarrow> distinct (seen @ sis) \<Longrightarrow>
     gives (plan_streams e ins a b tv sis pl) (\<lambda>r. \<forall>pl'. r = Inr pl' \<longrightarrow> planned tv ins (seen @ sis) pl')"
proof (induction sis arbitrary: seen pl)
  case (Cons si sis)
  let ?G = "\<lambda>m. gives m (\<lambda>r. \<forall>pl'. r = Inr pl' \<longrightarrow> planned tv ins (seen @ si # sis) pl')"
  have rest: "?G (plan_streams e ins a b tv sis pl')" if "planned tv ins (seen @ [si]) pl'" for pl'
    using Cons.IH [OF that] Cons.prems(2) by simp
  have fail: "?G (do { freeAll pl; State_Monad.return (Inl err) })" for err
    by (intro gives_then gives_return) simp
  have idx: "o' = int (pl_outs pl)" if "next_stream pl answer = Some o'" for answer o'
    using that by (auto simp: next_stream_def)
  have video: "?G (do { r \<leftarrow> newVideoEncoder (env\<lparr>vv_newStream := next_stream pl (vv_newStream env)\<rparr>) a b newFragWriter;
      case r of Inl err \<Rightarrow> do { freeAll pl; State_Monad.return (Inl (SegVideo err)) }
      | Inr v \<Rightarrow> plan_streams e ins a b tv sis (pl\<lparr>pl_video := AList.update si v (pl_video pl), pl_outs := Suc (pl_outs pl)\<rparr>) })"
    if "encodes_video tv (ins ! nat si)" for env
    using that
    by (intro gives_bind [OF newVideoEncoder_stream])
      (auto intro!: fail rest planned_video [OF Cons.prems(1)] idx simp: copies_def split: sum.split)
  have audio: "?G (do { r \<leftarrow> newAudioEncoder (env\<lparr>au_newStream := next_stream pl (au_newStream env)\<rparr>) a b newFragWriter;
      case r of Inl err \<Rightarrow> do { freeAll pl; State_Monad.return (Inl (SegAudio err)) }
      | Inr v \<Rightarrow> plan_streams e ins a b tv sis (pl\<lparr>pl_audio := AList.update si v (pl_audio pl), pl_outs := Suc (pl_outs pl)\<rparr>) })"
    if "encodes_audio (ins ! nat si)" for env
    using that
    by (intro gives_bind [OF newAudioEncoder_stream])
      (auto intro!: fail rest planned_audio [OF Cons.prems(1)] idx simp: copies_def split: sum.split)
  have copy: "?G (plan_streams e ins a b tv sis (pl\<lparr>pl_copy := (pl_copy pl)(si \<mapsto> int (pl_outs pl)), pl_outs := Suc (pl_outs pl)\<rparr>))"
    if "\<not> encodes_video tv (ins ! nat si)" "\<not> encodes_audio (ins ! nat si)"
    using Cons.prems(2) that by (intro rest planned_copy [OF Cons.prems(1)]) (auto simp: copies_def)
  show ?case
    by (simp only: plan_streams.simps) (intro gives_if fail video audio copy)
qed (simp add: gives_return)

section \<open>A copied stream through the packet loop\<close>

fun read_packets :: "seg_read list \<Rightarrow> packet list" where
  "read_packets (SegPacket raw fd afd flt # evs) = raw # read_packets evs"
| "read_packets _ = []"

text \<open>The packets of stream \<open>si\<close> that the segment is to carry.\<close>

definition copied_reads :: "segment_plan \<Rightarrow> int \<Rightarrow> seg_read list \<Rightarrow> packet list" where
  "copied_reads plan si evs =
     filter (\<lambda>p. pk_stream p = si \<and> \<not> trimmed plan p)
       (takeWhile (\<lambda>p. \<not> ends_segment plan p) (map (effective plan) (read_packets evs)))"

lemma copied_reads_simps [simp]:
  "copied_reads plan si [] = []"
  "copied_reads plan si (SegPacket raw fd afd flt # evs) =
     (let p = effective plan raw
      in if ends_segment plan p then []
         else if pk_stream raw = si \<and> \<not> trimmed plan p then p # copied_reads plan si evs else copied_reads plan si evs)"
  by (simp_all add: copied_reads_def Let_def)

definition reads_timed :: "(int \<Rightarrow> int \<Rightarrow> packet \<Rightarrow> packet) \<Rightarrow> segment_plan \<Rightarrow> int \<Rightarrow> int \<Rightarrow> seg_read list \<Rightarrow> bool" where
  "reads_timed rescale plan si out evs \<longleftrightarrow>
     (\<forall>p \<in> set (read_packets evs). pk_stream p = si \<longrightarrow> timed (rescale si out ((effective plan p)\<lparr>pk_stream := out\<rparr>)))"

lemma reads_timed_simps [simp]:
  "reads_timed rescale plan si out (SegPacket raw fd afd flt # evs) \<longleftrightarrow>
     (pk_stream raw = si \<longrightarrow> timed (rescale si out ((effective plan raw)\<lparr>pk_stream := out\<rparr>))) \<and> reads_timed rescale plan si out evs"
  by (auto simp: reads_timed_def)

definition run_shows :: "int \<Rightarrow> int \<Rightarrow> packet list \<Rightarrow> seg_run \<Rightarrow> bool" where
  "run_shows si out ps st \<longleftrightarrow>
     loop_ok out \<lparr>sg_fw = ru_fw st, sg_lastDTS = ru_lastDTS st\<rparr> ps \<and>
     (\<forall>k v. (k, v) \<in> set (pl_video (ru_plan st)) \<longrightarrow> k \<noteq> si \<and> ve_outIdx v \<noteq> out) \<and>
     (\<forall>k a. (k, a) \<in> set (pl_audio (ru_plan st)) \<longrightarrow> k \<noteq> si \<and> ae_outIdx a \<noteq> out)"

lemma run_shows_writer:
  assumes "run_shows si out ps st"
  shows "fw_shows out ps (ru_fw st)"
  using assms by (simp add: run_shows_def loop_ok_def fw_shows_def)

lemma run_shows_video:
  assumes "run_shows si out ps st" "map_of (pl_video (ru_plan st)) k = Some v"
  shows "video_beside out ps (v\<lparr>ve_w := ru_fw st\<rparr>)"
  using assms run_shows_writer [OF assms(1)] map_of_SomeD [OF assms(2)]
  by (auto simp: run_shows_def video_beside_def)

lemma run_shows_audio:
  assumes "run_shows si out ps st" "map_of (pl_audio (ru_plan st)) k = Some a"
  shows "audio_beside out ps (a\<lparr>ae_w := ru_fw st\<rparr>)"
  using assms run_shows_writer [OF assms(1)] map_of_SomeD [OF assms(2)]
  by (auto simp: run_shows_def audio_beside_def)

lemma put_video_shows:
  assumes "run_shows si out ps st" "map_of (pl_video (ru_plan st)) k = Some v" "video_beside out ps v'"
  shows "run_shows si out ps (put_video k v' st)"
  using assms map_of_SomeD [OF assms(2)]
  by (auto simp: run_shows_def put_video_def loop_ok_def video_beside_def fw_shows_def dest!: set_al_update)

lemma put_audio_shows:
  assumes "run_shows si out ps st" "map_of (pl_audio (ru_plan st)) k = Some a" "audio_beside out ps a'"
  shows "run_shows si out ps (put_audio k a' st)"
  using assms map_of_SomeD [OF assms(2)]
  by (auto simp: run_shows_def put_audio_def loop_ok_def audio_beside_def fw_shows_def dest!: set_al_update)

lemma feed_video_shows:
  assumes "run_shows si out ps st" "map_of (pl_video (ru_plan st)) k = Some v"
  shows "gives (feed_video e k d v st) (\<lambda>r. run_shows si out ps (fst r))"
  unfolding feed_video_def
  by (rule gives_bind [OF video_feed_beside [OF run_shows_video [OF assms]]]) (auto intro!: gives_return put_video_shows [OF assms])

lemma feed_audio_shows:
  assumes "run_shows si out ps st" "map_of (pl_audio (ru_plan st)) k = Some a"
  shows "run_shows si out ps (fst (feed_audio e k d a st))"
  using put_audio_shows [OF assms audio_feed_beside [OF run_shows_audio [OF assms]]] by (simp add: feed_audio_def Let_def)

text \<open>A copied packet goes to the stream or beside it.\<close>

lemma copy_packet_shows:
  assumes r: "rescale_ok (rn_rescale e)" and plan: "\<forall>k. sp_copyMap plan k = Some out \<longleftrightarrow> k = si"
    and inv: "run_shows si out ps st" and len: "int (length ps) < 2 ^ 61"
    and t: "pk_stream pkt = si \<longrightarrow> timed (rn_rescale e si out (pkt\<lparr>pk_stream := out\<rparr>))"
    and ok: "copy_packet e plan pkt flt st = (st', None)"
  shows "\<exists>qs. run_shows si out (ps @ qs) st' \<and> length qs \<le> 1 \<and>
    map pk_data qs = (if pk_stream pkt = si \<and> \<not> trimmed plan pkt then [pk_data pkt] else [])"
proof (cases "sp_copyMap plan (pk_stream pkt) = None \<or> trimmed plan pkt")
  case True
  have "st' = st" using ok True by (auto simp: copy_packet_def split: option.splits)
  moreover have "pk_stream pkt \<noteq> si \<or> trimmed plan pkt" using True spec [OF plan, of "pk_stream pkt"] by auto
  ultimately show ?thesis using inv by (intro exI [of _ "[]"]) auto
next
  case False
  then obtain o' where o': "sp_copyMap plan (pk_stream pkt) = Some o'" "\<not> trimmed plan pkt" by auto
  let ?q = "rn_rescale e (pk_stream pkt) o' (pkt\<lparr>pk_stream := o'\<rparr>)"
  have q: "pk_stream ?q = o'" "pk_data ?q = pk_data pkt" using r by (simp_all add: rescale_ok_def)
  obtain p' lst where s: "sanitizeCopyDTS ?q o' (ru_lastDTS st) = (p', lst)" by fastforce
  obtain fw er where f: "fragWriter_write (fst flt) (snd flt) p' (ru_fw st) = (fw, er)" by fastforce
  have er: "er = None" and st': "st' = st\<lparr>ru_fw := fw, ru_lastDTS := lst\<rparr>" using ok o' s f by (auto simp: copy_packet_def)
  let ?sg = "\<lparr>sg_fw = ru_fw st, sg_lastDTS = ru_lastDTS st\<rparr>"
  have l: "loop_ok out ?sg ps" using inv by (simp add: run_shows_def)
  show ?thesis
  proof (cases "pk_stream pkt = si")
    case True
    then have "o' = out" using spec [OF plan, of si] o' by simp
    with l s f er q t True have "loop_ok out (?sg\<lparr>sg_fw := fw, sg_lastDTS := lst\<rparr>) (ps @ [p']) \<and> pk_data p' = pk_data pkt"
      using loop_ok_write [OF l _ _ len, of ?q p' lst "fst flt" "snd flt" fw] by simp
    with inv True o' st' show ?thesis by (intro exI [of _ "[p']"]) (auto simp: run_shows_def)
  next
    case neq: False
    then have "o' \<noteq> out" using spec [OF plan, of "pk_stream pkt"] o' by auto
    have "loop_ok out (?sg\<lparr>sg_fw := fw, sg_lastDTS := lst\<rparr>) ps"
      by (rule loop_ok_other_write [OF l _ \<open>o' \<noteq> out\<close>]) (use f sanitize_other [OF s \<open>o' \<noteq> out\<close>] q \<open>o' \<noteq> out\<close> in auto)
    with inv neq st' show ?thesis by (intro exI [of _ "[]"]) (auto simp: run_shows_def)
  qed
qed

definition run_adds :: "int \<Rightarrow> int \<Rightarrow> packet list \<Rightarrow> packet list \<Rightarrow> run_outcome \<Rightarrow> bool" where
  "run_adds si out ps ws r \<longleftrightarrow>
     (snd r = None \<longrightarrow> (\<exists>qs. run_shows si out (ps @ qs) (fst r) \<and> map pk_data qs = map pk_data ws))"

lemma segment_run_adds:
  assumes r: "rescale_ok (rn_rescale e)" and plan: "\<forall>k. sp_copyMap plan k = Some out \<longleftrightarrow> k = si"
  shows "run_shows si out ps st \<Longrightarrow> int (length ps + length evs) < 2 ^ 61 \<Longrightarrow> reads_timed (rn_rescale e) plan si out evs \<Longrightarrow>
    gives (segment_run e plan evs st) (run_adds si out ps (copied_reads plan si evs))"
proof (induction evs arbitrary: st ps)
  case Nil
  then show ?case by (auto intro!: gives_return exI [of _ "[]"] simp: run_adds_def)
next
  case (Cons ev evs)
  show ?case
  proof (cases ev)
    case (SegPacket raw fd afd flt)
    let ?p = "effective plan raw"
    have rest: "gives (and_then o1 (segment_run e plan evs)) (run_adds si out ps (ws @ copied_reads plan si evs))"
      if step: "snd o1 = None \<longrightarrow> (\<exists>qs. run_shows si out (ps @ qs) (fst o1) \<and> length qs \<le> 1 \<and> map pk_data qs = map pk_data ws)" for o1 ws
    proof (cases "snd o1")
      case None
      then obtain qs where qs: "run_shows si out (ps @ qs) (fst o1)" "length qs \<le> 1" "map pk_data qs = map pk_data ws"
        using step by blast
      have "gives (segment_run e plan evs (fst o1)) (run_adds si out (ps @ qs) (copied_reads plan si evs))"
        using qs Cons.prems by (intro Cons.IH) (auto simp: SegPacket)
      moreover have "run_adds si out (ps @ qs) (copied_reads plan si evs) x \<Longrightarrow>
          run_adds si out ps (ws @ copied_reads plan si evs) x" for x
        using qs(3) unfolding run_adds_def by (metis append.assoc map_append)
      ultimately show ?thesis using None by (cases o1) (auto simp: and_then_def intro: gives_mono)
    qed (cases o1, simp add: and_then_def gives_return run_adds_def)
    show ?thesis
    proof (cases "ends_segment plan ?p")
      case True
      with Cons.prems(1) show ?thesis
        by (auto intro!: gives_return exI [of _ "[]"] simp: SegPacket run_adds_def Let_def)
    next
      case False
      consider (video) v where "map_of (pl_video (ru_plan st)) (pk_stream raw) = Some v"
        | (audio) a where "map_of (pl_video (ru_plan st)) (pk_stream raw) = None" "map_of (pl_audio (ru_plan st)) (pk_stream raw) = Some a"
        | (copy) "map_of (pl_video (ru_plan st)) (pk_stream raw) = None" "map_of (pl_audio (ru_plan st)) (pk_stream raw) = None"
        by fastforce
      then show ?thesis
      proof cases
        case video
        have "pk_stream raw \<noteq> si" using Cons.prems(1) map_of_SomeD [OF video] by (auto simp: run_shows_def)
        moreover have "gives (do { r \<leftarrow> feed_video e (pk_stream raw) fd v st; and_then r (segment_run e plan evs) })
            (run_adds si out ps ([] @ copied_reads plan si evs))"
          by (rule gives_bind [OF feed_video_shows [OF Cons.prems(1) video]], rule rest) (auto intro!: exI [of _ "[]"])
        ultimately show ?thesis using False video by (simp add: SegPacket Let_def)
      next
        case audio
        have "pk_stream raw \<noteq> si" using Cons.prems(1) map_of_SomeD [OF audio(2)] by (auto simp: run_shows_def)
        moreover have "gives (and_then (feed_audio e (pk_stream raw) afd a st) (segment_run e plan evs))
            (run_adds si out ps ([] @ copied_reads plan si evs))"
          by (rule rest) (use feed_audio_shows [OF Cons.prems(1) audio(2)] in \<open>auto intro!: exI [of _ "[]"]\<close>)
        ultimately show ?thesis using False audio by (simp add: SegPacket Let_def)
      next
        case copy
        let ?ws = "if pk_stream raw = si \<and> \<not> trimmed plan ?p then [?p] else []"
        have "gives (and_then (copy_packet e plan ?p flt st) (segment_run e plan evs))
            (run_adds si out ps (?ws @ copied_reads plan si evs))"
          by (rule rest, rule impI)
            (use copy_packet_shows [OF r plan Cons.prems(1), of ?p flt "fst (copy_packet e plan ?p flt st)"] Cons.prems(2,3)
              in \<open>auto simp: SegPacket prod_eq_iff split: if_splits\<close>)
        then show ?thesis using False copy by (auto simp: SegPacket Let_def split: if_splits)
      qed
    qed
  qed (simp add: gives_return run_adds_def)
qed

section \<open>A copied stream to the end of the call\<close>

lemma and_then_gives:
  assumes "P (fst r)" "\<And>st. P st \<Longrightarrow> gives (f st) (\<lambda>r. P (fst r))"
  shows "gives (and_then r f) (\<lambda>r. P (fst r))"
proof -
  obtain st err where "r = (st, err)" by fastforce
  with assms show ?thesis by (cases err) (auto simp: and_then_def intro!: gives_return)
qed

lemma flush_videos_shows: "run_shows si out ps st \<Longrightarrow> gives (flush_videos e ks st) (\<lambda>r. run_shows si out ps (fst r))"
proof (induction ks arbitrary: st)
  case (Cons k ks)
  show ?case
  proof (cases "map_of (pl_video (ru_plan st)) k")
    case (Some v)
    have "gives (do { r \<leftarrow> video_flush (rn_time e k) (rn_flushVideo e k) (v\<lparr>ve_w := ru_fw st\<rparr>);
        and_then (put_video k (fst r) st, map_option SegFeedVideo (snd r)) (flush_videos e ks) }) (\<lambda>r. run_shows si out ps (fst r))"
      by (rule gives_bind [OF video_flush_beside [OF run_shows_video [OF Cons.prems Some]]], rule and_then_gives)
        (auto intro!: put_video_shows [OF Cons.prems Some] Cons.IH)
    then show ?thesis by (simp add: Some)
  qed (simp add: Cons)
qed (simp add: gives_return)

lemma flush_audios_shows: "run_shows si out ps st \<Longrightarrow> run_shows si out ps (fst (flush_audios e ks st))"
proof (induction ks arbitrary: st)
  case (Cons k ks)
  show ?case
  proof (cases "map_of (pl_audio (ru_plan st)) k")
    case (Some a)
    let ?f = "audio_flush (fst (rn_flushAudio e k)) (snd (rn_flushAudio e k)) (a\<lparr>ae_w := ru_fw st\<rparr>)"
    have "run_shows si out ps (put_audio k (fst ?f) st)"
      by (rule put_audio_shows [OF Cons.prems Some audio_flush_beside [OF run_shows_audio [OF Cons.prems Some]]])
    moreover obtain a1 err where "?f = (a1, err)" by fastforce
    ultimately show ?thesis using Cons.IH [of "put_audio k a1 st"] by (cases err) (simp_all add: Some)
  qed (simp add: Cons)
qed simp

text \<open>What the muxer gets on stream \<open>out\<close>, and the packets it carries.\<close>

definition stream_out :: "int \<Rightarrow> packet list \<Rightarrow> packet list \<Rightarrow> bool" where
  "stream_out out ws pkts \<longleftrightarrow>
     (\<exists>qs. filter (on_stream out) pkts = stamped qs \<and> copied_ok out qs \<and> map pk_data qs = map pk_data ws)"

lemma run_shows_start:
  "(\<forall>k v. (k, v) \<in> set (pl_video pl) \<longrightarrow> k \<noteq> si \<and> ve_outIdx v \<noteq> out) \<Longrightarrow>
   (\<forall>k a. (k, a) \<in> set (pl_audio pl) \<longrightarrow> k \<noteq> si \<and> ae_outIdx a \<noteq> out) \<Longrightarrow>
   run_shows si out [] \<lparr>ru_plan = pl, ru_fw = newFragWriter, ru_lastDTS = (\<lambda>_. None)\<rparr>"
  by (simp add: run_shows_def loop_ok_start)

lemma finish_shows:
  assumes "run_shows si out qs st" "fragWriter_finish werrs (ru_fw st) = (fw, None)" "map pk_data qs = map pk_data ws"
  shows "stream_out out ws (fw_out fw)"
proof -
  have "fw_wf (ru_fw st)" "stream_view out (ru_fw st) qs" "copied_ok out qs"
    using assms(1) by (simp_all add: run_shows_def loop_ok_def)
  with fragWriter_finish_stream [OF _ _ assms(2)] assms(3) show ?thesis
    unfolding stream_out_def by (intro exI [of _ qs]) (simp add: stamped_def)
qed

lemma run_adds_and_then:
  assumes "run_adds si out ps ws r" "\<And>qs st. run_shows si out qs st \<Longrightarrow> gives (f st) (\<lambda>r. run_shows si out qs (fst r))"
  shows "gives (and_then r f) (run_adds si out ps ws)"
proof (cases "snd r")
  case None
  then obtain qs where qs: "run_shows si out (ps @ qs) (fst r)" "map pk_data qs = map pk_data ws"
    using assms(1) by (auto simp: run_adds_def)
  have "gives (f (fst r)) (run_adds si out ps ws)"
    by (rule gives_mono [OF assms(2) [OF qs(1)]]) (use qs(2) in \<open>auto simp: run_adds_def\<close>)
  with None show ?thesis by (cases r) (simp add: and_then_def)
qed (cases r, simp add: and_then_def gives_return run_adds_def)

lemma segment_packets_stream:
  assumes r: "rescale_ok (rn_rescale e)" and plan: "\<forall>k. sp_copyMap plan k = Some out \<longleftrightarrow> k = si"
    and pl: "\<forall>k v. (k, v) \<in> set (pl_video pl) \<longrightarrow> k \<noteq> si \<and> ve_outIdx v \<noteq> out"
      "\<forall>k a. (k, a) \<in> set (pl_audio pl) \<longrightarrow> k \<noteq> si \<and> ae_outIdx a \<noteq> out"
    and ev: "int (length (rn_reads e)) < 2 ^ 61" "reads_timed (rn_rescale e) plan si out (rn_reads e)"
  shows "gives (segment_packets e plan pl)
    (\<lambda>r. \<forall>pkts. snd r = Inr pkts \<longrightarrow> stream_out out (copied_reads plan si (rn_reads e)) pkts)"
  unfolding segment_packets_def
proof (rule gives_bind [OF segment_run_adds [OF r plan run_shows_start [OF pl] _ ev(2)]])
  show "int (length [] + length (rn_reads e)) < 2 ^ 61" using ev(1) by simp
  fix r1 assume 1: "run_adds si out [] (copied_reads plan si (rn_reads e)) r1"
  show "gives (do {
     v \<leftarrow> and_then r1 (\<lambda>st. flush_videos e (map fst (pl_video (ru_plan st))) st);
     a \<leftarrow> and_then v (\<lambda>st. State_Monad.return (flush_audios e (map fst (pl_audio (ru_plan st))) st));
     State_Monad.return (ru_plan (fst a),
       case a of
         (st, Some err) \<Rightarrow> Inl err
       | (st, None) \<Rightarrow>
           (case fragWriter_finish (rn_werrs e) (ru_fw st) of
              (fw, Some err) \<Rightarrow> Inl (SegWrite err)
            | (fw, None) \<Rightarrow> if rn_trailer e then Inr (fw_out fw) else Inl SegTrailer)) })
    (\<lambda>r. \<forall>pkts. snd r = Inr pkts \<longrightarrow> stream_out out (copied_reads plan si (rn_reads e)) pkts)"
    apply (rule gives_bind, rule run_adds_and_then [OF 1 flush_videos_shows], assumption)
    apply (rule gives_bind, rule run_adds_and_then, assumption, rule gives_return, erule flush_audios_shows)
    apply (rule gives_return)
    apply (auto simp: run_adds_def split: option.splits prod.splits if_splits intro: finish_shows)
    done
qed

lemma gives_defer: "gives m P \<Longrightarrow> gives (av_defer x m) P"
  unfolding av_defer_def by (rule gives_bind, assumption, rule gives_then, rule gives_return)

text \<open>The bytes of a segment are those of the muxer's packets without the initialization prefix.\<close>

definition bytes_of :: "run_answers \<Rightarrow> (packet list \<Rightarrow> bool) \<Rightarrow> segment_error + byte list \<Rightarrow> bool" where
  "bytes_of e Q r \<longleftrightarrow> (\<forall>bytes. r = Inr bytes \<longrightarrow> (\<exists>pkts. stripInit (rn_mux e pkts) = Some bytes \<and> Q pkts))"

lemma bytes_of_error [simp]: "bytes_of e Q (Inl err)"
  by (simp add: bytes_of_def)

lemma segment_mux_bytes:
  assumes "gives (segment_packets e plan pl) (\<lambda>r. \<forall>pkts. snd r = Inr pkts \<longrightarrow> Q pkts)"
  shows "gives (segment_mux e plan k ts pl) (\<lambda>r. bytes_of e Q (snd r))"
  unfolding segment_mux_def
  by (intro gives_then gives_defer gives_if gives_return gives_bind [OF assms])
    (auto simp: bytes_of_def split: sum.splits option.splits)

lemma gives_release: "gives m P \<Longrightarrow> gives (do { r \<leftarrow> m; c; State_Monad.return r }) P"
  by (rule gives_bind, assumption) (intro gives_then gives_return)

lemma gives_with_output: "gives body (bytes_of e Q) \<Longrightarrow> gives (with_output o' err body) (bytes_of e Q)"
  unfolding with_output_def
  by (rule gives_then) (auto intro!: gives_return gives_release split: sum.split)

lemma gives_with_demux: "gives body (bytes_of e Q) \<Longrightarrow> gives (with_demux d err body) (bytes_of e Q)"
  unfolding with_demux_def
  by (rule gives_then) (auto intro!: gives_return gives_release split: sum.split)

text \<open>The window of the segment, which a plan's encoders do not change.\<close>

definition segment_window :: "demux_stream list \<Rightarrow> rat \<Rightarrow> rat \<Rightarrow> int list \<Rightarrow> segment_plan" where
  "segment_window ins startSec durSec streams =
     (let p = ins ! nat (hd streams)
      in plan_of ins (hd streams) (to_ticks p startSec) (to_ticks p (startSec + durSec)) no_plan)"

lemma plan_of_window:
  "effective (plan_of ins p a b pl) = effective (plan_of ins p a b no_plan)"
  "copied_reads (plan_of ins p a b pl) = copied_reads (plan_of ins p a b no_plan)"
  "reads_timed r (plan_of ins p a b pl) = reads_timed r (plan_of ins p a b no_plan)"
proof -
  show e: "effective (plan_of ins p a b pl) = effective (plan_of ins p a b no_plan)"
    by (simp add: fun_eq_iff effective_def plan_of_def)
  show "copied_reads (plan_of ins p a b pl) = copied_reads (plan_of ins p a b no_plan)"
    unfolding fun_eq_iff copied_reads_def e by (simp add: ends_segment_def trimmed_def plan_of_def)
  show "reads_timed r (plan_of ins p a b pl) = reads_timed r (plan_of ins p a b no_plan)"
    unfolding fun_eq_iff reads_timed_def e by simp
qed

lemma segment_body_stream:
  assumes s: "distinct streams" "i < length streams" "copies tv ins (streams ! i)"
    and r: "rescale_ok (rn_rescale e)" and ev: "int (length (rn_reads e)) < 2 ^ 61"
      "reads_timed (rn_rescale e) (segment_window ins startSec durSec streams) (streams ! i) (int i) (rn_reads e)"
  shows "gives (segment_body pa e ins startSec durSec streams tv)
    (bytes_of e (stream_out (int i) (copied_reads (segment_window ins startSec durSec streams) (streams ! i) (rn_reads e))))"
proof -
  let ?p = "ins ! nat (hd streams)" and ?si = "streams ! i"
  let ?a = "to_ticks ?p startSec" and ?b = "to_ticks ?p (startSec + durSec)"
  let ?w = "segment_window ins startSec durSec streams"
  let ?B = "bytes_of e (stream_out (int i) (copied_reads ?w ?si (rn_reads e)))"
  have at: "stands_at streams (int i) k \<longleftrightarrow> k = ?si" for k using s(2) by (auto simp: stands_at_def)
  have call: "gives (do {
      r \<leftarrow> segment_mux e (plan_of ins (hd streams) ?a ?b pl) k ts pl; freeAll (fst r); State_Monad.return (snd r) }) ?B"
    if pl: "planned tv ins streams pl" for pl k ts
  proof -
    have "gives (segment_packets e (plan_of ins (hd streams) ?a ?b pl) pl) (\<lambda>r. \<forall>pkts. snd r = Inr pkts \<longrightarrow>
        stream_out (int i) (copied_reads (plan_of ins (hd streams) ?a ?b pl) ?si (rn_reads e)) pkts)"
    proof (rule segment_packets_stream [OF r _ _ _ ev(1)])
      show "\<forall>k. sp_copyMap (plan_of ins (hd streams) ?a ?b pl) k = Some (int i) \<longleftrightarrow> k = ?si"
        using pl at s(3) by (auto simp: planned_def plan_of_def)
      show "\<forall>k v. (k, v) \<in> set (pl_video pl) \<longrightarrow> k \<noteq> ?si \<and> ve_outIdx v \<noteq> int i"
        "\<forall>k v. (k, v) \<in> set (pl_audio pl) \<longrightarrow> k \<noteq> ?si \<and> ae_outIdx v \<noteq> int i"
        using pl at s(3) unfolding planned_def by metis+
      show "reads_timed (rn_rescale e) (plan_of ins (hd streams) ?a ?b pl) ?si (int i) (rn_reads e)"
        using ev(2) by (simp add: plan_of_window(3) [of _ ins "hd streams" ?a ?b pl] segment_window_def Let_def)
    qed
    then have "gives (segment_packets e (plan_of ins (hd streams) ?a ?b pl) pl)
        (\<lambda>r. \<forall>pkts. snd r = Inr pkts \<longrightarrow> stream_out (int i) (copied_reads ?w ?si (rn_reads e)) pkts)"
      by (simp add: plan_of_window(2) [of ins "hd streams" ?a ?b pl] segment_window_def Let_def)
    from segment_mux_bytes [OF this] show ?thesis by (rule gives_bind) (intro gives_then gives_return)
  qed
  have plan: "gives (plan_streams pa ins ?a ?b tv streams no_plan) (\<lambda>r. \<forall>pl'. r = Inr pl' \<longrightarrow> planned tv ins streams pl')"
    using plan_streams_planned [OF planned_none, of streams pa ins ?a ?b tv] s(1) by simp
  show ?thesis
    unfolding segment_body_def Let_def
    by (intro gives_if gives_return gives_bind [OF plan]) (auto intro!: gives_return call split: sum.split)
qed

lemma under_gate_gives:
  "gives body P \<Longrightarrow> under_gate tv sel body st = Some (st', Inr x) \<Longrightarrow> P (Inr x)"
  by (auto simp: under_gate_def gives_def split_beta split: if_splits option.splits prod.splits) (metis fst_conv)+

text \<open>
  C23. Every stream that a segment copies is gapless, whatever is transcoded beside it: the muxer, whose
  bytes the call returns without their initialization prefix, gets on the output stream of its position
  exactly the packets of the window, in order, with strictly increasing decode times, no presentation time
  before its decode time, and durations that make each packet end where the next one starts. This holds
  whatever the demuxer's timestamps are, as long as each packet of the stream has one: missing and
  regressing decode times are repaired, and no encoder writes to the stream.
\<close>

theorem copied_stream_is_gapless:
  assumes "Segment a sel startSec durSec streams tv st = Some (st', Inr bytes)"
    and "distinct streams" "i < length streams" "copies tv (sa_streams a) (streams ! i)"
    and "rescale_ok (rn_rescale (sa_run a))" "int (length (rn_reads (sa_run a))) < 2 ^ 61"
    and "reads_timed (rn_rescale (sa_run a)) (segment_window (sa_streams a) startSec durSec streams) (streams ! i) (int i)
      (rn_reads (sa_run a))"
  shows "\<exists>pkts ps. stripInit (rn_mux (sa_run a) pkts) = Some bytes \<and> ps = filter (on_stream (int i)) pkts \<and>
    map pk_data ps =
      map pk_data (copied_reads (segment_window (sa_streams a) startSec durSec streams) (streams ! i) (rn_reads (sa_run a))) \<and>
    sorted_wrt (\<lambda>p q. pk_dts p < pk_dts q) ps \<and>
    (\<forall>p \<in> set ps. pk_dts p \<le> pk_pts p \<and> 0 < pk_dur p) \<and>
    (\<forall>j. j + 1 < length ps \<longrightarrow> pk_dts (ps ! j) + pk_dur (ps ! j) = pk_dts (ps ! (j + 1)))"
proof -
  let ?ws = "copied_reads (segment_window (sa_streams a) startSec durSec streams) (streams ! i) (rn_reads (sa_run a))"
  have "gives (segment_work a startSec durSec streams tv) (bytes_of (sa_run a) (stream_out (int i) ?ws))"
    unfolding segment_work_def
    by (intro gives_with_demux gives_with_output segment_body_stream assms)
  moreover have "under_gate tv sel (segment_work a startSec durSec streams tv) st = Some (st', Inr bytes)"
    using assms(1) by (simp add: Segment_def split: if_splits)
  ultimately have "bytes_of (sa_run a) (stream_out (int i) ?ws) (Inr bytes)" by (rule under_gate_gives)
  then obtain pkts where p: "stripInit (rn_mux (sa_run a) pkts) = Some bytes" "stream_out (int i) ?ws pkts"
    unfolding bytes_of_def by blast
  then obtain qs where qs: "filter (on_stream (int i)) pkts = stamped qs" "copied_ok (int i) qs" "map pk_data qs = map pk_data ?ws"
    by (auto simp: stream_out_def)
  show ?thesis
    by (rule exI [of _ pkts], rule exI [of _ "stamped qs"], intro conjI)
      (rule p(1), rule qs(1) [symmetric], rule trans [OF stamped_gapless(1) [OF qs(2)] qs(3)], (rule stamped_gapless [OF qs(2)])+)
qed

section \<open>A concrete segment\<close>

text \<open>A copied video beside an audio track that is transcoded, with a decode time that regresses.\<close>

definition demo_mixed_read :: "int \<Rightarrow> int \<Rightarrow> byte list \<Rightarrow> seg_read" where
  "demo_mixed_read si t bs = SegPacket \<lparr>pk_stream = si, pk_pts = t, pk_dts = t, pk_dur = 0, pk_data = bs\<rparr> (hd demo_feeds)
     (hd demo_audio_feeds) (False, False)"

definition demo_mixed :: segment_answers where
  "demo_mixed = demo_call\<lparr>sa_streams := [demo_stream 0 KVideo ''h264'', demo_stream 1 KAudio ''ac3''],
     sa_run := (sa_run demo_call)\<lparr>
       rn_reads := [demo_mixed_read 0 0 [1], demo_mixed_read 1 0 [9], demo_mixed_read 0 40 [2], demo_mixed_read 0 20 [3],
         demo_mixed_read 0 80 [4]]\<rparr>\<rparr>"

definition demo_audio_ready :: "(aenc_error + audioEncoder) \<Rightarrow> bool" where
  "demo_audio_ready r \<longleftrightarrow> (\<exists>a. r = Inr a \<and> ae_outIdx a = 1 \<and> ae_frameSize a = 2 \<and> ae_samples a = [] \<and> \<not> ae_started a \<and>
     ae_startTS a = 0 \<and> ae_endTS a = 80 \<and> ae_sent a = [] \<and> ae_nextPts a = 0)"

lemma demo_audio_opens:
  "gives (newAudioEncoder (demo_audio\<lparr>au_newStream := Some 1\<rparr>) 0 80 newFragWriter) demo_audio_ready"
  unfolding newAudioEncoder_def audio_encoder_setup_def audio_struct_def
  by (simp add: demo_audio_def av_try_then)
    (intro gives_then gives_return, simp add: demo_audio_ready_def)

definition demo_planned :: "segment_error + plan_state \<Rightarrow> bool" where
  "demo_planned r \<longleftrightarrow> (\<exists>a. demo_audio_ready (Inr a) \<and>
     r = Inr \<lparr>pl_copy = [0 \<mapsto> 0], pl_video = [], pl_audio = [(1, a)], pl_outs = 2\<rparr>)"

lemma demo_plans: "gives (plan_streams (sa_plan demo_mixed) (sa_streams demo_mixed) 0 80 False [0, 1] no_plan) demo_planned"
  by (simp add: demo_mixed_def demo_call_def demo_stream_def encodes_video_def encodes_audio_def next_stream_def no_plan_def
      demo_audio_def [THEN arg_cong [where f = au_newStream]])
    (rule gives_bind [OF demo_audio_opens], auto intro!: gives_return simp: demo_planned_def demo_audio_ready_def)

lemma demo_packets:
  assumes "demo_audio_ready (Inr a)" and pl: "pl = \<lparr>pl_copy = [0 \<mapsto> 0], pl_video = [], pl_audio = [(1, a)], pl_outs = 2\<rparr>"
  shows "gives (segment_packets (sa_run demo_mixed) (plan_of (sa_streams demo_mixed) 0 0 80 pl) pl) (\<lambda>r. \<exists>pkts. snd r = Inr pkts \<and> length pkts < 8)"
proof -
  have a: "ae_outIdx a = 1" "ae_frameSize a = 2" "ae_samples a = []" "\<not> ae_started a" "ae_startTS a = 0" "ae_endTS a = 80"
    using assms by (simp_all add: demo_audio_ready_def)
  show ?thesis
    unfolding gives_def segment_packets_def pl
    by (simp add: demo_mixed_def demo_call_def plan_of_def plan_keys_def demo_mixed_read_def effective_def ends_segment_def noPTS_def
      and_then_def copy_packet_def trimmed_def demo_stream_def sanitizeCopyDTS_def fragWriter_write_def newFragWriter_def
      feed_audio_def demo_audio_feeds_def demo_source_def demo_audio_frame_def audio_feed_def outside_window_def a put_audio_def
      feed_frame_def audio_drain.simps frame_size_def drain_round_def demo_drain_def audio_encode_def quiet_run_def
      audio_flush_def wrap64_id in_int64_def fragWriter_finish_def Let_def)
qed

lemma short_has_no_box: "length full < 8 \<Longrightarrow> stripInit full = Some full"
  by (simp add: stripInit_def firstBoxOffset_def box_scan.simps)

lemma demo_mixed_succeeds: "\<exists>st bytes. Segment demo_mixed SelToken 0 (8 / 100) [0, 1] False (one_slot, no_objects) = Some (st, Inr bytes)"
proof -
  let ?ok = "\<lambda>r :: segment_error + byte list. \<exists>bytes. r = Inr bytes"
  have mux: "gives (segment_mux (sa_run demo_mixed) (plan_of (sa_streams demo_mixed) 0 0 80 pl) k ts pl) (\<lambda>r. ?ok (snd r))"
    if "demo_audio_ready (Inr a)" "pl = \<lparr>pl_copy = [0 \<mapsto> 0], pl_video = [], pl_audio = [(1, a)], pl_outs = 2\<rparr>" for a pl k ts
  proof -
    have run: "rn_setOpts (sa_run demo_mixed)" "rn_header (sa_run demo_mixed)" "rn_seek (sa_run demo_mixed) k ts"
      "\<And>ps. length (rn_mux (sa_run demo_mixed) ps) = length ps" by (simp_all add: demo_mixed_def demo_call_def)
    have "gives (do {
            r \<leftarrow> segment_packets (sa_run demo_mixed) (plan_of (sa_streams demo_mixed) 0 0 80 pl) pl;
            State_Monad.return (fst r,
              case snd r of
                Inl err \<Rightarrow> Inl err
              | Inr ps \<Rightarrow> (case stripInit (rn_mux (sa_run demo_mixed) ps) of None \<Rightarrow> Inl SegPanic | Some bytes \<Rightarrow> Inr bytes)) })
        (\<lambda>r. ?ok (snd r))"
      by (rule gives_bind [OF demo_packets [OF that]], rule gives_return) (auto simp: run(4) short_has_no_box)
    then show ?thesis
      unfolding segment_mux_def by (simp add: run(1-3)) (rule gives_then, rule gives_defer, rule gives_then, rule gives_defer)
  qed
  have body: "gives (segment_body (sa_plan demo_mixed) (sa_run demo_mixed) (sa_streams demo_mixed) 0 (2 / 25) [0, 1] False) ?ok"
  proof -
    have t: "to_ticks (sa_streams demo_mixed ! 0) 0 = 0" "to_ticks (sa_streams demo_mixed ! 0) (2 / 25) = 80"
      "length (sa_streams demo_mixed) = 2"
      by (simp_all add: demo_mixed_def demo_call_def demo_stream_def to_ticks_def) code_simp+
    show ?thesis
      unfolding segment_body_def Let_def
      by (simp add: t del: plan_streams.simps)
        (rule gives_bind [OF demo_plans], clarsimp simp: demo_planned_def, rule gives_bind [OF mux [OF _ refl]], assumption,
          rule gives_then, rule gives_return, assumption)
  qed
  have "gives (segment_work demo_mixed 0 (8 / 100) [0, 1] False) ?ok"
    unfolding segment_work_def with_demux_def with_output_def openDemux_def openOutput_def
    by (simp add: demo_mixed_def [THEN arg_cong [where f = sa_demux]] demo_mixed_def [THEN arg_cong [where f = sa_output]] demo_call_def av_try_then)
      (rule gives_then, rule gives_then, rule gives_then, rule gives_then, rule gives_then, rule gives_bind [OF body],
        rule gives_then, rule gives_then, rule gives_return, assumption)
  then show ?thesis
    by (auto simp: Segment_def under_gate_def gives_def split_beta)
qed

theorem copied_stream_is_gapless_witness:
  "\<exists>st bytes pkts. Segment demo_mixed SelToken 0 (8 / 100) [0, 1] False (one_slot, no_objects) = Some (st, Inr bytes) \<and>
     stripInit (rn_mux (sa_run demo_mixed) pkts) = Some bytes \<and> map pk_data (filter (on_stream 0) pkts) = [[1], [2], [3]]"
proof -
  obtain st bytes where s: "Segment demo_mixed SelToken 0 (8 / 100) [0, 1] False (one_slot, no_objects) = Some (st, Inr bytes)"
    using demo_mixed_succeeds by blast
  have "copies False (sa_streams demo_mixed) ([0, 1] ! 0)" "rescale_ok (rn_rescale (sa_run demo_mixed))"
    by (simp_all add: copies_def demo_mixed_def demo_call_def demo_stream_def encodes_video_def encodes_audio_def rescale_ok_def)
  moreover have "reads_timed (rn_rescale (sa_run demo_mixed)) (segment_window (sa_streams demo_mixed) 0 (8 / 100) [0, 1]) ([0, 1] ! 0) (int 0)
      (rn_reads (sa_run demo_mixed))"
    by (simp add: reads_timed_def demo_mixed_def demo_call_def demo_mixed_read_def timed_def effective_def noPTS_def)
  moreover have "int (length (rn_reads (sa_run demo_mixed))) < 2 ^ 61"
    by (simp add: demo_mixed_def)
  moreover have "map pk_data (copied_reads (segment_window (sa_streams demo_mixed) 0 (8 / 100) [0, 1]) ([0, 1] ! 0) (rn_reads (sa_run demo_mixed))) =
      [[1], [2], [3]]"
    by code_simp
  ultimately show ?thesis
    using copied_stream_is_gapless [OF s, of 0] s by simp metis
qed

end
