(* ===== verification/Thumbnails.thy ===== *)
theory Thumbnails
  imports Extract Subtitles Gates Playback
begin

text \<open>
  The thumbnail endpoint (\<^verbatim>\<open>handlers/thumbnails.go\<close>): it composes the cache of pictures, the reader over the
  torrent's file and the extraction of one frame. The state is the storage with its readers and the cache.
  What libav answers while it reads through a reader, and what other requests do to the cache meanwhile,
  is an argument; so are \<^verbatim>\<open>strconv.ParseFloat\<close>, for numbers an \<^verbatim>\<open>int\<close> can hold, and the client's file list.
\<close>

type_synonym thumb_state = "world \<times> ThumbnailCache"

record 'f thumb_env =
  tv_recheck :: int
  tv_admission :: "ctx_error option"
  tv_wait :: info_wait
  tv_libav :: "ref \<Rightarrow> thumb_state \<Rightarrow> thumb_state \<times> 'f thumb_answers"
  tv_heap :: av_heap
  tv_stored :: int

datatype thumb_failure = ThumbGone ctx_error | ThumbOpenFails open_error | ThumbExtract thumb_error

datatype thumb_response =
    ThumbJpeg "byte list" | ThumbBadHash | ThumbNotActive | ThumbBadIndex | ThumbOutOfBounds nat | ThumbFailed thumb_failure

text \<open>\<^verbatim>\<open>math.Round\<close>: halves go away from zero.\<close>

definition round_half_away :: "rat \<Rightarrow> int" where
  "round_half_away x = (if x < 0 then - \<lfloor>1 / 2 - x\<rfloor> else \<lfloor>x + 1 / 2\<rfloor>)"

definition thumb_bucket :: "(string \<Rightarrow> rat option) \<Rightarrow> string \<Rightarrow> int" where
  "thumb_bucket pf timeStr =
     (let timeVal = (case pf timeStr of None \<Rightarrow> 0 | Some t \<Rightarrow> if t < 0 then 0 else t);
          roundedTime = round_half_away (timeVal / 5) * 5
      in if roundedTime < 0 then 0 else roundedTime)"

definition thumb_key :: "string \<Rightarrow> int \<Rightarrow> int \<Rightarrow> string" where
  "thumb_key hashHex fileIndex bucket = hashHex @ ''_'' @ Itoa fileIndex @ ''_'' @ Itoa bucket"

text \<open>What the leader of a flight does; the requests that join it get its result.\<close>

definition thumb_run ::
  "'f thumb_env \<Rightarrow> client \<Rightarrow> string \<Rightarrow> string \<Rightarrow> int \<Rightarrow> string \<Rightarrow> thumb_state \<Rightarrow> thumb_state \<times> (thumb_failure + byte list)"
where
  "thumb_run env cl hashHex fileIndexStr bucket key s =
     (case thumb_Get (tv_recheck env) key (snd s) of
        (c, Some data) \<Rightarrow> ((fst s, c), Inr data)
      | (c, None) \<Rightarrow>
          (case tv_admission env of
             Some e \<Rightarrow> ((fst s, c), Inl (ThumbGone e))
           | None \<Rightarrow>
               (case openTorrentFileReader cl (tv_wait env) hashHex fileIndexStr ClassAheadDemux (fst s) of
                  Inl e \<Rightarrow> ((fst s, c), Inl (ThumbOpenFails e))
                | Inr (w1, rs, _) \<Rightarrow>
                    let ((w2, c2), a) = tv_libav env rs (w1, c);
                        r = fst (run_state (Thumbnail a (of_int bucket)) (tv_heap env));
                        c3 = (case r of Inl _ \<Rightarrow> c2 | Inr data \<Rightarrow> thumb_Set (tv_stored env) key data c2)
                    in ((Reader_Close rs w2, c3), map_sum ThumbExtract id r))))"

definition HandleGetThumbnail ::
  "(int \<Rightarrow> string \<Rightarrow> thumb_state \<Rightarrow> thumb_state \<times> (thumb_failure + byte list)) \<Rightarrow> client \<Rightarrow>
   (torrent_view \<Rightarrow> torrent_file list) \<Rightarrow> (string \<Rightarrow> rat option) \<Rightarrow> int \<Rightarrow> string \<Rightarrow> string \<Rightarrow> string \<Rightarrow>
   thumb_state \<Rightarrow> thumb_state \<times> thumb_response"
where
  "HandleGetThumbnail sfg cl Files pf now hashHex fileIndexStr timeStr s =
     (case decode_hash hashHex of
        None \<Rightarrow> (s, ThumbBadHash)
      | Some infoHash \<Rightarrow>
          (case map_of cl infoHash of
             None \<Rightarrow> (s, ThumbNotActive)
           | Some t \<Rightarrow>
               (case Atoi fileIndexStr of
                  None \<Rightarrow> (s, ThumbBadIndex)
                | Some fileIndex \<Rightarrow>
                    if fileIndex < 1 then (s, ThumbBadIndex)
                    else if int (length (Files t)) \<le> fileIndex - 1 then (s, ThumbOutOfBounds (length (Files t)))
                    else
                      let bucket = thumb_bucket pf timeStr;
                          key = thumb_key hashHex fileIndex bucket
                      in case thumb_Get now key (snd s) of
                           (c, Some data) \<Rightarrow> ((fst s, c), ThumbJpeg data)
                         | (c, None) \<Rightarrow>
                             (case sfg bucket key (fst s, c) of
                                (s1, Inl e) \<Rightarrow> (s1, ThumbFailed e)
                              | (s1, Inr data) \<Rightarrow> (s1, ThumbJpeg data)))))"

section \<open>Buckets and keys\<close>

lemma thumb_bucket_near:
  assumes "pf timeStr = Some t" "0 \<le> t"
  shows "5 dvd thumb_bucket pf timeStr \<and> \<bar>of_int (thumb_bucket pf timeStr) - t\<bar> \<le> 5 / 2"
proof -
  define k where "k = \<lfloor>t / 5 + 1 / 2\<rfloor>"
  have k: "of_int k \<le> t / 5 + 1 / 2" "t / 5 + 1 / 2 < of_int k + 1" unfolding k_def by linarith+
  have "0 \<le> k" unfolding k_def using assms(2) by (simp add: le_floor_iff)
  then have b: "thumb_bucket pf timeStr = k * 5"
    using assms by (simp add: thumb_bucket_def round_half_away_def k_def Let_def)
  from k have "\<bar>of_int k * 5 - t\<bar> \<le> 5 / 2" by (simp add: abs_if)
  then show ?thesis by (simp add: b)
qed

lemma thumb_bucket_nonneg: "0 \<le> thumb_bucket pf timeStr"
  by (simp add: thumb_bucket_def Let_def)

lemma hex_plain: "hex_decode s = Some bs \<Longrightarrow> plain s"
proof (induction s arbitrary: bs rule: hex_decode.induct)
  case (3 c d cs)
  have "hex_val (CHR ''_'') = None" by (simp add: hex_val_def)
  with 3 show ?case by (auto simp: plain_def split: option.splits)
qed (auto simp: plain_def)

lemma thumb_key_inj:
  assumes "decode_hash h = Some a" "decode_hash h' = Some a'" "thumb_key h i b = thumb_key h' i' b'"
  shows "h = h' \<and> Itoa i = Itoa i' \<and> Itoa b = Itoa b'"
proof -
  have "split_on (CHR ''_'') (thumb_key h i b) = [h, Itoa i, Itoa b]" if "decode_hash h = Some a" for h i b a
    using that hex_plain [of h] plain_Itoa [of i] plain_Itoa [of b]
    by (auto simp: thumb_key_def plain_def decode_hash_def split_on_append split_on_none split: option.splits)
  then show ?thesis using assms by (metis list.inject)
qed

section \<open>A picture is of the file and the bucket that were asked for\<close>

text \<open>
  \<open>content\<close> has, for a file of a torrent and a bucket, the pictures that may come out of it. An extraction
  respects it when what libav answers over a reader that covers the file gives one of them, and what the other
  requests stored meanwhile respects it too.
\<close>

type_synonym thumb_content = "byte list \<Rightarrow> int \<Rightarrow> int \<Rightarrow> byte list set"

definition thumb_entry_ok :: "thumb_content \<Rightarrow> string \<Rightarrow> byte list \<Rightarrow> bool" where
  "thumb_entry_ok content key data \<longleftrightarrow>
     (\<forall>h hash i b. key = thumb_key h i b \<longrightarrow> decode_hash h = Some hash \<longrightarrow> data \<in> content hash i b)"

definition thumbs_ok :: "thumb_content \<Rightarrow> ThumbnailCache \<Rightarrow> bool" where
  "thumbs_ok content c \<longleftrightarrow>
     thumb_inv c \<and> (\<forall>key created data. thumb_look c key = Some (created, data) \<longrightarrow> thumb_entry_ok content key data)"

definition libav_ok :: "thumb_content \<Rightarrow> client \<Rightarrow> string \<Rightarrow> int \<Rightarrow> 'f thumb_env \<Rightarrow> bool" where
  "libav_ok content cl h b env \<longleftrightarrow>
     (\<forall>rs w c s' a hash idx.
        tv_libav env rs (w, c) = (s', a) \<longrightarrow> thumbs_ok content c \<longrightarrow> decode_hash h = Some hash \<longrightarrow>
        covers_file cl (tv_wait env) h idx w rs \<longrightarrow>
        thumbs_ok content (snd s') \<and> (\<forall>data. thumb_result a (of_int b) = Inr data \<longrightarrow> data \<in> content hash idx b))"

lemma thumbs_ok_new: "thumbs_ok content (NewThumbnailCache n t)"
  by (simp add: thumbs_ok_def NewThumbnailCache_ok)

lemma thumbs_ok_Get: "thumbs_ok content c \<Longrightarrow> thumbs_ok content (fst (thumb_Get now key c))"
  using thumb_Get_inv [of c now key] thumb_Get_look [of now key c]
  unfolding thumbs_ok_def map_le_def by (metis domI)

lemma thumbs_ok_hit:
  assumes "thumbs_ok content c" "thumb_Get now key c = (c', Some data)"
  shows "thumb_entry_ok content key data"
proof -
  obtain e where "map_of (tc_items c) key = Some e" "te_data e = data"
    using assms(2) by (auto simp: thumb_Get_def split: option.splits if_splits)
  then have "thumb_look c key = Some (te_createdAt e, data)" by (simp add: thumb_look_def)
  with assms(1) show ?thesis by (auto simp: thumbs_ok_def)
qed

lemma thumbs_ok_Set:
  assumes "thumbs_ok content c" "thumb_entry_ok content key data"
  shows "thumbs_ok content (thumb_Set now key data c)"
proof -
  have i: "thumb_inv c" using assms(1) by (simp add: thumbs_ok_def)
  have "thumb_entry_ok content k d" if "thumb_look (thumb_Set now key data c) k = Some (t, d)" for k t d
  proof -
    have "((thumb_look c)(key \<mapsto> (now, data))) k = Some (t, d)"
      using that thumb_Set_look(1) [OF i, of now key data] unfolding map_le_def by (metis domI)
    then show ?thesis using assms by (auto simp: thumbs_ok_def split: if_splits)
  qed
  then show ?thesis using thumb_Set_inv [OF i] unfolding thumbs_ok_def by blast
qed

lemma Thumbnail_value: "fst (run_state (Thumbnail a t) h) = thumb_result a t"
  using Thumbnail_settles [of a t] by (simp add: settles_def gives_def)

lemma Atoi_Sscanf:
  assumes "Atoi s = Some n"
  shows "Sscanf_d s = Some n"
proof -
  have dv: "\<forall>c \<in> set cs. digit_val c \<noteq> None" if "dec_digits acc cs = Some m" for acc cs m
    using that by (induction cs arbitrary: acc) (auto split: option.splits)
  have digits: "cs \<noteq> [] \<and> takeWhile (\<lambda>c. \<exists>d. digit_val c = Some d) cs = cs" if "parse_nat cs = Some m" for cs m
    using that dv unfolding parse_nat_def by (auto simp: takeWhile_eq_all_conv split: if_splits)
  obtain c cs where s: "s = c # cs" using assms by (cases s) (simp_all add: Atoi_def)
  show ?thesis
  proof (cases "c = CHR ''+'' \<or> c = CHR ''-''")
    case True
    then obtain m where m: "parse_nat cs = Some m" using assms s by (auto simp: Atoi_def split: option.splits if_splits)
    have "\<not> is_space c" using True by (auto simp: is_space_def)
    moreover have "(if c = CHR ''+'' \<or> c = CHR ''-'' then [c] else []) = [c]" using True by simp
    ultimately show ?thesis using assms unfolding s Sscanf_d_def Let_def by (simp add: digits [OF m])
  next
    case False
    then obtain m where m: "parse_nat s = Some m" using assms s by (auto simp: Atoi_def split: option.splits if_splits)
    note tw = digits [OF m]
    have dc: "digit_val c \<noteq> None" using tw unfolding s by (auto split: if_splits)
    then have cs: "takeWhile (\<lambda>c. \<exists>d. digit_val c = Some d) cs = cs" using conjunct2 [OF tw] unfolding s by simp
    from dc have "\<not> is_space c" by (auto simp: is_space_def digit_val_def Let_def split: if_splits)
    moreover have "(if c = CHR ''+'' \<or> c = CHR ''-'' then [c] else []) = []" using False by simp
    ultimately show ?thesis using assms dc unfolding s Sscanf_d_def Let_def by (auto simp: cs)
  qed
qed

lemma thumb_run_ok:
  assumes "decode_hash h = Some hash" "Atoi f = Some idx" "libav_ok content cl h b env" "thumbs_ok content (snd s)"
    and "thumb_run env cl h f b (thumb_key h idx b) s = (s', r)"
  shows "thumbs_ok content (snd s') \<and> (\<forall>data. r = Inr data \<longrightarrow> data \<in> content hash idx b)"
proof -
  let ?key = "thumb_key h idx b"
  obtain c got where g: "thumb_Get (tv_recheck env) ?key (snd s) = (c, got)" by fastforce
  have c: "thumbs_ok content c" using thumbs_ok_Get [OF assms(4)] g by (metis fst_conv)
  show ?thesis
  proof (cases got)
    case (Some data)
    with thumbs_ok_hit [OF assms(4)] g have "thumb_entry_ok content ?key data" by simp
    with Some g c assms(1,5) show ?thesis by (auto simp: thumb_run_def thumb_entry_ok_def)
  next
    case None
    show ?thesis
    proof (cases "\<exists>w1 rs ext. openTorrentFileReader cl (tv_wait env) h f ClassAheadDemux (fst s) = Inr (w1, rs, ext) \<and>
        tv_admission env = None")
      case False
      with None g c assms(5) show ?thesis
        by (auto simp: thumb_run_def split: option.splits sum.splits prod.splits)
    next
      case True
      then obtain w1 rs ext where o: "openTorrentFileReader cl (tv_wait env) h f ClassAheadDemux (fst s) = Inr (w1, rs, ext)"
          "tv_admission env = None" by blast
      have cov: "covers_file cl (tv_wait env) h idx w1 rs"
        using openTorrentFileReader_covers [OF o(1)] Atoi_Sscanf [OF assms(2)] by auto
      obtain w2 c2 a where l: "tv_libav env rs (w1, c) = ((w2, c2), a)" by (metis prod_cases3 prod.collapse)
      have k: "thumbs_ok content c2" "\<And>data. thumb_result a (of_int b) = Inr data \<Longrightarrow> data \<in> content hash idx b"
        using assms(3) l c assms(1) cov unfolding libav_ok_def by force+
      have e: "thumb_entry_ok content ?key data" if "data \<in> content hash idx b" for data
        unfolding thumb_entry_ok_def
      proof (intro allI impI)
        fix h' hash' i' b' assume "?key = thumb_key h' i' b'" "decode_hash h' = Some hash'"
        with thumb_key_inj [OF assms(1), of h' hash' idx b i' b'] Itoa_inject assms(1) that
        show "data \<in> content hash' i' b'" by (metis option.inject)
      qed
      show ?thesis
        using assms(5) g None o l k thumbs_ok_Set [OF k(1)] e
        by (auto simp: thumb_run_def Thumbnail_value Let_def split: sum.splits)
    qed
  qed
qed

text \<open>A flight a request leads is a run of its own; one it joins only hands it the leader's result.\<close>

definition thumb_flight_ok ::
  "thumb_content \<Rightarrow> client \<Rightarrow> string \<Rightarrow> string \<Rightarrow>
   (int \<Rightarrow> string \<Rightarrow> thumb_state \<Rightarrow> thumb_state \<times> (thumb_failure + byte list)) \<Rightarrow> bool"
where
  "thumb_flight_ok content cl h f sfg \<longleftrightarrow>
     (\<forall>b idx hash s s' r. sfg b (thumb_key h idx b) s = (s', r) \<longrightarrow> decode_hash h = Some hash \<longrightarrow> Atoi f = Some idx \<longrightarrow>
        thumbs_ok content (snd s) \<longrightarrow>
        thumbs_ok content (snd s') \<and> (\<forall>data. r = Inr data \<longrightarrow> data \<in> content hash idx b))"

lemma lead_flight_ok: "(\<And>b. libav_ok content cl h b env) \<Longrightarrow> thumb_flight_ok content cl h f (thumb_run env cl h f)"
  unfolding thumb_flight_ok_def using thumb_run_ok by blast


definition demo_thumb :: "unit thumb_answers" where
  "demo_thumb =
     \<lparr>ta_demux = \<lparr>da_io = True, da_format = True, da_open = True, da_info = True\<rparr>,
      ta_streams = [\<lparr>ds_Index = 0, ds_Kind = KVideo, ds_Codec = ''h264'', ds_Language = '''', ds_Title = '''', ds_StartTime = 0,
        ds_tbNum = 1, ds_tbDen = 1000, ds_AttachedPic = False, ds_ExtraData = ''''\<rparr>],
      ta_decoder = True, ta_allocDecoder = True, ta_params = True, ta_openDecoder = True, ta_seek = (\<lambda>_. True),
      ta_reads = (\<lambda>_. ([\<lparr>vp_stream = 1, vp_sent = True, vp_decoded = NeedsMore\<rparr>, \<lparr>vp_stream = 0, vp_sent = True, vp_decoded = Frame ()\<rparr>], ReadFails)),
      ta_scaler = (\<lambda>_. True), ta_scale = (\<lambda>_. True), ta_encoder = True, ta_allocEncoder = True, ta_openEncoder = True,
      ta_sendFrame = (\<lambda>_. True), ta_jpeg = (\<lambda>_. Some [9])\<rparr>"

definition demo_thumb_env :: "unit thumb_env" where
  "demo_thumb_env =
     \<lparr>tv_recheck = 1, tv_admission = None, tv_wait = InfoTimeout, tv_libav = (\<lambda>rs s. (s, demo_thumb)),
      tv_heap = \<lparr>av_next = 0, av_live = {#}, av_bad = False\<rparr>, tv_stored = 2\<rparr>"

lemma demo_thumb_result: "thumb_result demo_thumb t = Inr [9]"
  by (simp add: thumb_result_def thumb_body_result_def demux_error_of_def demo_thumb_def thumb_stream_def seek_target_def
      encode_result_def split: option.splits)


text \<open>
  A request that waited for the flight of another finds the picture stored when its own turn comes: within the time to
  live it opens nothing and changes nothing of the storage.
\<close>

lemma thumb_run_again:
  assumes "thumb_Get (tv_recheck env) key (snd s) = (c, Some data)"
  shows "thumb_run env cl h f b key s = ((fst s, c), Inr data)"
  by (simp add: thumb_run_def assms)

end
