(* ===== verification/Sidecar.thy ===== *)
theory Sidecar
  imports TorrentFiles
begin

text \<open>
  Serving an external subtitle file (\<^verbatim>\<open>handlers/external.go\<close>, \<^verbatim>\<open>HandleGetExternalSubtitleFile\<close>): the whole file is
  read through the storage reader, up to a limit, and converted by its extension. One element of \<open>calls\<close> is
  one call of the reader: the room \<^verbatim>\<open>io.ReadAll\<close> has left in its buffer and what happens during the call.
\<close>

section \<open>What a read leaves behind\<close>

lemma readLoop_serves:
  assumes job: "job_ok tlen J"
  shows "serves J own w \<Longrightarrow> \<forall>e \<in> set env. keeps J (ev_run e) \<Longrightarrow> \<forall>g \<in> set gaps. gap_ok J g \<Longrightarrow>
    0 \<le> pos \<Longrightarrow> pos + int n \<le> int (j_fs J) \<Longrightarrow>
    readLoop tlen io sp (j_r J) gaps env now n pos acc w = Some (w', bs, None) \<Longrightarrow> \<exists>own'. serves J own' w'"
proof (induction gaps arbitrary: env now n pos acc w own)
  case Nil
  show ?case
  proof (cases "n = 0")
    case True
    with Nil.prems(1,6) show ?thesis by (auto simp: readLoop_zero readDone_def)
  next
    case False
    with readLoop_round [OF job Nil.prems(1-3) _ Nil.prems(4-6)] show ?thesis by (auto simp: round_result_def)
  qed
next
  case (Cons g gaps)
  show ?case
  proof (cases "n = 0")
    case True
    with Cons.prems(1,6) show ?thesis by (auto simp: readLoop_zero readDone_def)
  next
    case False
    then obtain env' now' nr w1 own' where r: "set env' \<subseteq> set env" "nr \<le> n" "serves J own' w1"
        "readLoop tlen io sp (j_r J) gaps env' now' (n - nr) (pos + int nr)
           (acc @ subslice (j_fo J + nat pos) nr (j_src J)) w1 = Some (w', bs, None)"
      using readLoop_round [OF job Cons.prems(1-3) _ Cons.prems(4-6)] unfolding round_result_def by blast
    show ?thesis
      using r(1,2) Cons.prems(2-5) by (intro Cons.IH [OF r(3) _ _ _ _ r(4)]) (auto simp: of_nat_diff)
  qed
qed

lemma Reader_Read_serves:
  assumes "job_ok tlen J" "serves J own w"
    and "\<forall>e \<in> set env. keeps J (ev_run e)" "\<forall>g \<in> set gaps. gap_ok J g"
    and "\<not> r_closed (w_reader w (j_r J))" "r_pos (w_reader w (j_r J)) = int pos" "pos < j_fs J" "0 < plen"
    and "Reader_Read tlen io (j_r J) gaps env now plen w = Some (w', bs, None)"
  shows "\<exists>own'. serves J own' w'"
proof -
  let ?n = "min plen (j_fs J - pos)"
  have fs: "r_fileSize (w_reader w (j_r J)) = int (j_fs J)"
    using assms(2) by (simp add: serves_def fields_ok_def)
  have "(if int (j_fs J) - int pos < int plen then nat (int (j_fs J) - int pos) else plen) = ?n"
    by (auto simp: min_def)
  with assms(5-9) fs have
    "readLoop tlen io (fileSpan w (j_r J)) (j_r J) gaps env now ?n (int pos) [] w = Some (w', bs, None)"
    by (simp add: Reader_Read_def Let_def split: if_splits)
  then show ?thesis using assms(7) by (intro readLoop_serves [OF assms(1-4)]) auto
qed

section \<open>Reading up to a limit\<close>

type_synonym read_call = "nat \<times> (world \<Rightarrow> world) list \<times> wake_event list \<times> time_ns"

text \<open>\<^verbatim>\<open>io.ReadAll\<close> over \<^verbatim>\<open>io.LimitReader\<close>: \<open>n\<close> is what the limit leaves.\<close>

fun ReadAll_limited ::
  "(ref \<Rightarrow> int) \<Rightarrow> io_faults \<Rightarrow> ref \<Rightarrow> read_call list \<Rightarrow> nat \<Rightarrow> byte list \<Rightarrow> world \<Rightarrow>
   (world \<times> byte list \<times> go_error option) option"
where
  "ReadAll_limited tlen io r calls n acc w =
     (if n = 0 then Some (w, acc, None)
      else
        case calls of
          [] \<Rightarrow> None
        | (room, gaps, env, now) # calls' \<Rightarrow>
            (case Reader_Read tlen io r gaps env now (min room n) w of
               None \<Rightarrow> None
             | Some (w', bs, err) \<Rightarrow>
                 if err = Some ErrEOF then Some (w', acc @ bs, None)
                 else if err \<noteq> None then Some (w', acc @ bs, err)
                 else ReadAll_limited tlen io r calls' (n - length bs) (acc @ bs) w'))"

declare ReadAll_limited.simps [simp del]

definition maxExternalSubtitleBytes :: nat where
  "maxExternalSubtitleBytes = 32 * 1024 * 1024"

datatype sidecar_response = SidecarBody "byte list" content_type | SidecarUnavailable | SidecarReadFailed | SidecarGone

definition HandleGetExternalSubtitleFile ::
  "(ref \<Rightarrow> int) \<Rightarrow> io_faults \<Rightarrow> (byte list \<Rightarrow> byte list option) \<Rightarrow> client \<Rightarrow> info_wait \<Rightarrow> string \<Rightarrow> string \<Rightarrow>
   read_call list \<Rightarrow> bool \<Rightarrow> world \<Rightarrow> (world \<times> sidecar_response) option"
where
  "HandleGetExternalSubtitleFile tlen io srt cl wait hashHex fileIndexStr calls gone w =
     (case openTorrentFileReader cl wait hashHex fileIndexStr ClassColdProbe w of
        Inl e \<Rightarrow> Some (w, SidecarUnavailable)
      | Inr (w1, rs, ext) \<Rightarrow>
          (case ReadAll_limited tlen io rs calls maxExternalSubtitleBytes [] w1 of
             None \<Rightarrow> None
           | Some (w2, raw, Some e) \<Rightarrow> Some (Reader_Close rs w2, if gone then SidecarGone else SidecarReadFailed)
           | Some (w2, raw, None) \<Rightarrow>
               let (body, contentType) = convertExternalSubtitle srt raw ext
               in Some (Reader_Close rs w2, SidecarBody body contentType)))"

definition calls_ok :: "read_job \<Rightarrow> read_call list \<Rightarrow> bool" where
  "calls_ok J calls \<longleftrightarrow>
     (\<forall>(room, gaps, env, now) \<in> set calls. 0 < room \<and> (\<forall>e \<in> set env. keeps J (ev_run e)) \<and> (\<forall>g \<in> set gaps. gap_ok J g))"

lemma ReadAll_limited_bytes:
  assumes job: "job_ok tlen J"
  shows "calls_ok J calls \<Longrightarrow> serves J own w \<Longrightarrow> r_pos (w_reader w (j_r J)) = int pos \<Longrightarrow> pos \<le> j_fs J \<Longrightarrow>
    ReadAll_limited tlen io (j_r J) calls n acc w = Some (w', bs, None) \<Longrightarrow>
    bs = acc @ take n (subslice (j_fo J + pos) (j_fs J - pos) (j_src J))"
proof (induction calls arbitrary: n acc w own pos)
  case Nil
  then show ?case by (simp add: ReadAll_limited.simps [of tlen io "j_r J" "[]"] split: if_splits)
next
  case (Cons call calls)
  obtain room gaps env now where call: "call = (room, gaps, env, now)" by (metis prod_cases4)
  have ok: "0 < room" "\<forall>e \<in> set env. keeps J (ev_run e)" "\<forall>g \<in> set gaps. gap_ok J g" "calls_ok J calls"
    using Cons.prems(1) call by (simp_all add: calls_ok_def)
  have fs: "r_fileSize (w_reader w (j_r J)) = int (j_fs J)" using Cons.prems(2) by (simp add: serves_def fields_ok_def)
  show ?case
  proof (cases "n = 0")
    case True
    with Cons.prems(5) show ?thesis by (simp add: ReadAll_limited.simps [of tlen io "j_r J" "call # calls"])
  next
    case False
    obtain w1 cs err where rd: "Reader_Read tlen io (j_r J) gaps env now (min room n) w = Some (w1, cs, err)"
      using Cons.prems(5) False call
      by (subst (asm) ReadAll_limited.simps) (auto split: option.splits)
    have out: "err = None \<or> err = Some ErrEOF"
      and stop: "err = Some ErrEOF \<Longrightarrow> bs = acc @ cs"
      and go: "err = None \<Longrightarrow> ReadAll_limited tlen io (j_r J) calls (n - length cs) (acc @ cs) w1 = Some (w', bs, None)"
      using Cons.prems(5) False call rd by (subst (asm) ReadAll_limited.simps; auto split: if_splits)+
    have open_: "\<not> r_closed (w_reader w (j_r J))"
      using rd out by (auto simp: Reader_Read_def Let_def split: if_splits)
    show ?thesis
    proof (cases "pos < j_fs J")
      case False
      then have "cs = []" "err = Some ErrEOF" using rd open_ fs Cons.prems(3,4) by (auto simp: Reader_Read_def)
      with stop False show ?thesis by (simp add: subslice_def)
    next
      case lt: True
      have p: "0 < min room n" using ok(1) False by simp
      note b = Reader_Read_bytes [OF job Cons.prems(2) ok(2,3) open_ Cons.prems(3) lt p rd]
      have none: "err = None" using b out by auto
      have len: "length cs = min (min room n) (j_fs J - pos)" "r_pos (w_reader w1 (j_r J)) = int (pos + length cs)"
        using b none by auto
      obtain own1 where s1: "serves J own1 w1"
        using Reader_Read_serves [OF job Cons.prems(2) ok(2,3) open_ Cons.prems(3) lt p] rd none by blast
      have "bs = (acc @ cs) @ take (n - length cs) (subslice (j_fo J + (pos + length cs)) (j_fs J - (pos + length cs)) (j_src J))"
        using len lt by (intro Cons.IH [OF ok(4) s1 len(2) _ go [OF none]]) auto
      moreover have "cs = subslice (j_fo J + pos) (length cs) (j_src J)" using b by blast
      moreover have "take n (subslice (j_fo J + pos) (j_fs J - pos) (j_src J)) =
          subslice (j_fo J + pos) (length cs) (j_src J) @
          take (n - length cs) (subslice (j_fo J + (pos + length cs)) (j_fs J - (pos + length cs)) (j_src J))"
      proof -
        have l: "length cs \<le> n" "length cs \<le> j_fs J - pos" using len(1) by auto
        then have "subslice (j_fo J + pos) (j_fs J - pos) (j_src J) =
            subslice (j_fo J + pos) (length cs) (j_src J) @
            subslice (j_fo J + pos + length cs) (j_fs J - pos - length cs) (j_src J)"
          using subslice_append [of "j_fo J + pos" "length cs" "j_src J" "j_fs J - pos - length cs"]
          by (simp only: le_add_diff_inverse)
        moreover have "j_fo J + pos + length cs \<le> length (j_src J)" using l(2) lt job by (auto simp: job_ok_def)
        then have "length (subslice (j_fo J + pos) (length cs) (j_src J)) = length cs" by simp
        ultimately show ?thesis using l(1) by (simp add: take_append add.assoc)
      qed
      ultimately show ?thesis by simp
    qed
  qed
qed

text \<open>
  A sidecar file that is served is the file's bytes, up to the limit and converted by its extension: in whatever
  portions it was read, and whatever else happened to the torrent meanwhile.
\<close>

theorem sidecar_is_the_file:
  assumes "openTorrentFileReader cl wait h f ClassColdProbe w = Inr (w1, j_r J, ext)"
    and "job_ok tlen J" "serves J own w1" "calls_ok J calls"
    and "HandleGetExternalSubtitleFile tlen io srt cl wait h f calls gone w = Some (w', SidecarBody body contentType)"
  shows "(body, contentType) = convertExternalSubtitle srt (take maxExternalSubtitleBytes (subslice (j_fo J) (j_fs J) (j_src J))) ext"
proof -
  have pos: "r_pos (w_reader w1 (j_r J)) = int 0"
    using openTorrentFileReader_covers [OF assms(1)] by (auto simp: covers_file_def)
  obtain w2 raw where r: "ReadAll_limited tlen io (j_r J) calls maxExternalSubtitleBytes [] w1 = Some (w2, raw, None)"
      "convertExternalSubtitle srt raw ext = (body, contentType)"
    using assms(1,5) by (auto simp: HandleGetExternalSubtitleFile_def split: option.splits prod.splits if_splits)
  from ReadAll_limited_bytes [OF assms(2,4,3) pos _ r(1)] r(2) show ?thesis by simp
qed

text \<open>
  The format the track list names and the type the file is served with agree except for a file whose conversion
  fails and for an extension neither function knows: the list calls them WebVTT, the answer is plain text.
\<close>

lemma format_mirrors_content:
  "convertExternalSubtitle srt raw ext = (body, contentType) \<Longrightarrow>
   (externalSubtitleFormat ext = ''ass'') = (contentType = TextSsa)"
  by (auto simp: convertExternalSubtitle_def externalSubtitleFormat_def split: if_splits option.splits)

lemma plain_text_called_webvtt:
  "externalSubtitleFormat ''.sub'' = ''webvtt'' \<and> convertExternalSubtitle srt raw ''.sub'' = (raw, TextPlain)"
proof -
  have "ToLower ''.sub'' = ''.sub''" by code_simp
  then show ?thesis by (simp add: convertExternalSubtitle_def externalSubtitleFormat_def)
qed

end
