(* ===== verification/Resolve.thy ===== *)
theory Resolve
  imports TorrentFiles
begin

text \<open>
  From a link to a torrent of the client (\<^verbatim>\<open>bt/resolve.go\<close>): the test for private addresses, the check of
  the host of an HTTP link, and the dispatch on the kind of link. The torrent client, the parsers of
  magnet links and of metainfo files and the network are arguments; addresses are parsed as Go's
  \<^verbatim>\<open>net.ParseIP\<close> does.
\<close>

section \<open>Addresses\<close>

text \<open>A \<^verbatim>\<open>net.IP\<close>: four or sixteen bytes.\<close>

type_synonym ip = "byte list"

definition v4_prefix :: ip where
  "v4_prefix = replicate 10 0 @ [0xff, 0xff]"

definition To4 :: "ip \<Rightarrow> ip option" where
  "To4 ip =
     (if length ip = 4 then Some ip
      else if length ip = 16 \<and> take 12 ip = v4_prefix then Some (drop 12 ip) else None)"

definition IPv6loopback :: ip where
  "IPv6loopback = replicate 15 0 @ [1]"

definition IsLoopback :: "ip \<Rightarrow> bool" where
  "IsLoopback ip = (case To4 ip of Some ip4 \<Rightarrow> ip4 ! 0 = 127 | None \<Rightarrow> ip = IPv6loopback)"

definition IsLinkLocalMulticast :: "ip \<Rightarrow> bool" where
  "IsLinkLocalMulticast ip =
     (case To4 ip of
        Some ip4 \<Rightarrow> ip4 ! 0 = 224 \<and> ip4 ! 1 = 0 \<and> ip4 ! 2 = 0
      | None \<Rightarrow> length ip = 16 \<and> ip ! 0 = 0xff \<and> and (ip ! 1) 0x0f = 0x02)"

definition IsLinkLocalUnicast :: "ip \<Rightarrow> bool" where
  "IsLinkLocalUnicast ip =
     (case To4 ip of
        Some ip4 \<Rightarrow> ip4 ! 0 = 169 \<and> ip4 ! 1 = 254
      | None \<Rightarrow> length ip = 16 \<and> ip ! 0 = 0xfe \<and> and (ip ! 1) 0xc0 = 0x80)"

definition isPrivateIP :: "ip \<Rightarrow> bool" where
  "isPrivateIP ip =
     (if IsLoopback ip \<or> IsLinkLocalUnicast ip \<or> IsLinkLocalMulticast ip then True
      else case To4 ip of
             Some ip4 \<Rightarrow>
               ip4 ! 0 = 10 \<or> (ip4 ! 0 = 172 \<and> 16 \<le> ip4 ! 1 \<and> ip4 ! 1 \<le> 31) \<or> (ip4 ! 0 = 192 \<and> ip4 ! 1 = 168)
           | None \<Rightarrow> length ip = 16 \<and> and (ip ! 0) 0xfe = 0xfc)"

subsection \<open>Parsing addresses\<close>

text \<open>Four decimal fields without leading zeros, each a byte.\<close>

definition parse_octet :: "string \<Rightarrow> byte option" where
  "parse_octet s =
     (if 1 < length s \<and> hd s = CHR ''0'' then None
      else case parse_nat s of
             Some n \<Rightarrow> if n \<le> 255 then Some (of_int n) else None
           | None \<Rightarrow> None)"

definition parseIPv4Fields :: "string \<Rightarrow> ip option" where
  "parseIPv4Fields s =
     (let fs = map parse_octet (split_on (CHR ''.'') s)
      in if length fs = 4 \<and> None \<notin> set fs then Some (map the fs) else None)"

text \<open>
  The loop over the fields of an IPv6 address: the bytes read so far, the offset of an ellipsis and the
  text that is left. \<open>None\<close> is an error, \<open>Inl\<close> a loop that has ended.
\<close>

definition hex_field :: "string \<Rightarrow> (nat \<times> string) option" where
  "hex_field s =
     (let ds = takeWhile (\<lambda>c. hex_val c \<noteq> None) s
      in if ds = [] \<or> 4 < length ds then None
         else Some (foldl (\<lambda>acc c. 16 * acc + the (hex_val c)) 0 ds, drop (length ds) s))"

fun parseIPv6_loop :: "nat \<Rightarrow> ip \<Rightarrow> nat option \<Rightarrow> string \<Rightarrow> (ip \<times> nat option \<times> string) option" where
  "parseIPv6_loop 0 acc ell s = Some (acc, ell, s)"
| "parseIPv6_loop (Suc fuel) acc ell s =
     (if 16 \<le> length acc then Some (acc, ell, s)
      else case hex_field s of
             None \<Rightarrow> None
           | Some (v, r) \<Rightarrow>
               if r \<noteq> [] \<and> hd r = CHR ''.'' then
                 (if ell = None \<and> length acc \<noteq> 12 \<or> 16 < length acc + 4 then None
                  else case parseIPv4Fields s of None \<Rightarrow> None | Some b \<Rightarrow> Some (acc @ b, ell, []))
               else
                 let acc' = acc @ [of_nat (v div 256), of_nat (v mod 256)]
                 in if r = [] then Some (acc', ell, [])
                    else if hd r \<noteq> CHR '':'' \<or> tl r = [] then None
                    else
                      let s' = tl r
                      in if hd s' = CHR '':'' then
                           (if ell \<noteq> None then None
                            else if tl s' = [] then Some (acc', Some (length acc'), [])
                            else parseIPv6_loop fuel acc' (Some (length acc')) (tl s'))
                         else parseIPv6_loop fuel acc' ell s')"

definition parseIPv6 :: "string \<Rightarrow> ip option" where
  "parseIPv6 s =
     (let lead = prefix ''::'' s
      in if lead \<and> length s = 2 then Some (replicate 16 0)
         else case parseIPv6_loop 8 [] (if lead then Some 0 else None) (if lead then drop 2 s else s) of
                None \<Rightarrow> None
              | Some (acc, ell, r) \<Rightarrow>
                  if r \<noteq> [] then None
                  else if length acc < 16 then
                    (case ell of None \<Rightarrow> None | Some e \<Rightarrow> Some (take e acc @ replicate (16 - length acc) 0 @ drop e acc))
                  else if ell \<noteq> None then None else Some acc)"

text \<open>\<^verbatim>\<open>net.ParseIP\<close>: the first of the three separators decides; the result has sixteen bytes.\<close>

definition ParseIP :: "string \<Rightarrow> ip option" where
  "ParseIP s =
     (case dropWhile (\<lambda>c. c \<noteq> CHR ''.'' \<and> c \<noteq> CHR '':'' \<and> c \<noteq> CHR ''%'') s of
        [] \<Rightarrow> None
      | c # _ \<Rightarrow>
          if c = CHR ''.'' then map_option (\<lambda>b. v4_prefix @ b) (parseIPv4Fields s)
          else if c = CHR '':'' \<and> CHR ''%'' \<notin> set s then parseIPv6 s else None)"

section \<open>The check of a host\<close>

text \<open>
  What the network says: the host part of a URL (\<^verbatim>\<open>url.Parse\<close> and \<^verbatim>\<open>Hostname\<close>), the addresses of a name
  and the answer to a GET, a status and a body, or no answer.
\<close>

record network =
  nw_Hostname :: "string \<Rightarrow> string option"
  nw_LookupIP :: "string \<Rightarrow> ip list option"
  nw_NewRequest :: "string \<Rightarrow> bool"
  nw_Do :: "string \<Rightarrow> (int \<times> byte list option) option"

datatype host_error = InvalidURL | PrivateAddress | LookupFailed | PrivateName ip

fun first_private :: "ip list \<Rightarrow> ip option" where
  "first_private [] = None"
| "first_private (ip # ips) = (if isPrivateIP ip then Some ip else first_private ips)"

definition secureResolveHost :: "network \<Rightarrow> string \<Rightarrow> host_error option" where
  "secureResolveHost nw urlStr =
     (case nw_Hostname nw urlStr of
        None \<Rightarrow> Some InvalidURL
      | Some host \<Rightarrow>
          (case ParseIP host of
             Some ip \<Rightarrow> if isPrivateIP ip then Some PrivateAddress else None
           | None \<Rightarrow>
               (case nw_LookupIP nw host of
                  None \<Rightarrow> Some LookupFailed
                | Some ips \<Rightarrow> map_option PrivateName (first_private ips))))"

section \<open>Resolving a link\<close>

text \<open>
  The torrent client as resolution uses it: the torrents it has, by infohash, and the calls of
  \<^verbatim>\<open>AddTrackers\<close> it was given.
  Its parsers and the local files are arguments; adding a torrent it already has changes nothing.
\<close>

record resolve_env =
  re_magnet :: "string \<Rightarrow> byte list option"
  re_metainfo :: "byte list \<Rightarrow> byte list option"
  re_file :: "string \<Rightarrow> byte list option"
  re_accepts :: "byte list \<Rightarrow> bool"

record bt_client =
  bc_torrents :: "byte list list"
  bc_trackers :: "(byte list \<times> string list list) list"

definition add_torrent :: "byte list \<Rightarrow> bt_client \<Rightarrow> bt_client" where
  "add_torrent h c = (if h \<in> set (bc_torrents c) then c else c\<lparr>bc_torrents := bc_torrents c @ [h]\<rparr>)"

definition AddMagnet :: "resolve_env \<Rightarrow> string \<Rightarrow> bt_client \<Rightarrow> (bt_client \<times> byte list) option" where
  "AddMagnet re uri c = map_option (\<lambda>h. (add_torrent h c, h)) (re_magnet re uri)"

definition AddTorrent :: "resolve_env \<Rightarrow> byte list \<Rightarrow> bt_client \<Rightarrow> (bt_client \<times> byte list) option" where
  "AddTorrent re h c = (if re_accepts re h then Some (add_torrent h c, h) else None)"

definition AddTrackers :: "byte list \<Rightarrow> string list list \<Rightarrow> bt_client \<Rightarrow> bt_client" where
  "AddTrackers h ts c = c\<lparr>bc_trackers := bc_trackers c @ [(h, ts)]\<rparr>"

datatype resolve_error =
    AddMagnetFailed | HostRefused host_error | BadRequest | FetchFailed | UnexpectedStatus int | BodyFailed
  | BadMetainfo | AddFailed | BadInfohash | LocalLoadFailed | UnsupportedLink

definition defaultTrackers :: "string list list" where
  "defaultTrackers =
    [[''http://bt.t-ru.org/ann?magnet''], [''http://bt2.t-ru.org/ann?magnet''],
     [''http://bt3.t-ru.org/ann?magnet''], [''http://bt4.t-ru.org/ann?magnet''],
     [''http://nyaa.tracker.wf:7777/announce''], [''udp://tracker.opentrackr.org:1337/announce''],
     [''udp://open.stealth.si:80/announce''], [''udp://tracker.torrent.eu.org:451/announce''],
     [''udp://tracker.dler.com:6969/announce''], [''udp://opentor.org:2710/announce''],
     [''udp://open.demonii.com:1337/announce''], [''udp://p4p.arenabg.com:1337/announce''],
     [''udp://tracker.coppersurfer.tk:6969/announce''], [''udp://exodus.desync.com:6969/announce'']]"

definition is_http :: "string \<Rightarrow> bool" where
  "is_http lower \<longleftrightarrow> prefix ''http://'' lower \<or> prefix ''https://'' lower"

definition maxTorrentBytes :: nat where "maxTorrentBytes = 5 * 1024 * 1024"

definition fetch_torrent :: "network \<Rightarrow> resolve_env \<Rightarrow> string \<Rightarrow> bt_client \<Rightarrow> resolve_error + (bt_client \<times> byte list)" where
  "fetch_torrent nw re link c =
     (case secureResolveHost nw link of
        Some e \<Rightarrow> Inl (HostRefused e)
      | None \<Rightarrow>
          if \<not> nw_NewRequest nw link then Inl BadRequest
          else case nw_Do nw link of
                 None \<Rightarrow> Inl FetchFailed
               | Some (status, body) \<Rightarrow>
                   if status \<noteq> 200 then Inl (UnexpectedStatus status)
                   else case body of
                          None \<Rightarrow> Inl BodyFailed
                        | Some bytes \<Rightarrow>
                            (case re_metainfo re (take maxTorrentBytes bytes) of
                               None \<Rightarrow> Inl BadMetainfo
                             | Some h \<Rightarrow> (case AddTorrent re h c of None \<Rightarrow> Inl AddFailed | Some r \<Rightarrow> Inr r)))"

definition resolve_infohash :: "resolve_env \<Rightarrow> string \<Rightarrow> bt_client \<Rightarrow> resolve_error + (bt_client \<times> byte list)" where
  "resolve_infohash re link c =
     (case hex_decode (take 40 link) of
        None \<Rightarrow> Inl BadInfohash
      | Some h \<Rightarrow>
          if h \<in> set (bc_torrents c) then Inr (c, h)
          else (case AddMagnet re (''magnet:?xt=urn:btih:'' @ take 40 link) c of
                  None \<Rightarrow> Inl AddMagnetFailed
                | Some r \<Rightarrow> Inr r))"

definition resolve_file :: "resolve_env \<Rightarrow> string \<Rightarrow> bt_client \<Rightarrow> resolve_error + (bt_client \<times> byte list)" where
  "resolve_file re link c =
     (case re_file re link of
        None \<Rightarrow> Inl UnsupportedLink
      | Some bytes \<Rightarrow>
          (case re_metainfo re bytes of
             None \<Rightarrow> Inl LocalLoadFailed
           | Some h \<Rightarrow> (case AddTorrent re h c of None \<Rightarrow> Inl AddFailed | Some r \<Rightarrow> Inr r)))"

definition ResolveTorrent :: "network \<Rightarrow> resolve_env \<Rightarrow> string \<Rightarrow> bt_client \<Rightarrow> resolve_error + (bt_client \<times> byte list)" where
  "ResolveTorrent nw re link c =
     (let linkLower = ToLower link;
          r = (if prefix ''magnet:'' linkLower then
                 (case AddMagnet re link c of None \<Rightarrow> Inl AddMagnetFailed | Some r \<Rightarrow> Inr r)
               else if is_http linkLower then fetch_torrent nw re link c
               else if length link = 40 \<or> length link = 64 then resolve_infohash re link c
               else resolve_file re link c)
      in case r of Inl e \<Rightarrow> Inl e | Inr (c', h) \<Rightarrow> Inr (AddTrackers h defaultTrackers c', h))"

section \<open>Lemmas\<close>

text \<open>
  The private blocks as masks and values over sixteen bytes, an IPv4 address being mapped into
  \<^verbatim>\<open>::ffff:0:0/96\<close>.
\<close>

definition To16 :: "ip \<Rightarrow> ip" where
  "To16 ip = (if length ip = 4 then v4_prefix @ ip else ip)"

definition v4_block :: "byte list \<Rightarrow> byte list \<Rightarrow> byte list \<times> byte list" where
  "v4_block m v = (replicate 12 0xff @ m, v4_prefix @ v)"

definition v6_block :: "byte list \<Rightarrow> byte list \<Rightarrow> byte list \<times> byte list" where
  "v6_block m v = (m @ replicate (16 - length m) 0, v @ replicate (16 - length v) 0)"

definition private_blocks :: "(byte list \<times> byte list) list" where
  "private_blocks =
    [v4_block [255, 0, 0, 0] [127, 0, 0, 0],
     v4_block [255, 0, 0, 0] [10, 0, 0, 0],
     v4_block [255, 240, 0, 0] [172, 16, 0, 0],
     v4_block [255, 255, 0, 0] [192, 168, 0, 0],
     v4_block [255, 255, 0, 0] [169, 254, 0, 0],
     v4_block [255, 255, 255, 0] [224, 0, 0, 0],
     v6_block (replicate 16 255) IPv6loopback,
     v6_block [255, 0xc0] [0xfe, 0x80],
     v6_block [255, 0x0f] [0xff, 0x02],
     v6_block [0xfe] [0xfc]]"

definition in_block :: "ip \<Rightarrow> byte list \<times> byte list \<Rightarrow> bool" where
  "in_block ip b \<longleftrightarrow> map2 (and) (To16 ip) (fst b) = snd b"

lemma byte_lists:
  "v4_prefix = [0, 0, 0, 0, 0, 0, 0, 0, 0, 0, 255, 255]"
  "IPv6loopback = [0, 0, 0, 0, 0, 0, 0, 0, 0, 0, 0, 0, 0, 0, 0, 1]"
  "replicate 16 x = [x, x, x, x, x, x, x, x, x, x, x, x, x, x, x, x]"
  "replicate 15 x = [x, x, x, x, x, x, x, x, x, x, x, x, x, x, x]"
  "replicate 14 x = [x, x, x, x, x, x, x, x, x, x, x, x, x, x]"
  by (simp_all add: v4_prefix_def IPv6loopback_def numeral_eq_Suc)

lemma list16:
  assumes "length xs = 16"
  obtains a0 a1 a2 a3 a4 a5 a6 a7 a8 a9 a10 a11 a12 a13 a14 a15
  where "xs = [a0, a1, a2, a3, a4, a5, a6, a7, a8, a9, a10, a11, a12, a13, a14, a15]"
  using assms by (auto simp: length_Suc_conv eval_nat_numeral)

lemma list4:
  assumes "length xs = 4"
  obtains a b c d where "xs = [a, b, c, d]"
  using assms by (auto simp: length_Suc_conv eval_nat_numeral)

lemma and_ff: "and (b :: byte) 255 = b"
proof -
  have "(255 :: byte) = - 1" by simp
  then show ?thesis by (simp only: and.right_neutral)
qed

lemma and_f0: "(and (b :: byte) 240 = 16) = (16 \<le> b \<and> b \<le> 31)"
proof -
  have m: "(240 :: byte) = push_bit 4 (mask 4)" by (simp add: mask_eq_exp_minus_1 push_bit_eq_mult)
  have "and b 240 = push_bit 4 (drop_bit 4 b)"
    unfolding m by (rule bit_eqI) (auto simp: bit_simps)
  then have "(and b 240 = 16) = (uint (push_bit 4 (drop_bit 4 b)) = 16)"
    by (simp add: word_uint_eq_iff)
  also have "uint (push_bit 4 (drop_bit 4 b)) = 16 * (uint b div 16)"
  proof -
    have "uint b < 256" using unsigned_less [of b, where ?'a = int] by simp
    moreover from this have "uint b div 16 * 16 < 256" "0 \<le> uint b div 16 * 16"
      using pos_mod_sign [of 16 "uint b"] zmod_le_nonneg_dividend [of "uint b" 16]
      by (simp_all add: minus_mod_eq_div_mult [symmetric])
    ultimately show ?thesis
      by (simp only: unsigned_push_bit_eq unsigned_drop_bit_eq)
        (simp add: push_bit_eq_mult drop_bit_eq_div take_bit_eq_mod)
  qed
  also have "(16 * (uint b div 16) = 16) = (16 \<le> uint b \<and> uint b \<le> 31)" by auto
  finally show ?thesis by (simp add: word_le_def)
qed

lemma v4_prefix_length [simp]: "length v4_prefix = 12"
  by (simp add: v4_prefix_def)

lemma To4_To16: "length ip = 4 \<or> length ip = 16 \<Longrightarrow> To4 (To16 ip) = To4 ip"
  by (auto simp: To4_def To16_def)

lemma To4_Some: "To4 ip = Some v \<Longrightarrow> length v = 4 \<and> To16 ip = v4_prefix @ v"
  by (auto simp: To4_def To16_def split: if_splits) (metis append_take_drop_id)

lemma map2_and_append:
  "length a = length m \<Longrightarrow> map2 (and) (a @ b) (m @ n) = map2 (and) a m @ map2 (and) b n"
  by simp

lemma map2_and_ff: "map2 (and) (xs :: byte list) (replicate (length xs) 255) = xs"
  by (induction xs) (simp_all add: and_ff)

lemma in_v4_block: "length v = 4 \<Longrightarrow> in_block ip (v4_block m v) = (map2 (and) (drop 12 (To16 ip)) m = v \<and> take 12 (To16 ip) = v4_prefix)"
  if "length (To16 ip) = 16" "length m = 4"
proof -
  assume v: "length v = 4"
  have eq: "To16 ip = take 12 (To16 ip) @ drop 12 (To16 ip)" by simp
  have l: "length (take 12 (To16 ip)) = 12" using that by simp
  have "map2 (and) (take 12 (To16 ip)) (replicate 12 255) = take 12 (To16 ip)"
    using map2_and_ff [of "take 12 (To16 ip)"] l by simp
  then have "map2 (and) (To16 ip) (replicate 12 255 @ m) = take 12 (To16 ip) @ map2 (and) (drop 12 (To16 ip)) m"
    using l by (subst eq, subst map2_and_append) simp_all
  then show ?thesis using l by (auto simp: in_block_def v4_block_def)
qed

lemma in_v6_block_mapped:
  "in_block (v4_prefix @ [a, b, c, d]) (v6_block (replicate 16 255) IPv6loopback) = False"
  "in_block (v4_prefix @ [a, b, c, d]) (v6_block [255, 0xc0] [0xfe, 0x80]) = False"
  "in_block (v4_prefix @ [a, b, c, d]) (v6_block [255, 0x0f] [0xff, 0x02]) = False"
  "in_block (v4_prefix @ [a, b, c, d]) (v6_block [0xfe] [0xfc]) = False"
  by (simp_all add: in_block_def To16_def v6_block_def byte_lists and_ff)

lemma in_block_To16: "length ip = 4 \<or> length ip = 16 \<Longrightarrow> in_block ip b = in_block (To16 ip) b"
  by (auto simp: in_block_def To16_def)

lemma private_v4:
  assumes "To4 ip = Some v"
  shows "isPrivateIP ip \<longleftrightarrow> (\<exists>b \<in> set private_blocks. in_block ip b)"
proof -
  from To4_Some [OF assms] obtain a b c d where v: "v = [a, b, c, d]" and t: "To16 ip = v4_prefix @ [a, b, c, d]"
    by (metis list4)
  have l: "length ip = 4 \<or> length ip = 16" using assms by (auto simp: To4_def split: if_splits)
  have 1: "in_block ip (v4_block m u) = (map2 (and) [a, b, c, d] m = u)"
    if "length m = 4" "length u = 4" for m u
    using in_v4_block [of ip m u] that t by simp
  have 2: "in_block ip (v6_block (replicate 16 255) IPv6loopback) = False"
    "in_block ip (v6_block [255, 0xc0] [0xfe, 0x80]) = False"
    "in_block ip (v6_block [255, 0x0f] [0xff, 0x02]) = False" "in_block ip (v6_block [0xfe] [0xfc]) = False"
    by (simp_all only: in_block_To16 [OF l] t in_v6_block_mapped)
  show ?thesis
    unfolding private_blocks_def
    by (simp add: 1 2 and_ff and_f0 isPrivateIP_def IsLoopback_def IsLinkLocalUnicast_def
        IsLinkLocalMulticast_def assms v) auto
qed

lemma private_v6:
  assumes "To4 ip = None" "length ip = 16"
  shows "isPrivateIP ip \<longleftrightarrow> (\<exists>b \<in> set private_blocks. in_block ip b)"
proof -
  have t: "To16 ip = ip" using assms(2) by (simp add: To16_def)
  have 1: "in_block ip (v4_block m u) = False" if "length m = 4" "length u = 4" for m u
    using in_v4_block [of ip m u] that assms t by (auto simp: To4_def split: if_splits)
  from assms(2) obtain a0 a1 a2 a3 a4 a5 a6 a7 a8 a9 a10 a11 a12 a13 a14 a15
    where ip: "ip = [a0, a1, a2, a3, a4, a5, a6, a7, a8, a9, a10, a11, a12, a13, a14, a15]" by (rule list16)
  have 2: "in_block ip (v6_block (replicate 16 255) IPv6loopback) = (ip = IPv6loopback)"
    unfolding in_block_def v6_block_def t by (simp add: ip and_ff byte_lists)
  have 3: "in_block ip (v6_block [255, 0xc0] [0xfe, 0x80]) = (a0 = 0xfe \<and> and a1 0xc0 = 0x80)"
    "in_block ip (v6_block [255, 0x0f] [0xff, 0x02]) = (a0 = 0xff \<and> and a1 0x0f = 0x02)"
    "in_block ip (v6_block [0xfe] [0xfc]) = (and a0 0xfe = 0xfc)"
    unfolding in_block_def v6_block_def t by (simp_all add: ip and_ff byte_lists)
  have h: "ip ! 0 = a0" "ip ! Suc 0 = a1" by (simp_all add: ip)
  show ?thesis
    unfolding private_blocks_def
    by (simp add: 1 2 3 h isPrivateIP_def IsLoopback_def IsLinkLocalUnicast_def
        IsLinkLocalMulticast_def assms) auto
qed

theorem isPrivateIP_blocks:
  assumes "length ip = 4 \<or> length ip = 16"
  shows "isPrivateIP ip \<longleftrightarrow> (\<exists>b \<in> set private_blocks. in_block ip b)"
proof (cases "To4 ip")
  case (Some v)
  then show ?thesis by (rule private_v4)
next
  case None
  then have "length ip = 16" using assms by (auto simp: To4_def)
  with None show ?thesis by (rule private_v6)
qed

lemma parseIPv4Fields_length: "parseIPv4Fields s = Some b \<Longrightarrow> length b = 4"
  by (auto simp: parseIPv4Fields_def Let_def split: if_splits)

lemma parseIPv6_loop_length:
  "parseIPv6_loop n acc ell s = Some (acc', ell', r) \<Longrightarrow> even (length acc) \<Longrightarrow> length acc \<le> 16 \<Longrightarrow> length acc' \<le> 16"
proof (induction n acc ell s rule: parseIPv6_loop.induct)
  case (2 fuel acc ell s)
  have room: "length acc + 2 \<le> 16" if "\<not> 16 \<le> length acc"
    using that \<open>even (length acc)\<close> by presburger
  show ?case
    using 2 room by (auto simp: Let_def split: if_splits option.splits prod.splits dest!: parseIPv4Fields_length)
qed simp

lemma parseIPv6_length: "parseIPv6 s = Some b \<Longrightarrow> length b = 16"
  by (auto simp: parseIPv6_def Let_def split: if_splits option.splits prod.splits dest: parseIPv6_loop_length)

lemma ParseIP_length: "ParseIP s = Some ip \<Longrightarrow> length ip = 16"
  by (auto simp: ParseIP_def split: list.splits if_splits dest: parseIPv6_length parseIPv4Fields_length)

lemma first_private_None: "first_private ips = None \<longleftrightarrow> (\<forall>ip \<in> set ips. \<not> isPrivateIP ip)"
  by (induction ips) auto

text \<open>The addresses the check of a URL sees: the literal one, or what the name resolves to.\<close>

definition checked_ips :: "network \<Rightarrow> string \<Rightarrow> ip list option" where
  "checked_ips nw urlStr =
     (case nw_Hostname nw urlStr of
        None \<Rightarrow> None
      | Some host \<Rightarrow> (case ParseIP host of Some ip \<Rightarrow> Some [ip] | None \<Rightarrow> nw_LookupIP nw host))"

lemma secureResolveHost_passes:
  "secureResolveHost nw u = None \<longleftrightarrow>
    (\<exists>ips. checked_ips nw u = Some ips \<and> (\<forall>ip \<in> set ips. \<not> isPrivateIP ip))"
  by (auto simp: secureResolveHost_def checked_ips_def first_private_None split: option.splits)

lemma add_torrent_set: "set (bc_torrents (add_torrent h c)) = insert h (set (bc_torrents c))"
  and add_torrent_distinct: "distinct (bc_torrents c) \<Longrightarrow> distinct (bc_torrents (add_torrent h c))"
  and add_torrent_trackers [simp]: "bc_trackers (add_torrent h c) = bc_trackers c"
  by (auto simp: add_torrent_def)

lemma resolved_shape:
  assumes "ResolveTorrent nw re link c = Inr (c', h)"
  shows "c' = AddTrackers h defaultTrackers (add_torrent h c)"
  using assms
  by (auto simp: ResolveTorrent_def Let_def AddMagnet_def AddTorrent_def fetch_torrent_def resolve_infohash_def
      resolve_file_def add_torrent_def split: if_splits option.splits sum.splits prod.splits)

lemma infohash_not_url:
  assumes "length s = 40 \<or> length s = 64" "hex_decode (take 40 s) \<noteq> None"
  shows "\<not> prefix ''magnet:'' (ToLower s) \<and> \<not> is_http (ToLower s)"
proof -
  have len: "40 \<le> length s" using assms(1) by auto
  then obtain a b r where s: "s = a # b # r"
    by (cases s; cases "tl s") auto
  have "take 40 s = a # b # take 38 r" by (simp add: s)
  then have "hex_val a \<noteq> None" using assms(2) by (auto split: option.splits)
  then have "char_lower a \<noteq> CHR ''m'' \<and> char_lower a \<noteq> CHR ''h''"
    by (auto simp: hex_val_def char_lower_def Let_def of_char_of split: if_splits
        dest!: arg_cong [of _ _ "of_char :: char \<Rightarrow> nat"])
  then show ?thesis by (auto simp: s ToLower_def is_http_def)
qed

text \<open>
  C33. What resolving a link does to the torrent client: a failure adds nothing; a success adds exactly
  the torrent it returns, unless the client has it, keeps every other torrent, and asks for the default
  trackers of that torrent once. A torrent whose metainfo came from the network was fetched only after
  every address known for the host was checked to lie outside the private blocks.
\<close>

theorem resolve_adds_checked_torrent:
  assumes "ResolveTorrent nw re link c = Inr (c', h)"
    and "\<And>host ips ip. nw_LookupIP nw host = Some ips \<Longrightarrow> ip \<in> set ips \<Longrightarrow> length ip = 4 \<or> length ip = 16"
  shows "bc_torrents c' = (if h \<in> set (bc_torrents c) then bc_torrents c else bc_torrents c @ [h]) \<and>
    bc_trackers c' = bc_trackers c @ [(h, defaultTrackers)] \<and>
    (is_http (ToLower link) \<longrightarrow>
       (\<exists>ips body. checked_ips nw link = Some ips \<and>
          (\<forall>ip \<in> set ips. \<forall>b \<in> set private_blocks. \<not> in_block ip b) \<and>
          nw_Do nw link = Some (200, Some body) \<and> re_metainfo re (take maxTorrentBytes body) = Some h))"
proof -
  have shape: "bc_torrents c' = (if h \<in> set (bc_torrents c) then bc_torrents c else bc_torrents c @ [h]) \<and>
    bc_trackers c' = bc_trackers c @ [(h, defaultTrackers)]"
    using resolved_shape [OF assms(1)] by (simp add: AddTrackers_def add_torrent_def)
  have "\<exists>ips body. checked_ips nw link = Some ips \<and>
      (\<forall>ip \<in> set ips. \<forall>b \<in> set private_blocks. \<not> in_block ip b) \<and>
      nw_Do nw link = Some (200, Some body) \<and> re_metainfo re (take maxTorrentBytes body) = Some h"
    if http: "is_http (ToLower link)"
  proof -
    have "\<not> prefix ''magnet:'' (ToLower link)" using http by (auto simp: is_http_def prefix_def)
    with http assms(1) obtain c1 where f: "fetch_torrent nw re link c = Inr (c1, h)"
      by (auto simp: ResolveTorrent_def Let_def split: sum.splits prod.splits)
    then obtain body where b: "nw_Do nw link = Some (200, Some body)"
      "re_metainfo re (take maxTorrentBytes body) = Some h" and "secureResolveHost nw link = None"
      by (auto simp: fetch_torrent_def AddTorrent_def split: option.splits if_splits)
    then obtain ips where ips: "checked_ips nw link = Some ips" "\<forall>ip \<in> set ips. \<not> isPrivateIP ip"
      by (auto simp: secureResolveHost_passes)
    have "length ip = 4 \<or> length ip = 16" if "ip \<in> set ips" for ip
      using ips(1) that assms(2) by (auto simp: checked_ips_def split: option.splits dest: ParseIP_length)
    with ips b show ?thesis using isPrivateIP_blocks by blast
  qed
  with shape show ?thesis by blast
qed

definition demo_network :: network where
  "demo_network =
     \<lparr>nw_Hostname = (\<lambda>u. Some ''9.9.9.9''), nw_LookupIP = (\<lambda>_. None), nw_NewRequest = (\<lambda>_. True),
      nw_Do = (\<lambda>u. Some (200, Some [1, 2]))\<rparr>"

definition demo_env :: resolve_env where
  "demo_env = \<lparr>re_magnet = (\<lambda>_. None), re_metainfo = (\<lambda>b. Some b), re_file = (\<lambda>_. None), re_accepts = (\<lambda>_. True)\<rparr>"

lemma ParseIP_quad9: "ParseIP ''9.9.9.9'' = Some (v4_prefix @ [9, 9, 9, 9])"
  by (simp add: ParseIP_def parseIPv4Fields_def parse_octet_def parse_nat_def digit_val_def)

theorem resolve_adds_checked_torrent_witness:
  "\<exists>c'. ResolveTorrent demo_network demo_env ''http://9.9.9.9/t'' \<lparr>bc_torrents = [], bc_trackers = []\<rparr> = Inr (c', [1, 2]) \<and>
    bc_torrents c' = [[1, 2]]"
proof -
  let ?c = "\<lparr>bc_torrents = [], bc_trackers = []\<rparr>"
  have "isPrivateIP (v4_prefix @ [9, 9, 9, 9]) = False"
    by (simp add: isPrivateIP_def IsLoopback_def IsLinkLocalUnicast_def IsLinkLocalMulticast_def To4_def)
  then have "secureResolveHost demo_network ''http://9.9.9.9/t'' = None"
    by (simp add: secureResolveHost_def demo_network_def ParseIP_quad9)
  then have "fetch_torrent demo_network demo_env ''http://9.9.9.9/t'' ?c = Inr (add_torrent [1, 2] ?c, [1, 2])"
    by (simp add: fetch_torrent_def demo_env_def AddTorrent_def) (simp add: demo_network_def maxTorrentBytes_def AddTorrent_def)
  then have r: "ResolveTorrent demo_network demo_env ''http://9.9.9.9/t'' ?c =
      Inr (AddTrackers [1, 2] defaultTrackers (add_torrent [1, 2] ?c), [1, 2])"
    by (simp add: ResolveTorrent_def ToLower_def char_lower_def is_http_def)
  show ?thesis
    using resolve_adds_checked_torrent [OF r] r by (simp add: demo_network_def)
qed

text \<open>
  A bare infohash of the hexadecimal form finds the torrent the client has without asking for a magnet
  link, and a version 2 infohash of 64 digits is read as the infohash of its first 40 digits.
\<close>

lemma resolve_known_hash:
  assumes "length h = 20" "h \<in> set (bc_torrents c)"
  shows "ResolveTorrent nw re (hex_encode h) c = Inr (AddTrackers h defaultTrackers c, h)"
  using assms infohash_not_url [of "hex_encode h"]
  by (simp add: ResolveTorrent_def resolve_infohash_def length_hex_encode hex_decode_encode)

lemma resolve_v2_hash_truncates:
  assumes "length s = 64" "hex_decode (take 40 s) \<noteq> None"
  shows "ResolveTorrent nw re s c = ResolveTorrent nw re (take 40 s) c"
  using assms infohash_not_url [of s] infohash_not_url [of "take 40 s"]
  by (simp add: ResolveTorrent_def resolve_infohash_def split: option.splits)

text \<open>The unspecified addresses, which reach the machine itself, are not private to the check.\<close>

lemma unspecified_address_passes:
  "ParseIP ''0.0.0.0'' = Some (v4_prefix @ [0, 0, 0, 0]) \<and> \<not> isPrivateIP (v4_prefix @ [0, 0, 0, 0]) \<and>
   ParseIP ''::'' = Some (replicate 16 0) \<and> \<not> isPrivateIP (replicate 16 0)"
  by (simp add: ParseIP_def parseIPv4Fields_def parse_octet_def parse_nat_def digit_val_def parseIPv6_def
      isPrivateIP_def IsLoopback_def IsLinkLocalUnicast_def IsLinkLocalMulticast_def To4_def byte_lists)

end
