(* ===== verification/Config.thy ===== *)
theory Config
  imports Storage GoText
begin

text \<open>
  The configuration (\<^verbatim>\<open>config/config.go\<close>), the password check of the middleware (\<^verbatim>\<open>auth/middleware.go\<close>) and
  the speed monitor (\<^verbatim>\<open>speed/monitor.go\<close>). The environment is a map from names to text; durations are
  parsed as Go's \<^verbatim>\<open>time.ParseDuration\<close> does, with exact fractions in place of its floating point.
\<close>

section \<open>Durations\<close>

definition duration_unit :: "string \<Rightarrow> int option" where
  "duration_unit u =
     (if u = ''ns'' then Some 1
      else if u = ''us'' then Some 1000
      else if u = ''ms'' then Some 1000000
      else if u = ''s'' then Some 1000000000
      else if u = ''m'' then Some 60000000000
      else if u = ''h'' then Some 3600000000000 else None)"

definition is_digit :: "char \<Rightarrow> bool" where
  "is_digit c \<longleftrightarrow> digit_val c \<noteq> None"

definition digits_val :: "string \<Rightarrow> int" where
  "digits_val ds = foldl (\<lambda>acc c. 10 * acc + the (digit_val c)) 0 ds"

text \<open>
  The digits of a fraction: once the next one would overflow \<^verbatim>\<open>uint64\<close>'s lower half, it and all that
  follow are skipped. The result is the value and its scale.
\<close>

fun leadingFraction :: "int \<Rightarrow> int \<Rightarrow> bool \<Rightarrow> string \<Rightarrow> int \<times> int" where
  "leadingFraction x scale over [] = (x, scale)"
| "leadingFraction x scale over (c # cs) =
     (if over \<or> (2 ^ 63 - 1) div 10 < x then leadingFraction x scale True cs
      else let y = x * 10 + the (digit_val c)
           in if 2 ^ 63 < y then leadingFraction x scale True cs else leadingFraction y (scale * 10) over cs)"

text \<open>One component: the digits before and after the point, then the number, its unit and the text after it.\<close>

definition duration_number :: "string \<Rightarrow> string \<times> string \<times> string" where
  "duration_number s =
     (let ints = takeWhile is_digit s;
          s1 = drop (length ints) s
      in if s1 \<noteq> [] \<and> hd s1 = CHR ''.''
         then let frac = takeWhile is_digit (tl s1) in (ints, frac, drop (length frac) (tl s1))
         else (ints, [], s1))"

definition duration_component :: "string \<Rightarrow> (int \<times> string) option" where
  "duration_component s =
     (case duration_number s of
        (ints, frac, s2) \<Rightarrow>
          let v = digits_val ints;
              (f, scale) = leadingFraction 0 1 False frac;
              u = takeWhile (\<lambda>c. c \<noteq> CHR ''.'' \<and> \<not> is_digit c) s2
          in if 2 ^ 63 < v then None
             else if ints = [] \<and> frac = [] then None
             else case duration_unit u of
                    None \<Rightarrow> None
                  | Some unit \<Rightarrow>
                      if 2 ^ 63 div unit < v then None
                      else let n = v * unit + (if 0 < f then f * unit div scale else 0)
                           in if 2 ^ 63 < n then None else Some (n, drop (length u) s2))"

lemma duration_number_length: "duration_number s = (i, f, r) \<Longrightarrow> length r \<le> length s"
  by (auto simp: duration_number_def Let_def split: if_splits)

lemma duration_unit_ne: "duration_unit u = Some k \<Longrightarrow> u \<noteq> [] \<and> 0 < k"
  by (auto simp: duration_unit_def split: if_splits)

lemma duration_component_shorter:
  assumes "duration_component s = Some (n, r)"
  shows "length r < length s"
proof -
  obtain ints frac s2 where d: "duration_number s = (ints, frac, s2)" by (metis prod_cases3)
  let ?u = "takeWhile (\<lambda>c. c \<noteq> CHR ''.'' \<and> \<not> is_digit c) s2"
  from assms d have "duration_unit ?u \<noteq> None" "r = drop (length ?u) s2"
    by (simp_all add: duration_component_def Let_def split: if_splits option.splits prod.splits)
  moreover have "length ?u \<le> length s2" by (rule length_takeWhile_le)
  ultimately have "length r < length s2"
    using duration_unit_ne [of ?u] by (cases ?u) auto
  with duration_number_length [OF d] show ?thesis by simp
qed

function duration_sum :: "int \<Rightarrow> string \<Rightarrow> int option" where
  "duration_sum d s =
     (if s = [] then Some d
      else case duration_component s of
             None \<Rightarrow> None
           | Some (v, r) \<Rightarrow> if 2 ^ 63 < d + v then None else duration_sum (d + v) r)"
  by pat_completeness auto
termination
  by (relation "measure (\<lambda>(d, s). length s)") (auto dest: duration_component_shorter)

declare duration_sum.simps [simp del]

definition ParseDuration :: "string \<Rightarrow> time_ns option" where
  "ParseDuration s =
     (let sgn = (s \<noteq> [] \<and> (hd s = CHR ''-'' \<or> hd s = CHR ''+''));
          neg = (sgn \<and> hd s = CHR ''-'');
          t = (if sgn then tl s else s)
      in if t = ''0'' then Some 0
         else if t = [] then None
         else case duration_sum 0 t of
                None \<Rightarrow> None
              | Some d \<Rightarrow> if neg then Some (- d) else if 2 ^ 63 \<le> d then None else Some d)"

section \<open>Settings from the environment\<close>

type_synonym environment = "string \<Rightarrow> string option"

definition getEnvStr :: "environment \<Rightarrow> string \<Rightarrow> string \<Rightarrow> string" where
  "getEnvStr env key defaultVal = (case env key of Some val \<Rightarrow> val | None \<Rightarrow> defaultVal)"

definition getEnvInt :: "environment \<Rightarrow> string \<Rightarrow> int \<Rightarrow> int" where
  "getEnvInt env key defaultVal =
     (case env key of
        Some val \<Rightarrow> (case Atoi val of Some parsed \<Rightarrow> parsed | None \<Rightarrow> defaultVal)
      | None \<Rightarrow> defaultVal)"

definition getEnvInt64 :: "environment \<Rightarrow> string \<Rightarrow> int \<Rightarrow> int" where
  "getEnvInt64 env key defaultVal =
     (case env key of
        Some val \<Rightarrow> (case Atoi val of Some parsed \<Rightarrow> parsed | None \<Rightarrow> defaultVal)
      | None \<Rightarrow> defaultVal)"

definition getEnvDuration :: "environment \<Rightarrow> string \<Rightarrow> time_ns \<Rightarrow> time_ns" where
  "getEnvDuration env key defaultVal =
     (case env key of
        Some val \<Rightarrow> (case ParseDuration val of Some parsed \<Rightarrow> parsed | None \<Rightarrow> defaultVal)
      | None \<Rightarrow> defaultVal)"

definition getEnvBool :: "environment \<Rightarrow> string \<Rightarrow> bool \<Rightarrow> bool" where
  "getEnvBool env key defaultVal =
     (case env key of
        Some val \<Rightarrow> (case ParseBool val of Some parsed \<Rightarrow> parsed | None \<Rightarrow> defaultVal)
      | None \<Rightarrow> defaultVal)"

record Config =
  cfg_Port :: int
  cfg_LogLevel :: string
  cfg_AuthUser :: string
  cfg_AuthPass :: string
  cfg_EnableWebUI :: bool
  cfg_ListenPort :: int
  cfg_ConnsPerTorrent :: int
  cfg_HalfOpenConns :: int
  cfg_CacheSizeBytes :: int
  cfg_HlsCacheBytes :: int
  cfg_MemLimitBytes :: int
  cfg_PreloadBytes :: int
  cfg_ThumbCacheSize :: int
  cfg_ThumbCacheTTL :: time_ns
  cfg_TorrentIdleTimeout :: time_ns
  cfg_SessionTTL :: time_ns
  cfg_DisableAnalyzer :: bool
  cfg_DownloadDir :: string
  cfg_DataDir :: string
  cfg_TmdbKey :: string

definition LoadConfig :: "environment \<Rightarrow> Config" where
  "LoadConfig env =
     (let cacheMB = getEnvInt64 env ''POTOK_CACHE_SIZE_MB'' 256;
          hlsCacheMB = getEnvInt64 env ''POTOK_HLS_CACHE_MB'' 256;
          memLimitMB = getEnvInt64 env ''POTOK_MEM_LIMIT_MB'' 0;
          preloadMB = getEnvInt64 env ''POTOK_PRELOAD_MB'' 20;
          MB = (\<lambda>n. wrap64 (wrap64 (n * 1024) * 1024))
      in \<lparr>cfg_Port = getEnvInt env ''PORT'' 5282,
          cfg_LogLevel = getEnvStr env ''POTOK_LOG_LEVEL'' ''info'',
          cfg_AuthUser = getEnvStr env ''POTOK_AUTH_USER'' '''',
          cfg_AuthPass = getEnvStr env ''POTOK_AUTH_PASS'' '''',
          cfg_EnableWebUI = getEnvBool env ''TORRENTGO_ENABLE_WEBUI'' False,
          cfg_ListenPort = getEnvInt env ''POTOK_LISTEN_PORT'' 55123,
          cfg_ConnsPerTorrent = getEnvInt env ''POTOK_CONNS_PER_TORRENT'' 250,
          cfg_HalfOpenConns = getEnvInt env ''POTOK_HALF_OPEN_CONNS'' 120,
          cfg_CacheSizeBytes = MB cacheMB,
          cfg_HlsCacheBytes = MB hlsCacheMB,
          cfg_MemLimitBytes = MB memLimitMB,
          cfg_PreloadBytes = MB preloadMB,
          cfg_ThumbCacheSize = getEnvInt env ''POTOK_THUMB_CACHE_SIZE'' 200,
          cfg_ThumbCacheTTL = getEnvDuration env ''POTOK_THUMB_CACHE_TTL'' (5 * 60 * 10 ^ 9),
          cfg_TorrentIdleTimeout = getEnvDuration env ''POTOK_TORRENT_IDLE_TIMEOUT'' (60 * 10 ^ 9),
          cfg_SessionTTL = getEnvDuration env ''POTOK_SESSION_TTL'' (25 * 10 ^ 9),
          cfg_DisableAnalyzer = getEnvBool env ''POTOK_DISABLE_ANALYZER'' False,
          cfg_DownloadDir = getEnvStr env ''POTOK_DOWNLOAD_DIR'' ''downloads'',
          cfg_DataDir = getEnvStr env ''POTOK_DATA_DIR'' '''',
          cfg_TmdbKey = getEnvStr env ''TMDB_API_KEY'' ''2c4fa42c601c29b6fea7ad9b211c46f0''\<rparr>)"

section \<open>Basic authentication\<close>

text \<open>What \<^verbatim>\<open>r.BasicAuth()\<close> finds in the request: a user and a password.\<close>

definition BasicAuth :: "Config \<Rightarrow> (string \<times> string) option \<Rightarrow> bool" where
  "BasicAuth cfg credentials =
     (if cfg_AuthUser cfg = '''' then True
      else case credentials of
             None \<Rightarrow> False
           | Some (user, pass) \<Rightarrow> user = cfg_AuthUser cfg \<and> pass = cfg_AuthPass cfg)"

section \<open>The speed monitor\<close>

text \<open>
  One tick of \<^verbatim>\<open>Start\<close>: the client's torrents with the bytes each has read and written so far give the
  speeds of the last second and the snapshot for the next; entries of torrents that are gone are
  deleted. The throttled log line is left out.
\<close>

record TorrentSpeed =
  sp_DownloadSpeed :: int
  sp_UploadSpeed :: int

record Monitor =
  mo_speeds :: "(string \<times> TorrentSpeed) list"
  mo_lastStats :: "(string \<times> int \<times> int) list"

definition NewMonitor :: Monitor where
  "NewMonitor = \<lparr>mo_speeds = [], mo_lastStats = []\<rparr>"

definition speed_of :: "(int \<times> int) option \<Rightarrow> int \<Rightarrow> int \<Rightarrow> TorrentSpeed" where
  "speed_of prev currRead currWrite =
     (case prev of
        None \<Rightarrow> \<lparr>sp_DownloadSpeed = 0, sp_UploadSpeed = 0\<rparr>
      | Some (r, w) \<Rightarrow>
          \<lparr>sp_DownloadSpeed = (if currRead - r < 0 then 0 else currRead - r),
           sp_UploadSpeed = (if currWrite - w < 0 then 0 else currWrite - w)\<rparr>)"

definition monitor_torrent ::
  "byte list \<times> int \<times> int \<Rightarrow> (string \<times> TorrentSpeed) list \<times> (string \<times> int \<times> int) list \<Rightarrow>
   (string \<times> TorrentSpeed) list \<times> (string \<times> int \<times> int) list"
where
  "monitor_torrent t acc =
     (case t of (ih, currRead, currWrite) \<Rightarrow>
        let h = hex_encode ih
        in (AList.update h (speed_of (map_of (snd acc) h) currRead currWrite) (fst acc),
            AList.update h (currRead, currWrite) (snd acc)))"

definition Monitor_tick :: "(byte list \<times> int \<times> int) list \<Rightarrow> Monitor \<Rightarrow> Monitor" where
  "Monitor_tick torrents m =
     (case fold monitor_torrent torrents ([], mo_lastStats m) of
        (speeds, lasts) \<Rightarrow>
          \<lparr>mo_speeds = speeds,
           mo_lastStats = filter (\<lambda>(h, _). h \<in> set (map (\<lambda>(ih, _). hex_encode ih) torrents)) lasts\<rparr>)"

definition GetSpeed :: "string \<Rightarrow> Monitor \<Rightarrow> TorrentSpeed" where
  "GetSpeed hashHex m =
     (case map_of (mo_speeds m) hashHex of
        Some s \<Rightarrow> s | None \<Rightarrow> \<lparr>sp_DownloadSpeed = 0, sp_UploadSpeed = 0\<rparr>)"

definition Monitor_Total :: "Monitor \<Rightarrow> TorrentSpeed" where
  "Monitor_Total m =
     fold (\<lambda>(_, s) t. \<lparr>sp_DownloadSpeed = sp_DownloadSpeed t + sp_DownloadSpeed s,
                       sp_UploadSpeed = sp_UploadSpeed t + sp_UploadSpeed s\<rparr>)
       (mo_speeds m) \<lparr>sp_DownloadSpeed = 0, sp_UploadSpeed = 0\<rparr>"

section \<open>Lemmas\<close>

lemma getEnv_in_int64: "in_int64 d \<Longrightarrow> in_int64 (getEnvInt64 env k d)" "in_int64 d \<Longrightarrow> in_int64 (getEnvInt env k d)"
  by (auto simp: getEnvInt64_def getEnvInt_def split: option.splits dest: Atoi_in_int64)

lemma LoadConfig_bytes_in_int64:
  "in_int64 (cfg_CacheSizeBytes (LoadConfig env))" "in_int64 (cfg_HlsCacheBytes (LoadConfig env))"
  "in_int64 (cfg_MemLimitBytes (LoadConfig env))" "in_int64 (cfg_PreloadBytes (LoadConfig env))"
  by (simp_all add: LoadConfig_def Let_def wrap64_in)

lemma LoadConfig_cache_exact:
  assumes "env ''POTOK_CACHE_SIZE_MB'' = Some (Itoa n)" "0 \<le> n" "n < 2 ^ 43"
  shows "cfg_CacheSizeBytes (LoadConfig env) = n * 2 ^ 20"
proof -
  have "in_int64 n" "in_int64 (n * 1024)" "in_int64 (n * 1024 * 1024)"
    using assms(2,3) by (simp_all add: in_int64_def)
  then show ?thesis using assms(1) by (simp add: LoadConfig_def Let_def getEnvInt64_def Atoi_Itoa wrap64_id)
qed

text \<open>
  The megabytes of a setting are multiplied without a check: one of \<open>2 ^ 44\<close> megabytes wraps around to
  nothing, and the storage falls back to its minimum.
\<close>

lemma cache_size_wraps:
  assumes "env ''POTOK_CACHE_SIZE_MB'' = Some (Itoa (2 ^ 44))"
  shows "cfg_CacheSizeBytes (LoadConfig env) = 0 \<and>
    s_globalCapacity (NewStorage (cfg_CacheSizeBytes (LoadConfig env)) dir fs) = minGlobalCapacity"
proof -
  have "in_int64 (2 ^ 44)" by (simp add: in_int64_def)
  then have "getEnvInt64 env ''POTOK_CACHE_SIZE_MB'' 256 = 2 ^ 44"
    using assms by (simp only: getEnvInt64_def Atoi_Itoa option.case)
  then have "cfg_CacheSizeBytes (LoadConfig env) = 0"
    by (simp add: LoadConfig_def Let_def wrap64_def)
  then show ?thesis
    by (simp add: NewStorage_def clampCapacity_def minGlobalCapacity_def perStreamWindowBytes_def playbackReadaheadBytes_def)
qed

lemma duration_seconds: "ParseDuration ''90s'' = Some (90 * 10 ^ 9)" "ParseDuration ''1h15m30.918s'' = Some 4530918000000"
  "ParseDuration ''5'' = None" "ParseDuration ''-1.5h'' = Some (- 5400000000000)"
  by (simp_all add: ParseDuration_def duration_sum.simps duration_component_def duration_number_def is_digit_def
      digit_val_def digits_val_def duration_unit_def)

subsection \<open>Speeds\<close>

lemma monitor_fold:
  assumes "distinct (map fst ts)"
  shows "map_of (fst (fold monitor_torrent ts (sp, ls))) (hex_encode ih) =
      (case map_of ts ih of
         Some (r, w) \<Rightarrow> Some (speed_of (map_of ls (hex_encode ih)) r w) | None \<Rightarrow> map_of sp (hex_encode ih)) \<and>
    map_of (snd (fold monitor_torrent ts (sp, ls))) (hex_encode ih) =
      (case map_of ts ih of Some rw \<Rightarrow> Some rw | None \<Rightarrow> map_of ls (hex_encode ih))"
  using assms
proof (induction ts arbitrary: sp ls)
  case (Cons t ts)
  obtain i r w where t: "t = (i, r, w)" by (metis prod_cases3)
  show ?case
  proof (cases "i = ih")
    case True
    then have "map_of ts ih = None" using Cons.prems t by (simp add: map_of_eq_None_iff)
    with True Cons t show ?thesis by (simp add: monitor_torrent_def update_conv' Let_def)
  next
    case False
    then have "hex_encode i \<noteq> hex_encode ih" by (metis hex_decode_encode option.inject)
    with False Cons t show ?thesis
      by (auto simp: monitor_torrent_def update_conv' Let_def split: option.splits)
  qed
qed simp

lemma map_of_filter_keys: "map_of (filter (\<lambda>(k, _). P k) al) k = (if P k then map_of al k else None)"
  by (induction al) auto

lemma Monitor_tick_eq:
  assumes "distinct (map fst ts)"
  shows "map_of (mo_speeds (Monitor_tick ts m)) (hex_encode ih) =
      map_option (\<lambda>(r, w). speed_of (map_of (mo_lastStats m) (hex_encode ih)) r w) (map_of ts ih)"
    and "map_of (mo_lastStats (Monitor_tick ts m)) (hex_encode ih) = map_of ts ih"
proof -
  have inj: "hex_encode ih = hex_encode i \<longleftrightarrow> ih = i" for i by (metis hex_decode_encode option.inject)
  have mem: "hex_encode ih \<in> set (map (\<lambda>(ih, _). hex_encode ih) ts) \<longleftrightarrow> map_of ts ih \<noteq> None"
    by (simp add: map_of_eq_None_iff image_image case_prod_beta inj image_iff)
  obtain sp ls where f: "fold monitor_torrent ts ([], mo_lastStats m) = (sp, ls)" by force
  from monitor_fold [OF assms, of "[]" "mo_lastStats m" ih]
  show "map_of (mo_speeds (Monitor_tick ts m)) (hex_encode ih) =
      map_option (\<lambda>(r, w). speed_of (map_of (mo_lastStats m) (hex_encode ih)) r w) (map_of ts ih)"
    by (auto simp: Monitor_tick_def f split: option.splits)
  from monitor_fold [OF assms, of "[]" "mo_lastStats m" ih]
  show "map_of (mo_lastStats (Monitor_tick ts m)) (hex_encode ih) = map_of ts ih"
    unfolding Monitor_tick_def f
    by (simp only: prod.case Monitor.simps map_of_filter_keys mem) (auto simp: f split: option.splits)
qed

text \<open>
  The speed shown for a torrent is what it transferred between the last two ticks, never negative,
  and nothing if it was not there at both of them: counters of a torrent that was dropped and added
  again are never compared with those of its former life.
\<close>

theorem speed_is_last_second:
  assumes "distinct (map fst ts)" "distinct (map fst ts')"
  shows "GetSpeed (hex_encode ih) (Monitor_tick ts' (Monitor_tick ts m)) =
    (case (map_of ts ih, map_of ts' ih) of
       (Some (r, w), Some (r', w')) \<Rightarrow>
         \<lparr>sp_DownloadSpeed = max 0 (r' - r), sp_UploadSpeed = max 0 (w' - w)\<rparr>
     | _ \<Rightarrow> \<lparr>sp_DownloadSpeed = 0, sp_UploadSpeed = 0\<rparr>)"
  by (auto simp: GetSpeed_def Monitor_tick_eq [OF assms(2)] Monitor_tick_eq [OF assms(1)] speed_of_def
      split: option.splits)

theorem speed_is_last_second_witness:
  "GetSpeed (hex_encode [1]) (Monitor_tick [([1], 70, 5)] (Monitor_tick [([1], 30, 9)] NewMonitor)) =
    \<lparr>sp_DownloadSpeed = 40, sp_UploadSpeed = 0\<rparr>"
  by (subst speed_is_last_second) simp_all

end
