(* ===== verification/TorrentApi.thy ===== *)
theory TorrentApi
  imports Resolve Config Playback "HOL-Library.List_Lexorder" "HOL-Library.Char_ord"
begin

text \<open>
  The torrent endpoints (\<^verbatim>\<open>handlers/torrents.go\<close>): the context, restoring pinned torrents at start, adding
  a torrent and listing its media files, its status and its diagnostics. The dropping of a torrent is in
  \<open>Playback\<close>. JSON is kept as the records it encodes. What the torrent client knows about a torrent at the
  moment of a request is an argument, as are the clock and how a wait for metadata ends; goroutines
  detached by a handler are the last step of it.
\<close>

section \<open>The server\<close>

text \<open>
  The handler context with the storage, the calls of \<^verbatim>\<open>AddTrackers\<close> and \<^verbatim>\<open>DownloadAll\<close> the torrent client
  was given, the speeds and the configuration.
\<close>

record server =
  sv_h :: HandlerContext
  sv_world :: world
  sv_trackers :: "(byte list \<times> string list list) list"
  sv_downloads :: "byte list list"
  sv_monitor :: Monitor
  sv_config :: "Config option"

definition sv_client :: "server \<Rightarrow> bt_client" where
  "sv_client s = \<lparr>bc_torrents = hc_torrents (sv_h s), bc_trackers = sv_trackers s\<rparr>"

definition set_client :: "bt_client \<Rightarrow> server \<Rightarrow> server" where
  "set_client c s =
     s\<lparr>sv_h := (sv_h s)\<lparr>hc_torrents := bc_torrents c\<rparr>, sv_trackers := bc_trackers c\<rparr>"

definition catalogDir :: "Config option \<Rightarrow> string" where
  "catalogDir cfg = (case cfg of Some c \<Rightarrow> cfg_DataDir c | None \<Rightarrow> '''')"

definition NewHandlerContext :: "catalog_faults \<Rightarrow> Config option \<Rightarrow> catalog_fs \<Rightarrow> byte list list \<Rightarrow> HandlerContext" where
  "NewHandlerContext f cfg fs torrents =
     \<lparr>hc_playback = [], hc_torrentSeen = [], hc_dropping = [],
      hc_catalog = Some (NewPersistent f (catalogDir cfg) fs), hc_catalogFs = fs,
      hc_fileCaches = (\<lambda>_. []), hc_timecodeCache = [],
      hc_hlsSegCache =
        (case cfg of
           Some c \<Rightarrow> if 0 < cfg_HlsCacheBytes c then new_seg_cache (cfg_HlsCacheBytes c) else new_seg_cache 0
         | None \<Rightarrow> new_seg_cache 0),
      hc_audioCont = [], hc_audioContCount = 0, hc_torrents = torrents\<rparr>"

text \<open>What surrounds a request.\<close>

record api_env =
  ae_network :: network
  ae_resolve :: resolve_env
  ae_io :: io_faults
  ae_catalog :: catalog_faults
  ae_now :: time_ns
  ae_gotInfo :: "byte list \<Rightarrow> bool"

definition downloadDir_set :: "Config option \<Rightarrow> bool" where
  "downloadDir_set cfg = (case cfg of Some c \<Rightarrow> cfg_DownloadDir c \<noteq> '''' | None \<Rightarrow> False)"

definition resolve_in :: "api_env \<Rightarrow> string \<Rightarrow> server \<Rightarrow> resolve_error + (server \<times> byte list)" where
  "resolve_in e link s =
     (case ResolveTorrent (ae_network e) (ae_resolve e) link (sv_client s) of
        Inl err \<Rightarrow> Inl err
      | Inr (c, h) \<Rightarrow> Inr (set_client c s, h))"

definition set_mode :: "api_env \<Rightarrow> byte list \<Rightarrow> bool \<Rightarrow> server \<Rightarrow> server" where
  "set_mode e h disk s = s\<lparr>sv_world := SetMode (ae_io e) (hex_encode h) disk (sv_world s)\<rparr>"

definition download_all :: "byte list \<Rightarrow> server \<Rightarrow> server" where
  "download_all h s = s\<lparr>sv_downloads := sv_downloads s @ [h]\<rparr>"

definition upsert_in :: "api_env \<Rightarrow> Entry \<Rightarrow> server \<Rightarrow> server" where
  "upsert_in e entry s =
     (case hc_catalog (sv_h s) of
        None \<Rightarrow> s
      | Some c \<Rightarrow>
          (case catalog_Upsert (ae_catalog e) (ae_now e) entry (c, hc_catalogFs (sv_h s)) of
             ((c', fs'), _) \<Rightarrow> s\<lparr>sv_h := (sv_h s)\<lparr>hc_catalog := Some c', hc_catalogFs := fs'\<rparr>\<rparr>))"

section \<open>Restoring pinned torrents\<close>

text \<open>The body of the loop over the entries; the goroutine waits ninety seconds for the metadata.\<close>

definition restore_entry :: "api_env \<Rightarrow> Entry \<Rightarrow> server \<Rightarrow> server" where
  "restore_entry e entry s =
     (if \<not> en_Pinned entry \<or> en_Source entry = '''' then s
      else
        let disk = (en_DownloadMode entry = ModeDisk)
        in case resolve_in e (en_Source entry) s of
             Inl _ \<Rightarrow> s
           | Inr (s1, h) \<Rightarrow>
               let s2 = set_mode e h disk s1;
                   downloadAll = (disk \<and> downloadDir_set (sv_config s2))
               in if ae_gotInfo e h \<and> downloadAll then download_all h s2 else s2)"

definition RestorePinned :: "api_env \<Rightarrow> server \<Rightarrow> server" where
  "RestorePinned e s =
     (case hc_catalog (sv_h s) of
        None \<Rightarrow> s
      | Some c \<Rightarrow> fold (restore_entry e) (catalog_All c) s)"

section \<open>Requests and answers\<close>

record TorrentFilesRequest =
  rq_Title :: string
  rq_Link :: "string option"
  rq_MagnetUri :: "string option"
  rq_MediaType :: "string option"
  rq_NumberOfSeasons :: "int option"
  rq_OriginalTitle :: "string option"
  rq_Poster :: "string option"
  rq_TmdbId :: "int option"
  rq_DownloadMode :: "string option"

record TorrentFileItem =
  ti_Id :: string
  ti_Title :: "string option"
  ti_SizeBytes :: "int option"
  ti_Path :: "string option"
  ti_IsSerial :: bool
  ti_FolderName :: string
  ti_Extension :: string

record parsedFile =
  pf_Item :: TorrentFileItem
  pf_Path :: string

record TorrentFilesResponse =
  tr_Hash :: string
  tr_Items :: "TorrentFileItem list"
  tr_AudioFiles :: "TorrentFileItem list"
  tr_SubtitleFiles :: "TorrentFileItem list"

definition opt_str :: "string option \<Rightarrow> string" where
  "opt_str x = (case x of Some s \<Rightarrow> s | None \<Rightarrow> '''')"

definition opt_int :: "int option \<Rightarrow> int" where
  "opt_int x = (case x of Some n \<Rightarrow> n | None \<Rightarrow> 0)"

definition request_entry :: "string \<Rightarrow> string \<Rightarrow> TorrentFilesRequest \<Rightarrow> Entry" where
  "request_entry hash source req =
     \<lparr>en_Hash = hash, en_Source = source, en_Title = rq_Title req, en_OriginalTitle = opt_str (rq_OriginalTitle req),
      en_MediaType = opt_str (rq_MediaType req), en_NumberOfSeasons = opt_int (rq_NumberOfSeasons req),
      en_TmdbID = opt_int (rq_TmdbId req), en_Poster = opt_str (rq_Poster req), en_Pinned = False,
      en_DownloadMode = '''', en_AddedAt = 0\<rparr>"

definition request_link :: "TorrentFilesRequest \<Rightarrow> string" where
  "request_link req =
     (if opt_str (rq_MagnetUri req) \<noteq> '''' then opt_str (rq_MagnetUri req) else opt_str (rq_Link req))"

section \<open>Listing the files\<close>

definition videoExtensions :: "string set" where
  "videoExtensions = {''.mkv'', ''.mp4'', ''.avi'', ''.ts'', ''.mov'', ''.m2ts'', ''.mts''}"

definition audioExtensions :: "string set" where
  "audioExtensions =
     {''.mka'', ''.aac'', ''.ac3'', ''.eac3'', ''.dts'', ''.flac'', ''.opus'', ''.mp3'', ''.m4a'', ''.wav''}"

definition subtitleExtensions :: "string set" where
  "subtitleExtensions = {''.ass'', ''.ssa'', ''.srt'', ''.vtt'', ''.sub''}"

definition filepath_Base :: "string \<Rightarrow> string" where
  "filepath_Base p =
     (if p = '''' then ''.''
      else let q = rev (dropWhile (\<lambda>c. c = CHR ''/'') (rev p))
           in if q = '''' then ''/'' else last (split_on (CHR ''/'') q))"

definition file_item :: "string \<Rightarrow> nat \<Rightarrow> torrent_file \<Rightarrow> TorrentFileItem" where
  "file_item mediaType i f =
     (let name = filepath_Base (tf_path f)
      in \<lparr>ti_Id = Itoa (int i + 1), ti_Title = (if name \<noteq> '''' then Some name else None),
          ti_SizeBytes = Some (tf_length f), ti_Path = Some (tf_path f), ti_IsSerial = (mediaType = ''tv''),
          ti_FolderName = '''', ti_Extension = ToLower (filepath_Ext (tf_path f))\<rparr>)"

type_synonym file_lists = "parsedFile list \<times> parsedFile list \<times> parsedFile list"

definition classify_file :: "string \<Rightarrow> nat \<times> torrent_file \<Rightarrow> file_lists \<Rightarrow> file_lists" where
  "classify_file mediaType fi acc =
     (case (fi, acc) of
        ((i, f), (vs, as, ss)) \<Rightarrow>
          let ext = ToLower (filepath_Ext (tf_path f));
              pf = \<lparr>pf_Item = file_item mediaType i f, pf_Path = tf_path f\<rparr>
          in if ext \<notin> videoExtensions \<and> ext \<notin> audioExtensions \<and> ext \<notin> subtitleExtensions then (vs, as, ss)
             else if ext \<in> videoExtensions then (vs @ [pf], as, ss)
             else if ext \<in> audioExtensions then (vs, as @ [pf], ss)
             else (vs, as, ss @ [pf]))"

text \<open>
  \<^verbatim>\<open>sort.Slice\<close> by path. The order it leaves equal paths in is not specified; a torrent has no two files
  of one path, and here they keep theirs.
\<close>

definition sortByPath :: "parsedFile list \<Rightarrow> parsedFile list" where
  "sortByPath fs = sort_key pf_Path fs"

definition collectItems :: "parsedFile list \<Rightarrow> TorrentFileItem list" where
  "collectItems fs = map pf_Item fs"

definition files_response :: "byte list \<Rightarrow> string \<Rightarrow> torrent_file list \<Rightarrow> TorrentFilesResponse" where
  "files_response h mediaType files =
     (case fold (classify_file mediaType) (enumerate 0 files) ([], [], []) of
        (vs, as, ss) \<Rightarrow>
          \<lparr>tr_Hash = hex_encode h, tr_Items = collectItems (sortByPath vs),
           tr_AudioFiles = collectItems (sortByPath as), tr_SubtitleFiles = collectItems (sortByPath ss)\<rparr>)"

datatype files_answer =
    FilesBadBody
  | FilesNoLink
  | FilesAddFailed resolve_error
  | FilesMetadataTimeout
  | FilesOk TorrentFilesResponse

text \<open>\<open>info\<close> is what the client knows of the torrent's files, \<open>wait\<close> how the wait for it ends.\<close>

definition HandleGetFiles ::
  "api_env \<Rightarrow> (byte list \<Rightarrow> torrent_file list option) \<Rightarrow> (byte list \<Rightarrow> info_wait) \<Rightarrow> TorrentFilesRequest option \<Rightarrow>
   server \<Rightarrow> server \<times> files_answer"
where
  "HandleGetFiles e info wait body s =
     (case body of
        None \<Rightarrow> (s, FilesBadBody)
      | Some req \<Rightarrow>
          let link = request_link req
          in if link = '''' then (s, FilesNoLink)
             else case resolve_in e link s of
                    Inl err \<Rightarrow> (s, FilesAddFailed err)
                  | Inr (s1, h) \<Rightarrow>
                      let diskMode = (rq_DownloadMode req = Some ModeDisk);
                          s2 = set_mode e h diskMode s1
                      in case (case info h of Some fs \<Rightarrow> GotInfo fs | None \<Rightarrow> wait h) of
                           GotInfo files \<Rightarrow>
                             let s3 = s2\<lparr>sv_h := (sv_h s2)\<lparr>hc_torrentSeen :=
                                        AList.update (hex_encode h) (ae_now e) (hc_torrentSeen (sv_h s2))\<rparr>\<rparr>;
                                 entry = (request_entry (hex_encode h) link req)
                                           \<lparr>en_DownloadMode := if diskMode then ModeDisk else ModeStream\<rparr>;
                                 s4 = upsert_in e entry s3;
                                 s5 = (if diskMode \<and> downloadDir_set (sv_config s4) then download_all h s4 else s4)
                             in (s5, FilesOk (files_response h (opt_str (rq_MediaType req)) files))
                         | _ \<Rightarrow> (s2, FilesMetadataTimeout))"

section \<open>Status and diagnostics\<close>

text \<open>What the client shows of one torrent; the number of pieces is read from its info.\<close>

record torrent_desc =
  td_Name :: string
  td_Info :: "torrent_file list option"
  td_Length :: int
  td_BytesCompleted :: int
  td_TotalPeers :: int
  td_PendingPeers :: int
  td_ActivePeers :: int
  td_ConnectedSeeders :: int
  td_HalfOpenPeers :: int
  td_PiecesComplete :: int
  td_pieces :: int
  td_PeerConns :: "string list"

text \<open>\<^verbatim>\<open>NumPieces\<close> dereferences the info: \<open>None\<close> is the panic before the metadata is there.\<close>

definition NumPieces :: "torrent_desc \<Rightarrow> int option" where
  "NumPieces d = (case td_Info d of None \<Rightarrow> None | Some _ \<Rightarrow> Some (td_pieces d))"

definition torrent_state :: "torrent_desc \<Rightarrow> string" where
  "torrent_state d =
     (if td_Info d = None then ''Metadata''
      else if td_BytesCompleted d = td_Length d then ''Seeding'' else ''Downloading'')"

definition torrent_progress :: "torrent_desc \<Rightarrow> rat" where
  "torrent_progress d =
     (if 0 < td_Length d then of_int (td_BytesCompleted d) / of_int (td_Length d) else 0)"

record StatusResponse =
  st_Hash :: string
  st_State :: string
  st_Progress :: rat
  st_Peers :: int
  st_DownloadSpeed :: int
  st_UploadSpeed :: int
  st_Name :: string
  st_TotalBytes :: int
  st_CompletedBytes :: int
  st_Watchers :: int
  st_Pinned :: bool

datatype 'a api_answer = ApiOk 'a | ApiBadHash | ApiNotFound | ApiPanic

definition catalog_entry :: "string \<Rightarrow> server \<Rightarrow> Entry option" where
  "catalog_entry hash s = (case hc_catalog (sv_h s) of None \<Rightarrow> None | Some c \<Rightarrow> catalog_Get hash c)"

definition title_or :: "string \<Rightarrow> Entry option \<Rightarrow> string" where
  "title_or name entry = (case entry of Some e \<Rightarrow> if en_Title e \<noteq> '''' then en_Title e else name | None \<Rightarrow> name)"

definition entry_pinned :: "Entry option \<Rightarrow> bool" where
  "entry_pinned entry = (case entry of Some e \<Rightarrow> en_Pinned e | None \<Rightarrow> False)"

definition HandleGetStatus :: "(byte list \<Rightarrow> torrent_desc) \<Rightarrow> string \<Rightarrow> server \<Rightarrow> StatusResponse api_answer" where
  "HandleGetStatus shows hashHex s =
     (case decode_hash hashHex of
        None \<Rightarrow> ApiBadHash
      | Some infoHash \<Rightarrow>
          if infoHash \<notin> set (hc_torrents (sv_h s)) then ApiNotFound
          else
            let d = shows infoHash;
                speeds = GetSpeed hashHex (sv_monitor s);
                entry = catalog_entry hashHex s
            in ApiOk
                 \<lparr>st_Hash = hashHex, st_State = torrent_state d, st_Progress = torrent_progress d,
                  st_Peers = td_ActivePeers d, st_DownloadSpeed = sp_DownloadSpeed speeds,
                  st_UploadSpeed = sp_UploadSpeed speeds, st_Name = title_or (td_Name d) entry,
                  st_TotalBytes = td_Length d, st_CompletedBytes = td_BytesCompleted d,
                  st_Watchers = Watchers hashHex (sv_h s), st_Pinned = entry_pinned entry\<rparr>)"

record TorrentDiagnostics =
  dg_Hash :: string
  dg_HasInfo :: bool
  dg_TotalPeers :: int
  dg_PendingPeers :: int
  dg_ActivePeers :: int
  dg_ConnectedSeeders :: int
  dg_HalfOpenPeers :: int
  dg_PiecesComplete :: int
  dg_NumPieces :: int
  dg_PeerConns :: "string list"

definition HandleGetDiagnostics :: "(byte list \<Rightarrow> torrent_desc) \<Rightarrow> string \<Rightarrow> server \<Rightarrow> TorrentDiagnostics api_answer" where
  "HandleGetDiagnostics shows hashHex s =
     (case decode_hash hashHex of
        None \<Rightarrow> ApiBadHash
      | Some infoHash \<Rightarrow>
          if infoHash \<notin> set (hc_torrents (sv_h s)) then ApiNotFound
          else
            let d = shows infoHash
            in case NumPieces d of
                 None \<Rightarrow> ApiPanic
               | Some n \<Rightarrow>
                   ApiOk
                     \<lparr>dg_Hash = hashHex, dg_HasInfo = (td_Info d \<noteq> None), dg_TotalPeers = td_TotalPeers d,
                      dg_PendingPeers = td_PendingPeers d, dg_ActivePeers = td_ActivePeers d,
                      dg_ConnectedSeeders = td_ConnectedSeeders d, dg_HalfOpenPeers = td_HalfOpenPeers d,
                      dg_PiecesComplete = td_PiecesComplete d, dg_NumPieces = n, dg_PeerConns = td_PeerConns d\<rparr>)"

section \<open>Lemmas on the listing\<close>

definition media_ext :: "torrent_file \<Rightarrow> string" where
  "media_ext f = ToLower (filepath_Ext (tf_path f))"

definition listed :: "string set \<Rightarrow> string \<Rightarrow> torrent_file list \<Rightarrow> TorrentFileItem list" where
  "listed exts mediaType files =
     map (\<lambda>(i, f). file_item mediaType i f) (filter (\<lambda>(i, f). media_ext f \<in> exts) (enumerate 0 files))"

definition parsed :: "string set \<Rightarrow> string \<Rightarrow> (nat \<times> torrent_file) list \<Rightarrow> parsedFile list" where
  "parsed exts mediaType ifs =
     map (\<lambda>(i, f). \<lparr>pf_Item = file_item mediaType i f, pf_Path = tf_path f\<rparr>)
       (filter (\<lambda>(i, f). media_ext f \<in> exts) ifs)"

lemma extensions_disjoint:
  "x \<in> videoExtensions \<Longrightarrow> x \<notin> audioExtensions \<and> x \<notin> subtitleExtensions"
  "x \<in> audioExtensions \<Longrightarrow> x \<notin> videoExtensions \<and> x \<notin> subtitleExtensions"
  "x \<in> subtitleExtensions \<Longrightarrow> x \<notin> videoExtensions \<and> x \<notin> audioExtensions"
  by (auto simp: videoExtensions_def audioExtensions_def subtitleExtensions_def)

lemma classify_fold:
  "fold (classify_file mt) ifs (vs, as, ss) =
     (vs @ parsed videoExtensions mt ifs, as @ parsed audioExtensions mt ifs, ss @ parsed subtitleExtensions mt ifs)"
proof (induction ifs arbitrary: vs as ss)
  case (Cons fi ifs)
  obtain i f where fi: "fi = (i, f)" by force
  have "classify_file mt fi (vs, as, ss) =
      (vs @ parsed videoExtensions mt [fi], as @ parsed audioExtensions mt [fi], ss @ parsed subtitleExtensions mt [fi])"
  proof -
    let ?x = "media_ext f"
    have c: "classify_file mt (i, f) (vs, as, ss) =
        (let pf = \<lparr>pf_Item = file_item mt i f, pf_Path = tf_path f\<rparr>
         in if ?x \<in> videoExtensions then (vs @ [pf], as, ss)
            else if ?x \<in> audioExtensions then (vs, as @ [pf], ss)
            else if ?x \<in> subtitleExtensions then (vs, as, ss @ [pf]) else (vs, as, ss))"
      unfolding classify_file_def media_ext_def by (simp add: Let_def)
    consider "?x \<in> videoExtensions" | "?x \<in> audioExtensions" | "?x \<in> subtitleExtensions"
      | "?x \<notin> videoExtensions" "?x \<notin> audioExtensions" "?x \<notin> subtitleExtensions" by blast
    then show ?thesis
    proof cases
      case 1
      with extensions_disjoint(1) [OF 1] show ?thesis unfolding fi c parsed_def by simp
    next
      case 2
      with extensions_disjoint(2) [OF 2] show ?thesis unfolding fi c parsed_def by simp
    next
      case 3
      with extensions_disjoint(3) [OF 3] show ?thesis unfolding fi c parsed_def by simp
    next
      case 4
      then show ?thesis unfolding fi c parsed_def by simp
    qed
  qed
  then show ?case by (simp add: Cons.IH parsed_def)
qed (simp add: parsed_def)

lemma collect_sorted:
  "mset (collectItems (sortByPath (parsed exts mt (enumerate 0 files)))) = mset (listed exts mt files)"
  "sorted (map (opt_str \<circ> ti_Path) (collectItems (sortByPath (parsed exts mt (enumerate 0 files)))))"
proof -
  show "mset (collectItems (sortByPath (parsed exts mt (enumerate 0 files)))) = mset (listed exts mt files)"
  proof -
    have "map pf_Item (parsed exts mt (enumerate 0 files)) = listed exts mt files"
      by (simp add: parsed_def listed_def comp_def case_prod_beta)
    from arg_cong [OF this, of mset] show ?thesis by (simp add: collectItems_def sortByPath_def)
  qed
  have p: "opt_str (ti_Path (pf_Item x)) = pf_Path x" if "x \<in> set (parsed exts mt (enumerate 0 files))" for x
    using that by (auto simp: parsed_def file_item_def opt_str_def Let_def)
  have "map (opt_str \<circ> ti_Path) (collectItems (sortByPath (parsed exts mt (enumerate 0 files)))) =
      map pf_Path (sortByPath (parsed exts mt (enumerate 0 files)))"
    by (simp add: collectItems_def sortByPath_def p)
  then show "sorted (map (opt_str \<circ> ti_Path) (collectItems (sortByPath (parsed exts mt (enumerate 0 files)))))"
    by (simp only: sortByPath_def sorted_sort_key)
qed

lemma files_response_lists:
  "tr_Hash (files_response h mt files) = hex_encode h"
  "tr_Items (files_response h mt files) = collectItems (sortByPath (parsed videoExtensions mt (enumerate 0 files)))"
  "tr_AudioFiles (files_response h mt files) = collectItems (sortByPath (parsed audioExtensions mt (enumerate 0 files)))"
  "tr_SubtitleFiles (files_response h mt files) = collectItems (sortByPath (parsed subtitleExtensions mt (enumerate 0 files)))"
  by (simp_all add: files_response_def classify_fold)

lemma set_collect_sorted:
  "item \<in> set (collectItems (sortByPath (parsed exts mt (enumerate 0 files)))) \<longleftrightarrow>
    (\<exists>i < length files. item = file_item mt i (files ! i) \<and> media_ext (files ! i) \<in> exts)"
  by (auto simp: collectItems_def sortByPath_def parsed_def in_set_enumerate_eq image_iff)

text \<open>
  The answer to adding a torrent lists every file with a media extension exactly once, in the list
  of its kind, sorted by path, and no other file.
\<close>

theorem media_files_listed_once:
  "mset (tr_Items (files_response h mt files)) = mset (listed videoExtensions mt files) \<and>
   mset (tr_AudioFiles (files_response h mt files)) = mset (listed audioExtensions mt files) \<and>
   mset (tr_SubtitleFiles (files_response h mt files)) = mset (listed subtitleExtensions mt files) \<and>
   sorted (map (opt_str \<circ> ti_Path) (tr_Items (files_response h mt files))) \<and>
   sorted (map (opt_str \<circ> ti_Path) (tr_AudioFiles (files_response h mt files))) \<and>
   sorted (map (opt_str \<circ> ti_Path) (tr_SubtitleFiles (files_response h mt files)))"
  unfolding files_response_lists using collect_sorted by blast

definition listed_items :: "TorrentFilesResponse \<Rightarrow> TorrentFileItem list" where
  "listed_items r = tr_Items r @ tr_AudioFiles r @ tr_SubtitleFiles r"

text \<open>
  C34. The infohash and the id of a listed item name its file: a request that sends them back opens a
  reader over the range of exactly the file whose path, size and extension the item shows, for as long
  as the client has the torrent and the storage its cache.
\<close>

theorem listed_ids_open_their_files:
  assumes "item \<in> set (listed_items (files_response h mt files))"
    and "length h = 20" "map_of cl h = Some t" "tv_files t = Some files" "GetCache (hex_encode h) w = Some c"
    and "int (length files) < 2 ^ 63"
  shows "\<exists>f \<in> set files. ti_Path item = Some (tf_path f) \<and> ti_SizeBytes item = Some (tf_length f) \<and>
    openTorrentFileReader cl wait (tr_Hash (files_response h mt files)) (ti_Id item) cls w =
      (case NewReader (Some (tv_ref t)) c (tf_offset f) (tf_length f) cls None w of
         (w1, rs) \<Rightarrow> Inr (w1, rs, ti_Extension item))"
proof -
  from assms(1) obtain i where i: "i < length files" "item = file_item mt i (files ! i)"
    by (auto simp: listed_items_def files_response_lists set_collect_sorted)
  have "Sscanf_d (Itoa (int i + 1)) = Some (int i + 1)"
    using i(1) assms(6) by (intro Sscanf_Itoa) (simp_all add: in_int64_def)
  with i assms show ?thesis
    by (intro bexI [of _ "files ! i"])
      (simp_all add: file_item_def Let_def files_response_lists openTorrentFileReader_def decode_hash_encode await_info_def
        split: prod.splits)
qed

definition demo_files :: "torrent_file list" where
  "demo_files =
     [\<lparr>tf_path = ''S/b.mkv'', tf_offset = 0, tf_length = 700, tf_completed = 0\<rparr>,
      \<lparr>tf_path = ''S/info.txt'', tf_offset = 700, tf_length = 10, tf_completed = 0\<rparr>,
      \<lparr>tf_path = ''S/a.MKV'', tf_offset = 710, tf_length = 600, tf_completed = 0\<rparr>]"

theorem listed_ids_open_their_files_witness:
  "\<exists>x. openTorrentFileReader [(demo_hash, \<lparr>tv_ref = 0, tv_files = Some demo_files\<rparr>)] InfoTimeout
     (hex_encode demo_hash) ''3'' ClassPlayback ((NewStorage 0 [] (\<lambda>_. None))\<lparr>s_caches := [(hex_encode demo_hash, 0)]\<rparr>) =
   Inr x"
proof -
  let ?w = "(NewStorage 0 [] (\<lambda>_. None))\<lparr>s_caches := [(hex_encode demo_hash, 0)]\<rparr>"
  let ?item = "file_item ''tv'' 2 (demo_files ! 2)"
  have "media_ext (demo_files ! 2) = ''.mkv''"
    by code_simp
  then have "media_ext (demo_files ! 2) \<in> videoExtensions" by (simp add: videoExtensions_def)
  moreover have "2 < length demo_files" by (simp add: demo_files_def)
  ultimately have m: "?item \<in> set (listed_items (files_response demo_hash ''tv'' demo_files))"
    unfolding listed_items_def files_response_lists set_append using set_collect_sorted by blast
  have "Itoa 3 = ''3''" by code_simp
  then have id: "ti_Id ?item = ''3''" by (simp add: file_item_def Let_def)
  have l: "length demo_hash = 20" "int (length demo_files) < 2 ^ 63" "GetCache (hex_encode demo_hash) ?w = Some 0"
    by (simp_all add: demo_hash_def demo_files_def GetCache_def)
  from listed_ids_open_their_files [OF m l(1) _ _ l(3) l(2),
      of "[(demo_hash, \<lparr>tv_ref = 0, tv_files = Some demo_files\<rparr>)]" "\<lparr>tv_ref = 0, tv_files = Some demo_files\<rparr>"
        InfoTimeout ClassPlayback] id
  show ?thesis by (auto simp: files_response_lists case_prod_beta)
qed

text \<open>
  The diagnostics of a torrent whose metadata has not arrived panic: the handler asks for the number
  of pieces without the test for the info that the diagnostics page makes for that very reason.
\<close>

theorem diagnostics_panic_without_metadata:
  assumes "decode_hash hashHex = Some h" "h \<in> set (hc_torrents (sv_h s))"
  shows "HandleGetDiagnostics shows hashHex s = ApiPanic \<longleftrightarrow> td_Info (shows h) = None"
  using assms by (simp add: HandleGetDiagnostics_def NumPieces_def Let_def split: option.splits)

definition demo_desc :: torrent_desc where
  "demo_desc =
     \<lparr>td_Name = ''S'', td_Info = None, td_Length = 0, td_BytesCompleted = 0, td_TotalPeers = 3, td_PendingPeers = 1,
      td_ActivePeers = 2, td_ConnectedSeeders = 0, td_HalfOpenPeers = 0, td_PiecesComplete = 0, td_pieces = 0,
      td_PeerConns = []\<rparr>"

definition demo_server :: server where
  "demo_server =
     \<lparr>sv_h = demo_context, sv_world = NewStorage 0 [] (\<lambda>_. None), sv_trackers = [], sv_downloads = [],
      sv_monitor = NewMonitor, sv_config = None\<rparr>"

theorem diagnostics_panic_without_metadata_witness:
  "HandleGetDiagnostics (\<lambda>_. demo_desc) (hex_encode demo_hash) demo_server = ApiPanic"
proof -
  have "length demo_hash = 20" by (simp add: demo_hash_def)
  then have "decode_hash (hex_encode demo_hash) = Some demo_hash" by (rule decode_hash_encode)
  from diagnostics_panic_without_metadata [OF this] show ?thesis
    by (simp add: demo_server_def demo_context_def demo_desc_def)
qed

section \<open>Lemmas on adding and restoring\<close>

lemma resolve_in_frame:
  assumes "resolve_in e link s = Inr (s', h)"
  shows "hc_torrents (sv_h s') =
      (if h \<in> set (hc_torrents (sv_h s)) then hc_torrents (sv_h s) else hc_torrents (sv_h s) @ [h])"
    "hc_catalog (sv_h s') = hc_catalog (sv_h s)" "hc_catalogFs (sv_h s') = hc_catalogFs (sv_h s)"
    "hc_playback (sv_h s') = hc_playback (sv_h s)" "hc_torrentSeen (sv_h s') = hc_torrentSeen (sv_h s)"
    "sv_config s' = sv_config s" "sv_downloads s' = sv_downloads s" "sv_world s' = sv_world s"
  using assms
  by (auto simp: resolve_in_def set_client_def sv_client_def AddTrackers_def add_torrent_def
      dest!: resolved_shape split: sum.splits prod.splits)

lemma resolve_in_magnet:
  assumes "prefix ''magnet:'' (ToLower link)" "re_magnet (ae_resolve e) link = Some h"
  obtains s' where "resolve_in e link s = Inr (s', h)"
  using assms by (auto simp: resolve_in_def ResolveTorrent_def AddMagnet_def Let_def)

lemma restore_entry_frame:
  "hc_catalog (sv_h (restore_entry e entry s)) = hc_catalog (sv_h s) \<and>
   set (hc_torrents (sv_h s)) \<subseteq> set (hc_torrents (sv_h (restore_entry e entry s)))"
proof (cases "resolve_in e (en_Source entry) s")
  case (Inr r)
  obtain s1 h where "r = (s1, h)" by force
  with Inr resolve_in_frame(1,2) [of e "en_Source entry" s s1 h] show ?thesis
    by (auto simp: restore_entry_def Let_def set_mode_def download_all_def)
qed (simp add: restore_entry_def Let_def)

lemma restore_fold_frame:
  "hc_catalog (sv_h (fold (restore_entry e) es s)) = hc_catalog (sv_h s) \<and>
   set (hc_torrents (sv_h s)) \<subseteq> set (hc_torrents (sv_h (fold (restore_entry e) es s)))"
  by (induction es arbitrary: s) (use restore_entry_frame in \<open>auto, blast\<close>)

lemma restored_entry_is_live:
  assumes "hc_catalog (sv_h s) = Some c" "entry \<in> set (catalog_All c)" "en_Pinned entry"
    and "prefix ''magnet:'' (ToLower (en_Source entry))" "re_magnet (ae_resolve e) (en_Source entry) = Some h"
  shows "h \<in> set (hc_torrents (sv_h (RestorePinned e s))) \<and> hc_catalog (sv_h (RestorePinned e s)) = Some c"
proof -
  obtain xs ys where split: "catalog_All c = xs @ entry # ys" using assms(2) by (meson split_list)
  let ?s = "fold (restore_entry e) xs s"
  obtain s1 where r: "resolve_in e (en_Source entry) ?s = Inr (s1, h)"
    by (rule resolve_in_magnet [OF assms(4,5)])
  have "en_Source entry \<noteq> ''''" using assms(4) by (auto simp: ToLower_def)
  with r resolve_in_frame(1) [OF r] assms(3) have "h \<in> set (hc_torrents (sv_h (restore_entry e entry ?s)))"
    by (auto simp: restore_entry_def Let_def set_mode_def download_all_def)
  then show ?thesis
    using assms(1) restore_fold_frame [of e ys "restore_entry e entry ?s"] restore_fold_frame [of e "catalog_All c" s]
    by (auto simp: RestorePinned_def split)
qed

lemma reap_torrent_catalog: "hc_catalog (reap_torrent now cfg t h) = hc_catalog h"
  by (auto simp: reap_torrent_def reap_decide_def dropTorrent_frame split: option.splits)

lemma reap_fold_catalog: "hc_catalog (fold (reap_torrent now cfg) ts h) = hc_catalog h"
  by (induction ts arbitrary: h) (simp_all add: reap_torrent_catalog)

lemma tick_keeps_persistent:
  assumes "isPersistentTorrent (hex_encode t) h" "t \<in> set (hc_torrents h)"
  shows "t \<in> set (hc_torrents (ReapPlaybackSessions_tick now cfg h)) \<and>
    isPersistentTorrent (hex_encode t) (ReapPlaybackSessions_tick now cfg h)"
proof -
  let ?h = "reap_expire now cfg h"
  have e: "hc_catalog ?h = hc_catalog h" "hc_torrents ?h = hc_torrents h" by (simp_all add: reap_expire_def)
  have "spared now cfg (hex_encode t) ?h" using assms(1) e by (simp add: spared_def isPersistentTorrent_def)
  with reap_fold [of now cfg t ?h "hc_torrents ?h"] assms e show ?thesis
    by (simp add: ReapPlaybackSessions_tick_def Let_def isPersistentTorrent_def reap_fold_catalog)
qed

lemma ticks_keep_persistent:
  "isPersistentTorrent (hex_encode t) h \<Longrightarrow> t \<in> set (hc_torrents h) \<Longrightarrow>
   t \<in> set (hc_torrents (fold (\<lambda>(now, cfg). ReapPlaybackSessions_tick now cfg) ticks h))"
  by (induction ticks arbitrary: h) (auto simp: tick_keeps_persistent)

end
