(* ===== verification/Management.thy ===== *)
theory Management
  imports TorrentApi MediaProbe Accounting
begin

text \<open>
  The management endpoints: the infohash of a magnet link and the saved library (\<^verbatim>\<open>handlers/library.go\<close>),
  listing and pinning (\<^verbatim>\<open>handlers/manage.go\<close>), the memory budget (\<^verbatim>\<open>handlers/settings.go\<close>), the diagnostics
  page (\<^verbatim>\<open>handlers/diagnostics.go\<close>) and the lookup of titles (\<^verbatim>\<open>handlers/tmdb.go\<close>).
\<close>

section \<open>Numbers in a base\<close>

fun to_base :: "nat \<Rightarrow> nat \<Rightarrow> nat \<Rightarrow> nat list" where
  "to_base b 0 n = []"
| "to_base b (Suc k) n = to_base b k (n div b) @ [n mod b]"

definition of_base :: "nat \<Rightarrow> nat list \<Rightarrow> nat" where
  "of_base b ds = foldl (\<lambda>acc d. acc * b + d) 0 ds"

lemma of_base_simps [simp]: "of_base b [] = 0" "of_base b (ds @ [d]) = of_base b ds * b + d"
  by (simp_all add: of_base_def)

lemma length_to_base [simp]: "length (to_base b k n) = k"
  by (induction k arbitrary: n) auto

lemma to_base_less: "0 < b \<Longrightarrow> d \<in> set (to_base b k n) \<Longrightarrow> d < b"
  by (induction k arbitrary: n) auto

lemma of_to_base: "n < b ^ k \<Longrightarrow> of_base b (to_base b k n) = n"
proof (induction k arbitrary: n)
  case (Suc k)
  then have "n div b < b ^ k" by (metis less_mult_imp_div_less power_Suc2)
  with Suc.IH show ?case by simp
qed simp

lemma of_base_less: "0 < b \<Longrightarrow> list_all (\<lambda>d. d < b) ds \<Longrightarrow> of_base b ds < b ^ length ds"
proof (induction ds rule: rev_induct)
  case (snoc d ds)
  then have "of_base b ds + 1 \<le> b ^ length ds" "d < b" by auto
  then have "(of_base b ds + 1) * b \<le> b ^ length ds * b" by (intro mult_le_mono1)
  with \<open>d < b\<close> show ?case by (simp add: algebra_simps)
qed simp

lemma to_of_base: "0 < b \<Longrightarrow> list_all (\<lambda>d. d < b) ds \<Longrightarrow> to_base b (length ds) (of_base b ds) = ds"
  by (induction ds rule: rev_induct) auto

section \<open>Base32\<close>

text \<open>
  \<^verbatim>\<open>base32.StdEncoding\<close> on text without padding: eight letters of the alphabet are five bytes. Text whose
  length is no multiple of eight is an error.
\<close>

definition base32_val :: "char \<Rightarrow> nat option" where
  "base32_val c =
     (let n = of_char c :: nat
      in if 65 \<le> n \<and> n \<le> 90 then Some (n - 65) else if 50 \<le> n \<and> n \<le> 55 then Some (n - 24) else None)"

definition base32_char :: "nat \<Rightarrow> char" where
  "base32_char v = (if v < 26 then char_of (65 + v) else char_of (24 + v))"

definition base32_group :: "string \<Rightarrow> byte list option" where
  "base32_group cs =
     (let vs = map base32_val cs
      in if None \<in> set vs then None else Some (map of_nat (to_base 256 5 (of_base 32 (map the vs)))))"

fun base32_groups :: "nat \<Rightarrow> string \<Rightarrow> byte list option" where
  "base32_groups 0 s = (if s = [] then Some [] else None)"
| "base32_groups (Suc k) s =
     (case base32_group (take 8 s) of
        None \<Rightarrow> None
      | Some b \<Rightarrow> map_option (\<lambda>bs. b @ bs) (base32_groups k (drop 8 s)))"

definition base32_decode :: "string \<Rightarrow> byte list option" where
  "base32_decode s = (if length s mod 8 = 0 then base32_groups (length s div 8) s else None)"

text \<open>The encoding, for the round trip.\<close>

definition base32_encode_group :: "byte list \<Rightarrow> string" where
  "base32_encode_group bs = map base32_char (to_base 32 8 (of_base 256 (map unat bs)))"

fun base32_encode_groups :: "nat \<Rightarrow> byte list \<Rightarrow> string" where
  "base32_encode_groups 0 bs = []"
| "base32_encode_groups (Suc k) bs = base32_encode_group (take 5 bs) @ base32_encode_groups k (drop 5 bs)"

lemma base32_val_char: "v < 32 \<Longrightarrow> base32_val (base32_char v) = Some v"
  by (auto simp: base32_val_def base32_char_def Let_def of_char_of)

lemma unat_of_nat_byte: "map (of_nat \<circ> unat) bs = bs" for bs :: "byte list"
  by (induction bs) simp_all

lemma base32_group_encode:
  assumes "length bs = 5"
  shows "base32_group (base32_encode_group bs) = Some bs"
proof -
  let ?n = "of_base 256 (map unat bs)"
  have l: "list_all (\<lambda>d. d < 256) (map unat bs)"
    using unsigned_less [where ?'b = 8 and ?'a = nat] by (simp add: list_all_iff)
  then have "?n < 256 ^ 5" using of_base_less [of 256 "map unat bs"] assms by simp
  then have n: "?n < 32 ^ 8" by simp
  have vs: "map base32_val (base32_encode_group bs) = map Some (to_base 32 8 ?n)"
    using to_base_less [of 32 _ 8 ?n] by (simp add: base32_encode_group_def base32_val_char)
  have "of_base 32 (to_base 32 8 ?n) = ?n" using n by (rule of_to_base)
  moreover have "to_base 256 5 ?n = map unat bs"
    using to_of_base [of 256 "map unat bs"] l assms by simp
  moreover have "None \<notin> set (map base32_val (base32_encode_group bs))" unfolding vs by auto
  moreover have "map the (map base32_val (base32_encode_group bs)) = to_base 32 8 ?n"
    unfolding vs by (simp add: comp_def)
  ultimately show ?thesis
    by (simp only: base32_group_def Let_def if_False map_map unat_of_nat_byte)
qed

lemma length_base32_encode_group [simp]: "length (base32_encode_group bs) = 8"
  by (simp add: base32_encode_group_def)

lemma length_base32_encode_groups [simp]: "length (base32_encode_groups k bs) = 8 * k"
  by (induction k arbitrary: bs) auto

lemma base32_groups_encode: "length bs = 5 * k \<Longrightarrow> base32_groups k (base32_encode_groups k bs) = Some bs"
  by (induction k arbitrary: bs) (simp_all add: base32_group_encode)

lemma base32_groups_length: "base32_groups k s = Some bs \<Longrightarrow> length bs = 5 * k"
  by (induction k arbitrary: s bs) (auto simp: base32_group_def Let_def split: if_splits option.splits)

section \<open>The infohash of a magnet link\<close>

text \<open>
  The pattern \<^verbatim>\<open>(?i)xt=urn:btih:([a-z2-7]{32}|[a-f0-9]{40})\<close>: at the first position where it matches, the
  first alternative that fits.
\<close>

definition btih_key :: string where
  "btih_key = ''xt=urn:btih:''"

definition in_base32 :: "char \<Rightarrow> bool" where
  "in_base32 c =
     (let n = of_char c :: nat in (97 \<le> n \<and> n \<le> 122) \<or> (65 \<le> n \<and> n \<le> 90) \<or> (50 \<le> n \<and> n \<le> 55))"

definition btih_at :: "string \<Rightarrow> string option" where
  "btih_at s =
     (if ToLower (take 12 s) \<noteq> btih_key then None
      else
        let t = drop 12 s
        in if 32 \<le> length t \<and> list_all in_base32 (take 32 t) then Some (take 32 t)
           else if 40 \<le> length t \<and> list_all is_hex_digit (take 40 t) then Some (take 40 t) else None)"

fun btih_find :: "string \<Rightarrow> string option" where
  "btih_find [] = None"
| "btih_find (c # cs) = (case btih_at (c # cs) of Some h \<Rightarrow> Some h | None \<Rightarrow> btih_find cs)"

datatype btih_error = NoBtih | BadHex | BadBase32 | BadLength

definition infohashFromMagnet :: "string \<Rightarrow> btih_error + string" where
  "infohashFromMagnet magnet =
     (case btih_find magnet of
        None \<Rightarrow> Inl NoBtih
      | Some h \<Rightarrow>
          if length h = 40 then (case hex_decode h of None \<Rightarrow> Inl BadHex | Some _ \<Rightarrow> Inr (ToLower h))
          else if length h = 32
          then (case base32_decode (ToUpper h) of
                  None \<Rightarrow> Inl BadBase32
                | Some b \<Rightarrow> if length b \<noteq> 20 then Inl BadBase32 else Inr (hex_encode b))
          else Inl BadLength)"

lemma char_upper_base32: "v < 32 \<Longrightarrow> char_upper (base32_char v) = base32_char v"
  by (auto simp: char_upper_def base32_char_def Let_def of_char_of)

lemma base32_encode_chars: "c \<in> set (base32_encode_groups k bs) \<Longrightarrow> \<exists>v < 32. c = base32_char v"
proof (induction k arbitrary: bs)
  case (Suc k)
  have "\<exists>v < 32. d = base32_char v" if "d \<in> set (base32_encode_group b)" for d b
    using that to_base_less [of 32] by (fastforce simp: base32_encode_group_def)
  with Suc show ?case by auto
qed simp

lemma ToUpper_base32: "ToUpper (base32_encode_groups k bs) = base32_encode_groups k bs"
  unfolding ToUpper_def by (rule map_idI) (use base32_encode_chars char_upper_base32 in blast)

lemma in_base32_char: "v < 32 \<Longrightarrow> in_base32 (base32_char v)"
  by (auto simp: in_base32_def base32_char_def Let_def of_char_of)

lemma hex_char_digit: "n < 16 \<Longrightarrow> is_hex_digit (hex_char n)"
  by (auto simp: is_hex_digit_def hex_char_def Let_def of_char_of)

lemma hex_encode_digits: "list_all is_hex_digit (hex_encode bs)"
proof (induction bs)
  case (Cons b bs)
  have "unat b < 256" using unsigned_less [of b, where ?'a = nat] by simp
  then have "unat b div 16 < 16" by simp
  with Cons show ?case by (simp add: hex_char_digit)
qed simp

lemma char_lower_hex: "n < 16 \<Longrightarrow> char_lower (hex_char n) = hex_char n"
  by (auto simp: char_lower_def hex_char_def Let_def of_char_of)

lemma ToLower_hex: "ToLower (hex_encode bs) = hex_encode bs"
proof (induction bs)
  case (Cons b bs)
  have "unat b < 256" using unsigned_less [of b, where ?'a = nat] by simp
  then have "unat b div 16 < 16" by simp
  with Cons show ?case by (simp add: ToLower_def char_lower_hex)
qed (simp add: ToLower_def)

lemma hex_char_val: "hex_val c = Some n \<Longrightarrow> n < 16 \<and> hex_char n = char_lower c"
  by (auto simp: hex_val_def hex_char_def char_lower_def Let_def split: if_splits intro!: arg_cong [where f = char_of])

lemma hex_decode_lower: "hex_decode s = Some bs \<Longrightarrow> hex_encode bs = ToLower s"
proof (induction s arbitrary: bs rule: hex_decode.induct)
  case (3 c d cs)
  then obtain h l r where v: "hex_val c = Some h" "hex_val d = Some l" "hex_decode cs = Some r"
    "bs = of_nat (16 * h + l) # r" by (auto split: option.splits)
  have b: "h < 16" "hex_char h = char_lower c" "l < 16" "hex_char l = char_lower d"
    using hex_char_val v(1,2) by auto
  then have "16 * h + l < 256" by simp
  then have u: "unat (of_nat (16 * h + l) :: byte) = 16 * h + l"
    by (simp add: unat_of_nat del: of_nat_add of_nat_mult)
  have "(16 * h + l) div 16 = h" "(16 * h + l) mod 16 = l" using b by simp_all
  with u b 3 v show ?case by (simp add: ToLower_def del: of_nat_add of_nat_mult)
qed (auto simp: ToLower_def)

definition magnet_of :: "string \<Rightarrow> string \<Rightarrow> string" where
  "magnet_of h rest = ''magnet:?xt=urn:btih:'' @ h @ rest"

lemma btih_at_key:
  "btih_at (btih_key @ t) =
     (if 32 \<le> length t \<and> list_all in_base32 (take 32 t) then Some (take 32 t)
      else if 40 \<le> length t \<and> list_all is_hex_digit (take 40 t) then Some (take 40 t) else None)"
proof -
  have "length btih_key = 12" "ToLower btih_key = btih_key" by (simp_all add: btih_key_def, code_simp)
  then show ?thesis by (simp add: btih_at_def Let_def)
qed

lemma btih_find_magnet:
  assumes "btih_at (btih_key @ h @ rest) = Some x"
  shows "btih_find (magnet_of h rest) = Some x"
proof -
  have eq: "magnet_of h rest = ''magnet:?'' @ (btih_key @ h @ rest)" by (simp add: magnet_of_def btih_key_def)
  have none: "btih_at (c # t) = None" if "c \<noteq> CHR ''x''" "c \<noteq> CHR ''X''" for c t
  proof -
    have "char_lower c \<noteq> CHR ''x''"
    proof
      assume "char_lower c = CHR ''x''"
      then have "of_char c = (of_char (CHR ''X'') :: nat) \<or> c = CHR ''x''"
        by (auto simp: char_lower_def Let_def of_char_of split: if_splits
            dest!: arg_cong [of "char_of _" _ "of_char :: char \<Rightarrow> nat"])
      with that show False by (simp only: of_char_eq_iff) blast
    qed
    then show ?thesis by (simp add: btih_at_def btih_key_def ToLower_def)
  qed
  show ?thesis
    using assms unfolding eq by (simp add: none) (simp add: btih_key_def)
qed

lemma base32_char_val: "base32_val c = Some v \<Longrightarrow> v < 32 \<and> base32_char v = c"
  by (auto simp: base32_val_def base32_char_def Let_def split: if_splits)

lemma base32_group_decode:
  assumes "length s = 8" "list_all (\<lambda>c. base32_val c \<noteq> None) s"
  shows "\<exists>x. base32_group s = Some x \<and> length x = 5 \<and> base32_encode_group x = s"
proof -
  let ?vs = "map (\<lambda>c. the (base32_val c)) s"
  let ?x = "map of_nat (to_base 256 5 (of_base 32 ?vs)) :: byte list"
  have v: "list_all (\<lambda>d. d < 32) ?vs" "map base32_char ?vs = s"
    using assms(2) base32_char_val by (auto simp: list_all_iff comp_def intro!: map_idI)
  then have "of_base 32 ?vs < 32 ^ 8" using of_base_less [of 32 ?vs] assms(1) by simp
  then have n: "of_base 32 ?vs < 256 ^ 5" by simp
  have "map unat ?x = to_base 256 5 (of_base 32 ?vs)"
    using to_base_less [of 256 _ 5 "of_base 32 ?vs"] by (auto simp: comp_def unat_of_nat intro!: map_idI)
  then have "base32_encode_group ?x = map base32_char (to_base 32 8 (of_base 32 ?vs))"
    by (simp only: base32_encode_group_def of_to_base [OF n])
  also have "\<dots> = s"
    using to_of_base [of 32 ?vs] v assms(1) by simp
  finally have "base32_encode_group ?x = s" .
  moreover have "base32_group s = Some ?x"
    using assms(2) by (auto simp: base32_group_def Let_def list_all_iff comp_def image_iff)
  ultimately show ?thesis by (intro exI [of _ ?x]) simp
qed

lemma base32_groups_decode:
  "length s = 8 * k \<Longrightarrow> list_all (\<lambda>c. base32_val c \<noteq> None) s \<Longrightarrow>
   \<exists>x. base32_groups k s = Some x \<and> length x = 5 * k \<and> base32_encode_groups k x = s"
proof (induction k arbitrary: s)
  case (Suc k)
  have "list_all (\<lambda>c. base32_val c \<noteq> None) (take 8 s)" "list_all (\<lambda>c. base32_val c \<noteq> None) (drop 8 s)"
    using Suc.prems(2) by (auto simp: list_all_iff dest: in_set_takeD in_set_dropD)
  with base32_group_decode [of "take 8 s"] Suc.IH [of "drop 8 s"] Suc.prems(1)
  obtain x y where "base32_group (take 8 s) = Some x" "length x = 5" "base32_encode_group x = take 8 s"
    "base32_groups k (drop 8 s) = Some y" "length y = 5 * k" "base32_encode_groups k y = drop 8 s" by auto
  then show ?case by (intro exI [of _ "x @ y"]) simp
qed simp

lemma in_base32_upper: "in_base32 c \<Longrightarrow> base32_val (char_upper c) \<noteq> None"
  by (auto simp: in_base32_def base32_val_def char_upper_def Let_def of_char_of)

text \<open>The five leading bits of a base32 text are never the reading of its hexadecimal text.\<close>

lemma hd_to_base: "hd (to_base b (Suc k) n) = n div b ^ k mod b"
proof (induction k arbitrary: n)
  case (Suc k)
  have "hd (to_base b (Suc (Suc k)) n) = hd (to_base b (Suc k) (n div b))"
    by (cases "to_base b (Suc k) (n div b)") (simp_all del: to_base.simps, simp_all)
  with Suc.IH [of "n div b"] show ?case by (simp add: div_mult2_eq)
qed simp

lemma of_base_Cons: "of_base b (d # ds) = d * b ^ length ds + of_base b ds"
proof (induction ds rule: rev_induct)
  case (snoc e ds)
  have "of_base b (d # ds @ [e]) = of_base b (d # ds) * b + e" using of_base_simps(2) [of b "d # ds" e] by simp
  with snoc show ?case by (simp add: algebra_simps)
qed (simp add: of_base_def)

lemma base32_encode_hd:
  assumes "length bs = 20"
  shows "hd (base32_encode_groups 4 bs) = base32_char (unat (hd bs) div 8)"
proof -
  obtain b cs where bs: "bs = b # cs" using assms by (cases bs) auto
  let ?r = "of_base 256 (map unat (take 4 cs))"
  have b: "unat b < 256" using unsigned_less [of b, where ?'a = nat] by simp
  have "list_all (\<lambda>d. d < 256) (map unat (take 4 cs))"
    using unsigned_less [where ?'b = 8 and ?'a = nat] by (simp add: list_all_iff)
  then have r: "?r < 2 ^ 32" using of_base_less [of 256 "map unat (take 4 cs)"] assms bs by simp
  define n where "n = of_base 256 (map unat (take 5 bs))"
  have "n = unat b * 2 ^ 32 + ?r"
    using assms bs unfolding n_def by (simp add: of_base_Cons)
  then have "n div 2 ^ 32 = unat b" using r by simp
  moreover have "n div 32 ^ 7 = n div 2 ^ 32 div 8" by (simp add: div_mult2_eq [symmetric])
  ultimately have "n div 32 ^ 7 mod 32 = unat b div 8" using b by simp
  then have "hd (to_base 32 (Suc 7) n) = unat b div 8" by (simp only: hd_to_base)
  moreover have "to_base 32 (Suc 7) n \<noteq> []"
    using length_to_base [of 32 "Suc 7" n] by (metis list.size(3) nat.distinct(1))
  moreover have "base32_encode_group (take 5 bs) = map base32_char (to_base 32 (Suc 7) n)"
    unfolding base32_encode_group_def n_def by (simp only: Suc_numeral semiring_norm)
  ultimately have "hd (base32_encode_group (take 5 bs)) = base32_char (unat b div 8)"
    "base32_encode_group (take 5 bs) \<noteq> []"
    by (simp_all add: hd_map del: to_base.simps)
  moreover have "base32_encode_groups (Suc 3) bs = base32_encode_group (take 5 bs) @ base32_encode_groups 3 (drop 5 bs)"
    by (rule base32_encode_groups.simps(2))
  ultimately have "hd (base32_encode_groups (Suc 3) bs) = base32_char (unat b div 8)"
    by (simp add: hd_append2 del: base32_encode_groups.simps)
  then show ?thesis by (simp only: bs list.sel(1) Suc_numeral semiring_norm)
qed

lemma base32_hex_differ:
  assumes "length bs = 20"
  shows "base32_encode_groups 4 bs \<noteq> ToUpper (take 32 (hex_encode bs))"
proof
  assume eq: "base32_encode_groups 4 bs = ToUpper (take 32 (hex_encode bs))"
  obtain b cs where bs: "bs = b # cs" using assms by (cases bs) auto
  have b: "unat b < 256" using unsigned_less [of b, where ?'a = nat] by simp
  have "hd (ToUpper (take 32 (hex_encode bs))) = char_upper (hex_char (unat b div 16))"
    by (simp add: bs ToUpper_def)
  with eq base32_encode_hd [OF assms] bs have "base32_char (unat b div 8) = char_upper (hex_char (unat b div 16))" by simp
  moreover have "unat b div 16 = unat b div 8 div 2" "unat b div 8 < 32"
    using b by (simp_all add: div_mult2_eq [symmetric])
  moreover have "base32_char m \<noteq> char_upper (hex_char (m div 2))" if "m < 32" for m
  proof
    assume "base32_char m = char_upper (hex_char (m div 2))"
    then have "of_char (base32_char m) = (of_char (char_upper (hex_char (m div 2))) :: nat)" by simp
    with that show False
      by (simp add: base32_char_def char_upper_def hex_char_def Let_def of_char_of split: if_splits)
  qed
  ultimately show False by metis
qed

lemma infohash_base32:
  assumes "length bs = 20"
  shows "infohashFromMagnet (magnet_of (base32_encode_groups 4 bs) rest) = Inr (hex_encode bs)"
proof -
  let ?h = "base32_encode_groups 4 bs"
  have l: "length ?h = 32" by simp
  have "list_all in_base32 ?h" using base32_encode_chars in_base32_char by (fastforce simp: list_all_iff)
  with l have "btih_find (magnet_of ?h rest) = Some ?h"
    by (intro btih_find_magnet) (simp add: btih_at_key del: base32_encode_groups.simps)
  moreover have "base32_decode (ToUpper ?h) = Some bs"
    using l base32_groups_encode [of bs 4] assms
    by (simp add: base32_decode_def ToUpper_base32 del: base32_encode_groups.simps base32_groups.simps)
  ultimately show ?thesis using l assms by (simp add: infohashFromMagnet_def)
qed

lemma infohash_hex:
  assumes "length bs = 20" "\<not> list_all in_base32 (take 32 (hex_encode bs))"
  shows "infohashFromMagnet (magnet_of (hex_encode bs) rest) = Inr (hex_encode bs)"
proof -
  have "btih_find (magnet_of (hex_encode bs) rest) = Some (hex_encode bs)"
    using assms by (intro btih_find_magnet) (simp add: btih_at_key length_hex_encode hex_encode_digits)
  then show ?thesis
    using assms by (simp add: infohashFromMagnet_def length_hex_encode hex_decode_encode ToLower_hex)
qed

lemma infohash_misread:
  assumes "length bs = 20" "list_all in_base32 (take 32 (hex_encode bs))"
  shows "\<exists>x. x \<noteq> bs \<and> length x = 20 \<and> infohashFromMagnet (magnet_of (hex_encode bs) rest) = Inr (hex_encode x)"
proof -
  let ?h = "take 32 (hex_encode bs)"
  have l: "length ?h = 32" using assms(1) by (simp add: length_hex_encode)
  have f: "btih_find (magnet_of (hex_encode bs) rest) = Some ?h"
    using assms by (intro btih_find_magnet) (simp add: btih_at_key length_hex_encode)
  have "list_all (\<lambda>c. base32_val c \<noteq> None) (ToUpper ?h)"
    using assms(2) in_base32_upper by (fastforce simp: ToUpper_def list_all_iff)
  with base32_groups_decode [of "ToUpper ?h" 4] l obtain x
    where x: "base32_groups 4 (ToUpper ?h) = Some x" "length x = 20" "base32_encode_groups 4 x = ToUpper ?h"
    by (auto simp: ToUpper_def simp del: base32_encode_groups.simps base32_groups.simps)
  have "base32_decode (ToUpper ?h) = Some x"
    using x(1) l by (simp add: base32_decode_def ToUpper_def del: base32_groups.simps)
  with f l x(2) have "infohashFromMagnet (magnet_of (hex_encode bs) rest) = Inr (hex_encode x)"
    by (simp add: infohashFromMagnet_def)
  moreover have "x \<noteq> bs" using x(3) base32_hex_differ [OF assms(1)] by auto
  ultimately show ?thesis using x(2) by blast
qed

lemma hex_decode_length: "hex_decode s = Some bs \<Longrightarrow> length s = 2 * length bs"
  by (induction s arbitrary: bs rule: hex_decode.induct) (auto split: option.splits)

lemma infohash_canonical:
  assumes "infohashFromMagnet m = Inr h"
  shows "\<exists>bs. length bs = 20 \<and> h = hex_encode bs"
proof -
  from assms consider (hex) x bs where "length x = 40" "hex_decode x = Some bs" "h = ToLower x"
    | (base32) bs where "length bs = 20" "h = hex_encode bs"
    by (auto simp: infohashFromMagnet_def split: option.splits if_splits)
  then show ?thesis
  proof cases
    case hex
    with hex_decode_length [OF hex(2)] hex_decode_lower [OF hex(2)] show ?thesis by auto
  qed auto
qed

text \<open>
  C35. The infohash read off a magnet link. A link in base32 gives the infohash it encodes; a link in
  hexadecimal gives its infohash exactly when one of its first thirty-two digits is 0, 1, 8 or 9.
  Otherwise the base32 alternative of the pattern, which comes first, takes those digits, and the
  infohash is another one.
\<close>

theorem magnet_infohash_roundtrip:
  assumes "length bs = 20"
  shows "infohashFromMagnet (magnet_of (base32_encode_groups 4 bs) rest) = Inr (hex_encode bs) \<and>
    (infohashFromMagnet (magnet_of (hex_encode bs) rest) = Inr (hex_encode bs) \<longleftrightarrow>
       \<not> list_all in_base32 (take 32 (hex_encode bs))) \<and>
    (\<exists>x. length x = 20 \<and> infohashFromMagnet (magnet_of (hex_encode bs) rest) = Inr (hex_encode x))"
proof (cases "list_all in_base32 (take 32 (hex_encode bs))")
  case True
  from infohash_misread [OF assms True] obtain x where x: "x \<noteq> bs" "length x = 20"
    "infohashFromMagnet (magnet_of (hex_encode bs) rest) = Inr (hex_encode x)" by blast
  then have "hex_encode x \<noteq> hex_encode bs" by (simp add: hex_encode_inj)
  with x True infohash_base32 [OF assms] show ?thesis by auto
next
  case False
  with infohash_base32 [OF assms] infohash_hex [OF assms False] assms show ?thesis by auto
qed

theorem magnet_infohash_roundtrip_witness:
  "infohashFromMagnet (magnet_of (hex_encode (replicate 20 0xAA)) ''&dn=x'') \<noteq> Inr (hex_encode (replicate 20 0xAA))"
proof -
  have "list_all in_base32 (take 32 (hex_encode (replicate 20 0xAA)))" by code_simp
  with magnet_infohash_roundtrip [of "replicate 20 0xAA" "''&dn=x''"] show ?thesis by simp
qed

section \<open>The saved library\<close>

datatype save_answer = SaveBadBody | SaveNeedsMagnet | SaveBadInfohash btih_error | SaveNoCatalog | Saved string

definition HandleSaveLibrary :: "api_env \<Rightarrow> TorrentFilesRequest option \<Rightarrow> server \<Rightarrow> server \<times> save_answer" where
  "HandleSaveLibrary e body s =
     (case body of
        None \<Rightarrow> (s, SaveBadBody)
      | Some req \<Rightarrow>
          let magnet = request_link req
          in if \<not> prefix ''magnet:'' (ToLower magnet) then (s, SaveNeedsMagnet)
             else case infohashFromMagnet magnet of
                    Inl err \<Rightarrow> (s, SaveBadInfohash err)
                  | Inr hash \<Rightarrow>
                      if hc_catalog (sv_h s) = None then (s, SaveNoCatalog)
                      else (upsert_in e (request_entry hash magnet req) s, Saved hash))"

datatype download_answer = DlBadHash | DlNoCatalog | DlNoSource | DlResolveFailed resolve_error | DlStarted string

definition HandleDownloadSaved :: "api_env \<Rightarrow> string \<Rightarrow> server \<Rightarrow> server \<times> download_answer" where
  "HandleDownloadSaved e hashHex s =
     (if decode_hash hashHex = None then (s, DlBadHash)
      else case hc_catalog (sv_h s) of
             None \<Rightarrow> (s, DlNoCatalog)
           | Some c \<Rightarrow>
               (case catalog_Get hashHex c of
                  None \<Rightarrow> (s, DlNoSource)
                | Some entry \<Rightarrow>
                    if en_Source entry = '''' then (s, DlNoSource)
                    else case resolve_in e (en_Source entry) s of
                           Inl err \<Rightarrow> (s, DlResolveFailed err)
                         | Inr (s1, h) \<Rightarrow>
                             let s2 = set_mode e h True s1;
                                 s3 = upsert_in e ((zero_Entry hashHex 0)\<lparr>en_DownloadMode := ModeDisk\<rparr>) s2;
                                 dl = downloadDir_set (sv_config s3)
                             in (if ae_gotInfo e h \<and> dl then download_all h s3 else s3, DlStarted hashHex)))"

section \<open>Pins and lists\<close>

datatype pin_answer = PinBadHash | PinNoCatalog | PinOk string bool

definition setPinned :: "api_env \<Rightarrow> string \<Rightarrow> bool \<Rightarrow> server \<Rightarrow> server \<times> pin_answer" where
  "setPinned e hashHex pinned s =
     (if decode_hash hashHex = None then (s, PinBadHash)
      else case hc_catalog (sv_h s) of
             None \<Rightarrow> (s, PinNoCatalog)
           | Some c \<Rightarrow>
               (case catalog_SetPinned (ae_catalog e) (ae_now e) hashHex pinned (c, hc_catalogFs (sv_h s)) of
                  ((c', fs'), entry) \<Rightarrow>
                    (s\<lparr>sv_h := (sv_h s)\<lparr>hc_catalog := Some c', hc_catalogFs := fs'\<rparr>\<rparr>, PinOk hashHex (en_Pinned entry))))"

definition HandlePinTorrent :: "api_env \<Rightarrow> string \<Rightarrow> server \<Rightarrow> server \<times> pin_answer" where
  "HandlePinTorrent e hashHex s = setPinned e hashHex True s"

definition HandleUnpinTorrent :: "api_env \<Rightarrow> string \<Rightarrow> server \<Rightarrow> server \<times> pin_answer" where
  "HandleUnpinTorrent e hashHex s = setPinned e hashHex False s"

record ManageTorrent =
  mt_Hash :: string
  mt_Name :: string
  mt_Poster :: string
  mt_MediaType :: string
  mt_State :: string
  mt_Progress :: rat
  mt_SizeBytes :: int
  mt_CompletedBytes :: int
  mt_DownloadSpeed :: int
  mt_UploadSpeed :: int
  mt_ActivePeers :: int
  mt_Seeders :: int
  mt_Watchers :: int
  mt_Pinned :: bool
  mt_DownloadMode :: string
  mt_CurrentFile :: string

definition count_of :: "string \<Rightarrow> (string \<times> int) list \<Rightarrow> int" where
  "count_of k al = (case map_of al k of Some n \<Rightarrow> n | None \<Rightarrow> 0)"

definition live_row :: "(byte list \<Rightarrow> torrent_desc) \<Rightarrow> server \<Rightarrow> byte list \<Rightarrow> ManageTorrent" where
  "live_row shows s t =
     (let hash = hex_encode t;
          d = shows t;
          (watchers, files) = watchersByHash (sv_h s);
          sp = GetSpeed hash (sv_monitor s);
          item =
            \<lparr>mt_Hash = hash, mt_Name = td_Name d, mt_Poster = '''', mt_MediaType = '''', mt_State = torrent_state d,
             mt_Progress = torrent_progress d, mt_SizeBytes = td_Length d, mt_CompletedBytes = td_BytesCompleted d,
             mt_DownloadSpeed = sp_DownloadSpeed sp, mt_UploadSpeed = sp_UploadSpeed sp,
             mt_ActivePeers = td_ActivePeers d, mt_Seeders = td_ConnectedSeeders d, mt_Watchers = count_of hash watchers,
             mt_Pinned = False, mt_DownloadMode = ''stream'', mt_CurrentFile = opt_str (map_of files hash)\<rparr>
      in case catalog_entry hash s of
           None \<Rightarrow> item
         | Some e \<Rightarrow>
             item\<lparr>mt_Name := (if en_Title e \<noteq> '''' then en_Title e else mt_Name item),
                  mt_Poster := en_Poster e, mt_MediaType := en_MediaType e, mt_Pinned := en_Pinned e,
                  mt_DownloadMode := (if en_DownloadMode e \<noteq> '''' then en_DownloadMode e else mt_DownloadMode item)\<rparr>)"

definition saved_row :: "Entry \<Rightarrow> ManageTorrent" where
  "saved_row e =
     \<lparr>mt_Hash = en_Hash e, mt_Name = en_Title e, mt_Poster = en_Poster e, mt_MediaType = en_MediaType e,
      mt_State = ''Saved'', mt_Progress = 0, mt_SizeBytes = 0, mt_CompletedBytes = 0, mt_DownloadSpeed = 0,
      mt_UploadSpeed = 0, mt_ActivePeers = 0, mt_Seeders = 0, mt_Watchers = 0, mt_Pinned = en_Pinned e,
      mt_DownloadMode = en_DownloadMode e, mt_CurrentFile = ''''\<rparr>"

definition HandleListTorrents :: "(byte list \<Rightarrow> torrent_desc) \<Rightarrow> server \<Rightarrow> ManageTorrent list" where
  "HandleListTorrents shows s =
     (let torrents = hc_torrents (sv_h s);
          live = map hex_encode torrents;
          out = map (live_row shows s) torrents
      in case hc_catalog (sv_h s) of
           None \<Rightarrow> out
         | Some c \<Rightarrow> out @ map saved_row (filter (\<lambda>e. en_Hash e \<notin> set live) (catalog_All c)))"

record ManageStats =
  ms_TotalDownload :: int
  ms_TotalUpload :: int
  ms_Active :: int
  ms_Streaming :: int
  ms_Sessions :: int
  ms_TotalPeers :: int
  ms_CacheFilled :: int
  ms_CacheCapacity :: int
  ms_HeapBytes :: int
  ms_SysBytes :: int
  ms_ActiveStreams :: int
  ms_MaxStreams :: int

definition HandleManageStats :: "(byte list \<Rightarrow> torrent_desc) \<Rightarrow> int \<times> int \<Rightarrow> server \<Rightarrow> ManageStats" where
  "HandleManageStats shows mem s =
     (let (sessions, streaming) = sessionStats (sv_h s);
          total = Monitor_Total (sv_monitor s)
      in \<lparr>ms_TotalDownload = sp_DownloadSpeed total, ms_TotalUpload = sp_UploadSpeed total,
          ms_Active = int (length (hc_torrents (sv_h s))), ms_Streaming = streaming, ms_Sessions = sessions,
          ms_TotalPeers = fold (\<lambda>t n. n + td_ActivePeers (shows t)) (hc_torrents (sv_h s)) 0,
          ms_CacheFilled = s_globalFilled (sv_world s), ms_CacheCapacity = s_globalCapacity (sv_world s),
          ms_HeapBytes = fst mem, ms_SysBytes = snd mem, ms_ActiveStreams = sessions,
          ms_MaxStreams = maxStreams (Some (sv_world s))\<rparr>)"

record ManageTorrentFile =
  mf_Path :: string
  mf_SizeBytes :: int
  mf_CompletedBytes :: int

record ManageTorrentFilesResponse =
  mr_Hash :: string
  mr_Name :: string
  mr_Ready :: bool
  mr_Poster :: string
  mr_MediaType :: string
  mr_Pinned :: bool
  mr_DownloadMode :: string
  mr_Files :: "ManageTorrentFile list"

definition HandleTorrentFiles ::
  "(byte list \<Rightarrow> torrent_desc) \<Rightarrow> string \<Rightarrow> server \<Rightarrow> ManageTorrentFilesResponse api_answer"
where
  "HandleTorrentFiles shows hashHex s =
     (case decode_hash hashHex of
        None \<Rightarrow> ApiBadHash
      | Some ih \<Rightarrow>
          if ih \<notin> set (hc_torrents (sv_h s)) then ApiNotFound
          else
            let d = shows ih;
                entry = catalog_entry hashHex s;
                field = (\<lambda>f. case entry of Some e \<Rightarrow> f e | None \<Rightarrow> '''')
            in ApiOk
                 \<lparr>mr_Hash = hashHex, mr_Name = title_or (td_Name d) entry, mr_Ready = (td_Info d \<noteq> None),
                  mr_Poster = field en_Poster, mr_MediaType = field en_MediaType, mr_Pinned = entry_pinned entry,
                  mr_DownloadMode = field en_DownloadMode,
                  mr_Files =
                    (case td_Info d of
                       None \<Rightarrow> []
                     | Some files \<Rightarrow>
                         map (\<lambda>f. \<lparr>mf_Path = tf_path f, mf_SizeBytes = tf_length f, mf_CompletedBytes = tf_completed f\<rparr>)
                           files)\<rparr>)"

section \<open>Settings\<close>

text \<open>
  The file \<^verbatim>\<open>settings.json\<close> of the data directory: a budget, or bytes that are none. Writing goes through a
  temporary file and a rename; what the operating system refuses is an argument.
\<close>

datatype settings_file = SettingsJson int | SettingsOther

type_synonym settings_fs = "string \<Rightarrow> settings_file option"

record settings_faults =
  sf_mkdir :: bool
  sf_read :: bool
  sf_write :: bool
  sf_rename :: bool

record Settings =
  se_CacheBudgetBytes :: int
  se_MinBudgetBytes :: int
  se_PerStreamBytes :: int
  se_MaxStreams :: int
  se_MaxAudioTranscoders :: int
  se_CacheFilled :: int

definition settingsPath :: "Config option \<Rightarrow> string" where
  "settingsPath cfg =
     (case cfg of
        None \<Rightarrow> ''''
      | Some c \<Rightarrow> if cfg_DataDir c = '''' then '''' else cfg_DataDir c @ ''/settings.json'')"

definition ApplyPersistedSettings :: "settings_faults \<Rightarrow> Config option \<Rightarrow> settings_fs \<Rightarrow> world \<Rightarrow> world" where
  "ApplyPersistedSettings f cfg fs w =
     (let p = settingsPath cfg
      in if p = '''' \<or> sf_read f then w
         else case fs p of
                Some (SettingsJson b) \<Rightarrow> if 0 < b then SetGlobalCapacity b w else w
              | _ \<Rightarrow> w)"

definition currentSettings :: "world \<Rightarrow> Settings" where
  "currentSettings w =
     \<lparr>se_CacheBudgetBytes = s_globalCapacity w, se_MinBudgetBytes = perStreamWindowBytes,
      se_PerStreamBytes = perStreamWindowBytes, se_MaxStreams = DerivedMaxStreams w,
      se_MaxAudioTranscoders = DerivedMaxAudioTranscoders w, se_CacheFilled = s_globalFilled w\<rparr>"

definition persist_settings :: "settings_faults \<Rightarrow> string \<Rightarrow> int \<Rightarrow> settings_fs \<Rightarrow> settings_fs" where
  "persist_settings f p b fs =
     (if p = '''' \<or> sf_mkdir f then fs
      else
        let tmp = p @ ''.tmp''
        in if sf_write f then fs(tmp \<mapsto> SettingsOther)
           else if sf_rename f then fs(tmp \<mapsto> SettingsJson b)
           else fs(tmp := None, p \<mapsto> SettingsJson b))"

text \<open>The body is the budget it decodes to; \<open>None\<close> as the answer is a bad request.\<close>

definition HandleSetSettings ::
  "settings_faults \<Rightarrow> Config option \<Rightarrow> int option \<Rightarrow> world \<times> settings_fs \<Rightarrow> (world \<times> settings_fs) \<times> Settings option"
where
  "HandleSetSettings f cfg body st =
     (case body of
        None \<Rightarrow> (st, None)
      | Some b \<Rightarrow>
          if b \<le> 0 then (st, None)
          else
            let w1 = SetGlobalCapacity b (fst st)
            in ((w1, persist_settings f (settingsPath cfg) (s_globalCapacity w1) (snd st)), Some (currentSettings w1)))"

definition HandleGetSettings :: "world \<Rightarrow> Settings" where
  "HandleGetSettings w = currentSettings w"

section \<open>The diagnostics page\<close>

record DiagnosticsTorrentEntry =
  de_Hash :: string
  de_Name :: string
  de_CacheBytes :: int
  de_DiskBytes :: int
  de_ActivePeers :: int
  de_PiecesComplete :: int
  de_NumPieces :: int
  de_Watchers :: int
  de_DownloadMode :: string
  de_Pinned :: bool

record DiagnosticsResponse =
  dr_MemLimit :: int
  dr_PieceCache :: "int \<times> int"
  dr_HlsCache :: "int \<times> int \<times> int"
  dr_ThumbCache :: "int \<times> int \<times> int"
  dr_Transcoders :: "int \<times> int \<times> int"
  dr_Sessions :: "int \<times> int \<times> int \<times> int"
  dr_Disk :: "string \<times> int \<times> int"
  dr_Torrents :: "DiagnosticsTorrentEntry list"

definition cache_info :: "string \<Rightarrow> world \<Rightarrow> int \<times> int" where
  "cache_info hash w =
     (case map_of (fold (\<lambda>(k, b) m. AList.update k b m) (CacheInfos w) []) hash of Some ci \<Rightarrow> ci | None \<Rightarrow> (0, 0))"

definition diagnostics_entry :: "(byte list \<Rightarrow> torrent_desc) \<Rightarrow> server \<Rightarrow> byte list \<Rightarrow> DiagnosticsTorrentEntry" where
  "diagnostics_entry shows s t =
     (let hash = hex_encode t;
          d = shows t;
          ci = cache_info hash (sv_world s);
          entry = catalog_entry hash s
      in \<lparr>de_Hash = hash, de_Name = title_or (td_Name d) entry, de_CacheBytes = fst ci, de_DiskBytes = snd ci,
          de_ActivePeers = td_ActivePeers d, de_PiecesComplete = td_PiecesComplete d,
          de_NumPieces = (case NumPieces d of Some n \<Rightarrow> n | None \<Rightarrow> 0),
          de_Watchers = count_of hash (fst (watchersByHash (sv_h s))),
          de_DownloadMode =
            (case entry of Some e \<Rightarrow> if en_DownloadMode e \<noteq> '''' then en_DownloadMode e else ''stream'' | None \<Rightarrow> ''stream''),
          de_Pinned = entry_pinned entry\<rparr>)"

text \<open>\<open>free\<close> is what the file system says is free below a directory; the runtime's own figures are left out.\<close>

definition diskFree :: "(string \<Rightarrow> int option) \<Rightarrow> string \<Rightarrow> int" where
  "diskFree free dir = (if dir = '''' then 0 else case free dir of Some n \<Rightarrow> n | None \<Rightarrow> 0)"

definition HandleDiagnostics ::
  "(byte list \<Rightarrow> torrent_desc) \<Rightarrow> (string \<Rightarrow> int option) \<Rightarrow> ThumbnailCache \<Rightarrow> server \<Rightarrow> DiagnosticsResponse"
where
  "HandleDiagnostics shows free thumbs s =
     (let w = sv_world s;
          transcoders = hc_audioContCount (sv_h s);
          entries = map (diagnostics_entry shows s) (hc_torrents (sv_h s));
          diskUsed = fold (\<lambda>de n. n + de_DiskBytes de) entries 0;
          (sessions, streaming) = sessionStats (sv_h s)
      in \<lparr>dr_MemLimit = (case sv_config s of Some c \<Rightarrow> cfg_MemLimitBytes c | None \<Rightarrow> 0),
          dr_PieceCache = (s_globalFilled w, s_globalCapacity w),
          dr_HlsCache = seg_stats (hc_hlsSegCache (sv_h s)),
          dr_ThumbCache = thumb_Stats thumbs,
          dr_Transcoders = (transcoders, transcoders * (100 * 2 ^ 20), DerivedMaxAudioTranscoders w),
          dr_Sessions = (sessions, streaming, DerivedMaxStreams w, perStreamWindowBytes),
          dr_Disk = (get_DownloadDir w, diskUsed, diskFree free (get_DownloadDir w)),
          dr_Torrents = entries\<rparr>)"

section \<open>Titles from TMDB\<close>

text \<open>The answer of the service: its status and, when it decodes, the five fields of interest.\<close>

record tmdb_fields =
  tm_Title :: string
  tm_Name :: string
  tm_PosterPath :: string
  tm_ReleaseDate :: string
  tm_FirstAir :: string

datatype tmdb_answer =
    TmdbNoId | TmdbNotConfigured | TmdbRequestFailed | TmdbStatus int | TmdbBadResponse
  | TmdbOk string string string string string

definition HandleTmdbLookup ::
  "Config option \<Rightarrow> (string \<Rightarrow> string \<Rightarrow> (int \<times> tmdb_fields option) option) \<Rightarrow> string \<Rightarrow> string \<Rightarrow> tmdb_answer"
where
  "HandleTmdbLookup cfg service tmdbId kind =
     (if tmdbId = '''' then TmdbNoId
      else
        let mediaType = (if kind \<noteq> ''tv'' then ''movie'' else kind);
            key = (case cfg of Some c \<Rightarrow> cfg_TmdbKey c | None \<Rightarrow> '''')
        in if key = '''' then TmdbNotConfigured
           else case service mediaType tmdbId of
                  None \<Rightarrow> TmdbRequestFailed
                | Some (status, m) \<Rightarrow>
                    if status \<noteq> 200 then TmdbStatus status
                    else case m of
                           None \<Rightarrow> TmdbBadResponse
                         | Some m \<Rightarrow>
                             let title = (if tm_Title m = '''' then tm_Name m else tm_Title m);
                                 date = (if tm_ReleaseDate m = '''' then tm_FirstAir m else tm_ReleaseDate m);
                                 year = (if 4 \<le> length date then take 4 date else '''');
                                 poster = (if tm_PosterPath m \<noteq> ''''
                                           then ''https://image.tmdb.org/t/p/w500'' @ tm_PosterPath m else '''')
                             in TmdbOk title poster year mediaType tmdbId)"

section \<open>Properties\<close>

lemma evictPiece_capacity [simp]: "s_globalCapacity (evictPiece c i m w) = s_globalCapacity w"
  by (simp add: evictPiece_def Let_def frame_simps)

lemma SetGlobalCapacity_capacity: "s_globalCapacity (SetGlobalCapacity b w) = clampCapacity b"
proof -
  have "s_globalCapacity (evictGlobalIfNeeded v) = s_globalCapacity v" for v
  proof -
    have "s_globalCapacity (range_while more evictCandidate cs v) = s_globalCapacity v" for more cs
      by (rule range_while_invariant) (simp_all add: evictCandidate_def)
    then show ?thesis by (simp add: evictGlobalIfNeeded_def Let_def)
  qed
  then show ?thesis by (simp add: SetGlobalCapacity_def)
qed

lemma clampCapacity_pos: "0 < clampCapacity b" "clampCapacity (clampCapacity b) = clampCapacity b"
  by (auto simp: clampCapacity_def minGlobalCapacity_def perStreamWindowBytes_def playbackReadaheadBytes_def)

lemma persist_settings_stored:
  assumes "p \<noteq> ''''"
  shows "persist_settings f p b fs p = (if sf_mkdir f \<or> sf_write f \<or> sf_rename f then fs p else Some (SettingsJson b))"
  using assms by (auto simp: persist_settings_def Let_def)


definition no_settings_faults :: settings_faults where
  "no_settings_faults = \<lparr>sf_mkdir = False, sf_read = False, sf_write = False, sf_rename = False\<rparr>"

definition demo_config :: Config where
  "demo_config = (LoadConfig (\<lambda>_. None))\<lparr>cfg_DataDir := ''d''\<rparr>"


subsection \<open>Pins\<close>

lemma setPinned_catalog:
  assumes "decode_hash hashHex \<noteq> None" "hc_catalog (sv_h s) = Some c"
  shows "setPinned e hashHex b s =
    (let c' = SetPinned_locked (ae_now e) hashHex b c
     in (s\<lparr>sv_h := (sv_h s)\<lparr>hc_catalog := Some c', hc_catalogFs := persist (ae_catalog e) c' (hc_catalogFs (sv_h s))\<rparr>\<rparr>,
         PinOk hashHex b))"
  using assms by (auto simp: setPinned_def catalog_SetPinned_def Let_def)

lemma pinned_is_persistent:
  "hc_catalog h = Some c \<Longrightarrow> catalog_Get hash c = Some entry \<Longrightarrow> en_Pinned entry \<Longrightarrow> isPersistentTorrent hash h"
  by (simp add: isPersistentTorrent_def)


lemma reap_torrent_shrinks: "set (hc_torrents (reap_torrent now cfg t' h)) \<subseteq> set (hc_torrents h)"
  by (auto simp: reap_torrent_def reap_decide_def dropTorrent_frame split: option.splits if_splits)

definition reapable :: "time_ns \<Rightarrow> lifetime_config \<Rightarrow> string \<Rightarrow> HandlerContext \<Rightarrow> bool" where
  "reapable now cfg hash h \<longleftrightarrow>
     \<not> isPersistentTorrent hash h \<and> torrentRefcountLocked hash h = 0 \<and> hash \<notin> set (hc_dropping h) \<and>
     (\<exists>seen. map_of (hc_torrentSeen h) hash = Some seen \<and> torrentGrace cfg < now - seen)"

lemma dropAudioCont_dropping: "hc_dropping (dropAudioCont p h) = hc_dropping h"
proof -
  have "hc_dropping (fold (\<lambda>key h. if prefix p key
             then h\<lparr>hc_audioCont := remove1 key (hc_audioCont h), hc_audioContCount := hc_audioContCount h - 1\<rparr>
             else h) ks h) = hc_dropping h" for ks
    by (induction ks arbitrary: h) auto
  then show ?thesis by (simp add: dropAudioCont_def)
qed

lemma dropTorrent_dropping: "set (hc_dropping (dropTorrent t hash h)) \<subseteq> set (hc_dropping h)"
  by (auto simp: dropTorrent_def dropTorrent_claim_def dropTorrent_teardown_def dropTorrent_purge_def Let_def
      dropAudioCont_dropping)

lemma reap_drops: "reapable now cfg (hex_encode t) h \<Longrightarrow> t \<notin> set (hc_torrents (reap_torrent now cfg t h))"
  by (auto simp: reapable_def reap_torrent_def reap_decide_def dropTorrent_frame)

lemma reapable_step:
  assumes "reapable now cfg hash h" "hex_encode t' \<noteq> hash"
  shows "reapable now cfg hash (reap_torrent now cfg t' h)"
proof -
  obtain h1 drp where d: "reap_decide now cfg (hex_encode t') h = (h1, drp)" by force
  then have 1: "hc_playback h1 = hc_playback h" "hc_catalog h1 = hc_catalog h" "hc_dropping h1 = hc_dropping h"
    "map_of (hc_torrentSeen h1) hash = map_of (hc_torrentSeen h) hash"
    using assms(2) by (auto simp: reap_decide_def update_conv' split: if_splits option.splits)
  have r: "torrentRefcountLocked hash (dropTorrent t' (hex_encode t') h1) = 0" if "torrentRefcountLocked hash h1 = 0"
    using that by (auto simp: refcount_eq dropTorrent_frame filter_empty_conv)
  have r1: "torrentRefcountLocked hash h1 = torrentRefcountLocked hash h" using 1 by (simp add: refcount_eq)
  from 1 r r1 assms d dropTorrent_dropping [of t' "hex_encode t'" h1] show ?thesis
    by (auto simp: reapable_def reap_torrent_def isPersistentTorrent_def dropTorrent_frame delete_conv')
qed

lemma reap_fold_subset: "set (hc_torrents (fold (reap_torrent now cfg) ts h)) \<subseteq> set (hc_torrents h)"
  by (induction ts arbitrary: h) (auto dest: subsetD [OF reap_torrent_shrinks])

lemma reap_fold_drops:
  "reapable now cfg (hex_encode t) h \<Longrightarrow> t \<in> set ts \<Longrightarrow> t \<notin> set (hc_torrents (fold (reap_torrent now cfg) ts h))"
proof (induction ts arbitrary: h)
  case (Cons t' ts)
  show ?case
  proof (cases "t' = t")
    case True
    with reap_drops [OF Cons.prems(1)] reap_fold_subset [of now cfg ts "reap_torrent now cfg t h"] show ?thesis by auto
  next
    case False
    then have "hex_encode t' \<noteq> hex_encode t" by (simp add: hex_encode_inj)
    from Cons.IH [OF reapable_step [OF Cons.prems(1) this]] Cons.prems(2) False show ?thesis by simp
  qed
qed simp

lemma tick_drops:
  assumes "reapable now cfg (hex_encode t) h"
  shows "t \<notin> set (hc_torrents (ReapPlaybackSessions_tick now cfg h))"
proof -
  let ?h = "reap_expire now cfg h"
  have "reapable now cfg (hex_encode t) ?h"
    using assms by (auto simp: reapable_def reap_expire_def isPersistentTorrent_def refcount_eq filter_empty_conv)
  moreover have "hc_torrents ?h = hc_torrents h" by (simp add: reap_expire_def)
  ultimately show ?thesis
    using reap_fold_drops [of now cfg t ?h "hc_torrents ?h"] reap_fold_subset [of now cfg "hc_torrents ?h" ?h]
    by (cases "t \<in> set (hc_torrents ?h)") (auto simp: ReapPlaybackSessions_tick_def Let_def)
qed

text \<open>
  A pin is kept under the spelling of the infohash in the request, and the reaper looks it up in lower
  case. A pin in another spelling is acknowledged, and shown to whoever spells it that way, but protects
  nothing: a torrent nobody watches is dropped all the same once its grace is over.
\<close>

theorem pin_in_other_spelling_is_void:
  assumes "decode_hash hashHex = Some h" "hashHex \<noteq> hex_encode h" "hc_catalog (sv_h s) = Some c"
    and "reapable now cfg (hex_encode h) (sv_h s)"
  shows "snd (HandlePinTorrent e hashHex s) = PinOk hashHex True \<and>
    entry_pinned (catalog_entry hashHex (fst (HandlePinTorrent e hashHex s))) \<and>
    h \<notin> set (hc_torrents (ReapPlaybackSessions_tick now cfg (sv_h (fst (HandlePinTorrent e hashHex s)))))"
proof -
  have d: "decode_hash hashHex \<noteq> None" using assms(1) by simp
  let ?s = "fst (HandlePinTorrent e hashHex s)"
  note p = setPinned_catalog [OF d assms(3), of e True]
  have "catalog_entry hashHex ?s = Some ((find_or_new (ae_now e) hashHex c)\<lparr>en_Pinned := True\<rparr>)"
    by (simp add: p HandlePinTorrent_def Let_def catalog_entry_def catalog_Get_def SetPinned_locked_def update_conv')
  moreover have "reapable now cfg (hex_encode h) (sv_h ?s)"
    using assms(2-4)
    by (auto simp: p HandlePinTorrent_def Let_def reapable_def isPersistentTorrent_def catalog_Get_def
        SetPinned_locked_def update_conv' refcount_eq)
  moreover have "snd (HandlePinTorrent e hashHex s) = PinOk hashHex True"
    by (simp add: p HandlePinTorrent_def Let_def)
  ultimately show ?thesis using tick_drops by (simp add: entry_pinned_def)
qed

definition demo_api :: api_env where
  "demo_api =
     \<lparr>ae_network = demo_network, ae_resolve = demo_env, ae_io = no_faults, ae_catalog = no_catalog_faults, ae_now = 7,
      ae_gotInfo = (\<lambda>_. True)\<rparr>"

definition demo_idle :: server where
  "demo_idle =
     demo_server\<lparr>sv_h := demo_context\<lparr>hc_playback := [], hc_catalog := Some catalog_New\<rparr>\<rparr>"

theorem pin_in_other_spelling_is_void_witness:
  "demo_hash \<notin> set (hc_torrents (ReapPlaybackSessions_tick 100 (Some (50, 20))
     (sv_h (fst (HandlePinTorrent demo_api (ToUpper (hex_encode demo_hash)) demo_idle)))))"
proof -
  have d: "decode_hash (ToUpper (hex_encode demo_hash)) = Some demo_hash" by code_simp
  have n: "ToUpper (hex_encode demo_hash) \<noteq> hex_encode demo_hash" by code_simp
  have r: "reapable 100 (Some (50, 20)) (hex_encode demo_hash) (sv_h demo_idle)"
    by (simp add: reapable_def demo_idle_def demo_context_def isPersistentTorrent_def catalog_New_def catalog_Get_def
        refcount_eq torrentGrace_def)
  show ?thesis using pin_in_other_spelling_is_void [OF d n _ r, of catalog_New demo_api] by (simp add: demo_idle_def)
qed

text \<open>
  A pin on a torrent without an entry, which the source provides for, makes an entry without a source:
  the torrent is kept while the process runs and not restored by the next.
\<close>

lemma bare_pin_is_not_restored:
  assumes "decode_hash hashHex \<noteq> None" "hc_catalog (sv_h s) = Some c" "catalog_Get hashHex c = None"
  shows "\<exists>entry. catalog_entry hashHex (fst (HandlePinTorrent e hashHex s)) = Some entry \<and> en_Pinned entry \<and>
    (\<forall>e2 s2. restore_entry e2 entry s2 = s2)"
  using assms(3)
  by (simp add: setPinned_catalog [OF assms(1,2)] HandlePinTorrent_def Let_def catalog_entry_def catalog_Get_def
      SetPinned_locked_def update_conv' find_or_new_def zero_Entry_def restore_entry_def)

definition demo_magnet :: resolve_env where
  "demo_magnet = demo_env\<lparr>re_magnet := (\<lambda>_. Some demo_hash)\<rparr>"

definition demo_library :: server where
  "demo_library =
     demo_server\<lparr>sv_h := demo_context\<lparr>hc_catalog := Some
       \<lparr>ct_entries = [(hex_encode demo_hash, (zero_Entry (hex_encode demo_hash) 0)\<lparr>en_Source := ''magnet:m''\<rparr>)],
        ct_path = catalog_path ''d''\<rparr>\<rparr>\<rparr>"


subsection \<open>The list\<close>

lemma live_row_hash: "mt_Hash (live_row shows s t) = hex_encode t"
  by (simp add: live_row_def Let_def split: prod.split option.split)

lemma catalog_wf_hashes: "catalog_wf c \<Longrightarrow> map en_Hash (catalog_All c) = map fst (ct_entries c)"
  by (auto simp: catalog_All_def catalog_wf_def)

text \<open>
  The dashboard has exactly one row for every torrent of the client and for every entry of the
  catalog.
\<close>

theorem list_has_one_row_each:
  assumes "distinct (hc_torrents (sv_h s))" "hc_catalog (sv_h s) = Some c" "catalog_wf c"
  shows "distinct (map mt_Hash (HandleListTorrents shows s)) \<and>
    set (map mt_Hash (HandleListTorrents shows s)) = hex_encode ` set (hc_torrents (sv_h s)) \<union> dom (map_of (ct_entries c))"
proof -
  let ?live = "map hex_encode (hc_torrents (sv_h s))"
  let ?P = "\<lambda>k. k \<notin> set ?live"
  have rows: "map mt_Hash (HandleListTorrents shows s) = ?live @ filter ?P (map fst (ct_entries c))"
  proof -
    have "map en_Hash (filter (\<lambda>e. ?P (en_Hash e)) (catalog_All c)) = filter ?P (map en_Hash (catalog_All c))"
      by (simp add: filter_map comp_def)
    then show ?thesis
      using assms(2) catalog_wf_hashes [OF assms(3)]
      by (simp add: HandleListTorrents_def Let_def live_row_hash saved_row_def comp_def)
  qed
  have "distinct ?live" using assms(1) by (simp add: distinct_map hex_encode_inj inj_on_def)
  moreover have "distinct (map fst (ct_entries c))" using assms(3) by (simp add: catalog_wf_def)
  ultimately show ?thesis
    unfolding rows by (auto simp: dom_map_of_conv_image_fst distinct_filter)
qed

theorem list_has_one_row_each_witness:
  "distinct (map mt_Hash (HandleListTorrents (\<lambda>_. demo_desc) demo_idle))"
  using list_has_one_row_each [of demo_idle catalog_New "\<lambda>_. demo_desc"]
  by (simp add: demo_idle_def demo_context_def catalog_New_def catalog_wf_def)

subsection \<open>Saving and downloading\<close>

lemma upsert_in_catalog:
  assumes "hc_catalog (sv_h s) = Some c"
  shows "hc_catalog (sv_h (upsert_in e entry s)) = Some (Upsert_locked (ae_now e) entry c)"
    and "hc_torrents (sv_h (upsert_in e entry s)) = hc_torrents (sv_h s)"
  using assms by (simp_all add: upsert_in_def catalog_Upsert_def Let_def)

lemma saved_entry:
  assumes "HandleSaveLibrary e (Some req) s = (s1, Saved hash)"
  shows "\<exists>entry. catalog_entry hash s1 = Some entry \<and> en_Source entry = request_link req \<and>
    hc_catalog (sv_h s1) \<noteq> None"
proof -
  from assms obtain c where c: "hc_catalog (sv_h s) = Some c" and m: "prefix ''magnet:'' (ToLower (request_link req))"
    and s1: "s1 = upsert_in e (request_entry hash (request_link req) req) s"
    by (auto simp: HandleSaveLibrary_def Let_def split: if_splits sum.splits)
  have "request_link req \<noteq> ''''" using m by (auto simp: ToLower_def)
  then show ?thesis
    using upsert_in_catalog(1) [OF c, of e "request_entry hash (request_link req) req"]
    by (simp add: s1 catalog_entry_def catalog_Get_def Upsert_locked_def request_entry_def update_conv' merge_entry_def keep_def)
qed

lemma download_saved:
  assumes "hc_catalog (sv_h s) = Some c" "catalog_Get hash c = Some entry" "decode_hash hash \<noteq> None"
    and "prefix ''magnet:'' (ToLower (en_Source entry))" "re_magnet (ae_resolve e) (en_Source entry) = Some h"
  shows "snd (HandleDownloadSaved e hash s) = DlStarted hash \<and>
    h \<in> set (hc_torrents (sv_h (fst (HandleDownloadSaved e hash s)))) \<and>
    catalog_entry hash (fst (HandleDownloadSaved e hash s)) = Some (entry\<lparr>en_DownloadMode := ModeDisk\<rparr>) \<and>
    (\<forall>k. k \<noteq> hash \<longrightarrow> catalog_entry k (fst (HandleDownloadSaved e hash s)) = catalog_Get k c)"
proof -
  obtain s1 where r: "resolve_in e (en_Source entry) s = Inr (s1, h)" by (rule resolve_in_magnet [OF assms(4,5)])
  have ne: "en_Source entry \<noteq> ''''" using assms(4) by (auto simp: ToLower_def)
  let ?u = "(zero_Entry hash 0)\<lparr>en_DownloadMode := ModeDisk\<rparr>"
  let ?s2 = "set_mode e h True s1"
  have c2: "hc_catalog (sv_h ?s2) = Some c" "h \<in> set (hc_torrents (sv_h ?s2))"
    using resolve_in_frame(1,2) [OF r] assms(1) by (simp_all add: set_mode_def)
  have m: "merge_entry ?u entry = entry\<lparr>en_DownloadMode := ModeDisk\<rparr>"
    by (simp add: merge_entry_def zero_Entry_def keep_def keep_int_def ModeDisk_def)
  let ?s4 = "fst (HandleDownloadSaved e hash s)"
  have "hc_catalog (sv_h ?s4) = Some (Upsert_locked (ae_now e) ?u c) \<and> h \<in> set (hc_torrents (sv_h ?s4)) \<and>
      snd (HandleDownloadSaved e hash s) = DlStarted hash"
    using upsert_in_catalog [OF c2(1), of e ?u] assms(1-3) ne r c2(2)
    by (simp add: HandleDownloadSaved_def Let_def download_all_def)
  then show ?thesis
    using assms(2) m
    by (simp add: catalog_entry_def catalog_Get_def Upsert_locked_def update_conv' find_or_new_def zero_Entry_def)
qed

text \<open>
  C38. What becomes of a torrent that is saved from its magnet link and then downloaded. The torrent of
  the link is added, and the reaper never drops it, when the infohash it was saved under is that of the
  link; saved under another one, which a hexadecimal link can bring about, it counts as idle like any
  other torrent.
\<close>

theorem saved_download_is_kept:
  assumes "HandleSaveLibrary e (Some req) s = (s1, Saved hash)"
    and "re_magnet (ae_resolve e2) (request_link req) = Some h"
    and "s2 = fst (HandleDownloadSaved e2 hash s1)"
  shows "h \<in> set (hc_torrents (sv_h s2)) \<and>
    (if hash = hex_encode h
     then h \<in> set (hc_torrents (fold (\<lambda>(now, cfg). ReapPlaybackSessions_tick now cfg) ticks (sv_h s2)))
     else isPersistentTorrent (hex_encode h) (sv_h s2) = isPersistentTorrent (hex_encode h) (sv_h s1))"
proof -
  from saved_entry [OF assms(1)] obtain entry c where en: "hc_catalog (sv_h s1) = Some c" "catalog_Get hash c = Some entry"
    "en_Source entry = request_link req"
    by (auto simp: catalog_entry_def)
  from assms(1) have m: "prefix ''magnet:'' (ToLower (request_link req))" and "infohashFromMagnet (request_link req) = Inr hash"
    by (auto simp: HandleSaveLibrary_def Let_def split: if_splits sum.splits)
  then obtain bs where "length bs = 20" "hash = hex_encode bs" using infohash_canonical by blast
  then have d: "decode_hash hash \<noteq> None" using decode_hash_encode by simp
  from download_saved [OF en(1,2) d, of e2 h] m assms(2) en(3)
  have dl: "h \<in> set (hc_torrents (sv_h s2))" "catalog_entry hash s2 = Some (entry\<lparr>en_DownloadMode := ModeDisk\<rparr>)"
    "\<And>k. k \<noteq> hash \<Longrightarrow> catalog_entry k s2 = catalog_Get k c"
    unfolding assms(3) by simp_all
  have p: "isPersistentTorrent k (sv_h x) =
      (case catalog_entry k x of None \<Rightarrow> False | Some e \<Rightarrow> en_Pinned e \<or> en_DownloadMode e = ModeDisk)" for k x
    by (simp add: isPersistentTorrent_def catalog_entry_def split: option.split)
  show ?thesis
  proof (cases "hash = hex_encode h")
    case True
    then have "isPersistentTorrent (hex_encode h) (sv_h s2)" using dl(2) by (simp add: p)
    with True dl(1) show ?thesis by (simp add: ticks_keep_persistent)
  next
    case False
    then have "catalog_entry (hex_encode h) s2 = catalog_entry (hex_encode h) s1"
      using dl(3) [of "hex_encode h"] en(1) by (simp add: catalog_entry_def)
    with False dl(1) show ?thesis by (simp add: p)
  qed
qed

definition demo_request :: TorrentFilesRequest where
  "demo_request =
     \<lparr>rq_Title = ''t'', rq_Link = None, rq_MagnetUri = Some (magnet_of (hex_encode demo_hash) []), rq_MediaType = None,
      rq_NumberOfSeasons = None, rq_OriginalTitle = None, rq_Poster = None, rq_TmdbId = None, rq_DownloadMode = None\<rparr>"

theorem saved_download_is_kept_witness:
  "\<exists>s1 hash. HandleSaveLibrary demo_api (Some demo_request) demo_idle = (s1, Saved hash) \<and>
     demo_hash \<in> set (hc_torrents (sv_h (fst (HandleDownloadSaved (demo_api\<lparr>ae_resolve := demo_magnet\<rparr>) hash s1))))"
proof -
  have link: "request_link demo_request = magnet_of (hex_encode demo_hash) []"
    by (simp add: request_link_def demo_request_def opt_str_def magnet_of_def)
  have "length demo_hash = 20" by (simp add: demo_hash_def)
  then obtain x where x: "infohashFromMagnet (magnet_of (hex_encode demo_hash) []) = Inr (hex_encode x)"
    using infohash_hex infohash_misread by metis
  have "prefix ''magnet:'' (ToLower (magnet_of (hex_encode demo_hash) []))" by code_simp
  then obtain s1 where s: "HandleSaveLibrary demo_api (Some demo_request) demo_idle = (s1, Saved (hex_encode x))"
    using x by (simp add: HandleSaveLibrary_def Let_def link demo_idle_def)
  from saved_download_is_kept [OF s _ refl, of "demo_api\<lparr>ae_resolve := demo_magnet\<rparr>" demo_hash] s
  show ?thesis by (auto simp: demo_magnet_def)
qed

end
