(* ===== verification/Server.thy ===== *)
theory Server
  imports Management
begin

text \<open>
  The process (\<^verbatim>\<open>main.go\<close>): the order in which it is put together at start, the middleware, and the table
  of routes with what guards them; the access log (\<^verbatim>\<open>handlers/accesslog.go\<close>) and the static pages
  (\<^verbatim>\<open>webui/embed.go\<close>). Matching a path against the patterns is the router's: it is an argument, of which the
  theorems ask that it picks a route of the table with the method of the request.
\<close>

section \<open>Start-up\<close>

datatype log_level = LevelDebug | LevelInfo | LevelWarn | LevelError

definition log_level_of :: "Config \<Rightarrow> log_level" where
  "log_level_of cfg =
     (let l = ToLower (cfg_LogLevel cfg)
      in if l = ''debug'' then LevelDebug else if l = ''warn'' then LevelWarn
         else if l = ''error'' then LevelError else LevelInfo)"

text \<open>
  The state once \<^verbatim>\<open>main\<close> listens: the configuration, the storage with the persisted budget, the handler
  context with the persisted catalog, and the thumbnail cache. Restoring the pinned torrents is
  \<open>RestorePinned\<close> on the server, in a goroutine.
\<close>

definition start_world :: "Config \<Rightarrow> settings_faults \<Rightarrow> settings_fs \<Rightarrow> filesys \<Rightarrow> world" where
  "start_world cfg sf sfs fs =
     ApplyPersistedSettings sf (Some cfg) sfs (NewStorage (cfg_CacheSizeBytes cfg) (cfg_DownloadDir cfg) fs)"

definition start_server ::
  "environment \<Rightarrow> settings_faults \<Rightarrow> catalog_faults \<Rightarrow> settings_fs \<Rightarrow> catalog_fs \<Rightarrow> filesys \<Rightarrow> server \<times> ThumbnailCache"
where
  "start_server env sf cf sfs cfs fs =
     (let cfg = LoadConfig env
      in (\<lparr>sv_h = NewHandlerContext cf (Some cfg) cfs [], sv_world = start_world cfg sf sfs fs, sv_trackers = [],
           sv_downloads = [], sv_monitor = NewMonitor, sv_config = Some cfg\<rparr>,
          NewThumbnailCache (cfg_ThumbCacheSize cfg) (cfg_ThumbCacheTTL cfg)))"

section \<open>Middleware\<close>

record http_request =
  hr_Method :: string
  hr_Path :: string
  hr_Origin :: string
  hr_RequestHeaders :: string
  hr_Credentials :: "(string \<times> string) option"

record cors_headers =
  ch_AllowOrigin :: string
  ch_AllowCredentials :: bool
  ch_AllowMethods :: string
  ch_AllowHeaders :: string
  ch_AllowPrivateNetwork :: bool
  ch_ExposeHeaders :: string

definition cors_of :: "http_request \<Rightarrow> cors_headers" where
  "cors_of r =
     \<lparr>ch_AllowOrigin = (if hr_Origin r \<noteq> '''' then hr_Origin r else ''*''),
      ch_AllowCredentials = (hr_Origin r \<noteq> ''''),
      ch_AllowMethods = ''GET, POST, PUT, DELETE, OPTIONS'',
      ch_AllowHeaders = (if hr_RequestHeaders r \<noteq> '''' then hr_RequestHeaders r else ''*''),
      ch_AllowPrivateNetwork = True,
      ch_ExposeHeaders = ''Content-Range, Accept-Ranges, Content-Length, Content-Type''\<rparr>"

definition CORSMiddleware :: "(http_request \<Rightarrow> 'a) \<Rightarrow> 'a \<Rightarrow> http_request \<Rightarrow> cors_headers \<times> 'a" where
  "CORSMiddleware nxt preflight r = (cors_of r, if hr_Method r = ''OPTIONS'' then preflight else nxt r)"

text \<open>The access log: successes of the polled paths are not logged, failures always are.\<close>

definition contains :: "string \<Rightarrow> string \<Rightarrow> bool" where
  "contains p s \<longleftrightarrow> (\<exists>i \<in> set [0..<Suc (length s)]. prefix p (drop i s))"

definition statusPollPath :: "string \<Rightarrow> bool" where
  "statusPollPath p \<longleftrightarrow>
     (let pre = ''/api/torrents/''; h = drop (length pre) p
      in prefix pre p \<and> length h = 40 \<and> list_all is_hex_digit h)"

definition quietAccessPath :: "http_request \<Rightarrow> bool" where
  "quietAccessPath r =
     (let p = hr_Path r
      in if p = ''/health'' \<or> p = ''/health/'' then True
         else if p = ''/api/playback/keepalive'' \<or> p = ''/api/playback/stop'' then True
         else if suffix ''/thumbnail'' p then True
         else if contains ''/hls/'' p then True
         else hr_Method r = ''GET'' \<and> statusPollPath p)"

definition AccessLog :: "http_request \<Rightarrow> int \<Rightarrow> log_level option" where
  "AccessLog r written =
     (let status = (if written = 0 then 200 else written)
      in if 500 \<le> status then Some LevelError
         else if 400 \<le> status then Some LevelWarn
         else if quietAccessPath r then None else Some LevelInfo)"

text \<open>The static pages: a path that names no embedded file is answered with the start page.\<close>

definition webui_path :: "(string \<Rightarrow> bool) \<Rightarrow> string \<Rightarrow> string" where
  "webui_path stat path =
     (let p = (let q = TrimPrefix path ''/'' in if q = '''' then ''index.html'' else q)
      in if stat p then path else ''/'')"

section \<open>Routes\<close>

datatype endpoint =
    Health | OpenAPI | Scalar
  | GetFiles | GetStatus | GetDiagnostics | DeleteTorrent | GetMediaMetadata | GetThumbnail | GetSubtitles
  | GetExternalSubtitleFile | Hls | Stream
  | PlaybackKeepalive | PlaybackStop
  | ListTorrents | TorrentFileList | ManageStats | GetSettings | SetSettings | Diagnostics | TmdbLookup
  | SaveLibrary | DownloadSaved | PinTorrent | UnpinTorrent | WebUI

text \<open>A route: its method (empty for all of them), its pattern, its endpoint and whether it asks for a password.\<close>

type_synonym route = "string \<times> string \<times> endpoint \<times> bool"

definition open_routes :: "route list" where
  "open_routes =
    [(''GET'', ''/health'', Health, False), (''GET'', ''/openapi.yaml'', OpenAPI, False),
     (''GET'', ''/scalar'', Scalar, False),
     (''POST'', ''/api/torrents/'', GetFiles, False), (''GET'', ''/api/torrents/{hash}'', GetStatus, False),
     (''GET'', ''/api/torrents/{hash}/diagnostics'', GetDiagnostics, False),
     (''DELETE'', ''/api/torrents/{hash}'', DeleteTorrent, False),
     (''GET'', ''/api/torrents/{hash}/files/{fileIndex}/metadata'', GetMediaMetadata, False),
     (''GET'', ''/api/torrents/{hash}/files/{fileIndex}/thumbnail'', GetThumbnail, False),
     (''GET'', ''/api/torrents/{hash}/files/{fileIndex}/subtitles/{trackIndex}'', GetSubtitles, False),
     (''GET'', ''/api/torrents/{hash}/files/{fileIndex}/subtitle-file'', GetExternalSubtitleFile, False),
     (''GET'', ''/api/torrents/{hash}/files/{fileIndex}/hls/*'', Hls, False),
     (''GET'', ''/api/torrents/{hash}/files/{fileIndex}/stream'', Stream, False),
     (''GET'', ''/api/torrents/{hash}/files/{fileIndex}/stream/{filename}'', Stream, False),
     (''HEAD'', ''/api/torrents/{hash}/files/{fileIndex}/stream'', Stream, False),
     (''HEAD'', ''/api/torrents/{hash}/files/{fileIndex}/stream/{filename}'', Stream, False),
     (''POST'', ''/api/playback/keepalive'', PlaybackKeepalive, False),
     (''POST'', ''/api/playback/stop'', PlaybackStop, False),
     (''GET'', ''/stream/{hash}/{fileIndex}'', Stream, False),
     (''GET'', ''/stream/{hash}/{fileIndex}/{filename}'', Stream, False),
     (''GET'', ''/stream/{hash}/{fileIndex}/subtitles/{trackIndex}'', GetSubtitles, False),
     (''HEAD'', ''/stream/{hash}/{fileIndex}'', Stream, False),
     (''HEAD'', ''/stream/{hash}/{fileIndex}/{filename}'', Stream, False)]"

definition management_routes :: "route list" where
  "management_routes =
    [(''GET'', ''/api/manage/torrents'', ListTorrents, True),
     (''GET'', ''/api/manage/torrents/{hash}/files'', TorrentFileList, True),
     (''GET'', ''/api/manage/stats'', ManageStats, True),
     (''GET'', ''/api/manage/settings'', GetSettings, True),
     (''POST'', ''/api/manage/settings'', SetSettings, True),
     (''GET'', ''/api/manage/diagnostics'', Diagnostics, True),
     (''GET'', ''/api/manage/tmdb'', TmdbLookup, True),
     (''POST'', ''/api/manage/library'', SaveLibrary, True),
     (''POST'', ''/api/manage/torrents/{hash}/download'', DownloadSaved, True),
     (''POST'', ''/api/manage/torrents/{hash}/pin'', PinTorrent, True),
     (''DELETE'', ''/api/manage/torrents/{hash}/pin'', UnpinTorrent, True),
     ('''', ''/*'', WebUI, True)]"

definition routes :: "Config \<Rightarrow> route list" where
  "routes cfg = open_routes @ (if cfg_EnableWebUI cfg then management_routes else [])"

datatype reply = Preflight | NoRoute | Unauthorized | Served endpoint

definition run_route :: "Config \<Rightarrow> (route list \<Rightarrow> http_request \<Rightarrow> route option) \<Rightarrow> http_request \<Rightarrow> reply" where
  "run_route cfg router r =
     (case router (routes cfg) r of
        None \<Rightarrow> NoRoute
      | Some (m, pattern, ep, guarded) \<Rightarrow>
          if guarded \<and> \<not> BasicAuth cfg (hr_Credentials r) then Unauthorized else Served ep)"

definition serve :: "Config \<Rightarrow> (route list \<Rightarrow> http_request \<Rightarrow> route option) \<Rightarrow> http_request \<Rightarrow> cors_headers \<times> reply" where
  "serve cfg router r = CORSMiddleware (run_route cfg router) Preflight r"

section \<open>Properties\<close>

text \<open>What the theorems ask of the router.\<close>

definition router_picks :: "(route list \<Rightarrow> http_request \<Rightarrow> route option) \<Rightarrow> bool" where
  "router_picks router \<longleftrightarrow>
     (\<forall>rs r rt. router rs r = Some rt \<longrightarrow> rt \<in> set rs \<and> fst rt \<in> {'''', hr_Method r})"

definition manages :: "endpoint \<Rightarrow> bool" where
  "manages ep \<longleftrightarrow> ep \<in> {ListTorrents, TorrentFileList, ManageStats, GetSettings, SetSettings, Diagnostics, TmdbLookup,
     SaveLibrary, DownloadSaved, PinTorrent, UnpinTorrent, WebUI}"

lemma open_routes_unmanaged: "(m, p, ep, g) \<in> set open_routes \<Longrightarrow> \<not> manages ep \<and> \<not> g"
  by (auto simp: open_routes_def manages_def)

lemma management_routes_guarded: "(m, p, ep, g) \<in> set management_routes \<Longrightarrow> manages ep \<and> g"
  by (auto simp: management_routes_def manages_def)

text \<open>
  C39. Whatever the router makes of a path, an endpoint of the management is served only when the web
  interface is enabled, and, if a user is configured, only to a request with that user and password; and
  no other endpoint ever asks for a password.
\<close>

theorem management_is_guarded:
  assumes "router_picks router"
  shows "(snd (serve cfg router r) = Served ep \<and> manages ep \<longrightarrow>
      cfg_EnableWebUI cfg \<and>
      (cfg_AuthUser cfg = '''' \<or> hr_Credentials r = Some (cfg_AuthUser cfg, cfg_AuthPass cfg))) \<and>
    (snd (serve cfg router r) = Unauthorized \<longrightarrow>
      (\<exists>m p ep g. router (routes cfg) r = Some (m, p, ep, g) \<and> manages ep))"
proof (cases "router (routes cfg) r")
  case (Some rt)
  obtain m p e g where rt: "rt = (m, p, e, g)" by (metis prod_cases4)
  have "rt \<in> set (routes cfg)" using assms Some unfolding router_picks_def by blast
  then have "manages e = g \<and> (g \<longrightarrow> cfg_EnableWebUI cfg)"
    by (auto simp: rt routes_def split: if_splits dest: open_routes_unmanaged management_routes_guarded)
  then show ?thesis
    using Some by (auto simp: serve_def CORSMiddleware_def run_route_def rt BasicAuth_def split: option.splits if_splits)
qed (auto simp: serve_def CORSMiddleware_def run_route_def)

definition demo_router :: "route list \<Rightarrow> http_request \<Rightarrow> route option" where
  "demo_router rs r = List.find (\<lambda>rt. fst rt = hr_Method r \<and> fst (snd rt) = hr_Path r) rs"

theorem management_is_guarded_witness:
  "snd (serve (demo_config\<lparr>cfg_EnableWebUI := True, cfg_AuthUser := ''u'', cfg_AuthPass := ''p''\<rparr>) demo_router
     \<lparr>hr_Method = ''GET'', hr_Path = ''/api/manage/stats'', hr_Origin = '''', hr_RequestHeaders = '''',
      hr_Credentials = Some (''u'', ''x'')\<rparr>) \<noteq> Served ManageStats"
proof -
  have "router_picks demo_router"
    unfolding router_picks_def demo_router_def find_Some_iff by (auto simp del: split_paired_All split_paired_Ex)
  from management_is_guarded [OF this, of "demo_config\<lparr>cfg_EnableWebUI := True, cfg_AuthUser := ''u'', cfg_AuthPass := ''p''\<rparr>"
      "\<lparr>hr_Method = ''GET'', hr_Path = ''/api/manage/stats'', hr_Origin = '''', hr_RequestHeaders = '''',
        hr_Credentials = Some (''u'', ''x'')\<rparr>" ManageStats]
  show ?thesis by (auto simp: manages_def)
qed

text \<open>
  The cross-origin headers are set before the route is known: every origin is allowed, with credentials,
  to send requests to the management and to read its answers.
\<close>

lemma every_origin_may_manage:
  assumes "hr_Origin r \<noteq> ''''"
  shows "ch_AllowOrigin (fst (serve cfg router r)) = hr_Origin r \<and> ch_AllowCredentials (fst (serve cfg router r))"
  using assms by (simp add: serve_def CORSMiddleware_def cors_of_def)

lemma failures_are_logged: "400 \<le> status \<Longrightarrow> AccessLog r status \<noteq> None"
  by (simp add: AccessLog_def Let_def)

text \<open>A persisted budget overrides the one of the environment, and the limits follow it.\<close>

lemma start_budget:
  assumes "settingsPath (Some cfg) \<noteq> ''''" "\<not> sf_read sf" "sfs (settingsPath (Some cfg)) = Some (SettingsJson b)" "0 < b"
  shows "currentSettings (start_world cfg sf sfs fs) =
    (currentSettings (NewStorage b (cfg_DownloadDir cfg) fs))
      \<lparr>se_CacheFilled := s_globalFilled (start_world cfg sf sfs fs)\<rparr>"
  using assms
  by (simp add: start_world_def ApplyPersistedSettings_def Let_def currentSettings_def SetGlobalCapacity_capacity
      DerivedMaxStreams_def DerivedMaxAudioTranscoders_def NewStorage_def)

end
