(* ===== verification/Spec2Isabelle.thy ===== *)
theory Spec2Isabelle
  imports MemPiece DiskBacking ReadClass World Cache Storage Accounting Eviction Priorities Reader
    Waiting MediaCaches GoText Gates Rendition RenditionRuns Catalog Playback KeyframeIndex HlsIndex
    Seekable SegmentMux AudioCont IntroMatch FileStream HlsRoutes MasterPlaylist
    TorrentFiles MediaProbe SubtitleText Subtitles LibavHeap HwAccel VideoSetup VideoEncoder AudioEncoder
    Extract SegmentRun SegmentStreams Thumbnails Sidecar Resolve Config TorrentApi Management Server
begin

text \<open>
  A verification library of a torrent streaming server written in Go.

  \<^bold>\<open>The program.\<close> The server downloads torrents into a bounded memory cache and plays their files
  while they download. The torrent client delivers blocks to the storage (\<^verbatim>\<open>storage/\<close>); readers hand file
  bytes to progressive HTTP clients (\<^verbatim>\<open>handlers/stream.go\<close>) and to the media pipeline (\<^verbatim>\<open>media/\<close>), which
  cuts them into HLS segments on demand (\<^verbatim>\<open>handlers/hls*.go\<close>). Playback sessions decide how long a torrent
  lives (\<^verbatim>\<open>handlers/playback.go\<close>), a catalog remembers titles and pins (\<^verbatim>\<open>catalog/\<close>), and admission gates bound
  how many extractions and transcodes run at once (\<^verbatim>\<open>handlers/executor.go\<close>, \<^verbatim>\<open>media/rendition/\<close>,
  \<^verbatim>\<open>media/transcode_gate.go\<close>).

  \<^bold>\<open>Shared theories.\<close> \<open>Prelude\<close>: Go slices, truncating division, association lists for Go maps, the
  error values. \<open>GoText\<close>: the parts of \<^verbatim>\<open>strings\<close>, \<^verbatim>\<open>strconv\<close> and \<^verbatim>\<open>encoding/hex\<close> the sources call, with the
  round trips of decimal and hexadecimal text; \<open>wrap64\<close> is \<^verbatim>\<open>int64\<close> arithmetic. \<open>Seekable\<close>: the contract of
  \<^verbatim>\<open>io.Seeker\<close> as a locale, interpreted on the storage reader, the caching reader and the memory buffer.

  \<^bold>\<open>Storage.\<close> \<open>MemPiece\<close> (\<^verbatim>\<open>storage/mempiece.go\<close>): one piece in memory, its block map and its wake-up
  channel; a range reported ready reads as the torrent's bytes, and no reader sleeps through its wake-up.
  \<open>DiskBacking\<close> (\<^verbatim>\<open>storage/disk.go\<close>): the on-disk pieces and their bitmap over a file system with faults; it
  refines a map from pieces to bytes and never serves anything but verified bytes. \<open>ReadClass\<close>: the read
  policies. \<open>World\<close>, \<open>Cache\<close>, \<open>Storage\<close> (\<^verbatim>\<open>storage/cache.go\<close>, \<^verbatim>\<open>storage.go\<close>, \<^verbatim>\<open>piece.go\<close>): the heap of
  caches, pieces and readers, and every operation on it. \<open>Accounting\<close>: the byte counters are exact in every
  reachable state. \<open>Eviction\<close>: the global and the local pass enforce the budget in LRU order and spare what
  readers need. \<open>Priorities\<close>: the piece priorities are the maximum over the readers. \<open>Reader\<close>
  (\<^verbatim>\<open>storage/reader.go\<close>): a read returns the file's bytes whatever happens while it waits, and returns at once
  over resident pieces. \<open>Waiting\<close> (\<^verbatim>\<open>storage/preload.go\<close>): preloading always returns. Other goroutines act at
  explicit points: a step relation for the storage, lists of wake-ups and interferences for the reader.

  \<^bold>\<open>Caches and gates.\<close> \<open>MediaCaches\<close> (\<^verbatim>\<open>handlers/hlscache.go\<close>, \<^verbatim>\<open>thumbnails.go\<close>): two LRU caches against the
  locale of a lossy map: bounded, and a hit is the last value stored. \<open>Gates\<close> (\<^verbatim>\<open>handlers/executor.go\<close>,
  \<^verbatim>\<open>media/rendition/admission.go\<close>, \<^verbatim>\<open>media/transcode_gate.go\<close>): three counting gates against the locale of a token
  gate; the executor with concurrent callers as a step relation. \<open>Rendition\<close> and \<open>RenditionRuns\<close>
  (\<^verbatim>\<open>media/rendition/\<close>): acquiring a rendition step by step, interleaved with other callers; tokens balance,
  pipelines are closed once, a result is what was requested, a failure is final.

  \<^bold>\<open>Lifetime.\<close> \<open>Catalog\<close> (\<^verbatim>\<open>catalog/catalog.go\<close>): the entries survive a restart when mutations do not overlap.
  \<open>Playback\<close> (\<^verbatim>\<open>handlers/playback.go\<close>, the drop path of \<^verbatim>\<open>handlers/torrents.go\<close>): the reaper spares watched
  torrents within one tick, sessions fit the budget, and the window between its decision and the drop.

  \<^bold>\<open>Requests.\<close> \<open>Resolve\<close> (\<^verbatim>\<open>bt/resolve.go\<close>): from a link to a torrent of the client, with the check of the host before
  anything is fetched. \<open>Config\<close> (\<^verbatim>\<open>config/config.go\<close>, \<^verbatim>\<open>auth/middleware.go\<close>, \<^verbatim>\<open>speed/monitor.go\<close>): the settings of the
  environment, the password check, the speeds of the last second. \<open>TorrentApi\<close> (\<^verbatim>\<open>handlers/torrents.go\<close>): adding,
  listing and describing torrents; the ids it lists open the files they show. \<open>Management\<close> (\<^verbatim>\<open>handlers/manage.go\<close>,
  \<^verbatim>\<open>library.go\<close>, \<^verbatim>\<open>settings.go\<close>, \<^verbatim>\<open>diagnostics.go\<close>, \<^verbatim>\<open>tmdb.go\<close>): pins and settings survive a restart, and a saved
  torrent is kept; here the catalog, the reaper and the storage meet. \<open>Server\<close> (\<^verbatim>\<open>main.go\<close>, \<^verbatim>\<open>handlers/accesslog.go\<close>,
  \<^verbatim>\<open>webui/embed.go\<close>): start-up, middleware and routes; management is behind the password.

  \<^bold>\<open>Media.\<close> \<open>KeyframeIndex\<close> (\<^verbatim>\<open>handlers/mkvindex.go\<close>, \<^verbatim>\<open>mp4index.go\<close>): both index readers against a reading of
  the whole document. \<open>HlsIndex\<close> (\<^verbatim>\<open>handlers/hlsindex.go\<close>): the segment list tiles the content and is cut on
  keyframes of that index. \<open>SegmentMux\<close> (\<^verbatim>\<open>media/segment.go\<close>, \<^verbatim>\<open>output.go\<close>): copied segments are gapless. \<open>AudioCont\<close>
  (\<^verbatim>\<open>media/audiocont.go\<close>, \<^verbatim>\<open>handlers/hlsaudiocont.go\<close>): the audio segments of a playlist carry every encoded
  frame exactly once. \<open>HlsRoutes\<close>, \<open>MasterPlaylist\<close> (\<^verbatim>\<open>handlers/hls.go\<close>, \<^verbatim>\<open>external.go\<close>): paths, playlists, the cache
  in front of the producers, track names. \<open>FileStream\<close> (\<^verbatim>\<open>handlers/stream.go\<close>): the reader that serves headers
  from memory, proved on top of the storage reader. \<open>IntroMatch\<close> (\<^verbatim>\<open>handlers/analyzer.go\<close>): intro detection.
  \<open>TorrentFiles\<close> (\<^verbatim>\<open>handlers/stream.go\<close>, \<^verbatim>\<open>hlsindex.go\<close>): from the text of a URL to a reader over a file.
  \<open>MediaProbe\<close> (\<^verbatim>\<open>media/probe.go\<close>, \<^verbatim>\<open>handlers/hlsmedia.go\<close>, \<^verbatim>\<open>metadata.go\<close>): tracks, the stream layout with its
  retries, the metadata and the flights that share its probe. \<open>SubtitleText\<close> and \<open>Subtitles\<close>
  (\<^verbatim>\<open>media/subtitle.go\<close>, \<^verbatim>\<open>handlers/subtitles.go\<close>): cues, times and both renderings; the extraction of files and
  windows, with the cache as an invariant over every reachable state. \<open>Extract\<close> (\<^verbatim>\<open>media/avio.go\<close>, \<^verbatim>\<open>thumbnail.go\<close>,
  \<^verbatim>\<open>audiopcm.go\<close>): one picture and the samples of a window, each a fixed result that leaves no object of libav behind.
  \<open>Thumbnails\<close> (\<^verbatim>\<open>handlers/thumbnails.go\<close>): the endpoint over cache, reader and extraction. \<open>Sidecar\<close>
  (\<^verbatim>\<open>handlers/external.go\<close>): a subtitle file is served as the reader gives it.

  \<^bold>\<open>Encoders.\<close> \<open>LibavHeap\<close>: the objects of libav are allocated and freed by hand; a function over them is a
  state transformer, and an ownership triple \<open>owns A m B\<close> says what it takes and what its result holds, with
  everything else untouched. \<open>HwAccel\<close> (\<^verbatim>\<open>media/hwaccel.go\<close>): the choice of the GPU against the first candidate
  that passes every test. \<open>VideoSetup\<close> and \<open>VideoEncoder\<close> (\<^verbatim>\<open>media/video.go\<close>, \<^verbatim>\<open>tone_map.go\<close>): the pipeline with
  its hardware variants and fallbacks, and the flow of frames through it; nothing leaks, adjacent segments
  share out the frames, the packets form a gapless track. \<open>AudioEncoder\<close> (\<^verbatim>\<open>media/audio.go\<close>): the samples of
  a window, reframed and contiguous in time. \<open>SegmentRun\<close> (\<^verbatim>\<open>media/segment.go\<close>, \<^verbatim>\<open>output.go\<close>) composes the gate,
  the demuxer input and both encoders to the whole calls of \<^verbatim>\<open>Segment\<close> and \<^verbatim>\<open>InitSegment\<close>, which leave nothing
  behind; \<open>SegmentStreams\<close> shows that an encoder leaves the other streams of the shared writer alone, so what
  \<open>SegmentMux\<close> says of a copied stream holds beside any transcode. What libav answers to each call is a record of answers, nested
  like the calls.

  \<^bold>\<open>How the model relates to the code.\<close> A critical section under one lock is one operation; where the
  code releases a lock in between, the operation is split there and the parts are steps that others can
  come between. Go maps that are ranged over are association lists whose order no theorem fixes.
  \<^verbatim>\<open>time.Now()\<close>, random identifiers, I/O faults and what a \<^verbatim>\<open>select\<close> receives are arguments. Counts and
  offsets are unbounded integers except where the code can wrap: there \<open>wrap64\<close> or a word type is used.
  Floating-point seconds are exact rationals. A panic is a value of the result. Lists of rounds, wake-ups
  and calls take the place of loops that wait; a run that uses up its list has not returned, and the
  theorems that a call returns give a list that is long enough (one wake-up per piece for a preload, one
  element per byte for a read over resident pieces). All other loops are total functions with a
  termination proof.

  \<^bold>\<open>Third-party code\<close> is an argument: the torrent client (its calls are recorded, its lengths given), the
  container parsers (their events and boxes), libav (packets, encoders, rescaling, failures of the muxer),
  JSON decoding, the URL parser, the network and the external fingerprinter. What is assumed of it is stated where it is used: an encoder
  returns its frames in order (\<open>encoder_law\<close>), rescaling changes timestamps only (\<open>rescale_ok\<close>).

  \<^bold>\<open>Defects.\<close> Theorems of the error kind and the lemmas beside them describe interleavings or inputs for
  which the code does not do what its comments say: a catalog snapshot that overwrites a newer one, a drop
  of a torrent that has just been picked up again, external audio cached across videos, a missed seek and a
  miscounted transcoder, a write that is counted although its piece is gone, an unchecked MP4 table, frames
  lost at segment boundaries when the source reorders them, a frame encoded twice after a swallowed error, two
  kinds of request that share the flights of one group, an infohash in hexadecimal read as base32, a pin that
  protects nothing, a version 2 infohash cut in half, addresses that the host check lets through.

  \<^bold>\<open>Not modelled.\<close> The options handed to the torrent client (\<^verbatim>\<open>bt/engine.go\<close>), the colouring of log lines
  (\<^verbatim>\<open>loghandler.go\<close>, \<^verbatim>\<open>media/logging.go\<close>) and a static page (\<^verbatim>\<open>handlers/scalar.go\<close>), which compute nothing; of \<^verbatim>\<open>main.go\<close>
  the limits of the operating system, the signal handler and the listener. Log lines are left out throughout, and
  JSON is kept as the records it encodes.
\<close>

end
